(* ===== verification/JS_Prelude.thy ===== *)
theory JS_Prelude
  imports Main "HOL-Library.Word" "HOL-Library.AList" "HOL-Library.Log_Nat"
begin

text \<open>
  What every component of the development shares: the errors the code throws and the result
  type that carries them, state passing with errors (a method of a class that may throw), the
  JavaScript number operations the source uses (32-bit bitwise operators, exact integer
  arithmetic of doubles), and insertion-ordered maps, which is what a JavaScript \<open>Map\<close> is.
\<close>

unbundle bit_operations_syntax

named_theorems js_defs \<open>definitions of the JavaScript operators, for unfolding on concrete values\<close>
named_theorems codec_simps \<open>facts about reading back what an encoder wrote\<close>

section \<open>Bytes, errors and results\<close>

type_synonym byte = "8 word"
type_synonym bytes = "byte list"

lemma unat_byte_less [simp]: "unat (b :: byte) < 256"
  using unsigned_less [where ?'a = nat, of b] by simp

lemma uint_byte_less [simp]: "uint (b :: byte) < 256"
  using uint_lt2p [of b] by simp

lemma byte_of_int_eqI: "x mod 256 = uint b \<Longrightarrow> word_of_int x = b" for b :: byte
  by (simp add: word_uint_eq_iff uint_word_of_int take_bit_eq_mod)

text \<open>
  The error classes the source throws and lets pass. \<open>RangeError\<close> and \<open>TypeError\<close> are the built-in ones
  (a \<open>Buffer\<close> accessor outside the buffer, a property of \<open>undefined\<close>).
\<close>

datatype js_error =
    Error string
  | SerializationError string
  | RuleError string
  | RuleConditionError string
  | RestError string int int
  | VariantError string
  | AxiosError string
  | SecurityException string
  | InvalidArgumentsException string
  | RangeError string
  | TypeError string

type_synonym 'a result = "js_error + 'a"

fun res_bind :: "'a result \<Rightarrow> ('a \<Rightarrow> 'b result) \<Rightarrow> 'b result" where
  "res_bind (Inl e) f = Inl e"
| "res_bind (Inr x) f = f x"

lemma res_bind_Inr_iff:
  "res_bind m f = Inr y \<longleftrightarrow> (\<exists>x. m = Inr x \<and> f x = Inr y)"
  by (cases m) auto

lemma res_bind_Inl_iff:
  "res_bind m f = Inl e \<longleftrightarrow> m = Inl e \<or> (\<exists>x. m = Inr x \<and> f x = Inl e)"
  by (cases m) auto

lemma res_bind_assoc: "res_bind (res_bind m f) g = res_bind m (\<lambda>x. res_bind (f x) g)"
  by (cases m) auto

lemma res_bind_cong [fundef_cong]:
  "m = m' \<Longrightarrow> (\<And>x. m' = Inr x \<Longrightarrow> f x = f' x) \<Longrightarrow> res_bind m f = res_bind m' f'"
  by (cases m') auto

definition res_guard :: "bool \<Rightarrow> js_error \<Rightarrow> unit result" where
  "res_guard b e = (if b then Inr () else Inl e)"

lemma res_guard_Inr_iff [simp]: "res_guard b e = Inr u \<longleftrightarrow> b"
  by (simp add: res_guard_def)

lemma res_guard_Inl_iff [simp]: "res_guard b e = Inl e' \<longleftrightarrow> \<not> b \<and> e' = e"
  by (auto simp: res_guard_def)

lemma res_bind_guard:
  "res_bind (res_guard b e) f = (if b then f () else Inl e)"
  by (simp add: res_guard_def)

text \<open>Evaluating a list of fallible computations from left to right, as a \<open>for\<close> loop does.\<close>

fun res_map :: "('a \<Rightarrow> 'b result) \<Rightarrow> 'a list \<Rightarrow> 'b list result" where
  "res_map f [] = Inr []"
| "res_map f (x # xs) = res_bind (f x) (\<lambda>y. res_bind (res_map f xs) (\<lambda>ys. Inr (y # ys)))"

lemma res_map_cong [fundef_cong]:
  "xs = ys \<Longrightarrow> (\<And>x. x \<in> set ys \<Longrightarrow> f x = g x) \<Longrightarrow> res_map f xs = res_map g ys"
  by (induction ys arbitrary: xs) auto

lemma res_map_Inr:
  "(\<And>x. x \<in> set xs \<Longrightarrow> f x = Inr (g x)) \<Longrightarrow> res_map f xs = Inr (map g xs)"
  by (induction xs) auto

lemma res_map_Inr_iff:
  "res_map f xs = Inr ys \<longleftrightarrow> list_all2 (\<lambda>x y. f x = Inr y) xs ys"
proof (induction xs arbitrary: ys)
  case Nil
  then show ?case by auto
next
  case (Cons x xs)
  then show ?case by (cases ys) (auto simp: res_bind_Inr_iff)
qed

section \<open>Methods: state passing with errors\<close>

text \<open>
  A method that may throw maps the state of the object to the state it leaves behind and a
  result. The state survives an exception, as the object does.
\<close>

type_synonym ('s, 'a) meth = "'s \<Rightarrow> 's \<times> 'a result"

definition m_return :: "'a \<Rightarrow> ('s, 'a) meth" where
  "m_return x = (\<lambda>s. (s, Inr x))"

definition m_throw :: "js_error \<Rightarrow> ('s, 'a) meth" where
  "m_throw e = (\<lambda>s. (s, Inl e))"

definition m_bind :: "('s, 'a) meth \<Rightarrow> ('a \<Rightarrow> ('s, 'b) meth) \<Rightarrow> ('s, 'b) meth" where
  "m_bind m f = (\<lambda>s. case m s of (s', Inl e) \<Rightarrow> (s', Inl e) | (s', Inr x) \<Rightarrow> f x s')"

definition m_catch :: "('s, 'a) meth \<Rightarrow> (js_error \<Rightarrow> ('s, 'a) meth) \<Rightarrow> ('s, 'a) meth" where
  "m_catch m h = (\<lambda>s. case m s of (s', Inl e) \<Rightarrow> h e s' | (s', Inr x) \<Rightarrow> (s', Inr x))"

definition m_lift :: "'a result \<Rightarrow> ('s, 'a) meth" where
  "m_lift r = (\<lambda>s. (s, r))"

lemma m_bind_apply:
  "m_bind m f s = (case m s of (s', Inl e) \<Rightarrow> (s', Inl e) | (s', Inr x) \<Rightarrow> f x s')"
  by (simp add: m_bind_def)

lemma m_return_apply [simp]: "m_return x s = (s, Inr x)"
  by (simp add: m_return_def)

lemma m_throw_apply [simp]: "m_throw e s = (s, Inl e)"
  by (simp add: m_throw_def)

lemma m_lift_apply [simp]: "m_lift r s = (s, r)"
  by (simp add: m_lift_def)

lemma m_bind_return [simp]: "m_bind (m_return x) f = f x"
  by (rule ext) (simp add: m_bind_def)

lemma m_bind_throw [simp]: "m_bind (m_throw e) f = m_throw e"
  by (rule ext) (simp add: m_bind_def)

lemma m_bind_Inr:
  "m s = (s', Inr x) \<Longrightarrow> m_bind m f s = f x s'"
  by (simp add: m_bind_def)

lemma m_bind_Inl:
  "m s = (s', Inl e) \<Longrightarrow> m_bind m f s = (s', Inl e)"
  by (simp add: m_bind_def)

lemma m_bind_eq_Inr_iff:
  "m_bind m f s = (t, Inr y) \<longleftrightarrow> (\<exists>s' x. m s = (s', Inr x) \<and> f x s' = (t, Inr y))"
  by (auto simp: m_bind_def split: prod.splits sum.splits)

lemma m_catch_Inr: "m s = (s', Inr x) \<Longrightarrow> m_catch m h s = (s', Inr x)"
  by (simp add: m_catch_def)

lemma m_catch_Inl: "m s = (s', Inl e) \<Longrightarrow> m_catch m h s = h e s'"
  by (simp add: m_catch_def)

section \<open>Numbers\<close>

text \<open>
  The bitwise operators convert their operands to 32-bit two's complement first
  (\<open>to_int32\<close>); \<open>>>>\<close> converts to an unsigned 32-bit number (\<open>to_uint32\<close>). A number that is an
  integer is an \<open>int\<close>.
\<close>

definition to_int32 :: "int \<Rightarrow> int" where
  [js_defs]: "to_int32 x = signed_take_bit 31 x"

definition to_uint32 :: "int \<Rightarrow> int" where
  [js_defs]: "to_uint32 x = take_bit 32 x"

definition js_and :: "int \<Rightarrow> int \<Rightarrow> int" where
  [js_defs]: "js_and a b = to_int32 a AND to_int32 b"

definition js_or :: "int \<Rightarrow> int \<Rightarrow> int" where
  [js_defs]: "js_or a b = to_int32 a OR to_int32 b"

definition js_xor :: "int \<Rightarrow> int \<Rightarrow> int" where
  [js_defs]: "js_xor a b = to_int32 a XOR to_int32 b"

definition js_not :: "int \<Rightarrow> int" where
  [js_defs]: "js_not a = NOT (to_int32 a)"

definition js_shl :: "int \<Rightarrow> nat \<Rightarrow> int" where
  [js_defs]: "js_shl a k = to_int32 (push_bit (k mod 32) a)"

definition js_shr :: "int \<Rightarrow> nat \<Rightarrow> int" where
  [js_defs]: "js_shr a k = drop_bit (k mod 32) (to_int32 a)"

definition js_ushr :: "int \<Rightarrow> nat \<Rightarrow> int" where
  [js_defs]: "js_ushr a k = drop_bit (k mod 32) (to_uint32 a)"

lemma to_int32_id: "- (2 ^ 31) \<le> x \<Longrightarrow> x < 2 ^ 31 \<Longrightarrow> to_int32 x = x"
  by (simp add: to_int32_def signed_take_bit_int_eq_self)

lemma to_uint32_id: "0 \<le> x \<Longrightarrow> x < 2 ^ 32 \<Longrightarrow> to_uint32 x = x"
  by (simp add: to_uint32_def take_bit_int_eq_self)

lemma js_and_mask:
  assumes "m = 2 ^ k - 1" and "k \<le> 31"
  shows "js_and x m = x mod 2 ^ k"
proof -
  have m: "m = mask k"
    using assms(1) by (simp add: mask_eq_exp_minus_1)
  have "to_int32 (mask k) = mask k"
  proof (rule to_int32_id)
    show "- (2 ^ 31) \<le> (mask k :: int)"
      by (rule order_trans [of _ 0]) (simp_all)
    have "(2::int) ^ k \<le> 2 ^ 31"
      using assms(2) by (intro power_increasing) simp_all
    then show "(mask k :: int) < 2 ^ 31"
      by (simp add: mask_eq_exp_minus_1)
  qed
  then have "js_and x m = to_int32 x AND mask k"
    by (simp add: js_and_def m)
  also have "\<dots> = take_bit k (signed_take_bit 31 x)"
    by (simp add: to_int32_def take_bit_eq_mask)
  also have "\<dots> = take_bit k x"
    using assms(2) by (simp add: take_bit_signed_take_bit)
  finally show ?thesis
    by (simp add: take_bit_eq_mod)
qed

lemma js_and_0x7f: "js_and x 127 = x mod 128"
  using js_and_mask [of 127 7 x] by simp

lemma js_and_0xff: "js_and x 255 = x mod 256"
  using js_and_mask [of 255 8 x] by simp

lemma js_and_3: "js_and x 3 = x mod 4"
  using js_and_mask [of 3 2 x] by simp

lemma js_and_1: "js_and x 1 = x mod 2"
  using js_and_mask [of 1 1 x] by simp

lemma js_ushr_nonneg: "0 \<le> x \<Longrightarrow> x < 2 ^ 32 \<Longrightarrow> k < 32 \<Longrightarrow> js_ushr x k = x div 2 ^ k"
  by (simp add: js_ushr_def to_uint32_id drop_bit_eq_div)

lemma js_shr_int32:
  "- (2 ^ 31) \<le> x \<Longrightarrow> x < 2 ^ 31 \<Longrightarrow> k < 32 \<Longrightarrow> js_shr x k = x div 2 ^ k"
  by (simp add: js_shr_def to_int32_id drop_bit_eq_div)

lemma and_exp_eq: "x AND 2 ^ k = of_bool (bit x k) * 2 ^ k" for x :: int
  by (rule bit_eqI) (auto simp: bit_and_iff bit_exp_iff)

lemma or_push_bit_add:
  fixes n x :: int
  assumes "0 \<le> n" and "n < 2 ^ k"
  shows "n OR push_bit k x = n + x * 2 ^ k"
proof -
  have n: "take_bit k n = n"
    using assms by (simp add: take_bit_int_eq_self)
  have "bit (n AND push_bit k x) j \<longleftrightarrow> bit 0 j" for j
    by (subst n [symmetric]) (auto simp: bit_and_iff bit_take_bit_iff bit_push_bit_iff)
  then have "n AND push_bit k x = 0"
    by (intro bit_eqI) simp
  then have "n OR push_bit k x = n + push_bit k x"
    by (simp add: disjunctive_add_eq_or)
  then show ?thesis
    by (simp add: push_bit_eq_mult)
qed

text \<open>
  A double that is an integer has 53 significant bits: \<open>f64_int\<close> rounds an integer to the
  nearest such number, ties to even. (Numbers of \<open>2 ^ 1024\<close> and beyond would be \<open>Infinity\<close>;
  no arithmetic modelled here reaches them.)
\<close>

definition f64_int :: "int \<Rightarrow> int" where
  "f64_int x =
     (if \<bar>x\<bar> \<le> 2 ^ 53 then x
      else let e = floorlog 2 (nat \<bar>x\<bar>) - 53; q = \<bar>x\<bar> div 2 ^ e; r = \<bar>x\<bar> mod 2 ^ e; h = 2 ^ (e - 1)
           in sgn x * ((if r > h \<or> (r = h \<and> odd q) then q + 1 else q) * 2 ^ e))"

lemma f64_int_exact: "\<bar>x\<bar> \<le> 2 ^ 53 \<Longrightarrow> f64_int x = x"
  by (simp add: f64_int_def)

text \<open>Division that truncates towards zero, as \<open>/\<close> on a \<open>bigint\<close> does.\<close>

definition trunc_div :: "int \<Rightarrow> int \<Rightarrow> int" where
  [js_defs]: "trunc_div a b = sgn a * sgn b * (\<bar>a\<bar> div \<bar>b\<bar>)"

definition trunc_mod :: "int \<Rightarrow> int \<Rightarrow> int" where
  [js_defs]: "trunc_mod a b = a - trunc_div a b * b"

section \<open>Numbers as text\<close>

definition digit_char :: "nat \<Rightarrow> char" where
  "digit_char d = ''0123456789abcdef'' ! d"

text \<open>\<open>toString()\<close> and \<open>toString(16)\<close> of a non-negative integer, and of any integer.\<close>

fun nat_str :: "nat \<Rightarrow> string" where
  "nat_str n = (if n < 10 then [digit_char n] else nat_str (n div 10) @ [digit_char (n mod 10)])"

declare nat_str.simps [simp del]

definition int_str :: "int \<Rightarrow> string" where
  "int_str x = (if x < 0 then CHR ''-'' # nat_str (nat (- x)) else nat_str (nat x))"

text \<open>\<open>s.slice(a, b)\<close> and \<open>subarray(a, b)\<close> for \<open>0 \<le> a \<le> b\<close>.\<close>

definition js_slice :: "nat \<Rightarrow> nat \<Rightarrow> 'a list \<Rightarrow> 'a list" where
  "js_slice a b xs = take (b - a) (drop a xs)"

lemma length_js_slice [simp]: "length (js_slice a b xs) = min (b - a) (length xs - a)"
  by (simp add: js_slice_def)

lemma nat_str_not_Nil [simp]: "nat_str n \<noteq> []"
  by (subst nat_str.simps) simp

lemma digit_char_inj: "a < 16 \<Longrightarrow> b < 16 \<Longrightarrow> digit_char a = digit_char b \<longleftrightarrow> a = b"
proof -
  assume "a < 16" "b < 16"
  then have "a \<in> set [0..<16]" "b \<in> set [0..<16]"
    by simp_all
  then show ?thesis
    by (simp add: digit_char_def upt_rec) (elim disjE; simp)
qed

text \<open>\<open>Number\<close> and \<open>BigInt\<close> of the decimal text of an integer.\<close>

definition decimal_digits :: "string \<Rightarrow> int" where
  "decimal_digits ds = foldl (\<lambda>v c. v * 10 + (of_char c - 48)) 0 ds"

definition decimal_value :: "string \<Rightarrow> int" where
  "decimal_value s = (if s \<noteq> [] \<and> hd s = CHR ''-'' then - decimal_digits (tl s) else decimal_digits s)"

lemma digit_of_char: "d < 10 \<Longrightarrow> (of_char (digit_char d) :: int) = int d + 48 \<and> digit_char d \<noteq> CHR ''-''"
proof -
  assume "d < 10"
  then have "d \<in> set [0..<10]" by simp
  then show ?thesis by (simp add: digit_char_def upt_rec) (elim disjE; simp)
qed

lemma nat_str_digits:
  "decimal_digits (nat_str n) = int n \<and> hd (nat_str n) \<noteq> CHR ''-''"
proof (induction n rule: less_induct)
  case (less n)
  show ?case
  proof (cases "n < 10")
    case True
    then show ?thesis by (simp add: decimal_digits_def nat_str.simps [of n] digit_of_char)
  next
    case False
    then have "n div 10 < n" by simp
    from less [OF this] False show ?thesis
      by (simp add: decimal_digits_def nat_str.simps [of n] digit_of_char zdiv_int zmod_int)
  qed
qed

lemma decimal_value_int_str: "decimal_value (int_str n) = n"
  using nat_str_digits [of "nat (- n)"] nat_str_digits [of "nat n"] by (simp add: decimal_value_def int_str_def)

text \<open>\<open>toUpperCase\<close> and \<open>toLowerCase\<close> of a letter of ASCII, and \<open>split\<close> at a character.\<close>

definition upper_char :: "char \<Rightarrow> char" where
  "upper_char c = (if of_char c \<ge> (97 :: nat) \<and> of_char c \<le> (122 :: nat) then char_of (of_char c - (32 :: nat)) else c)"

definition lower_char :: "char \<Rightarrow> char" where
  "lower_char c = (if of_char c \<ge> (65 :: nat) \<and> of_char c \<le> (90 :: nat) then char_of (of_char c + (32 :: nat)) else c)"

fun split_on :: "char \<Rightarrow> string \<Rightarrow> string list" where
  "split_on c [] = [[]]"
| "split_on c (x # xs) =
     (if x = c then [] # split_on c xs
      else case split_on c xs of t # ts \<Rightarrow> (x # t) # ts | [] \<Rightarrow> [[x]])"

section \<open>Insertion-ordered maps\<close>

text \<open>
  A JavaScript \<open>Map\<close> remembers the order in which keys were first inserted; \<open>set\<close> on a key that
  is present keeps its place. That is an association list under \<open>AList.update\<close>,
  \<open>AList.delete\<close> and \<open>map_of\<close>; iteration over \<open>entries()\<close> is the list itself.
\<close>

type_synonym ('k, 'v) jsmap = "('k \<times> 'v) list"

abbreviation jm_set :: "'k \<Rightarrow> 'v \<Rightarrow> ('k, 'v) jsmap \<Rightarrow> ('k, 'v) jsmap" where
  "jm_set \<equiv> AList.update"

abbreviation jm_delete :: "'k \<Rightarrow> ('k, 'v) jsmap \<Rightarrow> ('k, 'v) jsmap" where
  "jm_delete \<equiv> AList.delete"

abbreviation jm_get :: "('k, 'v) jsmap \<Rightarrow> 'k \<Rightarrow> 'v option" where
  "jm_get \<equiv> map_of"

lemma jm_get_set [simp]: "jm_get (jm_set k v m) = (jm_get m)(k \<mapsto> v)"
  by (simp add: AList.update_conv')

lemma jm_get_delete [simp]: "jm_get (jm_delete k m) = (jm_get m)(k := None)"
  by (simp add: AList.delete_conv')

lemma jm_set_new: "k \<notin> fst ` set m \<Longrightarrow> jm_set k v m = m @ [(k, v)]"
  by (induction m) auto

lemma jm_set_distinct: "distinct (map fst m) \<Longrightarrow> distinct (map fst (jm_set k v m))"
  by (rule AList.distinct_update)

lemma jm_delete_distinct: "distinct (map fst m) \<Longrightarrow> distinct (map fst (jm_delete k m))"
  by (rule AList.distinct_delete)

lemma jm_set_entry:
  "p \<in> set (jm_set k v m) \<Longrightarrow> p = (k, v) \<or> (p \<in> set m)"
  by (induction m) (auto split: if_splits)

lemma jm_delete_entry: "p \<in> set (jm_delete k m) \<Longrightarrow> p \<in> set m \<and> fst p \<noteq> k"
  by (induction m) (auto split: if_splits)

end
