(* ===== verification/Buffer_Wrapper.thy ===== *)
theory Buffer_Wrapper
  imports JS_Prelude
begin

text \<open>
  \<open>schemaregistry/serde/buffer-wrapper.ts\<close>: a cursor over a \<open>Buffer\<close> that writes and reads
  zig-zag encoded variable-length integers. The message indexes of the Protobuf wire format go
  through it. The central result is \<open>readVarInt_writeVarInt\<close>: reading back at the position where
  a number was written gives the number and leaves the cursor where the writer left it, across
  both the integer and the floating-point branch of each routine.
\<close>

section \<open>The class\<close>

definition MAX_VARINT_LEN_64 :: nat where
  "MAX_VARINT_LEN_64 = 10"

record buffer_wrapper =
  buf :: bytes
  pos :: nat

definition newBufferWrapper :: "bytes \<Rightarrow> buffer_wrapper" where
  "newBufferWrapper b = \<lparr>buf = b, pos = 0\<rparr>"

text \<open>
  \<open>this.buf[i]\<close> as an operand of a bitwise operator: outside the buffer it is \<open>undefined\<close>, which
  converts to 0. A store outside the buffer is ignored, as \<open>list_update\<close> does.
\<close>

definition buf_at :: "bytes \<Rightarrow> nat \<Rightarrow> int" where
  "buf_at b i = (if i < length b then uint (b ! i) else 0)"

definition buf_put :: "nat \<Rightarrow> int \<Rightarrow> bytes \<Rightarrow> bytes" where
  "buf_put i v b = b[i := word_of_int v]"

subsection \<open>\<open>writeVarInt\<close>\<close>

text \<open>
  The integer branch keeps \<open>m\<close> a non-negative 32-bit integer (\<open>zigzag32_bounds\<close>), so the loop
  runs on a \<open>nat\<close>; \<open>m >>= 7\<close> is then division by 128 (\<open>zigzag32_shift\<close>). The other branch
  divides a double by 128, which is exact; it is a rational here.
\<close>

definition zigzag32 :: "int \<Rightarrow> int" where
  "zigzag32 n = (if n \<ge> 0 then js_shl n 1 else js_or (js_shl (js_not n) 1) 1)"

fun writeVarInt_int :: "nat \<Rightarrow> buffer_wrapper \<Rightarrow> buffer_wrapper" where
  "writeVarInt_int m w =
     (let w1 = w\<lparr>buf := buf_put (pos w) (int m mod 128) (buf w)\<rparr>;
          m1 = m div 128
      in if m1 \<noteq> 0
         then writeVarInt_int m1
                (w1\<lparr>buf := buf_put (pos w1) (js_or (buf_at (buf w1) (pos w1)) 128) (buf w1),
                    pos := pos w1 + 1\<rparr>)
         else w1)"

function writeVarInt_float :: "rat \<Rightarrow> buffer_wrapper \<Rightarrow> buffer_wrapper" where
  "writeVarInt_float f w =
     (let w1 = w\<lparr>buf := buf_put (pos w) (js_and \<lfloor>f\<rfloor> 127) (buf w)\<rparr>;
          f1 = f / 128
      in if f1 \<ge> 1
         then writeVarInt_float f1
                (w1\<lparr>buf := buf_put (pos w1) (js_or (buf_at (buf w1) (pos w1)) 128) (buf w1),
                    pos := pos w1 + 1\<rparr>)
         else w1)"
  by pat_completeness auto
termination
proof (relation "measure (\<lambda>(f, w). nat \<lfloor>f\<rfloor>)", goal_cases)
  case 1
  show ?case by simp
next
  case (2 f w w1 f1)
  have "\<lfloor>f1\<rfloor> < \<lfloor>f\<rfloor>"
  proof -
    have f: "f = 128 * f1" using 2 by simp
    then have "f1 + 1 \<le> f" using 2 by simp
    then have "\<lfloor>f1 + 1\<rfloor> \<le> \<lfloor>f\<rfloor>" by (rule floor_mono)
    then show ?thesis by simp
  qed
  moreover have "0 \<le> \<lfloor>f1\<rfloor>" using 2 by simp
  ultimately have "nat \<lfloor>f1\<rfloor> < nat \<lfloor>f\<rfloor>" by linarith
  then show ?case by simp
qed

declare writeVarInt_int.simps [simp del] writeVarInt_float.simps [simp del]

definition writeVarInt :: "int \<Rightarrow> buffer_wrapper \<Rightarrow> buffer_wrapper" where
  "writeVarInt n w =
     (let w' = (if n \<ge> - 1073741824 \<and> n < 1073741824
                then writeVarInt_int (nat (zigzag32 n)) w
                else writeVarInt_float
                       (of_int (if n \<ge> 0 then n * 2 else f64_int (- n * 2 - 1))) w)
      in w'\<lparr>pos := pos w' + 1\<rparr>)"

subsection \<open>\<open>readVarInt\<close>\<close>

function readVarInt_int :: "bytes \<Rightarrow> nat \<Rightarrow> int \<Rightarrow> nat \<Rightarrow> nat \<times> int \<times> int" where
  "readVarInt_int b p n k =
     (let x = buf_at b p;
          h = js_and x 128;
          n' = js_or n (js_shl (js_and x 127) k);
          k' = k + 7
      in if h \<noteq> 0 \<and> k' < 28 then readVarInt_int b (p + 1) n' k' else (p + 1, n', h))"
  by pat_completeness auto
termination
  by (relation "measure (\<lambda>(b, p, n, k). 28 - k)") auto

function readVarInt_float :: "bytes \<Rightarrow> nat \<Rightarrow> int \<Rightarrow> int \<Rightarrow> nat \<times> int" where
  "readVarInt_float b p f fk =
     (let x = buf_at b p;
          f' = f64_int (f + js_and x 127 * fk)
      in if js_and x 128 \<noteq> 0 then readVarInt_float b (p + 1) f' (fk * 128) else (p + 1, f'))"
  by pat_completeness auto
termination
  by (relation "measure (\<lambda>(b, p, f, fk). length b - p)")
    (auto simp: buf_at_def js_defs split: if_splits)

declare readVarInt_int.simps [simp del] readVarInt_float.simps [simp del]

definition readVarInt :: "buffer_wrapper \<Rightarrow> buffer_wrapper \<times> int" where
  "readVarInt w =
     (let (p, n, h) = readVarInt_int (buf w) (pos w) 0 0
      in if h \<noteq> 0
         then let (p', f) = readVarInt_float (buf w) p n 268435456
              in (w\<lparr>pos := p'\<rparr>, (if f mod 2 \<noteq> 0 then - (f + 1) else f) div 2)
         else (w\<lparr>pos := p\<rparr>, js_xor (js_shr n 1) (- (js_and n 1))))"

section \<open>The bytes a number is written as\<close>

text \<open>
  \<open>zigzag\<close> is the mathematical zig-zag map and \<open>varint\<close> the base-128 digits with continuation
  bits; both writers produce exactly \<open>varint\<close> of the zig-zag value.
\<close>

definition zigzag :: "int \<Rightarrow> nat" where
  "zigzag n = nat (if n \<ge> 0 then 2 * n else - 2 * n - 1)"

definition unzigzag :: "nat \<Rightarrow> int" where
  "unzigzag m = (if odd m then - ((int m + 1) div 2) else int m div 2)"

fun varint :: "nat \<Rightarrow> bytes" where
  "varint m = (if m < 128 then [of_nat m] else of_nat (m mod 128 + 128) # varint (m div 128))"

declare varint.simps [simp del]

lemma unzigzag_zigzag [simp]: "unzigzag (zigzag n) = n"
proof (cases "n \<ge> 0")
  case True
  then have "zigzag n = 2 * nat n" by (simp add: zigzag_def nat_mult_distrib)
  with True show ?thesis by (simp add: unzigzag_def)
next
  case False
  then have "zigzag n = 2 * nat (- n - 1) + 1" by (simp add: zigzag_def)
  with False show ?thesis by (simp add: unzigzag_def)
qed

lemma zigzag_inj: "zigzag a = zigzag b \<longleftrightarrow> a = b"
  by (metis unzigzag_zigzag)

lemma varint_not_Nil [simp]: "varint m \<noteq> []"
  by (subst varint.simps) simp

lemma length_varint_le: "m < 128 ^ Suc k \<Longrightarrow> length (varint m) \<le> Suc k"
proof (induction k arbitrary: m)
  case 0
  then show ?case by (simp add: varint.simps)
next
  case (Suc k)
  show ?case
  proof (cases "m < 128")
    case True
    then show ?thesis by (simp add: varint.simps)
  next
    case False
    have "m div 128 < 128 ^ Suc k"
      using Suc.prems by (simp add: less_mult_imp_div_less mult.commute)
    from Suc.IH [OF this] False show ?thesis by (simp add: varint.simps [of m])
  qed
qed

lemma buf_at_less_256: "0 \<le> buf_at b i" "buf_at b i < 256"
  using uint_lt2p [of "b ! i"] by (auto simp: buf_at_def)

lemma high_bit_128: "0 \<le> x \<Longrightarrow> x < 256 \<Longrightarrow> js_and x 128 = (if x \<ge> 128 then 128 else 0)" for x :: int
proof -
  assume x: "0 \<le> x" "x < 256"
  have "js_and x 128 = of_bool (bit x 7) * 128"
    using x and_exp_eq [of x 7] by (simp add: js_and_def to_int32_id)
  also have "x div 128 = (if x \<ge> 128 then 1 else 0)"
    using x by auto
  then have "bit x 7 \<longleftrightarrow> x \<ge> 128"
    by (simp add: bit_iff_odd)
  finally show ?thesis
    by simp
qed

lemma set_high_bit: "0 \<le> x \<Longrightarrow> x < 128 \<Longrightarrow> js_or x 128 = x + 128" for x :: int
  using or_push_bit_add [of x 7 1] by (simp add: js_or_def to_int32_id push_bit_eq_mult)

section \<open>The writer produces \<open>varint\<close> of the zig-zag value\<close>

text \<open>\<open>overwrite p bs b\<close> is \<open>b\<close> with \<open>bs\<close> stored from position \<open>p\<close> on.\<close>

definition overwrite :: "nat \<Rightarrow> 'a list \<Rightarrow> 'a list \<Rightarrow> 'a list" where
  "overwrite p bs b = take p b @ bs @ drop (p + length bs) b"

lemma overwrite_single: "p < length b \<Longrightarrow> b[p := x] = overwrite p [x] b"
  by (simp add: overwrite_def upd_conv_take_nth_drop)

lemma length_overwrite [simp]: "p + length bs \<le> length b \<Longrightarrow> length (overwrite p bs b) = length b"
  by (simp add: overwrite_def)

lemma overwrite_overwrite:
  "Suc p + length bs \<le> length b \<Longrightarrow> overwrite (Suc p) bs (overwrite p [x] b) = overwrite p (x # bs) b"
  by (simp add: overwrite_def add.commute)

lemma overwrite_append:
  "p + length xs + length ys \<le> length b \<Longrightarrow>
     overwrite (p + length xs) ys (overwrite p xs b) = overwrite p (xs @ ys) b"
  by (simp add: overwrite_def add.commute add.left_commute)

lemma drop_overwrite: "p + length bs \<le> length b \<Longrightarrow> drop p (overwrite p bs b) = bs @ drop (p + length bs) b"
  by (simp add: overwrite_def)

lemma zigzag32_eq:
  assumes "- 1073741824 \<le> n" and "n < 1073741824"
  shows "zigzag32 n = int (zigzag n)"
proof (cases "n \<ge> 0")
  case True
  then show ?thesis
    using assms by (simp add: zigzag32_def zigzag_def js_shl_def push_bit_eq_mult to_int32_id)
next
  case False
  then have n: "js_not n = - n - 1"
    using assms by (simp add: js_not_def to_int32_id not_int_def)
  have sh: "js_shl (- n - 1) 1 = 2 * (- n - 1)"
    using assms False by (simp add: js_shl_def push_bit_eq_mult to_int32_id)
  have "js_or (2 * (- n - 1)) 1 = 2 * (- n - 1) + 1"
    using assms False or_push_bit_add [of 1 1 "- n - 1"]
    by (simp add: js_or_def to_int32_id push_bit_eq_mult or.commute mult.commute [of 2])
  then show ?thesis
    using False sh by (simp add: zigzag32_def zigzag_def n)
qed

lemma zigzag32_bounds:
  "- 1073741824 \<le> n \<Longrightarrow> n < 1073741824 \<Longrightarrow> 0 \<le> zigzag32 n \<and> zigzag32 n < 2 ^ 31"
  by (auto simp: zigzag32_eq zigzag_def)

lemma zigzag32_shift: "0 \<le> m \<Longrightarrow> m < 2 ^ 31 \<Longrightarrow> js_shr m 7 = int (nat m div 128)"
  by (simp add: js_shr_int32 nat_div_distrib zdiv_int)

lemma put_with_continuation:
  assumes "0 \<le> v" "v < 128" "p < length b"
  shows "buf_put p (js_or (buf_at (buf_put p v b) p) 128) (buf_put p v b)
           = overwrite p [word_of_int (v + 128)] b"
proof -
  have "buf_at (buf_put p v b) p = v"
    using assms by (simp add: buf_at_def buf_put_def uint_word_of_int)
  then show ?thesis
    using assms by (simp add: set_high_bit buf_put_def flip: overwrite_single)
qed

lemma put_single: "p < length b \<Longrightarrow> buf_put p v b = overwrite p [word_of_int v] b"
  by (simp add: buf_put_def overwrite_single)

lemma writeVarInt_int_eq:
  assumes "pos w + length (varint m) \<le> length (buf w)"
  shows "writeVarInt_int m w =
           w\<lparr>buf := overwrite (pos w) (varint m) (buf w), pos := pos w + length (varint m) - 1\<rparr>"
  using assms
proof (induction m w rule: writeVarInt_int.induct)
  case (1 m w)
  show ?case
  proof (cases "m < 128")
    case True
    with "1.prems" show ?thesis
      by (simp add: writeVarInt_int.simps [of m] varint.simps [of m] put_single)
  next
    case False
    let ?b = "overwrite (pos w) [of_nat (m mod 128 + 128)] (buf w)"
    let ?w = "w\<lparr>buf := ?b, pos := pos w + 1\<rparr>"
    have v: "varint m = of_nat (m mod 128 + 128) # varint (m div 128)"
      using False by (simp add: varint.simps [of m])
    have len: "pos w + 1 + length (varint (m div 128)) \<le> length (buf w)"
      using "1.prems" by (simp add: v)
    have digit: "word_of_int (int m mod 128) = (of_nat (m mod 128) :: byte)"
      by (metis of_int_of_nat_eq of_nat_numeral zmod_int)
    have put: "buf_put (pos w) (js_or (buf_at (buf_put (pos w) (int m mod 128) (buf w)) (pos w)) 128)
                 (buf_put (pos w) (int m mod 128) (buf w)) = ?b"
      using put_with_continuation [of "int m mod 128" "pos w" "buf w"] len
      by (simp add: digit)
    have "writeVarInt_int m w = writeVarInt_int (m div 128) ?w"
      using False by (simp add: writeVarInt_int.simps [of m] put Let_def div_greater_zero_iff)
    also have "\<dots> = ?w\<lparr>buf := overwrite (pos w + 1) (varint (m div 128)) ?b,
                       pos := pos w + 1 + length (varint (m div 128)) - 1\<rparr>"
      using "1.IH" [of "w\<lparr>buf := buf_put (pos w) (int m mod 128) (buf w)\<rparr>" "m div 128"] False len
      by (simp add: put)
    finally show ?thesis
      using len by (simp add: v overwrite_overwrite del: of_nat_add)
  qed
qed

lemma writeVarInt_float_eq_int:
  "f \<ge> 0 \<Longrightarrow> writeVarInt_float f w = writeVarInt_int (nat \<lfloor>f\<rfloor>) w"
proof (induction f w rule: writeVarInt_float.induct)
  case (1 f w)
  have fl: "\<lfloor>f / 128\<rfloor> = \<lfloor>f\<rfloor> div 128"
    by (rule floor_unique) (simp_all add: field_simps, linarith+)
  have "nat \<lfloor>f\<rfloor> div 128 = nat \<lfloor>f / 128\<rfloor>"
    using "1.prems" by (simp add: fl nat_div_distrib)
  then show ?case
    using 1 by (simp add: writeVarInt_float.simps [of f] writeVarInt_int.simps [of "nat \<lfloor>f\<rfloor>"]
        js_and_0x7f Let_def)
qed

theorem writeVarInt_bytes:
  assumes "- (2 ^ 52) < n" and "n < 2 ^ 52" and "pos w + length (varint (zigzag n)) \<le> length (buf w)"
  shows "writeVarInt n w =
           w\<lparr>buf := overwrite (pos w) (varint (zigzag n)) (buf w),
             pos := pos w + length (varint (zigzag n))\<rparr>"
proof -
  have "(if n \<ge> - 1073741824 \<and> n < 1073741824
         then writeVarInt_int (nat (zigzag32 n)) w
         else writeVarInt_float (of_int (if n \<ge> 0 then n * 2 else f64_int (- n * 2 - 1))) w)
        = writeVarInt_int (zigzag n) w"
    using assms(1,2)
    by (auto simp: zigzag32_eq writeVarInt_float_eq_int f64_int_exact zigzag_def ac_simps
        simp del: of_int_minus of_int_diff of_int_mult)
  moreover have "length (varint (zigzag n)) \<noteq> 0"
    by simp
  ultimately show ?thesis
    using assms(3) by (simp add: writeVarInt_def writeVarInt_int_eq Let_def)
qed

section \<open>The reader inverts \<open>varint\<close>\<close>

lemma buf_at_head: "drop p b = x # r \<Longrightarrow> buf_at b p = uint x"
  by (metis buf_at_def drop_eq_Nil hd_drop_conv_nth leI list.distinct(1) list.sel(1))

lemma drop_tail: "drop p b = x # r \<Longrightarrow> drop (p + 1) b = r"
  by (metis drop_Suc list.sel(3) Suc_eq_plus1 tl_drop)

lemma varint_digit:
  assumes "drop p b = varint m @ r"
  shows "js_and (buf_at b p) 127 = int (m mod 128)"
    and "js_and (buf_at b p) 128 = (if m < 128 then 0 else 128)"
    and "drop (p + 1) b = (if m < 128 then [] else varint (m div 128)) @ r"
proof -
  let ?d = "if m < 128 then m else m mod 128 + 128"
  have d: "drop p b = of_nat ?d # (if m < 128 then [] else varint (m div 128)) @ r"
    using assms by (simp add: varint.simps [of m])
  then have at: "buf_at b p = int ?d"
    by (auto simp: buf_at_head [OF d] uint_nat unat_of_nat)
  show "js_and (buf_at b p) 127 = int (m mod 128)"
    unfolding at js_and_0x7f by (auto simp: zmod_int)
  show "js_and (buf_at b p) 128 = (if m < 128 then 0 else 128)"
    unfolding at by (subst high_bit_128) auto
  show "drop (p + 1) b = (if m < 128 then [] else varint (m div 128)) @ r"
    using d by (rule drop_tail)
qed

text \<open>
  The integer phase reads at most four digits: with \<open>j\<close> digits to go, either the number ends
  within them, or the phase stops in front of the digits of the quotient.
\<close>

lemma js_or_shl_digit:
  assumes "0 \<le> n" "n < 2 ^ k" "k \<le> 21" "d < 128"
  shows "js_or n (js_shl (int d) k) = n + int d * 2 ^ k"
proof -
  have dk: "int d * 2 ^ k < 2 ^ 28"
  proof -
    have "int d * 2 ^ k < 2 ^ 7 * 2 ^ k"
      using assms(4) by simp
    also have "\<dots> \<le> 2 ^ 7 * 2 ^ 21"
      using assms(3) by (intro mult_left_mono power_increasing) simp_all
    finally show ?thesis by simp
  qed
  have dk0: "0 \<le> int d * 2 ^ k"
    by simp
  have t: "to_int32 (int d * 2 ^ k) = int d * 2 ^ k"
    by (rule to_int32_id, rule order_trans [OF _ dk0], simp, rule order_less_trans [OF dk], simp)
  have "n < 2 ^ 21"
    using assms(2,3) power_increasing [of k 21 "2::int"] by simp
  then show ?thesis
    using assms(1-3) or_push_bit_add [of n k "int d"]
    by (simp add: js_or_def js_shl_def to_int32_id push_bit_eq_mult t)
qed

lemma readVarInt_int_varint:
  assumes "drop p b = varint m @ r" and "1 \<le> j" and "j \<le> 4" and "0 \<le> n" and "n < 2 ^ (28 - 7 * j)"
  shows "readVarInt_int b p n (28 - 7 * j) =
           (if m < 128 ^ j then (p + length (varint m), n + int m * 2 ^ (28 - 7 * j), 0)
            else (p + j, n + int (m mod 128 ^ j) * 2 ^ (28 - 7 * j), 128))"
  using assms
proof (induction j arbitrary: p m n)
  case 0
  then show ?case by simp
next
  case (Suc j)
  define k where "k = 28 - 7 * Suc j"
  have k: "k \<le> 21" "k + 7 = 28 - 7 * j"
    using Suc.prems(3) by (auto simp: k_def)
  let ?n = "n + int (m mod 128) * 2 ^ k"
  note digit = varint_digit [OF Suc.prems(1)]
  have n': "js_or n (js_shl (int (m mod 128)) k) = ?n"
    using Suc.prems(4,5) k(1) by (intro js_or_shl_digit) (auto simp: k_def)
  have step: "readVarInt_int b p n k =
      (if \<not> m < 128 \<and> k + 7 < 28 then readVarInt_int b (p + 1) ?n (k + 7)
       else (p + 1, ?n, if m < 128 then 0 else 128))"
    using n' by (cases "m < 128") (simp_all add: readVarInt_int.simps [of b p n k] digit Let_def)
  show ?case
  proof (cases "m < 128")
    case True
    then have "m < 128 ^ Suc j"
      by (rule order_less_le_trans) simp
    with True show ?thesis
      using step by (simp add: k_def varint.simps [of m])
  next
    case big: False
    then have len: "length (varint m) = Suc (length (varint (m div 128)))"
      by (simp add: varint.simps [of m])
    have small_iff: "m div 128 < 128 ^ j \<longleftrightarrow> m < 128 ^ Suc j"
      by (simp add: div_less_iff_less_mult mult.commute)
    have whole: "?n + int (m div 128) * 2 ^ (k + 7) = n + int m * 2 ^ k"
    proof -
      have "int m = int (m mod 128) + 128 * int (m div 128)"
        by (metis mod_mult_div_eq of_nat_add of_nat_mult of_nat_numeral)
      then show ?thesis by (simp add: algebra_simps power_add)
    qed
    have part: "?n + int (m div 128 mod 128 ^ j) * 2 ^ (k + 7) = n + int (m mod 128 ^ Suc j) * 2 ^ k"
    proof -
      have "m mod 128 ^ Suc j = 128 * (m div 128 mod 128 ^ j) + m mod 128"
        by (simp add: mod_mult2_eq)
      then show ?thesis by (simp add: algebra_simps power_add)
    qed
    show ?thesis
    proof (cases "j = 0")
      case True
      with big show ?thesis
        using step k by (simp add: k_def)
    next
      case False
      have bound: "?n < 2 ^ (28 - 7 * j)"
      proof -
        have "?n < 2 ^ k + int (m mod 128) * 2 ^ k"
          using Suc.prems(5) by (simp add: k_def)
        also have "\<dots> = int (m mod 128 + 1) * 2 ^ k"
          by (simp add: algebra_simps)
        also have "\<dots> \<le> 128 * 2 ^ k"
          by (intro mult_right_mono) (simp_all add: Suc_leI)
        finally show ?thesis by (simp add: flip: k(2)) (simp add: power_add)
      qed
      have rest: "drop (p + 1) b = varint (m div 128) @ r"
        using big digit(3) by simp
      have "readVarInt_int b (p + 1) ?n (28 - 7 * j) =
          (if m div 128 < 128 ^ j
           then (p + 1 + length (varint (m div 128)), ?n + int (m div 128) * 2 ^ (28 - 7 * j), 0)
           else (p + 1 + j, ?n + int (m div 128 mod 128 ^ j) * 2 ^ (28 - 7 * j), 128))"
        using Suc.prems(3,4) False bound by (intro Suc.IH [OF rest]) simp_all
      then have "readVarInt_int b p n k =
          (if m < 128 ^ Suc j then (p + length (varint m), n + int m * 2 ^ k, 0)
           else (p + Suc j, n + int (m mod 128 ^ Suc j) * 2 ^ k, 128))"
        using step big False k
        by (simp add: small_iff whole [unfolded k(2)] part [unfolded k(2)] len del: power_Suc)
      then show ?thesis by (simp add: k_def)
    qed
  qed
qed

lemma varint_skip:
  "\<not> m < 128 ^ j \<Longrightarrow> varint m = take j (varint m) @ varint (m div 128 ^ j) \<and> j \<le> length (varint m)"
proof (induction j arbitrary: m)
  case 0
  then show ?case by simp
next
  case (Suc j)
  have "(128::nat) \<le> 128 ^ Suc j"
    by simp
  with Suc.prems have "\<not> m < 128"
    by linarith
  moreover have "\<not> m div 128 < 128 ^ j"
    using Suc.prems by (simp add: div_less_iff_less_mult mult.commute)
  ultimately show ?case
    using Suc.IH [of "m div 128"] by (simp add: varint.simps [of m] div_mult2_eq)
qed

lemma readVarInt_float_varint:
  assumes "drop p b = varint m @ r" and "0 \<le> f" and "0 \<le> fk" and "f + int m * fk \<le> 2 ^ 53"
  shows "readVarInt_float b p f fk = (p + length (varint m), f + int m * fk)"
  using assms
proof (induction m arbitrary: p f fk rule: varint.induct)
  case (1 m)
  note digit = varint_digit [OF "1.prems"(1)]
  let ?f = "f + int (m mod 128) * fk"
  have m: "int m = int (m mod 128) + 128 * int (m div 128)"
    by (metis mod_mult_div_eq of_nat_add of_nat_mult of_nat_numeral)
  have "?f \<le> f + int m * fk"
    using "1.prems"(3) by (simp add: mult_right_mono)
  then have "f64_int ?f = ?f"
    using "1.prems" by (intro f64_int_exact) simp
  then have step: "readVarInt_float b p f fk =
      (if m < 128 then (p + 1, ?f) else readVarInt_float b (p + 1) ?f (fk * 128))"
    by (cases "m < 128") (simp_all add: readVarInt_float.simps [of b p f fk] digit Let_def)
  show ?case
  proof (cases "m < 128")
    case True
    then show ?thesis by (simp add: step varint.simps [of m])
  next
    case False
    have eq: "?f + int (m div 128) * (fk * 128) = f + int m * fk"
      by (subst m) (simp add: algebra_simps)
    have "readVarInt_float b (p + 1) ?f (fk * 128)
        = (p + 1 + length (varint (m div 128)), ?f + int (m div 128) * (fk * 128))"
      using "1.prems" digit(3) eq False by (intro "1.IH") simp_all
    then show ?thesis
      using False by (simp add: step eq varint.simps [of m])
  qed
qed

lemma unzigzag_js: "m < 2 ^ 28 \<Longrightarrow> js_xor (js_shr (int m) 1) (- (js_and (int m) 1)) = unzigzag m"
proof -
  assume m: "m < 2 ^ 28"
  have sh: "js_shr (int m) 1 = int (m div 2)"
    using m by (simp add: js_shr_int32 zdiv_int)
  have "to_int32 (int (m div 2)) = int (m div 2)"
    using m by (intro to_int32_id) auto
  then show ?thesis
    unfolding sh js_and_1 js_xor_def
    by (cases "odd m") (auto simp: unzigzag_def to_int32_def zmod_int not_int_def elim!: oddE evenE)
qed

theorem readVarInt_varint:
  assumes "drop (pos w) (buf w) = varint m @ r" and "m \<le> 2 ^ 53"
  shows "readVarInt w = (w\<lparr>pos := pos w + length (varint m)\<rparr>, unzigzag m)"
proof -
  have four: "(128::nat) ^ 4 = 268435456"
    by simp
  note int_phase = readVarInt_int_varint [OF assms(1), of 4 0, simplified]
  show ?thesis
  proof (cases "m < 268435456")
    case True
    then show ?thesis
      using int_phase unzigzag_js [of m] by (simp add: readVarInt_def)
  next
    case False
    have skip: "varint m = take 4 (varint m) @ varint (m div 268435456)" "4 \<le> length (varint m)"
      using varint_skip [of m 4] False by (simp_all add: four)
    have rest: "drop (pos w + 4) (buf w) = varint (m div 268435456) @ r"
    proof -
      have "drop (pos w + 4) (buf w) = drop 4 (varint m @ r)"
        using assms(1) by (metis add.commute drop_drop)
      also have "\<dots> = drop 4 (varint m) @ r"
        using skip(2) by simp
      also have "drop 4 (varint m) = varint (m div 268435456)"
        by (metis append_eq_conv_conj append_take_drop_id skip(1))
      finally show ?thesis .
    qed
    have len: "length (varint m) = 4 + length (varint (m div 268435456))"
      using skip by (metis length_append length_take min.absorb2)
    have whole: "int (m mod 268435456) + int (m div 268435456) * 268435456 = int m"
      by (metis mod_div_mult_eq of_nat_add of_nat_mult of_nat_numeral)
    have "readVarInt_float (buf w) (pos w + 4) (int (m mod 268435456)) 268435456
        = (pos w + 4 + length (varint (m div 268435456)), int m)"
      using readVarInt_float_varint [OF rest, of "int (m mod 268435456)" 268435456] assms(2)
      by (simp add: whole)
    then have "readVarInt w = (w\<lparr>pos := pos w + length (varint m)\<rparr>,
        (if int m mod 2 \<noteq> 0 then - (int m + 1) else int m) div 2)"
      using int_phase False by (simp add: readVarInt_def len add.assoc)
    moreover have "(if int m mod 2 \<noteq> 0 then - (int m + 1) else int m) div 2 = unzigzag m"
      unfolding unzigzag_def by (cases "odd m") (simp_all, presburger+)
    ultimately show ?thesis by simp
  qed
qed

text \<open>
  Reading back what was written: from the position where \<open>writeVarInt n\<close> started, in a buffer
  with room, \<open>readVarInt\<close> returns \<open>n\<close> and ends where the writer ended.
\<close>

lemma readVarInt_writeVarInt:
  assumes "- (2 ^ 52) < n" "n < 2 ^ 52" "pos w + length (varint (zigzag n)) \<le> length (buf w)"
  shows "readVarInt (w\<lparr>buf := buf (writeVarInt n w)\<rparr>) = (writeVarInt n w, n)"
proof -
  have "zigzag n \<le> 2 ^ 53"
    using assms(1,2) by (auto simp: zigzag_def)
  moreover have "drop (pos w) (overwrite (pos w) (varint (zigzag n)) (buf w))
      = varint (zigzag n) @ drop (pos w + length (varint (zigzag n))) (buf w)"
    using assms(3) by (rule drop_overwrite)
  ultimately show ?thesis
    using readVarInt_varint [of "w\<lparr>buf := buf (writeVarInt n w)\<rparr>" "zigzag n"]
    by (simp add: writeVarInt_bytes [OF assms])
qed

lemma length_varint_zigzag:
  assumes "- (2 ^ 52) < n" and "n < 2 ^ 52"
  shows "length (varint (zigzag n)) \<le> MAX_VARINT_LEN_64"
proof -
  have "zigzag n < 128 ^ Suc 9"
    using assms by (auto simp: zigzag_def)
  then show ?thesis
    using length_varint_le [of "zigzag n" 9] by (simp add: MAX_VARINT_LEN_64_def)
qed

end
