(* ===== verification/Schema_Id.thy ===== *)
theory Schema_Id
  imports Buffer_Wrapper
begin

text \<open>
  The wire format of \<open>schemaregistry/serde/serde.ts\<close>: class \<open>SchemaId\<close> (magic byte, 32-bit id
  or 16-byte GUID, Protobuf message indexes) and the functions that put a schema id in front of
  a payload or into a message header and read it back (\<open>PrefixSchemaIdSerializer\<close>,
  \<open>HeaderSchemaIdSerializer\<close>, \<open>DualSchemaIdDeserializer\<close>, \<open>PrefixSchemaIdDeserializer\<close>).
  The round trips at the end say that a consumer recovers exactly what a producer wrote.
\<close>

section \<open>Constants and state\<close>

datatype serde_type = KEY | VALUE

definition MAGIC_BYTE_V0 :: bytes where
  "MAGIC_BYTE_V0 = [0]"

definition MAGIC_BYTE_V1 :: bytes where
  "MAGIC_BYTE_V1 = [1]"

definition KEY_SCHEMA_ID_HEADER :: string where
  "KEY_SCHEMA_ID_HEADER = ''__key_schema_id''"

definition VALUE_SCHEMA_ID_HEADER :: string where
  "VALUE_SCHEMA_ID_HEADER = ''__value_schema_id''"

record schema_id =
  schemaType :: string
  id_of :: "int option"
  guid_of :: "string option"
  messageIndexes :: "int list option"

definition newSchemaId ::
    "string \<Rightarrow> int option \<Rightarrow> string option \<Rightarrow> int list option \<Rightarrow> schema_id" where
  "newSchemaId t i g m = \<lparr>schemaType = t, id_of = i, guid_of = g, messageIndexes = m\<rparr>"

section \<open>UUIDs as text\<close>

definition byteToHex :: "byte \<Rightarrow> string" where
  "byteToHex b = [digit_char (unat b div 16), digit_char (unat b mod 16)]"

text \<open>
  \<open>byteToHex[arr[i]]\<close> where \<open>arr\<close> is too short is \<open>undefined\<close>; added to a string it reads
  \<open>"undefined"\<close>, and two \<open>undefined\<close> at the very front add up to \<open>NaN\<close>.
\<close>

definition hex_at :: "bytes \<Rightarrow> nat \<Rightarrow> string" where
  "hex_at arr i = (if i < length arr then byteToHex (arr ! i) else ''undefined'')"

definition stringifyUuid :: "bytes \<Rightarrow> string" where
  "stringifyUuid arr =
     (if arr = [] then ''nan'' else hex_at arr 0 @ hex_at arr 1 @ hex_at arr 2 @ hex_at arr 3) @ ''-'' @
     hex_at arr 4 @ hex_at arr 5 @ ''-'' @
     hex_at arr 6 @ hex_at arr 7 @ ''-'' @
     hex_at arr 8 @ hex_at arr 9 @ ''-'' @
     hex_at arr 10 @ hex_at arr 11 @ hex_at arr 12 @ hex_at arr 13 @ hex_at arr 14 @ hex_at arr 15"

text \<open>\<open>parseInt(s, 16)\<close>: leading white space, a sign and \<open>0x\<close> are skipped, then the longest run
  of hexadecimal digits is read; no digit at all is \<open>NaN\<close> (\<open>None\<close>).\<close>

definition hex_digit :: "char \<Rightarrow> nat option" where
  "hex_digit c =
     (let n = of_char c :: nat
      in if 48 \<le> n \<and> n \<le> 57 then Some (n - 48)
         else if 97 \<le> n \<and> n \<le> 102 then Some (n - 87)
         else if 65 \<le> n \<and> n \<le> 70 then Some (n - 55)
         else None)"

definition js_space :: "char \<Rightarrow> bool" where
  "js_space c \<longleftrightarrow> (of_char c :: nat) \<in> {9, 10, 11, 12, 13, 32, 160}"

fun hex_run :: "int \<Rightarrow> string \<Rightarrow> int" where
  "hex_run acc [] = acc"
| "hex_run acc (c # cs) =
     (case hex_digit c of None \<Rightarrow> acc | Some d \<Rightarrow> hex_run (acc * 16 + int d) cs)"

fun hex_start :: "string \<Rightarrow> int option" where
  "hex_start [] = None"
| "hex_start (c # cs) = (if hex_digit c = None then None else Some (hex_run 0 (c # cs)))"

fun strip_0x :: "string \<Rightarrow> string" where
  "strip_0x (a # b # cs) =
     (if a = CHR ''0'' \<and> (b = CHR ''x'' \<or> b = CHR ''X'') then cs else a # b # cs)"
| "strip_0x cs = cs"

fun parse_signed16 :: "string \<Rightarrow> int option" where
  "parse_signed16 (c # cs) =
     (if c = CHR ''-'' then map_option uminus (hex_start (strip_0x cs))
      else if c = CHR ''+'' then hex_start (strip_0x cs)
      else hex_start (strip_0x (c # cs)))"
| "parse_signed16 [] = None"

definition parseInt16 :: "string \<Rightarrow> int option" where
  "parseInt16 s = parse_signed16 (dropWhile js_space s)"

text \<open>As an operand of a bitwise operator, \<open>NaN\<close> is 0.\<close>

definition hex_num :: "string \<Rightarrow> int" where
  "hex_num s = (case parseInt16 s of None \<Rightarrow> 0 | Some v \<Rightarrow> v)"

definition parseUuid :: "string \<Rightarrow> bytes" where
  "parseUuid uuid =
     (let v1 = hex_num (js_slice 0 8 uuid);
          v2 = hex_num (js_slice 9 13 uuid);
          v3 = hex_num (js_slice 14 18 uuid);
          v4 = hex_num (js_slice 19 23 uuid);
          v5 = hex_num (js_slice 24 36 uuid)
      in map word_of_int
           [js_ushr v1 24, js_and (js_ushr v1 16) 255, js_and (js_ushr v1 8) 255, js_and v1 255,
            js_ushr v2 8, js_and v2 255,
            js_ushr v3 8, js_and v3 255,
            js_ushr v4 8, js_and v4 255,
            js_and (trunc_div v5 1099511627776) 255, js_and (trunc_div v5 4294967296) 255,
            js_and (js_ushr v5 24) 255, js_and (js_ushr v5 16) 255, js_and (js_ushr v5 8) 255,
            js_and v5 255])"

section \<open>Message indexes\<close>

definition malformed_indexes :: js_error where
  "malformed_indexes = SerializationError ''message indexes are absent or malformed''"

function readIndexes ::
    "nat \<Rightarrow> nat \<Rightarrow> int list \<Rightarrow> buffer_wrapper \<Rightarrow> (nat \<times> int list) result" where
  "readIndexes len n acc bw =
     (if n = 0 then Inr (pos bw, acc)
      else if pos bw \<ge> len then Inl malformed_indexes
      else let (bw', idx) = readVarInt bw
           in if idx < 0 then Inl malformed_indexes
              else readIndexes len (n - 1) (acc @ [idx]) bw')"
  by pat_completeness auto
termination
  by (relation "measure (\<lambda>(len, n, acc, bw). n)") auto

declare readIndexes.simps [simp del]

definition readMessageIndexes :: "bytes \<Rightarrow> (nat \<times> int list) result" where
  "readMessageIndexes payload =
     (let (bw, count) = readVarInt (newBufferWrapper payload)
      in if count = 0 then Inr (1, [0])
         else if count < 0 then Inl malformed_indexes
         else readIndexes (length payload) (nat count) [] bw)"

definition writeMessageIndexes :: "int list \<Rightarrow> bytes" where
  "writeMessageIndexes msgIndexes =
     (if length msgIndexes = 1 \<and> msgIndexes ! 0 = 0 then [0]
      else let bw = writeVarInt (int (length msgIndexes))
                      (newBufferWrapper (replicate ((1 + length msgIndexes) * MAX_VARINT_LEN_64) 0));
               bw' = fold writeVarInt msgIndexes bw
           in js_slice 0 (pos bw') (buf bw'))"

section \<open>\<open>SchemaId\<close> to and from bytes\<close>

text \<open>\<open>readInt32BE\<close> and \<open>writeInt32BE\<close> throw outside the buffer and outside the 32-bit range.\<close>

definition be_val :: "bytes \<Rightarrow> int" where
  "be_val bs = fold (\<lambda>b a. a * 256 + uint b) bs 0"

definition readInt32BE :: "bytes \<Rightarrow> int result" where
  "readInt32BE b = (if length b < 4 then Inl (RangeError ''Attempt to access memory outside buffer bounds'') else Inr (to_int32 (be_val (take 4 b))))"

definition writeInt32BE :: "int \<Rightarrow> bytes result" where
  "writeInt32BE v =
     (if v < - (2 ^ 31) \<or> v > 2 ^ 31 - 1 then Inl (RangeError (''out of range: '' @ int_str v))
      else Inr (map word_of_int [drop_bit 24 v, drop_bit 16 v, drop_bit 8 v, v]))"

definition buffer_json :: "bytes \<Rightarrow> string" where
  "buffer_json b =
     ''{'' @ [CHR 0x22] @ ''type'' @ [CHR 0x22] @ '':'' @ [CHR 0x22] @ ''Buffer'' @ [CHR 0x22] @ '','' @
     [CHR 0x22] @ ''data'' @ [CHR 0x22] @ '':['' @
     concat (map (\<lambda>i. (if i = 0 then [] else '','') @ nat_str (unat (b ! i))) [0..<length b]) @ '']}''"

text \<open>\<open>fromBytes\<close> in its two halves: magic byte with id or GUID, then the message indexes.\<close>

definition fromBytes_magic :: "bytes \<Rightarrow> (schema_id, nat) meth" where
  "fromBytes_magic payload sid =
     (let magicByte = js_slice 0 1 payload
      in if magicByte = MAGIC_BYTE_V0
         then (case readInt32BE (js_slice 1 5 payload) of
                 Inl e \<Rightarrow> (sid, Inl e)
               | Inr i \<Rightarrow> (sid\<lparr>id_of := Some i\<rparr>, Inr 5))
         else if magicByte = MAGIC_BYTE_V1
         then (sid\<lparr>guid_of := Some (stringifyUuid (js_slice 1 17 payload))\<rparr>, Inr 17)
         else (sid, Inl (SerializationError (''Unknown magic byte '' @ buffer_json magicByte))))"

definition fromBytes_indexes :: "bytes \<Rightarrow> nat \<Rightarrow> (schema_id, nat) meth" where
  "fromBytes_indexes payload totalBytesRead sid =
     (if schemaType sid = ''PROTOBUF''
      then (case readMessageIndexes (drop totalBytesRead payload) of
              Inl e \<Rightarrow> (sid, Inl e)
            | Inr (bytesRead, msgIndexes) \<Rightarrow>
                (sid\<lparr>messageIndexes := Some msgIndexes\<rparr>, Inr (totalBytesRead + bytesRead)))
      else (sid, Inr totalBytesRead))"

definition fromBytes :: "bytes \<Rightarrow> (schema_id, nat) meth" where
  "fromBytes payload = m_bind (fromBytes_magic payload) (fromBytes_indexes payload)"

definition idToBytes :: "schema_id \<Rightarrow> bytes result" where
  "idToBytes sid =
     (case id_of sid of
        None \<Rightarrow> Inl (SerializationError ''Schema id is not set'')
      | Some i \<Rightarrow> res_bind (writeInt32BE i) (\<lambda>idBuffer.
          case messageIndexes sid of
            Some m \<Rightarrow> Inr (MAGIC_BYTE_V0 @ idBuffer @ writeMessageIndexes m)
          | None \<Rightarrow> Inr (MAGIC_BYTE_V0 @ idBuffer)))"

definition guidToBytes :: "schema_id \<Rightarrow> bytes result" where
  "guidToBytes sid =
     (case guid_of sid of
        None \<Rightarrow> Inl (SerializationError ''Schema guid is not set'')
      | Some g \<Rightarrow>
          (case messageIndexes sid of
             Some m \<Rightarrow> Inr (MAGIC_BYTE_V1 @ parseUuid g @ writeMessageIndexes m)
           | None \<Rightarrow> Inr (MAGIC_BYTE_V1 @ parseUuid g)))"

section \<open>Prefix and header serializers\<close>

datatype header_item = HBuffer bytes | HString string

datatype header_value = HItem header_item | HArray "header_item list"

type_synonym headers = "(string, header_value) jsmap"

text \<open>\<open>Buffer.from(s, 'utf8')\<close> for a string of characters below \<open>U+0100\<close>.\<close>

definition utf8_char :: "char \<Rightarrow> bytes" where
  "utf8_char c =
     (let n = of_char c :: nat in if n < 128 then [of_nat n] else [of_nat (192 + n div 64), of_nat (128 + n mod 64)])"

fun header_buf :: "header_item \<Rightarrow> bytes" where
  "header_buf (HBuffer b) = b"
| "header_buf (HString s) = concat (map utf8_char s)"

definition headerKey :: "serde_type \<Rightarrow> string" where
  "headerKey t = (if t = KEY then KEY_SCHEMA_ID_HEADER else VALUE_SCHEMA_ID_HEADER)"

text \<open>The header object is mutated in place, so the serializer returns it beside the payload.\<close>

definition HeaderSchemaIdSerializer ::
    "serde_type \<Rightarrow> bytes \<Rightarrow> schema_id \<Rightarrow> headers option \<Rightarrow> (headers option \<times> bytes) result" where
  "HeaderSchemaIdSerializer serdeType payload schemaId hdrs =
     (case hdrs of
        None \<Rightarrow> Inl (SerializationError ''Missing Headers'')
      | Some h \<Rightarrow> res_bind (guidToBytes schemaId) (\<lambda>b.
          Inr (Some (jm_set (headerKey serdeType) (HItem (HBuffer b)) h), payload)))"

definition PrefixSchemaIdSerializer ::
    "serde_type \<Rightarrow> bytes \<Rightarrow> schema_id \<Rightarrow> headers option \<Rightarrow> (headers option \<times> bytes) result" where
  "PrefixSchemaIdSerializer serdeType payload schemaId hdrs =
     res_bind (idToBytes schemaId) (\<lambda>b. Inr (hdrs, b @ payload))"

fun selectHeader :: "header_value \<Rightarrow> bytes option" where
  "selectHeader (HItem i) = Some (header_buf i)"
| "selectHeader (HArray is) = (if is \<noteq> [] then Some (header_buf (last is)) else None)"

definition DualSchemaIdDeserializer ::
    "serde_type \<Rightarrow> bytes \<Rightarrow> headers option \<Rightarrow> (schema_id, nat) meth" where
  "DualSchemaIdDeserializer serdeType payload hdrs =
     (case Option.bind hdrs (\<lambda>h. Option.bind (jm_get h (headerKey serdeType)) selectHeader) of
        Some b \<Rightarrow> m_bind (fromBytes b) (\<lambda>_. m_return 0)
      | None \<Rightarrow> fromBytes payload)"

definition PrefixSchemaIdDeserializer ::
    "serde_type \<Rightarrow> bytes \<Rightarrow> headers option \<Rightarrow> (schema_id, nat) meth" where
  "PrefixSchemaIdDeserializer serdeType payload hdrs = fromBytes payload"

section \<open>Message indexes read back\<close>

text \<open>The indexes the wire format is meant for: exact as doubles after the zig-zag doubling.\<close>

abbreviation vz :: "int \<Rightarrow> bytes" where
  "vz n \<equiv> varint (zigzag n)"

definition safe_index :: "int \<Rightarrow> bool" where
  "safe_index n \<longleftrightarrow> 0 \<le> n \<and> n < 2 ^ 52"

lemma writeVarInt_safe:
  "safe_index n \<Longrightarrow> pos w + length (vz n) \<le> length (buf w) \<Longrightarrow>
     writeVarInt n w = w\<lparr>buf := overwrite (pos w) (vz n) (buf w), pos := pos w + length (vz n)\<rparr>"
  by (rule writeVarInt_bytes) (simp_all add: safe_index_def)

lemma readVarInt_safe:
  assumes "safe_index n" and "drop (pos w) (buf w) = vz n @ r"
  shows "readVarInt w = (w\<lparr>pos := pos w + length (vz n)\<rparr>, n)"
proof -
  have "zigzag n \<le> 2 ^ 53"
    using assms(1) by (auto simp: safe_index_def zigzag_def)
  from readVarInt_varint [OF assms(2) this] show ?thesis by simp
qed

lemma fold_writeVarInt:
  assumes "\<forall>n \<in> set ns. safe_index n" and "pos w + length (concat (map vz ns)) \<le> length (buf w)"
  shows "fold writeVarInt ns w =
           w\<lparr>buf := overwrite (pos w) (concat (map vz ns)) (buf w),
             pos := pos w + length (concat (map vz ns))\<rparr>"
  using assms
proof (induction ns arbitrary: w)
  case Nil
  then show ?case by (simp add: overwrite_def)
next
  case (Cons n ns)
  let ?w = "w\<lparr>buf := overwrite (pos w) (vz n) (buf w), pos := pos w + length (vz n)\<rparr>"
  have "writeVarInt n w = ?w"
    using Cons.prems by (intro writeVarInt_safe) simp_all
  then show ?case
    using Cons.IH [of ?w] Cons.prems by (simp add: overwrite_append add.assoc)
qed

lemma length_vz_le: "safe_index n \<Longrightarrow> length (vz n) \<le> MAX_VARINT_LEN_64"
  by (rule length_varint_zigzag) (simp_all add: safe_index_def)

lemma length_concat_vz_le:
  "\<forall>n \<in> set ns. safe_index n \<Longrightarrow> length (concat (map vz ns)) \<le> length ns * MAX_VARINT_LEN_64"
proof (induction ns)
  case Nil
  then show ?case by simp
next
  case (Cons n ns)
  then show ?case
    using length_vz_le [of n] by simp
qed

lemma writeMessageIndexes_bytes:
  assumes "\<forall>n \<in> set ns. safe_index n" and "length ns < 2 ^ 52"
  shows "writeMessageIndexes ns = (if ns = [0] then [0] else concat (map vz (int (length ns) # ns)))"
proof (cases "ns = [0]")
  case True
  then show ?thesis by (simp add: writeMessageIndexes_def)
next
  case False
  then have nz: "\<not> (length ns = 1 \<and> ns ! 0 = 0)"
    by (auto simp: length_Suc_conv)
  let ?all = "int (length ns) # ns"
  let ?w = "newBufferWrapper (replicate ((1 + length ns) * MAX_VARINT_LEN_64) 0)"
  have safe: "\<forall>n \<in> set ?all. safe_index n"
    using assms by (simp add: safe_index_def)
  have len: "length (concat (map vz ?all)) \<le> (1 + length ns) * MAX_VARINT_LEN_64"
    using length_concat_vz_le [OF safe] by simp
  then have "fold writeVarInt ?all ?w =
      ?w\<lparr>buf := overwrite (pos ?w) (concat (map vz ?all)) (buf ?w),
         pos := pos ?w + length (concat (map vz ?all))\<rparr>"
    by (intro fold_writeVarInt safe) (simp add: newBufferWrapper_def)
  then have "writeMessageIndexes ns =
      js_slice 0 (length (concat (map vz ?all)))
        (overwrite 0 (concat (map vz ?all)) (replicate ((1 + length ns) * MAX_VARINT_LEN_64) 0))"
    unfolding writeMessageIndexes_def if_not_P [OF nz] by (simp add: newBufferWrapper_def Let_def)
  then show ?thesis
    using False by (simp add: js_slice_def overwrite_def)
qed

lemma readIndexes_concat:
  assumes "\<forall>n \<in> set ns. safe_index n"
    and "drop (pos bw) (buf bw) = concat (map vz ns) @ r"
  shows "readIndexes (length (buf bw)) (length ns) acc bw =
           Inr (pos bw + length (concat (map vz ns)), acc @ ns)"
  using assms
proof (induction ns arbitrary: bw acc)
  case Nil
  then show ?case by (simp add: readIndexes.simps)
next
  case (Cons n ns)
  let ?bw = "bw\<lparr>pos := pos bw + length (vz n)\<rparr>"
  have safe: "safe_index n"
    using Cons.prems(1) by simp
  have d: "drop (pos bw) (buf bw) = vz n @ concat (map vz ns) @ r"
    using Cons.prems(2) by simp
  then have rd: "readVarInt bw = (?bw, n)"
    using safe by (intro readVarInt_safe) auto
  have "drop (pos bw) (buf bw) \<noteq> []"
    unfolding d by simp
  then have inside: "\<not> pos bw \<ge> length (buf bw)"
    by simp
  have "drop (pos bw + length (vz n)) (buf bw) = drop (length (vz n)) (drop (pos bw) (buf bw))"
    by (simp add: add.commute)
  then have "drop (pos ?bw) (buf ?bw) = concat (map vz ns) @ r"
    by (simp add: d)
  then have "readIndexes (length (buf bw)) (length ns) (acc @ [n]) ?bw =
      Inr (pos ?bw + length (concat (map vz ns)), (acc @ [n]) @ ns)"
    using Cons.IH [of ?bw "acc @ [n]"] Cons.prems(1) by simp
  then show ?case
    using rd inside safe
    by (subst readIndexes.simps) (simp add: safe_index_def)
qed

lemma vz_zero: "vz 0 = [0]"
  by (simp add: zigzag_def varint.simps)

theorem readMessageIndexes_write:
  assumes "ns \<noteq> []" and "\<forall>n \<in> set ns. safe_index n" and "length ns < 2 ^ 52"
  shows "readMessageIndexes (writeMessageIndexes ns @ r) = Inr (length (writeMessageIndexes ns), ns)"
proof (cases "ns = [0]")
  case True
  have "readVarInt (newBufferWrapper ([0] @ r)) = (\<lparr>buf = 0 # r, pos = 1\<rparr>, 0)"
    using readVarInt_safe [of 0 "newBufferWrapper ([0] @ r)" r]
    by (simp add: vz_zero safe_index_def newBufferWrapper_def)
  with True show ?thesis
    by (simp add: readMessageIndexes_def writeMessageIndexes_def)
next
  case False
  let ?c = "int (length ns)"
  let ?p = "vz ?c @ concat (map vz ns)"
  let ?w = "newBufferWrapper (?p @ r)"
  have c: "safe_index ?c" "?c > 0"
    using assms by (auto simp: safe_index_def)
  have w: "writeMessageIndexes ns = ?p"
    using False assms by (simp add: writeMessageIndexes_bytes)
  have rd: "readVarInt ?w = (?w\<lparr>pos := length (vz ?c)\<rparr>, ?c)"
    using readVarInt_safe [OF c(1), of ?w "concat (map vz ns) @ r"] by (simp add: newBufferWrapper_def)
  have "readIndexes (length (?p @ r)) (length ns) [] (?w\<lparr>pos := length (vz ?c)\<rparr>)
      = Inr (length ?p, ns)"
    using readIndexes_concat [OF assms(2), of "?w\<lparr>pos := length (vz ?c)\<rparr>" r "[]"]
    by (simp add: newBufferWrapper_def)
  then show ?thesis
    using rd c by (simp add: readMessageIndexes_def w)
qed

section \<open>GUIDs and ids read back\<close>

lemma hex_digit_digit_char: "d < 16 \<Longrightarrow> hex_digit (digit_char d) = Some d"
proof -
  assume "d < 16"
  then have "d \<in> set [0..<16]" by simp
  then show ?thesis
    by (simp add: upt_rec) (elim disjE; simp add: digit_char_def hex_digit_def)
qed

lemma hex_digit_not_special:
  "hex_digit c = Some d \<Longrightarrow> \<not> js_space c \<and> c \<noteq> CHR ''-'' \<and> c \<noteq> CHR ''+'' \<and> c \<noteq> CHR ''x'' \<and> c \<noteq> CHR ''X''"
  by (auto simp: hex_digit_def js_space_def Let_def split: if_splits)

lemma byteToHex_digits:
  "\<exists>h l. byteToHex b = [h, l] \<and> hex_digit h = Some (unat b div 16) \<and> hex_digit l = Some (unat b mod 16)"
proof -
  have "unat b < 16 * 16"
    by simp
  then show ?thesis
    by (auto simp: byteToHex_def hex_digit_digit_char less_mult_imp_div_less)
qed

lemma be_val_Nil [simp]: "be_val [] = 0"
  by (simp add: be_val_def)

lemma be_val_snoc [simp]: "be_val (xs @ [b]) = be_val xs * 256 + uint b"
  by (simp add: be_val_def)

lemma be_val_append: "be_val (xs @ ys) = be_val xs * 256 ^ length ys + be_val ys"
proof (induction ys rule: rev_induct)
  case Nil
  then show ?case by simp
next
  case (snoc y ys)
  have "be_val (xs @ ys @ [y]) = be_val ((xs @ ys) @ [y])"
    by simp
  also have "\<dots> = be_val (xs @ ys) * 256 + uint y"
    by (rule be_val_snoc)
  finally show ?case
    using snoc.IH by (simp add: algebra_simps)
qed

lemma be_val_bounds: "0 \<le> be_val bs \<and> be_val bs < 256 ^ length bs"
proof (induction bs rule: rev_induct)
  case Nil
  then show ?case by simp
next
  case (snoc b bs)
  then have "be_val bs + 1 \<le> 256 ^ length bs" "0 \<le> be_val bs"
    by simp_all
  then show ?case
    using uint_byte_less [of b] by simp (smt (verit) uint_byte_less)
qed

lemma be_val_digit: "be_val (xs @ b # ys) div 256 ^ length ys mod 256 = uint b"
proof -
  have b: "be_val ys div 256 ^ length ys = 0"
    using be_val_bounds [of ys] by (simp add: div_pos_pos_trivial)
  have "be_val (xs @ b # ys) = be_val (xs @ [b]) * 256 ^ length ys + be_val ys"
    using be_val_append [of "xs @ [b]" ys] by simp
  then have "be_val (xs @ b # ys) div 256 ^ length ys = be_val xs * 256 + uint b"
    by (simp add: b)
  then show ?thesis
    by (simp add: mod_pos_pos_trivial)
qed

lemma hex_run_bytes: "hex_run acc (concat (map byteToHex bs)) = acc * 256 ^ length bs + be_val bs"
proof (induction bs arbitrary: acc)
  case Nil
  then show ?case by simp
next
  case (Cons b bs)
  obtain h l where hl: "byteToHex b = [h, l]" "hex_digit h = Some (unat b div 16)"
    "hex_digit l = Some (unat b mod 16)"
    using byteToHex_digits by blast
  have "int (unat b div 16) * 16 + int (unat b mod 16) = uint b"
    unfolding uint_nat by (metis div_mult_mod_eq of_nat_add of_nat_mult of_nat_numeral)
  then have "(acc * 16 + int (unat b div 16)) * 16 + int (unat b mod 16) = acc * 256 + uint b"
    by (simp add: distrib_right flip: add.assoc)
  then have "hex_run acc (concat (map byteToHex (b # bs))) = (acc * 256 + uint b) * 256 ^ length bs + be_val bs"
    using Cons.IH hl by simp
  then show ?case
    using be_val_append [of "[b]" bs] by (simp add: be_val_def algebra_simps)
qed

lemma hex_num_bytes: "hex_num (concat (map byteToHex bs)) = be_val bs"
proof (cases bs)
  case Nil
  then show ?thesis by (simp add: hex_num_def parseInt16_def)
next
  case (Cons b bs')
  obtain h l where hl: "byteToHex b = [h, l]" "hex_digit h = Some (unat b div 16)"
    "hex_digit l = Some (unat b mod 16)"
    using byteToHex_digits by blast
  note h = hex_digit_not_special [OF hl(2)] and l = hex_digit_not_special [OF hl(3)]
  let ?s = "h # l # concat (map byteToHex bs')"
  have s: "concat (map byteToHex bs) = ?s"
    using Cons hl by simp
  have "parseInt16 ?s = Some (hex_run 0 ?s)"
    using h l hl by (simp add: parseInt16_def)
  then show ?thesis
    using hex_run_bytes [of 0 bs] s by (simp add: hex_num_def)
qed

lemma js_ushr_byte: "k \<le> 24 \<Longrightarrow> js_ushr x k mod 256 = x div 2 ^ k mod 256"
proof -
  assume "k \<le> 24"
  then have "take_bit 8 (drop_bit k (take_bit 32 x)) = take_bit 8 (drop_bit k x)"
    by (auto simp: drop_bit_take_bit min_def)
  with \<open>k \<le> 24\<close> show ?thesis
    by (simp add: js_ushr_def to_uint32_def take_bit_eq_mod drop_bit_eq_div)
qed

lemma trunc_div_nonneg: "0 \<le> a \<Longrightarrow> 0 < b \<Longrightarrow> trunc_div a b = a div b"
  by (cases "a = 0") (simp_all add: trunc_div_def)

lemma length16_cases:
  assumes "length xs = 16"
  obtains a b c d e f g h i j k l m n p q where "xs = [a, b, c, d, e, f, g, h, i, j, k, l, m, n, p, q]"
  using assms by (auto simp: numeral_eq_Suc length_Suc_conv)

lemma parseUuid_bytes:
  assumes "js_slice 0 8 u = concat (map byteToHex [a, b, c, d])"
    and "js_slice 9 13 u = concat (map byteToHex [e, f])"
    and "js_slice 14 18 u = concat (map byteToHex [g, h])"
    and "js_slice 19 23 u = concat (map byteToHex [i, j])"
    and "js_slice 24 36 u = concat (map byteToHex [k, l, m, n, p, q])"
  shows "parseUuid u = [a, b, c, d, e, f, g, h, i, j, k, l, m, n, p, q]"
proof -
  note d4 = be_val_digit [of "[]" a "[b, c, d]", simplified] be_val_digit [of "[a]" b "[c, d]", simplified]
    be_val_digit [of "[a, b]" c "[d]", simplified] be_val_digit [of "[a, b, c]" d "[]", simplified]
  note d2 = be_val_digit [of "[]" _ "[_]", simplified] be_val_digit [of "[_]" _ "[]", simplified]
  note d6 = be_val_digit [of "[]" k "[l, m, n, p, q]", simplified]
    be_val_digit [of "[k]" l "[m, n, p, q]", simplified] be_val_digit [of "[k, l]" m "[n, p, q]", simplified]
    be_val_digit [of "[k, l, m]" n "[p, q]", simplified] be_val_digit [of "[k, l, m, n]" p "[q]", simplified]
    be_val_digit [of "[k, l, m, n, p]" q "[]", simplified]
  note v = hex_num_bytes [of "[a, b, c, d]"] hex_num_bytes [of "[e, f]"] hex_num_bytes [of "[g, h]"]
    hex_num_bytes [of "[i, j]"] hex_num_bytes [of "[k, l, m, n, p, q]"]
  have "0 \<le> be_val [k, l, m, n, p, q]"
    using be_val_bounds by blast
  then show ?thesis
    unfolding parseUuid_def assms Let_def v
    unfolding list.map list.inject
    by (intro conjI refl byte_of_int_eqI)
      (simp_all add: js_and_0xff js_ushr_byte trunc_div_nonneg d4 d2 d6)
qed

theorem parseUuid_stringifyUuid:
  assumes "length bs = 16"
  shows "parseUuid (stringifyUuid bs) = bs"
proof -
  obtain a b c d e f g h i j k l m n p q where
    bs: "bs = [a, b, c, d, e, f, g, h, i, j, k, l, m, n, p, q]"
    using assms by (rule length16_cases)
  show ?thesis
    unfolding bs
    by (rule parseUuid_bytes)
      (simp_all add: stringifyUuid_def hex_at_def byteToHex_def js_slice_def)
qed

text \<open>The GUIDs the registry hands out: 36 characters, lower-case hexadecimal with four dashes.\<close>

definition lower_hex :: "char \<Rightarrow> bool" where
  "lower_hex c \<longleftrightarrow> c \<in> set ''0123456789abcdef''"

definition is_uuid :: "string \<Rightarrow> bool" where
  "is_uuid g \<longleftrightarrow> length g = 36 \<and>
     list_all (\<lambda>i. if i \<in> {8, 13, 18, 23} then g ! i = CHR ''-'' else lower_hex (g ! i)) [0..<36]"

lemma lower_hex_digit: "lower_hex c \<Longrightarrow> \<exists>d < 16. c = digit_char d"
proof -
  assume "lower_hex c"
  then obtain i where "i < length ''0123456789abcdef''" "c = ''0123456789abcdef'' ! i"
    unfolding lower_hex_def in_set_conv_nth by blast
  then show ?thesis
    by (intro exI [of _ i]) (simp add: digit_char_def)
qed

lemma lower_hex_pair: "lower_hex h \<Longrightarrow> lower_hex l \<Longrightarrow> \<exists>b. [h, l] = byteToHex b"
proof -
  assume "lower_hex h" "lower_hex l"
  then obtain d e where de: "d < 16" "h = digit_char d" "e < 16" "l = digit_char e"
    using lower_hex_digit by blast
  have "unat (of_nat (16 * d + e) :: byte) = 16 * d + e"
    using de by (simp add: unat_of_nat del: of_nat_add of_nat_mult)
  then have "byteToHex (of_nat (16 * d + e)) = [h, l]"
    using de by (simp add: byteToHex_def del: of_nat_add of_nat_mult)
  then show ?thesis by metis
qed

lemma js_slice_nth: "b \<le> length xs \<Longrightarrow> js_slice a b xs = map ((!) xs) [a..<b]"
  by (rule nth_equalityI) (auto simp: js_slice_def)

lemma is_uuid_stringify:
  assumes "is_uuid u"
  shows "\<exists>bs. length bs = 16 \<and> u = stringifyUuid bs"
proof -
  have len: "length u = 36"
    and all: "list_all (\<lambda>i. if i \<in> {8, 13, 18, 23} then u ! i = CHR ''-'' else lower_hex (u ! i)) [0..<36]"
    using assms by (simp_all add: is_uuid_def)
  have pair: "\<exists>b. [u ! i, u ! (i + 1)] = byteToHex b"
    if "i \<in> {0, 2, 4, 6, 9, 11, 14, 16, 19, 21, 24, 26, 28, 30, 32, 34}" for i
    using all that by (intro lower_hex_pair) (auto simp: list_all_iff)
  then obtain B where B: "\<And>i. i \<in> {0, 2, 4, 6, 9, 11, 14, 16, 19, 21, 24, 26, 28, 30, 32, 34} \<Longrightarrow>
      byteToHex (B i) = [u ! i, u ! (i + 1)]"
    by metis
  have dash: "u ! 8 = CHR ''-''" "u ! 13 = CHR ''-''" "u ! 18 = CHR ''-''" "u ! 23 = CHR ''-''"
    using all by (simp_all add: list_all_iff)
  let ?bs = "map B [0, 2, 4, 6, 9, 11, 14, 16, 19, 21, 24, 26, 28, 30, 32, 34]"
  have "u = map ((!) u) [0..<36]"
    using map_nth [of u] len by simp
  also have "[0..<36] = [0::nat, 1, 2, 3, 4, 5, 6, 7, 8, 9, 10, 11, 12, 13, 14, 15, 16, 17, 18, 19, 20,
      21, 22, 23, 24, 25, 26, 27, 28, 29, 30, 31, 32, 33, 34, 35]"
    by (simp add: upt_rec)
  also have "map ((!) u) \<dots> = stringifyUuid ?bs"
    by (simp add: stringifyUuid_def hex_at_def B dash)
  finally show ?thesis
    by (intro exI [of _ ?bs]) simp
qed

theorem stringifyUuid_parseUuid: "is_uuid u \<Longrightarrow> stringifyUuid (parseUuid u) = u"
  using is_uuid_stringify parseUuid_stringifyUuid by metis

lemma length_parseUuid [simp]: "length (parseUuid u) = 16"
  by (simp add: parseUuid_def Let_def)

lemma be_val_int32: "be_val (map word_of_int [drop_bit 24 v, drop_bit 16 v, drop_bit 8 v, v]) = v mod 2 ^ 32"
proof -
  have "v mod 2 ^ 32 = 256 * (v div 256 mod 2 ^ 24) + v mod 256"
    using zmod_zmult2_eq [of "2 ^ 24" v 256] by simp
  moreover have "v div 256 mod 2 ^ 24 = 256 * (v div 2 ^ 16 mod 2 ^ 16) + v div 256 mod 256"
    using zmod_zmult2_eq [of "2 ^ 16" "v div 256" 256] by (simp flip: zdiv_zmult2_eq)
  moreover have "v div 2 ^ 16 mod 2 ^ 16 = 256 * (v div 2 ^ 24 mod 256) + v div 2 ^ 16 mod 256"
    using zmod_zmult2_eq [of "2 ^ 8" "v div 2 ^ 16" 256] by (simp flip: zdiv_zmult2_eq)
  moreover have "be_val (map word_of_int [drop_bit 24 v, drop_bit 16 v, drop_bit 8 v, v])
      = ((v div 2 ^ 24 mod 256 * 256 + v div 2 ^ 16 mod 256) * 256 + v div 256 mod 256) * 256 + v mod 256"
    by (simp add: be_val_def uint_word_of_int take_bit_eq_mod drop_bit_eq_div)
  ultimately show ?thesis
    by (simp only: mult.commute [of 256])
qed

theorem readInt32BE_write: "writeInt32BE v = Inr b \<Longrightarrow> length b = 4 \<and> readInt32BE (b @ r) = Inr v"
proof -
  assume w: "writeInt32BE v = Inr b"
  then have v: "- (2 ^ 31) \<le> v" "v < 2 ^ 31"
    and b: "b = map word_of_int [drop_bit 24 v, drop_bit 16 v, drop_bit 8 v, v]"
    by (auto simp: writeInt32BE_def split: if_splits)
  have "to_int32 (be_val b) = signed_take_bit 31 (take_bit 32 v)"
    unfolding b be_val_int32 by (simp add: to_int32_def take_bit_eq_mod)
  also have "\<dots> = v"
    using v by (simp add: signed_take_bit_take_bit signed_take_bit_int_eq_self)
  finally have "to_int32 (be_val b) = v" .
  moreover have "length b = 4"
    using b by simp
  ultimately show ?thesis
    by (simp add: readInt32BE_def)
qed

section \<open>Frames: what a producer writes, a consumer reads\<close>

text \<open>
  A schema id is well formed for the wire when it carries message indexes exactly for Protobuf
  schemas. \<open>indexBytes\<close> are the bytes the indexes take.
\<close>

definition wf_indexes :: "schema_id \<Rightarrow> bool" where
  "wf_indexes sid \<longleftrightarrow>
     (case messageIndexes sid of
        None \<Rightarrow> schemaType sid \<noteq> ''PROTOBUF''
      | Some ns \<Rightarrow> schemaType sid = ''PROTOBUF'' \<and> ns \<noteq> [] \<and> list_all safe_index ns \<and> length ns < 2 ^ 52)"

definition indexBytes :: "schema_id \<Rightarrow> bytes" where
  "indexBytes sid = (case messageIndexes sid of None \<Rightarrow> [] | Some ns \<Rightarrow> writeMessageIndexes ns)"

definition fresh :: "schema_id \<Rightarrow> schema_id" where
  "fresh sid = newSchemaId (schemaType sid) None None None"

lemma idToBytes_eq:
  "id_of sid = Some i \<Longrightarrow> idToBytes sid = res_bind (writeInt32BE i) (\<lambda>b. Inr (MAGIC_BYTE_V0 @ b @ indexBytes sid))"
  by (cases "writeInt32BE i") (auto simp: idToBytes_def indexBytes_def split: option.splits)

lemma guidToBytes_eq:
  "guid_of sid = Some g \<Longrightarrow> guidToBytes sid = Inr (MAGIC_BYTE_V1 @ parseUuid g @ indexBytes sid)"
  by (auto simp: guidToBytes_def indexBytes_def split: option.splits)

lemma fromBytes_indexed:
  assumes "wf_indexes sid" and "schemaType s1 = schemaType sid" and "messageIndexes s1 = None"
    and "n = length h"
  shows "fromBytes_indexes (h @ indexBytes sid @ r) n s1 = (s1\<lparr>messageIndexes := messageIndexes sid\<rparr>, Inr (n + length (indexBytes sid)))"
proof (cases "messageIndexes sid")
  case None
  moreover have "s1\<lparr>messageIndexes := None\<rparr> = s1"
    using assms(3) by (metis schema_id.surjective schema_id.update_convs(4))
  ultimately show ?thesis
    using assms(1,2) by (simp add: fromBytes_indexes_def wf_indexes_def indexBytes_def)
next
  case (Some ns)
  with assms have "readMessageIndexes (writeMessageIndexes ns @ r) = Inr (length (writeMessageIndexes ns), ns)"
    by (intro readMessageIndexes_write) (auto simp: wf_indexes_def list_all_iff)
  with Some assms show ?thesis
    by (simp add: fromBytes_indexes_def wf_indexes_def indexBytes_def)
qed

lemma fromBytes_id_frame:
  assumes "wf_indexes sid" and "id_of sid = Some i" and "writeInt32BE i = Inr b"
  shows "fromBytes (MAGIC_BYTE_V0 @ b @ indexBytes sid @ r) (fresh sid)
           = (sid\<lparr>guid_of := None\<rparr>, Inr (5 + length (indexBytes sid)))"
proof -
  have b: "length b = 4" "readInt32BE b = Inr i"
    using readInt32BE_write [OF assms(3), of "[]"] by simp_all
  let ?p = "MAGIC_BYTE_V0 @ b @ indexBytes sid @ r"
  let ?s1 = "(fresh sid)\<lparr>id_of := Some i\<rparr>"
  have sl: "js_slice 0 1 ?p = MAGIC_BYTE_V0" "js_slice 1 5 ?p = b"
    using b by (simp_all add: js_slice_def MAGIC_BYTE_V0_def)
  then have magic: "fromBytes_magic ?p (fresh sid) = (?s1, Inr 5)"
    using b by (simp add: fromBytes_magic_def)
  have step: "fromBytes ?p (fresh sid) = fromBytes_indexes ?p 5 ?s1"
    by (simp add: fromBytes_def m_bind_apply magic)
  have "fromBytes ?p (fresh sid)
      = (?s1\<lparr>messageIndexes := messageIndexes sid\<rparr>, Inr (5 + length (indexBytes sid)))"
    using fromBytes_indexed [OF assms(1), of ?s1 5 "MAGIC_BYTE_V0 @ b" r] b
    unfolding step by (simp add: MAGIC_BYTE_V0_def fresh_def newSchemaId_def)
  moreover have "?s1\<lparr>messageIndexes := messageIndexes sid\<rparr> = sid\<lparr>guid_of := None\<rparr>"
    using assms(2) by (simp add: fresh_def newSchemaId_def)
  ultimately show ?thesis by simp
qed

lemma fromBytes_guid_frame:
  assumes "wf_indexes sid" and "guid_of sid = Some g" and "is_uuid g"
  shows "fromBytes (MAGIC_BYTE_V1 @ parseUuid g @ indexBytes sid @ r) (fresh sid)
           = (sid\<lparr>id_of := None\<rparr>, Inr (17 + length (indexBytes sid)))"
proof -
  let ?p = "MAGIC_BYTE_V1 @ parseUuid g @ indexBytes sid @ r"
  let ?s1 = "(fresh sid)\<lparr>guid_of := Some g\<rparr>"
  have sl: "js_slice 0 1 ?p = MAGIC_BYTE_V1" "js_slice 1 17 ?p = parseUuid g"
    by (simp_all add: js_slice_def MAGIC_BYTE_V1_def)
  then have magic: "fromBytes_magic ?p (fresh sid) = (?s1, Inr 17)"
    using assms(3)
    by (simp add: fromBytes_magic_def MAGIC_BYTE_V0_def MAGIC_BYTE_V1_def stringifyUuid_parseUuid)
  have step: "fromBytes ?p (fresh sid) = fromBytes_indexes ?p 17 ?s1"
    by (simp add: fromBytes_def m_bind_apply magic)
  have "fromBytes ?p (fresh sid)
      = (?s1\<lparr>messageIndexes := messageIndexes sid\<rparr>, Inr (17 + length (indexBytes sid)))"
    using fromBytes_indexed [OF assms(1), of ?s1 17 "MAGIC_BYTE_V1 @ parseUuid g" r]
    unfolding step by (simp add: MAGIC_BYTE_V1_def fresh_def newSchemaId_def)
  moreover have "?s1\<lparr>messageIndexes := messageIndexes sid\<rparr> = sid\<lparr>id_of := None\<rparr>"
    using assms(2) by (simp add: fresh_def newSchemaId_def)
  ultimately show ?thesis by simp
qed

text \<open>
  The contract between a schema id serializer and the deserializer on the other side: from a
  fresh \<open>SchemaId\<close> of the same schema type, the consumer recovers the part of the schema id the
  framing carries and the number of bytes after which the payload starts.
\<close>

locale schema_id_framing =
  fixes ser :: "serde_type \<Rightarrow> bytes \<Rightarrow> schema_id \<Rightarrow> headers option \<Rightarrow> (headers option \<times> bytes) result"
    and des :: "serde_type \<Rightarrow> bytes \<Rightarrow> headers option \<Rightarrow> (schema_id, nat) meth"
    and sendable :: "serde_type \<Rightarrow> schema_id \<Rightarrow> headers option \<Rightarrow> bool"
    and carried :: "schema_id \<Rightarrow> schema_id"
  assumes framed: "sendable t sid hs \<Longrightarrow>
      \<exists>hs' frame n. ser t payload sid hs = Inr (hs', frame) \<and>
        des t frame hs' (fresh sid) = (carried sid, Inr n) \<and> drop n frame = payload"
begin

text \<open>Equal frames come from equal payloads and carry equal schema ids.\<close>

lemma frame_inj:
  assumes "sendable t a hs" and "sendable t b hs'" and "schemaType a = schemaType b"
    and "ser t p a hs = ser t q b hs'"
  shows "carried a = carried b \<and> p = q"
proof -
  obtain ha fa n where a: "ser t p a hs = Inr (ha, fa)" "des t fa ha (fresh a) = (carried a, Inr n)"
    "drop n fa = p"
    using framed [OF assms(1)] by metis
  obtain hb fb m where b: "ser t q b hs' = Inr (hb, fb)" "des t fb hb (fresh b) = (carried b, Inr m)"
    "drop m fb = q"
    using framed [OF assms(2)] by metis
  have "ha = hb" "fa = fb"
    using a(1) b(1) assms(4) by simp_all
  moreover have "fresh a = fresh b"
    using assms(3) by (simp add: fresh_def)
  ultimately show ?thesis
    using a b by simp
qed

end

definition id_sendable :: "schema_id \<Rightarrow> bool" where
  "id_sendable sid \<longleftrightarrow> wf_indexes sid \<and> (case id_of sid of None \<Rightarrow> False | Some i \<Rightarrow> - (2 ^ 31) \<le> i \<and> i < 2 ^ 31)"

definition guid_sendable :: "schema_id \<Rightarrow> bool" where
  "guid_sendable sid \<longleftrightarrow> wf_indexes sid \<and> (case guid_of sid of None \<Rightarrow> False | Some g \<Rightarrow> is_uuid g)"

lemma prefix_framed:
  assumes "id_sendable sid"
  shows "\<exists>frame n. PrefixSchemaIdSerializer t payload sid hs = Inr (hs, frame) \<and>
    fromBytes frame (fresh sid) = (sid\<lparr>guid_of := None\<rparr>, Inr n) \<and> drop n frame = payload"
proof -
  obtain i where i: "id_of sid = Some i" "- (2 ^ 31) \<le> i" "i < 2 ^ 31" "wf_indexes sid"
    using assms by (auto simp: id_sendable_def split: option.splits)
  obtain b where b: "writeInt32BE i = Inr b"
    using i by (simp add: writeInt32BE_def)
  have "length b = 4"
    using readInt32BE_write [OF b] by simp
  then have "drop (5 + length (indexBytes sid)) (MAGIC_BYTE_V0 @ b @ indexBytes sid @ payload) = payload"
    by (simp add: MAGIC_BYTE_V0_def numeral_eq_Suc)
  then show ?thesis
    using fromBytes_id_frame [OF i(4,1) b, of payload]
    by (intro exI [of _ "MAGIC_BYTE_V0 @ b @ indexBytes sid @ payload"]
          exI [of _ "5 + length (indexBytes sid)"])
      (simp add: PrefixSchemaIdSerializer_def idToBytes_eq [OF i(1)] b)
qed

interpretation prefix_prefix: schema_id_framing PrefixSchemaIdSerializer PrefixSchemaIdDeserializer
    "\<lambda>t sid hs. id_sendable sid" "\<lambda>sid. sid\<lparr>guid_of := None\<rparr>"
  by unfold_locales (use prefix_framed in \<open>fastforce simp: PrefixSchemaIdDeserializer_def\<close>)

interpretation prefix_dual: schema_id_framing PrefixSchemaIdSerializer DualSchemaIdDeserializer
    "\<lambda>t sid hs. id_sendable sid \<and> Option.bind hs (\<lambda>h. Option.bind (jm_get h (headerKey t)) selectHeader) = None"
    "\<lambda>sid. sid\<lparr>guid_of := None\<rparr>"
  by unfold_locales (use prefix_framed in \<open>fastforce simp: DualSchemaIdDeserializer_def\<close>)

interpretation header_dual: schema_id_framing HeaderSchemaIdSerializer DualSchemaIdDeserializer
    "\<lambda>t sid hs. guid_sendable sid \<and> hs \<noteq> None" "\<lambda>sid. sid\<lparr>id_of := None\<rparr>"
proof (unfold_locales, elim conjE)
  fix t sid and hs :: "headers option" and payload
  assume "guid_sendable sid" "hs \<noteq> None"
  then obtain g h where g: "guid_of sid = Some g" "is_uuid g" "wf_indexes sid" and hs: "hs = Some h"
    by (auto simp: guid_sendable_def split: option.splits)
  show "\<exists>hs' frame n. HeaderSchemaIdSerializer t payload sid hs = Inr (hs', frame) \<and>
      DualSchemaIdDeserializer t frame hs' (fresh sid) = (sid\<lparr>id_of := None\<rparr>, Inr n) \<and> drop n frame = payload"
    using fromBytes_guid_frame [OF g(3,1,2), of "[]"]
    by (simp add: HeaderSchemaIdSerializer_def DualSchemaIdDeserializer_def hs guidToBytes_eq [OF g(1)]
        m_bind_Inr)
qed

section \<open>Properties of the wire format\<close>

text \<open>
  C11. A payload framed with the schema id in front (\<open>PrefixSchemaIdSerializer\<close>, the default) is
  read back by the default consumer (\<open>DualSchemaIdDeserializer\<close>): when the message carries no
  schema id header, it recovers the id and the Protobuf message indexes, and the rest of the
  frame after the bytes it read is exactly the payload.
\<close>

theorem prefix_frame_roundtrip:
  assumes "id_sendable sid"
    and "Option.bind hs (\<lambda>h. Option.bind (jm_get h (headerKey t)) selectHeader) = None"
  shows "\<exists>frame n. PrefixSchemaIdSerializer t payload sid hs = Inr (hs, frame) \<and>
    DualSchemaIdDeserializer t frame hs (fresh sid) = (sid\<lparr>guid_of := None\<rparr>, Inr n) \<and>
    drop n frame = payload"
  using prefix_framed [OF assms(1), of t payload hs] assms(2)
  by (simp add: DualSchemaIdDeserializer_def)

definition sample_id :: schema_id where
  "sample_id = newSchemaId ''PROTOBUF'' (Some 70000) (Some ''01234567-89ab-cdef-0123-456789abcdef'') (Some [2, 0, 300])"

lemma sample_id_sendable: "id_sendable sample_id" "guid_sendable sample_id"
  by (simp_all add: id_sendable_def guid_sendable_def wf_indexes_def sample_id_def newSchemaId_def
      safe_index_def is_uuid_def lower_hex_def upt_rec)

theorem prefix_frame_roundtrip_witness:
  "\<exists>frame n. PrefixSchemaIdSerializer VALUE [1, 2, 3] sample_id None = Inr (None, frame) \<and>
    DualSchemaIdDeserializer VALUE frame None (fresh sample_id) = (sample_id\<lparr>guid_of := None\<rparr>, Inr n) \<and>
    drop n frame = [1, 2, 3]"
  by (rule prefix_frame_roundtrip) (simp_all add: sample_id_sendable)

text \<open>
  C28. A schema GUID sent in a message header (\<open>HeaderSchemaIdSerializer\<close>) is recovered by the
  default consumer with its message indexes, the payload is left as it was, and the consumer
  reports that none of its bytes were consumed.
\<close>

theorem header_frame_roundtrip:
  assumes "guid_sendable sid"
  shows "\<exists>hs'. HeaderSchemaIdSerializer t payload sid (Some hs) = Inr (Some hs', payload) \<and>
    DualSchemaIdDeserializer t payload (Some hs') (fresh sid) = (sid\<lparr>id_of := None\<rparr>, Inr 0)"
proof -
  obtain g where g: "guid_of sid = Some g" "is_uuid g" "wf_indexes sid"
    using assms by (auto simp: guid_sendable_def split: option.splits)
  show ?thesis
    using fromBytes_guid_frame [OF g(3,1,2), of "[]"]
    by (simp add: HeaderSchemaIdSerializer_def DualSchemaIdDeserializer_def guidToBytes_eq [OF g(1)]
        m_bind_apply)
qed

theorem header_frame_roundtrip_witness:
  "\<exists>hs'. HeaderSchemaIdSerializer KEY [7] sample_id (Some []) = Inr (Some hs', [7]) \<and>
    DualSchemaIdDeserializer KEY [7] (Some hs') (fresh sample_id) = (sample_id\<lparr>id_of := None\<rparr>, Inr 0)"
  by (rule header_frame_roundtrip) (rule sample_id_sendable)

text \<open>
  Two prefix frames are equal only if they carry the same schema id (with the same message
  indexes) and the same payload: nothing of the header can be mistaken for payload.
\<close>

theorem prefix_frame_unambiguous:
  assumes "id_sendable a" and "id_sendable b" and "schemaType a = schemaType b"
    and "PrefixSchemaIdSerializer t p a hs = PrefixSchemaIdSerializer t q b hs'"
  shows "id_of a = id_of b \<and> messageIndexes a = messageIndexes b \<and> p = q"
  using prefix_prefix.frame_inj [OF assms(1,2,3), of t p hs q hs'] assms(4)
  by (metis schema_id.select_convs(2,4) schema_id.surjective schema_id.update_convs(3))

theorem prefix_frame_unambiguous_witness:
  "id_of sample_id = id_of (sample_id\<lparr>guid_of := None\<rparr>) \<and>
   messageIndexes sample_id = messageIndexes (sample_id\<lparr>guid_of := None\<rparr>) \<and> [1::byte] = [1]"
proof (rule prefix_frame_unambiguous [of _ _ VALUE _ None _ None])
  show "id_sendable sample_id" "id_sendable (sample_id\<lparr>guid_of := None\<rparr>)"
    by (simp_all add: sample_id_sendable)
      (simp add: id_sendable_def wf_indexes_def sample_id_def newSchemaId_def safe_index_def)
qed (simp_all add: PrefixSchemaIdSerializer_def idToBytes_def split: option.splits)

text \<open>
  \<open>fromBytes\<close> accepts nothing but the two magic bytes: any other payload, the empty one
  included, raises \<open>SerializationError\<close> and leaves the \<open>SchemaId\<close> untouched.
\<close>

theorem fromBytes_unknown_magic:
  assumes "payload = [] \<or> hd payload \<notin> {0, 1}"
  shows "\<exists>msg. fromBytes payload sid = (sid, Inl (SerializationError msg))"
  using assms
  by (cases payload)
    (auto simp: fromBytes_def fromBytes_magic_def m_bind_apply js_slice_def MAGIC_BYTE_V0_def MAGIC_BYTE_V1_def)

theorem fromBytes_unknown_magic_witness:
  "\<exists>msg. fromBytes [7, 0, 0, 0, 1] sample_id = (sample_id, Inl (SerializationError msg))"
  by (rule fromBytes_unknown_magic) simp

text \<open>
  A GUID frame that is cut short is not rejected: for every payload that starts with the
  GUID magic byte and holds fewer than sixteen bytes after it, \<open>fromBytes\<close> stores a GUID text
  that contains the word \<open>undefined\<close> and reports seventeen bytes read, more than there are.
  (The id form does raise an error on a short payload.)
\<close>

theorem fromBytes_short_guid_accepted:
  assumes "length rest < 16" and "schemaType sid \<noteq> ''PROTOBUF''"
  shows "\<exists>pre. fromBytes (1 # rest) sid = (sid\<lparr>guid_of := Some (pre @ ''undefined'')\<rparr>, Inr 17)"
proof -
  have "hex_at rest 15 = ''undefined''"
    using assms(1) by (simp add: hex_at_def)
  then have "\<exists>pre. stringifyUuid rest = pre @ ''undefined''"
    unfolding stringifyUuid_def by (metis append.assoc)
  moreover have "js_slice 1 17 (1 # rest) = rest"
    using assms(1) by (simp add: js_slice_def)
  ultimately show ?thesis
    using assms(2)
    by (auto simp: fromBytes_def fromBytes_magic_def fromBytes_indexes_def m_bind_apply js_slice_def
        MAGIC_BYTE_V0_def MAGIC_BYTE_V1_def)
qed

theorem fromBytes_short_guid_accepted_witness:
  "\<exists>pre. fromBytes (1 # [171]) (newSchemaId ''AVRO'' None None None)
     = ((newSchemaId ''AVRO'' None None None)\<lparr>guid_of := Some (pre @ ''undefined'')\<rparr>, Inr 17)"
  by (rule fromBytes_short_guid_accepted) (simp_all add: newSchemaId_def)

end
