(* ===== verification/Schema_Model.thy ===== *)
theory Schema_Model
  imports JS_Prelude
begin

text \<open>
  The data of \<open>schemaregistry/schemaregistry-client.ts\<close>: rules, rule sets, schema references,
  metadata, schemas and their registered form, with \<open>minimize\<close>. An optional property is an
  \<open>option\<close>. An object used as a dictionary is an association list, by convention in ascending order
  of its keys: the code never depends on the order in which an object lists its properties.
\<close>

section \<open>Rules\<close>

datatype rule_phase = MIGRATION | DOMAIN | ENCODING

datatype rule_mode = UPGRADE | DOWNGRADE | UPDOWN | WRITE | READ | WRITEREAD

record rule =
  rule_name :: string
  rule_doc :: "string option"
  rule_kind :: "string option"
  rule_mode_of :: "rule_mode option"
  rule_type :: string
  rule_tags :: "string list option"
  rule_params :: "(string \<times> string) list option"
  rule_expr :: "string option"
  rule_onSuccess :: "string option"
  rule_onFailure :: "string option"
  rule_disabled :: "bool option"

record rule_set =
  migrationRules :: "rule list option"
  domainRules :: "rule list option"
  encodingRules :: "rule list option"
  enableAt :: "string option"

section \<open>Schemas\<close>

record reference =
  ref_name :: string
  ref_subject :: string
  ref_version :: int

record metadata =
  md_tags :: "(string \<times> string list) list option"
  md_properties :: "(string \<times> string) list option"
  md_sensitive :: "string list option"

record schema_info =
  si_schema :: string
  si_schemaType :: "string option"
  si_references :: "reference list option"
  si_metadata :: "metadata option"
  si_ruleSet :: "rule_set option"

record schema_metadata = schema_info +
  sm_id :: "int option"
  sm_guid :: "string option"
  sm_subject :: "string option"
  sm_version :: "int option"

text \<open>\<open>minimize\<close> keeps the five properties of a \<open>SchemaInfo\<close> and drops any other.\<close>

definition minimize :: "'a schema_info_scheme \<Rightarrow> schema_info" where
  "minimize info =
     \<lparr>si_schema = si_schema info, si_schemaType = si_schemaType info,
      si_references = si_references info, si_metadata = si_metadata info, si_ruleSet = si_ruleSet info\<rparr>"

lemma minimize_info [simp]: "minimize (i :: schema_info) = i"
  by (simp add: minimize_def)

lemma minimize_select [simp]:
  "si_schema (minimize i) = si_schema i" "si_references (minimize i) = si_references i"
  "si_metadata (minimize i) = si_metadata i" "si_ruleSet (minimize i) = si_ruleSet i"
  "si_schemaType (minimize i) = si_schemaType i"
  by (simp_all add: minimize_def)

text \<open>Building a \<open>SchemaMetadata\<close> by spreading a schema: \<open>{ id, guid, ...schema }\<close>.\<close>

definition spread_schema ::
    "int option \<Rightarrow> string option \<Rightarrow> string option \<Rightarrow> int option \<Rightarrow> schema_info \<Rightarrow> schema_metadata" where
  "spread_schema i g sub v s =
     \<lparr>si_schema = si_schema s, si_schemaType = si_schemaType s, si_references = si_references s,
      si_metadata = si_metadata s, si_ruleSet = si_ruleSet s,
      sm_id = i, sm_guid = g, sm_subject = sub, sm_version = v\<rparr>"

lemma minimize_spread [simp]: "minimize (spread_schema i g sub v s) = s"
  by (simp add: minimize_def spread_schema_def)

lemma spread_select [simp]:
  "sm_id (spread_schema i g sub v s) = i" "sm_guid (spread_schema i g sub v s) = g"
  "sm_subject (spread_schema i g sub v s) = sub" "sm_version (spread_schema i g sub v s) = v"
  "si_schema (spread_schema i g sub v s) = si_schema s" "si_ruleSet (spread_schema i g sub v s) = si_ruleSet s"
  by (simp_all add: spread_schema_def)

section \<open>Server configuration and associations\<close>

datatype compatibility =
  NONE | BACKWARD | FORWARD | FULL | BACKWARD_TRANSITIVE | FORWARD_TRANSITIVE | FULL_TRANSITIVE

record server_config =
  cfg_alias :: "string option"
  cfg_normalize :: "bool option"
  cfg_compatibility :: "compatibility option"
  compatibilityLevel :: "compatibility option"
  cfg_compatibilityGroup :: "string option"
  cfg_defaultMetadata :: "metadata option"
  cfg_overrideMetadata :: "metadata option"
  cfg_defaultRuleSet :: "rule_set option"
  cfg_overrideRuleSet :: "rule_set option"

datatype lifecycle_policy = STRONG | WEAK

record association =
  as_subject :: string
  as_guid :: "string option"
  as_resourceName :: string
  as_resourceNamespace :: string
  as_resourceId :: "string option"
  as_resourceType :: string
  as_associationType :: string
  as_lifecycle :: "lifecycle_policy option"
  as_frozen :: "bool option"

record association_info =
  ai_subject :: "string option"
  ai_associationType :: "string option"
  ai_lifecycle :: "lifecycle_policy option"
  ai_frozen :: "bool option"
  ai_schema :: "schema_info option"

record association_request =
  rq_resourceName :: "string option"
  rq_resourceNamespace :: "string option"
  rq_resourceId :: "string option"
  rq_resourceType :: "string option"
  rq_associations :: "association_info list option"

record association_response =
  rs_resourceName :: string
  rs_resourceNamespace :: string
  rs_resourceId :: string
  rs_resourceType :: string
  rs_associations :: "association_info list"

text \<open>\<open>x || d\<close> for an optional string: the empty string counts as absent.\<close>

definition str_or :: "string option \<Rightarrow> string \<Rightarrow> string" where
  "str_or x d = (case x of None \<Rightarrow> d | Some s \<Rightarrow> if s = [] then d else s)"

end
