(* ===== verification/Rule_Registry.thy ===== *)
theory Rule_Registry
  imports Schema_Model
begin

text \<open>
  \<open>schemaregistry/serde/rule-registry.ts\<close>: three insertion-ordered maps of executors, actions
  and overrides, each keyed by the type name of what is registered; and the rule context and
  executor interfaces of \<open>serde.ts\<close> that the registry stores.

  A rule executor or action is a piece of user code: it sees the rule context and the message
  and may change the outside world, whose state is the type variable \<open>'w\<close>.
\<close>

section \<open>Messages, contexts and the code a registry holds\<close>

text \<open>
  A message is any JavaScript value; the serde code only tells \<open>null\<close>/\<open>undefined\<close> and the
  boolean \<open>false\<close> from the rest.
\<close>

datatype 'm jsval = JNull | JBool bool | JVal 'm

datatype field_type =
    F_RECORD | F_ENUM | F_ARRAY | F_MAP | F_COMBINED | F_FIXED | F_STRING | F_BYTES
  | F_INT | F_LONG | F_FLOAT | F_DOUBLE | F_BOOLEAN | F_NULL

record 'm field_context =
  containingMessage :: "'m jsval"
  fullName :: string
  fc_name :: string
  fc_type :: field_type
  fc_tags :: "string set"

record 'm rule_context =
  ctx_enabledEnv :: "string option"
  ctx_source :: "schema_info option"
  ctx_target :: schema_info
  ctx_subject :: string
  ctx_topic :: string
  ctx_isKey :: bool
  ctx_ruleMode :: rule_mode
  ctx_rule :: rule
  ctx_index :: nat
  ctx_rules :: "rule list"
  ctx_inlineTags :: "(string \<times> string set) list option"
  ctx_depSchemas :: "string list option"
  ctx_fieldContexts :: "'m field_context list"

record ('w, 'm) rule_executor =
  ex_type :: string
  ex_transform :: "'m rule_context \<Rightarrow> 'm jsval \<Rightarrow> ('w, 'm jsval) meth"

record ('w, 'm) rule_action =
  ac_type :: string
  ac_run :: "'m rule_context \<Rightarrow> 'm jsval \<Rightarrow> js_error option \<Rightarrow> ('w, unit) meth"

record rule_override =
  ov_type :: string
  ov_onSuccess :: "string option"
  ov_onFailure :: "string option"
  ov_disabled :: "bool option"

section \<open>The registry\<close>

record ('w, 'm) rule_registry =
  ruleExecutors :: "(string, ('w, 'm) rule_executor) jsmap"
  ruleActions :: "(string, ('w, 'm) rule_action) jsmap"
  ruleOverrides :: "(string, rule_override) jsmap"

definition newRuleRegistry :: "('w, 'm) rule_registry" where
  "newRuleRegistry = \<lparr>ruleExecutors = [], ruleActions = [], ruleOverrides = []\<rparr>"

definition registerExecutor ::
    "('w, 'm) rule_executor \<Rightarrow> ('w, 'm) rule_registry \<Rightarrow> ('w, 'm) rule_registry" where
  "registerExecutor e r = r\<lparr>ruleExecutors := jm_set (ex_type e) e (ruleExecutors r)\<rparr>"

definition getExecutor :: "('w, 'm) rule_registry \<Rightarrow> string \<Rightarrow> ('w, 'm) rule_executor option" where
  "getExecutor r name = jm_get (ruleExecutors r) name"

definition getExecutors :: "('w, 'm) rule_registry \<Rightarrow> ('w, 'm) rule_executor list" where
  "getExecutors r = map snd (ruleExecutors r)"

definition registerAction ::
    "('w, 'm) rule_action \<Rightarrow> ('w, 'm) rule_registry \<Rightarrow> ('w, 'm) rule_registry" where
  "registerAction a r = r\<lparr>ruleActions := jm_set (ac_type a) a (ruleActions r)\<rparr>"

definition getAction :: "('w, 'm) rule_registry \<Rightarrow> string \<Rightarrow> ('w, 'm) rule_action option" where
  "getAction r name = jm_get (ruleActions r) name"

definition getActions :: "('w, 'm) rule_registry \<Rightarrow> ('w, 'm) rule_action list" where
  "getActions r = map snd (ruleActions r)"

definition registerOverride :: "rule_override \<Rightarrow> ('w, 'm) rule_registry \<Rightarrow> ('w, 'm) rule_registry" where
  "registerOverride v r = r\<lparr>ruleOverrides := jm_set (ov_type v) v (ruleOverrides r)\<rparr>"

definition getOverride :: "('w, 'm) rule_registry \<Rightarrow> string \<Rightarrow> rule_override option" where
  "getOverride r name = jm_get (ruleOverrides r) name"

definition getOverrides :: "('w, 'm) rule_registry \<Rightarrow> rule_override list" where
  "getOverrides r = map snd (ruleOverrides r)"

definition clear :: "('w, 'm) rule_registry \<Rightarrow> ('w, 'm) rule_registry" where
  "clear r = r\<lparr>ruleExecutors := [], ruleActions := [], ruleOverrides := []\<rparr>"

section \<open>The contract of a keyed registry\<close>

text \<open>
  Each third of the registry keeps the same contract: entries are found under the name they
  were registered with, the last registration under a name wins, and clearing forgets all.
\<close>

locale keyed_registry =
  fixes register :: "'v \<Rightarrow> 'r \<Rightarrow> 'r"
    and getByName :: "'r \<Rightarrow> string \<Rightarrow> 'v option"
    and getAll :: "'r \<Rightarrow> 'v list"
    and clearAll :: "'r \<Rightarrow> 'r"
    and nameOf :: "'v \<Rightarrow> string"
    and wf :: "'r \<Rightarrow> bool"
  assumes get_register: "getByName (register v r) n = (if n = nameOf v then Some v else getByName r n)"
    and get_clear: "getByName (clearAll r) n = None"
    and wf_register: "wf r \<Longrightarrow> wf (register v r)"
    and wf_clear: "wf (clearAll r)"
    and all_iff: "wf r \<Longrightarrow> v \<in> set (getAll r) \<longleftrightarrow> getByName r (nameOf v) = Some v"
begin

lemma last_registration_wins: "getByName (fold register vs r) n =
    (case find (\<lambda>v. nameOf v = n) (rev vs) of Some v \<Rightarrow> Some v | None \<Rightarrow> getByName r n)"
proof (induction vs rule: rev_induct)
  case Nil
  then show ?case by simp
next
  case (snoc v vs)
  then show ?case by (auto simp: get_register)
qed

lemma wf_fold_register: "wf r \<Longrightarrow> wf (fold register vs r)"
  by (induction vs arbitrary: r) (auto intro: wf_register)

text \<open>Distinct names: every registered value is listed and found again.\<close>

lemma registered_found:
  assumes "distinct (map nameOf vs)" and "v \<in> set vs"
  shows "getByName (fold register vs r) (nameOf v) = Some v"
proof -
  have "find (\<lambda>u. nameOf u = nameOf v) (rev vs) = Some v"
    using assms by (induction vs rule: rev_induct) (auto simp: image_iff)
  then show ?thesis by (simp add: last_registration_wins)
qed

lemma registered_listed:
  assumes "wf r" and "distinct (map nameOf vs)" and "v \<in> set vs"
  shows "v \<in> set (getAll (fold register vs r))"
  using assms registered_found [OF assms(2,3)] by (simp add: all_iff wf_fold_register)

end

definition keyed :: "('v \<Rightarrow> string) \<Rightarrow> (string, 'v) jsmap \<Rightarrow> bool" where
  "keyed name m \<longleftrightarrow> distinct (map fst m) \<and> (\<forall>(k, v) \<in> set m. k = name v)"

lemma keyed_set: "keyed name m \<Longrightarrow> keyed name (jm_set (name v) v m)"
  by (auto simp: keyed_def jm_set_distinct dest!: jm_set_entry)

lemma keyed_values:
  "keyed name m \<Longrightarrow> v \<in> snd ` set m \<longleftrightarrow> jm_get m (name v) = Some v"
proof
  assume k: "keyed name m" and "v \<in> snd ` set m"
  then obtain n where n: "(n, v) \<in> set m" by auto
  with k have "n = name v" by (auto simp: keyed_def)
  with n k show "jm_get m (name v) = Some v" by (simp add: keyed_def)
next
  assume "jm_get m (name v) = Some v"
  then show "v \<in> snd ` set m" by (force dest: map_of_SomeD)
qed

lemma keyed_Nil [simp]: "keyed name []"
  by (simp add: keyed_def)

lemmas registry_defs = registerExecutor_def getExecutor_def getExecutors_def registerAction_def
  getAction_def getActions_def registerOverride_def getOverride_def getOverrides_def clear_def
  newRuleRegistry_def

definition registry_wf :: "('w, 'm) rule_registry \<Rightarrow> bool" where
  "registry_wf r \<longleftrightarrow> keyed ex_type (ruleExecutors r) \<and> keyed ac_type (ruleActions r) \<and>
     keyed ov_type (ruleOverrides r)"

interpretation executors: keyed_registry registerExecutor getExecutor getExecutors clear ex_type registry_wf
  by unfold_locales (auto simp: registry_defs registry_wf_def keyed_set keyed_values)

interpretation actions: keyed_registry registerAction getAction getActions clear ac_type registry_wf
  by unfold_locales (auto simp: registry_defs registry_wf_def keyed_set keyed_values)

interpretation overrides: keyed_registry registerOverride getOverride getOverrides clear ov_type registry_wf
  by unfold_locales (auto simp: registry_defs registry_wf_def keyed_set keyed_values)

lemma newRuleRegistry_wf: "registry_wf newRuleRegistry"
  by (simp add: registry_wf_def newRuleRegistry_def keyed_def)

end
