(* ===== verification/Wildcard_Matcher.thy ===== *)
theory Wildcard_Matcher
  imports JS_Prelude
begin

text \<open>
  \<open>schemaregistry/serde/wildcard-matcher.ts\<close>: tag patterns of a schema's metadata are matched
  against full field names by translating the pattern to a regular expression. The model
  translates the pattern to the text of the regular expression as the code does, parses that
  text the way \<open>new RegExp\<close> does, and matches with the backtracking order of JavaScript: greedy,
  at the leftmost position. The code then compares the text that was matched with the whole
  string; \<open>greedy_full\<close> shows that this is the same as matching the whole string.
\<close>

section \<open>Translation to a regular expression\<close>

text \<open>\<open>globExp.replaceAll('**' + separator + '*', '**')\<close> for the separator \<open>'.'\<close>.\<close>

fun collapse :: "string \<Rightarrow> string" where
  "collapse (a # b # c # d # r) =
     (if a = CHR ''*'' \<and> b = CHR ''*'' \<and> c = CHR ''.'' \<and> d = CHR ''*''
      then CHR ''*'' # CHR ''*'' # collapse r else a # collapse (b # c # d # r))"
| "collapse s = s"

definition escaped_chars :: string where
  "escaped_chars = ''.+{}()|^$''"

definition backslash :: char where
  "backslash = CHR 0x5C"

text \<open>
  \<open>doubleSlashes(dst, src, i)\<close>, on the rest of \<open>src\<close> after the backslash: what it appends to
  \<open>dst\<close> and what is left of \<open>src\<close>. (\<open>i + 1 < src.length\<close> says that two characters are left.)
\<close>

fun doubleSlashes :: "string \<Rightarrow> string \<times> string" where
  "doubleSlashes (c # d # r) = ([backslash, backslash, c], d # r)"
| "doubleSlashes r = ([backslash, backslash], r)"

lemma doubleSlashes_shorter [termination_simp]: "length (snd (doubleSlashes r)) \<le> length r"
  by (cases r rule: doubleSlashes.cases) auto

function wildcardToRegexp :: "string \<Rightarrow> string" where
  "wildcardToRegexp [] = []"
| "wildcardToRegexp (c # r) =
     (if c = CHR ''*''
      then (case r of
              d # r' \<Rightarrow> if d = CHR ''*'' then ''.*'' @ wildcardToRegexp r'
                        else ''[^.]*'' @ wildcardToRegexp r
            | [] \<Rightarrow> ''[^.]*'' @ wildcardToRegexp r)
      else if c = CHR ''?'' then ''[^.]'' @ wildcardToRegexp r
      else if c \<in> set escaped_chars then [backslash, c] @ wildcardToRegexp r
      else if c = backslash
      then fst (doubleSlashes r) @ wildcardToRegexp (snd (doubleSlashes r))
      else c # wildcardToRegexp r)"
  by pat_completeness auto
termination
  by (relation "measure length") (auto simp: le_imp_less_Suc doubleSlashes_shorter)

section \<open>Regular expressions\<close>

text \<open>
  What such a text denotes: a sequence of single characters and starred ones, each drawn from
  a literal, any character but a line terminator, or a class of ranges.
\<close>

datatype re_class = Lit char | AnyChar | Class bool "(char \<times> char) list"

datatype re_item = One re_class | Star re_class

fun in_class :: "re_class \<Rightarrow> char \<Rightarrow> bool" where
  "in_class (Lit c) x \<longleftrightarrow> x = c"
| "in_class AnyChar x \<longleftrightarrow> x \<noteq> CHR 0x0A \<and> x \<noteq> CHR 0x0D"
| "in_class (Class neg rs) x \<longleftrightarrow>
     (list_ex (\<lambda>(a, b). of_char a \<le> (of_char x :: nat) \<and> (of_char x :: nat) \<le> of_char b) rs \<noteq> neg)"

text \<open>
  \<open>new RegExp(re)\<close>: a syntax error, or the items. Groups, alternatives, anchors and the
  quantifiers other than \<open>*\<close> can only come from a backslash in the pattern; they are outside the
  model (\<open>ReUnsupported\<close>).
\<close>

datatype 'a re_parse = Parsed 'a | ReSyntaxError | ReUnsupported

fun rp_map :: "('a \<Rightarrow> 'b) \<Rightarrow> 'a re_parse \<Rightarrow> 'b re_parse" where
  "rp_map f (Parsed x) = Parsed (f x)"
| "rp_map f ReSyntaxError = ReSyntaxError"
| "rp_map f ReUnsupported = ReUnsupported"

fun rp_bind :: "'a re_parse \<Rightarrow> ('a \<Rightarrow> 'b re_parse) \<Rightarrow> 'b re_parse" where
  "rp_bind (Parsed x) f = f x"
| "rp_bind ReSyntaxError f = ReSyntaxError"
| "rp_bind ReUnsupported f = ReUnsupported"

lemma rp_bind_cong [fundef_cong]:
  "m = m' \<Longrightarrow> (\<And>x. m' = Parsed x \<Longrightarrow> f x = f' x) \<Longrightarrow> rp_bind m f = rp_bind m' f'"
  by (cases m') auto

lemma rp_bind_Parsed_iff: "rp_bind m f = Parsed y \<longleftrightarrow> (\<exists>x. m = Parsed x \<and> f x = Parsed y)"
  by (cases m) auto

text \<open>
  A character after a backslash stands for itself unless it is a letter or a digit
  (\<open>\d\<close>, \<open>\b\<close>, a back reference), which is outside the model.
\<close>

definition alnum :: "char \<Rightarrow> bool" where
  "alnum c \<longleftrightarrow> (let n = (of_char c :: nat) in (48 \<le> n \<and> n \<le> 57) \<or> (65 \<le> n \<and> n \<le> 90) \<or> (97 \<le> n \<and> n \<le> 122))"

fun escape_atom :: "string \<Rightarrow> (char \<times> string) re_parse" where
  "escape_atom [] = ReSyntaxError"
| "escape_atom (d # r) = (if alnum d then ReUnsupported else Parsed (d, r))"

fun class_atom :: "string \<Rightarrow> (char \<times> string) re_parse" where
  "class_atom [] = ReSyntaxError"
| "class_atom (c # r) = (if c = backslash then escape_atom r else Parsed (c, r))"

lemma escape_atom_shorter: "escape_atom s = Parsed (c, r) \<Longrightarrow> length r < length s"
  by (cases s) (auto split: if_splits)

lemma class_atom_shorter: "class_atom s = Parsed (c, r) \<Longrightarrow> length r < length s"
  by (cases s) (auto split: if_splits dest: escape_atom_shorter)

text \<open>The rest of a class after \<open>[\<close> or \<open>[^\<close>: its ranges, and the text after the closing bracket.\<close>

function class_body :: "string \<Rightarrow> ((char \<times> char) list \<times> string) re_parse" where
  "class_body s =
     (if s \<noteq> [] \<and> hd s = CHR '']'' then Parsed ([], tl s)
      else rp_bind (class_atom s) (\<lambda>(a, r).
             if r \<noteq> [] \<and> hd r = CHR ''-'' \<and> tl r \<noteq> [] \<and> hd (tl r) \<noteq> CHR '']''
             then rp_bind (class_atom (tl r)) (\<lambda>(b, r').
                    if (of_char b :: nat) < of_char a then ReSyntaxError
                    else rp_map (apfst (Cons (a, b))) (class_body r'))
             else rp_map (apfst (Cons (a, a))) (class_body r)))"
  by pat_completeness auto
termination
proof (relation "measure length", goal_cases)
  case 1
  show ?case by simp
next
  case (2 s x a r y b r')
  then have "length r' < length (tl r)" "length r < length s"
    by (auto dest: class_atom_shorter)
  then show ?case by simp
next
  case (3 s x a r)
  then show ?case by (auto dest: class_atom_shorter)
qed

declare class_body.simps [simp del]

text \<open>
  An atom of the expression: an escaped character, a dot, a class, or a plain character. A
  star with nothing before it is a syntax error; a closing bracket stands for itself.
\<close>

definition re_specials :: string where
  "re_specials = ''+?{}()|^$''"

definition parse_atom :: "char \<Rightarrow> string \<Rightarrow> (re_class \<times> string) re_parse" where
  "parse_atom c r =
     (if c = backslash then rp_map (apfst Lit) (escape_atom r)
      else if c = CHR ''.'' then Parsed (AnyChar, r)
      else if c = CHR ''['' then
        (if r \<noteq> [] \<and> hd r = CHR ''^'' then rp_map (apfst (Class True)) (class_body (tl r))
         else rp_map (apfst (Class False)) (class_body r))
      else if c = CHR ''*'' then ReSyntaxError
      else if c \<in> set re_specials then ReUnsupported
      else Parsed (Lit c, r))"

text \<open>The fuel of \<open>parse_items\<close> is the length of the text: every atom takes a character.\<close>

fun parse_items :: "nat \<Rightarrow> string \<Rightarrow> re_item list re_parse" where
  "parse_items n [] = Parsed []"
| "parse_items 0 (c # r) = ReUnsupported"
| "parse_items (Suc n) (c # r) =
     rp_bind (parse_atom c r) (\<lambda>(a, r').
       if r' \<noteq> [] \<and> hd r' = CHR ''*'' then rp_map (Cons (Star a)) (parse_items n (tl r'))
       else rp_map (Cons (One a)) (parse_items n r'))"

definition newRegExp :: "string \<Rightarrow> re_item list re_parse" where
  "newRegExp re = parse_items (length re) re"

section \<open>Matching\<close>

text \<open>
  The length of the match at the start of the string, the first one in the backtracking order:
  a star takes as many characters as it can and gives one back when the rest fails.
\<close>

function greedy :: "re_item list \<Rightarrow> string \<Rightarrow> nat option" where
  "greedy [] s = Some 0"
| "greedy (One c # r) [] = None"
| "greedy (One c # r) (x # s) = (if in_class c x then map_option Suc (greedy r s) else None)"
| "greedy (Star c # r) [] = greedy r []"
| "greedy (Star c # r) (x # s) =
     (if in_class c x
      then (case greedy (Star c # r) s of Some n \<Rightarrow> Some (Suc n) | None \<Rightarrow> greedy r (x # s))
      else greedy r (x # s))"
  by pat_completeness auto
termination
  by (relation "measures [length \<circ> fst, length \<circ> snd]") auto

text \<open>\<open>str.match(pattern)\<close>: the text matched at the leftmost position where there is a match.\<close>

fun re_exec :: "re_item list \<Rightarrow> string \<Rightarrow> string option" where
  "re_exec r [] = map_option (\<lambda>n. []) (greedy r [])"
| "re_exec r (x # s) = (case greedy r (x # s) of Some n \<Rightarrow> Some (take n (x # s)) | None \<Rightarrow> re_exec r s)"

text \<open>\<open>match(str, wildcardMatcher)\<close>; \<open>None\<close> where the expression is outside the model.\<close>

definition match_re :: "string \<Rightarrow> string \<Rightarrow> bool option" where
  "match_re str re =
     (case newRegExp re of
        Parsed items \<Rightarrow> Some (re_exec items str = Some str)
      | ReSyntaxError \<Rightarrow> Some False
      | ReUnsupported \<Rightarrow> None)"

definition match :: "string \<Rightarrow> string \<Rightarrow> bool option" where
  "match str wildcardMatcher = match_re str (wildcardToRegexp (collapse wildcardMatcher))"

section \<open>Greedy matching and whole-string matching agree\<close>

fun re_full :: "re_item list \<Rightarrow> string \<Rightarrow> bool" where
  "re_full [] s \<longleftrightarrow> s = []"
| "re_full (One c # r) s \<longleftrightarrow> (case s of [] \<Rightarrow> False | x # t \<Rightarrow> in_class c x \<and> re_full r t)"
| "re_full (Star c # r) s \<longleftrightarrow>
     (\<exists>k \<le> length s. list_all (in_class c) (take k s) \<and> re_full r (drop k s))"

lemma full_Star_Cons:
  "re_full (Star c # r) (x # s) \<longleftrightarrow> re_full r (x # s) \<or> (in_class c x \<and> re_full (Star c # r) s)"
proof
  assume "re_full (Star c # r) (x # s)"
  then obtain k where k: "k \<le> Suc (length s)" "list_all (in_class c) (take k (x # s))"
      "re_full r (drop k (x # s))"
    by auto
  then show "re_full r (x # s) \<or> (in_class c x \<and> re_full (Star c # r) s)"
    by (cases k) auto
next
  assume "re_full r (x # s) \<or> (in_class c x \<and> re_full (Star c # r) s)"
  then show "re_full (Star c # r) (x # s)"
  proof
    assume "re_full r (x # s)"
    then show ?thesis by (auto intro!: exI [of _ 0])
  next
    assume "in_class c x \<and> re_full (Star c # r) s"
    then obtain k where "in_class c x" "k \<le> length s" "list_all (in_class c) (take k s)"
        "re_full r (drop k s)"
      by auto
    then show ?thesis by (auto intro!: exI [of _ "Suc k"])
  qed
qed

lemma full_Star_Nil: "re_full (Star c # r) [] \<longleftrightarrow> re_full r []"
  by simp

lemmas full_Star_eval = full_Star_Nil full_Star_Cons

lemma greedy_sound: "greedy r s = Some n \<Longrightarrow> n \<le> length s \<and> re_full r (take n s)"
proof (induction r s arbitrary: n rule: greedy.induct)
  case (4 c r)
  then show ?case by auto
next
  case (5 c r x s)
  show ?case
  proof (cases "in_class c x \<and> (\<exists>m. greedy (Star c # r) s = Some m)")
    case True
    then obtain m where "greedy (Star c # r) s = Some m" by auto
    with True 5 show ?thesis by (auto simp: full_Star_Cons simp del: re_full.simps)
  next
    case False
    then have "greedy r (x # s) = Some n"
      using "5.prems" by (auto split: if_splits option.splits)
    moreover from False this "5.IH" have "n \<le> length (x # s) \<and> re_full r (take n (x # s))"
      by (cases "in_class c x") auto
    ultimately show ?thesis
      by (cases n) (simp_all add: full_Star_Cons del: re_full.simps(3), simp)
  qed
qed (auto split: if_splits)

lemma full_Star_iff: "re_full (Star c # r) s \<longleftrightarrow> (\<exists>u v. s = u @ v \<and> list_all (in_class c) u \<and> re_full r v)"
proof
  assume "re_full (Star c # r) s"
  then obtain k where "list_all (in_class c) (take k s)" "re_full r (drop k s)" by auto
  then show "\<exists>u v. s = u @ v \<and> list_all (in_class c) u \<and> re_full r v"
    by (intro exI [of _ "take k s"] exI [of _ "drop k s"]) simp
next
  assume "\<exists>u v. s = u @ v \<and> list_all (in_class c) u \<and> re_full r v"
  then obtain u v where "s = u @ v" "list_all (in_class c) u" "re_full r v" by auto
  then show "re_full (Star c # r) s"
    by (auto intro!: exI [of _ "length u"])
qed

lemma greedy_Star_split:
  "greedy (Star c # r) s \<noteq> None \<Longrightarrow> \<exists>u v. s = u @ v \<and> list_all (in_class c) u \<and> greedy r v \<noteq> None"
proof (induction s)
  case Nil
  then show ?case by auto
next
  case (Cons x s)
  show ?case
  proof (cases "in_class c x \<and> greedy (Star c # r) s \<noteq> None")
    case True
    with Cons.IH obtain u v where "s = u @ v" "list_all (in_class c) u" "greedy r v \<noteq> None"
      by auto
    with True show ?thesis
      by (intro exI [of _ "x # u"] exI [of _ v]) simp
  next
    case False
    with Cons.prems have "greedy r (x # s) \<noteq> None"
      by (auto split: if_splits)
    then show ?thesis
      by (intro exI [of _ "[]"] exI [of _ "x # s"]) simp
  qed
qed

text \<open>
  Where the rest of an expression matches the whole of a string, it also matches the whole of
  every suffix at which it matches at all. So giving a star more characters never loses a
  whole match.
\<close>

lemma full_shift:
  "re_full r s \<Longrightarrow> s = p @ t \<Longrightarrow> greedy r t \<noteq> None \<Longrightarrow> re_full r t"
proof (induction r arbitrary: s p t)
  case Nil
  then show ?case by simp
next
  case (Cons i r)
  show ?case
  proof (cases i)
    case (One c)
    then obtain x s' where s: "s = x # s'" "re_full r s'"
      using Cons.prems(1) by (auto split: list.splits)
    obtain y t' where t: "t = y # t'" "in_class c y" "greedy r t' \<noteq> None"
      using Cons.prems(3) One by (cases t) (auto split: if_splits)
    have "\<exists>p'. s' = p' @ t'"
      using Cons.prems(2) s(1) t(1) by (cases p) auto
    with Cons.IH [OF s(2) _ t(3)] t One show ?thesis by auto
  next
    case (Star c)
    then obtain u v where uv: "s = u @ v" "list_all (in_class c) u" "re_full r v"
      using Cons.prems(1) by (auto simp: full_Star_iff simp del: re_full.simps(3))
    obtain u' v' where uv': "t = u' @ v'" "list_all (in_class c) u'" "greedy r v' \<noteq> None"
      using Cons.prems(3) Star greedy_Star_split by blast
    have "p @ t = u @ v"
      using Cons.prems(2) uv(1) by simp
    then obtain w where "(p = u @ w \<and> v = w @ t) \<or> (u = p @ w \<and> t = w @ v)"
      by (auto simp: append_eq_append_conv2)
    then show ?thesis
    proof
      assume "u = p @ w \<and> t = w @ v"
      with uv Star show ?thesis
        by (auto simp: full_Star_iff simp del: re_full.simps(3))
    next
      assume "p = u @ w \<and> v = w @ t"
      then have "v = (w @ u') @ v'"
        using uv'(1) by simp
      from Cons.IH [OF uv(3) this uv'(3)] uv' Star show ?thesis
        by (auto simp: full_Star_iff simp del: re_full.simps(3))
    qed
  qed
qed

lemma greedy_complete: "re_full r s \<Longrightarrow> greedy r s = Some (length s)"
proof (induction r s rule: greedy.induct)
  case (5 c r x s)
  show ?case
  proof (cases "in_class c x \<and> greedy (Star c # r) s \<noteq> None")
    case True
    then have "re_full (Star c # r) s"
      using full_shift [OF "5.prems", of "[x]" s] by simp
    with 5 True show ?thesis by auto
  next
    case False
    then have "re_full r (x # s)"
      using "5.prems" "5.IH"(1) by (auto simp: full_Star_Cons simp del: re_full.simps(3))
    with 5 False show ?thesis by auto
  qed
qed (auto split: if_splits)

lemma re_exec_length: "re_exec r s = Some m \<Longrightarrow> length m \<le> length s"
  by (induction r s rule: re_exec.induct) (auto split: option.splits)

text \<open>The comparison of the matched text with the string is a match of the whole string.\<close>

lemma re_exec_full: "re_exec r s = Some s \<longleftrightarrow> re_full r s"
proof
  assume m: "re_exec r s = Some s"
  show "re_full r s"
  proof (cases "greedy r s")
    case None
    then show ?thesis using m by (cases s) (auto dest: re_exec_length)
  next
    case (Some n)
    then have "take n s = s"
      using m by (cases s) auto
    with greedy_sound [OF Some] show ?thesis by simp
  qed
next
  assume "re_full r s"
  then have "greedy r s = Some (length s)" by (rule greedy_complete)
  then show "re_exec r s = Some s" by (cases s) auto
qed

section \<open>Patterns without brackets and backslashes\<close>

text \<open>
  What a tag pattern means: \<open>**\<close> any text without a line break, \<open>*\<close> any text without a dot, \<open>?\<close>
  one character other than a dot, and every other character itself.
\<close>

definition not_dot :: re_class where
  "not_dot = Class True [(CHR ''.'', CHR ''.'')]"

fun glob_items :: "string \<Rightarrow> re_item list" where
  "glob_items [] = []"
| "glob_items (c # r) =
     (if c = CHR ''*''
      then (case r of
              d # r' \<Rightarrow> if d = CHR ''*'' then Star AnyChar # glob_items r'
                        else Star not_dot # glob_items r
            | [] \<Rightarrow> Star not_dot # glob_items r)
      else if c = CHR ''?'' then One not_dot # glob_items r
      else One (Lit c) # glob_items r)"

lemma in_class_single: "in_class (Class neg [(a, a)]) x \<longleftrightarrow> (x = a) \<noteq> neg"
  by (auto simp: antisym_conv of_char_eq_iff dest: antisym)

lemma in_class_not_dot [simp]: "in_class not_dot c \<longleftrightarrow> c \<noteq> CHR ''.''"
  by (simp add: not_dot_def in_class_single del: in_class.simps)

definition plain :: "string \<Rightarrow> bool" where
  "plain g \<longleftrightarrow> CHR ''['' \<notin> set g \<and> CHR '']'' \<notin> set g \<and> backslash \<notin> set g"

lemma wildcardToRegexp_head: "plain g \<Longrightarrow> wildcardToRegexp g = CHR ''*'' # t \<Longrightarrow> False"
  by (induction g rule: wildcardToRegexp.induct)
     (auto simp: plain_def backslash_def split: if_splits list.splits)

lemma class_body_not_dot: "class_body (CHR ''.'' # CHR '']'' # t) = Parsed ([(CHR ''.'', CHR ''.'')], t)"
  by (simp add: class_body.simps backslash_def)

lemma parse_items_star_not_dot:
  "parse_items (Suc n) (''[^.]*'' @ t) = rp_map (Cons (Star not_dot)) (parse_items n t)"
  by (simp add: parse_atom_def class_body_not_dot backslash_def not_dot_def)

lemma parse_items_one_not_dot:
  "\<forall>u. t \<noteq> CHR ''*'' # u \<Longrightarrow>
     parse_items (Suc n) (''[^.]'' @ t) = rp_map (Cons (One not_dot)) (parse_items n t)"
  by (cases t) (auto simp: parse_atom_def class_body_not_dot backslash_def not_dot_def)

lemma parse_items_any:
  "parse_items (Suc n) (''.*'' @ t) = rp_map (Cons (Star AnyChar)) (parse_items n t)"
  by (simp add: parse_atom_def backslash_def)

lemma parse_items_escaped:
  "c \<in> set escaped_chars \<Longrightarrow> \<forall>u. t \<noteq> CHR ''*'' # u \<Longrightarrow>
     parse_items (Suc n) ([backslash, c] @ t) = rp_map (Cons (One (Lit c))) (parse_items n t)"
  by (cases t) (auto simp: parse_atom_def escaped_chars_def alnum_def)

lemma parse_items_plain:
  assumes "c \<notin> set escaped_chars" "c \<noteq> CHR ''*''" "c \<noteq> CHR ''?''" "c \<noteq> backslash" "c \<noteq> CHR ''[''"
    and "\<forall>u. t \<noteq> CHR ''*'' # u"
  shows "parse_items (Suc n) (c # t) = rp_map (Cons (One (Lit c))) (parse_items n t)"
  using assms by (cases t) (auto simp: parse_atom_def escaped_chars_def re_specials_def)

lemmas parse_steps = parse_items_star_not_dot parse_items_one_not_dot parse_items_any
  parse_items_escaped parse_items_plain

lemma parse_wildcard:
  "plain g \<Longrightarrow> length (wildcardToRegexp g) \<le> n \<Longrightarrow>
     parse_items n (wildcardToRegexp g) = Parsed (glob_items g)"
proof (induction g arbitrary: n rule: wildcardToRegexp.induct)
  case 1
  then show ?case by simp
next
  case (2 c r)
  have r: "plain r" "c \<noteq> backslash" "c \<noteq> CHR ''[''"
    using "2.prems"(1) by (auto simp: plain_def)
  have head: "\<forall>u. wildcardToRegexp r \<noteq> CHR ''*'' # u"
    using wildcardToRegexp_head [OF r(1)] by blast
  obtain m where n: "n = Suc m"
    using "2.prems"(2) r(2) by (cases n) (auto split: if_splits list.splits)
  consider (double) r' where "c = CHR ''*''" "r = CHR ''*'' # r'"
    | (single) "c = CHR ''*''" "\<forall>r'. r \<noteq> CHR ''*'' # r'"
    | (one) "c = CHR ''?''"
    | (escaped) "c \<in> set escaped_chars" "c \<noteq> CHR ''*''" "c \<noteq> CHR ''?''"
    | (other) "c \<notin> set escaped_chars" "c \<noteq> CHR ''*''" "c \<noteq> CHR ''?''"
    by blast
  then show ?case
  proof cases
    case double
    then have "plain r'" using r(1) by (simp add: plain_def)
    then have "parse_items m (wildcardToRegexp r') = Parsed (glob_items r')"
      using double "2.prems"(2) "2.IH"(2) n by simp
    with double n show ?thesis
      using parse_items_any [of m "wildcardToRegexp r'"] by simp
  next
    case single
    then have eq: "wildcardToRegexp (c # r) = ''[^.]*'' @ wildcardToRegexp r"
        "glob_items (c # r) = Star not_dot # glob_items r"
      by (auto split: list.splits)
    have "parse_items m (wildcardToRegexp r) = Parsed (glob_items r)"
      using single r(1) "2.prems"(2) "2.IH"(1,3) n eq by (cases r) auto
    then show ?thesis
      by (simp only: eq n parse_items_star_not_dot rp_map.simps)
  next
    case one
    then have "parse_items m (wildcardToRegexp r) = Parsed (glob_items r)"
      using r(1) "2.prems"(2) "2.IH"(4) n by simp
    with one n parse_items_one_not_dot [OF head] show ?thesis
      by simp
  next
    case escaped
    then have "parse_items m (wildcardToRegexp r) = Parsed (glob_items r)"
      using r(1) "2.prems"(2) "2.IH"(5) n by simp
    with escaped n parse_items_escaped [OF escaped(1) head] show ?thesis
      by simp
  next
    case other
    then have "parse_items m (wildcardToRegexp r) = Parsed (glob_items r)"
      using r "2.prems"(2) "2.IH"(7) n by simp
    with other n r parse_items_plain [OF other r(2,3) head] show ?thesis
      by simp
  qed
qed

lemma collapse_set: "set (collapse g) \<subseteq> set g"
  by (induction g rule: collapse.induct) auto

lemma plain_collapse: "plain g \<Longrightarrow> plain (collapse g)"
  using collapse_set [of g] by (auto simp: plain_def)

lemma match_plain:
  assumes "plain g"
  shows "match s g = Some (re_full (glob_items (collapse g)) s)"
proof -
  have "newRegExp (wildcardToRegexp (collapse g)) = Parsed (glob_items (collapse g))"
    unfolding newRegExp_def by (rule parse_wildcard [OF plain_collapse [OF assms]]) simp
  then show ?thesis by (simp add: match_def match_re_def re_exec_full)
qed

section \<open>What a pattern means\<close>

text \<open>
  The meaning of a pattern, read from the pattern itself. \<open>**\<close> stands for any text without a line break, \<open>*\<close>
  for any text without a dot, \<open>?\<close> for one character other than a dot, and every other character for itself;
  \<open>**.*\<close> is read as one sign that means what \<open>**\<close> means, so the dot in it need not occur in the name. The empty
  text counts for both stars.
\<close>

definition one_line :: "string \<Rightarrow> bool" where
  "one_line u \<longleftrightarrow> CHR 0x0A \<notin> set u \<and> CHR 0x0D \<notin> set u"

inductive wild :: "string \<Rightarrow> string \<Rightarrow> bool" where
  wild_end: "wild [] []"
| wild_levels: "one_line u \<Longrightarrow> wild g s \<Longrightarrow> wild (''**.*'' @ g) (u @ s)"
| wild_across: "one_line u \<Longrightarrow> take 2 g \<noteq> ''.*'' \<Longrightarrow> wild g s \<Longrightarrow> wild (''**'' @ g) (u @ s)"
| wild_within: "CHR ''.'' \<notin> set u \<Longrightarrow> take 1 g \<noteq> ''*'' \<Longrightarrow> wild g s \<Longrightarrow> wild (''*'' @ g) (u @ s)"
| wild_single: "x \<noteq> CHR ''.'' \<Longrightarrow> wild g s \<Longrightarrow> wild (''?'' @ g) (x # s)"
| wild_char: "c \<noteq> CHR ''*'' \<Longrightarrow> c \<noteq> CHR ''?'' \<Longrightarrow> wild g s \<Longrightarrow> wild (c # g) (c # s)"

inductive_simps wild_simps:
  "wild [] s" "wild (CHR ''*'' # g) s" "wild (CHR ''?'' # g) s"

inductive_simps wild_char_simps: "wild (c # g) s"

text \<open>No three stars follow one another: of such a run it depends on the dot behind it which stars belong together.\<close>

fun no_triple :: "string \<Rightarrow> bool" where
  "no_triple (a # b # c # r) \<longleftrightarrow> \<not> (a = CHR ''*'' \<and> b = CHR ''*'' \<and> c = CHR ''*'') \<and> no_triple (b # c # r)"
| "no_triple s \<longleftrightarrow> True"

lemma no_triple_tl: "no_triple (c # r) \<Longrightarrow> no_triple r"
  by (cases r rule: no_triple.cases) auto

lemma no_triple_append: "no_triple (p @ r) \<Longrightarrow> no_triple r"
  by (induction p) (auto dest: no_triple_tl)

lemma collapse_levels: "collapse (''**.*'' @ r) = ''**'' @ collapse r"
  by simp

lemma collapse_Cons: "take 4 (c # r) \<noteq> ''**.*'' \<Longrightarrow> collapse (c # r) = c # collapse r"
  by (cases "c # r" rule: collapse.cases) auto

lemma collapse_head: "take 1 (collapse g) = take 1 g"
  by (cases g rule: collapse.cases) auto

lemma glob_items_across: "glob_items (''**'' @ g) = Star AnyChar # glob_items g"
  by simp

lemma glob_items_within: "take 1 g \<noteq> ''*'' \<Longrightarrow> glob_items (CHR ''*'' # g) = Star not_dot # glob_items g"
  by (cases g) auto

lemma star_any_iff:
  "re_full (Star AnyChar # r) s \<longleftrightarrow> (\<exists>u v. s = u @ v \<and> one_line u \<and> re_full r v)"
  unfolding full_Star_iff by (auto simp: one_line_def list_all_iff)

lemma star_not_dot_iff:
  "re_full (Star not_dot # r) s \<longleftrightarrow> (\<exists>u v. s = u @ v \<and> CHR ''.'' \<notin> set u \<and> re_full r v)"
  unfolding full_Star_iff by (auto simp: list_all_iff)

text \<open>The pattern after the replacement and the pattern itself mean the same.\<close>

lemma collapsed_items_are_wild: "no_triple g \<Longrightarrow> re_full (glob_items (collapse g)) s \<longleftrightarrow> wild g s"
proof (induction "length g" arbitrary: g s rule: less_induct)
  case less
  have IH: "re_full (glob_items (collapse r)) v \<longleftrightarrow> wild r v" if "g = p @ r" "p \<noteq> []" for p r v
    using less.hyps [of r v] less.prems that no_triple_append by auto
  consider (nil) "g = []" | (levels) r where "g = ''**.*'' @ r"
    | (across) r where "g = ''**'' @ r" "take 2 r \<noteq> ''.*''"
    | (within) r where "g = CHR ''*'' # r" "take 1 r \<noteq> ''*''"
    | (single) r where "g = CHR ''?'' # r"
    | (char) c r where "g = c # r" "c \<noteq> CHR ''*''" "c \<noteq> CHR ''?''"
  proof (cases g rule: collapse.cases)
  qed (use that in auto)
  then show ?case
  proof cases
    case nil
    then show ?thesis by (simp add: wild_simps)
  next
    case levels
    show ?thesis
      unfolding levels collapse_levels glob_items_across star_any_iff IH [OF levels, simplified]
      by (auto simp: wild_simps)
  next
    case across
    have "take 1 r \<noteq> ''*''" using less.prems across by (cases r) auto
    then have c: "collapse g = ''**'' @ collapse r"
      using across by (simp add: collapse_Cons) (cases r; auto simp: collapse_Cons take_Cons')
    show ?thesis
      unfolding c glob_items_across star_any_iff IH [OF across(1), simplified] using across
      by (auto simp: wild_simps)
  next
    case within
    then have c: "collapse g = CHR ''*'' # collapse r"
      by (cases r) (auto simp: collapse_Cons)
    have "take 1 (collapse r) \<noteq> ''*''" using within unfolding collapse_head by simp
    note items = glob_items_within [OF this]
    show ?thesis
      unfolding c items star_not_dot_iff IH [of "''*''", simplified, OF within(1)] using within
      by (auto simp: wild_simps)
  next
    case single
    then have "re_full (glob_items (collapse r)) v \<longleftrightarrow> wild r v" for v
      by (intro IH [of "''?''"]) simp_all
    then show ?thesis
      using single by (auto simp: collapse_Cons wild_simps split: list.splits)
  next
    case char
    then have "re_full (glob_items (collapse r)) v \<longleftrightarrow> wild r v" for v
      by (intro IH [of "[c]"]) simp_all
    then show ?thesis
      using char by (auto simp: collapse_Cons wild_char_simps [of c r] split: list.splits)
  qed
qed

text \<open>
  C13. For a tag pattern without brackets, backslashes and runs of three stars, match() decides exactly whether
  the whole name has the form of the pattern, read sign by sign: ** is any text without a line break, * any text without a
  dot, ? one character other than a dot, any other character itself, and **.* as one sign the same as **. Both stars
  match the empty text, as the example ("eve", "eve*") of the source does; its comment says one or more
  characters, and excepts no character from ?. The replacement of **.*, the
  translation, the parsing of the regular expression and the greedy leftmost match are all on the side of the code.
\<close>

theorem match_wildcards:
  assumes "plain g" and "no_triple g"
  shows "match s g = Some (wild g s)"
  using match_plain [OF assms(1)] collapsed_items_are_wild [OF assms(2)] by simp

theorem match_wildcards_witness:
  "match ''alice.bob.eve'' ''a*.bob.e*'' = Some True \<and> match ''alice.bob.eve'' ''a*'' = Some False \<and>
   match ''alice'' ''**.*'' = Some True"
proof -
  have "wild (''a*.bob.e*'') (''a'' @ ''lice'' @ ''.bob.e'' @ ''ve'' @ [])"
    by (simp add: wild_char wild_end wild_within [of "''lice''" "''.bob.e*''", simplified] wild_within [of "''ve''" "[]" "[]", simplified])
  moreover have "\<not> wild ''a*'' ''alice.bob.eve''"
    by (simp add: wild_char_simps [of "CHR ''a''"] wild_simps)
  moreover have "wild ''**.*'' ''alice''"
    using wild_levels [of "''alice''" "[]" "[]"] wild_end by (simp add: one_line_def)
  ultimately show ?thesis
    using match_wildcards [of "''a*.bob.e*''" "''alice.bob.eve''"]
      match_wildcards [of "''a*''" "''alice.bob.eve''"] match_wildcards [of "''**.*''" "''alice''"]
    by (simp add: plain_def backslash_def)
qed

text \<open>
A star matches the empty text too: a name matches the pattern that is the name followed by
  a star, although the comment of the code asks for one or more characters.
\<close>

theorem match_star_empty:
  assumes "plain g" and "CHR ''*'' \<notin> set g" and "CHR ''?'' \<notin> set g"
  shows "match g (g @ ''*'') = Some True"
proof -
  have g: "plain (g @ ''*'')"
    using assms by (simp add: plain_def backslash_def)
  have c: "collapse (g @ ''*'') = g @ ''*''"
    using assms(2) by (induction g rule: collapse.induct) auto
  have "re_full (glob_items (g @ ''*'')) g"
    using assms(2,3) by (induction g) (auto intro: exI [of _ 0])
  then show ?thesis
    using match_plain [OF g, of g] c by simp
qed

theorem match_star_empty_witness: "match ''eve'' ''eve*'' = Some True"
  using match_star_empty [of "''eve''"] by (simp add: plain_def backslash_def)

text \<open>
A backslash does not take the special meaning from the next character: the pattern
  backslash star x matches any number of backslashes before an x, and not a star before an x.
\<close>

theorem match_backslash_star:
  "match ''x'' [backslash, CHR ''*'', CHR ''x''] = Some True \<and>
   match [backslash, backslash, CHR ''x''] [backslash, CHR ''*'', CHR ''x''] = Some True \<and>
   match ''*x'' [backslash, CHR ''*'', CHR ''x''] = Some False"
  by (simp add: match_def match_re_def newRegExp_def parse_atom_def backslash_def alnum_def
      escaped_chars_def re_specials_def)

end
