(* ===== verification/Rule_Context.thy ===== *)
theory Rule_Context
  imports Rule_Registry Wildcard_Matcher
begin

text \<open>
  The rule context of \<open>serde.ts\<close>: parameters of a rule, the tags of a field (inline ones and those
  of the metadata patterns), the stack of fields being visited, and \<open>FieldRuleExecutor.transform\<close>,
  which runs a field transform unless another rule with the same tags does the work.
\<close>

section \<open>RuleContext\<close>

definition newRuleContext ::
    "string option \<Rightarrow> schema_info option \<Rightarrow> schema_info \<Rightarrow> string \<Rightarrow> string \<Rightarrow> bool \<Rightarrow> rule_mode \<Rightarrow> rule
     \<Rightarrow> nat \<Rightarrow> rule list \<Rightarrow> (string \<times> string set) list option \<Rightarrow> string list option \<Rightarrow> 'm rule_context" where
  "newRuleContext env source target subject topic isKey ruleMode rule index rules inlineTags depSchemas =
     \<lparr>ctx_enabledEnv = env, ctx_source = source, ctx_target = target, ctx_subject = subject,
      ctx_topic = topic, ctx_isKey = isKey, ctx_ruleMode = ruleMode, ctx_rule = rule, ctx_index = index,
      ctx_rules = rules, ctx_inlineTags = inlineTags, ctx_depSchemas = depSchemas, ctx_fieldContexts = []\<rparr>"

lemma newRuleContext_select [simp]:
  "ctx_enabledEnv (newRuleContext env source target subject topic isKey ruleMode rule index rules it ds) = env"
  "ctx_ruleMode (newRuleContext env source target subject topic isKey ruleMode rule index rules it ds) = ruleMode"
  "ctx_rule (newRuleContext env source target subject topic isKey ruleMode rule index rules it ds) = rule"
  "ctx_rules (newRuleContext env source target subject topic isKey ruleMode rule index rules it ds) = rules"
  "ctx_index (newRuleContext env source target subject topic isKey ruleMode rule index rules it ds) = index"
  by (simp_all add: newRuleContext_def)

text \<open>A property of a dictionary that may be absent.\<close>

definition opt_get :: "(string \<times> 'v) list option \<Rightarrow> string \<Rightarrow> 'v option" where
  "opt_get m k = (case m of None \<Rightarrow> None | Some m' \<Rightarrow> map_of m' k)"

definition getParameter :: "'m rule_context \<Rightarrow> string \<Rightarrow> string option" where
  "getParameter ctx name =
     (case opt_get (rule_params (ctx_rule ctx)) name of
        Some v \<Rightarrow> Some v
      | None \<Rightarrow> (case si_metadata (ctx_target ctx) of
                  None \<Rightarrow> None
                | Some md \<Rightarrow> opt_get (md_properties md) name))"

definition getInlineTags :: "'m rule_context \<Rightarrow> string \<Rightarrow> string set" where
  "getInlineTags ctx name = (case opt_get (ctx_inlineTags ctx) name of None \<Rightarrow> {} | Some ts \<Rightarrow> ts)"

definition currentField :: "'m rule_context \<Rightarrow> 'm field_context option" where
  "currentField ctx =
     (let size = length (ctx_fieldContexts ctx)
      in if size = 0 then None else Some (ctx_fieldContexts ctx ! (size - 1)))"

text \<open>
  A pattern outside the model of the matcher counts as not matching; \<open>match_wildcards\<close> covers all
  patterns without brackets and backslashes.
\<close>

definition getTags :: "'m rule_context \<Rightarrow> string \<Rightarrow> string set" where
  "getTags ctx name =
     (case si_metadata (ctx_target ctx) of
        None \<Rightarrow> {}
      | Some md \<Rightarrow>
          (case md_tags md of
             None \<Rightarrow> {}
           | Some entries \<Rightarrow>
               fold (\<lambda>(k, v) tags. if match name k = Some True then fold insert v tags else tags) entries {}))"

definition newFieldContext ::
    "'m jsval \<Rightarrow> string \<Rightarrow> string \<Rightarrow> field_type \<Rightarrow> string set \<Rightarrow> 'm field_context" where
  "newFieldContext containing full name fieldType tags =
     \<lparr>containingMessage = containing, fullName = full, fc_name = name, fc_type = fieldType, fc_tags = tags\<rparr>"

definition isPrimitive :: "'m field_context \<Rightarrow> bool" where
  "isPrimitive fc \<longleftrightarrow> fc_type fc \<in> {F_STRING, F_BYTES, F_INT, F_LONG, F_FLOAT, F_DOUBLE, F_BOOLEAN, F_NULL}"

fun typeName :: "field_type \<Rightarrow> string" where
  "typeName F_RECORD = ''RECORD''"
| "typeName F_ENUM = ''ENUM''"
| "typeName F_ARRAY = ''ARRAY''"
| "typeName F_MAP = ''MAP''"
| "typeName F_COMBINED = ''COMBINED''"
| "typeName F_FIXED = ''FIXED''"
| "typeName F_STRING = ''STRING''"
| "typeName F_BYTES = ''BYTES''"
| "typeName F_INT = ''INT''"
| "typeName F_LONG = ''LONG''"
| "typeName F_FLOAT = ''FLOAT''"
| "typeName F_DOUBLE = ''DOUBLE''"
| "typeName F_BOOLEAN = ''BOOLEAN''"
| "typeName F_NULL = ''NULL''"

text \<open>\<open>enterField\<close> returns the field context it pushes; \<open>leaveField\<close> pops one.\<close>

definition enterField ::
    "'m jsval \<Rightarrow> string \<Rightarrow> string \<Rightarrow> field_type \<Rightarrow> string set option \<Rightarrow> 'm rule_context
     \<Rightarrow> 'm field_context \<times> 'm rule_context" where
  "enterField containing full name fieldType tags ctx =
     (let inline = (case tags of Some ts \<Rightarrow> ts | None \<Rightarrow> getInlineTags ctx full);
          allTags = inline \<union> getTags ctx full;
          fc = newFieldContext containing full name fieldType allTags
      in (fc, ctx\<lparr>ctx_fieldContexts := ctx_fieldContexts ctx @ [fc]\<rparr>))"

text \<open>\<open>slice(0, -1)\<close> of an empty array is empty, as \<open>butlast\<close> is.\<close>

definition leaveField :: "'m rule_context \<Rightarrow> 'm rule_context" where
  "leaveField ctx = ctx\<lparr>ctx_fieldContexts := butlast (ctx_fieldContexts ctx)\<rparr>"

section \<open>Field transforms with the same tags\<close>

text \<open>
  The code compares two tag arrays with \<open>===\<close>, which asks whether they are one object; \<open>sameArray\<close>
  is the answer (true also when both are absent).
\<close>

definition areTransformsWithSameTag :: "bool \<Rightarrow> rule \<Rightarrow> rule \<Rightarrow> bool" where
  "areTransformsWithSameTag sameArray rule1 rule2 \<longleftrightarrow>
     (case rule_tags rule1 of None \<Rightarrow> False | Some ts \<Rightarrow> ts \<noteq> []) \<and>
     rule_kind rule1 = Some ''TRANSFORM'' \<and>
     rule_kind rule1 = rule_kind rule2 \<and>
     rule_mode_of rule1 = rule_mode_of rule2 \<and>
     rule_type rule1 = rule_type rule2 \<and>
     sameArray"

text \<open>
  \<open>FieldRuleExecutor.transform\<close>; \<open>newTransform\<close> is the subclass's method and \<open>fieldTransformer\<close> the
  walk over the message that the format supplies. \<open>tagsObject i\<close> is the identity of the tag array
  of the rule at index \<open>i\<close>.
\<close>

definition fieldRuleTransform ::
    "(nat \<Rightarrow> nat) \<Rightarrow> ('m rule_context \<Rightarrow> 'ft) \<Rightarrow> ('m rule_context \<Rightarrow> 'ft \<Rightarrow> 'm jsval \<Rightarrow> ('w, 'm jsval) meth)
     \<Rightarrow> 'm rule_context \<Rightarrow> 'm jsval \<Rightarrow> ('w, 'm jsval) meth" where
  "fieldRuleTransform tagsObject newTransform fieldTransformer ctx msg =
     (let i = ctx_index ctx;
          others =
            (case ctx_ruleMode ctx of
               WRITE \<Rightarrow> [0..<i]
             | UPGRADE \<Rightarrow> [0..<i]
             | READ \<Rightarrow> [i + 1..<length (ctx_rules ctx)]
             | DOWNGRADE \<Rightarrow> [i + 1..<length (ctx_rules ctx)]
             | _ \<Rightarrow> [])
      in if list_ex (\<lambda>j. areTransformsWithSameTag (tagsObject i = tagsObject j) (ctx_rule ctx) (ctx_rules ctx ! j))
              others
         then m_return msg
         else fieldTransformer ctx (newTransform ctx) msg)"

section \<open>Properties\<close>

lemma fold_insert_set: "fold insert v S = set v \<union> S"
  by (induction v arbitrary: S) auto

lemma fold_tags:
  "t \<in> fold (\<lambda>(k, v) tags. if P k then fold insert v tags else tags) es S \<longleftrightarrow>
     t \<in> S \<or> (\<exists>k v. (k, v) \<in> set es \<and> P k \<and> t \<in> set v)"
proof (induction es arbitrary: S)
  case Nil
  then show ?case by simp
next
  case (Cons e es)
  then show ?case by (cases e) (auto simp: fold_insert_set)
qed

text \<open>The tags of a field are exactly those some matching pattern of the metadata gives it.\<close>

lemma getTags_iff:
  "t \<in> getTags ctx name \<longleftrightarrow>
     (\<exists>md es k v. si_metadata (ctx_target ctx) = Some md \<and> md_tags md = Some es \<and>
        (k, v) \<in> set es \<and> match name k = Some True \<and> t \<in> set v)"
  by (auto simp: getTags_def fold_tags split: option.splits)

text \<open>
  Entering a field and leaving it restores the context, the field entered is the current
  one in between, and its tags are the given (or inline) ones and those of every metadata
  pattern that matches its full name.
\<close>

theorem enter_leave_field:
  assumes "enterField containing full name ft tags ctx = (fc, ctx')"
  shows "leaveField ctx' = ctx \<and> currentField ctx' = Some fc \<and>
    fc_tags fc = (case tags of Some ts \<Rightarrow> ts | None \<Rightarrow> getInlineTags ctx full) \<union> getTags ctx full"
  using assms
  by (auto simp: enterField_def leaveField_def currentField_def newFieldContext_def nth_append Let_def)

theorem enter_leave_field_witness:
  "leaveField (snd (enterField (JVal (1::nat)) ''a.b'' ''b'' F_STRING (Some {''PII''})
     (newRuleContext None None \<lparr>si_schema = ''s'', si_schemaType = None, si_references = None,
        si_metadata = None, si_ruleSet = None\<rparr> ''sub'' ''t'' False WRITE
        \<lparr>rule_name = ''r'', rule_doc = None, rule_kind = None, rule_mode_of = None, rule_type = ''T'',
         rule_tags = None, rule_params = None, rule_expr = None, rule_onSuccess = None,
         rule_onFailure = None, rule_disabled = None\<rparr> 0 [] None None)))
   = newRuleContext None None \<lparr>si_schema = ''s'', si_schemaType = None, si_references = None,
        si_metadata = None, si_ruleSet = None\<rparr> ''sub'' ''t'' False WRITE
        \<lparr>rule_name = ''r'', rule_doc = None, rule_kind = None, rule_mode_of = None, rule_type = ''T'',
         rule_tags = None, rule_params = None, rule_expr = None, rule_onSuccess = None,
         rule_onFailure = None, rule_disabled = None\<rparr> 0 [] None None"
  by (rule enter_leave_field [THEN conjunct1, OF prod.collapse [symmetric]])

text \<open>
  The check that skips a field transform whose tags an earlier rule already handles never
  skips one when every rule has its own tag array, as rules read from JSON have, even if the
  arrays hold the same tags: the transform always runs.
\<close>

theorem same_tags_not_recognised:
  assumes "inj tagsObject"
  shows "fieldRuleTransform tagsObject nt ftr ctx msg = ftr ctx (nt ctx) msg"
proof -
  have "\<not> areTransformsWithSameTag (tagsObject (ctx_index ctx) = tagsObject j) r1 r2" if "j \<noteq> ctx_index ctx" for j r1 r2
    using that injD [OF assms] by (auto simp: areTransformsWithSameTag_def)
  then show ?thesis
    by (auto simp: fieldRuleTransform_def Let_def list_ex_iff split: rule_mode.splits)
qed

definition tagged_rule :: "string \<Rightarrow> rule" where
  "tagged_rule n = \<lparr>rule_name = n, rule_doc = None, rule_kind = Some ''TRANSFORM'',
     rule_mode_of = Some WRITE, rule_type = ''ENCRYPT'', rule_tags = Some [''PII''],
     rule_params = None, rule_expr = None, rule_onSuccess = None, rule_onFailure = None, rule_disabled = None\<rparr>"

theorem same_tags_not_recognised_witness:
  "fieldRuleTransform id (\<lambda>c. ()) (\<lambda>c u m. m_return (JVal (7::nat)))
     (newRuleContext None None \<lparr>si_schema = ''s'', si_schemaType = None, si_references = None,
        si_metadata = None, si_ruleSet = None\<rparr> ''sub'' ''t'' False WRITE (tagged_rule ''b'') 1
        [tagged_rule ''a'', tagged_rule ''b''] None None) (JVal 3) (0::nat) = (0, Inr (JVal 7)) \<and>
   fieldRuleTransform (\<lambda>i. 0) (\<lambda>c. ()) (\<lambda>c u m. m_return (JVal (7::nat)))
     (newRuleContext None None \<lparr>si_schema = ''s'', si_schemaType = None, si_references = None,
        si_metadata = None, si_ruleSet = None\<rparr> ''sub'' ''t'' False WRITE (tagged_rule ''b'') 1
        [tagged_rule ''a'', tagged_rule ''b''] None None) (JVal 3) (0::nat) = (0, Inr (JVal 3))"
  by (subst same_tags_not_recognised)
     (simp_all add: tagged_rule_def fieldRuleTransform_def areTransformsWithSameTag_def)

end
