(* ===== verification/Rule_Engine.thy ===== *)
theory Rule_Engine
  imports Rule_Context Schema_Id
begin

text \<open>
  The rule engine of \<open>serde.ts\<close>: class \<open>Serde\<close> runs the rules of a schema on a message, in the
  order of the rule set (reversed for reading and downgrading), filters them by mode and by the
  registry's overrides, and turns failures into actions. The state \<open>'w\<close> is whatever executors
  and actions share (their clients, a dead letter queue); the message survives an exception
  inside the \<open>try\<close> block, as the variable \<open>msg\<close> of the code does.
\<close>

section \<open>Errors and actions\<close>

text \<open>\<open>error.message\<close>; a \<open>RestError\<close> appends its code in the constructor.\<close>

fun err_message :: "js_error \<Rightarrow> string" where
  "err_message (Error m) = m"
| "err_message (SerializationError m) = m"
| "err_message (RuleError m) = m"
| "err_message (RuleConditionError m) = m"
| "err_message (RestError m status code) = m @ ''; Error code: '' @ int_str code"
| "err_message (VariantError m) = m"
| "err_message (AxiosError m) = m"
| "err_message (SecurityException m) = m"
| "err_message (InvalidArgumentsException m) = m"
| "err_message (RangeError m) = m"
| "err_message (TypeError m) = m"

fun is_SerializationError :: "js_error \<Rightarrow> bool" where
  "is_SerializationError (SerializationError m) \<longleftrightarrow> True"
| "is_SerializationError e \<longleftrightarrow> False"

definition quoted :: "string \<Rightarrow> string" where
  "quoted s = [CHR 0x27] @ s @ [CHR 0x27]"

text \<open>\<open>RuleConditionError.error\<close>; an absent expression is printed as \<open>undefined\<close>.\<close>

definition conditionError :: "rule \<Rightarrow> string" where
  "conditionError r =
     (case rule_doc r of
        Some (c # d) \<Rightarrow> c # d
      | _ \<Rightarrow> (if rule_expr r \<noteq> Some []
              then ''Expr failed: '' @ quoted (case rule_expr r of Some e \<Rightarrow> e | None \<Rightarrow> ''undefined'')
              else ''Condition failed: '' @ quoted (rule_name r)))"

text \<open>\<open>err.message\<close> of a null \<open>err\<close> is a \<open>TypeError\<close>.\<close>

definition ErrorAction :: "('w, 'm) rule_action" where
  "ErrorAction =
     \<lparr>ac_type = ''ERROR'',
      ac_run = (\<lambda>ctx msg err. m_throw
        (case err of
           None \<Rightarrow> TypeError (''Cannot read properties of null (reading '' @ quoted ''message'' @ '')'')
         | Some e \<Rightarrow> SerializationError (''rule '' @ rule_name (ctx_rule ctx) @ '' failed: '' @ err_message e)))\<rparr>"

definition NoneAction :: "('w, 'm) rule_action" where
  "NoneAction = \<lparr>ac_type = ''NONE'', ac_run = (\<lambda>ctx msg err. m_return ())\<rparr>"

section \<open>Overrides and action names\<close>

definition getOnSuccess :: "('w, 'm) rule_registry \<Rightarrow> rule \<Rightarrow> string option" where
  "getOnSuccess reg r =
     (case getOverride reg (rule_type r) of
        Some v \<Rightarrow> (case ov_onSuccess v of Some a \<Rightarrow> Some a | None \<Rightarrow> rule_onSuccess r)
      | None \<Rightarrow> rule_onSuccess r)"

definition getOnFailure :: "('w, 'm) rule_registry \<Rightarrow> rule \<Rightarrow> string option" where
  "getOnFailure reg r =
     (case getOverride reg (rule_type r) of
        Some v \<Rightarrow> (case ov_onFailure v of Some a \<Rightarrow> Some a | None \<Rightarrow> rule_onFailure r)
      | None \<Rightarrow> rule_onFailure r)"

definition isDisabled :: "('w, 'm) rule_registry \<Rightarrow> 'm rule_context \<Rightarrow> rule \<Rightarrow> bool" where
  "isDisabled reg ctx r =
     (let own = (let env = (case ctx_enabledEnv ctx of Some e \<Rightarrow> e | None \<Rightarrow> ''ALL'')
                 in (env \<noteq> ''ALL'' \<and> env \<noteq> ''CLIENT'') \<or> rule_disabled r = Some True)
      in case getOverride reg (rule_type r) of
           Some v \<Rightarrow> (case ov_disabled v of Some d \<Rightarrow> d | None \<Rightarrow> own)
         | None \<Rightarrow> own)"

text \<open>The first two parts of \<open>actionName.split(',')\<close>.\<close>

definition split_first :: "string \<Rightarrow> string" where
  "split_first s = takeWhile (\<lambda>c. c \<noteq> CHR '','') s"

definition split_second :: "string \<Rightarrow> string" where
  "split_second s = split_first (tl (dropWhile (\<lambda>c. c \<noteq> CHR '','') s))"

definition getRuleActionName :: "rule \<Rightarrow> rule_mode \<Rightarrow> string option \<Rightarrow> string option" where
  "getRuleActionName r ruleMode actionName =
     (case actionName of
        None \<Rightarrow> None
      | Some a \<Rightarrow>
          if a = [] then None
          else if (rule_mode_of r = Some WRITEREAD \<or> rule_mode_of r = Some UPDOWN) \<and> CHR '','' \<in> set a
          then (case ruleMode of
                  WRITE \<Rightarrow> Some (split_first a)
                | UPGRADE \<Rightarrow> Some (split_first a)
                | READ \<Rightarrow> Some (split_second a)
                | DOWNGRADE \<Rightarrow> Some (split_second a)
                | _ \<Rightarrow> Some a)
          else Some a)"

definition getRuleAction :: "('w, 'm) rule_registry \<Rightarrow> string \<Rightarrow> ('w, 'm) rule_action option" where
  "getRuleAction reg actionName =
     (if actionName = ''ERROR'' then Some ErrorAction
      else if actionName = ''NONE'' then Some NoneAction
      else getAction reg actionName)"

text \<open>An error of the action that is not a \<open>SerializationError\<close> is logged and dropped.\<close>

definition runAction ::
    "('w, 'm) rule_registry \<Rightarrow> 'm rule_context \<Rightarrow> rule_mode \<Rightarrow> rule \<Rightarrow> string option \<Rightarrow> 'm jsval
     \<Rightarrow> js_error option \<Rightarrow> string \<Rightarrow> ('w, unit) meth" where
  "runAction reg ctx ruleMode r action msg err defaultAction =
     (let actionName = (case getRuleActionName r ruleMode action of Some a \<Rightarrow> a | None \<Rightarrow> defaultAction)
      in case getRuleAction reg actionName of
           None \<Rightarrow> m_throw (RuleError (''Could not find rule action of type '' @ actionName))
         | Some act \<Rightarrow>
             m_catch (ac_run act ctx msg err)
               (\<lambda>e. if is_SerializationError e then m_throw e else m_return ()))"

section \<open>Running the rules\<close>

text \<open>The \<open>catch\<close> block, with the message as the \<open>try\<close> block left it.\<close>

definition ruleFailed ::
    "('w, 'm) rule_registry \<Rightarrow> 'm rule_context \<Rightarrow> rule_mode \<Rightarrow> rule \<Rightarrow> 'm jsval \<Rightarrow> js_error
     \<Rightarrow> ('w, 'm jsval) meth" where
  "ruleFailed reg ctx ruleMode r msg e =
     (if is_SerializationError e then m_throw e
      else m_bind (runAction reg ctx ruleMode r (getOnFailure reg r) msg (Some e) ''ERROR'')
             (\<lambda>_. m_return msg))"

definition applyRule ::
    "('w, 'm) rule_registry \<Rightarrow> ('w, 'm) rule_executor \<Rightarrow> 'm rule_context \<Rightarrow> rule_mode \<Rightarrow> rule
     \<Rightarrow> 'm jsval \<Rightarrow> ('w, 'm jsval) meth" where
  "applyRule reg ex ctx ruleMode r msg w =
     (case ex_transform ex ctx msg w of
        (w1, Inl e) \<Rightarrow> ruleFailed reg ctx ruleMode r msg e w1
      | (w1, Inr result) \<Rightarrow>
          if rule_kind r = Some ''CONDITION'' \<and> result = JBool False
          then ruleFailed reg ctx ruleMode r msg (RuleConditionError (conditionError r)) w1
          else
            let msg' = (if rule_kind r = Some ''TRANSFORM'' then result else msg)
            in case runAction reg ctx ruleMode r
                      (if msg' \<noteq> JNull then getOnSuccess reg r else getOnFailure reg r)
                      msg' None (if msg' \<noteq> JNull then ''NONE'' else ''ERROR'') w1 of
                 (w2, Inl e) \<Rightarrow> ruleFailed reg ctx ruleMode r msg' e w2
               | (w2, Inr _) \<Rightarrow> (w2, Inr msg'))"

text \<open>The mode filter of the loop.\<close>

definition modeApplies :: "rule_mode option \<Rightarrow> rule_mode \<Rightarrow> bool" where
  "modeApplies mode ruleMode =
     (case mode of
        Some WRITEREAD \<Rightarrow> ruleMode = WRITE \<or> ruleMode = READ
      | Some UPDOWN \<Rightarrow> ruleMode = UPGRADE \<or> ruleMode = DOWNGRADE
      | _ \<Rightarrow> mode = Some ruleMode)"

text \<open>
  The loop from index \<open>i\<close> on; \<open>mk i r\<close> is the context built for rule \<open>r\<close> at index \<open>i\<close>. A rule
  without executor ends the loop.
\<close>

fun rulesLoop ::
    "('w, 'm) rule_registry \<Rightarrow> (nat \<Rightarrow> rule \<Rightarrow> 'm rule_context) \<Rightarrow> rule_mode \<Rightarrow> nat \<Rightarrow> rule list
     \<Rightarrow> 'm jsval \<Rightarrow> ('w, 'm jsval) meth" where
  "rulesLoop reg mk ruleMode i [] msg = m_return msg"
| "rulesLoop reg mk ruleMode i (r # rs) msg =
     (if isDisabled reg (mk i r) r \<or> \<not> modeApplies (rule_mode_of r) ruleMode
      then rulesLoop reg mk ruleMode (Suc i) rs msg
      else case getExecutor reg (rule_type r) of
             None \<Rightarrow>
               m_bind (runAction reg (mk i r) ruleMode r (getOnFailure reg r) msg
                        (Some (Error (''could not find rule executor of type '' @ rule_type r))) ''ERROR'')
                 (\<lambda>_. m_return msg)
           | Some ex \<Rightarrow>
               m_bind (applyRule reg ex (mk i r) ruleMode r msg)
                 (rulesLoop reg mk ruleMode (Suc i) rs))"

record ('w, 'm) serde =
  sd_serdeType :: serde_type
  sd_ruleRegistry :: "('w, 'm) rule_registry"

text \<open>\<open>enabledEnv\<close> and \<open>rules\<close> as the switch on the mode sets them.\<close>

definition selectRules ::
    "rule_phase \<Rightarrow> rule_mode \<Rightarrow> schema_info option \<Rightarrow> schema_info \<Rightarrow> string option \<times> rule list option" where
  "selectRules rulePhase ruleMode source target =
     (let env = (\<lambda>i. Option.bind (si_ruleSet i) enableAt)
      in case ruleMode of
           UPGRADE \<Rightarrow> (env target, Option.bind (si_ruleSet target) migrationRules)
         | DOWNGRADE \<Rightarrow>
             (Option.bind source env,
              map_option rev (Option.bind source (\<lambda>i. Option.bind (si_ruleSet i) migrationRules)))
         | _ \<Rightarrow>
             let rules = Option.bind (si_ruleSet target)
                           (if rulePhase = ENCODING then encodingRules else domainRules)
             in (env target, if ruleMode = READ then map_option rev rules else rules))"

definition executeRulesWithPhase ::
    "('w, 'm) serde \<Rightarrow> string \<Rightarrow> string \<Rightarrow> rule_phase \<Rightarrow> rule_mode \<Rightarrow> schema_info option
     \<Rightarrow> schema_info option \<Rightarrow> 'm jsval \<Rightarrow> (string \<times> string set) list option \<Rightarrow> string list option
     \<Rightarrow> ('w, 'm jsval) meth" where
  "executeRulesWithPhase sd subject topic rulePhase ruleMode source target msg inlineTags depSchemas =
     (case target of
        None \<Rightarrow> m_return msg
      | Some t \<Rightarrow>
          if msg = JNull then m_return msg
          else case selectRules rulePhase ruleMode source t of
                 (env, None) \<Rightarrow> m_return msg
               | (env, Some rules) \<Rightarrow>
                   rulesLoop (sd_ruleRegistry sd)
                     (\<lambda>i r. newRuleContext env source t subject topic (sd_serdeType sd = KEY) ruleMode r i
                              rules inlineTags depSchemas)
                     ruleMode 0 rules msg)"

definition executeRules ::
    "('w, 'm) serde \<Rightarrow> string \<Rightarrow> string \<Rightarrow> rule_mode \<Rightarrow> schema_info option \<Rightarrow> schema_info option
     \<Rightarrow> 'm jsval \<Rightarrow> (string \<times> string set) list option \<Rightarrow> string list option \<Rightarrow> ('w, 'm jsval) meth" where
  "executeRules sd subject topic ruleMode source target msg inlineTags depSchemas =
     executeRulesWithPhase sd subject topic DOMAIN ruleMode source target msg inlineTags depSchemas"

section \<open>Which errors leave the engine\<close>

text \<open>
  Whatever an executor or an action throws, the engine only raises a \<open>SerializationError\<close> or
  reports that an action is not registered.
\<close>

definition engine_error :: "js_error \<Rightarrow> bool" where
  "engine_error e \<longleftrightarrow>
     is_SerializationError e \<or> (\<exists>a. e = RuleError (''Could not find rule action of type '' @ a))"

lemma runAction_error:
  "runAction reg ctx ruleMode r action msg err d w = (w', Inl e) \<Longrightarrow> engine_error e"
  by (auto simp: runAction_def engine_error_def m_catch_def Let_def
      split: option.splits prod.splits sum.splits if_splits)

lemma ruleFailed_error: "ruleFailed reg ctx ruleMode r msg e0 w = (w', Inl e) \<Longrightarrow> engine_error e"
  by (auto simp: ruleFailed_def m_bind_apply engine_error_def
      split: if_splits prod.splits sum.splits dest!: runAction_error [unfolded engine_error_def])

lemma applyRule_error: "applyRule reg ex ctx ruleMode r msg w = (w', Inl e) \<Longrightarrow> engine_error e"
  by (auto simp: applyRule_def Let_def split: if_splits prod.splits sum.splits dest: ruleFailed_error)

lemma rulesLoop_error: "rulesLoop reg mk ruleMode i rs msg w = (w', Inl e) \<Longrightarrow> engine_error e"
proof (induction rs arbitrary: i msg w)
  case Nil
  then show ?case by simp
next
  case (Cons r rs)
  then show ?case
    by (auto simp: m_bind_apply split: if_splits option.splits prod.splits sum.splits
        dest: runAction_error applyRule_error)
qed

section \<open>Skipped rules\<close>

definition rule_skipped :: "('w, 'm) rule_registry \<Rightarrow> 'm rule_context \<Rightarrow> rule_mode \<Rightarrow> rule \<Rightarrow> bool" where
  "rule_skipped reg ctx ruleMode r \<longleftrightarrow> isDisabled reg ctx r \<or> \<not> modeApplies (rule_mode_of r) ruleMode"

lemma rulesLoop_skip:
  "rule_skipped reg (mk i r) ruleMode r \<Longrightarrow>
     rulesLoop reg mk ruleMode i (r # rs) msg = rulesLoop reg mk ruleMode (Suc i) rs msg"
  by (simp add: rule_skipped_def)

lemma rulesLoop_step:
  "\<not> rule_skipped reg (mk i r) ruleMode r \<Longrightarrow> getExecutor reg (rule_type r) = Some ex \<Longrightarrow>
     rulesLoop reg mk ruleMode i (r # rs) msg =
       m_bind (applyRule reg ex (mk i r) ruleMode r msg) (rulesLoop reg mk ruleMode (Suc i) rs)"
  by (simp add: rule_skipped_def)

lemma isDisabled_env: "ctx_enabledEnv c = ctx_enabledEnv c' \<Longrightarrow> isDisabled reg c r = isDisabled reg c' r"
  by (simp add: isDisabled_def)

lemma rulesLoop_all_skipped:
  "(\<And>j r. r \<in> set rs \<Longrightarrow> rule_skipped reg (mk j r) ruleMode r) \<Longrightarrow>
     rulesLoop reg mk ruleMode i rs msg = m_return msg"
  by (induction rs arbitrary: i) (auto simp: rule_skipped_def)

text \<open>A prefix whose rules all have executors hands its message to the rest.\<close>

lemma rulesLoop_append:
  "(\<And>r. r \<in> set pre \<Longrightarrow> getExecutor reg (rule_type r) \<noteq> None) \<Longrightarrow>
     rulesLoop reg mk ruleMode i (pre @ post) msg =
       m_bind (rulesLoop reg mk ruleMode i pre msg) (rulesLoop reg mk ruleMode (i + length pre) post)"
proof (induction pre arbitrary: i msg)
  case Nil
  show ?case by (rule ext) (simp add: m_bind_apply)
next
  case (Cons r pre)
  have assoc: "m_bind m (\<lambda>x. m_bind (f x) g) = m_bind (m_bind m f) g" for m f g
    by (rule ext) (auto simp: m_bind_def split: prod.splits sum.splits)
  obtain ex where "getExecutor reg (rule_type r) = Some ex"
    using Cons.prems by fastforce
  moreover have "rulesLoop reg mk ruleMode (Suc i) (pre @ post) =
      (\<lambda>m. m_bind (rulesLoop reg mk ruleMode (Suc i) pre m) (rulesLoop reg mk ruleMode (Suc i + length pre) post))"
    using Cons by (intro ext) (simp del: rulesLoop.simps)
  ultimately show ?case using Cons by (simp add: assoc)
qed

section \<open>Single rules\<close>

lemma runAction_none: "getRuleActionName r ruleMode action = None \<Longrightarrow>
    runAction reg ctx ruleMode r action msg err ''NONE'' = m_return ()"
  by (rule ext) (simp add: runAction_def getRuleAction_def NoneAction_def m_catch_def)

lemma getRuleActionName_None [simp]: "getRuleActionName r ruleMode None = None"
  by (simp add: getRuleActionName_def)

text \<open>The default action on failure raises, when there is an error to report.\<close>

lemma runAction_error_default:
  "getRuleActionName r ruleMode action = None \<Longrightarrow> ctx_rule ctx = r \<Longrightarrow>
     runAction reg ctx ruleMode r action msg (Some e) ''ERROR'' =
       m_throw (SerializationError (''rule '' @ rule_name r @ '' failed: '' @ err_message e))"
  by (rule ext) (simp add: runAction_def getRuleAction_def ErrorAction_def m_catch_def)

text \<open>Without an error, the default action fails on its own and the failure is dropped.\<close>

lemma runAction_error_null:
  "getRuleActionName r ruleMode action = None \<Longrightarrow>
     runAction reg ctx ruleMode r action msg None ''ERROR'' = m_return ()"
  by (rule ext) (simp add: runAction_def getRuleAction_def ErrorAction_def m_catch_def)

lemma applyRule_transform:
  assumes "rule_kind r = Some ''TRANSFORM''" and "getOnSuccess reg r = None"
    and "ex_transform ex ctx msg w = (w', Inr v)" and "v \<noteq> JNull"
  shows "applyRule reg ex ctx ruleMode r msg w = (w', Inr v)"
  using assms by (simp add: applyRule_def runAction_none)

lemma applyRule_condition_false:
  assumes "rule_kind r = Some ''CONDITION''" and "ex_transform ex ctx msg w = (w', Inr (JBool False))"
    and "getOnFailure reg r = None" and "ctx_rule ctx = r"
  shows "applyRule reg ex ctx ruleMode r msg w =
    (w', Inl (SerializationError (''rule '' @ rule_name r @ '' failed: '' @ conditionError r)))"
  using assms by (simp add: applyRule_def ruleFailed_def runAction_error_default m_bind_apply)

lemma applyRule_transform_null:
  assumes "rule_kind r = Some ''TRANSFORM''" and "ex_transform ex ctx msg w = (w', Inr JNull)"
    and "getOnFailure reg r = None"
  shows "applyRule reg ex ctx ruleMode r msg w = (w', Inr JNull)"
  using assms by (simp add: applyRule_def runAction_error_null)

lemma applyRule_throws:
  assumes "ex_transform ex ctx msg w = (w', Inl e)" and "\<not> is_SerializationError e"
    and "getOnFailure reg r = None" and "ctx_rule ctx = r"
  shows "applyRule reg ex ctx ruleMode r msg w =
    (w', Inl (SerializationError (''rule '' @ rule_name r @ '' failed: '' @ err_message e)))"
  using assms by (simp add: applyRule_def ruleFailed_def runAction_error_default m_bind_apply)

section \<open>Properties\<close>

text \<open>
  C29. Whatever the executors and actions do, executing the rules of a schema fails only with a
  \<open>SerializationError\<close> or with the report of an action that is not registered.
\<close>

theorem executeRules_errors:
  assumes "executeRulesWithPhase sd subject topic phase ruleMode source target msg it ds w = (w', Inl e)"
  shows "is_SerializationError e \<or> (\<exists>a. e = RuleError (''Could not find rule action of type '' @ a))"
  using assms rulesLoop_error [unfolded engine_error_def]
  by (fastforce simp: executeRulesWithPhase_def split: option.splits if_splits prod.splits)

text \<open>A rule, a schema with rules and an executor, for the examples.\<close>

definition sample_rule :: "string \<Rightarrow> string \<Rightarrow> rule_mode \<Rightarrow> rule" where
  "sample_rule n k md = \<lparr>rule_name = n, rule_doc = None, rule_kind = Some k, rule_mode_of = Some md,
     rule_type = ''CEL'', rule_tags = None, rule_params = None, rule_expr = Some ''x'',
     rule_onSuccess = None, rule_onFailure = None, rule_disabled = None\<rparr>"

definition sample_schema :: "rule list \<Rightarrow> schema_info" where
  "sample_schema rules = \<lparr>si_schema = ''s'', si_schemaType = None, si_references = None, si_metadata = None,
     si_ruleSet = Some \<lparr>migrationRules = None, domainRules = Some rules, encodingRules = None, enableAt = None\<rparr>\<rparr>"

definition sample_serde ::
    "('m rule_context \<Rightarrow> 'm jsval \<Rightarrow> (nat, 'm jsval) meth) \<Rightarrow> (nat, 'm) serde" where
  "sample_serde t = \<lparr>sd_serdeType = VALUE,
     sd_ruleRegistry = registerExecutor \<lparr>ex_type = ''CEL'', ex_transform = t\<rparr> newRuleRegistry\<rparr>"

lemma sample_select [simp]:
  "rule_name (sample_rule n k md) = n" "rule_type (sample_rule n k md) = ''CEL''"
  "rule_kind (sample_rule n k md) = Some k" "rule_mode_of (sample_rule n k md) = Some md"
  "rule_doc (sample_rule n k md) = None" "rule_expr (sample_rule n k md) = Some ''x''"
  "rule_disabled (sample_rule n k md) = None"
  "getExecutor (sd_ruleRegistry (sample_serde t)) ''CEL'' = Some \<lparr>ex_type = ''CEL'', ex_transform = t\<rparr>"
  "getOverride (sd_ruleRegistry (sample_serde t)) x = None"
  "getOnFailure (sd_ruleRegistry (sample_serde t)) (sample_rule n k md) = None"
  "getOnSuccess (sd_ruleRegistry (sample_serde t)) (sample_rule n k md) = None"
  by (simp_all add: sample_rule_def sample_serde_def registry_defs getOnFailure_def getOnSuccess_def)

lemma sample_enabled [simp]:
  "isDisabled (sd_ruleRegistry (sample_serde t))
     (newRuleContext None a b c d e f g h i j k) (sample_rule n kk md) \<longleftrightarrow> False"
  by (simp add: isDisabled_def)

lemma sample_schema_rules [simp]:
  "selectRules DOMAIN WRITE source (sample_schema rules) = (None, Some rules)"
  by (simp add: selectRules_def sample_schema_def)

theorem executeRules_errors_witness:
  "executeRulesWithPhase (sample_serde (\<lambda>ctx m. m_throw (Error ''boom''))) ''s'' ''t'' DOMAIN WRITE None
     (Some (sample_schema [sample_rule ''r'' ''TRANSFORM'' WRITE])) (JVal (1::nat)) None None 0 =
     (0, Inl (SerializationError ''rule r failed: boom'')) \<and>
   (is_SerializationError (SerializationError ''rule r failed: boom'') \<or>
    (\<exists>a. SerializationError ''rule r failed: boom'' = RuleError (''Could not find rule action of type '' @ a)))"
proof -
  have "executeRulesWithPhase (sample_serde (\<lambda>ctx m. m_throw (Error ''boom''))) ''s'' ''t'' DOMAIN WRITE None
     (Some (sample_schema [sample_rule ''r'' ''TRANSFORM'' WRITE])) (JVal (1::nat)) None None 0 =
     (0, Inl (SerializationError ''rule r failed: boom''))"
    by (simp add: executeRulesWithPhase_def modeApplies_def m_bind_apply applyRule_throws)
  from conjI [OF this executeRules_errors [OF this]] show ?thesis .
qed

text \<open>An executor that works without side effects and whose reading undoes its writing.\<close>

definition executor_inverts ::
    "('w, 'm) rule_executor \<Rightarrow> ('m jsval \<Rightarrow> 'm jsval) \<Rightarrow> ('m jsval \<Rightarrow> 'm jsval) \<Rightarrow> rule \<Rightarrow> bool" where
  "executor_inverts ex f g r \<longleftrightarrow>
     (\<forall>m. m \<noteq> JNull \<longrightarrow> f m \<noteq> JNull \<and> g (f m) = m) \<and>
     (\<forall>ctx m w. ctx_rule ctx = r \<longrightarrow> m \<noteq> JNull \<longrightarrow> ctx_ruleMode ctx = WRITE \<longrightarrow>
        ex_transform ex ctx m w = (w, Inr (f m))) \<and>
     (\<forall>ctx m w. ctx_rule ctx = r \<longrightarrow> m \<noteq> JNull \<longrightarrow> ctx_ruleMode ctx = READ \<longrightarrow>
        ex_transform ex ctx m w = (w, Inr (g m)))"

definition rule_inverts ::
    "('w, 'm) rule_registry \<Rightarrow> (rule \<Rightarrow> 'm jsval \<Rightarrow> 'm jsval) \<Rightarrow> (rule \<Rightarrow> 'm jsval \<Rightarrow> 'm jsval) \<Rightarrow> rule \<Rightarrow> bool" where
  "rule_inverts reg f g r \<longleftrightarrow>
     rule_mode_of r = Some WRITEREAD \<and> rule_kind r = Some ''TRANSFORM'' \<and> getOnSuccess reg r = None \<and>
     (case getExecutor reg (rule_type r) of None \<Rightarrow> False | Some ex \<Rightarrow> executor_inverts ex (f r) (g r) r)"

lemma rule_inverts_apply:
  "rule_inverts reg f g r \<Longrightarrow> m \<noteq> JNull \<Longrightarrow> f r m \<noteq> JNull \<and> g r (f r m) = m"
  by (simp add: rule_inverts_def executor_inverts_def split: option.splits)

lemma rule_inverts_step:
  assumes inv: "rule_inverts reg f g r" and dis: "\<not> isDisabled reg (mk i r) r"
    and ctx: "ctx_rule (mk i r) = r" "ctx_ruleMode (mk i r) = ruleMode"
    and m: "m \<noteq> JNull" "m' \<noteq> JNull"
    and mode: "(ruleMode = WRITE \<and> m' = f r m) \<or> (ruleMode = READ \<and> m' = g r m)"
  shows "rulesLoop reg mk ruleMode i (r # rs) m w = rulesLoop reg mk ruleMode (Suc i) rs m' w"
proof -
  obtain ex where ex: "getExecutor reg (rule_type r) = Some ex" "executor_inverts ex (f r) (g r) r"
    using inv by (auto simp: rule_inverts_def split: option.splits)
  have "ex_transform ex (mk i r) m w = (w, Inr m')"
    using ex(2) ctx m(1) mode unfolding executor_inverts_def by auto
  then have "applyRule reg ex (mk i r) ruleMode r m w = (w, Inr m')"
    using inv m(2) by (intro applyRule_transform) (simp_all add: rule_inverts_def)
  moreover have "\<not> rule_skipped reg (mk i r) ruleMode r"
    using inv dis mode by (auto simp: rule_skipped_def modeApplies_def rule_inverts_def)
  ultimately show ?thesis
    using ex(1) by (simp add: rulesLoop_step m_bind_apply del: rulesLoop.simps)
qed

lemma rule_inverts_write:
  assumes "rule_inverts reg f g r" and "m \<noteq> JNull" and "\<not> isDisabled reg (mk i r) r"
    and "ctx_rule (mk i r) = r" and "ctx_ruleMode (mk i r) = WRITE"
  shows "rulesLoop reg mk WRITE i (r # rs) m w = rulesLoop reg mk WRITE (Suc i) rs (f r m) w"
  using rule_inverts_step [where mk = mk and i = i, OF assms(1,3,4,5,2)] rule_inverts_apply [OF assms(1,2)] by simp

lemma rule_inverts_read:
  assumes "rule_inverts reg f g r" and "m \<noteq> JNull" and "\<not> isDisabled reg (mk i r) r"
    and "ctx_rule (mk i r) = r" and "ctx_ruleMode (mk i r) = READ"
  shows "rulesLoop reg mk READ i (r # rs) (f r m) w = rulesLoop reg mk READ (Suc i) rs m w"
  using rule_inverts_step [where mk = mk and i = i, OF assms(1,3,4,5), of "f r m" m] rule_inverts_apply [OF assms(1,2)] assms(2)
  by simp

text \<open>The message after the write rules; a disabled rule leaves it alone.\<close>

definition written :: "(rule \<Rightarrow> bool) \<Rightarrow> (rule \<Rightarrow> 'm jsval \<Rightarrow> 'm jsval) \<Rightarrow> rule list \<Rightarrow> 'm jsval \<Rightarrow> 'm jsval" where
  "written dis f rs msg = fold (\<lambda>r m. if dis r then m else f r m) rs msg"

lemma write_loop:
  assumes "\<And>r. r \<in> set rs \<Longrightarrow> dis r \<or> rule_inverts reg f g r" and "msg \<noteq> JNull"
    and "\<And>i r. isDisabled reg (mk i r) r = dis r"
    and "\<And>i r. ctx_rule (mk i r) = r" and "\<And>i r. ctx_ruleMode (mk i r) = WRITE"
  shows "rulesLoop reg mk WRITE i rs msg w = (w, Inr (written dis f rs msg)) \<and> written dis f rs msg \<noteq> JNull"
  using assms(1,2)
proof (induction rs arbitrary: i msg)
  case Nil
  then show ?case by (simp add: written_def)
next
  case (Cons r rs)
  show ?case
  proof (cases "dis r")
    case True
    with Cons assms(3) show ?thesis
      by (simp add: written_def)
  next
    case False
    with Cons.prems have inv: "rule_inverts reg f g r" by auto
    have "f r msg \<noteq> JNull"
      using rule_inverts_apply [OF inv Cons.prems(2)] by simp
    with Cons.IH [of "f r msg" "Suc i"] Cons.prems(1) False
      rule_inverts_write [OF inv Cons.prems(2), of mk i rs w] assms(3-5)
    show ?thesis by (simp add: written_def del: rulesLoop.simps)
  qed
qed

lemma read_loop:
  assumes "\<And>r. r \<in> set rs \<Longrightarrow> dis r \<or> rule_inverts reg f g r" and "msg \<noteq> JNull"
    and "\<And>i r. isDisabled reg (mk i r) r = dis r"
    and "\<And>i r. ctx_rule (mk i r) = r" and "\<And>i r. ctx_ruleMode (mk i r) = READ"
  shows "rulesLoop reg mk READ i (rev rs) (written dis f rs msg) w = (w, Inr msg) \<and> written dis f rs msg \<noteq> JNull"
  using assms(1,2)
proof (induction rs arbitrary: i rule: rev_induct)
  case Nil
  then show ?case by (simp add: written_def)
next
  case (snoc r rs)
  then have IH: "\<And>i. rulesLoop reg mk READ i (rev rs) (written dis f rs msg) w = (w, Inr msg)"
      "written dis f rs msg \<noteq> JNull"
    by auto
  show ?case
  proof (cases "dis r")
    case True
    with IH assms(3) show ?thesis by (simp add: written_def)
  next
    case False
    with snoc.prems have inv: "rule_inverts reg f g r" by auto
    have "written dis f (rs @ [r]) msg = f r (written dis f rs msg)"
      using False by (simp add: written_def)
    with IH rule_inverts_read [OF inv IH(2), of mk i "rev rs" w] False assms(3-5)
      rule_inverts_apply [OF inv IH(2)]
    show ?thesis by (simp del: rulesLoop.simps)
  qed
qed

text \<open>
  C14. Reading undoes writing: when every domain rule of the schema is either disabled or a
  WRITEREAD transform whose executor maps a message back on reading to what it was before writing,
  executing the rules on the written message restores the original one. (Reading runs the rules
  in reverse order, which is what makes this true.)
\<close>

theorem write_then_read:
  assumes rules: "si_ruleSet target = Some rs" "domainRules rs = Some rules"
    and "msg \<noteq> JNull"
    and "\<forall>r \<in> set rules. isDisabled (sd_ruleRegistry sd)
            (newRuleContext (enableAt rs) None target [] [] False WRITE r 0 [] None None) r \<or>
          rule_inverts (sd_ruleRegistry sd) f g r"
  shows "\<exists>enc. executeRules sd subject topic WRITE src (Some target) msg it ds w = (w, Inr enc) \<and>
           executeRules sd subject topic READ src' (Some target) enc it' ds' w' = (w', Inr msg)"
proof -
  let ?reg = "sd_ruleRegistry sd"
  let ?dis = "\<lambda>r. isDisabled ?reg (newRuleContext (enableAt rs) None target [] [] False WRITE r 0 [] None None) r"
  let ?enc = "written ?dis f rules msg"
  let ?mk = "\<lambda>s md rls it ds i r. newRuleContext (enableAt rs) s target subject topic (sd_serdeType sd = KEY)
      md r i rls it ds"
  have dis: "isDisabled ?reg (?mk s md rls it ds i r) r = ?dis r" for s md rls it ds i r
    by (rule isDisabled_env) simp
  have inv: "?dis r \<or> rule_inverts ?reg f g r" if "r \<in> set rules" for r
    using assms(4) that by blast
  have w: "rulesLoop ?reg (?mk src WRITE rules it ds) WRITE 0 rules msg w = (w, Inr ?enc)" "?enc \<noteq> JNull"
    using write_loop [of rules ?dis ?reg f g msg "?mk src WRITE rules it ds" 0 w] inv assms(3) dis by auto
  have r: "rulesLoop ?reg (?mk src' READ (rev rules) it' ds') READ 0 (rev rules) ?enc w' = (w', Inr msg)"
    using read_loop [of rules ?dis ?reg f g msg "?mk src' READ (rev rules) it' ds'" 0 w'] inv assms(3) dis
    by auto
  show ?thesis
    using w r rules assms(3)
    by (intro exI [of _ ?enc]) (simp add: executeRules_def executeRulesWithPhase_def selectRules_def)
qed

definition bump :: "nat jsval \<Rightarrow> nat jsval" where
  "bump m = (case m of JVal n \<Rightarrow> JVal (Suc n) | _ \<Rightarrow> m)"

definition unbump :: "nat jsval \<Rightarrow> nat jsval" where
  "unbump m = (case m of JVal n \<Rightarrow> JVal (n - 1) | _ \<Rightarrow> m)"

definition bump_serde :: "(nat, nat) serde" where
  "bump_serde = sample_serde (\<lambda>ctx m. m_return (if ctx_ruleMode ctx = WRITE then bump m else unbump m))"

theorem write_then_read_witness:
  "\<exists>enc. executeRules bump_serde ''s'' ''t'' WRITE None
      (Some (sample_schema [sample_rule ''a'' ''TRANSFORM'' WRITEREAD, sample_rule ''b'' ''TRANSFORM'' WRITEREAD]))
      (JVal 5) None None 0 = (0, Inr enc) \<and>
    executeRules bump_serde ''s'' ''t'' READ None
      (Some (sample_schema [sample_rule ''a'' ''TRANSFORM'' WRITEREAD, sample_rule ''b'' ''TRANSFORM'' WRITEREAD]))
      enc None None 0 = (0, Inr (JVal 5))"
proof (rule write_then_read [where f = "\<lambda>r. bump" and g = "\<lambda>r. unbump"])
  have "rule_inverts (sd_ruleRegistry bump_serde) (\<lambda>r. bump) (\<lambda>r. unbump)
      (sample_rule n ''TRANSFORM'' WRITEREAD)" for n
    by (auto simp: rule_inverts_def bump_serde_def executor_inverts_def bump_def unbump_def split: jsval.splits)
  then show "\<forall>r \<in> set [sample_rule ''a'' ''TRANSFORM'' WRITEREAD, sample_rule ''b'' ''TRANSFORM'' WRITEREAD].
      isDisabled (sd_ruleRegistry bump_serde)
        (newRuleContext (enableAt (the (si_ruleSet (sample_schema [sample_rule ''a'' ''TRANSFORM'' WRITEREAD,
           sample_rule ''b'' ''TRANSFORM'' WRITEREAD])))) None (sample_schema [sample_rule ''a'' ''TRANSFORM'' WRITEREAD,
           sample_rule ''b'' ''TRANSFORM'' WRITEREAD]) [] [] False WRITE r 0 [] None None) r \<or>
      rule_inverts (sd_ruleRegistry bump_serde) (\<lambda>r. bump) (\<lambda>r. unbump) r"
    by simp
qed (simp_all add: sample_schema_def)

text \<open>
  A condition that evaluates to false stops serialization: when the rules before it succeed
  and it names no action of its own, the engine raises a \<open>SerializationError\<close> with the message of
  the condition, and no later rule runs.
\<close>

theorem condition_false_raises:
  assumes "msg \<noteq> JNull" and "selectRules phase ruleMode source target = (env, Some (pre @ r # post))"
    and mk: "mk = (\<lambda>i r. newRuleContext env source target subject topic (sd_serdeType sd = KEY) ruleMode r i
                      (pre @ r' # post) it ds)" "r' = r"
    and "\<forall>q \<in> set pre. getExecutor (sd_ruleRegistry sd) (rule_type q) \<noteq> None"
    and "rulesLoop (sd_ruleRegistry sd) mk ruleMode 0 pre msg w = (w1, Inr m1)"
    and "\<not> rule_skipped (sd_ruleRegistry sd) (mk (length pre) r) ruleMode r"
    and "getExecutor (sd_ruleRegistry sd) (rule_type r) = Some ex"
    and "rule_kind r = Some ''CONDITION''" and "getOnFailure (sd_ruleRegistry sd) r = None"
    and "ex_transform ex (mk (length pre) r) m1 w1 = (w2, Inr (JBool False))"
  shows "executeRulesWithPhase sd subject topic phase ruleMode source (Some target) msg it ds w =
    (w2, Inl (SerializationError (''rule '' @ rule_name r @ '' failed: '' @ conditionError r)))"
proof -
  have "ctx_rule (mk (length pre) r) = r"
    by (simp add: mk)
  then have "applyRule (sd_ruleRegistry sd) ex (mk (length pre) r) ruleMode r m1 w1 =
      (w2, Inl (SerializationError (''rule '' @ rule_name r @ '' failed: '' @ conditionError r)))"
    using assms by (intro applyRule_condition_false)
  then have "rulesLoop (sd_ruleRegistry sd) mk ruleMode 0 (pre @ r # post) msg w =
      (w2, Inl (SerializationError (''rule '' @ rule_name r @ '' failed: '' @ conditionError r)))"
    using assms(5-8) by (simp add: rulesLoop_append rulesLoop_step m_bind_apply del: rulesLoop.simps)
  then show ?thesis
    using assms(1,2) by (simp add: executeRulesWithPhase_def mk)
qed

theorem condition_false_raises_witness:
  "executeRulesWithPhase (sample_serde (\<lambda>ctx m. m_return (JBool False))) ''s'' ''t'' DOMAIN WRITE None
     (Some (sample_schema [sample_rule ''r'' ''CONDITION'' WRITE])) (JVal (1::nat)) None None 0 =
   (0, Inl (SerializationError (''rule r failed: Expr failed: '' @ quoted ''x'')))"
  by (subst condition_false_raises [where pre = "[]" and post = "[]" and r = "sample_rule ''r'' ''CONDITION'' WRITE",
        OF _ _ refl refl], simp_all add: rule_skipped_def modeApplies_def conditionError_def)
     (simp_all add: rule_skipped_def)

text \<open>
  A transform that yields null does not fail serialization, although the code asks for the
  ERROR action then: that action reads the message of an error that is not there, its own failure
  is dropped, and the null message goes on to the next rules.
\<close>

theorem null_transform_not_reported:
  assumes "msg \<noteq> JNull" and "selectRules phase ruleMode source target = (env, Some [r])"
    and "\<not> rule_skipped (sd_ruleRegistry sd) (newRuleContext env source target subject topic
           (sd_serdeType sd = KEY) ruleMode r 0 [r] it ds) ruleMode r"
    and "getExecutor (sd_ruleRegistry sd) (rule_type r) = Some ex"
    and "rule_kind r = Some ''TRANSFORM''" and "getOnFailure (sd_ruleRegistry sd) r = None"
    and "\<And>ctx. ex_transform ex ctx msg w = (w1, Inr JNull)"
  shows "executeRulesWithPhase sd subject topic phase ruleMode source (Some target) msg it ds w = (w1, Inr JNull)"
  using assms
  by (simp add: executeRulesWithPhase_def rulesLoop_step applyRule_transform_null m_bind_apply
      del: rulesLoop.simps(2))

theorem null_transform_not_reported_witness:
  "executeRulesWithPhase (sample_serde (\<lambda>ctx m. m_return JNull)) ''s'' ''t'' DOMAIN WRITE None
     (Some (sample_schema [sample_rule ''r'' ''TRANSFORM'' WRITE])) (JVal (1::nat)) None None 0 = (0, Inr JNull)"
  by (subst null_transform_not_reported [where r = "sample_rule ''r'' ''TRANSFORM'' WRITE" and env = None],
        simp_all add: rule_skipped_def modeApplies_def) simp

end
