(* ===== verification/Client_Interface.thy ===== *)
theory Client_Interface
  imports Schema_Model
begin

text \<open>
  The interface \<open>Client\<close> of \<open>schemaregistry-client.ts\<close>, which the serializers and deserializers call
  and which the REST client and the in-memory client implement. An operation may throw and may
  change the state \<open>'c\<close> of the client.
\<close>

record 'c client =
  cl_registerFullResponse :: "string \<Rightarrow> schema_info \<Rightarrow> bool \<Rightarrow> ('c, schema_metadata) meth"
  cl_getBySubjectAndId :: "string \<Rightarrow> int \<Rightarrow> string option \<Rightarrow> ('c, schema_info) meth"
  cl_getByGuid :: "string \<Rightarrow> string option \<Rightarrow> ('c, schema_info) meth"
  cl_getIdFullResponse :: "string \<Rightarrow> schema_info \<Rightarrow> bool \<Rightarrow> ('c, schema_metadata) meth"
  cl_getLatestSchemaMetadata :: "string \<Rightarrow> string option \<Rightarrow> ('c, schema_metadata) meth"
  cl_getSchemaMetadata :: "string \<Rightarrow> int \<Rightarrow> bool \<Rightarrow> string option \<Rightarrow> ('c, schema_metadata) meth"
  cl_getLatestWithMetadata :: "string \<Rightarrow> (string \<times> string) list \<Rightarrow> bool \<Rightarrow> string option \<Rightarrow> ('c, schema_metadata) meth"
  cl_getVersion :: "string \<Rightarrow> schema_info \<Rightarrow> bool \<Rightarrow> bool \<Rightarrow> ('c, int) meth"
  cl_getAssociationsByResourceName ::
    "string \<Rightarrow> string \<Rightarrow> string option \<Rightarrow> string list \<Rightarrow> lifecycle_policy option \<Rightarrow> nat \<Rightarrow> int
     \<Rightarrow> ('c, association list) meth"

text \<open>
  The objects that the code turns into map and cache keys with \<open>json-stringify-deterministic\<close>.
  The function itself is a parameter \<open>stringify\<close> of what uses it.
\<close>

datatype json_key =
    KSubjectSchema string schema_info
  | KSubjectId string int
  | KSubjectVersion string int bool
  | KTopicSchema string bool "string option"
  | KSchema schema_info
  | KSubject string
  | KSubjectMetadata string "(string \<times> string) list" bool
  | KGuid string
  | KSubjectVersionOnly string int
  | KSubjectSchemaDeleted string schema_info bool

text \<open>
  What a schema registry promises to serializers and deserializers: a schema that was registered
  under a subject is found again under the id that registering returned.
\<close>

locale schema_registry =
  fixes cl :: "'c client" and inv :: "'c \<Rightarrow> bool"
  assumes register_inv:
      "inv s \<Longrightarrow> cl_registerFullResponse cl subject info nz s = (s', Inr md) \<Longrightarrow> inv s'"
    and register_id:
      "inv s \<Longrightarrow> subject \<noteq> [] \<Longrightarrow> cl_registerFullResponse cl subject info nz s = (s', Inr md) \<Longrightarrow>
       \<exists>i. sm_id md = Some i \<and> 0 < i \<and> cl_getBySubjectAndId cl subject i fmt s' = (s', Inr info)"
    and register_again:
      "inv s \<Longrightarrow> cl_registerFullResponse cl subject info nz s = (s', Inr md) \<Longrightarrow>
       cl_registerFullResponse cl subject info nz' s' = (s', Inr md)"
begin

text \<open>Registering twice gives one id, under which the schema is found.\<close>

lemma register_twice:
  assumes "inv s" "subject \<noteq> []" "cl_registerFullResponse cl subject info nz s = (s1, Inr md1)"
    and "cl_registerFullResponse cl subject info nz' s1 = (s2, Inr md2)"
  shows "s2 = s1 \<and> md2 = md1 \<and>
    (\<exists>i. sm_id md2 = Some i \<and> cl_getBySubjectAndId cl subject i fmt s2 = (s2, Inr info))"
  using register_again [OF assms(1,3), of nz'] register_id [OF assms(1-3), of fmt] assms(4) by auto

end

end
