(* ===== verification/Lru_Cache.thy ===== *)
theory Lru_Cache
  imports JS_Prelude
begin

text \<open>
  The caches of the \<open>lru-cache\<close> package, as far as the code relies on them. A cache is a map whose
  entries may be dropped at any time (capacity, time to live): \<open>keep\<close> stands for what the package
  leaves of the entries whenever the cache is used. \<open>keeps_entries\<close> is all that is relied on:
  an entry that is found is one that was set.
\<close>

type_synonym ('k, 'v) cache = "('k, 'v) jsmap"

definition cache_get :: "(('k, 'v) cache \<Rightarrow> ('k, 'v) cache) \<Rightarrow> 'k \<Rightarrow> ('k, 'v) cache \<Rightarrow> 'v option" where
  "cache_get keep k c = jm_get (keep c) k"

definition cache_set :: "(('k, 'v) cache \<Rightarrow> ('k, 'v) cache) \<Rightarrow> 'k \<Rightarrow> 'v \<Rightarrow> ('k, 'v) cache \<Rightarrow> ('k, 'v) cache" where
  "cache_set keep k v c = keep (jm_set k v c)"

definition cache_delete :: "(('k, 'v) cache \<Rightarrow> ('k, 'v) cache) \<Rightarrow> 'k \<Rightarrow> ('k, 'v) cache \<Rightarrow> ('k, 'v) cache" where
  "cache_delete keep k c = keep (jm_delete k c)"

definition keeps_entries :: "(('k, 'v) cache \<Rightarrow> ('k, 'v) cache) \<Rightarrow> bool" where
  "keeps_entries keep \<longleftrightarrow> (\<forall>c k v. jm_get (keep c) k = Some v \<longrightarrow> jm_get c k = Some v)"

lemma keeps_entriesD: "keeps_entries keep \<Longrightarrow> jm_get (keep c) k = Some v \<Longrightarrow> jm_get c k = Some v"
  unfolding keeps_entries_def by blast

text \<open>A cache all of whose entries satisfy an invariant.\<close>

definition cache_ok :: "('k \<Rightarrow> 'v \<Rightarrow> bool) \<Rightarrow> ('k, 'v) cache \<Rightarrow> bool" where
  "cache_ok P c \<longleftrightarrow> (\<forall>k v. jm_get c k = Some v \<longrightarrow> P k v)"

lemma cache_ok_Nil [simp]: "cache_ok P []"
  by (simp add: cache_ok_def)

lemma cache_ok_get: "keeps_entries keep \<Longrightarrow> cache_ok P c \<Longrightarrow> cache_get keep k c = Some v \<Longrightarrow> P k v"
  by (auto simp: cache_get_def cache_ok_def dest: keeps_entriesD)

lemma cache_ok_set: "keeps_entries keep \<Longrightarrow> cache_ok P c \<Longrightarrow> P k v \<Longrightarrow> cache_ok P (cache_set keep k v c)"
  by (auto simp: cache_set_def cache_ok_def dest!: keeps_entriesD split: if_splits)

lemma cache_ok_delete: "keeps_entries keep \<Longrightarrow> cache_ok P c \<Longrightarrow> cache_ok P (cache_delete keep k c)"
  by (auto simp: cache_delete_def cache_ok_def dest!: keeps_entriesD split: if_splits)

text \<open>Reading through a cache: what is loaded on a miss is kept.\<close>

definition read_through ::
    "(('k, 'v) cache \<Rightarrow> ('k, 'v) cache) \<Rightarrow> 'k \<Rightarrow> ('s, 'v) meth \<Rightarrow> (('k, 'v) cache \<times> 's, 'v) meth" where
  "read_through keep k load = (\<lambda>(c, s).
     case cache_get keep k c of
       Some v \<Rightarrow> ((c, s), Inr v)
     | None \<Rightarrow> (case load s of
                  (s', Inl e) \<Rightarrow> ((c, s'), Inl e)
                | (s', Inr v) \<Rightarrow> ((cache_set keep k v c, s'), Inr v)))"

text \<open>The entries of a cache are what loading gives now.\<close>

definition agrees :: "('a \<Rightarrow> 'k) \<Rightarrow> ('a \<Rightarrow> ('s, 'v) meth) \<Rightarrow> 's \<Rightarrow> ('k, 'v) cache \<Rightarrow> bool" where
  "agrees key load s c \<longleftrightarrow> cache_ok (\<lambda>k v. \<exists>a. k = key a \<and> load a s = (s, Inr v)) c"

text \<open>
  As long as loading does not change the server, reading through the cache gives what loading
  gives, whatever the cache drops in between.
\<close>

lemma read_through_transparent:
  assumes keep: "keeps_entries keep"
    and key_det: "\<And>b. key a = key b \<Longrightarrow> load a = load b"
    and agr: "agrees key load s c" and pure: "fst (load a s) = s"
  shows "\<exists>c'. read_through keep (key a) (load a) (c, s) = ((c', s), snd (load a s)) \<and> agrees key load s c'"
proof (cases "cache_get keep (key a) c")
  case None
  obtain r where r: "load a s = (s, r)"
    using pure by (cases "load a s") simp
  show ?thesis
  proof (cases r)
    case (Inl e)
    with None r agr show ?thesis by (simp add: read_through_def)
  next
    case (Inr v)
    then have "agrees key load s (cache_set keep (key a) v c)"
      using agr r unfolding agrees_def by (intro cache_ok_set [OF keep]) auto
    with None r Inr show ?thesis by (simp add: read_through_def)
  qed
next
  case (Some v)
  with cache_ok_get [OF keep agr [unfolded agrees_def]] obtain b where
      "key a = key b" "load b s = (s, Inr v)" by blast
  with key_det [of b] have "load a s = (s, Inr v)" by simp
  with Some agr show ?thesis by (auto simp: read_through_def)
qed

end
