(* ===== verification/Migrations.thy ===== *)
theory Migrations
  imports Rule_Engine Client_Interface
begin

text \<open>
  The deserializer's migrations of \<open>serde.ts\<close>: from the schema a message was written with to the
  one the reader asks for, one step per version that has migration rules; and the resolution of
  schema references, which follows references of references.
\<close>

section \<open>Does a rule set have rules of a mode\<close>

definition checkRules :: "rule list option \<Rightarrow> (rule_mode \<Rightarrow> bool) \<Rightarrow> bool" where
  "checkRules rules filt =
     (case rules of
        None \<Rightarrow> False
      | Some rs \<Rightarrow> list_ex (\<lambda>r. case rule_mode_of r of None \<Rightarrow> False | Some md \<Rightarrow> filt md) rs)"

definition hasRules :: "rule_set option \<Rightarrow> rule_phase \<Rightarrow> rule_mode \<Rightarrow> bool" where
  "hasRules ruleSet phase mode =
     (case ruleSet of
        None \<Rightarrow> False
      | Some rs \<Rightarrow>
          let rules = (case phase of MIGRATION \<Rightarrow> migrationRules rs | DOMAIN \<Rightarrow> domainRules rs
                                   | ENCODING \<Rightarrow> encodingRules rs)
          in case mode of
               UPGRADE \<Rightarrow> checkRules rules (\<lambda>md. md = mode \<or> md = UPDOWN)
             | DOWNGRADE \<Rightarrow> checkRules rules (\<lambda>md. md = mode \<or> md = UPDOWN)
             | UPDOWN \<Rightarrow> checkRules rules (\<lambda>md. md = mode)
             | WRITE \<Rightarrow> checkRules rules (\<lambda>md. md = mode \<or> md = WRITEREAD)
             | READ \<Rightarrow> checkRules rules (\<lambda>md. md = mode \<or> md = WRITEREAD)
             | WRITEREAD \<Rightarrow> checkRules rules (\<lambda>md. md = mode))"

section \<open>Migrations\<close>

record migration =
  mg_ruleMode :: rule_mode
  mg_source :: schema_metadata
  mg_target :: schema_metadata

text \<open>The versions strictly between, fetched in ascending order.\<close>

fun fetchVersions ::
    "'c client \<Rightarrow> string \<Rightarrow> string option \<Rightarrow> int list \<Rightarrow> ('c, schema_metadata list) meth" where
  "fetchVersions cl subject fmt [] = m_return []"
| "fetchVersions cl subject fmt (v # vs) =
     m_bind (cl_getSchemaMetadata cl subject v True fmt) (\<lambda>meta.
       m_bind (fetchVersions cl subject fmt vs) (\<lambda>ms. m_return (meta # ms)))"

definition getSchemasBetween ::
    "'c client \<Rightarrow> string \<Rightarrow> schema_metadata \<Rightarrow> int \<Rightarrow> schema_metadata \<Rightarrow> int \<Rightarrow> string option
     \<Rightarrow> ('c, schema_metadata list) meth" where
  "getSchemasBetween cl subject first version1 final version2 fmt =
     (if version2 - version1 \<le> 1 then m_return [first, final]
      else m_bind (fetchVersions cl subject fmt [version1 + 1 .. version2 - 1]) (\<lambda>ms.
             m_return (first # ms @ [final])))"

text \<open>The loop over the versions, from the second one on, with the previous one.\<close>

fun migrationSteps :: "rule_mode \<Rightarrow> schema_metadata \<Rightarrow> schema_metadata list \<Rightarrow> migration list" where
  "migrationSteps mode previous [] = []"
| "migrationSteps mode previous (version # vs) =
     (if hasRules (si_ruleSet version) MIGRATION mode
      then [if mode = UPGRADE
            then \<lparr>mg_ruleMode = mode, mg_source = previous, mg_target = version\<rparr>
            else \<lparr>mg_ruleMode = mode, mg_source = version, mg_target = previous\<rparr>]
      else []) @ migrationSteps mode version vs"

definition chainMigrations :: "rule_mode \<Rightarrow> schema_metadata list \<Rightarrow> migration list" where
  "chainMigrations mode versions =
     (let ms = (case versions of [] \<Rightarrow> [] | v # vs \<Rightarrow> migrationSteps mode v vs)
      in if mode = DOWNGRADE then rev ms else ms)"

text \<open>The metadata built for the writer's schema; it carries no schema type.\<close>

definition sourceMetadata :: "schema_info \<Rightarrow> int \<Rightarrow> schema_metadata" where
  "sourceMetadata info version =
     spread_schema (Some 0) (Some []) None (Some version)
       \<lparr>si_schema = si_schema info, si_schemaType = None, si_references = si_references info,
        si_metadata = si_metadata info, si_ruleSet = si_ruleSet info\<rparr>"

text \<open>A target without a version compares as neither smaller nor greater.\<close>

definition getMigrations ::
    "'c client \<Rightarrow> string \<Rightarrow> schema_info \<Rightarrow> schema_metadata \<Rightarrow> string option \<Rightarrow> ('c, migration list) meth" where
  "getMigrations cl subject sourceInfo target fmt =
     m_bind (cl_getVersion cl subject sourceInfo False True) (\<lambda>version.
       let source = sourceMetadata sourceInfo version
       in case sm_version target of
            None \<Rightarrow> m_return []
          | Some tv \<Rightarrow>
              if version < tv
              then m_bind (getSchemasBetween cl subject source version target tv fmt) (\<lambda>vs.
                     m_return (chainMigrations UPGRADE vs))
              else if version > tv
              then m_bind (getSchemasBetween cl subject target tv source version fmt) (\<lambda>vs.
                     m_return (chainMigrations DOWNGRADE vs))
              else m_return [])"

fun executeMigrations ::
    "('w, 'm) serde \<Rightarrow> migration list \<Rightarrow> string \<Rightarrow> string \<Rightarrow> 'm jsval \<Rightarrow> ('w, 'm jsval) meth" where
  "executeMigrations sd [] subject topic msg = m_return msg"
| "executeMigrations sd (mg # ms) subject topic msg =
     m_bind (executeRulesWithPhase sd subject topic MIGRATION (mg_ruleMode mg)
               (Some (minimize (mg_source mg))) (Some (minimize (mg_target mg))) msg None None)
       (executeMigrations sd ms subject topic)"

section \<open>References\<close>

text \<open>
  \<open>resolveReferences\<close> on a list of references still to follow, one fuel unit per reference
  followed. The recursive call does not pass the format on. \<open>None\<close> means that the fuel ran out.
\<close>

fun resolveRefList ::
    "nat \<Rightarrow> 'c client \<Rightarrow> reference list \<Rightarrow> (string, string) jsmap \<Rightarrow> string option \<Rightarrow> 'c
     \<Rightarrow> ('c \<times> (string, string) jsmap result) option" where
  "resolveRefList n cl [] deps fmt s = Some (s, Inr deps)"
| "resolveRefList 0 cl (ref # refs) deps fmt s = None"
| "resolveRefList (Suc n) cl (ref # refs) deps fmt s =
     (case cl_getSchemaMetadata cl (ref_subject ref) (ref_version ref) True fmt s of
        (s1, Inl e) \<Rightarrow> Some (s1, Inl e)
      | (s1, Inr md) \<Rightarrow>
          (case resolveRefList n cl (case si_references md of None \<Rightarrow> [] | Some rs \<Rightarrow> rs)
                  (jm_set (ref_name ref) (si_schema md) deps) None s1 of
             None \<Rightarrow> None
           | Some (s2, Inl e) \<Rightarrow> Some (s2, Inl e)
           | Some (s2, Inr deps') \<Rightarrow> resolveRefList n cl refs deps' fmt s2))"

definition resolveReferences ::
    "nat \<Rightarrow> 'c client \<Rightarrow> schema_info \<Rightarrow> (string, string) jsmap \<Rightarrow> string option \<Rightarrow> 'c
     \<Rightarrow> ('c \<times> (string, string) jsmap result) option" where
  "resolveReferences n cl schema deps fmt s =
     (case si_references schema of
        None \<Rightarrow> Some (s, Inr deps)
      | Some refs \<Rightarrow> resolveRefList n cl refs deps fmt s)"

section \<open>Steps without rules\<close>

lemma modeApplies_UPGRADE [simp]: "modeApplies md UPGRADE \<longleftrightarrow> md = Some UPGRADE \<or> md = Some UPDOWN"
  by (auto simp: modeApplies_def split: option.splits rule_mode.splits)

lemma modeApplies_DOWNGRADE [simp]: "modeApplies md DOWNGRADE \<longleftrightarrow> md = Some DOWNGRADE \<or> md = Some UPDOWN"
  by (auto simp: modeApplies_def split: option.splits rule_mode.splits)

lemma checkRules_false:
  "\<not> checkRules (Some rs) filt \<Longrightarrow> r \<in> set rs \<Longrightarrow> rule_mode_of r = Some md \<Longrightarrow> \<not> filt md"
  by (fastforce simp: checkRules_def list_ex_iff)

text \<open>A migration step is by the rules of the newer of its two versions.\<close>

definition stepRules :: "migration \<Rightarrow> rule_set option" where
  "stepRules mg = si_ruleSet (if mg_ruleMode mg = UPGRADE then mg_target mg else mg_source mg)"

definition runStep :: "('w, 'm) serde \<Rightarrow> migration \<Rightarrow> string \<Rightarrow> string \<Rightarrow> 'm jsval \<Rightarrow> ('w, 'm jsval) meth" where
  "runStep sd mg subject topic msg =
     executeRulesWithPhase sd subject topic MIGRATION (mg_ruleMode mg)
       (Some (minimize (mg_source mg))) (Some (minimize (mg_target mg))) msg None None"

lemma runStep_no_rules:
  assumes "mg_ruleMode mg = UPGRADE \<or> mg_ruleMode mg = DOWNGRADE"
    and "\<not> hasRules (stepRules mg) MIGRATION (mg_ruleMode mg)"
  shows "runStep sd mg subject topic msg = m_return msg"
proof (cases "msg = JNull")
  case True
  then show ?thesis by (simp add: runStep_def executeRulesWithPhase_def)
next
  case False
  show ?thesis
  proof (cases "Option.bind (stepRules mg) migrationRules")
    case None
    with assms(1) show ?thesis
      by (auto simp: runStep_def executeRulesWithPhase_def selectRules_def stepRules_def)
  next
    case (Some rules)
    then obtain rs where rs: "stepRules mg = Some rs" "migrationRules rs = Some rules"
      by (auto simp: bind_eq_Some_conv)
    have "\<not> modeApplies (rule_mode_of r) (mg_ruleMode mg)" if "r \<in> set rules" for r
      using assms that rs by (auto simp: hasRules_def dest: checkRules_false)
    then have "rulesLoop reg mk (mg_ruleMode mg) 0 rules msg = m_return msg"
        "rulesLoop reg mk (mg_ruleMode mg) 0 (rev rules) msg = m_return msg" for reg mk
      by (auto intro!: rulesLoop_all_skipped simp: rule_skipped_def)
    with assms(1) rs False show ?thesis
      by (auto simp: runStep_def executeRulesWithPhase_def selectRules_def stepRules_def)
  qed
qed

lemma executeMigrations_runStep:
  "executeMigrations sd (mg # ms) subject topic msg =
     m_bind (runStep sd mg subject topic msg) (executeMigrations sd ms subject topic)"
  by (simp add: runStep_def)

lemma executeMigrations_filter:
  "(\<And>mg m. mg \<in> set ms \<Longrightarrow> \<not> P mg \<Longrightarrow> runStep sd mg subject topic m = m_return m) \<Longrightarrow>
     executeMigrations sd (filter P ms) subject topic = executeMigrations sd ms subject topic"
proof (induction ms)
  case Nil
  then show ?case by simp
next
  case (Cons mg ms)
  then have IH: "executeMigrations sd (filter P ms) subject topic = executeMigrations sd ms subject topic"
    by simp
  show ?case
    using Cons.prems IH by (intro ext) (simp add: executeMigrations_runStep m_bind_apply del: executeMigrations.simps(2))
qed

text \<open>Every step from version to version, rules or not.\<close>

fun everyStep :: "rule_mode \<Rightarrow> schema_metadata list \<Rightarrow> migration list" where
  "everyStep mode (previous # version # vs) =
     (if mode = UPGRADE then \<lparr>mg_ruleMode = mode, mg_source = previous, mg_target = version\<rparr>
      else \<lparr>mg_ruleMode = mode, mg_source = version, mg_target = previous\<rparr>)
     # everyStep mode (version # vs)"
| "everyStep mode vs = []"

lemma migrationSteps_filter:
  "migrationSteps mode v vs =
     filter (\<lambda>mg. hasRules (stepRules mg) MIGRATION (mg_ruleMode mg)) (everyStep mode (v # vs))"
  by (induction vs arbitrary: v) (auto simp: stepRules_def)

lemma everyStep_mode: "mg \<in> set (everyStep mode vs) \<Longrightarrow> mg_ruleMode mg = mode"
  by (induction mode vs rule: everyStep.induct) (auto split: if_splits)

lemma chainMigrations_filter:
  "chainMigrations mode vs =
     filter (\<lambda>mg. hasRules (stepRules mg) MIGRATION (mg_ruleMode mg))
       (if mode = DOWNGRADE then rev (everyStep mode vs) else everyStep mode vs)"
  by (cases vs) (auto simp: chainMigrations_def migrationSteps_filter rev_filter)

lemma chainMigrations_run:
  assumes "mode = UPGRADE \<or> mode = DOWNGRADE"
  shows "executeMigrations sd (chainMigrations mode vs) subject topic =
    executeMigrations sd (if mode = DOWNGRADE then rev (everyStep mode vs) else everyStep mode vs) subject topic"
  unfolding chainMigrations_filter using assms
  by (intro executeMigrations_filter runStep_no_rules) (auto dest: everyStep_mode split: if_splits)

section \<open>Fetching the versions\<close>

lemma fetchVersions_pure:
  "(\<And>v. v \<in> set vs \<Longrightarrow> cl_getSchemaMetadata cl subject v True fmt s = (s, Inr (meta v))) \<Longrightarrow>
     fetchVersions cl subject fmt vs s = (s, Inr (map meta vs))"
  by (induction vs) (auto simp: m_bind_apply)

lemma getSchemasBetween_pure:
  assumes "\<And>v. version1 < v \<Longrightarrow> v < version2 \<Longrightarrow> cl_getSchemaMetadata cl subject v True fmt s = (s, Inr (meta v))"
    and "version1 < version2"
  shows "getSchemasBetween cl subject first version1 final version2 fmt s =
    (s, Inr (first # map meta [version1 + 1 .. version2 - 1] @ [final]))"
proof (cases "version2 - version1 \<le> 1")
  case True
  with assms(2) show ?thesis by (simp add: getSchemasBetween_def)
next
  case False
  moreover have "fetchVersions cl subject fmt [version1 + 1 .. version2 - 1] s =
      (s, Inr (map meta [version1 + 1 .. version2 - 1]))"
    using assms(1) by (intro fetchVersions_pure) auto
  ultimately show ?thesis by (simp add: getSchemasBetween_def m_bind_apply)
qed

section \<open>Migrating from version to version\<close>

text \<open>
  A message that goes through the given versions one after the other: at each of them the rule engine is run in the
  migration phase between that version and the one before it, upwards or downwards, and what it returns is
  passed on; the first error ends it.
\<close>

inductive migrated ::
    "('w, 'm) serde \<Rightarrow> string \<Rightarrow> string \<Rightarrow> rule_mode \<Rightarrow> (int \<Rightarrow> schema_metadata) \<Rightarrow> int list \<Rightarrow> 'm jsval \<Rightarrow> 'w
     \<Rightarrow> 'w \<times> 'm jsval result \<Rightarrow> bool"
  for sd subject topic mode ver where
  migrated_end: "migrated sd subject topic mode ver [] msg w (w, Inr msg)"
| migrated_step:
    "executeRulesWithPhase sd subject topic MIGRATION mode
       (Some (minimize (ver (if mode = UPGRADE then i - 1 else i))))
       (Some (minimize (ver (if mode = UPGRADE then i else i - 1)))) msg None None w = (w1, Inr msg1) \<Longrightarrow>
     migrated sd subject topic mode ver is msg1 w1 r \<Longrightarrow> migrated sd subject topic mode ver (i # is) msg w r"
| migrated_error:
    "executeRulesWithPhase sd subject topic MIGRATION mode
       (Some (minimize (ver (if mode = UPGRADE then i - 1 else i))))
       (Some (minimize (ver (if mode = UPGRADE then i else i - 1)))) msg None None w = (w1, Inl e) \<Longrightarrow>
     migrated sd subject topic mode ver (i # is) msg w (w1, Inl e)"

definition versionStep :: "rule_mode \<Rightarrow> (int \<Rightarrow> schema_metadata) \<Rightarrow> int \<Rightarrow> migration" where
  "versionStep mode ver i =
     \<lparr>mg_ruleMode = mode, mg_source = ver (if mode = UPGRADE then i - 1 else i),
      mg_target = ver (if mode = UPGRADE then i else i - 1)\<rparr>"

lemma executeMigrations_migrated:
  "migrated sd subject topic mode ver is msg w (executeMigrations sd (map (versionStep mode ver) is) subject topic msg w)"
proof (induction "is" arbitrary: msg w)
  case Nil
  then show ?case by (simp add: migrated_end)
next
  case (Cons i "is")
  let ?go = "executeRulesWithPhase sd subject topic MIGRATION mode
       (Some (minimize (ver (if mode = UPGRADE then i - 1 else i))))
       (Some (minimize (ver (if mode = UPGRADE then i else i - 1)))) msg None None w"
  obtain w1 r where r: "?go = (w1, r)" by (cases ?go) simp
  show ?case
  proof (cases r)
    case (Inl e)
    with r migrated_error [of sd subject topic mode ver i msg w w1 e "is"] show ?thesis
      by (simp add: versionStep_def m_bind_apply)
  next
    case (Inr m1)
    with r migrated_step [of sd subject topic mode ver i msg w w1 m1 "is", OF _ Cons.IH] show ?thesis
      by (simp add: versionStep_def m_bind_apply)
  qed
qed

lemma everyStep_versions:
  assumes "a \<le> b"
  shows "everyStep mode (map ver [a .. b]) = map (versionStep mode ver) [a + 1 .. b]"
proof -
  have "everyStep mode (map ver [b - int n .. b]) = map (versionStep mode ver) [b - int n + 1 .. b]" for n
  proof (induction n)
    case (Suc n)
    have "[b - int (Suc n) .. b] = (b - int (Suc n)) # (b - int n) # [b - int n + 1 .. b]"
      by (simp add: upto_rec1)
    moreover have "[b - int n .. b] = (b - int n) # [b - int n + 1 .. b]"
      by (simp add: upto_rec1)
    ultimately show ?case
      using Suc by (simp add: versionStep_def algebra_simps)
  qed simp
  from this [of "nat (b - a)"] assms show ?thesis by simp
qed

text \<open>The versions between two, as the migration sees them: the ends are the writer's and the reader's.\<close>

definition versionsOf ::
    "schema_info \<Rightarrow> int \<Rightarrow> schema_metadata \<Rightarrow> int \<Rightarrow> (int \<Rightarrow> schema_metadata) \<Rightarrow> int \<Rightarrow> schema_metadata" where
  "versionsOf info v target tv meta i = (if i = v then sourceMetadata info v else if i = tv then target else meta i)"

lemma versionsOf_between:
  assumes "v < tv"
  shows "map (versionsOf info v target tv meta) [v .. tv] = sourceMetadata info v # map meta [v + 1 .. tv - 1] @ [target]"
    and "map (versionsOf info tv target v meta) [v .. tv] = target # map meta [v + 1 .. tv - 1] @ [sourceMetadata info tv]"
proof -
  have "[v .. tv] = v # [v + 1 .. tv - 1] @ [tv]"
    using assms upto_rec1 [of v tv] upto_rec2 [of "v + 1" tv] by simp
  then show "map (versionsOf info v target tv meta) [v .. tv] = sourceMetadata info v # map meta [v + 1 .. tv - 1] @ [target]"
    and "map (versionsOf info tv target v meta) [v .. tv] = target # map meta [v + 1 .. tv - 1] @ [sourceMetadata info tv]"
    using assms by (auto simp: versionsOf_def)
qed

lemma chainMigrations_migrated:
  assumes "a \<le> b" and "mode = UPGRADE \<or> mode = DOWNGRADE"
  shows "migrated sd subject topic mode ver (if mode = UPGRADE then [a + 1 .. b] else rev [a + 1 .. b]) msg w
    (executeMigrations sd (chainMigrations mode (map ver [a .. b])) subject topic msg w)"
proof -
  have "executeMigrations sd (chainMigrations mode (map ver [a .. b])) subject topic =
      executeMigrations sd (map (versionStep mode ver) (if mode = UPGRADE then [a + 1 .. b] else rev [a + 1 .. b])) subject topic"
    unfolding chainMigrations_run [OF assms(2)] everyStep_versions [OF assms(1)] using assms(2) by (auto simp: rev_map)
  then show ?thesis by (simp only: executeMigrations_migrated)
qed

text \<open>
  C24. A message written with version v of a subject reaches a reader that asks for version tv through every version
  between them. Upgrading, it passes the rule engine (migration phase, upgrade rules) once for each of the versions v + 1,
  ..., tv, in ascending order, each time from the version below to that version; downgrading, once for each of
  v, v - 1, ..., tv + 1 in descending order, from that version to the one below. What one version
  returns is what the next one gets, and the first error ends it. The code leaves out versions without
  rules of that mode, which makes no difference.
\<close>

theorem migrations_run_every_version:
  assumes "cl_getVersion cl subject info False True s = (s, Inr v)"
    and "sm_version target = Some tv" and "v \<noteq> tv"
    and "\<And>i. min v tv < i \<Longrightarrow> i < max v tv \<Longrightarrow> cl_getSchemaMetadata cl subject i True fmt s = (s, Inr (meta i))"
  shows "\<exists>ms. getMigrations cl subject info target fmt s = (s, Inr ms) \<and>
    (\<forall>msg w. migrated sd subject topic (if v < tv then UPGRADE else DOWNGRADE) (versionsOf info v target tv meta)
       (if v < tv then [v + 1 .. tv] else rev [tv + 1 .. v]) msg w
       (executeMigrations sd ms subject topic msg w))"
proof (cases "v < tv")
  case True
  then have "getMigrations cl subject info target fmt s = (s, Inr (chainMigrations UPGRADE (map (versionsOf info v target tv meta) [v .. tv])))"
    using assms getSchemasBetween_pure [of v tv cl subject fmt s meta] by (simp add: getMigrations_def m_bind_apply versionsOf_between)
  with True chainMigrations_migrated [of v tv UPGRADE sd subject topic "versionsOf info v target tv meta"] show ?thesis
    by simp
next
  case False
  then have less: "tv < v" using assms(3) by simp
  then have "getMigrations cl subject info target fmt s = (s, Inr (chainMigrations DOWNGRADE (map (versionsOf info v target tv meta) [tv .. v])))"
    using assms getSchemasBetween_pure [of tv v cl subject fmt s meta] by (simp add: getMigrations_def m_bind_apply versionsOf_between)
  with less chainMigrations_migrated [of tv v DOWNGRADE sd subject topic "versionsOf info v target tv meta"] show ?thesis
    by simp
qed

definition sample_meta :: "int \<Rightarrow> schema_metadata" where
  "sample_meta v = spread_schema (Some v) None None (Some v) (sample_schema [])"

definition sample_client :: "(int \<Rightarrow> schema_metadata) \<Rightarrow> int \<Rightarrow> nat client" where
  "sample_client meta v =
     \<lparr>cl_registerFullResponse = (\<lambda>sub i n. m_throw (Error [])),
      cl_getBySubjectAndId = (\<lambda>sub i f. m_throw (Error [])),
      cl_getByGuid = (\<lambda>g f. m_throw (Error [])),
      cl_getIdFullResponse = (\<lambda>sub i n. m_throw (Error [])),
      cl_getLatestSchemaMetadata = (\<lambda>sub f. m_throw (Error [])),
      cl_getSchemaMetadata = (\<lambda>sub v d f. m_return (meta v)),
      cl_getLatestWithMetadata = (\<lambda>sub md d f. m_throw (Error [])),
      cl_getVersion = (\<lambda>sub i n d. m_return v),
      cl_getAssociationsByResourceName = (\<lambda>a b c d e f g. m_return [])\<rparr>"

text \<open>Versions 2 and 3 have an upgrade rule each, which adds one.\<close>

definition upgrade_meta :: "int \<Rightarrow> schema_metadata" where
  "upgrade_meta v = spread_schema (Some v) None None (Some v)
     ((sample_schema [])\<lparr>si_ruleSet := Some \<lparr>migrationRules = Some [sample_rule ''up'' ''TRANSFORM'' UPGRADE], domainRules = None,
        encodingRules = None, enableAt = None\<rparr>\<rparr>)"

definition upgrade_serde :: "(nat, nat) serde" where
  "upgrade_serde = sample_serde (\<lambda>ctx m. m_return (bump m))"

theorem migrations_run_every_version_witness:
  "\<exists>ms. getMigrations (sample_client upgrade_meta 1) ''s'' (sample_schema []) (upgrade_meta 3) None 0 = (0, Inr ms) \<and>
    length ms = 2 \<and> executeMigrations upgrade_serde ms ''s'' ''t'' (JVal 5) 0 = (0, Inr (JVal 7)) \<and>
    migrated upgrade_serde ''s'' ''t'' UPGRADE (versionsOf (sample_schema []) 1 (upgrade_meta 3) 3 upgrade_meta) [2, 3] (JVal 5) 0
      (0, Inr (JVal 7))"
proof -
  obtain ms where ms: "getMigrations (sample_client upgrade_meta 1) ''s'' (sample_schema []) (upgrade_meta 3) None 0 = (0, Inr ms)"
      and run: "\<And>msg w. migrated upgrade_serde ''s'' ''t'' UPGRADE (versionsOf (sample_schema []) 1 (upgrade_meta 3) 3 upgrade_meta)
        [1 + 1 .. 3] msg w (executeMigrations upgrade_serde ms ''s'' ''t'' msg w)"
    using migrations_run_every_version [of "sample_client upgrade_meta 1" "''s''" "sample_schema []" 0 1 "upgrade_meta 3" 3 None upgrade_meta
        upgrade_serde "''t''"]
    by (auto simp: sample_client_def upgrade_meta_def)
  have up: "[1 + 1 .. 3] = [2, 3 :: int]" by (simp add: upto_rec1)
  have "getMigrations (sample_client upgrade_meta 1) ''s'' (sample_schema []) (upgrade_meta 3) None 0 =
      (0, Inr (map (versionStep UPGRADE (versionsOf (sample_schema []) 1 (upgrade_meta 3) 3 upgrade_meta)) [2, 3]))"
    by code_simp
  moreover have "executeMigrations upgrade_serde
      (map (versionStep UPGRADE (versionsOf (sample_schema []) 1 (upgrade_meta 3) 3 upgrade_meta)) [2, 3]) ''s'' ''t'' (JVal 5) 0 =
      (0, Inr (JVal 7))"
    by code_simp
  ultimately show ?thesis using ms run [of "JVal 5" 0] up by simp
qed

section \<open>References resolve\<close>

definition refsOf :: "'a schema_info_scheme \<Rightarrow> reference list" where
  "refsOf i = (case si_references i of None \<Rightarrow> [] | Some rs \<Rightarrow> rs)"

text \<open>The references reached from a list of references, given what the registry returns.\<close>

inductive reached :: "(reference \<Rightarrow> schema_metadata) \<Rightarrow> reference list \<Rightarrow> reference \<Rightarrow> bool"
  for look where
  direct: "ref \<in> set refs \<Longrightarrow> reached look refs ref"
| nested: "ref \<in> set refs \<Longrightarrow> reached look (refsOf (look ref)) ref' \<Longrightarrow> reached look refs ref'"

lemma reached_Cons:
  "reached look (ref # refs) r \<Longrightarrow> r = ref \<or> reached look (refsOf (look ref)) r \<or> reached look refs r"
  by (erule reached.cases) (auto intro: reached.intros)

lemma resolveRefList_terminates:
  assumes closed: "\<And>ref ref'. ref \<in> R \<Longrightarrow> ref' \<in> set (refsOf (look ref)) \<Longrightarrow> ref' \<in> R \<and> rank ref' < (rank ref :: nat)"
    and ans: "\<And>ref f. ref \<in> R \<Longrightarrow>
        cl_getSchemaMetadata cl (ref_subject ref) (ref_version ref) True f s = (s, Inr (look ref))"
  shows "set refs \<subseteq> R \<Longrightarrow> \<forall>ref \<in> set refs. rank ref < k \<Longrightarrow>
    \<exists>n deps'. (\<forall>m \<ge> n. resolveRefList m cl refs deps fmt s = Some (s, Inr deps')) \<and>
      fst ` set deps \<subseteq> fst ` set deps' \<and> (\<forall>ref. reached look refs ref \<longrightarrow> ref_name ref \<in> fst ` set deps')"
proof (induction k arbitrary: refs deps fmt)
  case 0
  then show ?case by (intro exI [of _ 0] exI [of _ deps]) (auto elim: reached.cases)
next
  case (Suc k)
  from Suc.prems show ?case
  proof (induction refs arbitrary: deps)
    case Nil
    then show ?case by (intro exI [of _ 0] exI [of _ deps]) (auto elim: reached.cases)
  next
    case (Cons ref refs)
    let ?kids = "refsOf (look ref)"
    let ?deps0 = "jm_set (ref_name ref) (si_schema (look ref)) deps"
    have kids: "set ?kids \<subseteq> R" "\<forall>r \<in> set ?kids. rank r < k"
      using Cons.prems closed [of ref] by (auto intro: order.strict_trans2 simp: less_Suc_eq_le)
    obtain n1 d1 where n1: "\<And>m. n1 \<le> m \<Longrightarrow> resolveRefList m cl ?kids ?deps0 None s = Some (s, Inr d1)"
        "fst ` set ?deps0 \<subseteq> fst ` set d1" "\<And>r. reached look ?kids r \<Longrightarrow> ref_name r \<in> fst ` set d1"
      using Suc.IH [OF kids, of ?deps0 None] by auto
    obtain n2 d2 where n2: "\<And>m. n2 \<le> m \<Longrightarrow> resolveRefList m cl refs d1 fmt s = Some (s, Inr d2)"
        "fst ` set d1 \<subseteq> fst ` set d2" "\<And>r. reached look refs r \<Longrightarrow> ref_name r \<in> fst ` set d2"
      using Cons.IH [of d1] Cons.prems by auto
    have "resolveRefList m cl (ref # refs) deps fmt s = Some (s, Inr d2)" if m: "Suc (max n1 n2) \<le> m" for m
    proof -
      obtain m' where "m = Suc m'" "n1 \<le> m'" "n2 \<le> m'"
        using m by (cases m) auto
      with Cons.prems(1) ans [of ref fmt] n1(1) n2(1) show ?thesis
        by (simp add: refsOf_def)
    qed
    moreover have "fst ` set deps \<subseteq> fst ` set d2" "ref_name ref \<in> fst ` set d2"
      using n1(2) n2(2) unfolding dom_update by blast+
    moreover have "ref_name r \<in> fst ` set d2" if "reached look (ref # refs) r" for r
      using reached_Cons [OF that] n1(3) n2(2,3) \<open>ref_name ref \<in> fst ` set d2\<close> by auto
    ultimately show ?case by blast
  qed
qed

text \<open>
  C25. When the references among the schemas of the registry have no cycle, resolving the
  references of a schema ends, and the map it returns has an entry for every reference that is
  reached from the schema, directly or through other schemas.
\<close>

theorem resolveReferences_complete:
  assumes "\<And>ref ref'. ref \<in> R \<Longrightarrow> ref' \<in> set (refsOf (look ref)) \<Longrightarrow> ref' \<in> R \<and> rank ref' < (rank ref :: nat)"
    and "\<And>ref f. ref \<in> R \<Longrightarrow>
        cl_getSchemaMetadata cl (ref_subject ref) (ref_version ref) True f s = (s, Inr (look ref))"
    and "set (refsOf schema) \<subseteq> R"
  shows "\<exists>n deps'. (\<forall>m \<ge> n. resolveReferences m cl schema deps fmt s = Some (s, Inr deps')) \<and>
    (\<forall>ref. reached look (refsOf schema) ref \<longrightarrow> ref_name ref \<in> fst ` set deps')"
proof -
  have k: "\<forall>ref \<in> set (refsOf schema). rank ref < Suc (Max (rank ` set (refsOf schema)))"
    by (auto simp: less_Suc_eq_le intro!: Max_ge)
  have "resolveReferences m cl schema deps fmt s = resolveRefList m cl (refsOf schema) deps fmt s" for m
    by (simp add: resolveReferences_def refsOf_def split: option.splits)
  with resolveRefList_terminates [of R look rank cl s "refsOf schema" _ deps fmt, OF assms k]
  show ?thesis by auto
qed

definition refA :: reference where
  "refA = \<lparr>ref_name = ''a'', ref_subject = ''A'', ref_version = 1\<rparr>"

definition refB :: reference where
  "refB = \<lparr>ref_name = ''b'', ref_subject = ''B'', ref_version = 2\<rparr>"

definition ref_meta :: "int \<Rightarrow> schema_metadata" where
  "ref_meta v = (sample_meta v)\<lparr>si_references := if v = 1 then Some [refB] else None\<rparr>"

theorem resolveReferences_complete_witness:
  "\<exists>n deps'. (\<forall>m \<ge> n. resolveReferences m (sample_client ref_meta 1)
      ((sample_schema [])\<lparr>si_references := Some [refA]\<rparr>) [] None 0 = Some (0, Inr deps')) \<and>
    (\<forall>ref. reached (\<lambda>r. ref_meta (ref_version r)) (refsOf ((sample_schema [])\<lparr>si_references := Some [refA]\<rparr>)) ref
       \<longrightarrow> ref_name ref \<in> fst ` set deps')"
  by (rule resolveReferences_complete [where R = "{refA, refB}" and rank = "\<lambda>r. if r = refA then 1 else 0"])
     (auto simp: refsOf_def ref_meta_def refA_def refB_def sample_client_def sample_meta_def spread_schema_def
        sample_schema_def)

end
