(* ===== verification/Subject_Name.thy ===== *)
theory Subject_Name
  imports Schema_Id Client_Interface Lru_Cache
begin

text \<open>
  The subject name strategies of \<open>serde.ts\<close>: by topic, by record, by both, and by the association
  the schema registry keeps for a topic, which falls back to one of the others and caches what
  it finds.
\<close>

datatype subject_name_strategy_type =
  S_NONE | S_TOPIC | S_RECORD | S_TOPIC_RECORD | S_ASSOCIATED

text \<open>A strategy may call the registry; the absent schema is \<open>None\<close>.\<close>

type_synonym 'c strategy = "string \<Rightarrow> serde_type \<Rightarrow> schema_info option \<Rightarrow> ('c, string) meth"

definition TopicNameStrategy :: "string \<Rightarrow> serde_type \<Rightarrow> string" where
  "TopicNameStrategy topic serdeType = topic @ (if serdeType = KEY then ''-key'' else ''-value'')"

definition RecordNameStrategy :: "(schema_info \<Rightarrow> ('c, string) meth) \<Rightarrow> 'c strategy" where
  "RecordNameStrategy getRecordName topic serdeType schema =
     (case schema of None \<Rightarrow> m_return [] | Some i \<Rightarrow> getRecordName i)"

definition TopicRecordNameStrategy :: "(schema_info \<Rightarrow> ('c, string) meth) \<Rightarrow> 'c strategy" where
  "TopicRecordNameStrategy getRecordName topic serdeType schema =
     (case schema of
        None \<Rightarrow> m_return []
      | Some i \<Rightarrow> m_bind (getRecordName i) (\<lambda>recordName. m_return (topic @ ''-'' @ recordName)))"

definition topic_strategy :: "'c strategy" where
  "topic_strategy topic serdeType schema = m_return (TopicNameStrategy topic serdeType)"

definition strategyFromType ::
    "subject_name_strategy_type \<Rightarrow> (schema_info \<Rightarrow> ('c, string) meth) option \<Rightarrow> 'c strategy option result" where
  "strategyFromType type getRecordName =
     (case type of
        S_NONE \<Rightarrow> Inr None
      | S_TOPIC \<Rightarrow> Inr (Some topic_strategy)
      | S_RECORD \<Rightarrow>
          (case getRecordName of
             None \<Rightarrow> Inl (SerializationError ''RecordNameFunc is required for RECORD strategy'')
           | Some f \<Rightarrow> Inr (Some (RecordNameStrategy f)))
      | S_TOPIC_RECORD \<Rightarrow>
          (case getRecordName of
             None \<Rightarrow> Inl (SerializationError ''RecordNameFunc is required for TOPIC_RECORD strategy'')
           | Some f \<Rightarrow> Inr (Some (TopicRecordNameStrategy f)))
      | S_ASSOCIATED \<Rightarrow> Inr (Some topic_strategy))"

section \<open>Associated names\<close>

definition KAFKA_CLUSTER_ID :: string where
  "KAFKA_CLUSTER_ID = ''subject.name.strategy.kafka.cluster.id''"

definition NAMESPACE_WILDCARD :: string where
  "NAMESPACE_WILDCARD = ''-''"

definition FALLBACK_TYPE :: string where
  "FALLBACK_TYPE = ''subject.name.strategy.fallback.type''"

definition strategyTypeOf :: "string \<Rightarrow> subject_name_strategy_type option" where
  "strategyTypeOf s =
     (if s = ''NONE'' then Some S_NONE else if s = ''TOPIC'' then Some S_TOPIC
      else if s = ''RECORD'' then Some S_RECORD else if s = ''TOPIC_RECORD'' then Some S_TOPIC_RECORD
      else if s = ''ASSOCIATED'' then Some S_ASSOCIATED else None)"

text \<open>The object without its cache, which is part of the state the methods work on.\<close>

record 'c associated_strategy =
  as_fallbackStrategy :: "'c strategy option"
  as_kafkaClusterId :: "string option"
  as_clusterIdResolver :: "('c, string option) meth option"

definition newAssociatedNameStrategy ::
    "(string \<times> string) list \<Rightarrow> (schema_info \<Rightarrow> ('c, string) meth) option \<Rightarrow> 'c associated_strategy result" where
  "newAssociatedNameStrategy config getRecordName =
     (let configured = map_of config KAFKA_CLUSTER_ID;
          clusterId = (case configured of Some s \<Rightarrow> if s \<noteq> [] then Some s else None | None \<Rightarrow> None);
          fallback = (case map_of config FALLBACK_TYPE of Some s \<Rightarrow> map upper_char s | None \<Rightarrow> ''TOPIC'')
      in case strategyTypeOf fallback of
           None \<Rightarrow> Inl (SerializationError (''Invalid value for '' @ FALLBACK_TYPE @ '': '' @ fallback))
         | Some t \<Rightarrow>
             if t = S_ASSOCIATED then Inl (SerializationError ''ASSOCIATED cannot be used as fallback strategy'')
             else res_bind (strategyFromType t getRecordName) (\<lambda>st.
                    Inr \<lparr>as_fallbackStrategy = st, as_kafkaClusterId = clusterId, as_clusterIdResolver = None\<rparr>))"

definition setClusterIdResolver ::
    "('c, string option) meth \<Rightarrow> 'c associated_strategy \<Rightarrow> 'c associated_strategy" where
  "setClusterIdResolver resolver a =
     (if as_kafkaClusterId a \<noteq> None then a else a\<lparr>as_clusterIdResolver := Some resolver\<rparr>)"

definition makeCacheKey :: "(json_key \<Rightarrow> 'k) \<Rightarrow> string \<Rightarrow> bool \<Rightarrow> schema_info option \<Rightarrow> 'k" where
  "makeCacheKey stringify topic isKey schema = stringify (KTopicSchema topic isKey (map_option si_schema schema))"

text \<open>\<open>messageOf\<close> is the text of an error, which the message of the new error ends with.\<close>

definition resolveClusterId :: "(js_error \<Rightarrow> string) \<Rightarrow> 'c associated_strategy \<Rightarrow> ('c, string) meth" where
  "resolveClusterId messageOf a =
     (case as_kafkaClusterId a of
        Some i \<Rightarrow> m_return i
      | None \<Rightarrow>
          (case as_clusterIdResolver a of
             None \<Rightarrow> m_return NAMESPACE_WILDCARD
           | Some resolver \<Rightarrow>
               m_bind (m_catch resolver (\<lambda>e. m_throw (SerializationError
                   (''associated name strategy: could not resolve the Kafka cluster id, which typically means '' @
                    ''the client has not reached a broker yet; set '' @ KAFKA_CLUSTER_ID @
                    '' to supply it explicitly: '' @ messageOf e))))
                 (\<lambda>i. case i of
                        Some (c # s) \<Rightarrow> m_return (c # s)
                      | _ \<Rightarrow> m_throw (SerializationError
                          (''associated name strategy: the Kafka cluster id resolved to an empty string; '' @
                           ''set '' @ KAFKA_CLUSTER_ID @ '' to supply it explicitly'')))))"

fun is_404 :: "js_error \<Rightarrow> bool" where
  "is_404 (RestError m status code) \<longleftrightarrow> status = 404"
| "is_404 e \<longleftrightarrow> False"

definition loadSubjectName ::
    "(js_error \<Rightarrow> string) \<Rightarrow> 'c client \<Rightarrow> 'c associated_strategy \<Rightarrow> 'c strategy" where
  "loadSubjectName messageOf cl a topic serdeType schema =
     m_bind (resolveClusterId messageOf a) (\<lambda>ns.
       m_bind (m_catch
           (cl_getAssociationsByResourceName cl topic ns (Some ''topic'')
              [if serdeType = KEY then ''key'' else ''value''] None 0 (-1))
           (\<lambda>e. if is_404 e then m_return [] else m_throw e)) (\<lambda>associations.
         case associations of
           [x] \<Rightarrow> m_return (as_subject x)
         | [] \<Rightarrow>
             (case as_fallbackStrategy a of
                Some st \<Rightarrow> st topic serdeType schema
              | None \<Rightarrow> m_throw (SerializationError (''No associated subject found for topic '' @ topic)))
         | _ \<Rightarrow> m_throw (SerializationError (''Multiple associated subjects found for topic '' @ topic))))"

definition subjectNameStrategy ::
    "(json_key \<Rightarrow> 'k) \<Rightarrow> (('k, string) cache \<Rightarrow> ('k, string) cache) \<Rightarrow> (js_error \<Rightarrow> string) \<Rightarrow> 'c client
     \<Rightarrow> 'c associated_strategy \<Rightarrow> string option \<Rightarrow> serde_type \<Rightarrow> schema_info option
     \<Rightarrow> (('k, string) cache \<times> 'c, string) meth" where
  "subjectNameStrategy stringify keep messageOf cl a topic serdeType schema =
     (case topic of
        None \<Rightarrow> m_throw (SerializationError ''Topic cannot be null'')
      | Some t \<Rightarrow> read_through keep (makeCacheKey stringify t (serdeType = KEY) schema)
                    (loadSubjectName messageOf cl a t serdeType schema))"

section \<open>Which strategy a serde uses\<close>

datatype 'c configured_strategy = UserStrategy "'c strategy" | Associated "'c associated_strategy"

text \<open>
  \<open>configureSubjectNameStrategy\<close> on \<open>conf.subjectNameStrategy\<close>: the custom function of the user
  wins when no type is asked for; the associated strategy is the default; NONE leaves what is there.
\<close>

definition configureSubjectNameStrategy ::
    "subject_name_strategy_type option \<Rightarrow> (string \<times> string) list \<Rightarrow> (schema_info \<Rightarrow> ('c, string) meth)
     \<Rightarrow> 'c configured_strategy option \<Rightarrow> 'c configured_strategy option result" where
  "configureSubjectNameStrategy strategyType config getRecordName current =
     (if strategyType = None \<and> current \<noteq> None then Inr current
      else let effectiveType = (case strategyType of Some t \<Rightarrow> t | None \<Rightarrow> S_ASSOCIATED)
           in if effectiveType = S_ASSOCIATED
              then res_bind (newAssociatedNameStrategy config (Some getRecordName)) (\<lambda>a. Inr (Some (Associated a)))
              else res_bind (strategyFromType effectiveType (Some getRecordName)) (\<lambda>st.
                     case st of Some f \<Rightarrow> Inr (Some (UserStrategy f)) | None \<Rightarrow> Inr current))"

section \<open>Properties\<close>

text \<open>
  The subject name of the topic strategy determines the topic and whether it is for keys or
  values: two topics, or the two sides of one, never share a subject.
\<close>

theorem TopicNameStrategy_inj:
  assumes "TopicNameStrategy t1 k1 = TopicNameStrategy t2 k2"
  shows "t1 = t2 \<and> k1 = k2"
proof -
  have "last (TopicNameStrategy t1 k1) = last (TopicNameStrategy t2 k2)"
    using assms by simp
  then have "k1 = k2"
    by (cases k1; cases k2) (auto simp: TopicNameStrategy_def)
  with assms show ?thesis by (simp add: TopicNameStrategy_def split: if_splits)
qed

theorem TopicNameStrategy_inj_witness:
  "TopicNameStrategy ''a'' KEY = ''a-key'' \<and> (''a'' = ''a'' \<and> KEY = KEY)"
  using TopicNameStrategy_inj [of "''a''" KEY "''a''" KEY] by (simp add: TopicNameStrategy_def)

lemma loadSubjectName_cases:
  assumes "resolveClusterId messageOf a s = (s1, Inr ns)"
    and "cl_getAssociationsByResourceName cl topic ns (Some ''topic'')
           [if k = KEY then ''key'' else ''value''] None 0 (-1) s1 = (s2, r)"
  shows "r = Inr [x] \<Longrightarrow> loadSubjectName messageOf cl a topic k schema s = (s2, Inr (as_subject x))"
    and "r = Inr [] \<or> (\<exists>m c. r = Inl (RestError m 404 c)) \<Longrightarrow> as_fallbackStrategy a = Some st \<Longrightarrow>
      loadSubjectName messageOf cl a topic k schema s = st topic k schema s2"
    and "r = Inr (x # y # zs) \<Longrightarrow> loadSubjectName messageOf cl a topic k schema s =
      (s2, Inl (SerializationError (''Multiple associated subjects found for topic '' @ topic)))"
  using assms by (auto simp: loadSubjectName_def m_bind_apply m_catch_def)

text \<open>One call after the other, errors included.\<close>

fun subjectNames ::
    "(json_key \<Rightarrow> 'k) \<Rightarrow> (('k, string) cache \<Rightarrow> ('k, string) cache) \<Rightarrow> (js_error \<Rightarrow> string) \<Rightarrow> 'c client
     \<Rightarrow> 'c associated_strategy \<Rightarrow> (string option \<times> serde_type \<times> schema_info option) list \<Rightarrow> ('k, string) cache \<times> 'c
     \<Rightarrow> (('k, string) cache \<times> 'c) \<times> string result list" where
  "subjectNames stringify keep messageOf cl a [] st = (st, [])"
| "subjectNames stringify keep messageOf cl a ((t, k, i) # calls) st =
     (case subjectNameStrategy stringify keep messageOf cl a t k i st of
        (st1, r) \<Rightarrow> (case subjectNames stringify keep messageOf cl a calls st1 of (st2, rs) \<Rightarrow> (st2, r # rs)))"

text \<open>A lookup without a cache.\<close>

definition freshSubjectName ::
    "(js_error \<Rightarrow> string) \<Rightarrow> 'c client \<Rightarrow> 'c associated_strategy \<Rightarrow> string option \<times> serde_type \<times> schema_info option \<Rightarrow> ('c, string) meth" where
  "freshSubjectName messageOf cl a = (\<lambda>(topic, k, schema).
     case topic of None \<Rightarrow> m_throw (SerializationError ''Topic cannot be null'') | Some t \<Rightarrow> loadSubjectName messageOf cl a t k schema)"

text \<open>The fallback reads nothing of a schema but its text, of which the cache key is made.\<close>

definition text_only :: "'c associated_strategy \<Rightarrow> bool" where
  "text_only a \<longleftrightarrow> (\<forall>st t k i j. as_fallbackStrategy a = Some st \<longrightarrow> map_option si_schema i = map_option si_schema j \<longrightarrow> st t k i = st t k j)"

lemma loadSubjectName_text:
  assumes "text_only a" and "map_option si_schema i = map_option si_schema j"
  shows "loadSubjectName messageOf cl a t k i = loadSubjectName messageOf cl a t k j"
proof (cases "as_fallbackStrategy a")
  case (Some st)
  then have "st t k i = st t k j" using assms unfolding text_only_def by blast
  with Some show ?thesis by (simp add: loadSubjectName_def cong: list.case_cong)
qed (simp add: loadSubjectName_def cong: list.case_cong)

lemma makeCacheKey_det:
  assumes "text_only a" and "inj_on stringify (range (\<lambda>(t, b, i). KTopicSchema t b i))"
    and "makeCacheKey stringify t (k = KEY) i = makeCacheKey stringify t' (k' = KEY) j"
  shows "loadSubjectName messageOf cl a t k i = loadSubjectName messageOf cl a t' k' j"
proof -
  have "t = t'" "(k = KEY) = (k' = KEY)" "map_option si_schema i = map_option si_schema j"
    using inj_onD [OF assms(2) assms(3) [unfolded makeCacheKey_def]] by (auto simp: image_iff)
  moreover from this(2) have "k = k'" by (cases k; cases k') auto
  ultimately show ?thesis using loadSubjectName_text [OF assms(1), of i j] by simp
qed

text \<open>The entries of the cache are what lookups give, as long as these do not change the registry.\<close>

abbreviation names_agree ::
    "(json_key \<Rightarrow> 'k) \<Rightarrow> (js_error \<Rightarrow> string) \<Rightarrow> 'c client \<Rightarrow> 'c associated_strategy \<Rightarrow> 'c \<Rightarrow> ('k, string) cache \<Rightarrow> bool" where
  "names_agree stringify messageOf cl a \<equiv>
     agrees (\<lambda>(t, k, i). makeCacheKey stringify t (k = KEY) i) (\<lambda>(t, k, i). loadSubjectName messageOf cl a t k i)"

lemma subjectNameStrategy_agrees:
  assumes "text_only a" and "inj_on stringify (range (\<lambda>(t, b, i). KTopicSchema t b i))" and "keeps_entries keep"
    and agree: "names_agree stringify messageOf cl a s c"
    and pure: "fst (freshSubjectName messageOf cl a (topic, k, schema) s) = s"
  shows "\<exists>c'. subjectNameStrategy stringify keep messageOf cl a topic k schema (c, s) =
      ((c', s), snd (freshSubjectName messageOf cl a (topic, k, schema) s)) \<and> names_agree stringify messageOf cl a s c'"
proof (cases topic)
  case None
  then show ?thesis using agree by (simp add: subjectNameStrategy_def freshSubjectName_def)
next
  case (Some t)
  let ?key = "\<lambda>(t, k, i). makeCacheKey stringify t (k = KEY) i"
  let ?load = "\<lambda>(t, k, i). loadSubjectName messageOf cl a t k i"
  have "?load (t, k, schema) = ?load b" if "?key (t, k, schema) = ?key b" for b
  proof -
    obtain t' k' j where b: "b = (t', k', j)" by (cases b)
    have "makeCacheKey stringify t (k = KEY) schema = makeCacheKey stringify t' (k' = KEY) j"
      using that by (simp add: b)
    from makeCacheKey_det [OF assms(1,2) this] show ?thesis by (simp add: b)
  qed
  from read_through_transparent [where key = ?key and load = ?load and a = "(t, k, schema)", OF assms(3) this agree]
  show ?thesis
    using pure Some by (simp add: subjectNameStrategy_def freshSubjectName_def)
qed

lemma subjectNames_agrees:
  assumes "text_only a" and "inj_on stringify (range (\<lambda>(t, b, i). KTopicSchema t b i))" and "keeps_entries keep"
    and "\<forall>call \<in> set calls. fst (freshSubjectName messageOf cl a call s) = s" and "names_agree stringify messageOf cl a s c"
  shows "\<exists>c'. subjectNames stringify keep messageOf cl a calls (c, s) =
      ((c', s), map (\<lambda>call. snd (freshSubjectName messageOf cl a call s)) calls)"
  using assms(4,5)
proof (induction calls arbitrary: c)
  case (Cons call calls)
  obtain t k i where call: "call = (t, k, i)" by (cases call)
  obtain c1 where "subjectNameStrategy stringify keep messageOf cl a t k i (c, s) =
      ((c1, s), snd (freshSubjectName messageOf cl a call s))" "names_agree stringify messageOf cl a s c1"
    using subjectNameStrategy_agrees [OF assms(1-3) Cons.prems(2), of t k i] Cons.prems(1) call by auto
  with Cons.IH [of c1] Cons.prems(1) show ?case by (auto simp: call)
qed simp

text \<open>
  C30. From a new associated strategy, whose cache is empty, any sequence of calls gives what lookups without a cache
  give, errors included, whatever entries the cache drops in between. This is for a registry whose
  associations do not change meanwhile: the lookups leave its state as it is, and nothing else acts on it. (The cache is
  never cleared: an entry outlives a change of the associations.) The fallback strategy is assumed to
  read the schema's text only, which is what the cache key is made of.
\<close>

theorem subject_names_are_fresh:
  assumes "text_only a" and "inj_on stringify (range (\<lambda>(t, b, i). KTopicSchema t b i))" and "keeps_entries keep"
    and "\<forall>call \<in> set calls. fst (freshSubjectName messageOf cl a call s) = s"
  shows "\<exists>c'. subjectNames stringify keep messageOf cl a calls ([], s) =
      ((c', s), map (\<lambda>call. snd (freshSubjectName messageOf cl a call s)) calls)"
  using subjectNames_agrees [OF assms] by (simp add: agrees_def)

text \<open>A registry with no associations, and a record name that does not depend on the schema.\<close>

definition plain_client :: "nat client" where
  "plain_client =
     \<lparr>cl_registerFullResponse = (\<lambda>sub i n. m_throw (Error [])),
      cl_getBySubjectAndId = (\<lambda>sub i f. m_throw (Error [])),
      cl_getByGuid = (\<lambda>g f. m_throw (Error [])),
      cl_getIdFullResponse = (\<lambda>sub i n. m_throw (Error [])),
      cl_getLatestSchemaMetadata = (\<lambda>sub f. m_throw (Error [])),
      cl_getSchemaMetadata = (\<lambda>sub v d f. m_throw (Error [])),
      cl_getLatestWithMetadata = (\<lambda>sub md d f. m_throw (Error [])),
      cl_getVersion = (\<lambda>sub i n d. m_throw (Error [])),
      cl_getAssociationsByResourceName = (\<lambda>a b c d e f g. m_return [])\<rparr>"

definition topic_fallback :: "nat associated_strategy" where
  "topic_fallback = \<lparr>as_fallbackStrategy = Some topic_strategy, as_kafkaClusterId = None,
     as_clusterIdResolver = None\<rparr>"

lemma plain_load: "loadSubjectName m plain_client topic_fallback t k i s = (s, Inr (TopicNameStrategy t k))"
  by (simp add: loadSubjectName_def resolveClusterId_def topic_fallback_def plain_client_def m_bind_apply
      m_catch_def topic_strategy_def)

theorem subject_names_are_fresh_witness:
  "\<exists>c'. subjectNames id id (\<lambda>e. []) plain_client topic_fallback
       [(Some ''orders'', KEY, None), (None, KEY, None), (Some ''orders'', KEY, None)] ([], 0) =
     ((c', 0), [Inr ''orders-key'', Inl (SerializationError ''Topic cannot be null''), Inr ''orders-key''])"
proof -
  have "text_only topic_fallback" by (simp add: text_only_def topic_fallback_def topic_strategy_def)
  from subject_names_are_fresh [OF this, of id id
      "[(Some ''orders'', KEY, None), (None, KEY, None), (Some ''orders'', KEY, None)]" "\<lambda>e. []" plain_client 0]
  show ?thesis
    by (simp add: keeps_entries_def freshSubjectName_def plain_load TopicNameStrategy_def)
qed

text \<open>
  An entry that is kept is the answer whatever the registry says by then.
\<close>

theorem cached_subject_is_kept:
  assumes "cache_get keep (makeCacheKey stringify t (k = KEY) i) c = Some subject"
  shows "subjectNameStrategy stringify keep messageOf cl a (Some t) k i (c, s) = ((c, s), Inr subject)"
  using assms by (simp add: subjectNameStrategy_def read_through_def)

end
