(* ===== verification/Mock_Client.thy ===== *)
theory Mock_Client
  imports Client_Interface "HOL-Library.List_Lexorder"
begin

text \<open>
  \<open>mock-schemaregistry-client.ts\<close>: the in-memory implementation of the interface \<open>Client\<close>, which
  the tests of the library and of its users run against. It keeps six insertion-ordered maps and a
  counter. The keys of three of them are JSON texts made by \<open>json-stringify-deterministic\<close> and taken
  apart again by \<open>JSON.parse\<close>: \<open>stringify\<close> and \<open>parse\<close> are parameters of the model, and so are the
  values that \<open>v4\<close> of the \<open>uuid\<close> package returns, in the order of its calls (\<open>uuids\<close>).
\<close>

section \<open>State\<close>

record version_entry =
  ve_version :: int
  ve_softDeleted :: bool

record info_entry =
  ie_info :: schema_info
  ie_softDeleted :: bool

record metadata_entry =
  me_metadata :: schema_metadata
  me_softDeleted :: bool

record association_entry =
  ae_resourceName :: string
  ae_resourceNamespace :: string
  ae_resourceType :: string
  ae_associations :: "association list"

record 'k mock_client =
  infoToSchemaCache :: "('k, metadata_entry) jsmap"
  idToSchemaCache :: "('k, info_entry) jsmap"
  guidToSchemaCache :: "(string, info_entry) jsmap"
  schemaToVersionCache :: "('k, version_entry) jsmap"
  configCache :: "(string, server_config) jsmap"
  associationCache :: "(string, association_entry) jsmap"
  counter :: int
  uuidsDrawn :: nat

definition newMockClient :: "'k mock_client" where
  "newMockClient = \<lparr>infoToSchemaCache = [], idToSchemaCache = [], guidToSchemaCache = [],
     schemaToVersionCache = [], configCache = [], associationCache = [], counter = 0, uuidsDrawn = 0\<rparr>"

text \<open>Properties of a parsed key; a property it does not have is \<open>None\<close>.\<close>

fun key_subject :: "json_key \<Rightarrow> string option" where
  "key_subject (KSubjectSchema sub i) = Some sub"
| "key_subject (KSubjectId sub n) = Some sub"
| "key_subject k = None"

fun key_id :: "json_key \<Rightarrow> int option" where
  "key_id (KSubjectId sub n) = Some n"
| "key_id k = None"

fun key_schema :: "json_key \<Rightarrow> schema_info option" where
  "key_schema (KSubjectSchema sub i) = Some i"
| "key_schema k = None"

definition notFound :: js_error where
  "notFound = RestError ''Schema not found'' 404 40400"

section \<open>Registration\<close>

definition allVersions :: "('k \<Rightarrow> json_key) \<Rightarrow> string \<Rightarrow> 'k mock_client \<Rightarrow> int list" where
  "allVersions parse subject c =
     map (ve_version \<circ> snd)
       (filter (\<lambda>(k, v). key_subject (parse k) = Some subject \<and> \<not> ve_softDeleted v) (schemaToVersionCache c))"

definition latestVersion :: "('k \<Rightarrow> json_key) \<Rightarrow> string \<Rightarrow> 'k mock_client \<Rightarrow> int" where
  "latestVersion parse subject c =
     (let versions = allVersions parse subject c in if versions = [] then -1 else last versions)"

definition generateVersion ::
    "(json_key \<Rightarrow> 'k) \<Rightarrow> ('k \<Rightarrow> json_key) \<Rightarrow> string \<Rightarrow> schema_info \<Rightarrow> 'k mock_client \<Rightarrow> 'k mock_client" where
  "generateVersion stringify parse subject schema c =
     (let versions = allVersions parse subject c;
          newVersion = (if versions = [] then 1 else last versions + 1)
      in c\<lparr>schemaToVersionCache := jm_set (stringify (KSubjectSchema subject (minimize schema)))
             \<lparr>ve_version = newVersion, ve_softDeleted = False\<rparr> (schemaToVersionCache c)\<rparr>)"

definition schemasEqual :: "(json_key \<Rightarrow> 'k) \<Rightarrow> schema_info \<Rightarrow> schema_info \<Rightarrow> bool" where
  "schemasEqual stringify schema1 schema2 \<longleftrightarrow> stringify (KSchema schema1) = stringify (KSchema schema2)"

text \<open>The id a subject has for a schema already (-1 if none), and the first GUID of the schema.\<close>

definition knownId :: "(json_key \<Rightarrow> 'k) \<Rightarrow> ('k \<Rightarrow> json_key) \<Rightarrow> string \<Rightarrow> schema_info \<Rightarrow> 'k mock_client \<Rightarrow> int" where
  "knownId stringify parse subject schema c =
     (case find (\<lambda>(k, v). key_subject (parse k) = Some subject \<and> schemasEqual stringify (ie_info v) schema)
             (idToSchemaCache c) of
        None \<Rightarrow> -1
      | Some (k, v) \<Rightarrow> (case key_id (parse k) of Some i \<Rightarrow> i | None \<Rightarrow> -1))"

definition knownGuid :: "(json_key \<Rightarrow> 'k) \<Rightarrow> schema_info \<Rightarrow> 'k mock_client \<Rightarrow> string" where
  "knownGuid stringify schema c =
     (case find (\<lambda>(g, v). schemasEqual stringify (ie_info v) schema) (guidToSchemaCache c) of
        None \<Rightarrow> [] | Some (g, v) \<Rightarrow> g)"

definition getIDFromRegistry ::
    "(json_key \<Rightarrow> 'k) \<Rightarrow> ('k \<Rightarrow> json_key) \<Rightarrow> (nat \<Rightarrow> string) \<Rightarrow> string \<Rightarrow> schema_info \<Rightarrow> 'k mock_client
     \<Rightarrow> (int \<times> string) \<times> 'k mock_client" where
  "getIDFromRegistry stringify parse uuids subject schema c =
     (let i = knownId stringify parse subject schema c;
          g = knownGuid stringify schema c;
          c1 = generateVersion stringify parse subject schema c
      in if i < 0
         then let n = counter c1 + 1; u = uuids (uuidsDrawn c1)
              in ((n, u),
                  c1\<lparr>counter := n, uuidsDrawn := uuidsDrawn c1 + 1,
                     idToSchemaCache := jm_set (stringify (KSubjectId subject n))
                       \<lparr>ie_info = schema, ie_softDeleted = False\<rparr> (idToSchemaCache c1),
                     guidToSchemaCache := jm_set u \<lparr>ie_info = schema, ie_softDeleted = False\<rparr>
                       (guidToSchemaCache c1)\<rparr>)
         else ((i, g), c1))"

definition registerFullResponse ::
    "(json_key \<Rightarrow> 'k) \<Rightarrow> ('k \<Rightarrow> json_key) \<Rightarrow> (nat \<Rightarrow> string) \<Rightarrow> string \<Rightarrow> schema_info \<Rightarrow> bool
     \<Rightarrow> ('k mock_client, schema_metadata) meth" where
  "registerFullResponse stringify parse uuids subject schema nz c =
     (let cacheKey = stringify (KSubjectSchema subject (minimize schema));
          fresh = (let ((i, g), c1) = getIDFromRegistry stringify parse uuids subject schema c
                   in if i = -1 then (c1, Inl (RestError ''Failed to retrieve schema ID from registry'' 422 42200))
                      else let md = spread_schema (Some i) (Some g) None None schema
                           in (c1\<lparr>infoToSchemaCache := jm_set cacheKey
                                    \<lparr>me_metadata = md, me_softDeleted = False\<rparr> (infoToSchemaCache c1)\<rparr>, Inr md))
      in case jm_get (infoToSchemaCache c) cacheKey of
           Some e \<Rightarrow> if \<not> me_softDeleted e then (c, Inr (me_metadata e)) else fresh
         | None \<Rightarrow> fresh)"

definition mock_register ::
    "(json_key \<Rightarrow> 'k) \<Rightarrow> ('k \<Rightarrow> json_key) \<Rightarrow> (nat \<Rightarrow> string) \<Rightarrow> string \<Rightarrow> schema_info \<Rightarrow> bool
     \<Rightarrow> ('k mock_client, int option) meth" where
  "mock_register stringify parse uuids subject schema nz =
     m_bind (registerFullResponse stringify parse uuids subject schema nz) (\<lambda>md. m_return (sm_id md))"

section \<open>Lookups\<close>

definition getBySubjectAndId ::
    "(json_key \<Rightarrow> 'k) \<Rightarrow> ('k \<Rightarrow> json_key) \<Rightarrow> string \<Rightarrow> int \<Rightarrow> string option \<Rightarrow> ('k mock_client, schema_info) meth" where
  "getBySubjectAndId stringify parse subject i fmt c =
     (if subject = []
      then (case find (\<lambda>(k, v). key_id (parse k) = Some i \<and> \<not> ie_softDeleted v) (idToSchemaCache c) of
              Some (k, v) \<Rightarrow> (c, Inr (ie_info v))
            | None \<Rightarrow> (c, Inl notFound))
      else case jm_get (idToSchemaCache c) (stringify (KSubjectId subject i)) of
             None \<Rightarrow> (c, Inl notFound)
           | Some e \<Rightarrow> if ie_softDeleted e then (c, Inl notFound) else (c, Inr (ie_info e)))"

definition getByGuid :: "string \<Rightarrow> string option \<Rightarrow> ('k mock_client, schema_info) meth" where
  "getByGuid guid fmt c =
     (case jm_get (guidToSchemaCache c) guid of
        None \<Rightarrow> (c, Inl notFound)
      | Some e \<Rightarrow> if ie_softDeleted e then (c, Inl notFound) else (c, Inr (ie_info e)))"

definition getIdFullResponse ::
    "(json_key \<Rightarrow> 'k) \<Rightarrow> string \<Rightarrow> schema_info \<Rightarrow> ('k mock_client, schema_metadata) meth" where
  "getIdFullResponse stringify subject schema c =
     (case jm_get (infoToSchemaCache c) (stringify (KSubjectSchema subject (minimize schema))) of
        None \<Rightarrow> (c, Inl notFound)
      | Some e \<Rightarrow> if me_softDeleted e then (c, Inl notFound) else (c, Inr (me_metadata e)))"

definition getId :: "(json_key \<Rightarrow> 'k) \<Rightarrow> string \<Rightarrow> schema_info \<Rightarrow> ('k mock_client, int option) meth" where
  "getId stringify subject schema =
     m_bind (getIdFullResponse stringify subject schema) (\<lambda>md. m_return (sm_id md))"

text \<open>
  The id of the first entry of the subject with the same schema text, and the first GUID with
  that text; -1 and the empty string when there is none.
\<close>

definition idByText :: "('k \<Rightarrow> json_key) \<Rightarrow> string \<Rightarrow> string \<Rightarrow> 'k mock_client \<Rightarrow> int" where
  "idByText parse subject schemaText c =
     (case find (\<lambda>(k, v). key_subject (parse k) = Some subject \<and> si_schema (ie_info v) = schemaText)
             (idToSchemaCache c) of
        None \<Rightarrow> -1
      | Some (k, v) \<Rightarrow> (case key_id (parse k) of Some i \<Rightarrow> i | None \<Rightarrow> -1))"

definition guidByText :: "string \<Rightarrow> 'k mock_client \<Rightarrow> string" where
  "guidByText schemaText c =
     (case find (\<lambda>(g, v). si_schema (ie_info v) = schemaText) (guidToSchemaCache c) of
        None \<Rightarrow> [] | Some (g, v) \<Rightarrow> g)"

definition getSchemaMetadata ::
    "('k \<Rightarrow> json_key) \<Rightarrow> string \<Rightarrow> int \<Rightarrow> bool \<Rightarrow> string option \<Rightarrow> ('k mock_client, schema_metadata) meth" where
  "getSchemaMetadata parse subject version deleted fmt c =
     (case find (\<lambda>(k, v). key_subject (parse k) = Some subject \<and> ve_version v = version)
             (schemaToVersionCache c) of
        None \<Rightarrow> (c, Inl notFound)
      | Some (k, v) \<Rightarrow>
          (case key_schema (parse k) of
             None \<Rightarrow> (c, Inl (TypeError ''Cannot read properties of undefined''))
           | Some schema \<Rightarrow>
               let i = idByText parse subject (si_schema schema) c; g = guidByText (si_schema schema) c
               in if i = -1 then (c, Inl notFound)
                  else if g = [] then (c, Inl notFound)
                  else (c, Inr (spread_schema (Some i) (Some g) (Some subject) (Some version) schema))))"

definition getLatestSchemaMetadata ::
    "('k \<Rightarrow> json_key) \<Rightarrow> string \<Rightarrow> string option \<Rightarrow> ('k mock_client, schema_metadata) meth" where
  "getLatestSchemaMetadata parse subject fmt c =
     (let version = latestVersion parse subject c
      in if version = -1 then (c, Inl (RestError ''No versions found for subject'' 404 40400))
         else getSchemaMetadata parse subject version False None c)"

text \<open>\<open>container[key]\<close> of an absent container is a \<open>TypeError\<close>, once there is a key to compare.\<close>

definition isSubset :: "(string \<times> string) list \<Rightarrow> (string \<times> string) list option \<Rightarrow> bool result" where
  "isSubset containee container =
     (if containee = [] then Inr True
      else case container of
             None \<Rightarrow> Inl (TypeError ''Cannot read properties of undefined'')
           | Some m \<Rightarrow> Inr (list_all (\<lambda>(k, v). map_of m k = Some v) containee))"

fun metadataMatches ::
    "('k \<Rightarrow> json_key) \<Rightarrow> string \<Rightarrow> (string \<times> string) list \<Rightarrow> bool \<Rightarrow> ('k \<times> version_entry) list
     \<Rightarrow> schema_metadata list result" where
  "metadataMatches parse subject md deleted [] = Inr []"
| "metadataMatches parse subject md deleted ((k, v) # es) =
     (let rest = metadataMatches parse subject md deleted es
      in if key_subject (parse k) = Some subject \<and> (\<not> ve_softDeleted v \<or> deleted)
         then case key_schema (parse k) of
                None \<Rightarrow> Inl (TypeError ''Cannot read properties of undefined'')
              | Some schema \<Rightarrow>
                  (case si_metadata schema of
                     None \<Rightarrow> rest
                   | Some smd \<Rightarrow>
                       res_bind (isSubset md (md_properties smd)) (\<lambda>b.
                         res_bind rest (\<lambda>rs.
                           Inr (if b then spread_schema None None (Some subject) (Some (ve_version v)) schema # rs
                                else rs))))
         else rest)"

text \<open>The first of the results with the greatest version.\<close>

definition latestOf :: "schema_metadata \<Rightarrow> schema_metadata list \<Rightarrow> schema_metadata" where
  "latestOf first results = fold (\<lambda>r latest. if the (sm_version r) > the (sm_version latest) then r else latest) results first"

definition getLatestWithMetadata ::
    "('k \<Rightarrow> json_key) \<Rightarrow> string \<Rightarrow> (string \<times> string) list \<Rightarrow> bool \<Rightarrow> string option
     \<Rightarrow> ('k mock_client, schema_metadata) meth" where
  "getLatestWithMetadata parse subject md deleted fmt c =
     (case metadataMatches parse subject md deleted (schemaToVersionCache c) of
        Inl e \<Rightarrow> (c, Inl e)
      | Inr [] \<Rightarrow> (c, Inl notFound)
      | Inr (r # rs) \<Rightarrow>
          let latest = latestOf r (r # rs); i = idByText parse subject (si_schema latest) c
          in if i = -1 then (c, Inl notFound) else (c, Inr (latest\<lparr>sm_id := Some i\<rparr>)))"

definition getAllVersions :: "('k \<Rightarrow> json_key) \<Rightarrow> string \<Rightarrow> ('k mock_client, int list) meth" where
  "getAllVersions parse subject c =
     (let results = allVersions parse subject c
      in if results = [] then (c, Inl (RestError ''No versions found for subject'' 404 40400)) else (c, Inr results))"

definition getVersion ::
    "(json_key \<Rightarrow> 'k) \<Rightarrow> string \<Rightarrow> schema_info \<Rightarrow> bool \<Rightarrow> bool \<Rightarrow> ('k mock_client, int) meth" where
  "getVersion stringify subject schema nz deleted c =
     (case jm_get (schemaToVersionCache c) (stringify (KSubjectSchema subject (minimize schema))) of
        None \<Rightarrow> (c, Inl notFound)
      | Some e \<Rightarrow> if ve_softDeleted e then (c, Inl notFound) else (c, Inr (ve_version e)))"

text \<open>\<open>sort()\<close> compares strings by their character codes.\<close>

definition getAllSubjects :: "('k \<Rightarrow> json_key) \<Rightarrow> ('k mock_client, string list) meth" where
  "getAllSubjects parse c =
     (let subjects = fold (\<lambda>(k, v) acc.
            case key_subject (parse k) of
              None \<Rightarrow> acc
            | Some sub \<Rightarrow> if \<not> ve_softDeleted v \<and> sub \<notin> set acc then acc @ [sub] else acc)
          (schemaToVersionCache c) []
      in (c, Inr (sort_key (map (of_char :: char \<Rightarrow> nat)) subjects)))"

section \<open>Deletion\<close>

definition deleteVersion :: "'k \<Rightarrow> int \<Rightarrow> bool \<Rightarrow> 'k mock_client \<Rightarrow> 'k mock_client" where
  "deleteVersion cacheKey version permanent c =
     c\<lparr>schemaToVersionCache :=
        (if permanent then jm_delete cacheKey (schemaToVersionCache c)
         else jm_set cacheKey \<lparr>ve_version = version, ve_softDeleted = True\<rparr> (schemaToVersionCache c))\<rparr>"

definition deleteInfo :: "'k \<Rightarrow> schema_info \<Rightarrow> bool \<Rightarrow> 'k mock_client \<Rightarrow> 'k mock_client" where
  "deleteInfo cacheKey info permanent c =
     c\<lparr>idToSchemaCache :=
        (if permanent then jm_delete cacheKey (idToSchemaCache c)
         else jm_set cacheKey \<lparr>ie_info = info, ie_softDeleted = True\<rparr> (idToSchemaCache c))\<rparr>"

definition deleteMetadata :: "'k \<Rightarrow> schema_metadata \<Rightarrow> bool \<Rightarrow> 'k mock_client \<Rightarrow> 'k mock_client" where
  "deleteMetadata cacheKey md permanent c =
     c\<lparr>infoToSchemaCache :=
        (if permanent then jm_delete cacheKey (infoToSchemaCache c)
         else jm_set cacheKey \<lparr>me_metadata = md, me_softDeleted = True\<rparr> (infoToSchemaCache c))\<rparr>"

text \<open>
  The three loops of \<open>deleteSubject\<close>. A loop over the entries of a map that deletes or resets the
  entry it is at sees every entry once, so it is a fold over the entries at its start.
\<close>

definition deleteSubject ::
    "('k \<Rightarrow> json_key) \<Rightarrow> string \<Rightarrow> bool \<Rightarrow> ('k mock_client, int list) meth" where
  "deleteSubject parse subject permanent c =
     (let c1 = fold (\<lambda>(k, v) c.
             if key_subject (parse k) = Some subject \<and> (permanent \<or> \<not> me_softDeleted v)
             then deleteMetadata k (me_metadata v) permanent c else c) (infoToSchemaCache c) c;
          hit = filter (\<lambda>(k, v). key_subject (parse k) = Some subject \<and> (permanent \<or> \<not> ve_softDeleted v))
                  (schemaToVersionCache c1);
          c2 = fold (\<lambda>(k, v). deleteVersion k (ve_version v) permanent) hit c1;
          c3 = c2\<lparr>configCache := jm_delete subject (configCache c2)\<rparr>;
          c4 = (if permanent
                then fold (\<lambda>(k, v) c.
                       if key_subject (parse k) = Some subject \<and> \<not> ie_softDeleted v
                       then deleteInfo k (ie_info v) permanent c else c) (idToSchemaCache c3) c3
                else c3)
      in (c4, Inr (map (ve_version \<circ> snd) hit)))"

text \<open>One step of the loop of \<open>deleteSubjectVersion\<close>, at an entry of the version.\<close>

definition deleteVersionStep ::
    "(json_key \<Rightarrow> 'k) \<Rightarrow> ('k \<Rightarrow> json_key) \<Rightarrow> string \<Rightarrow> int \<Rightarrow> bool \<Rightarrow> 'k \<Rightarrow> 'k mock_client \<Rightarrow> 'k mock_client" where
  "deleteVersionStep stringify parse subject version permanent k c =
     (let c1 = deleteVersion k version permanent c
      in case key_schema (parse k) of
           None \<Rightarrow> c1
         | Some schema \<Rightarrow>
             let ks = stringify (KSubjectSchema subject (minimize schema))
             in case jm_get (infoToSchemaCache c1) ks of
                  None \<Rightarrow> c1
                | Some e \<Rightarrow>
                    let c2 = deleteMetadata ks (me_metadata e) permanent c1
                    in case sm_id (me_metadata e) of
                         None \<Rightarrow> c2
                       | Some i \<Rightarrow>
                           let ki = stringify (KSubjectId subject i)
                           in if permanent
                              then case jm_get (idToSchemaCache c2) ki of
                                     None \<Rightarrow> c2
                                   | Some se \<Rightarrow> deleteInfo ki (ie_info se) permanent c2
                              else c2)"

definition deleteSubjectVersion ::
    "(json_key \<Rightarrow> 'k) \<Rightarrow> ('k \<Rightarrow> json_key) \<Rightarrow> string \<Rightarrow> int \<Rightarrow> bool \<Rightarrow> ('k mock_client, int) meth" where
  "deleteSubjectVersion stringify parse subject version permanent c =
     (fold (\<lambda>(k, v) c.
         if key_subject (parse k) = Some subject \<and> ve_version v = version
         then deleteVersionStep stringify parse subject version permanent k c else c)
       (schemaToVersionCache c) c, Inr version)"

section \<open>Compatibility and configuration\<close>

definition noSubject :: string where
  "noSubject = []"

definition emptyConfig :: server_config where
  "emptyConfig = \<lparr>cfg_alias = None, cfg_normalize = None, cfg_compatibility = None, compatibilityLevel = None,
     cfg_compatibilityGroup = None, cfg_defaultMetadata = None, cfg_overrideMetadata = None,
     cfg_defaultRuleSet = None, cfg_overrideRuleSet = None\<rparr>"

definition testSubjectCompatibility :: "string \<Rightarrow> schema_info \<Rightarrow> ('k mock_client, bool) meth" where
  "testSubjectCompatibility subject schema = m_throw (Error ''Unsupported operation'')"

definition testCompatibility :: "string \<Rightarrow> int \<Rightarrow> schema_info \<Rightarrow> ('k mock_client, bool) meth" where
  "testCompatibility subject version schema = m_throw (Error ''Unsupported operation'')"

text \<open>The level of a configuration that was set without one is \<open>undefined\<close>, hence an option.\<close>

definition lookupConfig :: "string \<Rightarrow> string \<Rightarrow> ('k mock_client, server_config) meth" where
  "lookupConfig subject message c =
     (case jm_get (configCache c) subject of
        None \<Rightarrow> (c, Inl (RestError message 404 40400)) | Some e \<Rightarrow> (c, Inr e))"

definition getCompatibility :: "string \<Rightarrow> ('k mock_client, compatibility option) meth" where
  "getCompatibility subject =
     m_bind (lookupConfig subject ''Subject not found'') (\<lambda>e. m_return (compatibilityLevel e))"

definition updateCompatibility :: "string \<Rightarrow> compatibility \<Rightarrow> ('k mock_client, compatibility) meth" where
  "updateCompatibility subject level c =
     (c\<lparr>configCache := jm_set subject (emptyConfig\<lparr>compatibilityLevel := Some level\<rparr>) (configCache c)\<rparr>, Inr level)"

definition getDefaultCompatibility :: "('k mock_client, compatibility option) meth" where
  "getDefaultCompatibility =
     m_bind (lookupConfig noSubject ''Default compatibility not found'') (\<lambda>e. m_return (compatibilityLevel e))"

definition updateDefaultCompatibility :: "compatibility \<Rightarrow> ('k mock_client, compatibility) meth" where
  "updateDefaultCompatibility = updateCompatibility noSubject"

definition getConfig :: "string \<Rightarrow> ('k mock_client, server_config) meth" where
  "getConfig subject = lookupConfig subject ''Subject not found''"

definition updateConfig :: "string \<Rightarrow> server_config \<Rightarrow> ('k mock_client, server_config) meth" where
  "updateConfig subject config c = (c\<lparr>configCache := jm_set subject config (configCache c)\<rparr>, Inr config)"

definition getDefaultConfig :: "('k mock_client, server_config) meth" where
  "getDefaultConfig = lookupConfig noSubject ''Default config not found''"

definition updateDefaultConfig :: "server_config \<Rightarrow> ('k mock_client, server_config) meth" where
  "updateDefaultConfig = updateConfig noSubject"

section \<open>Associations\<close>

text \<open>\<open>results.slice(offset, end)\<close>; a limit below one means no limit.\<close>

definition getAssociationsByResourceName ::
    "string \<Rightarrow> string \<Rightarrow> string option \<Rightarrow> string list \<Rightarrow> lifecycle_policy option \<Rightarrow> nat \<Rightarrow> int
     \<Rightarrow> ('k mock_client, association list) meth" where
  "getAssociationsByResourceName resourceName resourceNamespace resourceType associationTypes lifecycle offset limit c =
     (let entries = filter (\<lambda>(_, e). ae_resourceName e = resourceName \<and> ae_resourceNamespace e = resourceNamespace \<and>
                       (case resourceType of None \<Rightarrow> True | Some t \<Rightarrow> ae_resourceType e = t)) (associationCache c);
          results = concat (map (\<lambda>(_, e). filter (\<lambda>a.
                       (associationTypes = [] \<or> as_associationType a \<in> set associationTypes) \<and>
                       (case lifecycle of None \<Rightarrow> True | Some l \<Rightarrow> as_lifecycle a = Some l)) (ae_associations e)) entries);
          stop = (if limit \<ge> 1 then offset + nat limit else length results)
      in (c, Inr (js_slice offset stop results)))"

text \<open>Replace the association with the same subject and type, or append the new one.\<close>

definition putAssociation :: "association \<Rightarrow> association list \<Rightarrow> association list" where
  "putAssociation a as =
     (let i = length (takeWhile (\<lambda>b. \<not> (as_subject b = as_subject a \<and> as_associationType b = as_associationType a)) as)
      in if i < length as then as[i := a] else as @ [a])"

definition makeAssociation :: "string \<Rightarrow> string \<Rightarrow> string \<Rightarrow> string \<Rightarrow> association_info \<Rightarrow> association" where
  "makeAssociation resourceName resourceNamespace resourceId resourceType info =
     \<lparr>as_subject = str_or (ai_subject info) [], as_guid = None, as_resourceName = resourceName,
      as_resourceNamespace = resourceNamespace, as_resourceId = Some resourceId, as_resourceType = resourceType,
      as_associationType = str_or (ai_associationType info) ''value'', as_lifecycle = ai_lifecycle info,
      as_frozen = ai_frozen info\<rparr>"

definition associationResponse :: "association \<Rightarrow> association_info" where
  "associationResponse a =
     \<lparr>ai_subject = Some (as_subject a), ai_associationType = Some (as_associationType a),
      ai_lifecycle = as_lifecycle a, ai_frozen = as_frozen a, ai_schema = None\<rparr>"

text \<open>
  \<open>request.resourceId || v4()\<close> draws a UUID only when the request names no resource id. The entry
  is put into the map before the associations are added to it.
\<close>

definition createAssociation ::
    "(nat \<Rightarrow> string) \<Rightarrow> association_request \<Rightarrow> ('k mock_client, association_response) meth" where
  "createAssociation uuids request c =
     (let (resourceId, c0) = (case rq_resourceId request of
              Some (x # xs) \<Rightarrow> (x # xs, c)
            | _ \<Rightarrow> (uuids (uuidsDrawn c), c\<lparr>uuidsDrawn := uuidsDrawn c + 1\<rparr>));
          resourceName = str_or (rq_resourceName request) [];
          resourceNamespace = str_or (rq_resourceNamespace request) ''-'';
          resourceType = str_or (rq_resourceType request) ''topic'';
          entry = (case jm_get (associationCache c0) resourceId of
              Some e \<Rightarrow> e
            | None \<Rightarrow> \<lparr>ae_resourceName = resourceName, ae_resourceNamespace = resourceNamespace,
                       ae_resourceType = resourceType, ae_associations = []\<rparr>);
          made = map (makeAssociation resourceName resourceNamespace resourceId resourceType)
                   (case rq_associations request of None \<Rightarrow> [] | Some as \<Rightarrow> as);
          entry' = entry\<lparr>ae_associations := fold putAssociation made (ae_associations entry)\<rparr>
      in (c0\<lparr>associationCache := jm_set resourceId entry' (associationCache c0)\<rparr>,
          Inr \<lparr>rs_resourceName = resourceName, rs_resourceNamespace = resourceNamespace, rs_resourceId = resourceId,
               rs_resourceType = resourceType, rs_associations = map associationResponse made\<rparr>))"

definition deleteAssociations ::
    "string \<Rightarrow> string option \<Rightarrow> string list option \<Rightarrow> bool \<Rightarrow> ('k mock_client, unit) meth" where
  "deleteAssociations resourceId resourceType associationTypes cascadeLifecycle c =
     (case jm_get (associationCache c) resourceId of
        None \<Rightarrow> (c, Inr ())
      | Some e \<Rightarrow>
          if (case resourceType of None \<Rightarrow> False | Some t \<Rightarrow> ae_resourceType e \<noteq> t) then (c, Inr ())
          else if associationTypes = None \<or> associationTypes = Some []
          then (c\<lparr>associationCache := jm_delete resourceId (associationCache c)\<rparr>, Inr ())
          else let left = filter (\<lambda>a. as_associationType a \<notin> set (the associationTypes)) (ae_associations e)
               in if left = [] then (c\<lparr>associationCache := jm_delete resourceId (associationCache c)\<rparr>, Inr ())
                  else (c\<lparr>associationCache := jm_set resourceId (e\<lparr>ae_associations := left\<rparr>) (associationCache c)\<rparr>,
                        Inr ()))"

section \<open>The client object\<close>

definition MockClient :: "(json_key \<Rightarrow> 'k) \<Rightarrow> ('k \<Rightarrow> json_key) \<Rightarrow> (nat \<Rightarrow> string) \<Rightarrow> 'k mock_client client" where
  "MockClient stringify parse uuids =
     \<lparr>cl_registerFullResponse = registerFullResponse stringify parse uuids,
      cl_getBySubjectAndId = getBySubjectAndId stringify parse,
      cl_getByGuid = getByGuid,
      cl_getIdFullResponse = (\<lambda>subject schema nz. getIdFullResponse stringify subject schema),
      cl_getLatestSchemaMetadata = getLatestSchemaMetadata parse,
      cl_getSchemaMetadata = getSchemaMetadata parse,
      cl_getLatestWithMetadata = getLatestWithMetadata parse,
      cl_getVersion = getVersion stringify,
      cl_getAssociationsByResourceName = getAssociationsByResourceName\<rparr>"

end
