(* ===== verification/Mock_Invariant.thy ===== *)
theory Mock_Invariant
  imports Mock_Client
begin

text \<open>
  The invariant of the in-memory client: ids are positive, at most the counter, and belong to one
  subject each; every registered schema that is not deleted is found under its id. Every operation
  keeps it, so it holds in every state reached from a new client, and the client keeps the contract
  \<open>schema_registry\<close>. Two of the properties are about what goes wrong with versions after a
  soft delete.
\<close>

section \<open>Maps of entries\<close>

lemma jm_set_distinct_entry:
  "distinct (map fst m) \<Longrightarrow> p \<in> set (jm_set k v m) \<longleftrightarrow> p = (k, v) \<or> (p \<in> set m \<and> fst p \<noteq> k)"
  by (induction m) (auto simp: image_iff split: if_splits)

lemma jm_delete_entry_iff: "p \<in> set (jm_delete k m) \<longleftrightarrow> p \<in> set m \<and> fst p \<noteq> k"
  by (auto simp: AList.delete_eq)

lemma fold_proj: "(\<And>x c. proj (f x c) = g x (proj c)) \<Longrightarrow> proj (fold f xs c) = fold g xs (proj c)"
  by (induction xs arbitrary: c) simp_all

lemma fold_keep: "(\<And>x c. proj (f x c) = proj c) \<Longrightarrow> proj (fold f xs c) = proj c"
  by (induction xs arbitrary: c) simp_all

lemma fold_delete_entries:
  "set (fold (\<lambda>(k, v) m. if P k then jm_delete k m else m) es m) =
     {p \<in> set m. \<not> (P (fst p) \<and> fst p \<in> fst ` set es)}"
proof (induction es arbitrary: m)
  case Nil
  then show ?case by simp
next
  case (Cons e es)
  then show ?case by (cases e) (auto simp: jm_delete_entry_iff)
qed

section \<open>The invariant\<close>

definition entry_ok ::
    "(json_key \<Rightarrow> 'k) \<Rightarrow> ('k, info_entry) jsmap \<Rightarrow> int \<Rightarrow> 'k \<Rightarrow> metadata_entry \<Rightarrow> bool" where
  "entry_ok stringify ids cnt k e \<longleftrightarrow>
     (\<exists>sub i. k = stringify (KSubjectSchema sub (minimize (me_metadata e))) \<and>
        sm_id (me_metadata e) = Some i \<and> 0 < i \<and> i \<le> cnt \<and>
        (case jm_get ids (stringify (KSubjectId sub i)) of
           None \<Rightarrow> me_softDeleted e
         | Some x \<Rightarrow> x = \<lparr>ie_info = minimize (me_metadata e), ie_softDeleted = False\<rparr>))"

definition id_ok :: "(json_key \<Rightarrow> 'k) \<Rightarrow> int \<Rightarrow> 'k \<Rightarrow> info_entry \<Rightarrow> bool" where
  "id_ok stringify cnt k x \<longleftrightarrow>
     (\<exists>sub i. k = stringify (KSubjectId sub i) \<and> 0 < i \<and> i \<le> cnt) \<and> \<not> ie_softDeleted x"

definition ids_unique :: "('k \<Rightarrow> json_key) \<Rightarrow> ('k, info_entry) jsmap \<Rightarrow> bool" where
  "ids_unique parse ids \<longleftrightarrow>
     (\<forall>p \<in> set ids. \<forall>q \<in> set ids. key_id (parse (fst p)) = key_id (parse (fst q)) \<longrightarrow> fst p = fst q)"

definition mock_inv :: "(json_key \<Rightarrow> 'k) \<Rightarrow> ('k \<Rightarrow> json_key) \<Rightarrow> 'k mock_client \<Rightarrow> bool" where
  "mock_inv stringify parse c \<longleftrightarrow>
     0 \<le> counter c \<and>
     distinct (map fst (infoToSchemaCache c)) \<and> distinct (map fst (idToSchemaCache c)) \<and>
     (\<forall>p \<in> set (infoToSchemaCache c). entry_ok stringify (idToSchemaCache c) (counter c) (fst p) (snd p)) \<and>
     (\<forall>p \<in> set (idToSchemaCache c). id_ok stringify (counter c) (fst p) (snd p)) \<and>
     ids_unique parse (idToSchemaCache c)"

lemma mock_inv_cong:
  "infoToSchemaCache c = infoToSchemaCache d \<Longrightarrow> idToSchemaCache c = idToSchemaCache d \<Longrightarrow>
     counter c = counter d \<Longrightarrow> mock_inv stringify parse c = mock_inv stringify parse d"
  by (simp add: mock_inv_def)

lemma mock_inv_new: "mock_inv stringify parse newMockClient"
  by (simp add: mock_inv_def newMockClient_def ids_unique_def)

text \<open>What the code relies on of the packages: JSON keys are parsed back, and UUIDs are not empty.\<close>

locale json_codec =
  fixes stringify :: "json_key \<Rightarrow> 'k" and parse :: "'k \<Rightarrow> json_key" and uuids :: "nat \<Rightarrow> string"
  assumes parse_stringify [simp]: "parse (stringify k) = k"
    and uuids_nonempty: "uuids n \<noteq> []"
begin

lemma stringify_eq [simp]: "stringify k = stringify k' \<longleftrightarrow> k = k'"
  by (metis parse_stringify)

lemma entry_ok_parse: "entry_ok stringify ids cnt k e \<Longrightarrow> \<exists>sub. parse k = KSubjectSchema sub (minimize (me_metadata e))"
  by (auto simp: entry_ok_def)

lemma entry_ok_soft:
  "entry_ok stringify ids cnt k e \<Longrightarrow> entry_ok stringify ids cnt k \<lparr>me_metadata = me_metadata e, me_softDeleted = True\<rparr>"
  by (auto simp: entry_ok_def split: option.splits)

lemma entry_ok_mono:
  assumes "entry_ok stringify ids cnt k e" and "cnt \<le> cnt'"
    and "\<And>sub i. i \<le> cnt \<Longrightarrow> jm_get ids' (stringify (KSubjectId sub i)) = jm_get ids (stringify (KSubjectId sub i))"
  shows "entry_ok stringify ids' cnt' k e"
proof -
  obtain sub i where "k = stringify (KSubjectSchema sub (minimize (me_metadata e)))"
      "sm_id (me_metadata e) = Some i" "0 < i" "i \<le> cnt"
      "case jm_get ids (stringify (KSubjectId sub i)) of None \<Rightarrow> me_softDeleted e
       | Some x \<Rightarrow> x = \<lparr>ie_info = minimize (me_metadata e), ie_softDeleted = False\<rparr>"
    using assms(1) unfolding entry_ok_def by blast
  then show ?thesis
    unfolding entry_ok_def using assms(2,3) by (intro exI [of _ sub] exI [of _ i]) simp
qed

lemma inv_generateVersion:
  "mock_inv stringify parse (generateVersion stringify parse subject schema c) = mock_inv stringify parse c"
  by (rule mock_inv_cong) (simp_all add: generateVersion_def Let_def)

lemma inv_deleteVersion:
  "mock_inv stringify parse (deleteVersion k v permanent c) = mock_inv stringify parse c"
  by (rule mock_inv_cong) (simp_all add: deleteVersion_def)

lemma inv_put_info:
  assumes "mock_inv stringify parse c" and "entry_ok stringify (idToSchemaCache c) (counter c) k e"
  shows "mock_inv stringify parse (c\<lparr>infoToSchemaCache := jm_set k e (infoToSchemaCache c)\<rparr>)"
  using assms unfolding mock_inv_def
  by (auto simp: jm_set_distinct jm_set_distinct_entry)

lemma inv_remove_info:
  assumes "mock_inv stringify parse c"
  shows "mock_inv stringify parse (c\<lparr>infoToSchemaCache := jm_delete k (infoToSchemaCache c)\<rparr>)"
  using assms unfolding mock_inv_def by (auto simp: jm_delete_distinct jm_delete_entry_iff)

lemma inv_deleteMetadata:
  assumes "mock_inv stringify parse c"
    and "entry_ok stringify (idToSchemaCache c) (counter c) k \<lparr>me_metadata = md, me_softDeleted = True\<rparr>"
  shows "mock_inv stringify parse (deleteMetadata k md permanent c)"
  using assms inv_put_info inv_remove_info by (simp add: deleteMetadata_def)

lemma info_entry_ok:
  assumes "mock_inv stringify parse c" and "jm_get (infoToSchemaCache c) k = Some e"
  shows "entry_ok stringify (idToSchemaCache c) (counter c) k e"
  using assms map_of_SomeD [OF assms(2)] unfolding mock_inv_def by force

lemma id_entry_ok:
  assumes "mock_inv stringify parse c" and "jm_get (idToSchemaCache c) k = Some x"
  shows "id_ok stringify (counter c) k x"
  using assms map_of_SomeD [OF assms(2)] unfolding mock_inv_def by force

text \<open>An id entry may go when no entry of the info map points to it.\<close>

lemma inv_remove_id:
  assumes inv: "mock_inv stringify parse c"
    and free: "\<And>p sub i. p \<in> set (infoToSchemaCache c) \<Longrightarrow>
       parse (fst p) = KSubjectSchema sub (minimize (me_metadata (snd p))) \<Longrightarrow> sm_id (me_metadata (snd p)) = Some i \<Longrightarrow>
       k \<noteq> stringify (KSubjectId sub i)"
  shows "mock_inv stringify parse (c\<lparr>idToSchemaCache := jm_delete k (idToSchemaCache c)\<rparr>)"
proof -
  have "entry_ok stringify (jm_delete k (idToSchemaCache c)) (counter c) (fst p) (snd p)"
    if p: "p \<in> set (infoToSchemaCache c)" for p
  proof -
    obtain sub i where si: "fst p = stringify (KSubjectSchema sub (minimize (me_metadata (snd p))))"
        "sm_id (me_metadata (snd p)) = Some i" and
      ok: "entry_ok stringify (idToSchemaCache c) (counter c) (fst p) (snd p)"
      using inv p unfolding mock_inv_def entry_ok_def by blast
    then have "k \<noteq> stringify (KSubjectId sub i)"
      using free [OF p] by simp
    with ok si show ?thesis by (auto simp: entry_ok_def)
  qed
  with inv show ?thesis
    unfolding mock_inv_def ids_unique_def by (auto simp: jm_delete_distinct jm_delete_entry_iff)
qed

end

section \<open>Registering keeps the invariant\<close>

context json_codec
begin

lemma knownId_entry:
  assumes inv: "mock_inv stringify parse c" and i: "knownId stringify parse subject schema c = i" "0 \<le> i"
  shows "jm_get (idToSchemaCache c) (stringify (KSubjectId subject i)) =
      Some \<lparr>ie_info = schema, ie_softDeleted = False\<rparr> \<and> 0 < i \<and> i \<le> counter c"
proof -
  obtain k x where f: "find (\<lambda>(k, v). key_subject (parse k) = Some subject \<and> schemasEqual stringify (ie_info v) schema)
      (idToSchemaCache c) = Some (k, x)"
    using i by (auto simp: knownId_def split: option.splits)
  then have x: "(k, x) \<in> set (idToSchemaCache c)" "key_subject (parse k) = Some subject" "ie_info x = schema"
    by (auto simp: find_Some_iff schemasEqual_def dest: nth_mem)
  with inv have ok: "id_ok stringify (counter c) k x"
    unfolding mock_inv_def by force
  then obtain sub n where k: "k = stringify (KSubjectId sub n)" "0 < n" "n \<le> counter c" "\<not> ie_softDeleted x"
    by (auto simp: id_ok_def)
  with x f i have "sub = subject" "n = i"
    by (auto simp: knownId_def)
  moreover have "jm_get (idToSchemaCache c) k = Some x"
    using inv x(1) by (simp add: mock_inv_def)
  ultimately show ?thesis
    using k x(3) by (cases x) auto
qed

text \<open>Registering a schema under a new id.\<close>

lemma inv_new_id:
  assumes inv: "mock_inv stringify parse c" and n: "n = counter c + 1"
  shows "mock_inv stringify parse
    (c\<lparr>counter := n, uuidsDrawn := u, idToSchemaCache := jm_set (stringify (KSubjectId subject n))
        \<lparr>ie_info = schema, ie_softDeleted = False\<rparr> (idToSchemaCache c), guidToSchemaCache := g\<rparr>)"
proof -
  let ?k = "stringify (KSubjectId subject n)"
  let ?ids = "jm_set ?k \<lparr>ie_info = schema, ie_softDeleted = False\<rparr> (idToSchemaCache c)"
  have "entry_ok stringify ?ids n (fst p) (snd p)" if "p \<in> set (infoToSchemaCache c)" for p
  proof -
    have "entry_ok stringify (idToSchemaCache c) (counter c) (fst p) (snd p)"
      using inv that by (simp add: mock_inv_def)
    then show ?thesis
      by (rule entry_ok_mono) (use n in auto)
  qed
  moreover have "id_ok stringify n (fst p) (snd p)" if "p \<in> set ?ids" for p
  proof -
    have "p = (?k, \<lparr>ie_info = schema, ie_softDeleted = False\<rparr>) \<or> id_ok stringify (counter c) (fst p) (snd p)"
      using jm_set_entry [OF that] inv by (auto simp: mock_inv_def)
    then show ?thesis
      using n inv by (force simp: id_ok_def mock_inv_def)
  qed
  moreover have "ids_unique parse ?ids"
  proof -
    have old: "key_id (parse (fst p)) \<noteq> Some n" if "p \<in> set (idToSchemaCache c)" for p
      using that inv n by (force simp: mock_inv_def id_ok_def)
    then show ?thesis
      using inv by (auto simp: ids_unique_def mock_inv_def dest!: jm_set_entry) (metis fst_conv old)+
  qed
  ultimately show ?thesis
    using inv n by (auto simp: mock_inv_def jm_set_distinct)
qed

lemma getIDFromRegistry_ok:
  assumes inv: "mock_inv stringify parse c"
    and r: "getIDFromRegistry stringify parse uuids subject schema c = ((i, g), c1)"
  shows "mock_inv stringify parse c1 \<and> 0 < i \<and> i \<le> counter c1 \<and>
    jm_get (idToSchemaCache c1) (stringify (KSubjectId subject i)) =
      Some \<lparr>ie_info = schema, ie_softDeleted = False\<rparr>"
proof (cases "knownId stringify parse subject schema c < 0")
  case True
  let ?c = "generateVersion stringify parse subject schema c"
  have inv': "mock_inv stringify parse ?c"
    using inv by (simp add: inv_generateVersion)
  have "i = counter ?c + 1" and c1: "c1 = ?c\<lparr>counter := i, uuidsDrawn := uuidsDrawn ?c + 1,
      idToSchemaCache := jm_set (stringify (KSubjectId subject i)) \<lparr>ie_info = schema, ie_softDeleted = False\<rparr>
        (idToSchemaCache ?c),
      guidToSchemaCache := jm_set g \<lparr>ie_info = schema, ie_softDeleted = False\<rparr> (guidToSchemaCache ?c)\<rparr>"
    using r True by (auto simp: getIDFromRegistry_def Let_def)
  with inv_new_id [OF inv', of i] inv' show ?thesis
    by (auto simp: mock_inv_def)
next
  case False
  then have "i = knownId stringify parse subject schema c" "c1 = generateVersion stringify parse subject schema c"
    using r by (auto simp: getIDFromRegistry_def Let_def)
  with knownId_entry [OF inv, of subject schema i] False inv show ?thesis
    by (auto simp: inv_generateVersion) (simp_all add: generateVersion_def Let_def)
qed

lemma register_ok:
  assumes inv: "mock_inv stringify parse c"
    and r: "registerFullResponse stringify parse uuids subject schema nz c = (c', res)"
  shows "mock_inv stringify parse c' \<and>
    (\<exists>md i. res = Inr md \<and> sm_id md = Some i \<and> 0 < i \<and>
       jm_get (idToSchemaCache c') (stringify (KSubjectId subject i)) =
         Some \<lparr>ie_info = schema, ie_softDeleted = False\<rparr> \<and>
       jm_get (infoToSchemaCache c') (stringify (KSubjectSchema subject schema)) =
         Some \<lparr>me_metadata = md, me_softDeleted = False\<rparr>)"
proof (cases "\<exists>e. jm_get (infoToSchemaCache c) (stringify (KSubjectSchema subject schema)) = Some e \<and> \<not> me_softDeleted e")
  case True
  then obtain e where e: "jm_get (infoToSchemaCache c) (stringify (KSubjectSchema subject schema)) = Some e"
      "\<not> me_softDeleted e" by blast
  then have "c' = c" "res = Inr (me_metadata e)"
    using r by (simp_all add: registerFullResponse_def Let_def)
  with info_entry_ok [OF inv e(1)] e inv show ?thesis
    by (cases e) (auto simp: entry_ok_def split: option.splits)
next
  case False
  obtain i g c1 where g: "getIDFromRegistry stringify parse uuids subject schema c = ((i, g), c1)"
    by (metis prod.exhaust)
  note ok = getIDFromRegistry_ok [OF inv g]
  let ?md = "spread_schema (Some i) (Some g) None None schema"
  have c': "c' = c1\<lparr>infoToSchemaCache := jm_set (stringify (KSubjectSchema subject schema))
        \<lparr>me_metadata = ?md, me_softDeleted = False\<rparr> (infoToSchemaCache c1)\<rparr>" "res = Inr ?md"
    using r g False ok by (auto simp: registerFullResponse_def Let_def split: option.splits)
  moreover have "entry_ok stringify (idToSchemaCache c1) (counter c1) (stringify (KSubjectSchema subject schema))
      \<lparr>me_metadata = ?md, me_softDeleted = False\<rparr>"
    using ok by (auto simp: entry_ok_def)
  ultimately show ?thesis
    using ok inv_put_info [of c1] by auto
qed

end

section \<open>Deleting keeps the invariant\<close>

context json_codec
begin

lemma inv_deleteMetadata_fold:
  assumes "mock_inv stringify parse c" and "set es \<subseteq> set (infoToSchemaCache c)"
  shows "mock_inv stringify parse (fold (\<lambda>(k, v) c. if P k v then deleteMetadata k (me_metadata v) permanent c else c) es c)
    \<and> idToSchemaCache (fold (\<lambda>(k, v) c. if P k v then deleteMetadata k (me_metadata v) permanent c else c) es c)
        = idToSchemaCache c"
proof -
  let ?step = "\<lambda>(k, v) c. if P k v then deleteMetadata k (me_metadata v) permanent c else c"
  let ?ok = "\<lambda>d. mock_inv stringify parse d \<and> idToSchemaCache d = idToSchemaCache c \<and> counter d = counter c"
  have "?ok (fold ?step es c)"
  proof (rule fold_invariant [where Q = "\<lambda>p. p \<in> set (infoToSchemaCache c)"])
    fix p d assume p: "p \<in> set (infoToSchemaCache c)" and d: "?ok d"
    obtain k v where kv: "p = (k, v)" by (cases p)
    have "entry_ok stringify (idToSchemaCache c) (counter c) k v"
      using assms(1) p kv by (auto simp: mock_inv_def)
    then have "entry_ok stringify (idToSchemaCache d) (counter d) k \<lparr>me_metadata = me_metadata v, me_softDeleted = True\<rparr>"
      using d entry_ok_soft [of "idToSchemaCache c" "counter c" k v] by simp
    with d inv_deleteMetadata [of d k "me_metadata v" permanent] kv show "?ok (?step p d)"
      by (auto simp: deleteMetadata_def)
  qed (use assms in auto)
  then show ?thesis by simp
qed

lemma inv_deleteVersion_fold:
  "mock_inv stringify parse (fold (\<lambda>(k, v). deleteVersion k (ve_version v) permanent) es c) = mock_inv stringify parse c"
  by (rule mock_inv_cong; rule fold_keep) (auto simp: deleteVersion_def)

lemma info_deleteMetadata_fold:
  "infoToSchemaCache (fold (\<lambda>(k, v) c. if P k then deleteMetadata k (me_metadata v) True c else c) es c) =
     fold (\<lambda>(k, v) m. if P k then jm_delete k m else m) es (infoToSchemaCache c)"
  by (rule fold_proj) (auto simp: deleteMetadata_def)

lemma inv_deleteInfo_fold:
  assumes "mock_inv stringify parse c"
    and "\<And>p. p \<in> set (infoToSchemaCache c) \<Longrightarrow> key_subject (parse (fst p)) \<noteq> Some subject"
    and "set es \<subseteq> set (idToSchemaCache c)"
  shows "mock_inv stringify parse (fold (\<lambda>(k, v) c. if key_subject (parse k) = Some subject \<and> \<not> ie_softDeleted v
      then deleteInfo k (ie_info v) True c else c) es c)"
proof -
  let ?step = "\<lambda>(k, v) c. if key_subject (parse k) = Some subject \<and> \<not> ie_softDeleted v
      then deleteInfo k (ie_info v) True c else c"
  let ?ok = "\<lambda>d. mock_inv stringify parse d \<and> infoToSchemaCache d = infoToSchemaCache c"
  have "?ok (fold ?step es c)"
  proof (rule fold_invariant [where Q = "\<lambda>p. p \<in> set (idToSchemaCache c)"])
    fix p d assume p: "p \<in> set (idToSchemaCache c)" and d: "?ok d"
    obtain k v where kv: "p = (k, v)" by (cases p)
    show "?ok (?step p d)"
    proof (cases "key_subject (parse k) = Some subject \<and> \<not> ie_softDeleted v")
      case True
      have "mock_inv stringify parse (d\<lparr>idToSchemaCache := jm_delete k (idToSchemaCache d)\<rparr>)"
      proof (rule inv_remove_id)
        fix q sub i
        assume "q \<in> set (infoToSchemaCache d)" "parse (fst q) = KSubjectSchema sub (minimize (me_metadata (snd q)))"
        with assms(2) [of q] d have "sub \<noteq> subject" by auto
        with True show "k \<noteq> stringify (KSubjectId sub i)" by auto
      qed (use d in simp)
      with True d kv show ?thesis by (simp add: deleteInfo_def)
    qed (use d kv in auto)
  qed (use assms in auto)
  then show ?thesis by simp
qed

lemma inv_deleteSubject:
  assumes inv: "mock_inv stringify parse c"
  shows "mock_inv stringify parse (fst (deleteSubject parse subject permanent c))"
proof -
  define c1 where "c1 = fold (\<lambda>(k, v) c.
       if key_subject (parse k) = Some subject \<and> (permanent \<or> \<not> me_softDeleted v)
       then deleteMetadata k (me_metadata v) permanent c else c) (infoToSchemaCache c) c"
  define hit where "hit = filter (\<lambda>(k, v). key_subject (parse k) = Some subject \<and> (permanent \<or> \<not> ve_softDeleted v))
       (schemaToVersionCache c1)"
  define c2 where "c2 = fold (\<lambda>(k, v). deleteVersion k (ve_version v) permanent) hit c1"
  define c3 where "c3 = c2\<lparr>configCache := jm_delete subject (configCache c2)\<rparr>"
  have eq: "fst (deleteSubject parse subject permanent c) = (if permanent
      then fold (\<lambda>(k, v) c. if key_subject (parse k) = Some subject \<and> \<not> ie_softDeleted v
             then deleteInfo k (ie_info v) permanent c else c) (idToSchemaCache c3) c3
      else c3)"
    by (simp only: deleteSubject_def Let_def fst_conv c1_def c2_def c3_def hit_def)
  have "mock_inv stringify parse c1"
    unfolding c1_def by (rule conjunct1 [OF inv_deleteMetadata_fold [OF inv order_refl]])
  then have inv3: "mock_inv stringify parse c3"
    using inv_deleteVersion_fold [of permanent hit c1] mock_inv_cong [of c3 c2 stringify parse]
    by (simp add: c2_def c3_def)
  have info3: "infoToSchemaCache c3 = infoToSchemaCache c1"
    unfolding c3_def c2_def by (simp, rule fold_keep) (auto simp: deleteVersion_def)
  show ?thesis
  proof (cases permanent)
    case perm: True
    then have "infoToSchemaCache c1 = fold (\<lambda>(k, v) m. if key_subject (parse k) = Some subject then jm_delete k m else m)
        (infoToSchemaCache c) (infoToSchemaCache c)"
      unfolding c1_def eqTrueI [OF perm] using info_deleteMetadata_fold [of "\<lambda>k. key_subject (parse k) = Some subject"]
      by simp
    then have "key_subject (parse (fst p)) \<noteq> Some subject" if "p \<in> set (infoToSchemaCache c3)" for p
      using that by (auto simp: info3 fold_delete_entries)
    from inv_deleteInfo_fold [OF inv3 this order_refl] show ?thesis
      unfolding eqTrueI [OF perm] eq [unfolded eqTrueI [OF perm]] by simp
  next
    case False
    with inv3 show ?thesis
      unfolding eq by simp
  qed
qed

lemma inv_deleteVersionStep:
  assumes inv: "mock_inv stringify parse c"
  shows "mock_inv stringify parse (deleteVersionStep stringify parse subject version permanent k c)"
proof -
  define c1 where "c1 = deleteVersion k version permanent c"
  have inv1: "mock_inv stringify parse c1"
    using inv by (simp add: c1_def inv_deleteVersion)
  show ?thesis
  proof (cases "key_schema (parse k)")
    case None
    with inv1 show ?thesis by (simp add: deleteVersionStep_def c1_def Let_def)
  next
    case (Some schema)
    let ?ks = "stringify (KSubjectSchema subject schema)"
    show ?thesis
    proof (cases "jm_get (infoToSchemaCache c1) ?ks")
      case None
      with Some inv1 show ?thesis by (simp add: deleteVersionStep_def c1_def Let_def)
    next
      case e: (Some e)
      define c2 where "c2 = deleteMetadata ?ks (me_metadata e) permanent c1"
      note ok = info_entry_ok [OF inv1 e]
      obtain i where i: "sm_id (me_metadata e) = Some i" and sch: "minimize (me_metadata e) = schema"
        using ok by (auto simp: entry_ok_def)
      have inv2: "mock_inv stringify parse c2"
        unfolding c2_def using inv1 entry_ok_soft [OF ok] by (intro inv_deleteMetadata)
      have "mock_inv stringify parse (c2\<lparr>idToSchemaCache := jm_delete (stringify (KSubjectId subject i)) (idToSchemaCache c2)\<rparr>)"
        if perm: permanent and x: "jm_get (idToSchemaCache c2) (stringify (KSubjectId subject i)) = Some x" for x
      proof (rule inv_remove_id [OF inv2])
        fix q sub j
        assume q: "q \<in> set (infoToSchemaCache c2)" "parse (fst q) = KSubjectSchema sub (minimize (me_metadata (snd q)))"
          "sm_id (me_metadata (snd q)) = Some j"
        have q1: "q \<in> set (infoToSchemaCache c1)" "fst q \<noteq> ?ks" "idToSchemaCache c2 = idToSchemaCache c1"
          using q(1) perm by (auto simp: c2_def deleteMetadata_def jm_delete_entry_iff)
        have "entry_ok stringify (idToSchemaCache c1) (counter c1) (fst q) (snd q)"
          using inv1 q1(1) by (simp add: mock_inv_def)
        then have qk: "fst q = stringify (KSubjectSchema sub (minimize (me_metadata (snd q))))"
            "case jm_get (idToSchemaCache c1) (stringify (KSubjectId sub j)) of None \<Rightarrow> me_softDeleted (snd q)
             | Some y \<Rightarrow> y = \<lparr>ie_info = minimize (me_metadata (snd q)), ie_softDeleted = False\<rparr>"
          using q(2,3) by (auto simp: entry_ok_def)
        have "x = \<lparr>ie_info = schema, ie_softDeleted = False\<rparr>"
          using ok x q1(3) i sch by (auto simp: entry_ok_def)
        with qk q1(2,3) x show "stringify (KSubjectId subject i) \<noteq> stringify (KSubjectId sub j)"
          by auto
      qed
      with inv2 Some e i show ?thesis
        by (auto simp: deleteVersionStep_def c1_def [symmetric] c2_def [symmetric] Let_def deleteInfo_def
            split: option.splits)
    qed
  qed
qed

lemma inv_deleteSubjectVersion:
  assumes "mock_inv stringify parse c"
  shows "mock_inv stringify parse (fst (deleteSubjectVersion stringify parse subject version permanent c))"
proof -
  have "mock_inv stringify parse (fold (\<lambda>(k, v) c.
         if key_subject (parse k) = Some subject \<and> ve_version v = version
         then deleteVersionStep stringify parse subject version permanent k c else c) es c)" for es
    using assms by (rule fold_invariant [where Q = "\<lambda>_. True", OF TrueI]) (auto intro: inv_deleteVersionStep)
  then show ?thesis by (simp add: deleteSubjectVersion_def)
qed

end

section \<open>Reachable states\<close>

text \<open>Every call that changes the state of a client, with any arguments, whatever it returns.\<close>

inductive mock_step ::
    "(json_key \<Rightarrow> 'k) \<Rightarrow> ('k \<Rightarrow> json_key) \<Rightarrow> (nat \<Rightarrow> string) \<Rightarrow> 'k mock_client \<Rightarrow> 'k mock_client \<Rightarrow> bool"
  for stringify parse uuids where
  register: "mock_step stringify parse uuids c (fst (registerFullResponse stringify parse uuids subject schema nz c))"
| delete_subject: "mock_step stringify parse uuids c (fst (deleteSubject parse subject permanent c))"
| delete_version:
    "mock_step stringify parse uuids c (fst (deleteSubjectVersion stringify parse subject version permanent c))"
| compatibility: "mock_step stringify parse uuids c (fst (updateCompatibility subject level c))"
| config: "mock_step stringify parse uuids c (fst (updateConfig subject cfg c))"
| associate: "mock_step stringify parse uuids c (fst (createAssociation uuids request c))"
| dissociate: "mock_step stringify parse uuids c (fst (deleteAssociations rid rtype types cascade c))"

inductive mock_reachable ::
    "(json_key \<Rightarrow> 'k) \<Rightarrow> ('k \<Rightarrow> json_key) \<Rightarrow> (nat \<Rightarrow> string) \<Rightarrow> 'k mock_client \<Rightarrow> bool"
  for stringify parse uuids where
  new: "mock_reachable stringify parse uuids newMockClient"
| step: "mock_reachable stringify parse uuids c \<Longrightarrow> mock_step stringify parse uuids c d \<Longrightarrow>
         mock_reachable stringify parse uuids d"

context json_codec
begin

lemma inv_step: "mock_step stringify parse uuids c d \<Longrightarrow> mock_inv stringify parse c \<Longrightarrow> mock_inv stringify parse d"
proof (induction rule: mock_step.induct)
  case (register c subject schema nz)
  then show ?case using register_ok by (metis prod.collapse)
next
  case (delete_subject c subject permanent)
  then show ?case by (rule inv_deleteSubject)
next
  case (delete_version c subject version permanent)
  then show ?case by (rule inv_deleteSubjectVersion)
next
  case (compatibility c subject level)
  then show ?case by (subst mock_inv_cong [of _ c]) (simp_all add: updateCompatibility_def)
next
  case (config c subject cfg)
  then show ?case by (subst mock_inv_cong [of _ c]) (simp_all add: updateConfig_def)
next
  case (associate c request)
  then show ?case
    by (subst mock_inv_cong [of _ c]) (auto simp: createAssociation_def Let_def split: prod.splits option.splits list.splits)
next
  case (dissociate c rid rtype types cascade)
  then show ?case
    by (subst mock_inv_cong [of _ c]) (auto simp: deleteAssociations_def Let_def split: option.splits)
qed

lemma inv_reachable: "mock_reachable stringify parse uuids c \<Longrightarrow> mock_inv stringify parse c"
  by (induction rule: mock_reachable.induct) (auto intro: mock_inv_new inv_step)

lemma getBySubjectAndId_found:
  assumes "mock_inv stringify parse c" "subject \<noteq> []"
    and "getBySubjectAndId stringify parse subject i fmt c = (c', Inr info)"
  shows "\<exists>x. (stringify (KSubjectId subject i), x) \<in> set (idToSchemaCache c) \<and> ie_info x = info"
  using assms(2,3) by (auto simp: getBySubjectAndId_def split: option.splits if_splits dest: map_of_SomeD)

end

sublocale json_codec \<subseteq> schema_registry "MockClient stringify parse uuids" "mock_inv stringify parse"
proof
  fix s subject info nz s' md
  assume "mock_inv stringify parse s"
    "cl_registerFullResponse (MockClient stringify parse uuids) subject info nz s = (s', Inr md)"
  then show "mock_inv stringify parse s'"
    using register_ok by (auto simp: MockClient_def)
next
  fix s and subject :: string and info nz s' md fmt
  assume "mock_inv stringify parse s" "subject \<noteq> []"
    "cl_registerFullResponse (MockClient stringify parse uuids) subject info nz s = (s', Inr md)"
  then show "\<exists>i. sm_id md = Some i \<and> 0 < i \<and>
      cl_getBySubjectAndId (MockClient stringify parse uuids) subject i fmt s' = (s', Inr info)"
    using register_ok [of s subject info nz s' "Inr md"] by (auto simp: MockClient_def getBySubjectAndId_def)
next
  fix s subject info nz s' md nz'
  assume "mock_inv stringify parse s"
    "cl_registerFullResponse (MockClient stringify parse uuids) subject info nz s = (s', Inr md)"
  then show "cl_registerFullResponse (MockClient stringify parse uuids) subject info nz' s' = (s', Inr md)"
    using register_ok [of s subject info nz s' "Inr md"]
    by (auto simp: MockClient_def registerFullResponse_def Let_def)
qed

text \<open>Keys that are the objects themselves, and some UUIDs.\<close>

definition sample_uuids :: "nat \<Rightarrow> string" where
  "sample_uuids n = replicate (Suc n) (CHR ''u'')"

interpretation plain: json_codec "id :: json_key \<Rightarrow> json_key" id sample_uuids
  by unfold_locales (simp_all add: sample_uuids_def)

section \<open>Deleted schemas are gone\<close>

lemma get_fold_set_soft:
  "jm_get (fold (\<lambda>(k, v) m. if P k v then jm_set k (h v) m else m) es m) k =
     (case map_of (rev (filter (\<lambda>(k, v). P k v) es)) k of Some v \<Rightarrow> Some (h v) | None \<Rightarrow> jm_get m k)"
proof (induction es arbitrary: m)
  case Nil
  then show ?case by simp
next
  case (Cons e es)
  then show ?case by (cases e) (auto simp: map_add_def split: option.splits)
qed

lemma get_fold_delete:
  "jm_get (fold (\<lambda>(k, v) m. if P k v then jm_delete k m else m) es m) k =
     (if \<exists>v. (k, v) \<in> set es \<and> P k v then None else jm_get m k)"
proof (induction es arbitrary: m)
  case Nil
  then show ?case by simp
next
  case (Cons e es)
  then show ?case by (cases e) auto
qed

text \<open>
  After a loop that removes, or marks as deleted, the live entries of the keys in question, what is
  found under such a key is marked as deleted.
\<close>

lemma fold_delete_or_mark:
  assumes "\<And>k v. Q k \<Longrightarrow> \<not> soft v \<Longrightarrow> P k v" and "\<And>v. soft (h v)"
    and "jm_get (fold (\<lambda>(k, v) m. if P k v then (if permanent then jm_delete k m else jm_set k (h v) m) else m) m m) k
           = Some e" and "Q k"
  shows "soft e"
proof (cases permanent)
  case True
  have e: "\<not> (\<exists>v. (k, v) \<in> set m \<and> P k v)" "jm_get m k = Some e"
    using assms(3) [unfolded eqTrueI [OF True] if_True] by (auto simp: get_fold_delete split: if_splits)
  then show ?thesis using assms(1) [OF assms(4), of e] map_of_SomeD by fastforce
next
  case False
  then have perm: "permanent = False" by simp
  have *: "(case map_of (rev (filter (\<lambda>(k, v). P k v) m)) k of Some v \<Rightarrow> Some (h v) | None \<Rightarrow> jm_get m k) = Some e"
    using assms(3) [unfolded perm if_False] by (simp add: get_fold_set_soft)
  show ?thesis
  proof (cases "map_of (rev (filter (\<lambda>(k, v). P k v) m)) k")
    case (Some v)
    with * assms(2) show ?thesis by auto
  next
    case None
    then have "\<not> (\<exists>v. (k, v) \<in> set m \<and> P k v)"
      by (force simp: map_of_eq_None_iff image_iff)
    moreover have "jm_get m k = Some e"
      using * None by simp
    ultimately show ?thesis using assms(1) [OF assms(4), of e] map_of_SomeD by fastforce
  qed
qed

lemma fold_filter_case:
  "fold (\<lambda>(k, v). f k v) (filter (\<lambda>(k, v). P k v) es) c = fold (\<lambda>(k, v) c. if P k v then f k v c else c) es c"
  by (induction es arbitrary: c) auto

context json_codec
begin

lemma deleteSubject_forgets:
  fixes c subject permanent
  defines "c' \<equiv> fst (deleteSubject parse subject permanent c)"
  shows "jm_get (infoToSchemaCache c') (stringify (KSubjectSchema subject schema)) = Some e \<Longrightarrow> me_softDeleted e"
    and "jm_get (schemaToVersionCache c') (stringify (KSubjectSchema subject schema)) = Some v \<Longrightarrow> ve_softDeleted v"
    and "permanent \<Longrightarrow> jm_get (idToSchemaCache c') (stringify (KSubjectId subject i)) = Some x \<Longrightarrow> ie_softDeleted x"
proof -
  let ?Q = "\<lambda>k. key_subject (parse k) = Some subject"
  let ?dm = "\<lambda>(k, v) c. if ?Q k \<and> (permanent \<or> \<not> me_softDeleted v) then deleteMetadata k (me_metadata v) permanent c else c"
  let ?dv = "\<lambda>(k, v) c. if ?Q k \<and> (permanent \<or> \<not> ve_softDeleted v) then deleteVersion k (ve_version v) permanent c else c"
  let ?di = "\<lambda>(k, v) c. if ?Q k \<and> \<not> ie_softDeleted v then deleteInfo k (ie_info v) permanent c else c"
  define c1 where "c1 = fold ?dm (infoToSchemaCache c) c"
  define c2 where "c2 = fold ?dv (schemaToVersionCache c1) c1"
  define c3 where "c3 = c2\<lparr>configCache := jm_delete subject (configCache c2)\<rparr>"
  have c': "c' = (if permanent then fold ?di (idToSchemaCache c3) c3 else c3)"
    by (simp only: c'_def deleteSubject_def c1_def c2_def c3_def Let_def fst_conv fold_filter_case)
  have frame1: "infoToSchemaCache c2 = infoToSchemaCache c1"
    unfolding c2_def by (rule fold_keep) (auto simp: deleteVersion_def)
  have frame3: "infoToSchemaCache c3 = infoToSchemaCache c1" "schemaToVersionCache c3 = schemaToVersionCache c2"
    by (simp_all add: c3_def frame1)
  have frame2: "infoToSchemaCache c' = infoToSchemaCache c3" "schemaToVersionCache c' = schemaToVersionCache c3"
    unfolding c' by (auto simp: deleteInfo_def intro!: fold_keep)
  have eq1: "infoToSchemaCache c' = fold (\<lambda>(k, v) m. if ?Q k \<and> (permanent \<or> \<not> me_softDeleted v)
      then (if permanent then jm_delete k m else jm_set k \<lparr>me_metadata = me_metadata v, me_softDeleted = True\<rparr> m)
      else m) (infoToSchemaCache c) (infoToSchemaCache c)"
    unfolding frame2(1) frame3(1) c1_def by (rule fold_proj) (auto simp: deleteMetadata_def)
  show "me_softDeleted e" if "jm_get (infoToSchemaCache c') (stringify (KSubjectSchema subject schema)) = Some e"
    by (rule fold_delete_or_mark [where Q = ?Q and soft = me_softDeleted, OF _ _ that [unfolded eq1]]) auto
  have eq2: "schemaToVersionCache c' = fold (\<lambda>(k, v) m. if ?Q k \<and> (permanent \<or> \<not> ve_softDeleted v)
      then (if permanent then jm_delete k m else jm_set k \<lparr>ve_version = ve_version v, ve_softDeleted = True\<rparr> m)
      else m) (schemaToVersionCache c1) (schemaToVersionCache c1)"
    unfolding frame2(2) frame3(2) c2_def by (rule fold_proj) (auto simp: deleteVersion_def)
  show "ve_softDeleted v" if "jm_get (schemaToVersionCache c') (stringify (KSubjectSchema subject schema)) = Some v"
    by (rule fold_delete_or_mark [where Q = ?Q and soft = ve_softDeleted, OF _ _ that [unfolded eq2]]) auto
  have eq3: "idToSchemaCache (fold ?di (idToSchemaCache c3) c3) = fold (\<lambda>(k, v) m. if ?Q k \<and> \<not> ie_softDeleted v
      then (if permanent then jm_delete k m else jm_set k \<lparr>ie_info = ie_info v, ie_softDeleted = True\<rparr> m)
      else m) (idToSchemaCache c3) (idToSchemaCache c3)"
    by (rule fold_proj) (auto simp: deleteInfo_def)
  show "ie_softDeleted x" if perm: "permanent"
    and x: "jm_get (idToSchemaCache c') (stringify (KSubjectId subject i)) = Some x"
  proof -
    have "idToSchemaCache c' = idToSchemaCache (fold ?di (idToSchemaCache c3) c3)"
      by (simp only: c' if_P [OF perm])
    note x' = x [unfolded this eq3]
    show ?thesis
      by (rule fold_delete_or_mark [where Q = ?Q and soft = ie_softDeleted, OF _ _ x']) auto
  qed
qed

end

section \<open>Properties\<close>

context json_codec
begin

lemma is_registry: "schema_registry (MockClient stringify parse uuids) (mock_inv stringify parse)"
  by (rule schema_registry_axioms)

lemma register_succeeds:
  "mock_inv stringify parse c \<Longrightarrow> \<exists>c' md. registerFullResponse stringify parse uuids subject schema nz c = (c', Inr md)"
  using register_ok [of c subject schema nz] by (metis prod.exhaust)

lemma register_found:
  assumes "mock_reachable stringify parse uuids c" and "subject \<noteq> []"
  shows "\<exists>c' md i. registerFullResponse stringify parse uuids subject schema nz c = (c', Inr md) \<and>
    sm_id md = Some i \<and> getBySubjectAndId stringify parse subject i fmt c' = (c', Inr schema) \<and>
    registerFullResponse stringify parse uuids subject schema nz' c' = (c', Inr md)"
proof -
  have inv: "mock_inv stringify parse c"
    by (rule inv_reachable [OF assms(1)])
  obtain c' md where r: "registerFullResponse stringify parse uuids subject schema nz c = (c', Inr md)"
    using register_succeeds [OF inv] by blast
  then have r': "cl_registerFullResponse (MockClient stringify parse uuids) subject schema nz c = (c', Inr md)"
    by (simp add: MockClient_def)
  obtain i where "sm_id md = Some i"
      "cl_getBySubjectAndId (MockClient stringify parse uuids) subject i fmt c' = (c', Inr schema)"
    using register_id [OF inv assms(2) r'] by blast
  with r register_again [OF inv r', of nz'] show ?thesis
    by (auto simp: MockClient_def)
qed

lemma id_one_subject:
  assumes "mock_reachable stringify parse uuids c" "sub1 \<noteq> []" "sub2 \<noteq> []"
    and "getBySubjectAndId stringify parse sub1 i fmt1 c = (c1, Inr info1)"
    and "getBySubjectAndId stringify parse sub2 i fmt2 c = (c2, Inr info2)"
  shows "sub1 = sub2 \<and> info1 = info2"
proof -
  have inv: "mock_inv stringify parse c"
    by (rule inv_reachable [OF assms(1)])
  obtain x1 x2 where x: "(stringify (KSubjectId sub1 i), x1) \<in> set (idToSchemaCache c)" "ie_info x1 = info1"
      "(stringify (KSubjectId sub2 i), x2) \<in> set (idToSchemaCache c)" "ie_info x2 = info2"
    using getBySubjectAndId_found [OF inv assms(2,4)] getBySubjectAndId_found [OF inv assms(3,5)] by blast
  have "ids_unique parse (idToSchemaCache c)"
    using inv by (simp add: mock_inv_def)
  from this [unfolded ids_unique_def, rule_format, OF x(1,3)] have "sub1 = sub2"
    by simp
  moreover from this x have "x1 = x2"
    using inv eq_key_imp_eq_value [of "idToSchemaCache c"] by (simp add: mock_inv_def)
  ultimately show ?thesis using x by simp
qed

end

text \<open>
  C17. In every state a client can reach, registering a schema under a subject succeeds, the
  schema is found again under the id that was returned, and registering it once more returns the
  same metadata and changes nothing.
\<close>

theorem mock_register_found:
  assumes "json_codec stringify parse uuids" and "mock_reachable stringify parse uuids c" and "subject \<noteq> []"
  shows "\<exists>c' md i. registerFullResponse stringify parse uuids subject schema nz c = (c', Inr md) \<and>
    sm_id md = Some i \<and> getBySubjectAndId stringify parse subject i fmt c' = (c', Inr schema) \<and>
    registerFullResponse stringify parse uuids subject schema nz' c' = (c', Inr md)"
  by (rule json_codec.register_found [OF assms])

definition text_schema :: "string \<Rightarrow> schema_info" where
  "text_schema t = \<lparr>si_schema = t, si_schemaType = None, si_references = None, si_metadata = None, si_ruleSet = None\<rparr>"

theorem mock_register_found_witness:
  "\<exists>c' md i. registerFullResponse id id sample_uuids ''s'' (text_schema ''a'') False newMockClient = (c', Inr md) \<and>
    sm_id md = Some i \<and> getBySubjectAndId id id ''s'' i None c' = (c', Inr (text_schema ''a'')) \<and>
    registerFullResponse id id sample_uuids ''s'' (text_schema ''a'') False c' = (c', Inr md)"
  by (rule mock_register_found [OF plain.json_codec_axioms mock_reachable.new]) simp

text \<open>
  An id belongs to one subject: whenever the same id is found under two subjects in a state
  a client can reach, the subjects are the same and so is the schema.
\<close>

theorem mock_id_one_subject:
  assumes "json_codec stringify parse uuids" and "mock_reachable stringify parse uuids c"
    and "sub1 \<noteq> []" and "sub2 \<noteq> []"
    and "getBySubjectAndId stringify parse sub1 i fmt1 c = (c1, Inr info1)"
    and "getBySubjectAndId stringify parse sub2 i fmt2 c = (c2, Inr info2)"
  shows "sub1 = sub2 \<and> info1 = info2"
  by (rule json_codec.id_one_subject [OF assms])

definition one_schema_client :: "json_key mock_client" where
  "one_schema_client = fst (registerFullResponse id id sample_uuids ''s'' (text_schema ''a'') False newMockClient)"

lemma one_schema_reachable: "mock_reachable id id sample_uuids one_schema_client"
  unfolding one_schema_client_def by (intro mock_reachable.step [OF mock_reachable.new] mock_step.register)

lemma one_schema_found: "getBySubjectAndId id id ''s'' 1 None one_schema_client = (one_schema_client, Inr (text_schema ''a''))"
  by code_simp

theorem mock_id_one_subject_witness: "''s'' = ''s'' \<and> text_schema ''a'' = text_schema ''a''"
  using mock_id_one_subject [OF plain.json_codec_axioms one_schema_reachable _ _ one_schema_found one_schema_found]
  by simp

text \<open>
  After a subject is deleted, softly or for good, neither the version nor the id of any of its
  schemas is found any more, and after deleting it for good no schema is found under any id.
\<close>

theorem mock_delete_subject_forgets:
  assumes "json_codec stringify parse uuids" and "deleteSubject parse subject permanent c = (c', r)"
  shows "getVersion stringify subject schema nz del c' = (c', Inl notFound) \<and>
    getIdFullResponse stringify subject schema c' = (c', Inl notFound) \<and>
    (permanent \<and> subject \<noteq> [] \<longrightarrow> getBySubjectAndId stringify parse subject i fmt c' = (c', Inl notFound))"
  using json_codec.deleteSubject_forgets [OF assms(1), where c = c and subject = subject and permanent = permanent]
    assms(2)
  by (auto simp: getVersion_def getIdFullResponse_def getBySubjectAndId_def split: option.splits)

theorem mock_delete_subject_forgets_witness:
  "getVersion id ''s'' (text_schema ''a'') False False (fst (deleteSubject id ''s'' False one_schema_client)) =
     (fst (deleteSubject id ''s'' False one_schema_client), Inl notFound)"
  by (rule conjunct1 [OF mock_delete_subject_forgets [OF plain.json_codec_axioms prod.collapse [symmetric]]])

text \<open>
  Registering a schema again after its version was softly deleted gives it a new version but
  leaves it at its old place in the map of versions, and the newest version is taken to be the
  last one in the map: the client then reports version 2 as the latest although version 3 exists,
  and the next schema gets version 3 a second time.
\<close>

theorem mock_version_after_soft_delete:
  "let put = (\<lambda>t c. fst (registerFullResponse id id sample_uuids ''s'' (text_schema t) False c));
       c1 = put ''b'' (put ''a'' newMockClient);
       c2 = put ''a'' (fst (deleteSubjectVersion id id ''s'' 1 False c1))
   in allVersions id ''s'' c2 = [3, 2] \<and> latestVersion id ''s'' c2 = 2 \<and>
      allVersions id ''s'' (put ''c'' c2) = [3, 2, 3]"
  by code_simp

text \<open>
  The client hands out one GUID when a schema is registered under a second subject and
  another when the metadata of that version is asked for: registering stores a fresh GUID, while
  the lookup takes the first GUID with the same schema text, which is that of the first subject.
\<close>

theorem mock_guid_disagrees:
  "let c1 = fst (registerFullResponse id id sample_uuids ''s'' (text_schema ''a'') False newMockClient);
       (c2, r) = registerFullResponse id id sample_uuids ''t'' (text_schema ''a'') False c1
   in map_sum id sm_guid r = Inr (Some ''uu'') \<and>
      map_sum id sm_guid (snd (getLatestSchemaMetadata id ''t'' None c2)) = Inr (Some ''u'')"
  by code_simp

end
