(* ===== verification/Serdes.thy ===== *)
theory Serdes
  imports Rule_Engine Subject_Name Mock_Invariant
begin

text \<open>
  What class \<open>Serializer\<close> and class \<open>Deserializer\<close> of \<open>serde.ts\<close> do around the encoding proper:
  choosing the schema to write with and its id, framing, finding the writer's and the reader's
  schema, and the bookkeeping of inline validation rules.
\<close>

section \<open>The schema a serializer writes with\<close>

record serializer_config =
  autoRegisterSchemas :: bool
  useSchemaId :: "int option"
  useLatestWithMetadata :: "(string \<times> string) list option"
  useLatestVersion :: bool
  normalizeSchemas :: bool

definition undefined_info :: js_error where
  "undefined_info = TypeError ''Cannot read properties of undefined''"

text \<open>A call with \<open>info!\<close>: an absent schema fails when the client reads it.\<close>

definition with_info :: "schema_info option \<Rightarrow> (schema_info \<Rightarrow> ('c, 'a) meth) \<Rightarrow> ('c, 'a) meth" where
  "with_info info f = (case info of Some i \<Rightarrow> f i | None \<Rightarrow> m_throw undefined_info)"

definition getSchemaId ::
    "serializer_config \<Rightarrow> 'c strategy \<Rightarrow> serde_type \<Rightarrow> 'c client \<Rightarrow> string \<Rightarrow> string \<Rightarrow> schema_info option
     \<Rightarrow> string option \<Rightarrow> ('c, schema_id \<times> schema_info option) meth" where
  "getSchemaId conf strategy serdeType cl type topic info fmt =
     m_bind (strategy topic serdeType info) (\<lambda>subject.
       m_bind
         (if autoRegisterSchemas conf
          then with_info info (\<lambda>i. m_bind (cl_registerFullResponse cl subject i (normalizeSchemas conf))
                 (\<lambda>md. m_return (md, info)))
          else if (case useSchemaId conf of None \<Rightarrow> False | Some n \<Rightarrow> n \<ge> 0)
          then m_bind (cl_getBySubjectAndId cl subject (the (useSchemaId conf)) fmt) (\<lambda>i.
                 m_bind (cl_getIdFullResponse cl subject i (normalizeSchemas conf)) (\<lambda>md. m_return (md, Some i)))
          else if (case useLatestWithMetadata conf of None \<Rightarrow> False | Some m \<Rightarrow> m \<noteq> [])
          then m_bind (cl_getLatestWithMetadata cl subject (the (useLatestWithMetadata conf)) True fmt) (\<lambda>md.
                 m_return (md, Some (minimize md)))
          else if useLatestVersion conf
          then m_bind (cl_getLatestSchemaMetadata cl subject fmt) (\<lambda>md. m_return (md, Some (minimize md)))
          else with_info info (\<lambda>i. m_bind (cl_getIdFullResponse cl subject i (normalizeSchemas conf))
                 (\<lambda>md. m_return (md, info))))
         (\<lambda>(md, info'). m_return (newSchemaId type (sm_id md) (sm_guid md) None, info')))"

type_synonym schema_id_serializer =
  "serde_type \<Rightarrow> bytes \<Rightarrow> schema_id \<Rightarrow> headers option \<Rightarrow> (headers option \<times> bytes) result"

type_synonym schema_id_deserializer = "serde_type \<Rightarrow> bytes \<Rightarrow> headers option \<Rightarrow> (schema_id, nat) meth"

definition serializeSchemaId ::
    "schema_id_serializer option \<Rightarrow> serde_type \<Rightarrow> bytes \<Rightarrow> schema_id \<Rightarrow> headers option
     \<Rightarrow> (headers option \<times> bytes) result" where
  "serializeSchemaId ser serdeType payload schemaId hdrs =
     (case ser of Some f \<Rightarrow> f | None \<Rightarrow> PrefixSchemaIdSerializer) serdeType payload schemaId hdrs"

section \<open>The schemas a deserializer reads with\<close>

definition deserializeSchemaId ::
    "schema_id_deserializer option \<Rightarrow> serde_type \<Rightarrow> bytes \<Rightarrow> headers option \<Rightarrow> (schema_id, nat) meth" where
  "deserializeSchemaId des serdeType payload hdrs =
     (case des of Some f \<Rightarrow> f | None \<Rightarrow> DualSchemaIdDeserializer) serdeType payload hdrs"

text \<open>
  \<open>getWriterSchema\<close> fills in the schema id object it is given, so its state is that object and the
  client's.
\<close>

definition getWriterSchema ::
    "schema_id_deserializer option \<Rightarrow> 'c strategy \<Rightarrow> serde_type \<Rightarrow> 'c client \<Rightarrow> string \<Rightarrow> bytes \<Rightarrow> headers option
     \<Rightarrow> string option \<Rightarrow> (schema_id \<times> 'c, schema_info \<times> nat) meth" where
  "getWriterSchema des strategy serdeType cl topic payload hdrs fmt = (\<lambda>(sid, c).
     case deserializeSchemaId des serdeType payload hdrs sid of
       (sid', Inl e) \<Rightarrow> ((sid', c), Inl e)
     | (sid', Inr bytesRead) \<Rightarrow>
         let find = (case id_of sid' of
                Some i \<Rightarrow> m_bind (strategy topic serdeType None) (\<lambda>subject. cl_getBySubjectAndId cl subject i fmt)
              | None \<Rightarrow>
                  (case guid_of sid' of
                     Some g \<Rightarrow> cl_getByGuid cl g fmt
                   | None \<Rightarrow> m_throw (SerializationError ''Invalid schema ID'')));
             (c', r) = find c
         in ((sid', c'), res_bind r (\<lambda>info. Inr (info, bytesRead))))"

definition getReaderSchema ::
    "(string \<times> string) list option \<Rightarrow> bool \<Rightarrow> 'c client \<Rightarrow> string \<Rightarrow> string option
     \<Rightarrow> ('c, schema_metadata option) meth" where
  "getReaderSchema latestWithMetadata useLatest cl subject fmt =
     (if (case latestWithMetadata of None \<Rightarrow> False | Some m \<Rightarrow> m \<noteq> [])
      then m_bind (cl_getLatestWithMetadata cl subject (the latestWithMetadata) True fmt) (\<lambda>md. m_return (Some md))
      else if useLatest
      then m_bind (cl_getLatestSchemaMetadata cl subject fmt) (\<lambda>md. m_return (Some md))
      else m_return None)"

section \<open>Inline validation rules\<close>

datatype validation_rules_execution = V_DISABLED | BEFORE_DOMAIN_RULES | AFTER_DOMAIN_RULES

record validation_rule =
  vr_name :: "string option"
  vr_doc :: "string option"
  vr_expr :: "string option"
  vr_sql :: "string option"

record validation_rule_error =
  vx_rule :: validation_rule
  vx_fieldPath :: string
  vx_message :: "string option"
  vx_cause :: "js_error option"

definition validationEnabled ::
    "validation_rules_execution option \<Rightarrow> validation_rules_execution option \<Rightarrow> bool" where
  "validationEnabled configured phase =
     (let execution = (case configured of Some e \<Rightarrow> e | None \<Rightarrow> V_DISABLED)
      in case phase of None \<Rightarrow> execution \<noteq> V_DISABLED | Some p \<Rightarrow> execution = p)"

text \<open>An optional text that is present and not empty, which is what JavaScript counts as true.\<close>

fun truthy :: "string option \<Rightarrow> bool" where
  "truthy None = False"
| "truthy (Some s) = (s \<noteq> [])"

definition violationString :: "validation_rule_error \<Rightarrow> string" where
  "violationString v =
     (let path = (if vx_fieldPath v \<noteq> [] then vx_fieldPath v else ''<root>'');
          name = (if truthy (vr_name (vx_rule v)) then the (vr_name (vx_rule v)) else ''unnamed'');
          detail = (if truthy (vx_message v) then the (vx_message v)
                    else if truthy (vr_doc (vx_rule v)) then the (vr_doc (vx_rule v))
                    else if truthy (vr_sql (vx_rule v)) then the (vr_sql (vx_rule v))
                    else case vr_expr (vx_rule v) of Some e \<Rightarrow> e | None \<Rightarrow> ''undefined'')
      in path @ '': '' @ name @ '': '' @ detail @
         (case vx_cause v of None \<Rightarrow> [] | Some e \<Rightarrow> '' (caused by: '' @ err_message e @ '')''))"

text \<open>The lines joined with line feeds.\<close>

definition raiseValidationViolations :: "validation_rule_error list \<Rightarrow> unit result" where
  "raiseValidationViolations violations =
     (if violations = [] then Inr ()
      else let n = length violations
           in Inl (SerializationError
                (''Validation rule failed ('' @ nat_str n @ '' violation'' @ (if n = 1 then [] else ''s'') @ ''):'' @
                 concat (map (\<lambda>v. [CHR 0x0A] @ ''  - '' @ violationString v) violations))))"

text \<open>The value of \<open>confluent:rules\<close>: a list, of which the entries that are objects count.\<close>

datatype rules_entry = EntryObject "string option" "string option" "string option" "string option" | EntryOther

datatype rules_prop = PropList "rules_entry list" | PropOther

fun parseValidationRules :: "rules_prop \<Rightarrow> validation_rule list" where
  "parseValidationRules PropOther = []"
| "parseValidationRules (PropList es) =
     concat (map (\<lambda>e. case e of
        EntryObject n d x q \<Rightarrow> [\<lparr>vr_name = n, vr_doc = d, vr_expr = x, vr_sql = q\<rparr>]
      | EntryOther \<Rightarrow> []) es)"

text \<open>What a rule resolves to: a boolean, a text, or something else, of which only the type is shown.\<close>

datatype rule_result = ResBool bool | ResString string | ResOther string

fun is_RuleError :: "js_error \<Rightarrow> bool" where
  "is_RuleError (RuleError m) \<longleftrightarrow> True"
| "is_RuleError (RuleConditionError m) \<longleftrightarrow> True"
| "is_RuleError e \<longleftrightarrow> False"

definition evaluateValidationRule ::
    "('w, rule_result) meth \<Rightarrow> validation_rule \<Rightarrow> string \<Rightarrow> (validation_rule_error list \<times> 'w, unit) meth" where
  "evaluateValidationRule execute r path = (\<lambda>(out, w).
     let fails = (\<lambda>m e. out @ [\<lparr>vx_rule = r, vx_fieldPath = path, vx_message = m, vx_cause = e\<rparr>])
     in case execute w of
          (w', Inl e) \<Rightarrow> if is_RuleError e then ((fails None (Some e), w'), Inr ()) else ((out, w'), Inl e)
        | (w', Inr (ResBool b)) \<Rightarrow> ((if b then out else fails None None, w'), Inr ())
        | (w', Inr (ResString s)) \<Rightarrow> ((if s = [] then out else fails (Some s) None, w'), Inr ())
        | (w', Inr (ResOther t)) \<Rightarrow>
            ((out, w'), Inl (SerializationError
               (''Validation rule '' @ quoted (case vr_name r of Some n \<Rightarrow> n | None \<Rightarrow> ''unnamed'') @
                '' resolved to an unexpected type: '' @ t))))"

text \<open>Rules evaluated one after the other on one node, as the walks over messages do.\<close>

fun evaluateAll ::
    "(validation_rule \<Rightarrow> ('w, rule_result) meth) \<Rightarrow> string \<Rightarrow> validation_rule list
     \<Rightarrow> (validation_rule_error list \<times> 'w, unit) meth" where
  "evaluateAll execute path [] = m_return ()"
| "evaluateAll execute path (r # rs) =
     m_bind (evaluateValidationRule (execute r) r path) (\<lambda>_. evaluateAll execute path rs)"

section \<open>Properties\<close>

text \<open>A rule holds when it yields true or the empty text.\<close>

fun rule_holds :: "rule_result \<Rightarrow> bool" where
  "rule_holds (ResBool b) \<longleftrightarrow> b"
| "rule_holds (ResString s) \<longleftrightarrow> s = []"
| "rule_holds (ResOther t) \<longleftrightarrow> False"

lemma evaluateAll_violations:
  assumes "\<And>r w. r \<in> set rs \<Longrightarrow> (\<exists>b. execute r w = (w, Inr (ResBool b)) \<and> b = holds r) \<or>
      (\<exists>s. execute r w = (w, Inr (ResString s)) \<and> (s = []) = holds r) \<or>
      (\<exists>e. execute r w = (w, Inl e) \<and> is_RuleError e \<and> \<not> holds r)"
  shows "\<exists>vs. evaluateAll execute path rs (out, w) = ((out @ vs, w), Inr ()) \<and>
    map vx_rule vs = filter (\<lambda>r. \<not> holds r) rs"
  using assms
proof (induction rs arbitrary: out)
  case Nil
  then show ?case by simp
next
  case (Cons r rs)
  obtain v where v: "evaluateValidationRule (execute r) r path (out, w) = ((out @ v, w), Inr ())"
      "map vx_rule v = (if holds r then [] else [r])"
    using Cons.prems [of r w] by (cases "holds r") (auto simp: evaluateValidationRule_def Let_def)
  obtain vs where "evaluateAll execute path rs (out @ v, w) = (((out @ v) @ vs, w), Inr ())"
      "map vx_rule vs = filter (\<lambda>r. \<not> holds r) rs"
    using Cons.IH [of "out @ v"] Cons.prems by auto
  with v show ?case
    by (intro exI [of _ "v @ vs"]) (auto simp: m_bind_apply)
qed

text \<open>
  Evaluating the validation rules of a node and raising what was found fails exactly when some
  rule does not hold, with one violation per such rule, in the order of the rules; a rule that
  throws a \<open>RuleError\<close> counts as not holding and does not stop the others.
\<close>

theorem validation_raises_iff_violated:
  assumes "\<And>r w. r \<in> set rs \<Longrightarrow> (\<exists>b. execute r w = (w, Inr (ResBool b)) \<and> b = holds r) \<or>
      (\<exists>s. execute r w = (w, Inr (ResString s)) \<and> (s = []) = holds r) \<or>
      (\<exists>e. execute r w = (w, Inl e) \<and> is_RuleError e \<and> \<not> holds r)"
  shows "\<exists>vs. evaluateAll execute path rs ([], w) = ((vs, w), Inr ()) \<and>
    map vx_rule vs = filter (\<lambda>r. \<not> holds r) rs \<and>
    (raiseValidationViolations vs = Inr () \<longleftrightarrow> (\<forall>r \<in> set rs. holds r))"
proof -
  obtain vs where vs: "evaluateAll execute path rs ([], w) = ((vs, w), Inr ())"
      "map vx_rule vs = filter (\<lambda>r. \<not> holds r) rs"
    using evaluateAll_violations [where rs = rs and execute = execute and holds = holds and path = path and
        out = "[]" and w = w, OF assms] by auto
  have "vs = [] \<longleftrightarrow> (\<forall>r \<in> set rs. holds r)"
    using arg_cong [OF vs(2), of "\<lambda>l. l = []"] by (auto simp: filter_empty_conv)
  with vs show ?thesis
    by (intro exI [of _ vs]) (simp add: raiseValidationViolations_def Let_def)
qed

definition vrule :: "string \<Rightarrow> validation_rule" where
  "vrule n = \<lparr>vr_name = Some n, vr_doc = None, vr_expr = None, vr_sql = None\<rparr>"

theorem validation_raises_iff_violated_witness:
  "\<exists>vs. evaluateAll (\<lambda>r. m_return (ResBool (vr_name r = Some ''a''))) ''f'' [vrule ''a'', vrule ''b''] ([], 0::nat) =
      ((vs, 0), Inr ()) \<and>
    map vx_rule vs = filter (\<lambda>r. \<not> vr_name r = Some ''a'') [vrule ''a'', vrule ''b''] \<and>
    (raiseValidationViolations vs = Inr () \<longleftrightarrow> (\<forall>r \<in> set [vrule ''a'', vrule ''b'']. vr_name r = Some ''a''))"
  by (rule validation_raises_iff_violated) auto

section \<open>From the serializer to the deserializer\<close>

context schema_registry
begin

text \<open>
  With schemas registered automatically, a frame leads the deserializer back to the schema the
  serializer wrote with, whatever registry keeps the contract.
\<close>

lemma written_schema_is_read:
  assumes inv: "inv c" and sub: "subject \<noteq> []" and type: "type \<noteq> ''PROTOBUF''"
    and strategy: "\<And>info c. strategy topic k info c = (c, Inr subject)"
    and conf: "autoRegisterSchemas conf"
    and get: "getSchemaId conf strategy k cl type topic (Some info) fmt c = (c', Inr (sid, used))"
    and small: "\<And>i. id_of sid = Some i \<Longrightarrow> i < 2 ^ 31"
  shows "\<exists>frame n. serializeSchemaId None k payload sid None = Inr (None, frame) \<and>
    getWriterSchema None strategy k cl topic frame None fmt' (newSchemaId type None None None, c') =
      ((sid\<lparr>guid_of := None\<rparr>, c'), Inr (info, n)) \<and> drop n frame = payload \<and> used = Some info"
proof -
  obtain md where md: "cl_registerFullResponse cl subject info (normalizeSchemas conf) c = (c', Inr md)"
      "sid = newSchemaId type (sm_id md) (sm_guid md) None" "used = Some info"
    using get strategy conf
    by (auto simp: getSchemaId_def m_bind_apply with_info_def split: prod.splits sum.splits)
  obtain i where i: "sm_id md = Some i" "0 < i" "cl_getBySubjectAndId cl subject i fmt' c' = (c', Inr info)"
    using register_id [OF inv sub md(1)] by blast
  have "id_sendable sid"
    using small i(1,2) type md(2) by (simp add: id_sendable_def wf_indexes_def newSchemaId_def)
  then obtain frame n where f: "PrefixSchemaIdSerializer k payload sid None = Inr (None, frame)"
      "DualSchemaIdDeserializer k frame None (fresh sid) = (sid\<lparr>guid_of := None\<rparr>, Inr n)" "drop n frame = payload"
    using prefix_framed [of sid k payload None] by (auto simp: DualSchemaIdDeserializer_def)
  moreover have "newSchemaId type None None None = fresh sid"
    by (simp add: fresh_def md(2) newSchemaId_def)
  ultimately show ?thesis
    using i md strategy
    by (intro exI [of _ frame] exI [of _ n])
       (simp add: serializeSchemaId_def getWriterSchema_def deserializeSchemaId_def newSchemaId_def m_bind_apply)
qed

end

text \<open>
  C15. Serializer and deserializer agree on the schema, for the in-memory registry (MockClient), schemas other than
  Protobuf, automatic registration, the default id serializer and deserializer without headers, and ids below
  2^31: in any state the registry can reach, with any subject name strategy that answers the same non-empty
  subject on both sides, the frame made of the id that the serializer obtains and a payload leads the deserializer, which
  starts from an empty schema id, to the schema that was written with; the bytes after the ones it
  consumed are the payload, and its schema id is the serializer's without the guid.
\<close>

theorem mock_written_schema_is_read:
  assumes "json_codec stringify parse uuids" and "mock_reachable stringify parse uuids c"
    and "type \<noteq> ''PROTOBUF''" and "autoRegisterSchemas conf"
    and "\<And>info c. strategy topic k info c = (c, Inr subject)" and "subject \<noteq> []"
    and "getSchemaId conf strategy k (MockClient stringify parse uuids) type topic (Some info) fmt c =
           (c', Inr (sid, used))"
    and "\<And>i. id_of sid = Some i \<Longrightarrow> i < 2 ^ 31"
  shows "\<exists>frame n. serializeSchemaId None k payload sid None = Inr (None, frame) \<and>
    getWriterSchema None strategy k (MockClient stringify parse uuids) topic frame None fmt'
      (newSchemaId type None None None, c') = ((sid\<lparr>guid_of := None\<rparr>, c'), Inr (info, n)) \<and>
    drop n frame = payload \<and> used = Some info"
  by (rule schema_registry.written_schema_is_read [OF json_codec.is_registry [OF assms(1)]
        json_codec.inv_reachable [OF assms(1,2)] assms(6) assms(3) assms(5) assms(4) assms(7,8)])

definition auto_conf :: serializer_config where
  "auto_conf = \<lparr>autoRegisterSchemas = True, useSchemaId = None, useLatestWithMetadata = None,
     useLatestVersion = False, normalizeSchemas = False\<rparr>"

definition first_id :: "json_key mock_client \<times> (schema_id \<times> schema_info option) result" where
  "first_id = getSchemaId auto_conf topic_strategy VALUE (MockClient id id sample_uuids) ''AVRO'' ''t''
     (Some (text_schema ''a'')) None newMockClient"

lemma first_id_eq: "snd first_id = Inr (newSchemaId ''AVRO'' (Some 1) (Some ''u'') None, Some (text_schema ''a''))"
  by code_simp

theorem mock_written_schema_is_read_witness:
  "\<exists>frame n. serializeSchemaId None VALUE [5, 6] (newSchemaId ''AVRO'' (Some 1) (Some ''u'') None) None = Inr (None, frame) \<and>
    getWriterSchema None topic_strategy VALUE (MockClient id id sample_uuids) ''t'' frame None None
      (newSchemaId ''AVRO'' None None None, fst first_id) =
        (((newSchemaId ''AVRO'' (Some 1) (Some ''u'') None)\<lparr>guid_of := None\<rparr>, fst first_id), Inr (text_schema ''a'', n)) \<and>
    drop n frame = [5, 6] \<and> Some (text_schema ''a'') = Some (text_schema ''a'')"
proof (rule mock_written_schema_is_read [OF plain.json_codec_axioms mock_reachable.new, where conf = auto_conf and fmt = None and
      subject = "TopicNameStrategy ''t'' VALUE"])
  show "getSchemaId auto_conf topic_strategy VALUE (MockClient id id sample_uuids) ''AVRO'' ''t''
      (Some (text_schema ''a'')) None newMockClient =
        (fst first_id, Inr (newSchemaId ''AVRO'' (Some 1) (Some ''u'') None, Some (text_schema ''a'')))"
    using first_id_eq by (simp add: first_id_def prod_eq_iff)
qed (simp_all add: auto_conf_def newSchemaId_def topic_strategy_def TopicNameStrategy_def)

end
