(* ===== verification/Utf8.thy ===== *)
theory Utf8
  imports JS_Prelude
begin

text \<open>
  JavaScript strings as sequences of 16-bit code units, and the two functions of the platform that
  turn them into bytes and back: \<open>TextEncoder.encode\<close> and \<open>TextDecoder.decode\<close> (UTF-8, malformed
  input replaced, a leading byte order mark removed). Text without lone surrogates that does not
  begin with a byte order mark survives the way there and back.
\<close>

type_synonym ustring = "nat list"

definition ascii :: "string \<Rightarrow> ustring" where
  "ascii s = map of_char s"

section \<open>Code units and code points\<close>

definition is_high :: "nat \<Rightarrow> bool" where
  "is_high u \<longleftrightarrow> 0xD800 \<le> u \<and> u < 0xDC00"

definition is_low :: "nat \<Rightarrow> bool" where
  "is_low u \<longleftrightarrow> 0xDC00 \<le> u \<and> u < 0xE000"

definition replacement :: nat where
  "replacement = 0xFFFD"

text \<open>The code points of a string; a surrogate without its partner counts as the replacement character.\<close>

fun code_points :: "ustring \<Rightarrow> nat list" where
  "code_points [] = []"
| "code_points (u # us) =
     (if is_high u
      then (case us of
              v # vs \<Rightarrow> if is_low v then (0x10000 + (u - 0xD800) * 0x400 + (v - 0xDC00)) # code_points vs
                        else replacement # code_points us
            | [] \<Rightarrow> [replacement])
      else if is_low u then replacement # code_points us
      else u # code_points us)"

definition units_of :: "nat \<Rightarrow> ustring" where
  "units_of c =
     (if c < 0x10000 then [c]
      else [0xD800 + (c - 0x10000) div 0x400, 0xDC00 + (c - 0x10000) mod 0x400])"

section \<open>Encoding\<close>

definition encode_point :: "nat \<Rightarrow> nat list" where
  "encode_point c =
     (if c < 0x80 then [c]
      else if c < 0x800 then [0xC0 + c div 64, 0x80 + c mod 64]
      else if c < 0x10000 then [0xE0 + c div 4096, 0x80 + c div 64 mod 64, 0x80 + c mod 64]
      else [0xF0 + c div 262144, 0x80 + c div 4096 mod 64, 0x80 + c div 64 mod 64, 0x80 + c mod 64])"

definition textEncode :: "ustring \<Rightarrow> bytes" where
  "textEncode s = map of_nat (concat (map encode_point (code_points s)))"

section \<open>Decoding\<close>

text \<open>
  The state of the decoder: the code point so far, the number of bytes still needed, and the range
  the next byte has to be in. \<open>start_byte\<close> is what it does with a byte when none is needed.
\<close>

record utf8_state =
  u_point :: nat
  u_needed :: nat
  u_lower :: nat
  u_upper :: nat

definition u_init :: utf8_state where
  "u_init = \<lparr>u_point = 0, u_needed = 0, u_lower = 0x80, u_upper = 0xBF\<rparr>"

definition start_byte :: "nat \<Rightarrow> nat list \<times> utf8_state" where
  "start_byte b =
     (if b < 0x80 then ([b], u_init)
      else if 0xC2 \<le> b \<and> b \<le> 0xDF then ([], u_init\<lparr>u_needed := 1, u_point := b - 0xC0\<rparr>)
      else if 0xE0 \<le> b \<and> b \<le> 0xEF
      then ([], u_init\<lparr>u_needed := 2, u_point := b - 0xE0, u_lower := if b = 0xE0 then 0xA0 else 0x80,
                      u_upper := if b = 0xED then 0x9F else 0xBF\<rparr>)
      else if 0xF0 \<le> b \<and> b \<le> 0xF4
      then ([], u_init\<lparr>u_needed := 3, u_point := b - 0xF0, u_lower := if b = 0xF0 then 0x90 else 0x80,
                      u_upper := if b = 0xF4 then 0x8F else 0xBF\<rparr>)
      else ([replacement], u_init))"

definition next_byte :: "utf8_state \<Rightarrow> nat \<Rightarrow> nat list \<times> utf8_state" where
  "next_byte s b =
     (if u_needed s = 0 then start_byte b
      else if b < u_lower s \<or> u_upper s < b then apfst (Cons replacement) (start_byte b)
      else let p = u_point s * 64 + (b - 0x80)
           in if u_needed s = 1 then ([p], u_init)
              else ([], u_init\<lparr>u_point := p, u_needed := u_needed s - 1\<rparr>))"

fun decode_points :: "utf8_state \<Rightarrow> nat list \<Rightarrow> nat list" where
  "decode_points s [] = (if u_needed s = 0 then [] else [replacement])"
| "decode_points s (b # bs) = fst (next_byte s b) @ decode_points (snd (next_byte s b)) bs"

definition strip_bom :: "nat list \<Rightarrow> nat list" where
  "strip_bom cs = (case cs of c # r \<Rightarrow> if c = 0xFEFF then r else cs | [] \<Rightarrow> [])"

definition textDecode :: "bytes \<Rightarrow> ustring" where
  "textDecode bs = concat (map units_of (strip_bom (decode_points u_init (map unat bs))))"

section \<open>There and back\<close>

definition scalar :: "nat \<Rightarrow> bool" where
  "scalar c \<longleftrightarrow> c < 0x110000 \<and> \<not> (0xD800 \<le> c \<and> c < 0xE000)"

lemma decode_Cons:
  "next_byte s b = (out, s') \<Longrightarrow> decode_points s (b # bs) = out @ decode_points s' bs"
  by simp

lemma next_continuation:
  assumes "u_needed s = Suc n" and "u_lower s \<le> 0x80 + d" and "0x80 + d \<le> u_upper s"
  shows "next_byte s (0x80 + d) =
    (if n = 0 then ([u_point s * 64 + d], u_init)
     else ([], u_init\<lparr>u_point := u_point s * 64 + d, u_needed := n\<rparr>))"
  using assms by (auto simp: next_byte_def Let_def)

lemma u_init_select [simp]:
  "u_point u_init = 0" "u_needed u_init = 0" "u_lower u_init = 0x80" "u_upper u_init = 0xBF"
  by (simp_all add: u_init_def)

lemma next_start: "next_byte u_init b = start_byte b"
  by (simp add: next_byte_def)

lemma decode_1: "c < 0x80 \<Longrightarrow> decode_points u_init (c # bs) = c # decode_points u_init bs"
  by (simp add: next_start start_byte_def)

lemma decode_2:
  assumes "0x80 \<le> c" "c < 0x800"
  shows "decode_points u_init ([0xC0 + c div 64, 0x80 + c mod 64] @ bs) = c # decode_points u_init bs"
proof -
  have "2 \<le> c div 64" "c div 64 < 32"
    using assms by (simp_all add: less_eq_div_iff_mult_less_eq div_less_iff_less_mult)
  then have "start_byte (0xC0 + c div 64) = ([], u_init\<lparr>u_needed := 1, u_point := c div 64\<rparr>)"
    by (simp add: start_byte_def)
  moreover have "next_byte (u_init\<lparr>u_needed := 1, u_point := c div 64\<rparr>) (0x80 + c mod 64) = ([c], u_init)"
    by (subst next_continuation [where n = 0]) (simp_all add: less_imp_le_nat mod_less_divisor [THEN less_imp_le])
  ultimately show ?thesis by (simp add: next_start)
qed

lemma quotient_split: "q div 64 = d \<Longrightarrow> q = 64 * d + q mod 64 \<and> q mod 64 < (64 :: nat)"
  using mult_div_mod_eq [of 64 q] by simp

lemma decode_3:
  assumes "0x800 \<le> c" "c < 0x10000" "scalar c"
  shows "decode_points u_init ([0xE0 + c div 4096, 0x80 + c div 64 mod 64, 0x80 + c mod 64] @ bs) =
    c # decode_points u_init bs"
proof -
  define q where "q = c div 64"
  have q: "32 \<le> q" "q < 1024" "q < 864 \<or> 896 \<le> q"
    using assms by (auto simp: q_def scalar_def less_eq_div_iff_mult_less_eq div_less_iff_less_mult)
  have lead: "c div 4096 = q div 64" and c: "c = q * 64 + c mod 64"
    by (simp_all add: q_def div_mult2_eq [symmetric])
  have b: "q div 64 < 16" "q div 64 = 0 \<longrightarrow> 32 \<le> q mod 64" "q div 64 = 13 \<longrightarrow> q mod 64 < 32"
    using q by (simp add: div_less_iff_less_mult) (use q quotient_split [of q 0] quotient_split [of q 13] in linarith)+
  let ?s1 = "u_init\<lparr>u_needed := 2, u_point := q div 64, u_lower := if q div 64 = 0 then 0xA0 else 0x80,
      u_upper := if q div 64 = 13 then 0x9F else 0xBF\<rparr>"
  have "start_byte (0xE0 + q div 64) = ([], ?s1)"
    using b(1) by (auto simp: start_byte_def)
  moreover have "next_byte ?s1 (0x80 + q mod 64) = ([], u_init\<lparr>u_point := q div 64 * 64 + q mod 64, u_needed := 1\<rparr>)"
    using b(2,3) mod_less_divisor [of 64 q] by (subst next_continuation [where n = 1]) auto
  moreover have "next_byte (u_init\<lparr>u_point := q div 64 * 64 + q mod 64, u_needed := 1\<rparr>) (0x80 + c mod 64) =
      ([c], u_init)"
    using mod_less_divisor [of 64 c] c by (subst next_continuation [where n = 0]) auto
  ultimately show ?thesis
    by (simp add: lead q_def [symmetric] next_start)
qed

lemma decode_4:
  assumes "0x10000 \<le> c" "c < 0x110000"
  shows "decode_points u_init ([0xF0 + c div 262144, 0x80 + c div 4096 mod 64, 0x80 + c div 64 mod 64, 0x80 + c mod 64] @ bs) =
    c # decode_points u_init bs"
proof -
  define q where "q = c div 4096"
  have q: "16 \<le> q" "q < 272"
    using assms by (auto simp: q_def less_eq_div_iff_mult_less_eq div_less_iff_less_mult)
  have "c div 64 div 64 = q" and lead: "c div 262144 = q div 64"
    by (simp_all add: q_def div_mult2_eq [symmetric])
  then have c: "c div 64 = q * 64 + c div 64 mod 64" "c = c div 64 * 64 + c mod 64"
    using div_mult_mod_eq [of "c div 64" 64] by simp_all
  have b: "q div 64 \<le> 4" "q div 64 = 0 \<longrightarrow> 16 \<le> q mod 64" "q div 64 = 4 \<longrightarrow> q mod 64 < 16"
    using q by linarith (use q quotient_split [of q 0] quotient_split [of q 4] in linarith)+
  let ?s1 = "u_init\<lparr>u_needed := 3, u_point := q div 64, u_lower := if q div 64 = 0 then 0x90 else 0x80,
      u_upper := if q div 64 = 4 then 0x8F else 0xBF\<rparr>"
  have "start_byte (0xF0 + q div 64) = ([], ?s1)"
    using b(1) by (auto simp: start_byte_def)
  moreover have "next_byte ?s1 (0x80 + q mod 64) = ([], u_init\<lparr>u_point := q, u_needed := 2\<rparr>)"
    using b(2,3) mod_less_divisor [of 64 q] by (subst next_continuation [where n = 2]) auto
  moreover have "next_byte (u_init\<lparr>u_point := q, u_needed := 2\<rparr>) (0x80 + c div 64 mod 64) =
      ([], u_init\<lparr>u_point := c div 64, u_needed := 1\<rparr>)"
    using mod_less_divisor [of 64 "c div 64"] c(1) by (subst next_continuation [where n = 1]) auto
  moreover have "next_byte (u_init\<lparr>u_point := c div 64, u_needed := 1\<rparr>) (0x80 + c mod 64) = ([c], u_init)"
    using mod_less_divisor [of 64 c] c(2) by (subst next_continuation [where n = 0]) auto
  ultimately show ?thesis
    by (simp add: lead q_def [symmetric] next_start)
qed

lemma decode_encode_point:
  assumes "scalar c"
  shows "decode_points u_init (encode_point c @ bs) = c # decode_points u_init bs"
proof -
  have "c < 0x110000" using assms by (simp add: scalar_def)
  with assms show ?thesis
    unfolding encode_point_def using decode_1 [of c bs] decode_2 [of c bs] decode_3 [of c bs] decode_4 [of c bs]
    by (simp only: append_Cons append_Nil not_less split: if_splits) (auto simp only: not_less)
qed

lemma decode_encode_points:
  "\<forall>c \<in> set cs. scalar c \<Longrightarrow> decode_points u_init (concat (map encode_point cs)) = cs"
  by (induction cs) (simp_all add: decode_encode_point)

text \<open>Well-formed text: 16-bit units, every surrogate with its partner.\<close>

fun well_formed :: "ustring \<Rightarrow> bool" where
  "well_formed [] \<longleftrightarrow> True"
| "well_formed (u # us) \<longleftrightarrow>
     u < 0x10000 \<and>
     (if is_high u then (case us of v # vs \<Rightarrow> is_low v \<and> well_formed vs | [] \<Rightarrow> False)
      else \<not> is_low u \<and> well_formed us)"

lemma surrogates_back:
  assumes "is_high u" "is_low v"
  shows "units_of (0x10000 + (u - 0xD800) * 0x400 + (v - 0xDC00)) = [u, v]"
    and "scalar (0x10000 + (u - 0xD800) * 0x400 + (v - 0xDC00))"
proof -
  obtain a b where ab: "u = 0xD800 + a" "a < 0x400" "v = 0xDC00 + b" "b < 0x400"
    using assms by (auto simp: is_high_def is_low_def le_iff_add)
  then show "units_of (0x10000 + (u - 0xD800) * 0x400 + (v - 0xDC00)) = [u, v]"
    by (simp add: units_of_def)
  show "scalar (0x10000 + (u - 0xD800) * 0x400 + (v - 0xDC00))"
    using ab by (simp add: scalar_def)
qed

lemma code_points_back:
  "well_formed s \<Longrightarrow> concat (map units_of (code_points s)) = s \<and> (\<forall>c \<in> set (code_points s). scalar c)"
proof (induction s rule: code_points.induct)
  case 1
  then show ?case by simp
next
  case (2 u us)
  show ?case
  proof (cases "is_high u")
    case True
    then obtain v vs where us: "us = v # vs" "is_low v" "well_formed vs"
      using "2.prems" by (auto split: list.splits)
    have "concat (map units_of (code_points vs)) = vs \<and> (\<forall>c \<in> set (code_points vs). scalar c)"
      using "2.IH"(1) [OF True us(1,2,3)] .
    moreover have "code_points (u # us) = (0x10000 + (u - 0xD800) * 0x400 + (v - 0xDC00)) # code_points vs"
      using True us(2) unfolding us(1) by simp
    ultimately show ?thesis
      using surrogates_back [OF True us(2)] unfolding us(1) by (simp del: code_points.simps)
  next
    case False
    then have u: "\<not> is_low u" "well_formed us" "u < 0x10000"
      using "2.prems" by auto
    have "concat (map units_of (code_points us)) = us \<and> (\<forall>c \<in> set (code_points us). scalar c)"
      using "2.IH"(4) [OF False u(1,2)] .
    moreover have "code_points (u # us) = u # code_points us"
      using False u(1) by simp
    moreover have "units_of u = [u]" and "scalar u"
      using False u by (auto simp: units_of_def scalar_def is_high_def is_low_def)
    ultimately show ?thesis by (simp del: code_points.simps)
  qed
qed

lemma continuation_byte: "0x80 + c mod 64 < (256 :: nat)"
  using mod_less_divisor [of 64 c] by linarith

lemma encode_point_bytes:
  assumes "scalar c" "b \<in> set (encode_point c)"
  shows "b < 256"
proof -
  have "c < 0x110000" using assms(1) by (simp add: scalar_def)
  then have "c div 262144 < 5" by (simp add: div_less_iff_less_mult)
  moreover have "c < 0x800 \<Longrightarrow> c div 64 < 32" and "c < 0x10000 \<Longrightarrow> c div 4096 < 16"
    by (simp_all add: div_less_iff_less_mult)
  ultimately show ?thesis
    using assms(2) continuation_byte [of c] continuation_byte [of "c div 64"] continuation_byte [of "c div 4096"]
    by (auto simp: encode_point_def split: if_splits)
qed

lemma unat_textEncode:
  assumes "well_formed s"
  shows "map unat (textEncode s) = concat (map encode_point (code_points s))"
proof -
  have "\<forall>b \<in> set (concat (map encode_point (code_points s))). b < 256"
    using code_points_back [OF assms] by (auto intro: encode_point_bytes)
  then have "map (unat \<circ> (of_nat :: nat \<Rightarrow> byte)) (concat (map encode_point (code_points s))) =
      concat (map encode_point (code_points s))"
    by (intro map_idI) (auto simp: unat_of_nat)
  then show ?thesis
    unfolding textEncode_def map_map .
qed

text \<open>The first code point is the byte order mark only if the first code unit is.\<close>

definition no_bom :: "ustring \<Rightarrow> bool" where
  "no_bom s \<longleftrightarrow> (case s of u # us \<Rightarrow> u \<noteq> 0xFEFF | [] \<Rightarrow> True)"

lemma strip_bom_code_points:
  assumes "no_bom s" shows "strip_bom (code_points s) = code_points s"
  using assms by (cases s) (auto simp: no_bom_def strip_bom_def replacement_def split: list.splits)

lemma textDecode_textEncode:
  assumes "well_formed s" and "no_bom s"
  shows "textDecode (textEncode s) = s"
  using code_points_back [OF assms(1)] decode_encode_points [of "code_points s"]
  by (simp add: textDecode_def unat_textEncode [OF assms(1)] strip_bom_code_points [OF assms(2)])

lemma textEncode_inj:
  assumes "well_formed s" "well_formed t" and "textEncode s = textEncode t"
  shows "s = t"
proof -
  have "concat (map encode_point (code_points s)) = concat (map encode_point (code_points t))"
    using assms unat_textEncode by metis
  then have "code_points s = code_points t"
    using decode_encode_points code_points_back [OF assms(1)] code_points_back [OF assms(2)] by metis
  then show ?thesis
    using code_points_back [OF assms(1)] code_points_back [OF assms(2)] by metis
qed

end
