(* ===== verification/Variant_Bytes.thy ===== *)
theory Variant_Bytes
  imports JS_Prelude
begin

text \<open>
  The byte helpers of \<open>confluent/type/variant-utils.ts\<close>: little-endian unsigned and two's-complement
  integers, sizes, type headers and the byte order of keys. What is written is read back; that is
  the ground the round trip of the whole codec stands on.
\<close>

section \<open>Constants\<close>

definition BASIC_TYPE_BITS :: nat where "BASIC_TYPE_BITS = 2"
definition BASIC_TYPE_MASK :: int where "BASIC_TYPE_MASK = 0x3"
definition TYPE_INFO_MASK :: int where "TYPE_INFO_MASK = 0x3f"
definition MAX_SHORT_STR_SIZE :: nat where "MAX_SHORT_STR_SIZE = 0x3f"

definition PRIMITIVE :: nat where "PRIMITIVE = 0"
definition SHORT_STR :: nat where "SHORT_STR = 1"
definition OBJECT :: nat where "OBJECT = 2"
definition ARRAY :: nat where "ARRAY = 3"

definition T_NULL :: nat where "T_NULL = 0"
definition T_TRUE :: nat where "T_TRUE = 1"
definition T_FALSE :: nat where "T_FALSE = 2"
definition T_INT1 :: nat where "T_INT1 = 3"
definition T_INT2 :: nat where "T_INT2 = 4"
definition T_INT4 :: nat where "T_INT4 = 5"
definition T_INT8 :: nat where "T_INT8 = 6"
definition T_DOUBLE :: nat where "T_DOUBLE = 7"
definition T_DECIMAL4 :: nat where "T_DECIMAL4 = 8"
definition T_DECIMAL8 :: nat where "T_DECIMAL8 = 9"
definition T_DECIMAL16 :: nat where "T_DECIMAL16 = 10"
definition T_DATE :: nat where "T_DATE = 11"
definition T_TIMESTAMP :: nat where "T_TIMESTAMP = 12"
definition T_TIMESTAMP_NTZ :: nat where "T_TIMESTAMP_NTZ = 13"
definition T_FLOAT :: nat where "T_FLOAT = 14"
definition T_BINARY :: nat where "T_BINARY = 15"
definition T_LONG_STR :: nat where "T_LONG_STR = 16"
definition T_TIME :: nat where "T_TIME = 17"
definition T_TIMESTAMP_NANOS :: nat where "T_TIMESTAMP_NANOS = 18"
definition T_TIMESTAMP_NANOS_NTZ :: nat where "T_TIMESTAMP_NANOS_NTZ = 19"
definition T_UUID :: nat where "T_UUID = 20"

lemmas type_codes = T_NULL_def T_TRUE_def T_FALSE_def T_INT1_def T_INT2_def T_INT4_def T_INT8_def
  T_DOUBLE_def T_DECIMAL4_def T_DECIMAL8_def T_DECIMAL16_def T_DATE_def T_TIMESTAMP_def
  T_TIMESTAMP_NTZ_def T_FLOAT_def T_BINARY_def T_LONG_STR_def T_TIME_def T_TIMESTAMP_NANOS_def
  T_TIMESTAMP_NANOS_NTZ_def T_UUID_def

lemmas basic_types = PRIMITIVE_def SHORT_STR_def OBJECT_def ARRAY_def

definition U8_MAX :: nat where "U8_MAX = 0xff"
definition U16_MAX :: nat where "U16_MAX = 0xffff"
definition U24_MAX :: nat where "U24_MAX = 0xffffff"
definition U32_SIZE :: nat where "U32_SIZE = 4"

definition VERSION :: int where "VERSION = 1"
definition VERSION_MASK :: int where "VERSION_MASK = 0x0f"

section \<open>Reading\<close>

definition malformed :: "string \<Rightarrow> js_error" where
  "malformed m = VariantError (''malformed variant: '' @ m)"

definition checkIndex :: "nat \<Rightarrow> nat \<Rightarrow> unit result" where
  "checkIndex pos len = res_guard (pos < len) (malformed ''index out of bounds'')"

definition readUnsignedLE :: "bytes \<Rightarrow> nat \<Rightarrow> nat \<Rightarrow> nat result" where
  "readUnsignedLE data pos numBytes =
     res_bind (checkIndex pos (length data)) (\<lambda>_.
       res_bind (checkIndex (pos + numBytes - 1) (length data)) (\<lambda>_.
         Inr (foldr (\<lambda>i r. r * 256 + unat (data ! (pos + i))) [0..<numBytes] 0)))"

definition readSignedLE :: "bytes \<Rightarrow> nat \<Rightarrow> nat \<Rightarrow> int result" where
  "readSignedLE data pos width =
     res_bind (checkIndex pos (length data)) (\<lambda>_.
       res_bind (checkIndex (pos + width - 1) (length data)) (\<lambda>_.
         let result = foldr (\<lambda>i r. push_bit 8 r OR uint (data ! (pos + i))) [0..<width] 0
         in Inr (if js_and (uint (data ! (pos + width - 1))) 0x80 \<noteq> 0 then result - push_bit (width * 8) 1 else result)))"

text \<open>The basic type and the type info of the byte at a position inside the buffer.\<close>

definition getTypeInfo :: "bytes \<Rightarrow> nat \<Rightarrow> nat \<times> nat" where
  "getTypeInfo value pos =
     (nat (js_and (uint (value ! pos)) BASIC_TYPE_MASK),
      nat (js_and (js_shr (uint (value ! pos)) BASIC_TYPE_BITS) TYPE_INFO_MASK))"

section \<open>Writing\<close>

definition primitiveHeader :: "nat \<Rightarrow> byte" where
  "primitiveHeader typeCode = word_of_int (js_or (js_shl (int typeCode) 2) (int PRIMITIVE))"

definition integerSize :: "nat \<Rightarrow> nat" where
  "integerSize value = (if value \<le> U8_MAX then 1 else if value \<le> U16_MAX then 2 else if value \<le> U24_MAX then 3 else U32_SIZE)"

definition pushUintLE :: "nat \<Rightarrow> nat \<Rightarrow> bytes" where
  "pushUintLE value numBytes = map (\<lambda>i. word_of_int (js_and (js_ushr (int value) (8 * i)) 0xff)) [0..<numBytes]"

fun push_bytes :: "int \<Rightarrow> nat \<Rightarrow> bytes" where
  "push_bytes v 0 = []"
| "push_bytes v (Suc w) = word_of_int (v AND 0xff) # push_bytes (drop_bit 8 v) w"

definition pushSignedLE :: "int \<Rightarrow> nat \<Rightarrow> bytes" where
  "pushSignedLE value width = push_bytes (if value < 0 then push_bit (width * 8) 1 + value else value) width"

definition bigEndianSigned :: "bytes \<Rightarrow> int" where
  "bigEndianSigned bs =
     (let result = fold (\<lambda>b r. push_bit 8 r OR uint b) bs 0
      in if bs \<noteq> [] \<and> js_and (uint (bs ! 0)) 0x80 \<noteq> 0 then result - push_bit (length bs * 8) 1 else result)"

fun compareKeysBytes :: "bytes \<Rightarrow> bytes \<Rightarrow> int" where
  "compareKeysBytes (x # a) (y # b) = (if x \<noteq> y then uint x - uint y else compareKeysBytes a b)"
| "compareKeysBytes a b = int (length a) - int (length b)"

section \<open>Little-endian numbers\<close>

fun le_val :: "bytes \<Rightarrow> nat" where
  "le_val [] = 0"
| "le_val (b # bs) = unat b + 256 * le_val bs"

lemma le_val_less: "le_val bs < 256 ^ length bs"
proof (induction bs)
  case Nil
  then show ?case by simp
next
  case (Cons b bs)
  have "unat b + 256 * le_val bs < 256 * (le_val bs + 1)" by simp
  also have "\<dots> \<le> 256 * 256 ^ length bs"
    using Cons by (intro mult_le_mono) simp_all
  finally show ?case by simp
qed

lemma foldr_le_val:
  "foldr (\<lambda>i r. r * 256 + unat (data ! (pos + i))) [k..<k + n] 0 = le_val (map (\<lambda>i. data ! (pos + i)) [k..<k + n])"
proof (induction n arbitrary: k)
  case 0
  then show ?case by simp
next
  case (Suc n)
  then show ?case using Suc [of "Suc k"] by (simp add: upt_conv_Cons del: upt_Suc)
qed

lemma take_drop_map: "pos + n \<le> length data \<Longrightarrow> take n (drop pos data) = map (\<lambda>i. data ! (pos + i)) [0..<n]"
  by (intro nth_equalityI) auto

lemma readUnsignedLE_eq:
  assumes "0 < n" and "pos + n \<le> length data"
  shows "readUnsignedLE data pos n = Inr (le_val (take n (drop pos data)))"
  using assms foldr_le_val [of data pos 0 n]
  by (simp add: readUnsignedLE_def checkIndex_def res_bind_guard take_drop_map)

lemma readUnsignedLE_append:
  "0 < length bs \<Longrightarrow> readUnsignedLE (pre @ bs @ post) (length pre) (length bs) = Inr (le_val bs)"
  by (subst readUnsignedLE_eq) simp_all

lemma uint_of_nat_byte: "uint (of_nat n :: byte) = int n mod 256"
  by (simp add: unsigned_of_nat take_bit_eq_mod zmod_int)

lemma unat_of_nat_byte: "unat (of_nat n :: byte) = n mod 256"
  by (simp add: unat_of_nat)

lemma pushUintLE_nth_nat:
  "value < 2 ^ 32 \<Longrightarrow> i < 4 \<Longrightarrow>
     word_of_int (js_and (js_ushr (int value) (8 * i)) 0xff) = (of_nat (value div 256 ^ i) :: byte)"
proof -
  assume v: "value < 2 ^ 32" and i: "i < 4"
  have "int value < 2 ^ 32"
    using v by simp
  then have "js_ushr (int value) (8 * i) = int value div 2 ^ (8 * i)"
    using i by (intro js_ushr_nonneg) auto
  also have "(2 :: int) ^ (8 * i) = int (256 ^ i)"
    by (simp add: power_mult)
  also have "int value div int (256 ^ i) = int (value div 256 ^ i)"
    by (rule zdiv_int [symmetric])
  finally show ?thesis
    unfolding js_and_0xff by (intro byte_of_int_eqI) (simp only: uint_of_nat_byte mod_mod_trivial)
qed

lemma push_digits:
  "le_val (map (\<lambda>i. of_nat (v div 256 ^ i)) [0..<n]) = v mod 256 ^ n"
proof (induction n arbitrary: v)
  case 0
  then show ?case by simp
next
  case (Suc n)
  have "map (\<lambda>i. (of_nat (v div 256 ^ i) :: byte)) [0..<Suc n] =
      of_nat v # map (\<lambda>i. of_nat ((v div 256) div 256 ^ i)) [0..<n]"
    by (simp add: upt_conv_Cons map_Suc_upt [symmetric] div_mult2_eq [symmetric] del: upt_Suc)
  then have "le_val (map (\<lambda>i. (of_nat (v div 256 ^ i) :: byte)) [0..<Suc n]) =
      v mod 256 + 256 * ((v div 256) mod 256 ^ n)"
    using Suc [of "v div 256"] by (simp add: unat_of_nat)
  also have "\<dots> = v mod 256 ^ Suc n"
    using mod_mult2_eq [of v 256 "256 ^ n"] by simp
  finally show ?case .
qed

lemma pushUintLE_eq:
  "v < 2 ^ 32 \<Longrightarrow> n \<le> 4 \<Longrightarrow> pushUintLE v n = map (\<lambda>i. of_nat (v div 256 ^ i)) [0..<n]"
  unfolding pushUintLE_def by (rule map_cong) (auto simp del: of_nat_power intro!: pushUintLE_nth_nat)

lemma length_pushUintLE [simp]: "length (pushUintLE v n) = n"
  by (simp add: pushUintLE_def)

lemma le_val_pushUintLE: "v < 256 ^ n \<Longrightarrow> n \<le> 4 \<Longrightarrow> le_val (pushUintLE v n) = v"
proof -
  assume v: "v < 256 ^ n" and n: "n \<le> 4"
  have "(256 :: nat) ^ n \<le> 256 ^ 4"
    using n by (intro power_increasing) simp_all
  with v have "v < 2 ^ 32" by simp
  with v n show ?thesis by (simp add: pushUintLE_eq push_digits)
qed

text \<open>An unsigned number that fits its bytes is read back from wherever it was written.\<close>

lemma readUnsignedLE_pushUintLE [codec_simps]:
  "0 < n \<Longrightarrow> n \<le> 4 \<Longrightarrow> v < 256 ^ n \<Longrightarrow> readUnsignedLE (pre @ pushUintLE v n @ post) (length pre) n = Inr v"
  using readUnsignedLE_append [of "pushUintLE v n" pre post] by (simp add: le_val_pushUintLE)

lemma integerSize_bounds: "0 < integerSize v" "integerSize v \<le> 4"
  by (simp_all add: integerSize_def U32_SIZE_def)

lemma integerSize_fits: "v < 2 ^ 32 \<Longrightarrow> v < 256 ^ integerSize v"
  by (simp add: integerSize_def U8_MAX_def U16_MAX_def U24_MAX_def U32_SIZE_def)

lemma integerSize_fits_le: "v \<le> w \<Longrightarrow> w < 2 ^ 32 \<Longrightarrow> v < 256 ^ integerSize w"
  using integerSize_fits [of w] by simp

section \<open>Two's complement\<close>

lemma foldr_or_le_val:
  "foldr (\<lambda>i r. push_bit 8 r OR uint (data ! (pos + i))) [k..<k + n] 0 =
     int (le_val (map (\<lambda>i. data ! (pos + i)) [k..<k + n]))"
proof (induction n arbitrary: k)
  case 0
  then show ?case by simp
next
  case (Suc n)
  have or: "push_bit 8 (int x) OR uint b = int (unat b + 256 * x)" for x and b :: byte
  proof -
    have "uint b OR push_bit 8 (int x) = uint b + int x * 2 ^ 8"
      using uint_byte_less [of b] by (intro or_push_bit_add) simp_all
    then show ?thesis
      by (simp add: or.commute)
  qed
  have "foldr (\<lambda>i r. push_bit 8 r OR uint (data ! (pos + i))) [k..<k + Suc n] 0 =
      push_bit 8 (int (le_val (map (\<lambda>i. data ! (pos + i)) [Suc k..<Suc k + n]))) OR uint (data ! (pos + k))"
    using Suc [of "Suc k"] by (simp add: upt_conv_Cons del: upt_Suc)
  also have "\<dots> = int (le_val (map (\<lambda>i. data ! (pos + i)) [k..<k + Suc n]))"
    unfolding or by (simp add: upt_conv_Cons del: upt_Suc)
  finally show ?case .
qed

lemma top_bit: "js_and (uint (b :: byte)) 0x80 \<noteq> 0 \<longleftrightarrow> 128 \<le> uint b"
proof -
  have "to_int32 (uint b) = uint b"
    by (intro to_int32_id order_trans [OF _ unsigned_greater_eq] less_trans [OF uint_byte_less]) simp_all
  moreover have "to_int32 (0x80 :: int) = 2 ^ 7"
    by (simp add: to_int32_def)
  ultimately have "js_and (uint b) 0x80 = of_bool (bit (uint b) 7) * 2 ^ 7"
    unfolding js_and_def by (simp only: and_exp_eq)
  moreover have "bit (uint b) 7 \<longleftrightarrow> odd (uint b div 128)"
    by (simp add: bit_iff_odd)
  moreover have "odd (x div 128) \<longleftrightarrow> 128 \<le> x" if "0 \<le> x" "x < 256" for x :: int
    using that by presburger
  ultimately show ?thesis
    using uint_byte_less [of b] unsigned_greater_eq [of b] by simp
qed

lemma le_val_append: "le_val (xs @ ys) = le_val xs + 256 ^ length xs * le_val ys"
  by (induction xs) (simp_all add: algebra_simps)

text \<open>The sign of a two's-complement number is the top bit of its last byte.\<close>

lemma le_val_top: "bs \<noteq> [] \<Longrightarrow> 128 \<le> unat (last bs) \<longleftrightarrow> 256 ^ length bs \<le> 2 * le_val bs"
proof (induction bs rule: rev_induct)
  case Nil
  then show ?case by simp
next
  case (snoc b bs)
  have less: "le_val bs < 256 ^ length bs" by (rule le_val_less)
  have eq: "2 * le_val (bs @ [b]) = 2 * le_val bs + 256 ^ length bs * (2 * unat b)"
    by (simp add: le_val_append)
  show ?case
  proof (cases "128 \<le> unat b")
    case True
    then have "256 ^ length bs * 256 \<le> 256 ^ length bs * (2 * unat b)"
      by (intro mult_le_mono) simp_all
    then have "256 * 256 ^ length bs \<le> 2 * le_val (bs @ [b])"
      unfolding eq by linarith
    with True show ?thesis by simp
  next
    case False
    then have "256 ^ length bs * (2 * unat b) \<le> 256 ^ length bs * 254"
      by (intro mult_le_mono) simp_all
    then have "2 * le_val (bs @ [b]) < 256 * 256 ^ length bs"
      unfolding eq using less by linarith
    with False show ?thesis by simp
  qed
qed

definition signed_val :: "bytes \<Rightarrow> int" where
  "signed_val bs = int (le_val bs) - (if 256 ^ length bs \<le> 2 * le_val bs then 256 ^ length bs else 0)"

lemma readSignedLE_append:
  assumes "bs \<noteq> []"
  shows "readSignedLE (pre @ bs @ post) (length pre) (length bs) = Inr (signed_val bs)"
proof -
  let ?d = "pre @ bs @ post"
  have b: "map (\<lambda>i. ?d ! (length pre + i)) [0..<length bs] = bs"
    by (rule nth_equalityI) (simp_all add: nth_append)
  have "length pre + length bs - 1 = length pre + (length bs - 1)" "length bs - 1 < length bs"
    using assms by (cases bs, simp_all)+
  then have l: "?d ! (length pre + length bs - 1) = last bs"
    using assms by (simp only: nth_append_length_plus) (simp add: nth_append last_conv_nth)
  have "(0x80 \<le> uint (last bs)) = (256 ^ length bs \<le> 2 * le_val bs)"
    using le_val_top [OF assms] unfolding uint_nat [of "last bs"] by presburger
  moreover have "push_bit (length bs * 8) (1::int) = 256 ^ length bs"
    by (subst mult.commute) (simp add: push_bit_eq_mult power_mult)
  moreover have "foldr (\<lambda>i r. push_bit 8 r OR uint (?d ! (length pre + i))) [0..<length bs] 0 = int (le_val bs)"
    using foldr_or_le_val [of ?d "length pre" 0 "length bs"] b by simp
  ultimately show ?thesis
    using l assms
    by (cases bs) (simp_all add: readSignedLE_def checkIndex_def res_bind_guard top_bit signed_val_def Let_def
        del: push_bit_of_1)
qed

lemma push_bytes_eq: "0 \<le> v \<Longrightarrow> push_bytes v w = map (\<lambda>i. of_nat (nat v div 256 ^ i)) [0..<w]"
proof (induction w arbitrary: v)
  case 0
  then show ?case by simp
next
  case (Suc w)
  have "v AND 0xff = v mod 256"
    using take_bit_eq_mask [of 8 v] by (simp add: mask_eq_exp_minus_1 take_bit_eq_mod)
  then have hd: "word_of_int (v AND 0xff) = (of_nat (nat v) :: byte)"
    using Suc.prems by (intro byte_of_int_eqI) (simp add: uint_of_nat_byte del: of_nat_nat)
  have "drop_bit 8 v = v div 256" by (simp add: drop_bit_eq_div)
  moreover have "nat (v div 256) = nat v div 256"
    using Suc.prems by (simp add: nat_div_distrib)
  moreover have "0 \<le> v div 256" using Suc.prems by simp
  ultimately have "push_bytes (drop_bit 8 v) w = map (\<lambda>i. of_nat ((nat v div 256) div 256 ^ i)) [0..<w]"
    using Suc.IH by simp
  then show ?case
    using hd by (simp add: upt_conv_Cons map_Suc_upt [symmetric] div_mult2_eq [symmetric] del: upt_Suc)
qed

lemma length_pushSignedLE [simp]: "length (pushSignedLE v w) = w"
proof -
  have "length (push_bytes u n) = n" for u n by (induction n arbitrary: u) auto
  then show ?thesis by (simp add: pushSignedLE_def)
qed

definition fits :: "int \<Rightarrow> nat \<Rightarrow> bool" where
  "fits v w \<longleftrightarrow> - (256 ^ w) \<le> 2 * v \<and> 2 * v < 256 ^ w"

lemma signed_val_push: "0 < w \<Longrightarrow> fits v w \<Longrightarrow> signed_val (pushSignedLE v w) = v"
proof -
  assume w: "0 < w" and f: "fits v w"
  define u where "u = (if v < 0 then 256 ^ w + v else v)"
  have two: "(2 :: int) ^ (w * 8) = 256 ^ w"
    by (subst mult.commute) (simp add: power_mult)
  have u: "0 \<le> u" "u < 256 ^ w"
    using f by (auto simp: fits_def u_def)
  have "pushSignedLE v w = push_bytes u w"
    by (simp add: pushSignedLE_def u_def push_bit_eq_mult two)
  then have le: "le_val (pushSignedLE v w) = nat u mod 256 ^ w"
    using u push_bytes_eq push_digits by simp
  moreover have "nat u < 256 ^ w"
    using u by (simp add: nat_less_iff)
  ultimately have le': "int (le_val (pushSignedLE v w)) = u"
    using u by simp
  have "(256 ^ w \<le> 2 * le_val (pushSignedLE v w)) = ((256 :: int) ^ w \<le> 2 * u)"
    using le' by (metis of_nat_le_iff of_nat_mult of_nat_numeral of_nat_power)
  then show ?thesis
    using le' f by (auto simp: signed_val_def u_def fits_def)
qed

text \<open>A signed number that fits its width is read back.\<close>

lemma readSignedLE_pushSignedLE [codec_simps]:
  "0 < w \<Longrightarrow> fits v w \<Longrightarrow> readSignedLE (pre @ pushSignedLE v w @ post) (length pre) w = Inr v"
  using readSignedLE_append [of "pushSignedLE v w" pre post] signed_val_push [of w v]
  by (metis length_0_conv length_pushSignedLE less_not_refl)

end
