(* ===== verification/Variant_Format.thy ===== *)
theory Variant_Format
  imports Variant_Bytes Utf8
begin

text \<open>
  The text forms of \<open>confluent/type/variant-utils.ts\<close>: dates, times and timestamps, decimals, UUIDs,
  doubles and JSON strings. The calendar fields are those of a \<open>Date\<close> in UTC.
\<close>

section \<open>Padding and fractions\<close>

definition padStart0 :: "nat \<Rightarrow> string \<Rightarrow> string" where
  "padStart0 width s = replicate (width - length s) CHR ''0'' @ s"

definition pad :: "int \<Rightarrow> nat \<Rightarrow> string" where
  "pad n width = padStart0 width (int_str n)"

definition fracNanos :: "int \<Rightarrow> string" where
  "fracNanos nanos =
     (if nanos = 0 then ''''
      else if trunc_mod nanos 1000000 = 0 then ''.'' @ pad (trunc_div nanos 1000000) 3
      else if trunc_mod nanos 1000 = 0 then ''.'' @ pad (trunc_div nanos 1000) 6
      else ''.'' @ pad nanos 9)"

definition floorDivMod :: "int \<Rightarrow> int \<Rightarrow> int \<times> int" where
  "floorDivMod n d =
     (let q = trunc_div n d; r = trunc_mod n d
      in if r \<noteq> 0 \<and> ((r < 0) \<noteq> (d < 0)) then (q - 1, r + d) else (q, r))"

section \<open>Calendar\<close>

text \<open>
  Year, month (from 1) and day of a day number: what \<open>getUTCFullYear\<close>, \<open>getUTCMonth\<close> and
  \<open>getUTCDate\<close> give in the proleptic Gregorian calendar. \<open>dayFromYear\<close> is the day number of the first
  of January.
\<close>

definition dayFromYear :: "int \<Rightarrow> int" where
  "dayFromYear y = 365 * (y - 1970) + (y - 1969) div 4 - (y - 1901) div 100 + (y - 1601) div 400"

definition yearFromDay :: "int \<Rightarrow> int" where
  "yearFromDay d =
     (let y = 1970 + (400 * d + 200) div 146097
      in if d < dayFromYear y then y - 1 else if dayFromYear (y + 1) \<le> d then y + 1 else y)"

definition leapYear :: "int \<Rightarrow> bool" where
  "leapYear y \<longleftrightarrow> y mod 4 = 0 \<and> (y mod 100 \<noteq> 0 \<or> y mod 400 = 0)"

definition monthDays :: "bool \<Rightarrow> int list" where
  "monthDays leap = [31, if leap then 29 else 28, 31, 30, 31, 30, 31, 31, 30, 31, 30, 31]"

fun monthAndDay :: "int \<Rightarrow> int \<Rightarrow> int list \<Rightarrow> int \<times> int" where
  "monthAndDay m d [] = (m, d + 1)"
| "monthAndDay m d (n # ns) = (if d < n then (m, d + 1) else monthAndDay (m + 1) (d - n) ns)"

definition civil :: "int \<Rightarrow> int \<times> int \<times> int" where
  "civil d =
     (let y = yearFromDay d; (m, dd) = monthAndDay 1 (d - dayFromYear y) (monthDays (leapYear y))
      in (y, m, dd))"

definition formatYearIso :: "int \<Rightarrow> string" where
  "formatYearIso year =
     (if year > 9999 then ''+'' @ int_str year
      else if year < 0 then ''-'' @ pad (- year) 4
      else pad year 4)"

definition formatYear04 :: "int \<Rightarrow> string" where
  "formatYear04 year = (if year < 0 then ''-'' @ pad (- year) 3 else pad year 4)"

definition ymd :: "int \<Rightarrow> (int \<Rightarrow> string) \<Rightarrow> string" where
  "ymd day formatYear =
     (case civil day of (y, m, d) \<Rightarrow> formatYear y @ ''-'' @ pad m 2 @ ''-'' @ pad d 2)"

definition MIN_TIMESTAMP_MICROS :: int where "MIN_TIMESTAMP_MICROS = -62135596800000000"
definition MAX_TIMESTAMP_MICROS :: int where "MAX_TIMESTAMP_MICROS = 253402300799999999"

definition out_of_range :: "string \<Rightarrow> int \<Rightarrow> int \<Rightarrow> int \<Rightarrow> js_error" where
  "out_of_range what v lo hi =
     VariantError (what @ '' ('' @ int_str v @ '') must be in range ['' @ int_str lo @ '', '' @ int_str hi @ '']'')"

definition checkMicrosRange :: "int \<Rightarrow> int result" where
  "checkMicrosRange micros =
     (if micros < MIN_TIMESTAMP_MICROS \<or> micros > MAX_TIMESTAMP_MICROS
      then Inl (out_of_range ''timestamp microseconds'' micros MIN_TIMESTAMP_MICROS MAX_TIMESTAMP_MICROS)
      else Inr micros)"

text \<open>The clock fields of a number of seconds since the epoch.\<close>

definition clock :: "int \<Rightarrow> string" where
  "clock sec =
     pad (sec mod 86400 div 3600) 2 @ '':'' @ pad (sec mod 3600 div 60) 2 @ '':'' @ pad (sec mod 60) 2"

definition formatInstant :: "int \<Rightarrow> string" where
  "formatInstant totalNanos =
     (let (sec, nano) = floorDivMod totalNanos 1000000000
      in ymd (sec div 86400) formatYearIso @ ''T'' @ clock sec @ fracNanos nano @ ''Z'')"

definition formatLocalDateTime :: "int \<Rightarrow> string" where
  "formatLocalDateTime totalNanos =
     (let (sec, nano) = floorDivMod totalNanos 1000000000
      in ymd (sec div 86400) formatYear04 @ ''T'' @ clock sec @ fracNanos nano)"

definition formatInstantMicros :: "int \<Rightarrow> string result" where
  "formatInstantMicros micros = res_bind (checkMicrosRange micros) (\<lambda>m. Inr (formatInstant (m * 1000)))"

definition formatLocalDateTimeMicros :: "int \<Rightarrow> string result" where
  "formatLocalDateTimeMicros micros = res_bind (checkMicrosRange micros) (\<lambda>m. Inr (formatLocalDateTime (m * 1000)))"

definition MIN_TIME_MICROS :: int where "MIN_TIME_MICROS = 0"
definition MAX_TIME_MICROS :: int where "MAX_TIME_MICROS = 86400000000 - 1"

definition formatLocalTime :: "int \<Rightarrow> string result" where
  "formatLocalTime micros =
     (if micros < MIN_TIME_MICROS \<or> micros > MAX_TIME_MICROS
      then Inl (out_of_range ''time microseconds of day'' micros MIN_TIME_MICROS MAX_TIME_MICROS)
      else let (secs, nano) = floorDivMod (micros * 1000) 1000000000;
               hour = trunc_div secs 3600;
               rem = trunc_mod secs 3600
           in Inr (pad hour 2 @ '':'' @ pad (trunc_div rem 60) 2 @ '':'' @ pad (trunc_mod rem 60) 2 @ fracNanos nano))"

definition MIN_DATE_EPOCH_DAY :: int where "MIN_DATE_EPOCH_DAY = -719162"
definition MAX_DATE_EPOCH_DAY :: int where "MAX_DATE_EPOCH_DAY = 2932896"

definition formatDate :: "int \<Rightarrow> string result" where
  "formatDate days =
     (if days < MIN_DATE_EPOCH_DAY \<or> days > MAX_DATE_EPOCH_DAY
      then Inl (out_of_range ''date epoch day'' days MIN_DATE_EPOCH_DAY MAX_DATE_EPOCH_DAY)
      else Inr (ymd days formatYearIso))"

section \<open>Decimals, doubles, UUIDs\<close>

definition decimalPlainString :: "int \<Rightarrow> nat \<Rightarrow> string" where
  "decimalPlainString unscaled scale =
     (let negative = unscaled < 0;
          digits = int_str (if negative then - unscaled else unscaled);
          sgn = (if negative then ''-'' else '''')
      in if scale = 0 then sgn @ digits
         else let digits = (if length digits \<le> scale
                            then replicate (scale - length digits + 1) CHR ''0'' @ digits else digits);
                  point = length digits - scale
              in sgn @ take point digits @ ''.'' @ drop point digits)"

definition MAX_DECIMAL4_PRECISION :: nat where "MAX_DECIMAL4_PRECISION = 9"
definition MAX_DECIMAL8_PRECISION :: nat where "MAX_DECIMAL8_PRECISION = 18"
definition MAX_DECIMAL16_PRECISION :: nat where "MAX_DECIMAL16_PRECISION = 38"

definition num_digits :: "int \<Rightarrow> nat" where
  "num_digits unscaled = length (int_str (if unscaled < 0 then - unscaled else unscaled))"

definition checkDecimal :: "int \<Rightarrow> nat \<Rightarrow> unit result" where
  "checkDecimal unscaled precision =
     res_guard (\<not> num_digits unscaled > precision) (malformed ''decimal out of range'')"

definition hex_byte :: "byte \<Rightarrow> string" where
  "hex_byte b = [digit_char (unat b div 16), digit_char (unat b mod 16)]"

definition formatUuid :: "bytes \<Rightarrow> string" where
  "formatUuid bs =
     (let h = concat (map hex_byte bs)
      in js_slice 0 8 h @ ''-'' @ js_slice 8 12 h @ ''-'' @ js_slice 12 16 h @ ''-'' @ js_slice 16 20 h @ ''-'' @ drop 20 h)"

text \<open>
  A number as its IEEE 754 bits. \<open>ieee\<close> takes the width of the exponent and of the fraction: it is a
  not-a-number, an infinity, or a sign, a mantissa and a power of two.
\<close>

datatype ieee_number = IEEE_NaN | IEEE_Inf bool | IEEE_Fin bool nat int

definition ieee :: "nat \<Rightarrow> nat \<Rightarrow> nat \<Rightarrow> ieee_number" where
  "ieee ebits fbits w =
     (let neg = odd (w div 2 ^ (ebits + fbits)); e = w div 2 ^ fbits mod 2 ^ ebits; f = w mod 2 ^ fbits;
          bias = 2 ^ (ebits - 1) - 1
      in if e = 2 ^ ebits - 1 then (if f = 0 then IEEE_Inf neg else IEEE_NaN)
         else if e = 0 then IEEE_Fin neg f (1 - bias - int fbits)
         else IEEE_Fin neg (f + 2 ^ fbits) (int e - bias - int fbits))"

text \<open>The value of a finite number that is an integer.\<close>

definition ieee_int :: "nat \<Rightarrow> int \<Rightarrow> int option" where
  "ieee_int m e =
     (if 0 \<le> e then Some (int m * 2 ^ nat e)
      else if m mod 2 ^ nat (- e) = 0 then Some (int m div 2 ^ nat (- e)) else None)"

text \<open>
  A double and a float as JSON. \<open>str\<close> is what the platform prints for a finite number that is not a
  small integer: \<open>String(d)\<close> for a double, the shortest text with the same 32-bit value for a float.
\<close>

definition number_json :: "('w \<Rightarrow> string) \<Rightarrow> ieee_number \<Rightarrow> 'w \<Rightarrow> string" where
  "number_json str x w =
     (case x of
        IEEE_NaN \<Rightarrow> ''NaN''
      | IEEE_Inf neg \<Rightarrow> (if neg then ''-Infinity'' else ''Infinity'')
      | IEEE_Fin neg m e \<Rightarrow>
          (case ieee_int m e of
             Some i \<Rightarrow> if i < 10 ^ 16 then int_str (if neg then - i else i) @ ''.0'' else str w
           | None \<Rightarrow> str w))"

definition doubleToJson :: "(64 word \<Rightarrow> string) \<Rightarrow> 64 word \<Rightarrow> string" where
  "doubleToJson str d = number_json str (ieee 11 52 (unat d)) d"

definition floatToJson :: "(32 word \<Rightarrow> string) \<Rightarrow> 32 word \<Rightarrow> string" where
  "floatToJson str f = number_json str (ieee 8 23 (unat f)) f"

section \<open>JSON strings and base64\<close>

definition unicode_escape :: "nat \<Rightarrow> string" where
  "unicode_escape u =
     CHR 0x5C # CHR ''u'' # map (\<lambda>k. digit_char (u div 16 ^ k mod 16)) [3, 2, 1, 0]"

definition quote_unit :: "nat \<Rightarrow> ustring" where
  "quote_unit u =
     (if u = 0x22 then [0x5C, 0x22]
      else if u = 0x5C then [0x5C, 0x5C]
      else if u = 0x08 then [0x5C, 0x62]
      else if u = 0x0C then [0x5C, 0x66]
      else if u = 0x0A then [0x5C, 0x6E]
      else if u = 0x0D then [0x5C, 0x72]
      else if u = 0x09 then [0x5C, 0x74]
      else if u < 0x20 then ascii (unicode_escape u)
      else [u])"

text \<open>\<open>JSON.stringify\<close> of a string: a surrogate without its partner is escaped.\<close>

fun quote_units :: "ustring \<Rightarrow> ustring" where
  "quote_units [] = []"
| "quote_units (u # us) =
     (if is_high u
      then (case us of
              v # vs \<Rightarrow> if is_low v then u # v # quote_units vs else ascii (unicode_escape u) @ quote_units us
            | [] \<Rightarrow> ascii (unicode_escape u))
      else if is_low u then ascii (unicode_escape u) @ quote_units us
      else quote_unit u @ quote_units us)"

definition json_string :: "ustring \<Rightarrow> ustring" where
  "json_string s = 0x22 # quote_units s @ [0x22]"

definition base64_char :: "nat \<Rightarrow> char" where
  "base64_char n = ''ABCDEFGHIJKLMNOPQRSTUVWXYZabcdefghijklmnopqrstuvwxyz0123456789+/'' ! n"

fun base64Encode :: "bytes \<Rightarrow> string" where
  "base64Encode [] = ''''"
| "base64Encode [a] = [base64_char (unat a div 4), base64_char (unat a mod 4 * 16), CHR ''='', CHR ''='']"
| "base64Encode [a, b] =
     [base64_char (unat a div 4), base64_char (unat a mod 4 * 16 + unat b div 16),
      base64_char (unat b mod 16 * 4), CHR ''='']"
| "base64Encode (a # b # c # r) =
     [base64_char (unat a div 4), base64_char (unat a mod 4 * 16 + unat b div 16),
      base64_char (unat b mod 16 * 4 + unat c div 64), base64_char (unat c mod 64)] @ base64Encode r"

section \<open>Division that rounds down\<close>

lemma trunc_mod_bounds:
  assumes "0 < d"
  shows "\<bar>trunc_mod n d\<bar> < d" and "n \<ge> 0 \<Longrightarrow> trunc_mod n d \<ge> 0" and "n \<le> 0 \<Longrightarrow> trunc_mod n d \<le> 0"
proof -
  have eq: "trunc_mod n d = sgn n * (\<bar>n\<bar> mod d)"
  proof -
    have "trunc_mod n d = sgn n * \<bar>n\<bar> - sgn n * (\<bar>n\<bar> div d) * d"
      using assms by (simp add: trunc_mod_def trunc_div_def sgn_mult_abs)
    also have "\<dots> = sgn n * (\<bar>n\<bar> - \<bar>n\<bar> div d * d)"
      by (simp add: right_diff_distrib)
    finally show ?thesis by (simp only: minus_div_mult_eq_mod)
  qed
  have m: "0 \<le> \<bar>n\<bar> mod d" "\<bar>n\<bar> mod d < d" using assms by simp_all
  then show "\<bar>trunc_mod n d\<bar> < d" "n \<ge> 0 \<Longrightarrow> trunc_mod n d \<ge> 0" "n \<le> 0 \<Longrightarrow> trunc_mod n d \<le> 0"
    unfolding eq by (simp_all add: abs_mult sgn_if)
qed

lemma floorDivMod_eq:
  assumes "0 < d"
  shows "floorDivMod n d = (n div d, n mod d)"
proof -
  obtain q r where qr: "floorDivMod n d = (q, r)" by fastforce
  have split: "n = trunc_div n d * d + trunc_mod n d" by (simp add: trunc_mod_def)
  then have "n = d * q + r" and "0 \<le> r" and "r < d"
    using qr assms trunc_mod_bounds [OF assms, of n]
    by (auto simp: floorDivMod_def Let_def algebra_simps split: if_splits)
  then show ?thesis
    using int_div_pos_eq [of n d q r] int_mod_pos_eq [of n d q r] qr by simp
qed

text \<open>The year of a day is the one whose first of January is the last not after it.\<close>

lemma div_bounds: "0 < d \<Longrightarrow> d * (n div d) \<le> n \<and> n < d * (n div d) + d" for n d :: int
  using pos_mod_bound [of d n] pos_mod_sign [of d n] mult_div_mod_eq [of d n] by linarith

lemma dayFromYear_bounds:
  "146097 * (y - 1970) - 506 \<le> 400 * dayFromYear y" "400 * dayFromYear y \<le> 146097 * (y - 1970) + 589"
  using div_bounds [of 4 "y - 1969"] div_bounds [of 100 "y - 1901"] div_bounds [of 400 "y - 1601"]
  unfolding dayFromYear_def by simp_all

lemma yearFromDay_bounds:
  "dayFromYear (yearFromDay d) \<le> d" "d < dayFromYear (yearFromDay d + 1)"
proof -
  define y where "y = 1970 + (400 * d + 200) div 146097"
  have y: "146097 * (y - 1970) \<le> 400 * d + 200" "400 * d + 200 < 146097 * (y - 1970) + 146097"
    using div_bounds [of 146097 "400 * d + 200"] by (simp_all add: y_def)
  then have below: "dayFromYear (y - 1) \<le> d" and above: "d < dayFromYear (y + 2)"
    using dayFromYear_bounds(2) [of "y - 1"] dayFromYear_bounds(1) [of "y + 2"] by simp_all
  have eq: "yearFromDay d = (if d < dayFromYear y then y - 1 else if dayFromYear (y + 1) \<le> d then y + 1 else y)"
    by (simp add: yearFromDay_def y_def Let_def)
  show "dayFromYear (yearFromDay d) \<le> d" "d < dayFromYear (yearFromDay d + 1)"
    unfolding eq using below above by (auto simp: add.assoc)
qed

text \<open>The days and times that have a text form are exactly those of the years 1 to 9999.\<close>

lemma formatDate_year:
  assumes "formatDate d = Inr s" shows "1 \<le> yearFromDay d \<and> yearFromDay d \<le> 9999"
proof -
  have d: "MIN_DATE_EPOCH_DAY \<le> d" "d \<le> MAX_DATE_EPOCH_DAY"
    using assms by (auto simp: formatDate_def split: if_splits)
  have lo: "dayFromYear 1 \<le> d" and hi: "d < dayFromYear 10000"
    using d by (simp_all add: MIN_DATE_EPOCH_DAY_def MAX_DATE_EPOCH_DAY_def dayFromYear_def)
  have mono: "dayFromYear a \<le> dayFromYear b" if "a \<le> b" for a b
  proof -
    have "(a - 1969) div 4 \<le> (b - 1969) div 4" "(a - 1601) div 400 \<le> (b - 1601) div 400"
      "(b - 1901) div 100 \<le> (b - a) + (a - 1901) div 100"
      using that div_bounds [of 100 "b - 1901"] div_bounds [of 100 "a - 1901"] by (auto intro: zdiv_mono1)
    moreover have "x1 \<le> y1 \<Longrightarrow> x3 \<le> y3 \<Longrightarrow> y2 \<le> (b - a) + x2 \<Longrightarrow>
        365 * (a - 1970) + x1 - x2 + x3 \<le> 365 * (b - 1970) + y1 - y2 + y3" for x1 x2 x3 y1 y2 y3
      using that by simp
    ultimately show ?thesis unfolding dayFromYear_def by blast
  qed
  have "\<not> yearFromDay d + 1 \<le> 1" using mono [of "yearFromDay d + 1" 1] yearFromDay_bounds [of d] lo by linarith
  moreover have "\<not> 10000 \<le> yearFromDay d" using mono [of 10000 "yearFromDay d"] yearFromDay_bounds [of d] hi by linarith
  ultimately show ?thesis by linarith
qed

end
