(* ===== verification/Variant_Reader.thy ===== *)
theory Variant_Reader
  imports Variant_Format
begin

text \<open>
  Class \<open>Variant\<close> of \<open>confluent/type/variant-utils.ts\<close>: a view over a value and a metadata buffer at a
  position. Positions and sizes are natural numbers; a position that a program computes with a signed
  number goes through \<open>read_at\<close>, which refuses a negative one as \<open>checkIndex\<close> does. Floating-point
  values are their IEEE 754 bits.
\<close>

section \<open>Types\<close>

datatype variant_type =
    VT_OBJECT | VT_ARRAY | VT_NULL | VT_BOOLEAN | VT_BYTE | VT_SHORT | VT_INT | VT_LONG | VT_STRING | VT_DOUBLE
  | VT_DECIMAL4 | VT_DECIMAL8 | VT_DECIMAL16 | VT_DATE | VT_TIMESTAMP_TZ | VT_TIMESTAMP_NTZ | VT_FLOAT
  | VT_BINARY | VT_TIME | VT_TIMESTAMP_NANOS_TZ | VT_TIMESTAMP_NANOS_NTZ | VT_UUID

definition TYPE_MAP :: "(nat \<times> variant_type) list" where
  "TYPE_MAP =
     [(T_NULL, VT_NULL), (T_TRUE, VT_BOOLEAN), (T_FALSE, VT_BOOLEAN), (T_INT1, VT_BYTE), (T_INT2, VT_SHORT),
      (T_INT4, VT_INT), (T_INT8, VT_LONG), (T_DOUBLE, VT_DOUBLE), (T_DECIMAL4, VT_DECIMAL4),
      (T_DECIMAL8, VT_DECIMAL8), (T_DECIMAL16, VT_DECIMAL16), (T_DATE, VT_DATE),
      (T_TIMESTAMP, VT_TIMESTAMP_TZ), (T_TIMESTAMP_NTZ, VT_TIMESTAMP_NTZ), (T_FLOAT, VT_FLOAT),
      (T_BINARY, VT_BINARY), (T_LONG_STR, VT_STRING), (T_TIME, VT_TIME),
      (T_TIMESTAMP_NANOS, VT_TIMESTAMP_NANOS_TZ), (T_TIMESTAMP_NANOS_NTZ, VT_TIMESTAMP_NANOS_NTZ),
      (T_UUID, VT_UUID)]"

record variant =
  v_value :: bytes
  v_metadata :: bytes
  v_pos :: nat

definition newVariant :: "bytes \<Rightarrow> bytes \<Rightarrow> nat \<Rightarrow> variant result" where
  "newVariant value metadata pos =
     res_bind (checkIndex 0 (length metadata)) (\<lambda>_.
       if js_and (uint (metadata ! 0)) VERSION_MASK \<noteq> VERSION
       then Inl (VariantError (''unsupported variant metadata version: '' @
              int_str (js_and (uint (metadata ! 0)) VERSION_MASK)))
       else Inr \<lparr>v_value = value, v_metadata = metadata, v_pos = pos\<rparr>)"

definition standaloneValueBytes :: "variant \<Rightarrow> bytes" where
  "standaloneValueBytes v = (if v_pos v = 0 then v_value v else drop (v_pos v) (v_value v))"

definition read_at :: "bytes \<Rightarrow> int \<Rightarrow> nat \<Rightarrow> nat result" where
  "read_at data pos numBytes =
     (if pos < 0 then Inl (malformed ''index out of bounds'') else readUnsignedLE data (nat pos) numBytes)"

definition getMetadataKey :: "bytes \<Rightarrow> nat \<Rightarrow> ustring result" where
  "getMetadataKey metadata fid =
     res_bind (checkIndex 0 (length metadata)) (\<lambda>_.
       let offsetSize = nat (js_and (js_shr (uint (metadata ! 0)) 6) 0x3) + 1
       in res_bind (readUnsignedLE metadata 1 offsetSize) (\<lambda>dictSize.
            if fid \<ge> dictSize then Inl (malformed ''field id out of range'')
            else let stringStart = 1 + (dictSize + 2) * offsetSize
                 in res_bind (readUnsignedLE metadata (1 + (fid + 1) * offsetSize) offsetSize) (\<lambda>offset.
                      res_bind (readUnsignedLE metadata (1 + (fid + 2) * offsetSize) offsetSize) (\<lambda>nextOffset.
                        if offset > nextOffset then Inl (malformed ''non-monotonic metadata offsets'')
                        else res_bind (checkIndex (stringStart + nextOffset - 1) (length metadata)) (\<lambda>_.
                               Inr (textDecode (js_slice (stringStart + offset) (stringStart + nextOffset) metadata)))))))"

definition getType :: "variant \<Rightarrow> variant_type result" where
  "getType v =
     res_bind (checkIndex (v_pos v) (length (v_value v))) (\<lambda>_.
       let (basicType, typeInfo) = getTypeInfo (v_value v) (v_pos v)
       in if basicType = SHORT_STR then Inr VT_STRING
          else if basicType = OBJECT then Inr VT_OBJECT
          else if basicType = ARRAY then Inr VT_ARRAY
          else case map_of TYPE_MAP typeInfo of
                 Some t \<Rightarrow> Inr t
               | None \<Rightarrow> Inl (VariantError (''unknown variant primitive type: '' @ nat_str typeInfo)))"

section \<open>Scalars\<close>

definition primitiveInfo :: "variant \<Rightarrow> nat result" where
  "primitiveInfo v =
     res_bind (checkIndex (v_pos v) (length (v_value v))) (\<lambda>_.
       let (basicType, typeInfo) = getTypeInfo (v_value v) (v_pos v)
       in if basicType \<noteq> PRIMITIVE then Inl (VariantError ''expected a primitive variant value'') else Inr typeInfo)"

definition getBoolean :: "variant \<Rightarrow> bool result" where
  "getBoolean v =
     res_bind (primitiveInfo v) (\<lambda>ti.
       if ti \<noteq> T_TRUE \<and> ti \<noteq> T_FALSE then Inl (VariantError ''variant is not a boolean'') else Inr (ti = T_TRUE))"

text \<open>The little-endian accessors of the \<open>DataView\<close> on the value, after the check of their last byte.\<close>

definition view_bytes :: "variant \<Rightarrow> nat \<Rightarrow> bytes result" where
  "view_bytes v width =
     res_bind (checkIndex (v_pos v + width) (length (v_value v))) (\<lambda>_.
       Inr (take width (drop (v_pos v + 1) (v_value v))))"

definition view_int :: "variant \<Rightarrow> nat \<Rightarrow> int result" where
  "view_int v width = res_bind (view_bytes v width) (\<lambda>bs. Inr (signed_val bs))"

definition getByte :: "variant \<Rightarrow> int result" where
  "getByte v =
     res_bind (primitiveInfo v) (\<lambda>ti.
       if ti = T_INT1 then view_int v 1
       else Inl (VariantError ''variant is not a byte-width integer''))"

definition getShort :: "variant \<Rightarrow> int result" where
  "getShort v =
     res_bind (primitiveInfo v) (\<lambda>ti.
       if ti = T_INT1 then view_int v 1
       else if ti = T_INT2 then view_int v 2
       else Inl (VariantError ''variant is not a short-width integer''))"

definition getInt :: "variant \<Rightarrow> int result" where
  "getInt v =
     res_bind (primitiveInfo v) (\<lambda>ti.
       if ti = T_INT1 then view_int v 1
       else if ti = T_INT2 then view_int v 2
       else if ti = T_INT4 then view_int v 4
       else Inl (VariantError ''variant is not an int-width integer''))"

definition getLong :: "variant \<Rightarrow> int result" where
  "getLong v =
     res_bind (primitiveInfo v) (\<lambda>ti.
       if ti = T_INT1 then view_int v 1
       else if ti = T_INT2 then view_int v 2
       else if ti = T_INT4 \<or> ti = T_DATE then view_int v 4
       else if ti = T_INT8 \<or> ti = T_TIMESTAMP \<or> ti = T_TIMESTAMP_NTZ \<or> ti = T_TIME \<or>
               ti = T_TIMESTAMP_NANOS \<or> ti = T_TIMESTAMP_NANOS_NTZ
       then view_int v 8
       else Inl (VariantError ''variant is not an integer-backed type''))"

definition getFloat :: "variant \<Rightarrow> 32 word result" where
  "getFloat v =
     res_bind (primitiveInfo v) (\<lambda>ti.
       if ti = T_FLOAT then res_bind (view_bytes v 4) (\<lambda>bs. Inr (of_nat (le_val bs)))
       else Inl (VariantError ''variant is not a float''))"

definition getDouble :: "variant \<Rightarrow> 64 word result" where
  "getDouble v =
     res_bind (primitiveInfo v) (\<lambda>ti.
       if ti = T_DOUBLE then res_bind (view_bytes v 8) (\<lambda>bs. Inr (of_nat (le_val bs)))
       else Inl (VariantError ''variant is not a double''))"

definition getDecimalParts :: "variant \<Rightarrow> (int \<times> nat) result" where
  "getDecimalParts v =
     res_bind (primitiveInfo v) (\<lambda>ti.
       res_bind (checkIndex (v_pos v + 1) (length (v_value v))) (\<lambda>_.
         let scale = unat (v_value v ! (v_pos v + 1))
         in res_bind
              (if ti = T_DECIMAL4 then Inr (4, MAX_DECIMAL4_PRECISION)
               else if ti = T_DECIMAL8 then Inr (8, MAX_DECIMAL8_PRECISION)
               else if ti = T_DECIMAL16 then Inr (16, MAX_DECIMAL16_PRECISION)
               else Inl (VariantError ''variant is not a decimal''))
              (\<lambda>(width, precision).
                 res_bind (readSignedLE (v_value v) (v_pos v + 2) width) (\<lambda>unscaled.
                   res_bind (checkDecimal unscaled precision) (\<lambda>_. Inr (unscaled, scale))))))"

definition getBinary :: "variant \<Rightarrow> bytes result" where
  "getBinary v =
     res_bind (primitiveInfo v) (\<lambda>ti.
       if ti \<noteq> T_BINARY then Inl (VariantError ''variant is not binary'')
       else res_bind (readUnsignedLE (v_value v) (v_pos v + 1) U32_SIZE) (\<lambda>len.
              let start = v_pos v + 1 + U32_SIZE
              in res_bind (checkIndex (start + len - 1) (length (v_value v))) (\<lambda>_.
                   Inr (js_slice start (start + len) (v_value v)))))"

definition getUuid :: "variant \<Rightarrow> string result" where
  "getUuid v =
     res_bind (primitiveInfo v) (\<lambda>ti.
       if ti \<noteq> T_UUID then Inl (VariantError ''variant is not a uuid'')
       else let start = v_pos v + 1
            in res_bind (checkIndex (start + 15) (length (v_value v))) (\<lambda>_.
                 Inr (formatUuid (js_slice start (start + 16) (v_value v)))))"

definition getString :: "variant \<Rightarrow> ustring result" where
  "getString v =
     res_bind (checkIndex (v_pos v) (length (v_value v))) (\<lambda>_.
       let (basicType, typeInfo) = getTypeInfo (v_value v) (v_pos v)
       in res_bind
            (if basicType = SHORT_STR then Inr (v_pos v + 1, typeInfo)
             else if basicType = PRIMITIVE \<and> typeInfo = T_LONG_STR
             then res_bind (readUnsignedLE (v_value v) (v_pos v + 1) U32_SIZE) (\<lambda>len.
                    Inr (v_pos v + 1 + U32_SIZE, len))
             else Inl (VariantError ''variant is not a string''))
            (\<lambda>(start, len).
               res_bind (checkIndex (start + len - 1) (length (v_value v))) (\<lambda>_.
                 Inr (textDecode (js_slice start (start + len) (v_value v))))))"

section \<open>Containers\<close>

record object_info =
  oi_numFields :: nat
  oi_idSize :: nat
  oi_offsetSize :: nat
  oi_idStart :: nat
  oi_offsetStart :: nat
  oi_dataStart :: nat

definition objectInfo :: "variant \<Rightarrow> object_info result" where
  "objectInfo v =
     res_bind (checkIndex (v_pos v) (length (v_value v))) (\<lambda>_.
       let (basicType, typeInfo) = getTypeInfo (v_value v) (v_pos v)
       in if basicType \<noteq> OBJECT then Inl (VariantError ''variant is not an object'')
          else let largeSize = js_and (js_shr (int typeInfo) 4) 0x1 \<noteq> 0;
                   sizeBytes = (if largeSize then U32_SIZE else 1)
               in res_bind (readUnsignedLE (v_value v) (v_pos v + 1) sizeBytes) (\<lambda>numFields.
                    let idSize = nat (js_and (js_shr (int typeInfo) 2) 0x3) + 1;
                        offsetSize = nat (js_and (int typeInfo) 0x3) + 1;
                        idStart = v_pos v + 1 + sizeBytes;
                        offsetStart = idStart + numFields * idSize;
                        dataStart = offsetStart + (numFields + 1) * offsetSize
                    in Inr \<lparr>oi_numFields = numFields, oi_idSize = idSize, oi_offsetSize = offsetSize,
                            oi_idStart = idStart, oi_offsetStart = offsetStart, oi_dataStart = dataStart\<rparr>))"

record array_info =
  ai_numFields :: nat
  ai_offsetSize :: nat
  ai_offsetStart :: nat
  ai_dataStart :: nat

definition arrayInfo :: "variant \<Rightarrow> array_info result" where
  "arrayInfo v =
     res_bind (checkIndex (v_pos v) (length (v_value v))) (\<lambda>_.
       let (basicType, typeInfo) = getTypeInfo (v_value v) (v_pos v)
       in if basicType \<noteq> ARRAY then Inl (VariantError ''variant is not an array'')
          else let largeSize = js_and (js_shr (int typeInfo) 2) 0x1 \<noteq> 0;
                   sizeBytes = (if largeSize then U32_SIZE else 1)
               in res_bind (readUnsignedLE (v_value v) (v_pos v + 1) sizeBytes) (\<lambda>numFields.
                    let offsetSize = nat (js_and (int typeInfo) 0x3) + 1;
                        offsetStart = v_pos v + 1 + sizeBytes;
                        dataStart = offsetStart + (numFields + 1) * offsetSize
                    in Inr \<lparr>ai_numFields = numFields, ai_offsetSize = offsetSize, ai_offsetStart = offsetStart,
                            ai_dataStart = dataStart\<rparr>))"

definition numObjectFields :: "variant \<Rightarrow> nat result" where
  "numObjectFields v = res_bind (objectInfo v) (\<lambda>info. Inr (oi_numFields info))"

definition numArrayElements :: "variant \<Rightarrow> nat result" where
  "numArrayElements v = res_bind (arrayInfo v) (\<lambda>info. Inr (ai_numFields info))"

definition BINARY_SEARCH_THRESHOLD :: nat where "BINARY_SEARCH_THRESHOLD = 32"

text \<open>The id of a field, the variant its offset leads to.\<close>

definition field_id :: "variant \<Rightarrow> object_info \<Rightarrow> int \<Rightarrow> nat result" where
  "field_id v info i = read_at (v_value v) (int (oi_idStart info) + int (oi_idSize info) * i) (oi_idSize info)"

definition field_value :: "variant \<Rightarrow> object_info \<Rightarrow> int \<Rightarrow> variant result" where
  "field_value v info i =
     res_bind (read_at (v_value v) (int (oi_offsetStart info) + int (oi_offsetSize info) * i) (oi_offsetSize info)) (\<lambda>offset.
       newVariant (v_value v) (v_metadata v) (oi_dataStart info + offset))"

fun linear_search :: "variant \<Rightarrow> object_info \<Rightarrow> ustring \<Rightarrow> nat list \<Rightarrow> variant option result" where
  "linear_search v info key [] = Inr None"
| "linear_search v info key (i # is) =
     res_bind (field_id v info (int i)) (\<lambda>id.
       res_bind (getMetadataKey (v_metadata v) id) (\<lambda>k.
         if k = key then res_bind (field_value v info (int i)) (\<lambda>c. Inr (Some c))
         else linear_search v info key is))"

text \<open>
  The binary search, with the number of iterations it may still make: \<open>None\<close> when they run out.
  The midpoint is computed by \<open>>> 1\<close>, on 32 bits.
\<close>

fun binary_search :: "nat \<Rightarrow> variant \<Rightarrow> object_info \<Rightarrow> bytes \<Rightarrow> int \<Rightarrow> int \<Rightarrow> variant option result option" where
  "binary_search fuel v info keyBytes low high =
     (if \<not> low \<le> high then Some (Inr None)
      else case fuel of
             0 \<Rightarrow> None
           | Suc n \<Rightarrow>
               (let mid = js_shr (low + high) 1
                in case res_bind (field_id v info mid) (getMetadataKey (v_metadata v)) of
                     Inl e \<Rightarrow> Some (Inl e)
                   | Inr midKey \<Rightarrow>
                       (let cmp = compareKeysBytes (textEncode midKey) keyBytes
                        in if cmp < 0 then binary_search n v info keyBytes (mid + 1) high
                           else if cmp > 0 then binary_search n v info keyBytes low (mid - 1)
                           else Some (res_bind (field_value v info mid) (\<lambda>c. Inr (Some c))))))"

declare binary_search.simps [simp del]

text \<open>A lookup gets as many iterations as the object has fields; \<open>None\<close> is a search that needs more.\<close>

definition getFieldByKey :: "variant \<Rightarrow> ustring \<Rightarrow> variant option result option" where
  "getFieldByKey v key =
     (case objectInfo v of
        Inl e \<Rightarrow> Some (Inl e)
      | Inr info \<Rightarrow>
          if oi_numFields info < BINARY_SEARCH_THRESHOLD
          then Some (linear_search v info key [0..<oi_numFields info])
          else binary_search (oi_numFields info) v info (textEncode key) 0 (int (oi_numFields info) - 1))"

definition getFieldAtIndex :: "variant \<Rightarrow> int \<Rightarrow> (ustring \<times> variant) result" where
  "getFieldAtIndex v idx =
     res_bind (objectInfo v) (\<lambda>info.
       res_bind (field_id v info idx) (\<lambda>id.
         res_bind (read_at (v_value v) (int (oi_offsetStart info) + int (oi_offsetSize info) * idx) (oi_offsetSize info)) (\<lambda>offset.
           res_bind (getMetadataKey (v_metadata v) id) (\<lambda>key.
             res_bind (newVariant (v_value v) (v_metadata v) (oi_dataStart info + offset)) (\<lambda>c. Inr (key, c))))))"

definition getElementAtIndex :: "variant \<Rightarrow> int \<Rightarrow> variant option result" where
  "getElementAtIndex v index =
     res_bind (arrayInfo v) (\<lambda>info.
       if index < 0 \<or> index \<ge> int (ai_numFields info) then Inr None
       else res_bind (read_at (v_value v) (int (ai_offsetStart info) + int (ai_offsetSize info) * index) (ai_offsetSize info)) (\<lambda>offset.
              res_bind (newVariant (v_value v) (v_metadata v) (ai_dataStart info + offset)) (\<lambda>c. Inr (Some c))))"

section \<open>JSON text\<close>

definition quoted :: "string \<Rightarrow> ustring" where
  "quoted s = 0x22 # ascii s @ [0x22]"

fun join_with :: "ustring \<Rightarrow> ustring list \<Rightarrow> ustring" where
  "join_with sep [] = []"
| "join_with sep [p] = p"
| "join_with sep (p # q # ps) = p @ sep @ join_with sep (q # ps)"

text \<open>How the platform prints numbers that are not small integers.\<close>

record number_text =
  double_text :: "64 word \<Rightarrow> string"
  float_text :: "32 word \<Rightarrow> string"

text \<open>A value that is not a container.\<close>

definition scalar_json :: "number_text \<Rightarrow> variant \<Rightarrow> variant_type \<Rightarrow> ustring result" where
  "scalar_json nt v t =
     (case t of
        VT_NULL \<Rightarrow> Inr (ascii ''null'')
      | VT_BOOLEAN \<Rightarrow> res_bind (getBoolean v) (\<lambda>b. Inr (ascii (if b then ''true'' else ''false'')))
      | VT_STRING \<Rightarrow> res_bind (getString v) (\<lambda>s. Inr (json_string s))
      | VT_BYTE \<Rightarrow> res_bind (getLong v) (\<lambda>i. Inr (ascii (int_str i)))
      | VT_SHORT \<Rightarrow> res_bind (getLong v) (\<lambda>i. Inr (ascii (int_str i)))
      | VT_INT \<Rightarrow> res_bind (getLong v) (\<lambda>i. Inr (ascii (int_str i)))
      | VT_LONG \<Rightarrow> res_bind (getLong v) (\<lambda>i. Inr (ascii (int_str i)))
      | VT_FLOAT \<Rightarrow> res_bind (getFloat v) (\<lambda>f. Inr (ascii (floatToJson (float_text nt) f)))
      | VT_DOUBLE \<Rightarrow> res_bind (getDouble v) (\<lambda>d. Inr (ascii (doubleToJson (double_text nt) d)))
      | VT_DATE \<Rightarrow> res_bind (getLong v) (\<lambda>i. res_bind (formatDate i) (\<lambda>s. Inr (quoted s)))
      | VT_TIMESTAMP_TZ \<Rightarrow> res_bind (getLong v) (\<lambda>i. res_bind (formatInstantMicros i) (\<lambda>s. Inr (quoted s)))
      | VT_TIMESTAMP_NTZ \<Rightarrow> res_bind (getLong v) (\<lambda>i. res_bind (formatLocalDateTimeMicros i) (\<lambda>s. Inr (quoted s)))
      | VT_TIMESTAMP_NANOS_TZ \<Rightarrow> res_bind (getLong v) (\<lambda>i. Inr (quoted (formatInstant i)))
      | VT_TIMESTAMP_NANOS_NTZ \<Rightarrow> res_bind (getLong v) (\<lambda>i. Inr (quoted (formatLocalDateTime i)))
      | VT_TIME \<Rightarrow> res_bind (getLong v) (\<lambda>i. res_bind (formatLocalTime i) (\<lambda>s. Inr (quoted s)))
      | VT_BINARY \<Rightarrow> res_bind (getBinary v) (\<lambda>bs. Inr (quoted (base64Encode bs)))
      | VT_UUID \<Rightarrow> res_bind (getUuid v) (\<lambda>s. Inr (quoted s))
      | _ \<Rightarrow> res_bind (getDecimalParts v) (\<lambda>(unscaled, scale). Inr (ascii (decimalPlainString unscaled scale))))"

function toJson :: "number_text \<Rightarrow> variant \<Rightarrow> ustring result" where
  "toJson nt v =
     res_bind (getType v) (\<lambda>t.
       if t = VT_OBJECT
       then res_bind (numObjectFields v) (\<lambda>n.
              res_bind
                (res_map
                   (\<lambda>i. res_bind (getFieldAtIndex v (int i)) (\<lambda>(key, child).
                          res_bind (toJson nt child) (\<lambda>j. Inr (json_string key @ ascii '':'' @ j))))
                   [0..<n])
                (\<lambda>parts. Inr (ascii ''{'' @ join_with (ascii '','') parts @ ascii ''}'')))
       else if t = VT_ARRAY
       then res_bind (numArrayElements v) (\<lambda>n.
              res_bind
                (res_map
                   (\<lambda>i. res_bind (getElementAtIndex v (int i)) (\<lambda>e.
                          case e of
                            Some child \<Rightarrow> toJson nt child
                          | None \<Rightarrow> Inl (TypeError ''Cannot read properties of null (reading 'toJson')'')))
                   [0..<n])
                (\<lambda>parts. Inr (ascii ''['' @ join_with (ascii '','') parts @ ascii '']'')))
       else scalar_json nt v t)"
  by pat_completeness auto


text \<open>
  A child begins behind its parent, so the rendering ends on every input, a malformed one included.
\<close>

lemma newVariant_Inr:
  "newVariant val md p = Inr w \<Longrightarrow> w = \<lparr>v_value = val, v_metadata = md, v_pos = p\<rparr>"
  by (auto simp: newVariant_def res_bind_Inr_iff split: if_splits)

lemma objectInfo_Inr:
  "objectInfo v = Inr info \<Longrightarrow> v_pos v < oi_dataStart info"
  by (auto simp: objectInfo_def res_bind_Inr_iff Let_def split: prod.splits if_splits)

lemma arrayInfo_Inr:
  "arrayInfo v = Inr info \<Longrightarrow> v_pos v < ai_dataStart info"
  by (auto simp: arrayInfo_def res_bind_Inr_iff Let_def split: prod.splits if_splits)

lemma getFieldAtIndex_child:
  "getFieldAtIndex v i = Inr (k, c) \<Longrightarrow> v_value c = v_value v \<and> v_metadata c = v_metadata v \<and> v_pos v < v_pos c"
  by (auto simp: getFieldAtIndex_def res_bind_Inr_iff dest!: newVariant_Inr objectInfo_Inr)

lemma getElementAtIndex_child:
  "getElementAtIndex v i = Inr (Some c) \<Longrightarrow> v_value c = v_value v \<and> v_metadata c = v_metadata v \<and> v_pos v < v_pos c"
  by (auto simp: getElementAtIndex_def res_bind_Inr_iff dest!: newVariant_Inr arrayInfo_Inr split: if_splits)

lemma getType_inside: "getType v = Inr t \<Longrightarrow> v_pos v < length (v_value v)"
  by (auto simp: getType_def checkIndex_def res_bind_Inr_iff)

termination toJson
  by (relation "measure (\<lambda>(nt, v). length (v_value v) - v_pos v)")
    (auto dest!: getFieldAtIndex_child getElementAtIndex_child getType_inside)

declare toJson.simps [simp del]

end
