(* ===== verification/Variant_Builder.thy ===== *)
theory Variant_Builder
  imports Variant_Reader
begin

text \<open>
  Class \<open>VariantBuilder\<close> of \<open>confluent/type/variant-utils.ts\<close>: the streaming writer with its stack of
  open containers, the low-level writers, and the driver over a parsed JSON tree. A method maps the
  builder to the builder it leaves behind and a result; what was changed before an error stays
  changed.
\<close>

section \<open>State\<close>

text \<open>
  A JavaScript number is an integer or has other IEEE 754 bits. A tree is what \<open>JSON.parse\<close>
  returns; an object is its \<open>Object.entries\<close>.
\<close>

datatype js_number = Int_num int | Frac_num "64 word"

datatype json_tree =
    J_null
  | J_bool bool
  | J_number js_number
  | J_bigint int
  | J_string ustring
  | J_array "json_tree list"
  | J_object "(ustring \<times> json_tree) list"
  | J_other string

record field_entry =
  fe_key :: ustring
  fe_id :: nat
  fe_offset :: nat

datatype build_context =
    Object_context (oc_start: nat) (oc_fields: "field_entry list") (oc_pendingKey: "ustring option") (oc_pendingId: nat)
  | Array_context (ac_start: nat) (ac_offsets: "nat list")

text \<open>The stack has its top first.\<close>

record builder =
  b_value :: bytes
  b_dictionary :: "(ustring, nat) jsmap"
  b_dictionaryKeys :: "bytes list"
  b_sizeLimit :: nat
  b_stack :: "build_context list"
  b_rootWritten :: bool

definition DEFAULT_SIZE_LIMIT :: nat where "DEFAULT_SIZE_LIMIT = 16 * 1024 * 1024"

definition newBuilder :: "nat \<Rightarrow> builder" where
  "newBuilder limit =
     \<lparr>b_value = [], b_dictionary = [], b_dictionaryKeys = [], b_sizeLimit = limit, b_stack = [], b_rootWritten = False\<rparr>"

section \<open>Writers\<close>

definition too_large :: js_error where
  "too_large = VariantError ''variant size limit exceeded''"

definition checkCapacity :: "nat \<Rightarrow> (builder, unit) meth" where
  "checkCapacity additional b =
     (b, res_guard (\<not> length (b_value b) + additional > b_sizeLimit b) too_large)"

definition push :: "bytes \<Rightarrow> (builder, unit) meth" where
  "push bs b = (b\<lparr>b_value := b_value b @ bs\<rparr>, Inr ())"

definition addKey :: "ustring \<Rightarrow> (builder, nat) meth" where
  "addKey key b =
     (case jm_get (b_dictionary b) key of
        Some existing \<Rightarrow> (b, Inr existing)
      | None \<Rightarrow>
          (let fid = length (b_dictionaryKeys b)
           in (b\<lparr>b_dictionary := jm_set key fid (b_dictionary b),
                 b_dictionaryKeys := b_dictionaryKeys b @ [textEncode key]\<rparr>, Inr fid)))"

definition writeBoolean :: "bool \<Rightarrow> (builder, unit) meth" where
  "writeBoolean x = m_bind (checkCapacity 1) (\<lambda>_. push [primitiveHeader (if x then T_TRUE else T_FALSE)])"

definition writeNull :: "(builder, unit) meth" where
  "writeNull = m_bind (checkCapacity 1) (\<lambda>_. push [primitiveHeader T_NULL])"

definition short_header :: "nat \<Rightarrow> byte" where
  "short_header n = word_of_int (js_or (js_shl (int n) 2) (int SHORT_STR))"

definition writeString :: "ustring \<Rightarrow> (builder, unit) meth" where
  "writeString s =
     (let txt = textEncode s; longStr = length txt > MAX_SHORT_STR_SIZE
      in m_bind (checkCapacity ((if longStr then 1 + U32_SIZE else 1) + length txt)) (\<lambda>_.
           push ((if longStr then primitiveHeader T_LONG_STR # pushUintLE (length txt) U32_SIZE
                  else [short_header (length txt)]) @ txt)))"

definition writeFixedInt :: "nat \<Rightarrow> int \<Rightarrow> nat \<Rightarrow> (builder, unit) meth" where
  "writeFixedInt typeCode val width =
     (let mx = push_bit (width * 8 - 1) 1 - 1; mn = - push_bit (width * 8 - 1) 1
      in if val < mn \<or> val > mx
         then m_throw (VariantError (''integer value out of range for a '' @ nat_str width @ ''-byte width''))
         else m_bind (checkCapacity (1 + width)) (\<lambda>_. push (primitiveHeader typeCode # pushSignedLE val width)))"

definition writeSmallestInt :: "int \<Rightarrow> (builder, bool) meth" where
  "writeSmallestInt i =
     m_bind (checkCapacity (1 + 8)) (\<lambda>_.
       if i \<ge> -0x80 \<and> i \<le> 0x7f
       then m_bind (push (primitiveHeader T_INT1 # pushSignedLE i 1)) (\<lambda>_. m_return True)
       else if i \<ge> -0x8000 \<and> i \<le> 0x7fff
       then m_bind (push (primitiveHeader T_INT2 # pushSignedLE i 2)) (\<lambda>_. m_return True)
       else if i \<ge> -0x80000000 \<and> i \<le> 0x7fffffff
       then m_bind (push (primitiveHeader T_INT4 # pushSignedLE i 4)) (\<lambda>_. m_return True)
       else if i \<ge> -0x8000000000000000 \<and> i \<le> 0x7fffffffffffffff
       then m_bind (push (primitiveHeader T_INT8 # pushSignedLE i 8)) (\<lambda>_. m_return True)
       else m_return False)"

definition writeDecimalUnscaled :: "int \<Rightarrow> js_number \<Rightarrow> (builder, unit) meth" where
  "writeDecimalUnscaled unscaled scale =
     (case scale of
        Frac_num _ \<Rightarrow> m_throw (VariantError ''decimal scale must be an integer'')
      | Int_num sc \<Rightarrow>
          if sc < 0 then m_throw (VariantError ''cannot encode decimal with negative scale'')
          else let digits = num_digits unscaled
               in m_bind (checkCapacity (2 + 16)) (\<lambda>_.
                    m_bind
                      (if nat sc \<le> MAX_DECIMAL4_PRECISION \<and> digits \<le> MAX_DECIMAL4_PRECISION
                       then m_return (T_DECIMAL4, 4)
                       else if nat sc \<le> MAX_DECIMAL8_PRECISION \<and> digits \<le> MAX_DECIMAL8_PRECISION
                       then m_return (T_DECIMAL8, 8)
                       else if nat sc \<le> MAX_DECIMAL16_PRECISION \<and> digits \<le> MAX_DECIMAL16_PRECISION
                       then m_return (T_DECIMAL16, 16)
                       else m_throw (VariantError ''decimal exceeds maximum precision (38)''))
                      (\<lambda>(code, width). push ([primitiveHeader code, word_of_int sc] @ pushSignedLE unscaled width))))"

text \<open>The bytes of a \<open>DataView\<close> after \<open>setFloat32\<close> and \<open>setFloat64\<close>, little-endian.\<close>

definition bits_le :: "nat \<Rightarrow> nat \<Rightarrow> bytes" where
  "bits_le n w = map (\<lambda>i. of_nat (w div 256 ^ i)) [0..<n]"

definition writeDouble :: "64 word \<Rightarrow> (builder, unit) meth" where
  "writeDouble f = m_bind (checkCapacity (1 + 8)) (\<lambda>_. push (primitiveHeader T_DOUBLE # bits_le 8 (unat f)))"

section \<open>Containers\<close>

text \<open>\<open>splice(start, 0, ...header)\<close>\<close>

definition splice_at :: "nat \<Rightarrow> bytes \<Rightarrow> (builder, unit) meth" where
  "splice_at start header b = (b\<lparr>b_value := take start (b_value b) @ header @ drop start (b_value b)\<rparr>, Inr ())"

definition array_header :: "nat \<Rightarrow> nat list \<Rightarrow> bytes" where
  "array_header dataSize offsets =
     (let numOffsets = length offsets;
          largeSize = numOffsets > U8_MAX;
          sizeBytes = (if largeSize then U32_SIZE else 1);
          offsetSize = integerSize dataSize
      in word_of_int (js_or (js_or (if largeSize then js_shl 1 (BASIC_TYPE_BITS + 2) else 0)
                                   (js_shl (int offsetSize - 1) BASIC_TYPE_BITS)) (int ARRAY))
         # pushUintLE numOffsets sizeBytes
         @ concat (map (\<lambda>offset. pushUintLE offset offsetSize) offsets)
         @ pushUintLE dataSize offsetSize)"

definition finishWritingArray :: "nat \<Rightarrow> nat list \<Rightarrow> (builder, unit) meth" where
  "finishWritingArray start offsets b =
     (let header = array_header (length (b_value b) - start) offsets
      in m_bind (checkCapacity (length header)) (\<lambda>_. splice_at start header) b)"

text \<open>A stable sort by a comparison function, which is what \<open>Array.prototype.sort\<close> promises.\<close>

fun insert_by :: "('a \<Rightarrow> 'a \<Rightarrow> int) \<Rightarrow> 'a \<Rightarrow> 'a list \<Rightarrow> 'a list" where
  "insert_by cmp x [] = [x]"
| "insert_by cmp x (y # ys) = (if cmp x y > 0 then y # insert_by cmp x ys else x # y # ys)"

definition sort_by :: "('a \<Rightarrow> 'a \<Rightarrow> int) \<Rightarrow> 'a list \<Rightarrow> 'a list" where
  "sort_by cmp xs = foldr (insert_by cmp) xs []"

definition sort_fields :: "bytes list \<Rightarrow> field_entry list \<Rightarrow> field_entry list" where
  "sort_fields keys flds = sort_by (\<lambda>f g. compareKeysBytes (keys ! fe_id f) (keys ! fe_id g)) flds"

definition object_header :: "nat \<Rightarrow> field_entry list \<Rightarrow> bytes" where
  "object_header dataSize flds =
     (let numFields = length flds;
          maxId = fold (\<lambda>f m. max m (fe_id f)) flds 0;
          largeSize = numFields > U8_MAX;
          sizeBytes = (if largeSize then U32_SIZE else 1);
          idSize = integerSize maxId;
          offsetSize = integerSize dataSize
      in word_of_int (js_or (js_or (js_or (if largeSize then js_shl 1 (BASIC_TYPE_BITS + 4) else 0)
                                          (js_shl (int idSize - 1) (BASIC_TYPE_BITS + 2)))
                                   (js_shl (int offsetSize - 1) BASIC_TYPE_BITS)) (int OBJECT))
         # pushUintLE numFields sizeBytes
         @ concat (map (\<lambda>f. pushUintLE (fe_id f) idSize) flds)
         @ concat (map (\<lambda>f. pushUintLE (fe_offset f) offsetSize) flds)
         @ pushUintLE dataSize offsetSize)"

definition finishWritingObject :: "nat \<Rightarrow> field_entry list \<Rightarrow> (builder, unit) meth" where
  "finishWritingObject start flds b =
     (let header = object_header (length (b_value b) - start) (sort_fields (b_dictionaryKeys b) flds)
      in m_bind (checkCapacity (length header)) (\<lambda>_. splice_at start header) b)"

section \<open>The parsed tree\<close>

definition write_integer :: "int \<Rightarrow> (builder, unit) meth" where
  "write_integer i =
     m_bind (writeSmallestInt i) (\<lambda>done. if \<not> done then writeDecimalUnscaled i (Int_num 0) else m_return ())"

definition size_now :: "(builder, nat) meth" where
  "size_now b = (b, Inr (length (b_value b)))"

fun processParsedJson :: "json_tree \<Rightarrow> (builder, unit) meth"
  and processElements :: "nat \<Rightarrow> nat list \<Rightarrow> json_tree list \<Rightarrow> (builder, nat list) meth"
  and processEntries :: "nat \<Rightarrow> field_entry list \<Rightarrow> (ustring \<times> json_tree) list \<Rightarrow> (builder, field_entry list) meth"
  where
  "processParsedJson J_null = writeNull"
| "processParsedJson (J_array elems) =
     m_bind size_now (\<lambda>start.
       m_bind (processElements start [] elems) (\<lambda>offsets. finishWritingArray start offsets))"
| "processParsedJson (J_object entries) =
     m_bind size_now (\<lambda>start.
       m_bind (processEntries start [] entries) (\<lambda>flds. finishWritingObject start flds))"
| "processParsedJson (J_string s) = writeString s"
| "processParsedJson (J_bool x) = writeBoolean x"
| "processParsedJson (J_number (Int_num i)) = write_integer i"
| "processParsedJson (J_number (Frac_num d)) = writeDouble d"
| "processParsedJson (J_bigint i) = write_integer i"
| "processParsedJson (J_other t) = m_throw (VariantError (''unsupported JSON value: '' @ t))"
| "processElements start offsets [] = m_return offsets"
| "processElements start offsets (e # es) =
     m_bind size_now (\<lambda>n.
       m_bind (processParsedJson e) (\<lambda>_. processElements start (offsets @ [n - start]) es))"
| "processEntries start flds [] = m_return flds"
| "processEntries start flds ((key, val) # es) =
     m_bind (addKey key) (\<lambda>fid.
       m_bind size_now (\<lambda>n.
         m_bind (processParsedJson val) (\<lambda>_.
           processEntries start (flds @ [\<lparr>fe_key = key, fe_id = fid, fe_offset = n - start\<rparr>]) es)))"

section \<open>Metadata\<close>

fun running_offsets :: "nat \<Rightarrow> bytes list \<Rightarrow> nat list" where
  "running_offsets n [] = [n]"
| "running_offsets n (k # ks) = n # running_offsets (n + length k) ks"

definition metadata_bytes :: "nat \<Rightarrow> bytes list \<Rightarrow> bytes" where
  "metadata_bytes offsetSize keys =
     word_of_int (js_or VERSION (js_shl (int offsetSize - 1) 6))
     # pushUintLE (length keys) offsetSize
     @ concat (map (\<lambda>o'. pushUintLE o' offsetSize) (running_offsets 0 keys))
     @ concat keys"

definition finalize :: "builder \<Rightarrow> (bytes \<times> bytes) result" where
  "finalize b =
     (let keys = b_dictionaryKeys b;
          numKeys = length keys;
          dictStringSize = fold (\<lambda>k a. a + length k) keys 0;
          maxSize = max dictStringSize numKeys
      in if maxSize > b_sizeLimit b then Inl too_large
         else let offsetSize = integerSize maxSize;
                  stringStart = 1 + offsetSize + (numKeys + 1) * offsetSize
              in if stringStart + dictStringSize > b_sizeLimit b then Inl too_large
                 else Inr (b_value b, metadata_bytes offsetSize keys))"

definition build :: "builder \<Rightarrow> variant result" where
  "build b =
     (if b_stack b \<noteq> [] then Inl (VariantError ''cannot build with an open container'')
      else if \<not> b_rootWritten b then Inl (VariantError ''cannot build an empty variant'')
      else res_bind (finalize b) (\<lambda>(value, metadata). newVariant value metadata 0))"

text \<open>\<open>buildFromJson\<close> once the text is parsed.\<close>

definition buildFromTree :: "json_tree \<Rightarrow> (builder, variant) meth" where
  "buildFromTree t b =
     m_bind (processParsedJson t) (\<lambda>_ b'. (b', res_bind (finalize b') (\<lambda>(value, metadata). newVariant value metadata 0))) b"

section \<open>The streaming interface\<close>

definition beforeAppend :: "(builder, unit) meth" where
  "beforeAppend b =
     (case b_stack b of
        [] \<Rightarrow>
          if b_rootWritten b then (b, Inl (VariantError ''cannot append multiple root values''))
          else (b\<lparr>b_rootWritten := True\<rparr>, Inr ())
      | Object_context start flds pendingKey pendingId # rest \<Rightarrow>
          (case pendingKey of
             None \<Rightarrow> (b, Inl (VariantError ''a value in an object must follow appendKey''))
           | Some key \<Rightarrow>
               (b\<lparr>b_stack := Object_context start
                    (flds @ [\<lparr>fe_key = key, fe_id = pendingId, fe_offset = length (b_value b) - start\<rparr>]) None pendingId # rest\<rparr>,
                Inr ()))
      | Array_context start offsets # rest \<Rightarrow>
          (b\<lparr>b_stack := Array_context start (offsets @ [length (b_value b) - start]) # rest\<rparr>, Inr ()))"

definition appendNull :: "(builder, unit) meth" where
  "appendNull = m_bind beforeAppend (\<lambda>_. writeNull)"

definition appendBoolean :: "bool \<Rightarrow> (builder, unit) meth" where
  "appendBoolean x = m_bind beforeAppend (\<lambda>_. writeBoolean x)"

definition appendByte :: "int \<Rightarrow> (builder, unit) meth" where
  "appendByte i = m_bind beforeAppend (\<lambda>_. writeFixedInt T_INT1 i 1)"

definition appendShort :: "int \<Rightarrow> (builder, unit) meth" where
  "appendShort i = m_bind beforeAppend (\<lambda>_. writeFixedInt T_INT2 i 2)"

definition appendInt :: "int \<Rightarrow> (builder, unit) meth" where
  "appendInt i = m_bind beforeAppend (\<lambda>_. writeFixedInt T_INT4 i 4)"

definition appendLong :: "int \<Rightarrow> (builder, unit) meth" where
  "appendLong i = m_bind beforeAppend (\<lambda>_. writeFixedInt T_INT8 i 8)"

text \<open>A float arrives as the 32 bits \<open>setFloat32\<close> rounds it to.\<close>

definition appendFloat :: "32 word \<Rightarrow> (builder, unit) meth" where
  "appendFloat f =
     m_bind beforeAppend (\<lambda>_. m_bind (checkCapacity (1 + 4)) (\<lambda>_. push (primitiveHeader T_FLOAT # bits_le 4 (unat f))))"

definition appendDouble :: "64 word \<Rightarrow> (builder, unit) meth" where
  "appendDouble f = m_bind beforeAppend (\<lambda>_. writeDouble f)"

text \<open>
  The three forms of a decimal argument. A \<open>Decimal\<close> of the library \<open>decimal.js\<close> is its number of
  decimal places and the integer its digits spell.
\<close>

datatype decimal_arg = Dec_bytes bytes | Dec_bigint int | Dec_native int nat

definition appendDecimal :: "decimal_arg \<Rightarrow> js_number option \<Rightarrow> (builder, unit) meth" where
  "appendDecimal unscaled scale =
     m_bind beforeAppend (\<lambda>_.
       case unscaled of
         Dec_bytes bs \<Rightarrow>
           (case scale of
              None \<Rightarrow> m_throw (VariantError ''scale is required when appending a decimal from bytes'')
            | Some s \<Rightarrow> writeDecimalUnscaled (bigEndianSigned bs) s)
       | Dec_bigint i \<Rightarrow>
           (case scale of
              None \<Rightarrow> m_throw (VariantError ''scale is required when appending an unscaled integer'')
            | Some s \<Rightarrow> writeDecimalUnscaled i s)
       | Dec_native i places \<Rightarrow>
           (case scale of
              Some _ \<Rightarrow> m_throw (VariantError ''scale must not be given with a Decimal value'')
            | None \<Rightarrow> writeDecimalUnscaled i (Int_num (int places))))"

definition appendString :: "ustring \<Rightarrow> (builder, unit) meth" where
  "appendString s = m_bind beforeAppend (\<lambda>_. writeString s)"

definition appendBinary :: "bytes \<Rightarrow> (builder, unit) meth" where
  "appendBinary data =
     m_bind beforeAppend (\<lambda>_.
       m_bind (checkCapacity (1 + U32_SIZE + length data)) (\<lambda>_.
         push (primitiveHeader T_BINARY # pushUintLE (length data) U32_SIZE @ data)))"

definition appendUuid :: "bytes \<Rightarrow> (builder, unit) meth" where
  "appendUuid uuid16 =
     m_bind beforeAppend (\<lambda>_.
       if length uuid16 \<noteq> 16 then m_throw (VariantError ''uuid must be 16 bytes'')
       else m_bind (checkCapacity (1 + 16)) (\<lambda>_. push (primitiveHeader T_UUID # uuid16)))"

definition appendDate :: "int \<Rightarrow> (builder, unit) meth" where
  "appendDate i = m_bind beforeAppend (\<lambda>_. writeFixedInt T_DATE i 4)"

definition appendTime :: "int \<Rightarrow> (builder, unit) meth" where
  "appendTime i = m_bind beforeAppend (\<lambda>_. writeFixedInt T_TIME i 8)"

definition appendTimestampTz :: "int \<Rightarrow> (builder, unit) meth" where
  "appendTimestampTz i = m_bind beforeAppend (\<lambda>_. writeFixedInt T_TIMESTAMP i 8)"

definition appendTimestampNtz :: "int \<Rightarrow> (builder, unit) meth" where
  "appendTimestampNtz i = m_bind beforeAppend (\<lambda>_. writeFixedInt T_TIMESTAMP_NTZ i 8)"

definition appendTimestampNanosTz :: "int \<Rightarrow> (builder, unit) meth" where
  "appendTimestampNanosTz i = m_bind beforeAppend (\<lambda>_. writeFixedInt T_TIMESTAMP_NANOS i 8)"

definition appendTimestampNanosNtz :: "int \<Rightarrow> (builder, unit) meth" where
  "appendTimestampNanosNtz i = m_bind beforeAppend (\<lambda>_. writeFixedInt T_TIMESTAMP_NANOS_NTZ i 8)"

definition push_context :: "(nat \<Rightarrow> build_context) \<Rightarrow> (builder, unit) meth" where
  "push_context ctx b = (b\<lparr>b_stack := ctx (length (b_value b)) # b_stack b\<rparr>, Inr ())"

definition startObject :: "(builder, unit) meth" where
  "startObject = m_bind beforeAppend (\<lambda>_. push_context (\<lambda>start. Object_context start [] None 0))"

definition startArray :: "(builder, unit) meth" where
  "startArray = m_bind beforeAppend (\<lambda>_. push_context (\<lambda>start. Array_context start []))"

text \<open>\<open>pendingKey\<close> is set before the key is added; nothing between the two fails.\<close>

definition appendKey :: "ustring \<Rightarrow> (builder, unit) meth" where
  "appendKey key b =
     (case b_stack b of
        Object_context start flds pendingKey pendingId # rest \<Rightarrow>
          (if pendingKey \<noteq> None
           then (b, Inl (VariantError ''appendKey called twice without an intervening value''))
           else m_bind (addKey key) (\<lambda>fid b'. (b'\<lparr>b_stack := Object_context start flds (Some key) fid # rest\<rparr>, Inr ())) b)
      | _ \<Rightarrow> (b, Inl (VariantError ''appendKey called outside of an object'')))"

definition endObject :: "(builder, unit) meth" where
  "endObject b =
     (case b_stack b of
        Object_context start flds pendingKey pendingId # rest \<Rightarrow>
          (if pendingKey \<noteq> None
           then (b, Inl (VariantError ''endObject with a dangling appendKey (no value)''))
           else finishWritingObject start flds (b\<lparr>b_stack := rest\<rparr>))
      | _ \<Rightarrow> (b, Inl (VariantError ''endObject without a matching startObject'')))"

definition endArray :: "(builder, unit) meth" where
  "endArray b =
     (case b_stack b of
        Array_context start offsets # rest \<Rightarrow> finishWritingArray start offsets (b\<lparr>b_stack := rest\<rparr>)
      | _ \<Rightarrow> (b, Inl (VariantError ''endArray without a matching startArray'')))"

end
