(* ===== verification/Variant_Layout.thy ===== *)
theory Variant_Layout
  imports Variant_Builder
begin

text \<open>
  What the reader finds in the bytes the builder writes, wherever they stand in a buffer: type
  headers, blocks of fixed-width numbers, the headers of arrays and objects, the key dictionary.
\<close>

section \<open>Type headers\<close>

lemma getTypeInfo_eq: "getTypeInfo val p = (unat (val ! p) mod 4, unat (val ! p) div 4)"
proof -
  let ?x = "uint (val ! p)"
  have small: "- (2 ^ 31) \<le> ?x" "?x < 2 ^ 31"
    by (rule order_trans [OF _ unsigned_greater_eq], simp) (rule less_trans [OF uint_byte_less], simp)
  have "js_shr ?x 2 = ?x div 4"
    using js_shr_int32 [OF small, of 2] by simp
  moreover have "js_and (?x div 4) 63 = ?x div 4 mod 64"
    using js_and_mask [of 63 6 "?x div 4"] by simp
  moreover have "?x div 4 < 64"
    using uint_byte_less [of "val ! p"] by linarith
  moreover have "0 \<le> ?x div 4"
    by (simp add: pos_imp_zdiv_nonneg_iff)
  ultimately have "js_and (js_shr ?x 2) 63 = ?x div 4" by simp
  then show ?thesis
    by (simp add: getTypeInfo_def BASIC_TYPE_MASK_def TYPE_INFO_MASK_def BASIC_TYPE_BITS_def js_and_3
        nat_mod_distrib nat_div_distrib)
qed

lemma byte_of_nat_lt: "n < 256 \<Longrightarrow> unat (of_nat n :: byte) = n"
  by (simp add: unat_of_nat_byte)

lemma tagged_byte:
  assumes "n < 64" "tag < 4"
  shows "word_of_int (js_or (js_shl (int n) 2) (int tag)) = (of_nat (4 * n + tag) :: byte)"
proof -
  have "js_shl (int n) 2 = push_bit 2 (int n)"
    using assms to_int32_id [of "push_bit 2 (int n)"] by (simp add: js_shl_def push_bit_eq_mult)
  moreover have "to_int32 (push_bit 2 (int n)) = push_bit 2 (int n)" "to_int32 (int tag) = int tag"
    using assms by (intro to_int32_id; simp add: push_bit_eq_mult)+
  moreover have "int tag OR push_bit 2 (int n) = int (4 * n + tag)"
    using assms by (subst or_push_bit_add) simp_all
  ultimately have "js_or (js_shl (int n) 2) (int tag) = int (4 * n + tag)"
    by (simp add: js_or_def or.commute)
  then show ?thesis by simp
qed

lemma primitiveHeader_eq: "code < 64 \<Longrightarrow> primitiveHeader code = of_nat (4 * code)"
  using tagged_byte [of code 0] by (simp add: primitiveHeader_def PRIMITIVE_def)

lemma short_header_eq: "n < 64 \<Longrightarrow> short_header n = of_nat (4 * n + 1)"
  using tagged_byte [of n 1] by (simp add: short_header_def SHORT_STR_def)

lemma size_cases:
  assumes "0 < n" "n \<le> (4 :: nat)"
  obtains "n = 1" | "n = 2" | "n = 3" | "n = 4"
  using assms by linarith

lemma tag_parts: "tag < 4 \<Longrightarrow> (4 * x + tag) mod 4 = (tag :: nat)" "tag < 4 \<Longrightarrow> (4 * x + tag) div 4 = x"
  by simp_all

definition array_tag :: "bool \<Rightarrow> nat \<Rightarrow> byte" where
  "array_tag large osz =
     word_of_int (js_or (js_or (if large then js_shl 1 (BASIC_TYPE_BITS + 2) else 0)
       (js_shl (int osz - 1) BASIC_TYPE_BITS)) (int ARRAY))"

lemma array_tag_eq:
  assumes "0 < osz" "osz \<le> 4"
  shows "array_tag large osz = of_nat (4 * (4 * of_bool large + (osz - 1)) + ARRAY)"
  by (rule size_cases [OF assms]; cases large)
    (simp_all add: array_tag_def js_defs BASIC_TYPE_BITS_def ARRAY_def)

definition object_tag :: "bool \<Rightarrow> nat \<Rightarrow> nat \<Rightarrow> byte" where
  "object_tag large isz osz =
     word_of_int (js_or (js_or (js_or (if large then js_shl 1 (BASIC_TYPE_BITS + 4) else 0)
       (js_shl (int isz - 1) (BASIC_TYPE_BITS + 2))) (js_shl (int osz - 1) BASIC_TYPE_BITS)) (int OBJECT))"

lemma object_tag_eq:
  assumes "0 < isz" "isz \<le> 4" "0 < osz" "osz \<le> 4"
  shows "object_tag large isz osz = of_nat (4 * (16 * of_bool large + 4 * (isz - 1) + (osz - 1)) + OBJECT)"
  by (rule size_cases [OF assms(1,2)]; rule size_cases [OF assms(3,4)]; cases large)
    (simp_all add: object_tag_def js_defs BASIC_TYPE_BITS_def OBJECT_def)

section \<open>A value inside a buffer\<close>

abbreviation view :: "bytes \<Rightarrow> bytes \<Rightarrow> bytes \<Rightarrow> bytes \<Rightarrow> variant" where
  "view pre bs post md \<equiv> \<lparr>v_value = pre @ bs @ post, v_metadata = md, v_pos = length pre\<rparr>"

lemma checkIndex_inside: "p < n \<Longrightarrow> checkIndex p n = Inr ()"
  by (simp add: checkIndex_def res_guard_def)

lemma typeInfo_head:
  assumes "n < 256" "bs = of_nat n # r"
  shows "getTypeInfo (pre @ bs @ post) (length pre) = (n mod 4, n div 4)"
  using assms by (simp add: getTypeInfo_eq byte_of_nat_lt)

lemma primitiveInfo_view:
  assumes "code < 64"
  shows "primitiveInfo (view pre (primitiveHeader code # r) post md) = Inr code"
  using assms typeInfo_head [OF _ refl, of "4 * code" pre r post]
  by (simp add: primitiveInfo_def primitiveHeader_eq checkIndex_inside PRIMITIVE_def)

lemma getType_view:
  assumes "code < 64" "map_of TYPE_MAP code = Some t"
  shows "getType (view pre (primitiveHeader code # r) post md) = Inr t"
  using assms typeInfo_head [OF _ refl, of "4 * code" pre r post]
  by (simp add: getType_def primitiveHeader_eq checkIndex_inside basic_types)

lemma view_bytes_view:
  assumes "length bs = w" "0 < w"
  shows "view_bytes (view pre (h # bs @ r) post md) w = Inr bs"
  using assms by (simp add: view_bytes_def checkIndex_inside)

lemma view_int_view:
  assumes "0 < w" "fits i w"
  shows "view_int (view pre (h # pushSignedLE i w @ r) post md) w = Inr i"
  using assms view_bytes_view [of "pushSignedLE i w" w pre h r post md]
  by (simp add: view_int_def signed_val_push)

section \<open>Blocks of numbers\<close>

lemma concat_split:
  "i < length xs \<Longrightarrow>
     concat (map f xs) = concat (map f (take i xs)) @ f (xs ! i) @ concat (map f (drop (Suc i) xs))"
  by (metis (no_types) concat.simps(2) concat_append id_take_nth_drop list.simps(9) map_append)

lemma length_block: "(\<And>x. length (f x) = n) \<Longrightarrow> length (concat (map f xs)) = length xs * n"
  by (induction xs) auto

lemma read_block:
  assumes "i < length xs" "0 < sz" "sz \<le> 4" "xs ! i < 256 ^ sz" "data = pre @ concat (map (\<lambda>x. pushUintLE x sz) xs) @ post"
    and "p = length pre + i * sz"
  shows "readUnsignedLE data p sz = Inr (xs ! i)"
proof -
  let ?f = "\<lambda>x. pushUintLE x sz"
  have "data = (pre @ concat (map ?f (take i xs))) @ ?f (xs ! i) @ (concat (map ?f (drop (Suc i) xs)) @ post)"
    unfolding assms(5) by (subst concat_split [OF assms(1)]) simp
  moreover have "p = length (pre @ concat (map ?f (take i xs)))"
    using assms(1,6) length_block [of ?f sz "take i xs"] by simp
  ultimately show ?thesis
    by (simp only: readUnsignedLE_pushUintLE [OF assms(2,3,4)])
qed

text \<open>Where the parts of a sequence of byte strings begin.\<close>

fun starts :: "nat \<Rightarrow> bytes list \<Rightarrow> nat list" where
  "starts n [] = []"
| "starts n (k # ks) = n # starts (n + length k) ks"

lemma length_starts [simp]: "length (starts n bss) = length bss"
  by (induction bss arbitrary: n) auto

lemma starts_nth: "i < length bss \<Longrightarrow> starts n bss ! i = n + length (concat (take i bss))"
  by (induction bss arbitrary: n i) (auto simp: nth_Cons split: nat.splits)

lemma starts_append: "starts n (xs @ ys) = starts n xs @ starts (n + length (concat xs)) ys"
  by (induction xs arbitrary: n) (auto simp: add.assoc)

lemma running_offsets_eq: "running_offsets n ks = starts n ks @ [n + length (concat ks)]"
  by (induction ks arbitrary: n) (auto simp: add.assoc)

lemma starts_le: "i < length bss \<Longrightarrow> starts n bss ! i \<le> n + length (concat bss)"
proof -
  assume i: "i < length bss"
  have "concat bss = concat (take i bss) @ concat (drop i bss)"
    by (metis append_take_drop_id concat_append)
  then show ?thesis using i by (simp add: starts_nth)
qed

section \<open>Array headers\<close>

definition size_bytes :: "nat \<Rightarrow> nat" where
  "size_bytes n = (if n > U8_MAX then U32_SIZE else 1)"

lemma size_bytes_fits: "n < 2 ^ 32 \<Longrightarrow> 0 < size_bytes n \<and> size_bytes n \<le> 4 \<and> n < 256 ^ size_bytes n"
  by (simp add: size_bytes_def U8_MAX_def U32_SIZE_def)

lemma array_header_eq:
  "array_header ds offs =
     array_tag (length offs > U8_MAX) (integerSize ds) # pushUintLE (length offs) (size_bytes (length offs))
     @ concat (map (\<lambda>x. pushUintLE x (integerSize ds)) (offs @ [ds]))"
  by (simp add: array_header_def array_tag_def size_bytes_def Let_def)

lemma length_array_header:
  "length (array_header ds offs) = 1 + size_bytes (length offs) + (length offs + 1) * integerSize ds"
  using length_block [of "\<lambda>x. pushUintLE x (integerSize ds)" "integerSize ds" offs] by (simp add: array_header_eq)

lemma array_flags:
  assumes "0 < osz" "osz \<le> 4"
  shows "js_and (js_shr (int (4 * of_bool large + (osz - 1))) 2) 1 \<noteq> 0 \<longleftrightarrow> large"
    and "nat (js_and (int (4 * of_bool large + (osz - 1))) 3) + 1 = osz"
  by (rule size_cases [OF assms]; cases large; simp add: js_defs)+

definition array_view_info :: "bytes \<Rightarrow> nat \<Rightarrow> nat list \<Rightarrow> array_info" where
  "array_view_info pre ds offs =
     \<lparr>ai_numFields = length offs, ai_offsetSize = integerSize ds,
      ai_offsetStart = length pre + 1 + size_bytes (length offs),
      ai_dataStart = length pre + length (array_header ds offs)\<rparr>"

lemma arrayInfo_from:
  assumes "v_pos v < length (v_value v)" "getTypeInfo (v_value v) (v_pos v) = (ARRAY, ti)"
    and "js_and (js_shr (int ti) 2) 1 \<noteq> 0 \<longleftrightarrow> large" "nat (js_and (int ti) 3) + 1 = osz"
    and "readUnsignedLE (v_value v) (v_pos v + 1) (if large then U32_SIZE else 1) = Inr n"
  shows "arrayInfo v = Inr \<lparr>ai_numFields = n, ai_offsetSize = osz,
    ai_offsetStart = v_pos v + 1 + (if large then U32_SIZE else 1),
    ai_dataStart = v_pos v + 1 + (if large then U32_SIZE else 1) + (n + 1) * osz\<rparr>"
  using assms by (cases large) (auto simp: arrayInfo_def checkIndex_inside Let_def)

lemma arrayInfo_view:
  assumes "length offs < 2 ^ 32"
  shows "arrayInfo (view pre (array_header ds offs @ r) post md) = Inr (array_view_info pre ds offs)"
proof -
  let ?n = "length offs" and ?osz = "integerSize ds" and ?large = "length offs > U8_MAX"
  have osz: "0 < ?osz" "?osz \<le> 4" by (rule integerSize_bounds)+
  let ?ti = "4 * of_bool ?large + (?osz - 1)"
  have ti: "4 * ?ti + ARRAY < 256" "(4 * ?ti + ARRAY) mod 4 = ARRAY" "(4 * ?ti + ARRAY) div 4 = ?ti"
    using osz by (auto simp: ARRAY_def)
  let ?rest = "concat (map (\<lambda>x. pushUintLE x ?osz) (offs @ [ds])) @ r @ post"
  have val: "pre @ (array_header ds offs @ r) @ post = pre @ [array_tag ?large ?osz] @ pushUintLE ?n (size_bytes ?n) @ ?rest"
    by (simp add: array_header_eq)
  have tyinfo: "getTypeInfo (pre @ (array_header ds offs @ r) @ post) (length pre) = (ARRAY, ?ti)"
    unfolding array_header_eq append_Cons array_tag_eq [OF osz]
    using typeInfo_head [OF ti(1) refl] unfolding ti(2,3) append_Cons .
  have num: "readUnsignedLE (pre @ (array_header ds offs @ r) @ post) (length pre + 1) (size_bytes ?n) = Inr ?n"
    using readUnsignedLE_pushUintLE [of "size_bytes ?n" ?n "pre @ [array_tag ?large ?osz]" ?rest] size_bytes_fits [OF assms]
    unfolding val by simp
  have len: "length (array_header ds offs) = 1 + size_bytes ?n + (?n + 1) * ?osz"
    by (rule length_array_header)
  have "length pre < length (pre @ (array_header ds offs @ r) @ post)"
    by (simp add: array_header_eq)
  then show ?thesis
    using arrayInfo_from [where v = "view pre (array_header ds offs @ r) post md",
        OF _ _ array_flags [OF osz, of ?large], of ?n] tyinfo num
    by (simp only: variant.select_convs array_view_info_def size_bytes_def len add.assoc)
qed

lemma read_at_nat: "read_at data (int a + int sz * int i) n = readUnsignedLE data (a + i * sz) n"
proof -
  have "int a + int sz * int i = int (a + i * sz)" by simp
  then show ?thesis unfolding read_at_def by (simp only: nat_int of_nat_less_0_iff if_False)
qed

text \<open>Element \<open>i\<close> stands where its offset says.\<close>

lemma newVariant_ok:
  "md \<noteq> [] \<Longrightarrow> js_and (uint (md ! 0)) VERSION_MASK = VERSION \<Longrightarrow>
     newVariant val md p = Inr \<lparr>v_value = val, v_metadata = md, v_pos = p\<rparr>"
  by (simp add: newVariant_def checkIndex_inside)

lemma split_at:
  assumes "i < length bss"
  shows "concat bss = concat (take i bss) @ bss ! i @ concat (drop (Suc i) bss)"
  using concat_split [OF assms, of id] by simp

definition metadata_ok :: "bytes \<Rightarrow> bool" where
  "metadata_ok md \<longleftrightarrow> md \<noteq> [] \<and> js_and (uint (md ! 0)) VERSION_MASK = VERSION"

lemma getElementAtIndex_from:
  assumes "arrayInfo v = Inr info" "i < ai_numFields info" "metadata_ok (v_metadata v)"
    and "readUnsignedLE (v_value v) (ai_offsetStart info + i * ai_offsetSize info) (ai_offsetSize info) = Inr off"
  shows "getElementAtIndex v (int i) =
    Inr (Some \<lparr>v_value = v_value v, v_metadata = v_metadata v, v_pos = ai_dataStart info + off\<rparr>)"
  using assms by (simp add: getElementAtIndex_def read_at_nat metadata_ok_def newVariant_ok)

lemma getElementAtIndex_view:
  assumes "metadata_ok md" "length bss < 2 ^ 32" "ds = length (concat bss)" "ds < 2 ^ 32" "i < length bss"
  defines "hdr \<equiv> array_header ds (starts 0 bss)"
  shows "getElementAtIndex (view pre (hdr @ concat bss) post md) (int i) =
    Inr (Some (view (pre @ hdr @ concat (take i bss)) (bss ! i) (concat (drop (Suc i) bss) @ post) md))"
proof -
  let ?v = "view pre (hdr @ concat bss) post md"
  let ?osz = "integerSize ds" and ?n = "length bss"
  have osz: "0 < ?osz" "?osz \<le> 4" by (rule integerSize_bounds)+
  have info: "arrayInfo ?v = Inr (array_view_info pre ds (starts 0 bss))"
    unfolding hdr_def using arrayInfo_view [of "starts 0 bss" pre ds "concat bss" post md] assms(2) by simp
  have off: "(starts 0 bss @ [ds]) ! i = length (concat (take i bss))"
    using assms(5) by (simp add: nth_append starts_nth)
  have fit: "(starts 0 bss @ [ds]) ! i < 256 ^ ?osz"
    using assms starts_le [OF assms(5), of 0] by (intro integerSize_fits_le) (simp_all add: nth_append)
  have "readUnsignedLE (pre @ (hdr @ concat bss) @ post) (length pre + 1 + size_bytes ?n + i * ?osz) ?osz =
      Inr ((starts 0 bss @ [ds]) ! i)"
    using assms(5) by (intro read_block [where pre = "pre @ array_tag (length (starts 0 bss) > U8_MAX) ?osz #
          pushUintLE ?n (size_bytes ?n)" and post = "concat bss @ post", OF _ osz fit])
      (simp_all add: hdr_def array_header_eq)
  moreover have "pre @ (hdr @ concat bss) @ post =
      (pre @ hdr @ concat (take i bss)) @ bss ! i @ (concat (drop (Suc i) bss) @ post)"
    by (subst split_at [OF assms(5)]) simp
  ultimately show ?thesis
    using getElementAtIndex_from [OF info, of i] assms(1,5)
    by (simp only: variant.select_convs array_view_info_def array_info.select_convs length_starts off length_append
        hdr_def [symmetric] add.assoc)
qed

section \<open>Object headers\<close>

definition max_id :: "field_entry list \<Rightarrow> nat" where
  "max_id flds = fold (\<lambda>f m. max m (fe_id f)) flds 0"

lemma max_id_ge: "f \<in> set flds \<Longrightarrow> fe_id f \<le> max_id flds"
proof -
  have mono: "m \<le> fold (\<lambda>f m. max m (fe_id f)) gs m" for m gs
    by (induction gs arbitrary: m) (auto intro: order_trans [OF max.cobounded1])
  have "f \<in> set gs \<Longrightarrow> fe_id f \<le> fold (\<lambda>f m. max m (fe_id f)) gs m" for m gs
    by (induction gs arbitrary: m) (auto intro: order_trans [OF max.cobounded2 mono])
  then show "f \<in> set flds \<Longrightarrow> ?thesis" by (simp add: max_id_def)
qed

lemma max_id_less:
  assumes "\<forall>f \<in> set flds. fe_id f < n" "0 < n" shows "max_id flds < n"
proof -
  have "\<forall>f \<in> set gs. fe_id f < n \<Longrightarrow> m < n \<Longrightarrow> fold (\<lambda>f m. max m (fe_id f)) gs m < n" for m gs
    by (induction gs arbitrary: m) auto
  from this [OF assms] show ?thesis by (simp add: max_id_def)
qed

lemma object_header_eq:
  "object_header ds flds =
     object_tag (length flds > U8_MAX) (integerSize (max_id flds)) (integerSize ds)
     # pushUintLE (length flds) (size_bytes (length flds))
     @ concat (map (\<lambda>x. pushUintLE x (integerSize (max_id flds))) (map fe_id flds))
     @ concat (map (\<lambda>x. pushUintLE x (integerSize ds)) (map fe_offset flds @ [ds]))"
  by (simp add: object_header_def object_tag_def size_bytes_def max_id_def Let_def comp_def)

lemma object_flags:
  assumes "0 < isz" "isz \<le> 4" "0 < osz" "osz \<le> 4"
  shows "js_and (js_shr (int (16 * of_bool large + 4 * (isz - 1) + (osz - 1))) 4) 1 \<noteq> 0 \<longleftrightarrow> large"
    and "nat (js_and (js_shr (int (16 * of_bool large + 4 * (isz - 1) + (osz - 1))) 2) 3) + 1 = isz"
    and "nat (js_and (int (16 * of_bool large + 4 * (isz - 1) + (osz - 1))) 3) + 1 = osz"
  by (rule size_cases [OF assms(1,2)]; rule size_cases [OF assms(3,4)]; cases large; simp add: js_defs)+

lemma objectInfo_from:
  assumes "v_pos v < length (v_value v)" "getTypeInfo (v_value v) (v_pos v) = (OBJECT, ti)"
    and "js_and (js_shr (int ti) 4) 1 \<noteq> 0 \<longleftrightarrow> large" "nat (js_and (js_shr (int ti) 2) 3) + 1 = isz"
      "nat (js_and (int ti) 3) + 1 = osz"
    and "readUnsignedLE (v_value v) (v_pos v + 1) (if large then U32_SIZE else 1) = Inr n"
  shows "objectInfo v = Inr \<lparr>oi_numFields = n, oi_idSize = isz, oi_offsetSize = osz,
    oi_idStart = v_pos v + 1 + (if large then U32_SIZE else 1),
    oi_offsetStart = v_pos v + 1 + (if large then U32_SIZE else 1) + n * isz,
    oi_dataStart = v_pos v + 1 + (if large then U32_SIZE else 1) + n * isz + (n + 1) * osz\<rparr>"
  using assms by (cases large) (auto simp: objectInfo_def checkIndex_inside Let_def)

definition object_view_info :: "bytes \<Rightarrow> nat \<Rightarrow> field_entry list \<Rightarrow> object_info" where
  "object_view_info pre ds flds =
     \<lparr>oi_numFields = length flds, oi_idSize = integerSize (max_id flds), oi_offsetSize = integerSize ds,
      oi_idStart = length pre + 1 + size_bytes (length flds),
      oi_offsetStart = length pre + 1 + size_bytes (length flds) + length flds * integerSize (max_id flds),
      oi_dataStart = length pre + length (object_header ds flds)\<rparr>"

lemma length_object_header:
  "length (object_header ds flds) =
     1 + size_bytes (length flds) + length flds * integerSize (max_id flds) + (length flds + 1) * integerSize ds"
  using length_block [of "\<lambda>x. pushUintLE x (integerSize (max_id flds))" "integerSize (max_id flds)" "map fe_id flds"]
    length_block [of "\<lambda>x. pushUintLE x (integerSize ds)" "integerSize ds" "map fe_offset flds @ [ds]"]
  by (simp add: object_header_eq)

lemma objectInfo_view:
  assumes "length flds < 2 ^ 32"
  shows "objectInfo (view pre (object_header ds flds @ r) post md) = Inr (object_view_info pre ds flds)"
proof -
  let ?n = "length flds" and ?isz = "integerSize (max_id flds)" and ?osz = "integerSize ds"
    and ?large = "length flds > U8_MAX"
  have sz: "0 < ?isz" "?isz \<le> 4" "0 < ?osz" "?osz \<le> 4" by (rule integerSize_bounds)+
  let ?ti = "16 * of_bool ?large + 4 * (?isz - 1) + (?osz - 1)"
  have ti: "4 * ?ti + OBJECT < 256"
    using sz by (auto simp: OBJECT_def)
  have parts: "(4 * ?ti + OBJECT) mod 4 = OBJECT" "(4 * ?ti + OBJECT) div 4 = ?ti"
    by (rule tag_parts, simp add: OBJECT_def)+
  have tyinfo: "getTypeInfo (pre @ (object_header ds flds @ r) @ post) (length pre) = (OBJECT, ?ti)"
    unfolding object_header_eq append_Cons object_tag_eq [OF sz]
    using typeInfo_head [OF ti refl] unfolding parts append_Cons .
  have num: "readUnsignedLE (pre @ (object_header ds flds @ r) @ post) (length pre + 1) (size_bytes ?n) = Inr ?n"
    using readUnsignedLE_pushUintLE [of "size_bytes ?n" ?n "pre @ [object_tag ?large ?isz ?osz]"] size_bytes_fits [OF assms]
    by (simp add: object_header_eq)
  have "length pre < length (pre @ (object_header ds flds @ r) @ post)"
    by (simp add: object_header_eq)
  then show ?thesis
    using objectInfo_from [where v = "view pre (object_header ds flds @ r) post md",
        OF _ _ object_flags [OF sz, of ?large], of ?n] tyinfo num
    by (simp only: variant.select_convs object_view_info_def size_bytes_def length_object_header add.assoc)
qed

text \<open>The id and the value of field \<open>i\<close>.\<close>

lemma field_id_view:
  assumes "length flds < 2 ^ 32" "max_id flds < 2 ^ 32" "i < length flds"
  shows "field_id (view pre (object_header ds flds @ r) post md) (object_view_info pre ds flds) (int i) =
    Inr (fe_id (flds ! i))"
proof -
  let ?isz = "integerSize (max_id flds)" and ?n = "length flds"
  have isz: "0 < ?isz" "?isz \<le> 4" by (rule integerSize_bounds)+
  have fit: "map fe_id flds ! i < 256 ^ ?isz"
    using assms max_id_ge [of "flds ! i" flds] by (intro integerSize_fits_le) simp_all
  have "readUnsignedLE (pre @ (object_header ds flds @ r) @ post) (length pre + 1 + size_bytes ?n + i * ?isz) ?isz =
      Inr (map fe_id flds ! i)"
    using assms(3) by (intro read_block [where pre = "pre @ object_tag (?n > U8_MAX) ?isz (integerSize ds) #
          pushUintLE ?n (size_bytes ?n)", OF _ isz fit]) (simp_all add: object_header_eq)
  then show ?thesis
    using assms(3) by (simp add: field_id_def object_view_info_def read_at_nat del: append_assoc of_nat_add of_nat_Suc)
qed

lemma field_value_view:
  assumes "metadata_ok md" "length flds < 2 ^ 32" "i < length flds" "fe_offset (flds ! i) \<le> ds" "ds < 2 ^ 32"
  shows "field_value (view pre (object_header ds flds @ r) post md) (object_view_info pre ds flds) (int i) =
    Inr \<lparr>v_value = pre @ (object_header ds flds @ r) @ post, v_metadata = md,
         v_pos = length pre + length (object_header ds flds) + fe_offset (flds ! i)\<rparr>"
proof -
  let ?isz = "integerSize (max_id flds)" and ?osz = "integerSize ds" and ?n = "length flds"
  have osz: "0 < ?osz" "?osz \<le> 4" by (rule integerSize_bounds)+
  have off: "(map fe_offset flds @ [ds]) ! i = fe_offset (flds ! i)"
    using assms(3) by (simp add: nth_append)
  have fit: "(map fe_offset flds @ [ds]) ! i < 256 ^ ?osz"
    using assms unfolding off by (intro integerSize_fits_le) simp_all
  have "readUnsignedLE (pre @ (object_header ds flds @ r) @ post)
      (length pre + 1 + size_bytes ?n + ?n * ?isz + i * ?osz) ?osz = Inr ((map fe_offset flds @ [ds]) ! i)"
    using assms(3) length_block [of "\<lambda>x. pushUintLE x ?isz" ?isz "map fe_id flds"]
    by (intro read_block [where pre = "pre @ object_tag (?n > U8_MAX) ?isz ?osz #
          pushUintLE ?n (size_bytes ?n) @ concat (map (\<lambda>x. pushUintLE x ?isz) (map fe_id flds))", OF _ osz fit])
      (simp_all add: object_header_eq)
  then show ?thesis
    using assms(1) unfolding off
    by (simp add: field_value_def object_view_info_def read_at_nat newVariant_ok metadata_ok_def
        del: append_assoc of_nat_add of_nat_Suc)
qed

end
