(* ===== verification/Variant_Search.thy ===== *)
theory Variant_Search
  imports Variant_Layout "HOL-Library.Multiset"
begin

text \<open>
  The byte order of keys, the sort of an object's fields, and the two ways \<open>getFieldByKey\<close> looks a key
  up. On fields sorted by their keys the binary search finds what the linear search finds.
\<close>

section \<open>The order of keys\<close>

lemma compareKeysBytes_zero: "compareKeysBytes a b = 0 \<longleftrightarrow> a = b"
  by (induction a b rule: compareKeysBytes.induct) (auto simp: word_uint_eq_iff)

lemma compareKeysBytes_swap: "compareKeysBytes b a = - compareKeysBytes a b"
  by (induction a b rule: compareKeysBytes.induct) auto

lemma compareKeysBytes_trans:
  "compareKeysBytes a b < 0 \<Longrightarrow> compareKeysBytes b c < 0 \<Longrightarrow> compareKeysBytes a c < 0"
proof (induction a arbitrary: b c)
  case Nil
  then show ?case by (cases b; cases c) auto
next
  case (Cons x a)
  then obtain y b' z c' where "b = y # b'" "c = z # c'" by (cases b; cases c) auto
  with Cons show ?case by (auto split: if_splits)
qed

definition key_less :: "bytes \<Rightarrow> bytes \<Rightarrow> bool" where
  "key_less a b \<longleftrightarrow> compareKeysBytes a b < 0"

lemma key_less_linear: "key_less a b \<or> a = b \<or> key_less b a"
  using compareKeysBytes_zero [of a b] compareKeysBytes_swap [of b a] by (auto simp: key_less_def)

lemma key_less_trans: "key_less a b \<Longrightarrow> key_less b c \<Longrightarrow> key_less a c"
  unfolding key_less_def by (rule compareKeysBytes_trans)

lemma key_less_irrefl: "\<not> key_less a a"
  using compareKeysBytes_zero [of a a] by (simp add: key_less_def)

lemma key_less_cases:
  "key_less a b \<Longrightarrow> compareKeysBytes a b < 0" "key_less b a \<Longrightarrow> 0 < compareKeysBytes a b"
  using compareKeysBytes_swap [of a b] by (simp_all add: key_less_def)

section \<open>Sorting\<close>

lemma mset_insert_by: "mset (insert_by cmp x xs) = add_mset x (mset xs)"
  by (induction xs) auto

lemma mset_sort_by [simp]: "mset (sort_by cmp xs) = mset xs"
  by (induction xs) (auto simp: sort_by_def mset_insert_by)

lemma set_sort_by [simp]: "set (sort_by cmp xs) = set xs"
  by (metis mset_sort_by set_mset_mset)

lemma length_sort_by [simp]: "length (sort_by cmp xs) = length xs"
  by (metis mset_sort_by size_mset)

lemma set_insert_by: "set (insert_by cmp x xs) = insert x (set xs)"
  by (metis mset_insert_by set_mset_add_mset_insert set_mset_mset)

text \<open>Sorting by a key that tells the elements apart gives a strictly increasing list.\<close>

lemma sorted_insert_by:
  assumes "sorted_wrt (\<lambda>a b. key_less (k a) (k b)) xs" and "\<forall>y \<in> set xs. k x \<noteq> k y"
  shows "sorted_wrt (\<lambda>a b. key_less (k a) (k b)) (insert_by (\<lambda>a b. compareKeysBytes (k a) (k b)) x xs)"
  using assms
proof (induction xs)
  case Nil
  then show ?case by simp
next
  case (Cons y ys)
  show ?case
  proof (cases "compareKeysBytes (k x) (k y) > 0")
    case True
    then have "key_less (k y) (k x)" using compareKeysBytes_swap [of "k y" "k x"] by (simp add: key_less_def)
    with Cons True show ?thesis by (auto simp: set_insert_by)
  next
    case False
    then have "key_less (k x) (k y)" using Cons.prems compareKeysBytes_zero [of "k x" "k y"] by (auto simp: key_less_def)
    with Cons.prems False show ?thesis by (auto intro: key_less_trans)
  qed
qed

lemma sorted_sort_by:
  assumes "distinct (map k xs)"
  shows "sorted_wrt (\<lambda>a b. key_less (k a) (k b)) (sort_by (\<lambda>a b. compareKeysBytes (k a) (k b)) xs)"
  using assms
proof (induction xs)
  case Nil
  then show ?case by (simp add: sort_by_def)
next
  case (Cons x xs)
  have "set (foldr (insert_by (\<lambda>a b. compareKeysBytes (k a) (k b))) xs []) = set xs"
    using set_sort_by unfolding sort_by_def .
  with Cons show ?case
    using sorted_insert_by [of k "sort_by (\<lambda>a b. compareKeysBytes (k a) (k b)) xs" x] by (auto simp: sort_by_def)
qed

section \<open>Looking up a key\<close>

text \<open>
  A table of fields: the reader finds \<open>n\<close> keys, their encodings strictly increasing, few enough
  that the sum of two indices stays below \<open>2 ^ 31\<close>.
\<close>

definition field_table :: "variant \<Rightarrow> object_info \<Rightarrow> nat \<Rightarrow> (nat \<Rightarrow> ustring) \<Rightarrow> bool" where
  "field_table v info n key \<longleftrightarrow>
     n \<le> 2 ^ 30 \<and>
     (\<forall>i < n. res_bind (field_id v info (int i)) (getMetadataKey (v_metadata v)) = Inr (key i)) \<and>
     (\<forall>j < n. \<forall>i < j. key_less (textEncode (key i)) (textEncode (key j)))"

lemma field_tableD:
  assumes "field_table v info n key"
  shows "n \<le> 2 ^ 30"
    and "i < n \<Longrightarrow> res_bind (field_id v info (int i)) (getMetadataKey (v_metadata v)) = Inr (key i)"
    and "i < j \<Longrightarrow> j < n \<Longrightarrow> key_less (textEncode (key i)) (textEncode (key j))"
  using assms by (auto simp: field_table_def)

definition found :: "variant \<Rightarrow> object_info \<Rightarrow> nat \<Rightarrow> variant option result" where
  "found v info i = res_bind (field_value v info (int i)) (\<lambda>c. Inr (Some c))"

lemma field_table_inj:
  assumes "field_table v info n key" "i < n" "j < n" "textEncode (key i) = textEncode (key j)"
  shows "i = j"
  using field_tableD(3) [OF assms(1)] assms(2-4) key_less_irrefl
  by (metis linorder_neqE_nat)

lemma linear_search_step:
  "linear_search v info k (i # is) =
     res_bind (res_bind (field_id v info (int i)) (getMetadataKey (v_metadata v)))
       (\<lambda>k'. if k' = k then found v info i else linear_search v info k is)"
  unfolding found_def by (simp add: res_bind_assoc)

lemma linear_search_found:
  assumes "field_table v info n key" "j \<in> set is" "set is \<subseteq> {..<n}"
  shows "linear_search v info (key j) is = found v info j"
  using assms(2,3)
proof (induction "is")
  case Nil
  then show ?case by simp
next
  case (Cons i "is")
  have i: "i < n" "j < n" using Cons.prems by auto
  then have "key i = key j \<longleftrightarrow> i = j" using field_table_inj [OF assms(1)] by auto
  with Cons field_tableD(2) [OF assms(1) i(1)] show ?case
    by (auto simp: linear_search_step simp del: linear_search.simps)
qed

lemma linear_search_absent:
  assumes "field_table v info n key" "\<forall>i < n. key i \<noteq> k" "set is \<subseteq> {..<n}"
  shows "linear_search v info k is = Inr None"
  using assms(3)
proof (induction "is")
  case Nil
  then show ?case by simp
next
  case (Cons i "is")
  then show ?case using field_tableD(2) [OF assms(1), of i] assms(2)
    by (auto simp: linear_search_step simp del: linear_search.simps)
qed

lemma midpoint:
  assumes "0 \<le> low" "low \<le> high" "high < int n" "n \<le> 2 ^ 30"
  shows "js_shr (low + high) 1 = (low + high) div 2" and "low \<le> (low + high) div 2" "(low + high) div 2 \<le> high"
proof -
  have "low + high < 2 ^ 31" using assms by simp
  then show "js_shr (low + high) 1 = (low + high) div 2"
    using js_shr_int32 [of "low + high" 1] assms by simp
  show "low \<le> (low + high) div 2" "(low + high) div 2 \<le> high" using assms by linarith+
qed

text \<open>One iteration, in terms of the key at the midpoint.\<close>

lemma binary_search_step:
  assumes "field_table v info n key" "0 \<le> low" "low \<le> high" "high < int n"
  defines "m \<equiv> nat ((low + high) div 2)"
  shows "binary_search (Suc fuel) v info kb low high =
    (let cmp = compareKeysBytes (textEncode (key m)) kb
     in if cmp < 0 then binary_search fuel v info kb (int m + 1) high
        else if cmp > 0 then binary_search fuel v info kb low (int m - 1)
        else Some (found v info m))"
    and "low \<le> int m" "int m \<le> high" "m < n"
proof -
  note mid = midpoint [OF assms(2-4) field_tableD(1) [OF assms(1)]]
  have m: "int m = (low + high) div 2" using assms(2) mid unfolding m_def by simp
  show bounds: "low \<le> int m" "int m \<le> high" using mid m by simp_all
  show "m < n" using bounds assms(4) by linarith
  from field_tableD(2) [OF assms(1) this] show "binary_search (Suc fuel) v info kb low high =
    (let cmp = compareKeysBytes (textEncode (key m)) kb
     in if cmp < 0 then binary_search fuel v info kb (int m + 1) high
        else if cmp > 0 then binary_search fuel v info kb low (int m - 1)
        else Some (found v info m))"
    using assms(3) by (subst binary_search.simps) (simp add: mid(1) [unfolded One_nat_def] m [symmetric] Let_def found_def)
qed

lemma binary_search_found:
  assumes "field_table v info n key" "j < n"
  shows "0 \<le> low \<Longrightarrow> high < int n \<Longrightarrow> low \<le> int j \<Longrightarrow> int j \<le> high \<Longrightarrow> high - low < int fuel \<Longrightarrow>
    binary_search fuel v info (textEncode (key j)) low high = Some (found v info j)"
proof (induction fuel arbitrary: low high)
  case 0
  then show ?case by simp
next
  case (Suc fuel)
  define m where "m = nat ((low + high) div 2)"
  have lh: "low \<le> high" using Suc.prems by linarith
  note step = binary_search_step(1) [OF assms(1) Suc.prems(1) lh Suc.prems(2), of fuel "textEncode (key j)", folded m_def]
    binary_search_step(2-4) [OF assms(1) Suc.prems(1) lh Suc.prems(2), folded m_def]
  consider "m < j" | "m = j" | "j < m" by linarith
  then show ?case
  proof cases
    case 1
    then have "compareKeysBytes (textEncode (key m)) (textEncode (key j)) < 0"
      using field_tableD(3) [OF assms(1) _ assms(2)] by (simp add: key_less_def)
    then show ?thesis using 1 step Suc.IH [of "int m + 1" high] Suc.prems by simp
  next
    case 2
    then show ?thesis using step compareKeysBytes_zero [of "textEncode (key j)" "textEncode (key j)"] by simp
  next
    case 3
    then have "compareKeysBytes (textEncode (key m)) (textEncode (key j)) > 0"
      using field_tableD(3) [OF assms(1) 3 step(4)] key_less_cases(2) by simp
    then show ?thesis using 3 step Suc.IH [of low "int m - 1"] Suc.prems by simp
  qed
qed

lemma binary_search_absent:
  assumes "field_table v info n key" "\<forall>i < n. textEncode (key i) \<noteq> kb"
  shows "0 \<le> low \<Longrightarrow> high < int n \<Longrightarrow> high - low < int fuel \<Longrightarrow>
    binary_search fuel v info kb low high = Some (Inr None)"
proof (induction fuel arbitrary: low high)
  case 0
  then show ?case by (subst binary_search.simps) simp
next
  case (Suc fuel)
  show ?case
  proof (cases "low \<le> high")
    case False
    then show ?thesis by (subst binary_search.simps) simp
  next
    case True
    note step = binary_search_step(1) [OF assms(1) Suc.prems(1) True Suc.prems(2), of fuel kb]
      binary_search_step(2-4) [OF assms(1) Suc.prems(1) True Suc.prems(2)]
    have "compareKeysBytes (textEncode (key (nat ((low + high) div 2)))) kb \<noteq> 0"
      using assms(2) step(4) compareKeysBytes_zero by blast
    then show ?thesis
      using step Suc.IH [of "int (nat ((low + high) div 2)) + 1" high] Suc.IH [of low "int (nat ((low + high) div 2)) - 1"]
        Suc.prems by (simp add: Let_def)
  qed
qed

text \<open>Both searches of an object with a sorted table, and so \<open>getFieldByKey\<close>.\<close>

lemma getFieldByKey_found:
  assumes "objectInfo v = Inr info" "field_table v info (oi_numFields info) key" "j < oi_numFields info"
  shows "getFieldByKey v (key j) = Some (found v info j)"
  using assms linear_search_found [OF assms(2), of j "[0..<oi_numFields info]"]
    binary_search_found [OF assms(2,3), of 0 "int (oi_numFields info) - 1" "oi_numFields info"]
  by (auto simp: getFieldByKey_def atLeast0LessThan)

lemma getFieldByKey_absent:
  assumes "objectInfo v = Inr info" "field_table v info (oi_numFields info) key"
    and "\<forall>i < oi_numFields info. textEncode (key i) \<noteq> textEncode k"
  shows "getFieldByKey v k = Some (Inr None)"
proof -
  have "\<forall>i < oi_numFields info. key i \<noteq> k" using assms(3) by auto
  then show ?thesis
    using assms linear_search_absent [OF assms(2), of k "[0..<oi_numFields info]"]
      binary_search_absent [OF assms(2,3), of 0 "int (oi_numFields info) - 1" "oi_numFields info"]
    by (auto simp: getFieldByKey_def atLeast0LessThan)
qed

end
