(* ===== verification/Variant_Encoding.thy ===== *)
theory Variant_Encoding
  imports Variant_Search
begin

text \<open>
  What it means that bytes encode a JSON tree: wherever they stand in a buffer, the reader finds the
  tree there, every field of an object by its key and every element of an array by its index. The
  scalars, the arrays and the objects the builder writes encode what they should, and the dictionary
  it writes holds its keys.
\<close>

section \<open>The dictionary\<close>

definition metadata_tag :: "nat \<Rightarrow> byte" where
  "metadata_tag osz = word_of_int (js_or VERSION (js_shl (int osz - 1) 6))"

lemma metadata_tag_parts:
  assumes "0 < osz" "osz \<le> 4"
  shows "nat (js_and (js_shr (uint (metadata_tag osz)) 6) 3) + 1 = osz"
    and "js_and (uint (metadata_tag osz)) VERSION_MASK = VERSION"
  by (rule size_cases [OF assms]; simp add: metadata_tag_def js_defs VERSION_def VERSION_MASK_def)+

lemma metadata_bytes_eq:
  "metadata_bytes osz keys =
     (metadata_tag osz # pushUintLE (length keys) osz)
     @ concat (map (\<lambda>x. pushUintLE x osz) (starts 0 keys @ [length (concat keys)])) @ concat keys"
  by (simp add: metadata_bytes_def metadata_tag_def running_offsets_eq)

lemma metadata_bytes_ok: "0 < osz \<Longrightarrow> osz \<le> 4 \<Longrightarrow> metadata_ok (metadata_bytes osz keys)"
  by (simp add: metadata_ok_def metadata_bytes_eq metadata_tag_parts)

lemma getMetadataKey_from:
  assumes "md \<noteq> []" "nat (js_and (js_shr (uint (md ! 0)) 6) 3) + 1 = osz"
    and "readUnsignedLE md 1 osz = Inr n" "i < n"
    and "readUnsignedLE md (1 + (i + 1) * osz) osz = Inr off" "readUnsignedLE md (1 + (i + 2) * osz) osz = Inr next"
    and "off \<le> next" "1 + (n + 2) * osz + next \<le> length md"
  shows "getMetadataKey md i =
    Inr (textDecode (js_slice (1 + (n + 2) * osz + off) (1 + (n + 2) * osz + next) md))"
  using assms by (simp add: getMetadataKey_def checkIndex_inside Let_def)

lemma slice_middle: "js_slice (length p + length a) (length p + (length a + length b)) (p @ a @ b @ c) = b"
  by (simp add: js_slice_def)

lemma getMetadataKey_built:
  assumes "i < length keys" "length (concat keys) \<le> m" "length keys \<le> m" "m < 2 ^ 32"
  defines "md \<equiv> metadata_bytes (integerSize m) keys"
  shows "getMetadataKey md i = Inr (textDecode (keys ! i))"
proof -
  let ?osz = "integerSize m" and ?n = "length keys" and ?offs = "starts 0 keys @ [length (concat keys)]"
  let ?pre = "metadata_tag ?osz # pushUintLE ?n ?osz"
  let ?block = "concat (map (\<lambda>x. pushUintLE x ?osz) ?offs)"
  have osz: "0 < ?osz" "?osz \<le> 4" by (rule integerSize_bounds)+
  have offs: "?offs ! j = length (concat (take j keys))" if "j \<le> ?n" for j
    using that by (cases "j < ?n") (auto simp: nth_append starts_nth)
  have fit: "?offs ! j < 256 ^ ?osz" if "j \<le> ?n" for j
  proof (rule integerSize_fits_le [OF _ assms(4)])
    have "concat keys = concat (take j keys) @ concat (drop j keys)"
      by (metis append_take_drop_id concat_append)
    then show "?offs ! j \<le> m" using assms(2) offs [OF that] by simp
  qed
  have read: "readUnsignedLE md (1 + (j + 1) * ?osz) ?osz = Inr (?offs ! j)" if "j \<le> ?n" for j
    using that by (intro read_block [where pre = ?pre and post = "concat keys", OF _ osz fit [OF that]])
      (simp_all add: md_def metadata_bytes_eq)
  have num: "readUnsignedLE md 1 ?osz = Inr ?n"
    using readUnsignedLE_pushUintLE [of ?osz ?n "[metadata_tag ?osz]" "?block @ concat keys"] osz
      integerSize_fits_le [OF assms(3,4)] by (simp add: md_def metadata_bytes_eq)
  have start: "length (?pre @ ?block) = 1 + (?n + 2) * ?osz"
    using length_block [of "\<lambda>x. pushUintLE x ?osz" ?osz ?offs] by simp
  have split: "concat keys = concat (take i keys) @ keys ! i @ concat (drop (Suc i) keys)"
    by (rule split_at [OF assms(1)])
  have succ: "length (concat (take (Suc i) keys)) = length (concat (take i keys)) + length (keys ! i)"
    using assms(1) by (simp add: take_Suc_conv_app_nth)
  have md: "md = (?pre @ ?block) @ concat (take i keys) @ keys ! i @ concat (drop (Suc i) keys)"
    unfolding md_def metadata_bytes_eq split [symmetric] by simp
  have nxt: "?offs ! (i + 1) = length (concat (take i keys)) + length (keys ! i)"
    using assms(1) succ offs [of "i + 1"] by simp
  have "js_slice (1 + (?n + 2) * ?osz + ?offs ! i) (1 + (?n + 2) * ?osz + ?offs ! (i + 1)) md = keys ! i"
    unfolding start [symmetric] nxt offs [OF less_imp_le [OF assms(1)]] unfolding md
    by (rule slice_middle)
  moreover have "1 + (?n + 2) * ?osz + ?offs ! (i + 1) \<le> length md"
    unfolding start [symmetric] nxt unfolding md length_append by simp
  moreover have "md \<noteq> []" "nat (js_and (js_shr (uint (md ! 0)) 6) 3) + 1 = ?osz"
    using metadata_tag_parts [OF osz] by (simp_all add: md_def metadata_bytes_eq)
  moreover have "?offs ! i \<le> ?offs ! (i + 1)" using assms(1) succ offs by simp
  ultimately show ?thesis
    using getMetadataKey_from [OF _ _ num assms(1), of "?offs ! i" "?offs ! (i + 1)"] read [of i] read [of "i + 1"]
      assms(1) by simp
qed

section \<open>Reading a tree\<close>

lemma size_nth [termination_simp]: "i < length ts \<Longrightarrow> size (ts ! i) < Suc (size_list size ts)"
  using size_list_estimation' [OF nth_mem order_refl, of i ts size] by (simp add: less_Suc_eq_le)

text \<open>The reader finds a tree at a variant. An integer beyond 64 bits is a decimal of scale 0.\<close>

fun represents :: "variant \<Rightarrow> json_tree \<Rightarrow> bool" where
  "represents v J_null \<longleftrightarrow> getType v = Inr VT_NULL"
| "represents v (J_bool b) \<longleftrightarrow> getType v = Inr VT_BOOLEAN \<and> getBoolean v = Inr b"
| "represents v (J_number (Int_num i)) \<longleftrightarrow> (if fits i 8 then getLong v = Inr i else getDecimalParts v = Inr (i, 0))"
| "represents v (J_number (Frac_num d)) \<longleftrightarrow> getType v = Inr VT_DOUBLE \<and> getDouble v = Inr d"
| "represents v (J_bigint i) \<longleftrightarrow> (if fits i 8 then getLong v = Inr i else getDecimalParts v = Inr (i, 0))"
| "represents v (J_string s) \<longleftrightarrow> getType v = Inr VT_STRING \<and> getString v = Inr s"
| "represents v (J_array ts) \<longleftrightarrow>
     getType v = Inr VT_ARRAY \<and> numArrayElements v = Inr (length ts) \<and>
     (\<forall>i. i < length ts \<longrightarrow> (\<exists>c. getElementAtIndex v (int i) = Inr (Some c) \<and> represents c (ts ! i)))"
| "represents v (J_object es) \<longleftrightarrow>
     getType v = Inr VT_OBJECT \<and> numObjectFields v = Inr (length es) \<and>
     (\<forall>(k, t) \<in> set es. \<exists>c. getFieldByKey v k = Some (Inr (Some c)) \<and> represents c t)"
| "represents v (J_other s) \<longleftrightarrow> False"

text \<open>The metadata of a variant in which the reader finds the dictionary \<open>names\<close>.\<close>

definition reads :: "bytes \<Rightarrow> ustring list \<Rightarrow> bool" where
  "reads md names \<longleftrightarrow>
     metadata_ok md \<and> length names < 2 ^ 32 \<and> (\<forall>i < length names. getMetadataKey md i = Inr (names ! i))"

definition encodes :: "ustring list \<Rightarrow> bytes \<Rightarrow> json_tree \<Rightarrow> bool" where
  "encodes names bs t \<longleftrightarrow> (\<forall>pre post md. reads md names \<longrightarrow> represents (view pre bs post md) t)"

lemma reads_prefix: "reads md (names @ added) \<Longrightarrow> reads md names"
  by (auto simp: reads_def nth_append)

lemma encodesD: "encodes names bs t \<Longrightarrow> reads md names \<Longrightarrow> represents (view pre bs post md) t"
  by (simp add: encodes_def)

lemma encodes_mono: "encodes names bs t \<Longrightarrow> encodes (names @ added) bs t"
  unfolding encodes_def using reads_prefix by blast

section \<open>Scalars\<close>

lemma codes_small: "c \<in> fst ` set TYPE_MAP \<Longrightarrow> c < 64"
  by (auto simp: TYPE_MAP_def type_codes)

lemma encodes_null: "encodes names [primitiveHeader T_NULL] J_null"
  using getType_view [of T_NULL VT_NULL _ "[]"] by (simp add: encodes_def TYPE_MAP_def type_codes)

lemma encodes_bool: "encodes names [primitiveHeader (if b then T_TRUE else T_FALSE)] (J_bool b)"
proof -
  define code where "code = (if b then T_TRUE else T_FALSE)"
  have "code < 64" "map_of TYPE_MAP code = Some VT_BOOLEAN"
    by (simp_all add: code_def TYPE_MAP_def type_codes)
  then have "represents (view pre [primitiveHeader code] post md) (J_bool b)" for pre post md
    using getType_view [of code VT_BOOLEAN pre "[]" post md] primitiveInfo_view [of code pre "[]" post md]
    by (auto simp: getBoolean_def code_def type_codes)
  then show ?thesis by (simp add: encodes_def code_def [symmetric])
qed

lemma getLong_written:
  assumes "(code, w) \<in> {(T_INT1, 1), (T_INT2, 2), (T_INT4, 4), (T_INT8, 8)}" "fits i w"
  shows "getLong (view pre (primitiveHeader code # pushSignedLE i w) post md) = Inr i"
  using assms view_int_view [of w i pre "primitiveHeader code" "[]" post md]
    primitiveInfo_view [of code pre "pushSignedLE i w" post md]
  by (auto simp: getLong_def type_codes)

lemma fits_8: "- 0x8000000000000000 \<le> i \<Longrightarrow> i \<le> 0x7fffffffffffffff \<Longrightarrow> fits i 8"
  by (simp add: fits_def)

lemma encodes_int:
  assumes "(code, w) \<in> {(T_INT1, 1), (T_INT2, 2), (T_INT4, 4), (T_INT8, 8)}" "fits i w" "fits i 8"
  shows "encodes names (primitiveHeader code # pushSignedLE i w) (J_number (Int_num i))"
    and "encodes names (primitiveHeader code # pushSignedLE i w) (J_bigint i)"
  using assms(3) getLong_written [OF assms(1,2)] by (simp_all add: encodes_def)

lemma nat_str_bound: "n < 10 ^ length (nat_str n)"
proof (induction n rule: nat_str.induct)
  case (1 n)
  show ?case
  proof (cases "n < 10")
    case True
    then show ?thesis by (subst nat_str.simps) simp
  next
    case False
    have "n div 10 < 10 ^ length (nat_str (n div 10))" using 1 False by simp
    then have "n < 10 * 10 ^ length (nat_str (n div 10))" by linarith
    with False show ?thesis by (subst nat_str.simps) simp
  qed
qed

lemma num_digits_bound: "\<bar>i\<bar> < 10 ^ num_digits i"
proof -
  have "nat \<bar>i\<bar> < 10 ^ length (nat_str (nat \<bar>i\<bar>))" by (rule nat_str_bound)
  moreover have "length (nat_str (nat \<bar>i\<bar>)) = num_digits i" by (simp add: num_digits_def int_str_def)
  ultimately have "int (nat \<bar>i\<bar>) < int (10 ^ num_digits i)" by (simp only: of_nat_less_iff)
  then show ?thesis by simp
qed

lemma decimal_fits:
  assumes "num_digits i \<le> p" "2 * (10 ^ p) \<le> (256 :: int) ^ w"
  shows "fits i w"
proof -
  have "(10 :: int) ^ num_digits i \<le> 10 ^ p" using assms(1) by (intro power_increasing) simp_all
  then have "2 * \<bar>i\<bar> < 256 ^ w" using num_digits_bound [of i] assms(2) by linarith
  then show ?thesis unfolding fits_def by linarith
qed

definition decimal_layout :: "nat \<Rightarrow> nat \<Rightarrow> nat \<Rightarrow> bool" where
  "decimal_layout code w p \<longleftrightarrow>
     (code, w, p) \<in> {(T_DECIMAL4, 4, MAX_DECIMAL4_PRECISION), (T_DECIMAL8, 8, MAX_DECIMAL8_PRECISION),
                     (T_DECIMAL16, 16, MAX_DECIMAL16_PRECISION)}"

lemma getDecimalParts_written:
  assumes "decimal_layout code w p" "num_digits i \<le> p" "sc < 256"
  shows "getDecimalParts (view pre ([primitiveHeader code, of_nat sc] @ pushSignedLE i w) post md) = Inr (i, sc)"
proof -
  have layout: "code < 64" "0 < w" "2 * (10 ^ p) \<le> (256 :: int) ^ w"
    using assms(1) by (auto simp: decimal_layout_def type_codes MAX_DECIMAL4_PRECISION_def
        MAX_DECIMAL8_PRECISION_def MAX_DECIMAL16_PRECISION_def)
  have "readSignedLE ((pre @ [primitiveHeader code, of_nat sc]) @ pushSignedLE i w @ post)
      (length (pre @ [primitiveHeader code, of_nat sc])) w = Inr i"
    using layout decimal_fits [OF assms(2) layout(3)] by (intro readSignedLE_pushSignedLE)
  moreover have "checkDecimal i p = Inr ()" using assms(2) by (simp add: checkDecimal_def res_guard_def)
  moreover have "(pre @ (primitiveHeader code # of_nat sc # pushSignedLE i w) @ post) ! (length pre + 1) = of_nat sc"
    by (simp add: nth_append)
  ultimately show ?thesis
    using primitiveInfo_view [OF layout(1), of pre "of_nat sc # pushSignedLE i w" post md] assms(1,3)
    by (auto simp: getDecimalParts_def decimal_layout_def checkIndex_inside byte_of_nat_lt type_codes Let_def)
qed

lemma encodes_decimal:
  assumes "decimal_layout code w p" "num_digits i \<le> p" "\<not> fits i 8"
  shows "encodes names ([primitiveHeader code, 0] @ pushSignedLE i w) (J_number (Int_num i))"
    and "encodes names ([primitiveHeader code, 0] @ pushSignedLE i w) (J_bigint i)"
  using getDecimalParts_written [OF assms(1,2), of 0] assms(3) by (simp_all add: encodes_def)

lemma le_val_bits: "le_val (bits_le n w) = w mod 256 ^ n"
  unfolding bits_le_def by (rule push_digits)

lemma encodes_double: "encodes names (primitiveHeader T_DOUBLE # bits_le 8 (unat d)) (J_number (Frac_num d))"
proof -
  have "unat d < 256 ^ 8" using unsigned_less [where ?'a = nat, of d] by simp
  then have "of_nat (le_val (bits_le 8 (unat d))) = d" by (simp add: le_val_bits)
  moreover have "length (bits_le 8 (unat d)) = 8" by (simp add: bits_le_def)
  ultimately have "represents (view pre (primitiveHeader T_DOUBLE # bits_le 8 (unat d)) post md) (J_number (Frac_num d))"
    for pre post md
    using getType_view [of T_DOUBLE VT_DOUBLE pre "bits_le 8 (unat d)" post md]
      primitiveInfo_view [of T_DOUBLE pre "bits_le 8 (unat d)" post md]
      view_bytes_view [of "bits_le 8 (unat d)" 8 pre "primitiveHeader T_DOUBLE" "[]" post md]
    by (simp add: getDouble_def TYPE_MAP_def type_codes)
  then show ?thesis by (simp add: encodes_def)
qed

definition text_ok :: "ustring \<Rightarrow> bool" where
  "text_ok s \<longleftrightarrow> well_formed s \<and> no_bom s"

definition string_bytes :: "ustring \<Rightarrow> bytes" where
  "string_bytes s =
     (if length (textEncode s) > MAX_SHORT_STR_SIZE
      then primitiveHeader T_LONG_STR # pushUintLE (length (textEncode s)) U32_SIZE
      else [short_header (length (textEncode s))]) @ textEncode s"

lemma slice_at: "p = length pre \<Longrightarrow> js_slice p (p + length bs) (pre @ bs @ post) = bs"
  by (simp add: js_slice_def)

lemma getString_short:
  fixes enc pre post md :: bytes
  assumes "length enc \<le> MAX_SHORT_STR_SIZE"
  defines "v \<equiv> view pre (short_header (length enc) # enc) post md"
  shows "getType v = Inr VT_STRING" and "getString v = Inr (textDecode enc)"
proof -
  have n: "length enc < 64" "4 * length enc + 1 < 256" using assms(1) by (simp_all add: MAX_SHORT_STR_SIZE_def)
  have info: "getTypeInfo (v_value v) (v_pos v) = (SHORT_STR, length enc)"
    using typeInfo_head [OF n(2) refl, of pre enc post] unfolding v_def short_header_eq [OF n(1)]
    by (simp add: SHORT_STR_def del: append_Cons)
  have "v_pos v + length enc < length (v_value v)" by (simp add: v_def)
  moreover have "js_slice (v_pos v + 1) (v_pos v + 1 + length enc) (v_value v) = enc"
    using slice_at [of "length pre + 1" "pre @ [short_header (length enc)]" enc post] by (simp add: v_def)
  ultimately show "getType v = Inr VT_STRING" "getString v = Inr (textDecode enc)"
    using info by (simp_all add: getType_def getString_def checkIndex_inside)
qed

lemma getString_long:
  fixes enc pre post md :: bytes
  assumes "length enc < 2 ^ 32"
  defines "v \<equiv> view pre (primitiveHeader T_LONG_STR # pushUintLE (length enc) U32_SIZE @ enc) post md"
  shows "getType v = Inr VT_STRING" and "getString v = Inr (textDecode enc)"
proof -
  let ?h = "primitiveHeader T_LONG_STR"
  have info: "getTypeInfo (v_value v) (v_pos v) = (PRIMITIVE, T_LONG_STR)"
    using typeInfo_head [of "4 * T_LONG_STR", OF _ refl] unfolding v_def
    by (simp add: primitiveHeader_eq type_codes PRIMITIVE_def)
  have "readUnsignedLE (v_value v) (v_pos v + 1) U32_SIZE = Inr (length enc)"
    using readUnsignedLE_pushUintLE [of U32_SIZE "length enc" "pre @ [?h]" "enc @ post"] assms
    by (simp add: U32_SIZE_def)
  moreover have "v_pos v + U32_SIZE + length enc < length (v_value v)" by (simp add: v_def U32_SIZE_def)
  moreover have "js_slice (v_pos v + 1 + U32_SIZE) (v_pos v + 1 + U32_SIZE + length enc) (v_value v) = enc"
    using slice_at [of "length pre + 1 + U32_SIZE" "pre @ ?h # pushUintLE (length enc) U32_SIZE" enc post] by (simp add: v_def)
  ultimately show "getType v = Inr VT_STRING" "getString v = Inr (textDecode enc)"
    using info by (simp_all add: getType_def getString_def checkIndex_inside basic_types TYPE_MAP_def type_codes)
qed

lemma encodes_string:
  assumes "text_ok s" "length (textEncode s) < 2 ^ 32"
  shows "encodes names (string_bytes s) (J_string s)"
proof -
  have "textDecode (textEncode s) = s" using assms(1) by (simp add: text_ok_def textDecode_textEncode)
  then have "represents (view pre (string_bytes s) post md) (J_string s)" for pre post md
    using getString_short [of "textEncode s" pre post md] getString_long [OF assms(2), of pre post md]
    by (simp add: string_bytes_def)
  then show ?thesis by (simp add: encodes_def)
qed

section \<open>Containers\<close>

lemma arrayInfo_type: "arrayInfo v = Inr info \<Longrightarrow> getType v = Inr VT_ARRAY"
  by (auto simp: arrayInfo_def getType_def res_bind_Inr_iff Let_def basic_types split: prod.splits if_splits)

lemma objectInfo_type: "objectInfo v = Inr info \<Longrightarrow> getType v = Inr VT_OBJECT"
  by (auto simp: objectInfo_def getType_def res_bind_Inr_iff Let_def basic_types split: prod.splits if_splits)

lemma encodes_array:
  assumes "length bss = length ts" "length ts < 2 ^ 32" "length (concat bss) < 2 ^ 32"
    and "\<forall>i < length ts. encodes names (bss ! i) (ts ! i)"
  shows "encodes names (array_header (length (concat bss)) (starts 0 bss) @ concat bss) (J_array ts)"
  unfolding encodes_def
proof (intro allI impI)
  fix pre post md
  assume md: "reads md names"
  let ?hdr = "array_header (length (concat bss)) (starts 0 bss)"
  let ?v = "view pre (?hdr @ concat bss) post md"
  have info: "arrayInfo ?v = Inr (array_view_info pre (length (concat bss)) (starts 0 bss))"
    using arrayInfo_view [of "starts 0 bss" pre "length (concat bss)" "concat bss" post md] assms(1,2) by simp
  have "\<exists>c. getElementAtIndex ?v (int i) = Inr (Some c) \<and> represents c (ts ! i)" if "i < length ts" for i
  proof (intro exI conjI)
    show "getElementAtIndex ?v (int i) =
        Inr (Some (view (pre @ ?hdr @ concat (take i bss)) (bss ! i) (concat (drop (Suc i) bss) @ post) md))"
      using md assms(1-3) that by (intro getElementAtIndex_view) (auto simp: reads_def)
    show "represents (view (pre @ ?hdr @ concat (take i bss)) (bss ! i) (concat (drop (Suc i) bss) @ post) md) (ts ! i)"
      using assms(4) that md by (blast intro: encodesD)
  qed
  then show "represents ?v (J_array ts)"
    using arrayInfo_type [OF info] info assms(1) by (simp add: numArrayElements_def array_view_info_def)
qed

text \<open>
  The fields of an object as the builder collects them: each with the id of its key in the
  dictionary and the offset of its value.
\<close>

definition collected :: "ustring list \<Rightarrow> bytes list \<Rightarrow> (ustring \<times> json_tree) list \<Rightarrow> field_entry list \<Rightarrow> bool" where
  "collected names bss es flds \<longleftrightarrow>
     length bss = length es \<and> length flds = length es \<and>
     (\<forall>i < length es. fe_id (flds ! i) < length names \<and> names ! fe_id (flds ! i) = fst (es ! i) \<and>
        fe_offset (flds ! i) = starts 0 bss ! i)"

lemma sorted_fields:
  assumes "collected names bss es flds" "distinct (map fst es)" "\<forall>e \<in> set es. well_formed (fst e)"
  shows "sorted_wrt (\<lambda>f g. key_less (textEncode (names ! fe_id f)) (textEncode (names ! fe_id g)))
    (sort_fields (map textEncode names) flds)"
proof -
  have "map (\<lambda>f. map textEncode names ! fe_id f) flds = map textEncode (map fst es)"
    using assms(1) by (intro nth_equalityI) (auto simp: collected_def)
  moreover have "inj_on textEncode (set (map fst es))"
    using assms(3) textEncode_inj by (intro inj_onI) auto
  ultimately have "distinct (map (\<lambda>f. map textEncode names ! fe_id f) flds)"
    using assms(2) by (simp only: distinct_map)
  from sorted_sort_by [OF this] have "sorted_wrt (\<lambda>f g. key_less (map textEncode names ! fe_id f) (map textEncode names ! fe_id g))
      (sort_fields (map textEncode names) flds)"
    by (simp add: sort_fields_def)
  then show ?thesis
  proof (rule sorted_wrt_mono_rel [rotated])
    have "\<forall>f \<in> set flds. fe_id f < length names"
      using assms(1) by (auto simp: collected_def in_set_conv_nth)
    then show "\<And>f g. f \<in> set (sort_fields (map textEncode names) flds) \<Longrightarrow> g \<in> set (sort_fields (map textEncode names) flds) \<Longrightarrow>
        key_less (map textEncode names ! fe_id f) (map textEncode names ! fe_id g) \<Longrightarrow>
        key_less (textEncode (names ! fe_id f)) (textEncode (names ! fe_id g))"
      by (simp add: sort_fields_def)
  qed
qed

text \<open>Every field is found by its key, in the table of an object that stands anywhere in a buffer.\<close>

lemma field_table_view:
  assumes "collected names bss es flds" "distinct (map fst es)" "\<forall>e \<in> set es. well_formed (fst e)"
    and "length es \<le> 2 ^ 30" "reads md names"
  defines "F \<equiv> sort_fields (map textEncode names) flds"
  shows "field_table (view pre (object_header ds F @ r) post md) (object_view_info pre ds F) (length F)
    (\<lambda>i. names ! fe_id (F ! i))"
proof -
  have len: "length F = length es" using assms(1) by (simp add: F_def sort_fields_def collected_def)
  have ids: "\<forall>f \<in> set F. fe_id f < length names"
    using assms(1) by (auto simp: F_def sort_fields_def collected_def in_set_conv_nth)
  have names: "length names < 2 ^ 32" using assms(5) by (simp add: reads_def)
  have "res_bind (field_id (view pre (object_header ds F @ r) post md) (object_view_info pre ds F) (int i))
      (getMetadataKey md) = Inr (names ! fe_id (F ! i))" if "i < length F" for i
  proof -
    have "0 < length names" and i: "fe_id (F ! i) < length names" using ids that by (auto dest: nth_mem)
    then have "max_id F < 2 ^ 32" using max_id_less [OF ids] names by linarith
    then show ?thesis
      using field_id_view [of F i pre ds r post md] that len assms(4,5) i by (simp add: reads_def)
  qed
  moreover have "key_less (textEncode (names ! fe_id (F ! i))) (textEncode (names ! fe_id (F ! j)))"
    if "i < j" "j < length F" for i j
    using sorted_wrt_nth_less [OF sorted_fields [OF assms(1-3)], folded F_def, OF that] .
  ultimately show ?thesis
    using assms(4) len by (simp add: field_table_def)
qed

lemma collected_position:
  assumes "collected names bss es flds" "j < length es"
  obtains i where "i < length (sort_fields keys flds)" "sort_fields keys flds ! i = flds ! j"
proof -
  have "flds ! j \<in> set (sort_fields keys flds)" using assms by (simp add: sort_fields_def collected_def)
  then show ?thesis using that by (auto simp: in_set_conv_nth)
qed

lemma encodes_object:
  assumes "collected names bss es flds" "distinct (map fst es)" "\<forall>e \<in> set es. well_formed (fst e)"
    and "length es \<le> 2 ^ 30" "length (concat bss) < 2 ^ 32"
    and "\<forall>i < length es. encodes names (bss ! i) (snd (es ! i))"
  defines "F \<equiv> sort_fields (map textEncode names) flds"
  shows "encodes names (object_header (length (concat bss)) F @ concat bss) (J_object es)"
  unfolding encodes_def
proof (intro allI impI)
  fix pre post md
  assume md: "reads md names"
  let ?ds = "length (concat bss)"
  let ?hdr = "object_header ?ds F"
  let ?v = "view pre (?hdr @ concat bss) post md"
  let ?info = "object_view_info pre ?ds F"
  have len: "length F = length es" "length bss = length es"
    using assms(1) by (simp_all add: F_def sort_fields_def collected_def)
  have info: "objectInfo ?v = Inr ?info"
    using objectInfo_view [of F pre ?ds "concat bss" post md] assms(4) len by simp
  have num: "oi_numFields ?info = length F" by (simp add: object_view_info_def)
  note table = field_table_view [OF assms(1-4) md, folded F_def, of pre ?ds "concat bss" post]
  have "\<exists>c. getFieldByKey ?v (fst (es ! j)) = Some (Inr (Some c)) \<and> represents c (snd (es ! j))"
    if j: "j < length es" for j
  proof -
    obtain i where i: "i < length F" "F ! i = flds ! j"
      using collected_position [OF assms(1) j, of "map textEncode names"] by (auto simp: F_def)
    have key: "names ! fe_id (F ! i) = fst (es ! j)" and off: "fe_offset (F ! i) = length (concat (take j bss))"
      using assms(1) j i(2) by (auto simp: collected_def starts_nth)
    let ?c = "view (pre @ ?hdr @ concat (take j bss)) (bss ! j) (concat (drop (Suc j) bss) @ post) md"
    have split: "concat bss = concat (take j bss) @ bss ! j @ concat (drop (Suc j) bss)"
      using j len by (intro split_at) simp
    have "field_value ?v ?info (int i) = Inr \<lparr>v_value = pre @ (?hdr @ concat bss) @ post, v_metadata = md,
        v_pos = length pre + length ?hdr + fe_offset (F ! i)\<rparr>"
      using md i assms(4,5) len split off arg_cong [OF split, of length]
      by (intro field_value_view) (auto simp: reads_def)
    also have "\<dots> = Inr ?c"
      unfolding off by (subst (2) split) simp
    finally have "found ?v ?info i = Inr (Some ?c)" by (simp add: found_def)
    moreover have "getFieldByKey ?v (names ! fe_id (F ! i)) = Some (found ?v ?info i)"
      using getFieldByKey_found [OF info, where key = "\<lambda>i. names ! fe_id (F ! i)", unfolded num, OF table i(1)] .
    moreover have "represents ?c (snd (es ! j))"
      using assms(6) j md by (blast intro: encodesD)
    ultimately show ?thesis unfolding key by auto
  qed
  then have "\<forall>(k, t) \<in> set es. \<exists>c. getFieldByKey ?v k = Some (Inr (Some c)) \<and> represents c t"
    by (auto simp: in_set_conv_nth simp del: append_assoc) (metis fst_conv snd_conv)
  then show "represents ?v (J_object es)"
    using objectInfo_type [OF info] info len num by (simp add: numObjectFields_def del: append_assoc)
qed

end
