(* ===== verification/Variant_Roundtrip.thy ===== *)
theory Variant_Roundtrip
  imports Variant_Encoding
begin

text \<open>
  The builder writes what the reader reads: a tree that fits the size limit is built, and the
  variant that was built represents it.
\<close>

section \<open>The builder grows its value and its dictionary\<close>

definition dict_names :: "builder \<Rightarrow> ustring list" where
  "dict_names b = map fst (b_dictionary b)"

definition dict_ok :: "builder \<Rightarrow> bool" where
  "dict_ok b \<longleftrightarrow>
     distinct (dict_names b) \<and> b_dictionary b = zip (dict_names b) [0..<length (dict_names b)] \<and>
     b_dictionaryKeys b = map textEncode (dict_names b)"

definition builder_ok :: "builder \<Rightarrow> bool" where
  "builder_ok b \<longleftrightarrow> dict_ok b \<and> length (b_value b) \<le> b_sizeLimit b"

definition grown :: "builder \<Rightarrow> builder \<Rightarrow> bytes \<Rightarrow> bool" where
  "grown b b' bs \<longleftrightarrow>
     builder_ok b' \<and> b_value b' = b_value b @ bs \<and> b_sizeLimit b' = b_sizeLimit b \<and>
     (\<exists>ks. dict_names b' = dict_names b @ ks \<and> list_all text_ok ks)"

lemma builder_ok_new: "builder_ok (newBuilder limit)"
  by (simp add: builder_ok_def dict_ok_def dict_names_def newBuilder_def)

lemma grown_refl: "builder_ok b \<Longrightarrow> grown b b []"
  by (simp add: grown_def)

lemma grown_trans: "grown b b' bs \<Longrightarrow> grown b' b'' cs \<Longrightarrow> grown b b'' (bs @ cs)"
  by (auto simp: grown_def)

lemma grown_encodes: "grown b' b'' cs \<Longrightarrow> encodes (dict_names b') bs t \<Longrightarrow> encodes (dict_names b'') bs t"
  by (auto simp: grown_def intro: encodes_mono)

lemma checkCapacity_eq:
  "m_bind (checkCapacity n) f b =
     (if length (b_value b) + n \<le> b_sizeLimit b then f () b else (b, Inl too_large))"
  by (simp add: m_bind_def checkCapacity_def res_guard_def not_less)

lemma push_bind: "m_bind (push bs) f b = f () (b\<lparr>b_value := b_value b @ bs\<rparr>)"
  by (simp add: m_bind_def push_def)

lemma write_grown:
  assumes "m_bind (checkCapacity n) (\<lambda>_. push bs) b = (b', Inr u)" "builder_ok b" "length bs \<le> n"
  shows "grown b b' bs"
  using assms by (auto simp: checkCapacity_eq push_def grown_def builder_ok_def dict_ok_def dict_names_def split: if_splits)

lemma addKey_dict:
  assumes "addKey k b = (b', Inr i)" "builder_ok b"
  shows "builder_ok b'" and "i < length (dict_names b')" and "dict_names b' ! i = k"
    and "dict_names b' = dict_names b \<or> dict_names b' = dict_names b @ [k]"
    and "b_value b' = b_value b" and "b_sizeLimit b' = b_sizeLimit b"
proof -
  have d: "distinct (dict_names b)" "b_dictionary b = zip (dict_names b) [0..<length (dict_names b)]"
    using assms(2) by (simp_all add: builder_ok_def dict_ok_def)
  have "builder_ok b' \<and> i < length (dict_names b') \<and> dict_names b' ! i = k \<and>
      (dict_names b' = dict_names b \<or> dict_names b' = dict_names b @ [k]) \<and> b_value b' = b_value b \<and> b_sizeLimit b' = b_sizeLimit b"
  proof (cases "jm_get (b_dictionary b) k")
    case (Some j)
    then have "(k, j) \<in> set (zip (dict_names b) [0..<length (dict_names b)])"
      using d map_of_SomeD [of "b_dictionary b"] by simp
    then have "j < length (dict_names b)" "dict_names b ! j = k" by (auto simp: set_zip)
    with Some assms show ?thesis by (auto simp: addKey_def)
  next
    case None
    then have new: "k \<notin> fst ` set (b_dictionary b)" by (simp add: map_of_eq_None_iff)
    have len: "length (b_dictionaryKeys b) = length (dict_names b)"
      using assms(2) by (simp add: builder_ok_def dict_ok_def)
    have b': "b' = b\<lparr>b_dictionary := b_dictionary b @ [(k, length (dict_names b))],
        b_dictionaryKeys := b_dictionaryKeys b @ [textEncode k]\<rparr>" and i: "i = length (dict_names b)"
      using assms(1) None by (auto simp: addKey_def Let_def jm_set_new [OF new] len)
    have names: "dict_names b' = dict_names b @ [k]" by (simp add: b' dict_names_def)
    have "k \<notin> set (dict_names b)" using new by (simp add: dict_names_def)
    then have "dict_ok b'"
      using assms(2) unfolding dict_ok_def names by (simp add: b' builder_ok_def dict_ok_def)
    then show ?thesis
      using assms(2) names i by (auto simp: builder_ok_def b')
  qed
  then show "builder_ok b'" "i < length (dict_names b')" "dict_names b' ! i = k"
    "dict_names b' = dict_names b \<or> dict_names b' = dict_names b @ [k]" "b_value b' = b_value b" "b_sizeLimit b' = b_sizeLimit b"
    by simp_all
qed

lemma addKey_grown:
  assumes "addKey k b = (b', Inr i)" "builder_ok b" "text_ok k"
  shows "grown b b' []" and "i < length (dict_names b')" and "dict_names b' ! i = k"
  using addKey_dict [OF assms(1,2)] assms(3) by (auto simp: grown_def)

lemma finish_grown:
  assumes "m_bind (checkCapacity (length hdr)) (\<lambda>_. splice_at (length (b_value b)) hdr) b1 = (b', Inr u)"
    and "grown b b1 data"
  shows "grown b b' (hdr @ data)" "dict_names b' = dict_names b1" "length hdr \<le> b_sizeLimit b"
  using assms by (auto simp: checkCapacity_eq splice_at_def grown_def builder_ok_def dict_ok_def dict_names_def split: if_splits)

section \<open>Scalars\<close>

definition encoded :: "builder \<Rightarrow> builder \<Rightarrow> json_tree \<Rightarrow> bool" where
  "encoded b b' t \<longleftrightarrow> (\<exists>bs. grown b b' bs \<and> encodes (dict_names b') bs t)"

lemma writeNull_encoded: "writeNull b = (b', Inr u) \<Longrightarrow> builder_ok b \<Longrightarrow> encoded b b' J_null"
  unfolding encoded_def writeNull_def using write_grown encodes_null by fastforce

lemma writeBoolean_encoded: "writeBoolean x b = (b', Inr u) \<Longrightarrow> builder_ok b \<Longrightarrow> encoded b b' (J_bool x)"
  unfolding encoded_def writeBoolean_def using write_grown encodes_bool by fastforce

lemma writeDouble_encoded: "writeDouble d b = (b', Inr u) \<Longrightarrow> builder_ok b \<Longrightarrow> encoded b b' (J_number (Frac_num d))"
  unfolding encoded_def writeDouble_def using write_grown encodes_double by (fastforce simp: bits_le_def)

lemma writeString_encoded:
  assumes "writeString s b = (b', Inr u)" "builder_ok b" "text_ok s" "b_sizeLimit b < 2 ^ 32"
  shows "encoded b b' (J_string s)"
proof -
  have w: "m_bind (checkCapacity (length (string_bytes s))) (\<lambda>_. push (string_bytes s)) b = (b', Inr u)"
    using assms(1) by (auto simp: writeString_def string_bytes_def Let_def split: if_splits)
  then have "length (string_bytes s) \<le> b_sizeLimit b" by (auto simp: checkCapacity_eq split: if_splits)
  then have "length (textEncode s) < 2 ^ 32" using assms(4) by (simp add: string_bytes_def)
  then show ?thesis
    unfolding encoded_def using write_grown [OF w assms(2)] encodes_string [OF assms(3)] by blast
qed

lemma fits_width:
  "i \<ge> -0x80 \<and> i \<le> 0x7f \<longleftrightarrow> fits i 1" "i \<ge> -0x8000 \<and> i \<le> 0x7fff \<longleftrightarrow> fits i 2"
  "i \<ge> -0x80000000 \<and> i \<le> 0x7fffffff \<longleftrightarrow> fits i 4"
  "i \<ge> -0x8000000000000000 \<and> i \<le> 0x7fffffffffffffff \<longleftrightarrow> fits i 8"
  by (auto simp: fits_def)

lemma fits_wider: "fits i w \<Longrightarrow> w \<le> w' \<Longrightarrow> fits i w'"
proof -
  assume "fits i w" "w \<le> w'"
  moreover from this have "(256 :: int) ^ w \<le> 256 ^ w'" by (intro power_increasing) simp_all
  ultimately show ?thesis unfolding fits_def by linarith
qed

definition written_int :: "builder \<Rightarrow> nat \<Rightarrow> int \<Rightarrow> nat \<Rightarrow> builder" where
  "written_int b code i w = b\<lparr>b_value := b_value b @ primitiveHeader code # pushSignedLE i w\<rparr>"

lemma writeSmallestInt_eq:
  "writeSmallestInt i b =
     (if length (b_value b) + 9 \<le> b_sizeLimit b
      then if fits i 1 then (written_int b T_INT1 i 1, Inr True)
           else if fits i 2 then (written_int b T_INT2 i 2, Inr True)
           else if fits i 4 then (written_int b T_INT4 i 4, Inr True)
           else if fits i 8 then (written_int b T_INT8 i 8, Inr True)
           else (b, Inr False)
      else (b, Inl too_large))"
  unfolding writeSmallestInt_def fits_width checkCapacity_eq by (simp add: push_bind written_int_def)

lemma written_int_grown:
  "builder_ok b \<Longrightarrow> length (b_value b) + 9 \<le> b_sizeLimit b \<Longrightarrow> w \<le> 8 \<Longrightarrow>
     grown b (written_int b code i w) (primitiveHeader code # pushSignedLE i w)"
  by (simp add: grown_def written_int_def builder_ok_def dict_ok_def dict_names_def)

lemma writeSmallestInt_cases:
  assumes "writeSmallestInt i b = (b', Inr r)" "builder_ok b"
  shows "(r \<and> fits i 8 \<and> (\<exists>code w. (code, w) \<in> {(T_INT1, 1), (T_INT2, 2), (T_INT4, 4), (T_INT8, 8)} \<and> fits i w \<and>
           grown b b' (primitiveHeader code # pushSignedLE i w))) \<or> (\<not> r \<and> \<not> fits i 8 \<and> b' = b)"
proof -
  have cap: "length (b_value b) + 9 \<le> b_sizeLimit b" using assms(1) by (auto simp: writeSmallestInt_eq split: if_splits)
  note g = written_int_grown [OF assms(2) cap]
  consider "fits i 1" | "\<not> fits i 1" "fits i 2" | "\<not> fits i 1" "\<not> fits i 2" "fits i 4"
    | "\<not> fits i 1" "\<not> fits i 2" "\<not> fits i 4" "fits i 8" | "\<not> fits i 1" "\<not> fits i 2" "\<not> fits i 4" "\<not> fits i 8"
    by blast
  then show ?thesis
  proof cases
    case 1
    then show ?thesis
      using assms(1) cap g [of 1 T_INT1 i] fits_wider [of i 1 8]
      by (intro disjI1 conjI exI [of _ T_INT1] exI [of _ 1]) (simp_all add: writeSmallestInt_eq)
  next
    case 2
    then show ?thesis
      using assms(1) cap g [of 2 T_INT2 i] fits_wider [of i 2 8]
      by (intro disjI1 conjI exI [of _ T_INT2] exI [of _ 2]) (simp_all add: writeSmallestInt_eq)
  next
    case 3
    then show ?thesis
      using assms(1) cap g [of 4 T_INT4 i] fits_wider [of i 4 8]
      by (intro disjI1 conjI exI [of _ T_INT4] exI [of _ 4]) (simp_all add: writeSmallestInt_eq)
  next
    case 4
    then show ?thesis
      using assms(1) cap g [of 8 T_INT8 i]
      by (intro disjI1 conjI exI [of _ T_INT8] exI [of _ 8]) (simp_all add: writeSmallestInt_eq)
  next
    case 5
    then show ?thesis using assms(1) cap by (simp add: writeSmallestInt_eq)
  qed
qed

definition decimal_bytes :: "nat \<Rightarrow> int \<Rightarrow> nat \<Rightarrow> bytes" where
  "decimal_bytes code i w = [primitiveHeader code, 0] @ pushSignedLE i w"

lemma writeDecimal_eq:
  "writeDecimalUnscaled i (Int_num 0) =
     m_bind (checkCapacity 18) (\<lambda>_.
       if num_digits i \<le> MAX_DECIMAL4_PRECISION then push (decimal_bytes T_DECIMAL4 i 4)
       else if num_digits i \<le> MAX_DECIMAL8_PRECISION then push (decimal_bytes T_DECIMAL8 i 8)
       else if num_digits i \<le> MAX_DECIMAL16_PRECISION then push (decimal_bytes T_DECIMAL16 i 16)
       else m_throw (VariantError ''decimal exceeds maximum precision (38)''))"
  by (rule ext) (simp add: writeDecimalUnscaled_def decimal_bytes_def checkCapacity_eq Let_def)

lemma writeDecimal_cases:
  assumes "writeDecimalUnscaled i (Int_num 0) b = (b', Inr u)" "builder_ok b"
  shows "\<exists>code w p. decimal_layout code w p \<and> num_digits i \<le> p \<and> grown b b' (decimal_bytes code i w)"
proof -
  have w: "\<exists>code w p. decimal_layout code w p \<and> num_digits i \<le> p \<and> grown b b' (decimal_bytes code i w)"
    if "m_bind (checkCapacity 18) (\<lambda>_. push (decimal_bytes code i w)) b = (b', Inr u)" "decimal_layout code w p" "num_digits i \<le> p"
    for code w p
  proof -
    have "length (decimal_bytes code i w) \<le> 18" using that(2) by (auto simp: decimal_layout_def decimal_bytes_def)
    with that assms(2) show ?thesis using write_grown by blast
  qed
  have layouts: "decimal_layout T_DECIMAL4 4 MAX_DECIMAL4_PRECISION" "decimal_layout T_DECIMAL8 8 MAX_DECIMAL8_PRECISION"
    "decimal_layout T_DECIMAL16 16 MAX_DECIMAL16_PRECISION"
    by (simp_all add: decimal_layout_def)
  show ?thesis
    using assms(1) w [OF _ layouts(1)] w [OF _ layouts(2)] w [OF _ layouts(3)]
    unfolding writeDecimal_eq checkCapacity_eq by (auto split: if_splits)
qed

lemma write_integer_encoded:
  assumes "write_integer i b = (b', Inr u)" "builder_ok b"
  shows "encoded b b' (J_number (Int_num i))" and "encoded b b' (J_bigint i)"
proof -
  obtain b1 r where small: "writeSmallestInt i b = (b1, Inr r)"
    and rest: "(if \<not> r then writeDecimalUnscaled i (Int_num 0) else m_return ()) b1 = (b', Inr u)"
    using assms(1) by (auto simp: write_integer_def m_bind_eq_Inr_iff)
  have "\<exists>bs. grown b b' bs \<and> encodes (dict_names b') bs (J_number (Int_num i)) \<and> encodes (dict_names b') bs (J_bigint i)"
  proof (cases r)
    case True
    then have "b' = b1" using rest by simp
    moreover obtain code w where c: "(code, w) \<in> {(T_INT1, 1), (T_INT2, 2), (T_INT4, 4), (T_INT8, 8)}" "fits i w" "fits i 8"
      and "grown b b1 (primitiveHeader code # pushSignedLE i w)"
      using True writeSmallestInt_cases [OF small assms(2)] by auto
    ultimately show ?thesis using encodes_int [OF c] by metis
  next
    case False
    then have nofit: "\<not> fits i 8" and b1: "b1 = b"
      using writeSmallestInt_cases [OF small assms(2)] by simp_all
    obtain code w p where d: "decimal_layout code w p" "num_digits i \<le> p" and g: "grown b b' (decimal_bytes code i w)"
      using writeDecimal_cases [of i b b' u] assms(2) rest False b1 by auto
    then show ?thesis using encodes_decimal [OF d nofit] by (auto simp: decimal_bytes_def)
  qed
  then show "encoded b b' (J_number (Int_num i))" "encoded b b' (J_bigint i)"
    by (auto simp: encoded_def)
qed

section \<open>Trees\<close>

text \<open>
  The trees that come back as they were: text without lone surrogates and without a leading byte
  order mark, and no key twice in an object (\<open>Object.entries\<close> has none).
\<close>

fun good :: "json_tree \<Rightarrow> bool" where
  "good (J_string s) \<longleftrightarrow> text_ok s"
| "good (J_array ts) \<longleftrightarrow> (\<forall>t \<in> set ts. good t)"
| "good (J_object es) \<longleftrightarrow> distinct (map fst es) \<and> (\<forall>(k, t) \<in> set es. text_ok k \<and> good t)"
| "good (J_other s) \<longleftrightarrow> False"
| "good _ \<longleftrightarrow> True"

definition elements_encoded :: "builder \<Rightarrow> builder \<Rightarrow> json_tree list \<Rightarrow> bytes list \<Rightarrow> bool" where
  "elements_encoded b b' ts bss \<longleftrightarrow>
     grown b b' (concat bss) \<and> length bss = length ts \<and> (\<forall>i < length ts. encodes (dict_names b') (bss ! i) (ts ! i))"

lemma elements_encoded_Cons:
  assumes "grown b b1 bs" "encodes (dict_names b1) bs t" "elements_encoded b1 b' ts bss"
  shows "elements_encoded b b' (t # ts) (bs # bss)"
proof -
  have "encodes (dict_names b') bs t"
    using assms by (auto simp: elements_encoded_def intro: grown_encodes)
  then show ?thesis
    using assms grown_trans [OF assms(1)] by (auto simp: elements_encoded_def nth_Cons split: nat.splits)
qed

text \<open>The fields an object collects, their offsets from \<open>n\<close> on.\<close>

definition fields_at :: "builder \<Rightarrow> nat \<Rightarrow> bytes list \<Rightarrow> (ustring \<times> json_tree) list \<Rightarrow> field_entry list \<Rightarrow> bool" where
  "fields_at b' n bss es flds \<longleftrightarrow>
     list_all2 (\<lambda>e f. fe_id f < length (dict_names b') \<and> dict_names b' ! fe_id f = fst e) es flds \<and>
     map fe_offset flds = starts n bss"

lemma fields_at_collected:
  assumes "fields_at b' 0 bss es flds" "length bss = length es"
  shows "collected (dict_names b') bss es flds"
proof -
  have "length flds = length es" using assms(1) by (auto simp: fields_at_def dest: list_all2_lengthD)
  moreover have "fe_offset (flds ! i) = starts 0 bss ! i" if "i < length flds" for i
    using that assms(1) nth_map [of i flds fe_offset] by (simp add: fields_at_def)
  ultimately show ?thesis
    using assms by (auto simp: fields_at_def collected_def list_all2_conv_all_nth)
qed

lemma finish_array_encoded:
  assumes "elements_encoded b b1 ts bss" "finishWritingArray (length (b_value b)) (starts 0 bss) b1 = (b', Inr u)"
    and "b_sizeLimit b < 2 ^ 31"
  shows "encoded b b' (J_array ts)"
proof -
  let ?hdr = "array_header (length (concat bss)) (starts 0 bss)"
  have g: "grown b b1 (concat bss)" and len: "length bss = length ts" using assms(1) by (simp_all add: elements_encoded_def)
  have "length (b_value b1) - length (b_value b) = length (concat bss)" using g by (simp add: grown_def)
  then have "m_bind (checkCapacity (length ?hdr)) (\<lambda>_. splice_at (length (b_value b)) ?hdr) b1 = (b', Inr u)"
    using assms(2) by (simp add: finishWritingArray_def Let_def)
  note fg = finish_grown [OF this g]
  have "length ts \<le> length ts * integerSize (length (concat bss))"
    using integerSize_bounds(1) [of "length (concat bss)"] by simp
  then have "length ts \<le> length ?hdr"
    unfolding length_array_header length_starts len add_mult_distrib by linarith
  moreover have "length (concat bss) \<le> b_sizeLimit b" using g by (auto simp: grown_def builder_ok_def)
  ultimately have "encodes (dict_names b') (?hdr @ concat bss) (J_array ts)"
    using assms(1,3) fg by (intro encodes_array) (auto simp: elements_encoded_def)
  then show ?thesis unfolding encoded_def using fg(1) by blast
qed

lemma finish_object_encoded:
  assumes "elements_encoded b b1 (map snd es) bss" "fields_at b1 0 bss es flds"
    and "finishWritingObject (length (b_value b)) flds b1 = (b', Inr u)"
    and "b_sizeLimit b < 2 ^ 31" "good (J_object es)"
  shows "encoded b b' (J_object es)"
proof -
  let ?F = "sort_fields (map textEncode (dict_names b1)) flds"
  let ?hdr = "object_header (length (concat bss)) ?F"
  have g: "grown b b1 (concat bss)" and len: "length bss = length es" using assms(1) by (simp_all add: elements_encoded_def)
  have keys: "b_dictionaryKeys b1 = map textEncode (dict_names b1)"
    using g by (simp add: grown_def builder_ok_def dict_ok_def)
  have "length (b_value b1) - length (b_value b) = length (concat bss)" using g by (simp add: grown_def)
  then have "m_bind (checkCapacity (length ?hdr)) (\<lambda>_. splice_at (length (b_value b)) ?hdr) b1 = (b', Inr u)"
    using assms(3) by (simp add: finishWritingObject_def keys Let_def)
  note fg = finish_grown [OF this g]
  note col = fields_at_collected [OF assms(2) len]
  have n: "length ?F = length es" using col by (simp add: sort_fields_def collected_def)
  have "length es \<le> length es * integerSize (length (concat bss))" "length es \<le> length es * integerSize (max_id ?F)"
    using integerSize_bounds(1) [of "length (concat bss)"] integerSize_bounds(1) [of "max_id ?F"] by simp_all
  then have "2 * length es \<le> length ?hdr"
    unfolding length_object_header n add_mult_distrib by linarith
  moreover have "length (concat bss) \<le> b_sizeLimit b" using g by (auto simp: grown_def builder_ok_def)
  ultimately have "encodes (dict_names b1) (?hdr @ concat bss) (J_object es)"
    using assms fg(3) by (intro encodes_object [OF col]) (auto simp: elements_encoded_def text_ok_def)
  then show ?thesis unfolding encoded_def using fg(1,2) by auto
qed

lemma process_encoded:
  shows "processParsedJson t b = (b', Inr u) \<Longrightarrow> builder_ok b \<Longrightarrow> good t \<Longrightarrow> b_sizeLimit b < 2 ^ 31 \<Longrightarrow> encoded b b' t"
    and "processElements start offs ts b = (b', Inr offs') \<Longrightarrow> builder_ok b \<Longrightarrow> \<forall>t \<in> set ts. good t \<Longrightarrow>
      b_sizeLimit b < 2 ^ 31 \<Longrightarrow> start \<le> length (b_value b) \<Longrightarrow>
      \<exists>bss. elements_encoded b b' ts bss \<and> offs' = offs @ starts (length (b_value b) - start) bss"
    and "processEntries start flds es b = (b', Inr flds') \<Longrightarrow> builder_ok b \<Longrightarrow> \<forall>(k, t) \<in> set es. text_ok k \<and> good t \<Longrightarrow>
      b_sizeLimit b < 2 ^ 31 \<Longrightarrow> start \<le> length (b_value b) \<Longrightarrow>
      \<exists>bss new. elements_encoded b b' (map snd es) bss \<and> flds' = flds @ new \<and>
        fields_at b' (length (b_value b) - start) bss es new"
proof (induction t and start offs ts and start flds es arbitrary: b b' u and b b' offs' and b b' flds'
    rule: processParsedJson_processElements_processEntries.induct)
  case 1
  then show ?case by (auto intro: writeNull_encoded)
next
  case (2 elems)
  obtain b1 offs where el: "processElements (length (b_value b)) [] elems b = (b1, Inr offs)"
    and fin: "finishWritingArray (length (b_value b)) offs b1 = (b', Inr u)"
    using "2.prems"(1) by (auto simp: m_bind_eq_Inr_iff size_now_def)
  from "2.IH" [OF el] "2.prems" obtain bss where bss: "elements_encoded b b1 elems bss" "offs = starts 0 bss" by auto
  then show ?case using finish_array_encoded fin "2.prems"(4) by blast
next
  case (3 entries)
  obtain b1 flds where el: "processEntries (length (b_value b)) [] entries b = (b1, Inr flds)"
    and fin: "finishWritingObject (length (b_value b)) flds b1 = (b', Inr u)"
    using "3.prems"(1) by (auto simp: m_bind_eq_Inr_iff size_now_def)
  from "3.IH" [OF el] "3.prems" obtain bss where bss: "elements_encoded b b1 (map snd entries) bss"
    and fl: "fields_at b1 0 bss entries flds" by auto
  then show ?case using finish_object_encoded fin "3.prems"(3,4) by auto
next
  case (4 s)
  then show ?case by (auto intro: writeString_encoded)
next
  case (5 x)
  then show ?case by (auto intro: writeBoolean_encoded)
next
  case (6 i)
  then show ?case by (auto intro: write_integer_encoded)
next
  case (7 d)
  then show ?case by (auto intro: writeDouble_encoded)
next
  case (8 i)
  then show ?case by (auto intro: write_integer_encoded)
next
  case (9 t)
  then show ?case by simp
next
  case (10 start offsets)
  then show ?case by (auto simp: elements_encoded_def grown_refl intro!: exI [of _ "[]"])
next
  case (11 start offsets e es)
  obtain b1 where e: "processParsedJson e b = (b1, Inr ())"
    and rest: "processElements start (offsets @ [length (b_value b) - start]) es b1 = (b', Inr offs')"
    using "11.prems"(1) by (auto simp: m_bind_eq_Inr_iff size_now_def)
  obtain bs where bs: "grown b b1 bs" "encodes (dict_names b1) bs e"
    using "11.IH"(1) [OF e] "11.prems" by (auto simp: encoded_def)
  then have b1: "builder_ok b1" "b_sizeLimit b1 = b_sizeLimit b" "b_value b1 = b_value b @ bs" by (simp_all add: grown_def)
  obtain bss where bss: "elements_encoded b1 b' es bss"
    "offs' = (offsets @ [length (b_value b) - start]) @ starts (length (b_value b1) - start) bss"
    using "11.IH"(2) [OF rest] "11.prems" b1 by auto
  show ?case
    using elements_encoded_Cons [OF bs bss(1)] bss(2) b1(3) "11.prems"(5)
    by (intro exI [of _ "bs # bss"]) simp
next
  case (12 start flds)
  then show ?case by (auto simp: elements_encoded_def fields_at_def grown_refl intro!: exI [of _ "[]"])
next
  case (13 start flds key val es)
  obtain b0 fid where add: "addKey key b = (b0, Inr fid)"
    and rest0: "m_bind (processParsedJson val) (\<lambda>_. processEntries start
        (flds @ [\<lparr>fe_key = key, fe_id = fid, fe_offset = length (b_value b0) - start\<rparr>]) es) b0 = (b', Inr flds')"
    using "13.prems"(1) by (auto simp: m_bind_eq_Inr_iff size_now_def)
  note k = addKey_grown [OF add "13.prems"(2)]
  have key: "text_ok key" "good val" using "13.prems"(3) by auto
  have b0: "builder_ok b0" "b_sizeLimit b0 = b_sizeLimit b" "b_value b0 = b_value b" using k(1) key by (simp_all add: grown_def)
  let ?f = "\<lparr>fe_key = key, fe_id = fid, fe_offset = length (b_value b) - start\<rparr>"
  obtain b1 where e: "processParsedJson val b0 = (b1, Inr ())"
    and rest: "processEntries start (flds @ [?f]) es b1 = (b', Inr flds')"
    using rest0 b0(3) by (auto simp: m_bind_eq_Inr_iff)
  obtain bs where bs: "grown b0 b1 bs" "encodes (dict_names b1) bs val"
    using "13.IH"(1) [OF e] "13.prems" b0 key by (auto simp: encoded_def)
  then have b1: "builder_ok b1" "b_sizeLimit b1 = b_sizeLimit b" "b_value b1 = b_value b @ bs"
    using b0 by (simp_all add: grown_def)
  obtain bss new where bss: "elements_encoded b1 b' (map snd es) bss" and flds': "flds' = (flds @ [?f]) @ new"
    and new: "fields_at b' (length (b_value b1) - start) bss es new"
    using "13.IH"(2) [OF rest] "13.prems" b0 b1 by auto
  have "grown b b1 bs" using grown_trans [OF k(1) bs(1)] key by simp
  then have enc: "elements_encoded b b' (map snd ((key, val) # es)) (bs # bss)"
    using elements_encoded_Cons [OF _ bs(2) bss] by simp
  obtain ks where "dict_names b' = dict_names b0 @ ks"
    using bs(1) bss by (auto simp: grown_def elements_encoded_def)
  then have "fields_at b' (length (b_value b) - start) (bs # bss) ((key, val) # es) (?f # new)"
    using new k(2,3) key b1(3) "13.prems"(5) by (simp add: fields_at_def nth_append)
  with enc flds' show ?case
    by (intro exI [of _ "bs # bss"] exI [of _ "?f # new"]) simp
qed

section \<open>What was built is read back\<close>

lemma fold_length: "fold (\<lambda>k a. a + length k) ks n = n + length (concat ks)"
  by (induction ks arbitrary: n) auto

lemma finalize_reads:
  assumes "finalize b = Inr (val, md)" "dict_ok b" "list_all text_ok (dict_names b)" "b_sizeLimit b < 2 ^ 32"
  shows "val = b_value b" and "reads md (dict_names b)"
proof -
  let ?keys = "b_dictionaryKeys b"
  define m where "m = max (length (concat ?keys)) (length ?keys)"
  have m: "m \<le> b_sizeLimit b" and md: "md = metadata_bytes (integerSize m) ?keys" and val: "val = b_value b"
    using assms(1) by (auto simp: finalize_def fold_length m_def Let_def split: if_splits)
  show "val = b_value b" by (rule val)
  have keys: "?keys = map textEncode (dict_names b)" using assms(2) by (simp add: dict_ok_def)
  have "getMetadataKey md i = Inr (dict_names b ! i)" if "i < length (dict_names b)" for i
  proof -
    have "getMetadataKey md i = Inr (textDecode (?keys ! i))"
      unfolding md using that m assms(4) keys by (intro getMetadataKey_built) (auto simp: m_def)
    moreover have "text_ok (dict_names b ! i)" using assms(3) that by (simp add: list_all_length)
    ultimately show ?thesis using that keys by (simp add: textDecode_textEncode text_ok_def)
  qed
  moreover have "metadata_ok md" unfolding md using integerSize_bounds by (rule metadata_bytes_ok)
  moreover have "length (dict_names b) \<le> m" unfolding m_def keys by simp
  ultimately show "reads md (dict_names b)" using m assms(4) by (simp add: reads_def)
qed

lemma buildFromTree_represents:
  assumes "buildFromTree t (newBuilder limit) = (b', Inr v)" "good t" "limit < 2 ^ 31"
  shows "represents v t" and "length (v_value v) \<le> limit"
proof -
  obtain u where p: "processParsedJson t (newBuilder limit) = (b', Inr u)"
    using assms(1) by (auto simp: buildFromTree_def m_bind_def split: prod.splits sum.splits)
  then obtain val md where f: "finalize b' = Inr (val, md)" and v: "newVariant val md 0 = Inr v"
    using assms(1) by (auto simp: buildFromTree_def m_bind_def res_bind_Inr_iff)
  have lim: "b_sizeLimit (newBuilder limit) = limit" "b_value (newBuilder limit) = []" "dict_names (newBuilder limit) = []"
    by (simp_all add: newBuilder_def dict_names_def)
  from process_encoded(1) [OF p builder_ok_new assms(2)] assms(3) lim obtain bs
    where g: "grown (newBuilder limit) b' bs" and enc: "encodes (dict_names b') bs t"
    by (auto simp: encoded_def)
  then have b': "b_value b' = bs" "dict_ok b'" "list_all text_ok (dict_names b')" "b_sizeLimit b' = limit" "length bs \<le> limit"
    using lim by (auto simp: grown_def builder_ok_def)
  note r = finalize_reads [OF f b'(2,3)]
  have "v = view [] bs [] md" using newVariant_Inr [OF v] r(1) b' assms(3) by simp
  then show "represents v t" "length (v_value v) \<le> limit"
    using encodesD [OF enc, of md "[]" "[]"] r(2) b' assms(3) by simp_all
qed

end
