(* ===== verification/Variant_Limits.thy ===== *)
theory Variant_Limits
  imports Variant_Roundtrip
begin

text \<open>
  The size limit of a builder: every builder a program can reach keeps it, and a tree whose
  encoding cannot exceed it is built. Then the properties of the whole codec.
\<close>

section \<open>Room enough\<close>

text \<open>Bounds on the bytes of a tree and on those of its keys.\<close>

fun weight :: "json_tree \<Rightarrow> nat" where
  "weight (J_string s) = 5 + length (textEncode s)"
| "weight (J_array ts) = 9 + 4 * length ts + sum_list (map weight ts)"
| "weight (J_object es) = 9 + 8 * length es + sum_list (map (\<lambda>(k, t). weight t) es)"
| "weight _ = 18"

fun key_weight :: "json_tree \<Rightarrow> nat" where
  "key_weight (J_array ts) = sum_list (map key_weight ts)"
| "key_weight (J_object es) = sum_list (map (\<lambda>(k, t). 4 + length (textEncode k) + key_weight t) es)"
| "key_weight _ = 0"

definition int_ok :: "int \<Rightarrow> bool" where
  "int_ok i \<longleftrightarrow> fits i 8 \<or> num_digits i \<le> MAX_DECIMAL16_PRECISION"

fun numbers_ok :: "json_tree \<Rightarrow> bool" where
  "numbers_ok (J_number (Int_num i)) \<longleftrightarrow> int_ok i"
| "numbers_ok (J_bigint i) \<longleftrightarrow> int_ok i"
| "numbers_ok (J_array ts) \<longleftrightarrow> (\<forall>t \<in> set ts. numbers_ok t)"
| "numbers_ok (J_object es) \<longleftrightarrow> (\<forall>(k, t) \<in> set es. numbers_ok t)"
| "numbers_ok (J_other s) \<longleftrightarrow> False"
| "numbers_ok _ \<longleftrightarrow> True"

definition dict_size :: "builder \<Rightarrow> nat" where
  "dict_size b = 4 * length (b_dictionaryKeys b) + length (concat (b_dictionaryKeys b))"

text \<open>A step that adds at most \<open>w\<close> bytes to the value and \<open>k\<close> to the dictionary.\<close>

definition adds :: "builder \<Rightarrow> builder \<Rightarrow> nat \<Rightarrow> nat \<Rightarrow> bool" where
  "adds b b' w k \<longleftrightarrow>
     length (b_value b') \<le> length (b_value b) + w \<and> b_sizeLimit b' = b_sizeLimit b \<and> dict_size b' \<le> dict_size b + k"

lemma adds_trans: "adds b b' w k \<Longrightarrow> adds b' b'' w' k' \<Longrightarrow> adds b b'' (w + w') (k + k')"
  by (auto simp: adds_def)

lemma write_adds:
  assumes "length (b_value b) + n \<le> b_sizeLimit b" "length bs \<le> n"
  shows "\<exists>b'. m_bind (checkCapacity n) (\<lambda>_. push bs) b = (b', Inr ()) \<and> adds b b' n 0"
  using assms by (simp add: checkCapacity_eq push_def adds_def dict_size_def)

lemma addKey_adds: "\<exists>b' i. addKey k b = (b', Inr i) \<and> adds b b' 0 (4 + length (textEncode k))"
  by (auto simp: addKey_def adds_def dict_size_def Let_def split: option.splits)

lemma write_integer_adds:
  assumes "length (b_value b) + 18 \<le> b_sizeLimit b" "int_ok i"
  shows "\<exists>b'. write_integer i b = (b', Inr ()) \<and> adds b b' 18 0"
proof (cases "fits i 8")
  case True
  have "\<exists>b1. writeSmallestInt i b = (b1, Inr True) \<and> adds b b1 18 0"
    using assms(1) True unfolding writeSmallestInt_eq by (auto simp: adds_def written_int_def dict_size_def)
  then show ?thesis by (auto simp: write_integer_def m_bind_def)
next
  case False
  then have small: "writeSmallestInt i b = (b, Inr False)"
    using assms(1) fits_wider [of i 1 8] fits_wider [of i 2 8] fits_wider [of i 4 8] by (auto simp: writeSmallestInt_eq)
  have digits: "num_digits i \<le> MAX_DECIMAL16_PRECISION" using False assms(2) by (simp add: int_ok_def)
  have "\<exists>b1. writeDecimalUnscaled i (Int_num 0) b = (b1, Inr ()) \<and> adds b b1 18 0"
    using digits assms(1) unfolding writeDecimal_eq checkCapacity_eq
    by (auto simp: push_def decimal_bytes_def adds_def dict_size_def)
  then show ?thesis using small by (auto simp: write_integer_def m_bind_def)
qed

lemma finish_adds:
  assumes "length (b_value b) + n \<le> b_sizeLimit b" "length hdr \<le> n"
  shows "\<exists>b'. m_bind (checkCapacity (length hdr)) (\<lambda>_. splice_at start hdr) b = (b', Inr ()) \<and> adds b b' n 0"
proof -
  have "length (take start (b_value b)) + length (drop start (b_value b)) = length (b_value b)" by simp
  then show ?thesis
    using assms by (simp add: checkCapacity_eq splice_at_def adds_def dict_size_def)
qed

lemma size_bytes_le: "size_bytes n \<le> 4"
  by (simp add: size_bytes_def U32_SIZE_def)

lemma array_header_le: "length (array_header ds offs) \<le> 9 + 4 * length offs"
proof -
  have "length (array_header ds offs) \<le> 1 + 4 + (length offs + 1) * 4"
    unfolding length_array_header by (intro add_mono mult_le_mono2 order_refl size_bytes_le integerSize_bounds(2))
  then show ?thesis by simp
qed

lemma object_header_le: "length (object_header ds flds) \<le> 9 + 8 * length flds"
proof -
  have "length (object_header ds flds) \<le> 1 + 4 + length flds * 4 + (length flds + 1) * 4"
    unfolding length_object_header by (intro add_mono mult_le_mono2 order_refl size_bytes_le integerSize_bounds(2))
  then show ?thesis by simp
qed

lemma process_adds:
  shows "length (b_value b) + weight t \<le> b_sizeLimit b \<Longrightarrow> numbers_ok t \<Longrightarrow>
      \<exists>b'. processParsedJson t b = (b', Inr ()) \<and> adds b b' (weight t) (key_weight t)"
    and "length (b_value b) + sum_list (map weight ts) \<le> b_sizeLimit b \<Longrightarrow> \<forall>t \<in> set ts. numbers_ok t \<Longrightarrow>
      \<exists>b' offs'. processElements start offs ts b = (b', Inr offs') \<and> length offs' = length offs + length ts \<and>
        adds b b' (sum_list (map weight ts)) (sum_list (map key_weight ts))"
    and "length (b_value b) + sum_list (map (\<lambda>(k, t). weight t) es) \<le> b_sizeLimit b \<Longrightarrow> \<forall>(k, t) \<in> set es. numbers_ok t \<Longrightarrow>
      \<exists>b' flds'. processEntries start flds es b = (b', Inr flds') \<and> length flds' = length flds + length es \<and>
        adds b b' (sum_list (map (\<lambda>(k, t). weight t) es)) (sum_list (map (\<lambda>(k, t). 4 + length (textEncode k) + key_weight t) es))"
proof (induction t and start offs ts and start flds es arbitrary: b and b and b
    rule: processParsedJson_processElements_processEntries.induct)
  case 1
  then show ?case using write_adds [of b 1 "[primitiveHeader T_NULL]"] by (auto simp: writeNull_def adds_def)
next
  case (2 elems)
  have "length (b_value b) + sum_list (map weight elems) \<le> b_sizeLimit b" "\<forall>t \<in> set elems. numbers_ok t"
    using "2.prems" by simp_all
  from "2.IH" [OF this, of "length (b_value b)"] obtain b1 offs
    where el: "processElements (length (b_value b)) [] elems b = (b1, Inr offs)" "length offs = length elems"
      and a: "adds b b1 (sum_list (map weight elems)) (sum_list (map key_weight elems))"
    by auto
  have room: "length (b_value b1) + (9 + 4 * length elems) \<le> b_sizeLimit b1" using a "2.prems"(1) by (simp add: adds_def)
  obtain b' where b': "finishWritingArray (length (b_value b)) offs b1 = (b', Inr ())" "adds b1 b' (9 + 4 * length elems) 0"
    using finish_adds [OF room, of "array_header (length (b_value b1) - length (b_value b)) offs" "length (b_value b)"]
      array_header_le [of _ offs] el(2) by (auto simp: finishWritingArray_def Let_def)
  show ?case using adds_trans [OF a b'(2)] el(1) b'(1) by (simp add: m_bind_def size_now_def add_ac)
next
  case (3 entries)
  have "length (b_value b) + sum_list (map (\<lambda>(k, t). weight t) entries) \<le> b_sizeLimit b"
    "\<forall>(k, t) \<in> set entries. numbers_ok t"
    using "3.prems" by simp_all
  from "3.IH" [OF this, of "length (b_value b)"] obtain b1 flds
    where el: "processEntries (length (b_value b)) [] entries b = (b1, Inr flds)" "length flds = length entries"
      and a: "adds b b1 (sum_list (map (\<lambda>(k, t). weight t) entries)) (key_weight (J_object entries))"
    by auto
  have room: "length (b_value b1) + (9 + 8 * length entries) \<le> b_sizeLimit b1" using a "3.prems"(1) by (simp add: adds_def)
  let ?F = "sort_fields (b_dictionaryKeys b1) flds"
  have "length ?F = length entries" using el(2) by (simp add: sort_fields_def)
  then obtain b' where b': "finishWritingObject (length (b_value b)) flds b1 = (b', Inr ())" "adds b1 b' (9 + 8 * length entries) 0"
    using finish_adds [OF room, of "object_header (length (b_value b1) - length (b_value b)) ?F" "length (b_value b)"]
      object_header_le [of _ ?F] by (auto simp: finishWritingObject_def Let_def)
  show ?case using adds_trans [OF a b'(2)] el(1) b'(1) by (simp add: m_bind_def size_now_def add_ac)
next
  case (4 s)
  then have "length (b_value b) + length (string_bytes s) \<le> b_sizeLimit b"
    by (simp add: string_bytes_def U32_SIZE_def split: if_splits)
  from write_adds [OF this order_refl] show ?case
    by (auto simp: writeString_def string_bytes_def Let_def adds_def U32_SIZE_def split: if_splits)
next
  case (5 x)
  then show ?case using write_adds [of b 1 "[primitiveHeader (if x then T_TRUE else T_FALSE)]"]
    by (auto simp: writeBoolean_def adds_def)
next
  case (6 i)
  then show ?case using write_integer_adds by simp
next
  case (7 d)
  then show ?case using write_adds [of b 9 "primitiveHeader T_DOUBLE # bits_le 8 (unat d)"]
    by (auto simp: writeDouble_def adds_def bits_le_def)
next
  case (8 i)
  then show ?case using write_integer_adds by simp
next
  case (9 t)
  then show ?case by simp
next
  case (10 start offsets)
  then show ?case by (simp add: adds_def)
next
  case (11 start offsets e es)
  obtain b1 where e: "processParsedJson e b = (b1, Inr ())" "adds b b1 (weight e) (key_weight e)"
    using "11.IH"(1) [of b] "11.prems" by auto
  then have "length (b_value b1) + sum_list (map weight es) \<le> b_sizeLimit b1" using "11.prems"(1) by (simp add: adds_def)
  then obtain b' offs' where r: "processElements start (offsets @ [length (b_value b) - start]) es b1 = (b', Inr offs')"
      "length offs' = length offsets + 1 + length es" "adds b1 b' (sum_list (map weight es)) (sum_list (map key_weight es))"
    using "11.IH"(2) [of b1 "length (b_value b)"] "11.prems"(2) by auto
  show ?case using adds_trans [OF e(2) r(3)] e(1) r(1,2) by (simp add: m_bind_def size_now_def)
next
  case (12 start flds)
  then show ?case by (simp add: adds_def)
next
  case (13 start flds key val es)
  obtain b0 fid where k: "addKey key b = (b0, Inr fid)" "adds b b0 0 (4 + length (textEncode key))"
    using addKey_adds by blast
  then have "length (b_value b0) + weight val \<le> b_sizeLimit b0" using "13.prems"(1) by (simp add: adds_def)
  then obtain b1 where e: "processParsedJson val b0 = (b1, Inr ())" "adds b0 b1 (weight val) (key_weight val)"
    using "13.IH"(1) [of b0] "13.prems"(2) by auto
  then have "length (b_value b1) + sum_list (map (\<lambda>(k, t). weight t) es) \<le> b_sizeLimit b1"
    using "13.prems"(1) k(2) by (simp add: adds_def)
  then obtain b' flds' where r: "processEntries start
      (flds @ [\<lparr>fe_key = key, fe_id = fid, fe_offset = length (b_value b0) - start\<rparr>]) es b1 = (b', Inr flds')"
      "length flds' = length flds + 1 + length es"
      "adds b1 b' (sum_list (map (\<lambda>(k, t). weight t) es)) (sum_list (map (\<lambda>(k, t). 4 + length (textEncode k) + key_weight t) es))"
    using "13.IH"(2) [of b1 fid "length (b_value b0)"] "13.prems"(2) by auto
  show ?case using adds_trans [OF adds_trans [OF k(2) e(2)] r(3)] k(1) e(1) r(1,2)
    by (simp add: m_bind_def size_now_def add_ac)
qed

lemma finalize_succeeds:
  assumes "9 + dict_size b \<le> b_sizeLimit b"
  shows "\<exists>osz. finalize b = Inr (b_value b, metadata_bytes osz (b_dictionaryKeys b)) \<and> 0 < osz \<and> osz \<le> 4"
proof -
  let ?keys = "b_dictionaryKeys b"
  define m where "m = max (length (concat ?keys)) (length ?keys)"
  have "m \<le> b_sizeLimit b" using assms by (simp add: m_def dict_size_def)
  moreover have "1 + integerSize m + (length ?keys + 1) * integerSize m + length (concat ?keys) \<le> 1 + 4 + (length ?keys + 1) * 4 + length (concat ?keys)"
    by (intro add_mono mult_le_mono2 order_refl integerSize_bounds(2))
  then have "1 + integerSize m + (length ?keys + 1) * integerSize m + length (concat ?keys) \<le> b_sizeLimit b"
    using assms by (simp add: dict_size_def)
  ultimately have "finalize b = Inr (b_value b, metadata_bytes (integerSize m) ?keys)"
    by (simp add: finalize_def fold_length Let_def m_def [symmetric] not_less)
  then show ?thesis using integerSize_bounds [of m] by blast
qed

lemma buildFromTree_succeeds:
  assumes "weight t \<le> limit" "9 + key_weight t \<le> limit" "numbers_ok t"
  shows "\<exists>b' v. buildFromTree t (newBuilder limit) = (b', Inr v)"
proof -
  obtain b' where p: "processParsedJson t (newBuilder limit) = (b', Inr ())"
    and a: "adds (newBuilder limit) b' (weight t) (key_weight t)"
    using process_adds(1) [of "newBuilder limit" t] assms by (auto simp: newBuilder_def)
  have "9 + dict_size b' \<le> b_sizeLimit b'" using a assms(2) by (simp add: adds_def newBuilder_def dict_size_def)
  then obtain osz where f: "finalize b' = Inr (b_value b', metadata_bytes osz (b_dictionaryKeys b'))" "0 < osz" "osz \<le> 4"
    using finalize_succeeds by blast
  then show ?thesis
    using p metadata_bytes_ok [OF f(2,3)] by (simp add: buildFromTree_def m_bind_def newVariant_ok metadata_ok_def)
qed

section \<open>Every reachable builder\<close>

datatype builder_op =
    Op_null | Op_boolean bool | Op_byte int | Op_short int | Op_int int | Op_long int | Op_float "32 word"
  | Op_double "64 word" | Op_decimal decimal_arg "js_number option" | Op_string ustring | Op_binary bytes
  | Op_uuid bytes | Op_date int | Op_time int | Op_timestamp_tz int | Op_timestamp_ntz int
  | Op_timestamp_nanos_tz int | Op_timestamp_nanos_ntz int | Op_start_object | Op_key ustring | Op_end_object
  | Op_start_array | Op_end_array

fun run_op :: "builder_op \<Rightarrow> (builder, unit) meth" where
  "run_op Op_null = appendNull"
| "run_op (Op_boolean x) = appendBoolean x"
| "run_op (Op_byte i) = appendByte i"
| "run_op (Op_short i) = appendShort i"
| "run_op (Op_int i) = appendInt i"
| "run_op (Op_long i) = appendLong i"
| "run_op (Op_float f) = appendFloat f"
| "run_op (Op_double f) = appendDouble f"
| "run_op (Op_decimal d sc) = appendDecimal d sc"
| "run_op (Op_string s) = appendString s"
| "run_op (Op_binary bs) = appendBinary bs"
| "run_op (Op_uuid bs) = appendUuid bs"
| "run_op (Op_date i) = appendDate i"
| "run_op (Op_time i) = appendTime i"
| "run_op (Op_timestamp_tz i) = appendTimestampTz i"
| "run_op (Op_timestamp_ntz i) = appendTimestampNtz i"
| "run_op (Op_timestamp_nanos_tz i) = appendTimestampNanosTz i"
| "run_op (Op_timestamp_nanos_ntz i) = appendTimestampNanosNtz i"
| "run_op Op_start_object = startObject"
| "run_op (Op_key k) = appendKey k"
| "run_op Op_end_object = endObject"
| "run_op Op_start_array = startArray"
| "run_op Op_end_array = endArray"

text \<open>A builder after any sequence of calls, those that failed included.\<close>

inductive reachable_builder :: "nat \<Rightarrow> builder \<Rightarrow> bool" for limit where
  new: "reachable_builder limit (newBuilder limit)"
| step: "reachable_builder limit b \<Longrightarrow> run_op op b = (b', r) \<Longrightarrow> reachable_builder limit b'"

fun context_start :: "build_context \<Rightarrow> nat" where
  "context_start (Object_context start flds pendingKey pendingId) = start"
| "context_start (Array_context start offsets) = start"

text \<open>
  The offsets of an open container lie between its start and the end of what was written in it, and
  the ids of its fields in the dictionary.
\<close>

fun context_ok :: "nat \<Rightarrow> nat \<Rightarrow> build_context \<Rightarrow> bool" where
  "context_ok n keys (Object_context start flds pendingKey pendingId) \<longleftrightarrow>
     start \<le> n \<and> (\<forall>f \<in> set flds. fe_id f < keys \<and> start + fe_offset f \<le> n) \<and> (pendingKey \<noteq> None \<longrightarrow> pendingId < keys)"
| "context_ok n keys (Array_context start offsets) \<longleftrightarrow> start \<le> n \<and> (\<forall>x \<in> set offsets. start + x \<le> n)"

fun stack_ok :: "nat \<Rightarrow> nat \<Rightarrow> build_context list \<Rightarrow> bool" where
  "stack_ok n keys [] \<longleftrightarrow> True"
| "stack_ok n keys (c # cs) \<longleftrightarrow> context_ok n keys c \<and> stack_ok (context_start c) keys cs"

definition builder_inv :: "builder \<Rightarrow> bool" where
  "builder_inv b \<longleftrightarrow> builder_ok b \<and> stack_ok (length (b_value b)) (length (b_dictionaryKeys b)) (b_stack b)"

lemma context_ok_mono: "context_ok n k c \<Longrightarrow> n \<le> n' \<Longrightarrow> k \<le> k' \<Longrightarrow> context_ok n' k' c"
  by (cases c) fastforce+

lemma stack_ok_mono: "stack_ok n k cs \<Longrightarrow> n \<le> n' \<Longrightarrow> k \<le> k' \<Longrightarrow> stack_ok n' k' cs"
proof (induction cs arbitrary: n n')
  case Nil
  then show ?case by simp
next
  case (Cons c cs)
  then show ?case using context_ok_mono [of n k c n' k'] Cons.IH [of "context_start c" "context_start c"] by auto
qed

text \<open>A method that keeps the invariant, whatever its result.\<close>

definition keeps :: "(builder, 'a) meth \<Rightarrow> bool" where
  "keeps m \<longleftrightarrow> (\<forall>b. builder_inv b \<longrightarrow> builder_inv (fst (m b)) \<and> b_sizeLimit (fst (m b)) = b_sizeLimit b)"

lemma keeps_bind: "keeps m \<Longrightarrow> (\<And>x. keeps (f x)) \<Longrightarrow> keeps (m_bind m f)"
  unfolding keeps_def m_bind_def by (auto split: prod.splits sum.splits)

lemma keeps_throw [simp]: "keeps (m_throw e)"
  by (simp add: keeps_def)

lemma inv_push:
  "builder_inv b \<Longrightarrow> length (b_value b) + length bs \<le> b_sizeLimit b \<Longrightarrow> builder_inv (b\<lparr>b_value := b_value b @ bs\<rparr>)"
  by (auto simp: builder_inv_def builder_ok_def dict_ok_def dict_names_def intro: stack_ok_mono)

lemma keeps_push:
  assumes "length bs \<le> n" shows "keeps (m_bind (checkCapacity n) (\<lambda>_. push bs))"
  using assms unfolding keeps_def checkCapacity_eq by (auto simp: push_def intro: inv_push)

lemma keeps_beforeAppend: "keeps beforeAppend"
  unfolding keeps_def beforeAppend_def
  by (auto simp: builder_inv_def builder_ok_def dict_ok_def dict_names_def split: list.splits build_context.splits option.splits)

lemma keeps_fixed: "keeps (writeFixedInt code i w)"
  unfolding writeFixedInt_def Let_def by (simp add: keeps_push)

lemma keeps_decimal: "keeps (writeDecimalUnscaled i sc)"
proof (cases sc)
  case (Int_num n)
  then show ?thesis
    unfolding keeps_def by (auto simp: writeDecimalUnscaled_def checkCapacity_eq Let_def push_def intro!: inv_push)
next
  case (Frac_num d)
  then show ?thesis by (simp add: writeDecimalUnscaled_def)
qed

lemma inv_addKey:
  assumes "builder_inv b" "addKey k b = (b', Inr i)"
  shows "builder_inv b'" "b_stack b' = b_stack b" "b_value b' = b_value b" "b_sizeLimit b' = b_sizeLimit b"
    "i < length (b_dictionaryKeys b')" "length (b_dictionaryKeys b) \<le> length (b_dictionaryKeys b')"
proof -
  have ok: "builder_ok b" using assms(1) by (simp add: builder_inv_def)
  have same: "b_stack b' = b_stack b" "b_value b' = b_value b" "b_sizeLimit b' = b_sizeLimit b"
    using assms(2) by (auto simp: addKey_def Let_def split: option.splits)
  note g = addKey_dict [OF assms(2) ok]
  have len: "length (b_dictionaryKeys c) = length (dict_names c)" if "dict_ok c" for c
    using that by (simp add: dict_ok_def)
  have "length (dict_names b) \<le> length (dict_names b')" using g(4) by auto
  then show more: "length (b_dictionaryKeys b) \<le> length (b_dictionaryKeys b')" and "i < length (b_dictionaryKeys b')"
    using g ok len by (simp_all add: builder_ok_def)
  show "builder_inv b'"
    using assms(1) g(1) more stack_ok_mono [OF _ order_refl more] same by (auto simp: builder_inv_def)
  show "b_stack b' = b_stack b" "b_value b' = b_value b" "b_sizeLimit b' = b_sizeLimit b" by (rule same)+
qed

lemma keeps_appendKey: "keeps (appendKey k)"
  unfolding keeps_def
proof (intro allI impI)
  fix b assume inv: "builder_inv b"
  obtain b1 i where add: "addKey k b = (b1, Inr i)" using addKey_adds by blast
  note a = inv_addKey [OF inv add]
  show "builder_inv (fst (appendKey k b)) \<and> b_sizeLimit (fst (appendKey k b)) = b_sizeLimit b"
    using inv a add
    by (auto simp: appendKey_def m_bind_def builder_inv_def builder_ok_def dict_ok_def dict_names_def
        split: list.splits build_context.splits option.splits)
qed

lemma keeps_finish:
  assumes "builder_inv b" "stack_ok (length (b_value b)) (length (b_dictionaryKeys b)) st"
  shows "builder_inv (fst (m_bind (checkCapacity (length hdr)) (\<lambda>_. splice_at start hdr) (b\<lparr>b_stack := st\<rparr>)))"
    and "b_sizeLimit (fst (m_bind (checkCapacity (length hdr)) (\<lambda>_. splice_at start hdr) (b\<lparr>b_stack := st\<rparr>))) = b_sizeLimit b"
proof -
  have "length (take start (b_value b) @ hdr @ drop start (b_value b)) = length (b_value b) + length hdr"
    by simp
  then show "builder_inv (fst (m_bind (checkCapacity (length hdr)) (\<lambda>_. splice_at start hdr) (b\<lparr>b_stack := st\<rparr>)))"
    using assms stack_ok_mono [OF assms(2), of "length (b_value b) + length hdr"]
    by (auto simp: checkCapacity_eq splice_at_def builder_inv_def builder_ok_def dict_ok_def dict_names_def simp del: length_append)
  show "b_sizeLimit (fst (m_bind (checkCapacity (length hdr)) (\<lambda>_. splice_at start hdr) (b\<lparr>b_stack := st\<rparr>))) = b_sizeLimit b"
    by (simp add: checkCapacity_eq splice_at_def)
qed

lemma stack_ok_rest: "stack_ok n k (c # cs) \<Longrightarrow> stack_ok n k cs"
  using stack_ok_mono [of "context_start c" k cs n k] by (cases c) auto

lemma keeps_endArray: "keeps endArray"
  unfolding keeps_def
proof (intro allI impI)
  fix b assume inv: "builder_inv b"
  then have "stack_ok (length (b_value b)) (length (b_dictionaryKeys b)) (tl (b_stack b))"
    using stack_ok_rest by (cases "b_stack b") (auto simp: builder_inv_def)
  from keeps_finish [OF inv this] inv show "builder_inv (fst (endArray b)) \<and> b_sizeLimit (fst (endArray b)) = b_sizeLimit b"
    by (auto simp: endArray_def finishWritingArray_def Let_def split: list.splits build_context.splits)
qed

lemma keeps_endObject: "keeps endObject"
  unfolding keeps_def
proof (intro allI impI)
  fix b assume inv: "builder_inv b"
  then have "stack_ok (length (b_value b)) (length (b_dictionaryKeys b)) (tl (b_stack b))"
    using stack_ok_rest by (cases "b_stack b") (auto simp: builder_inv_def)
  from keeps_finish [OF inv this] inv show "builder_inv (fst (endObject b)) \<and> b_sizeLimit (fst (endObject b)) = b_sizeLimit b"
    by (auto simp: endObject_def finishWritingObject_def Let_def split: list.splits build_context.splits)
qed

lemma keeps_push_context:
  assumes "\<And>n k. context_ok n k (ctx n) \<and> context_start (ctx n) = n" shows "keeps (push_context ctx)"
  using assms by (auto simp: keeps_def push_context_def builder_inv_def builder_ok_def dict_ok_def dict_names_def)

lemmas append_defs = appendNull_def appendBoolean_def appendByte_def appendShort_def appendInt_def appendLong_def
  appendFloat_def appendDouble_def appendString_def appendBinary_def appendUuid_def appendDate_def
  appendTime_def appendTimestampTz_def appendTimestampNtz_def appendTimestampNanosTz_def
  appendTimestampNanosNtz_def startObject_def startArray_def writeNull_def writeBoolean_def writeDouble_def

lemma keeps_string: "keeps (writeString s)"
  unfolding writeString_def Let_def by (intro keeps_push) simp

lemma keeps_appendDecimal: "keeps (appendDecimal d sc)"
  unfolding appendDecimal_def by (intro keeps_bind keeps_beforeAppend) (auto simp: keeps_decimal split: decimal_arg.splits option.splits)

lemma keeps_run_op: "keeps (run_op op)"
proof (cases op)
  case (Op_uuid bs)
  then show ?thesis unfolding Op_uuid run_op.simps appendUuid_def
    by (intro keeps_bind keeps_beforeAppend) (simp add: keeps_push)
qed (auto simp: append_defs keeps_appendKey keeps_endArray keeps_endObject keeps_appendDecimal
    intro!: keeps_bind keeps_beforeAppend keeps_fixed keeps_string keeps_push keeps_push_context simp: bits_le_def)

lemma builder_inv_new: "builder_inv (newBuilder limit)"
  using builder_ok_new by (simp add: builder_inv_def newBuilder_def)

lemma reachable_inv: "reachable_builder limit b \<Longrightarrow> builder_inv b \<and> b_sizeLimit b = limit"
proof (induction rule: reachable_builder.induct)
  case new
  then show ?case using builder_inv_new by (simp add: newBuilder_def)
next
  case (step b op b' r)
  then show ?case using keeps_run_op [of op] unfolding keeps_def by (metis fst_conv)
qed

section \<open>Properties of the codec\<close>

text \<open>
  C1. A tree whose encoding cannot exceed the size limit is built, and the variant that was built
  represents it: the reader finds every scalar, every element by its index and every field by its
  key, whether it searches the keys one by one or by bisection.
\<close>

theorem tree_is_built_and_read_back:
  assumes "good t" "numbers_ok t" "weight t \<le> limit" "9 + key_weight t \<le> limit" "limit < 2 ^ 31"
  shows "\<exists>b' v. buildFromTree t (newBuilder limit) = (b', Inr v) \<and> represents v t"
  using buildFromTree_succeeds [OF assms(3,4,2)] buildFromTree_represents(1) [OF _ assms(1,5)] by blast

theorem tree_is_built_and_read_back_witness:
  "\<exists>b' v. buildFromTree (J_object [([98], J_array [J_bool True, J_number (Int_num 70000)]), ([97], J_string [233])])
     (newBuilder DEFAULT_SIZE_LIMIT) = (b', Inr v) \<and>
   represents v (J_object [([98], J_array [J_bool True, J_number (Int_num 70000)]), ([97], J_string [233])])"
  by (rule tree_is_built_and_read_back)
    (simp_all add: text_ok_def no_bom_def is_high_def is_low_def int_ok_def fits_def textEncode_def encode_point_def
      DEFAULT_SIZE_LIMIT_def)

text \<open>
  C19. No sequence of calls makes the value of a builder longer than its size limit: the header of a
  container is counted too, and a call that fails leaves the value within the limit.
\<close>

theorem value_never_exceeds_limit:
  assumes "reachable_builder limit b"
  shows "length (b_value b) \<le> limit"
  using reachable_inv [OF assms] by (auto simp: builder_inv_def builder_ok_def)

theorem value_never_exceeds_limit_witness:
  "length (b_value (fst (run_op Op_null (fst (run_op Op_start_array (newBuilder 3)))))) \<le> 3"
proof (rule value_never_exceeds_limit)
  show "reachable_builder 3 (fst (run_op Op_null (fst (run_op Op_start_array (newBuilder 3)))))"
    by (rule reachable_builder.step [OF reachable_builder.step [OF reachable_builder.new surjective_pairing] surjective_pairing])
qed

text \<open>
  C27. In every builder a program can reach, the open containers are nested: each starts where the
  next inner one or later begins, its offsets point into what was written in it, and the ids of its
  fields are ids of the dictionary, which maps every key to the place of its encoding.
\<close>

theorem open_containers_are_nested:
  assumes "reachable_builder limit b"
  shows "stack_ok (length (b_value b)) (length (b_dictionaryKeys b)) (b_stack b) \<and> dict_ok b"
  using reachable_inv [OF assms] by (simp add: builder_inv_def builder_ok_def)

theorem open_containers_are_nested_witness:
  "let b = fst (run_op (Op_key [97]) (fst (run_op Op_start_object (newBuilder 9))))
   in stack_ok (length (b_value b)) (length (b_dictionaryKeys b)) (b_stack b) \<and> dict_ok b"
  unfolding Let_def
proof (rule open_containers_are_nested)
  show "reachable_builder 9 (fst (run_op (Op_key [97]) (fst (run_op Op_start_object (newBuilder 9)))))"
    by (rule reachable_builder.step [OF reachable_builder.step [OF reachable_builder.new surjective_pairing] surjective_pairing])
qed

text \<open>
  C20. On an object with at most \<open>2 ^ 30\<close> fields sorted by the bytes of their keys, the binary search
  returns within as many iterations as there are fields, and it returns what the linear search
  returns, for a key that is present and for one that is not.
\<close>

theorem binary_search_is_linear_search:
  assumes "field_table v info n key" and "\<forall>i < n. well_formed (key i)" and "well_formed k"
  shows "binary_search n v info (textEncode k) 0 (int n - 1) = Some (linear_search v info k [0..<n])"
proof (cases "\<exists>j < n. key j = k")
  case True
  then obtain j where j: "j < n" "k = key j" by blast
  then show ?thesis
    using binary_search_found [OF assms(1) j(1), of 0 "int n - 1" n] linear_search_found [OF assms(1), of j "[0..<n]"]
    by (simp add: atLeast0LessThan)
next
  case False
  then have "\<forall>i < n. textEncode (key i) \<noteq> textEncode k" using textEncode_inj assms(2,3) by blast
  then show ?thesis
    using binary_search_absent [OF assms(1), of "textEncode k" 0 "int n - 1" n] linear_search_absent [OF assms(1), of k "[0..<n]"]
      False by (auto simp: atLeast0LessThan)
qed

text \<open>An object with the fields \<open>a\<close> and \<open>b\<close>, both null.\<close>

definition sample_names :: "ustring list" where
  "sample_names = [[97], [98]]"

definition sample_fields :: "field_entry list" where
  "sample_fields = sort_fields (map textEncode sample_names)
     [\<lparr>fe_key = [97], fe_id = 0, fe_offset = 0\<rparr>, \<lparr>fe_key = [98], fe_id = 1, fe_offset = 1\<rparr>]"

definition sample_object :: variant where
  "sample_object = view [] (object_header 2 sample_fields @ [0, 0]) []
     (metadata_bytes (integerSize 2) (map textEncode sample_names))"

lemma sample_table: "field_table sample_object (object_view_info [] 2 sample_fields) (length sample_fields) (\<lambda>i. sample_names ! fe_id (sample_fields ! i))"
  unfolding sample_object_def sample_fields_def
proof (rule field_table_view [where bss = "[[0], [0]]" and es = "[([97], J_null), ([98], J_null)]"])
  let ?md = "metadata_bytes (integerSize 2) (map textEncode sample_names)"
  have "getMetadataKey ?md i = Inr (sample_names ! i)" if i: "i < length sample_names" for i
  proof -
    have "getMetadataKey ?md i = Inr (textDecode (map textEncode sample_names ! i))"
      by (rule getMetadataKey_built) (use i in \<open>simp_all add: sample_names_def textEncode_def encode_point_def is_high_def is_low_def\<close>)
    moreover have "textDecode (textEncode (sample_names ! i)) = sample_names ! i"
      by (rule textDecode_textEncode) (use i in \<open>auto simp: sample_names_def less_Suc_eq is_high_def is_low_def no_bom_def\<close>)
    ultimately show ?thesis using i by simp
  qed
  then show "reads ?md sample_names"
    using metadata_bytes_ok [OF integerSize_bounds] by (simp add: reads_def) (simp add: sample_names_def)
qed (auto simp: collected_def sample_names_def less_Suc_eq is_high_def is_low_def)

lemma sample_length: "length sample_fields = 2"
  by (simp add: sample_fields_def sort_fields_def)

theorem binary_search_is_linear_search_witness:
  "binary_search 2 sample_object (object_view_info [] 2 sample_fields) (textEncode [98]) 0 (int 2 - 1) =
     Some (linear_search sample_object (object_view_info [] 2 sample_fields) [98] [0..<2])"
proof (rule binary_search_is_linear_search [OF sample_table [unfolded sample_length]])
  have "\<forall>f \<in> set sample_fields. well_formed (sample_names ! fe_id f)"
    by (auto simp: sample_fields_def sort_fields_def sample_names_def is_high_def is_low_def)
  then show "\<forall>i < 2. well_formed (sample_names ! fe_id (sample_fields ! i))"
    by (simp add: sample_length)
qed (simp add: is_high_def is_low_def)

text \<open>
  A text that begins with a byte order mark does not come back: the reader decodes with a decoder
  that removes the mark, so the string read is the string written without its first character.
\<close>

theorem leading_mark_is_lost:
  assumes "well_formed s" "no_bom s" "length (textEncode (0xFEFF # s)) \<le> MAX_SHORT_STR_SIZE"
  shows "getString (view pre (string_bytes (0xFEFF # s)) post md) = Inr s"
proof -
  have "code_points (0xFEFF # s) = 0xFEFF # code_points s" by (simp add: is_high_def is_low_def)
  moreover have wf: "well_formed (0xFEFF # s)" using assms(1) by (simp add: is_high_def is_low_def)
  ultimately have "textDecode (textEncode (0xFEFF # s)) = concat (map units_of (code_points s))"
    using decode_encode_points [of "code_points (0xFEFF # s)"] code_points_back [OF wf]
    unfolding textDecode_def unat_textEncode [OF wf] by (simp add: strip_bom_def del: code_points.simps)
  then show ?thesis
    using getString_short(2) [OF assms(3)] assms(3) code_points_back [OF assms(1)] by (simp add: string_bytes_def)
qed

theorem leading_mark_is_lost_witness:
  "getString (view [] (string_bytes [0xFEFF, 97]) [] []) = Inr [97]"
  by (rule leading_mark_is_lost)
    (simp_all add: is_high_def is_low_def no_bom_def textEncode_def encode_point_def MAX_SHORT_STR_SIZE_def)

end
