(* ===== verification/Rest_Service.thy ===== *)
theory Rest_Service
  imports Complex_Main Variant_Format
begin

text \<open>
  \<open>rest-service.ts\<close>, \<open>retry-helper.ts\<close>, \<open>rest-error.ts\<close> and \<open>oauth/\<close>: the REST service that tries the
  base URLs one after the other, the decision whether a failed request is retried, authentication,
  and the client that fetches access tokens with retries.

  The packages \<open>axios\<close> with \<open>axios-retry\<close> are a parameter \<open>send\<close>: what becomes of a request to a base URL
  with the given headers, after the retries. The world outside, which requests read and change, is
  \<open>'w\<close>.
\<close>

section \<open>Retrying\<close>

text \<open>\<open>rnd\<close> is the value of \<open>Math.random()\<close>.\<close>

definition fullJitter :: "rat \<Rightarrow> rat \<Rightarrow> rat \<Rightarrow> nat \<Rightarrow> rat" where
  "fullJitter rnd baseDelayMs maxDelayMs retriesAttempted = rnd * min maxDelayMs (baseDelayMs * 2 ^ retriesAttempted)"

definition isSuccess :: "int \<Rightarrow> bool" where
  "isSuccess statusCode \<longleftrightarrow> statusCode \<ge> 200 \<and> statusCode \<le> 299"

definition isRetriable :: "int \<Rightarrow> bool" where
  "isRetriable statusCode \<longleftrightarrow>
     statusCode = 408 \<or> statusCode = 429 \<or> statusCode = 500 \<or> statusCode = 502 \<or> statusCode = 503 \<or> statusCode = 504"

section \<open>Errors of a request\<close>

text \<open>The body of an error response: an object, with the two properties that are read, or anything else.\<close>

datatype error_body = Body_object "int option" "string option" | Body_other

record axios_error =
  ax_code :: "string option"
  ax_message :: string
  ax_response :: "(int \<times> error_body) option"

datatype request_error = Axios axios_error | Not_axios js_error

definition NON_RETRIABLE_AXIOS_CODES :: "string list" where
  "NON_RETRIABLE_AXIOS_CODES =
     [''ERR_CANCELED'', ''ERR_INVALID_URL'', ''ERR_BAD_OPTION'', ''ERR_BAD_OPTION_VALUE'', ''ERR_DEPRECATED'']"

definition retryCondition :: "request_error \<Rightarrow> bool" where
  "retryCondition error =
     (case error of
        Not_axios _ \<Rightarrow> False
      | Axios e \<Rightarrow>
          if (case ax_code e of Some code \<Rightarrow> code \<in> set NON_RETRIABLE_AXIOS_CODES | None \<Rightarrow> False) then False
          else case ax_response e of None \<Rightarrow> True | Some (status, data) \<Rightarrow> isRetriable status)"

definition UNKNOWN_ERROR_CODE :: int where "UNKNOWN_ERROR_CODE = -1"

text \<open>
  \<open>RestError\<close> carries the arguments of its constructor; the text \<open>; Error code: \<dots>\<close> that the constructor appends
  is part of \<open>err_message\<close>.
\<close>

definition newRestError :: "string \<Rightarrow> int \<Rightarrow> int \<Rightarrow> js_error" where
  "newRestError message status errorCode = RestError message status errorCode"

definition toRestError :: "axios_error \<Rightarrow> int \<times> error_body \<Rightarrow> js_error" where
  "toRestError error response =
     (let (status, data) = response
      in case data of
           Body_object (Some errorCode) (Some message) \<Rightarrow> newRestError message status errorCode
         | _ \<Rightarrow> newRestError (''Unknown error: '' @ ax_message error) status UNKNOWN_ERROR_CODE)"

definition thrown :: "request_error \<Rightarrow> js_error" where
  "thrown error =
     (case error of
        Not_axios e \<Rightarrow> e
      | Axios e \<Rightarrow>
          (case ax_response e of
             Some (status, data) \<Rightarrow> if \<not> isSuccess status then toRestError e (status, data) else AxiosError (ax_message e)
           | None \<Rightarrow> AxiosError (ax_message e)))"

section \<open>The service\<close>

datatype http_method = GET | POST | PUT | DELETE

text \<open>What a token provider offers; fetching a token may fail and may change the world.\<close>

record 'w token_provider =
  tp_getAccessToken :: "('w, string) meth"
  tp_tokenExpired :: "'w \<Rightarrow> bool"
  tp_additionalHeaders :: "(string, string) jsmap"

record 'w rest_service =
  svc_baseURLs :: "string list"
  svc_baseURL :: "string option"
  svc_headers :: "(string, string) jsmap"
  svc_bearerTokenProvider :: "'w token_provider option"
  svc_bearerTokenInitialized :: bool

type_synonym ('w, 'b) send =
  "string \<Rightarrow> (string, string) jsmap \<Rightarrow> string \<Rightarrow> http_method \<Rightarrow> 'b \<Rightarrow> 'w \<Rightarrow> 'w \<times> (request_error + 'b)"

definition setHeaders :: "(string, string) jsmap \<Rightarrow> 'w rest_service \<Rightarrow> 'w rest_service" where
  "setHeaders headers s = s\<lparr>svc_headers := fold (\<lambda>(k, v). jm_set k v) headers (svc_headers s)\<rparr>"

definition setAuth :: "string option \<Rightarrow> string option \<Rightarrow> 'w rest_service \<Rightarrow> 'w rest_service" where
  "setAuth basicAuth bearerToken s =
     (let s1 = (case basicAuth of
                  Some b \<Rightarrow> if b \<noteq> [] then s\<lparr>svc_headers := jm_set ''Authorization'' (''Basic '' @ b) (svc_headers s)\<rparr> else s
                | None \<Rightarrow> s)
      in case bearerToken of
           Some t \<Rightarrow> if t \<noteq> [] then s1\<lparr>svc_headers := jm_set ''Authorization'' (''Bearer '' @ t) (svc_headers s1)\<rparr> else s1
         | None \<Rightarrow> s1)"

definition setBaseURL :: "string \<Rightarrow> 'w rest_service \<Rightarrow> 'w rest_service" where
  "setBaseURL url s = s\<lparr>svc_baseURL := Some url\<rparr>"

definition setOAuthBearerToken :: "'w token_provider \<Rightarrow> ('w rest_service \<times> 'w, unit) meth" where
  "setOAuthBearerToken p = (\<lambda>(s, w).
     case tp_getAccessToken p w of
       (w', Inl e) \<Rightarrow> ((s, w'), Inl e)
     | (w', Inr bearerToken) \<Rightarrow> ((setAuth None (Some bearerToken) s, w'), Inr ()))"

text \<open>The loop over the base URLs that are left.\<close>

fun tryURLs :: "('w, 'b) send \<Rightarrow> string \<Rightarrow> http_method \<Rightarrow> 'b \<Rightarrow> string list \<Rightarrow> ('w rest_service \<times> 'w, 'b) meth" where
  "tryURLs send url verb data [] (s, w) = ((s, w), Inl (Error ''Internal HTTP retry error''))"
| "tryURLs send url verb data (u # us) (s, w) =
     (let s' = setBaseURL u s
      in case send u (svc_headers s') url verb data w of
           (w', Inr response) \<Rightarrow> ((s', w'), Inr response)
         | (w', Inl error) \<Rightarrow> if us = [] then ((s', w'), Inl (thrown error)) else tryURLs send url verb data us (s', w'))"

definition handleRequest :: "('w, 'b) send \<Rightarrow> string \<Rightarrow> http_method \<Rightarrow> 'b \<Rightarrow> ('w rest_service \<times> 'w, 'b) meth" where
  "handleRequest send url verb data =
     m_bind
       (\<lambda>(s, w).
          case svc_bearerTokenProvider s of
            Some p \<Rightarrow>
              if \<not> svc_bearerTokenInitialized s \<or> tp_tokenExpired p w
              then m_bind (setOAuthBearerToken p) (\<lambda>_ (s', w'). ((s'\<lparr>svc_bearerTokenInitialized := True\<rparr>, w'), Inr ())) (s, w)
              else ((s, w), Inr ())
          | None \<Rightarrow> ((s, w), Inr ()))
       (\<lambda>_ (s, w). tryURLs send url verb data (svc_baseURLs s) (s, w))"

section \<open>Authentication\<close>

record sasl_info =
  sasl_mechanism :: "string option"
  sasl_username :: string
  sasl_password :: string

record basic_auth =
  ba_credentialsSource :: string
  ba_userInfo :: "string option"
  ba_sasl :: "sasl_info option"

definition toBase64 :: "string \<Rightarrow> string" where
  "toBase64 str = base64Encode (textEncode (ascii str))"

definition absent :: "string option \<Rightarrow> bool" where
  "absent x \<longleftrightarrow> x = None \<or> x = Some []"

text \<open>\<open>url_user\<close> gives the user name and the password of a URL, \<open>None\<close> for a text that is no URL.\<close>

definition handleBasicAuth ::
    "(string \<Rightarrow> (string \<times> string) option) \<Rightarrow> basic_auth option \<Rightarrow> ('w rest_service, unit) meth" where
  "handleBasicAuth url_user creds s =
     (case creds of
        None \<Rightarrow> (s, Inr ())
      | Some c \<Rightarrow>
          if ba_credentialsSource c = ''USER_INFO''
          then if absent (ba_userInfo c) then (s, Inl (Error ''User info not provided''))
               else (setAuth (Some (toBase64 (the (ba_userInfo c)))) None s, Inr ())
          else if ba_credentialsSource c = ''SASL_INHERIT''
          then (case ba_sasl c of
                  None \<Rightarrow> (s, Inl (Error ''Sasl info not provided''))
                | Some sasl \<Rightarrow>
                    if (case sasl_mechanism sasl of Some mech \<Rightarrow> map upper_char mech = ''GSSAPI'' | None \<Rightarrow> False)
                    then (s, Inl (Error ''SASL_INHERIT support PLAIN and SCRAM SASL mechanisms only''))
                    else (setAuth (Some (toBase64 (sasl_username sasl @ '':'' @ sasl_password sasl))) None s, Inr ()))
          else if ba_credentialsSource c = ''URL''
          then if absent (ba_userInfo c) then (s, Inl (Error ''User info not provided''))
               else (case url_user (the (ba_userInfo c)) of
                       None \<Rightarrow> (s, Inl (TypeError ''Invalid URL''))
                     | Some (user, pw) \<Rightarrow> (setAuth (Some (toBase64 (user @ '':'' @ pw))) None s, Inr ()))
          else (s, Inl (Error ''Invalid basic auth credentials source'')))"

record bearer_auth =
  br_credentialsSource :: string
  br_token :: "string option"
  br_issuerEndpointUrl :: "string option"
  br_issuerEndpointQuery :: "string option"
  br_clientId :: "string option"
  br_clientSecret :: "string option"
  br_scope :: "string option"
  br_logicalCluster :: "string option"
  br_identityPoolId :: "string list"

definition no_cluster :: js_error where
  "no_cluster = Error ''Bearer auth header 'logicalCluster' not provided''"

definition handleBearerAuth ::
    "(string \<rightharpoonup> (bearer_auth \<Rightarrow> 'w token_provider result)) \<Rightarrow> bearer_auth option \<Rightarrow> ('w rest_service, unit) meth" where
  "handleBearerAuth builders creds s =
     (case creds of
        None \<Rightarrow> (s, Inr ())
      | Some c \<Rightarrow>
          (let s1 = s\<lparr>svc_headers := jm_delete ''Authorization'' (svc_headers s), svc_bearerTokenInitialized := False\<rparr>
           in if absent (br_logicalCluster c) then (s1, Inl no_cluster)
              else case builders (br_credentialsSource c) of
                     None \<Rightarrow> (s1, Inl (Error ''Invalid bearer auth credentials source''))
                   | Some bld \<Rightarrow>
                       (case bld c of
                          Inl e \<Rightarrow> (s1, Inl e)
                        | Inr p \<Rightarrow>
                            (setHeaders (tp_additionalHeaders p) (s1\<lparr>svc_bearerTokenProvider := Some p\<rparr>), Inr ()))))"

text \<open>The constructor, after the client of the package was created.\<close>

definition newRestService ::
    "string \<Rightarrow> (string \<Rightarrow> (string \<times> string) option) \<Rightarrow> (string \<rightharpoonup> (bearer_auth \<Rightarrow> 'w token_provider result))
     \<Rightarrow> string list \<Rightarrow> bool \<Rightarrow> basic_auth option \<Rightarrow> bearer_auth option \<Rightarrow> 'w rest_service \<times> unit result" where
  "newRestService version url_user builders urls isForward basic bearer =
     (let s0 = \<lparr>svc_baseURLs = urls, svc_baseURL = None, svc_headers = [], svc_bearerTokenProvider = None,
                svc_bearerTokenInitialized = False\<rparr>;
          s1 = (if isForward then setHeaders [(''X-Forward'', ''true'')] s0 else s0);
          s2 = setHeaders [(''Content-Type'', ''application/vnd.schemaregistry.v1+json'')] s1;
          s3 = setHeaders [(''Confluent-Accept-Unknown-Properties'', ''true'')] s2;
          s4 = setHeaders [(''Confluent-Client-Version'', ''javascript/'' @ version)] s3
      in m_bind (handleBasicAuth url_user basic) (\<lambda>_. handleBearerAuth builders bearer) s4)"

section \<open>Access tokens\<close>

text \<open>An error of \<open>fetchToken\<close>: of the package \<open>boom\<close> with a status, or any other; with its text.\<close>

datatype fetch_error = Boom int string | No_boom string

fun error_text :: "fetch_error \<Rightarrow> string" where
  "error_text (Boom status t) = t"
| "error_text (No_boom t) = t"

record oauth_client =
  oa_token :: "string option"
  oa_maxRetries :: nat

definition giveUp :: "fetch_error \<Rightarrow> js_error" where
  "giveUp error = Error (''Failed to get token from server: '' @ error_text error)"

definition tokenRetriable :: "fetch_error \<Rightarrow> bool" where
  "tokenRetriable error = (case error of Boom status t \<Rightarrow> isRetriable status | No_boom t \<Rightarrow> False)"

text \<open>
  The attempts from number \<open>i\<close> on, \<open>left\<close> of them; \<open>pause i\<close> is sleeping for the jittered time after
  attempt \<open>i\<close>.
\<close>

fun tokenAttempts ::
    "('w \<Rightarrow> 'w \<times> (fetch_error + string)) \<Rightarrow> (nat \<Rightarrow> 'w \<Rightarrow> 'w) \<Rightarrow> nat \<Rightarrow> nat \<Rightarrow> (oauth_client \<times> 'w, unit) meth" where
  "tokenAttempts fetch pause i 0 (c, w) = ((c, w), Inr ())"
| "tokenAttempts fetch pause i (Suc left) (c, w) =
     (case fetch w of
        (w', Inr token) \<Rightarrow> ((c\<lparr>oa_token := Some token\<rparr>, w'), Inr ())
      | (w', Inl error) \<Rightarrow>
          if i < oa_maxRetries c \<and> tokenRetriable error
          then tokenAttempts fetch pause (i + 1) left (c, pause i w')
          else ((c, w'), Inl (giveUp error)))"

definition generateAccessToken ::
    "('w \<Rightarrow> 'w \<times> (fetch_error + string)) \<Rightarrow> (nat \<Rightarrow> 'w \<Rightarrow> 'w) \<Rightarrow> (oauth_client \<times> 'w, unit) meth" where
  "generateAccessToken fetch pause = (\<lambda>(c, w). tokenAttempts fetch pause 0 (oa_maxRetries c + 1) (c, w))"

definition getAccessToken ::
    "('w \<Rightarrow> 'w \<times> (fetch_error + string)) \<Rightarrow> (nat \<Rightarrow> 'w \<Rightarrow> 'w) \<Rightarrow> ('w \<Rightarrow> bool) \<Rightarrow> (oauth_client \<times> 'w, string) meth" where
  "getAccessToken fetch pause expired = (\<lambda>(c, w).
     if oa_token c = None \<or> expired w
     then m_bind (generateAccessToken fetch pause) (\<lambda>_ (c', w').
            case oa_token c' of
              None \<Rightarrow> ((c', w'), Inl (Error ''token must be available here''))
            | Some t \<Rightarrow> ((c', w'), Inr t)) (c, w)
     else ((c, w), Inr (the (oa_token c))))"

text \<open>The headers a provider adds, and the checks of the builders before they build one.\<close>

definition additionalHeaders :: "bearer_auth \<Rightarrow> (string, string) jsmap" where
  "additionalHeaders c =
     (let hs = [(''target-sr-cluster'', the (br_logicalCluster c))];
          poolId = (case br_identityPoolId c of [] \<Rightarrow> [] | p # ps \<Rightarrow> p @ concat (map (\<lambda>q. '','' @ q) ps))
      in if poolId \<noteq> [] then jm_set ''Confluent-Identity-Pool-Id'' poolId hs else hs)"

definition validateCluster :: "bearer_auth \<Rightarrow> unit result" where
  "validateCluster c = res_guard (\<not> absent (br_logicalCluster c)) no_cluster"

definition validateStatic :: "bearer_auth \<Rightarrow> unit result" where
  "validateStatic c =
     res_bind (validateCluster c) (\<lambda>_. res_guard (\<not> absent (br_token c)) (Error ''Bearer token not provided''))"

definition staticTokenProvider :: "bearer_auth \<Rightarrow> 'w token_provider result" where
  "staticTokenProvider c =
     res_bind (validateStatic c) (\<lambda>_.
       Inr \<lparr>tp_getAccessToken = m_return (the (br_token c)), tp_tokenExpired = (\<lambda>w. False),
            tp_additionalHeaders = additionalHeaders c\<rparr>)"

definition validateOAuth :: "bearer_auth \<Rightarrow> unit result" where
  "validateOAuth c =
     res_bind (validateCluster c) (\<lambda>_.
       case find (\<lambda>(name, v). v = None)
              [(''clientId'', br_clientId c), (''clientSecret'', br_clientSecret c),
               (''issuerEndpointUrl'', br_issuerEndpointUrl c), (''scope'', br_scope c)] of
         Some (name, v) \<Rightarrow> Inl (Error (''OAuth credential '' @ [CHR 0x27] @ name @ [CHR 0x27] @ '' not provided''))
       | None \<Rightarrow> Inr ())"

definition validateAzure :: "bearer_auth \<Rightarrow> unit result" where
  "validateAzure c =
     res_bind (validateCluster c) (\<lambda>_.
       res_guard (\<not> (absent (br_issuerEndpointUrl c) \<and> absent (br_issuerEndpointQuery c)))
         (Error ''Missing required configuration property: issuerEndpointQuery''))"

section \<open>What a caller can rely on\<close>

text \<open>The world after the requests to the given base URLs have all failed; \<open>None\<close> if one did not.\<close>

fun all_fail ::
    "('w, 'b) send \<Rightarrow> (string, string) jsmap \<Rightarrow> string \<Rightarrow> http_method \<Rightarrow> 'b \<Rightarrow> string list \<Rightarrow> 'w \<Rightarrow> 'w option" where
  "all_fail send hdrs url verb data [] w = Some w"
| "all_fail send hdrs url verb data (u # us) w =
     (case send u hdrs url verb data w of (w', Inl e) \<Rightarrow> all_fail send hdrs url verb data us w' | (w', Inr r) \<Rightarrow> None)"

lemma tryURLs_after_failures:
  assumes "all_fail send (svc_headers s) url verb data us w = Some w'" "rest \<noteq> []"
  shows "\<exists>s'. tryURLs send url verb data (us @ rest) (s, w) = tryURLs send url verb data rest (s', w') \<and>
    svc_headers s' = svc_headers s \<and> (\<forall>u. setBaseURL u s' = setBaseURL u s)"
  using assms
proof (induction us arbitrary: s w)
  case Nil
  then show ?case by auto
next
  case (Cons u us)
  obtain w1 e where e: "send u (svc_headers s) url verb data w = (w1, Inl e)"
    and r: "all_fail send (svc_headers s) url verb data us w1 = Some w'"
    using Cons.prems(1) by (auto split: prod.splits sum.splits)
  from Cons.IH [of "setBaseURL u s" w1] r Cons.prems(2) e show ?case
    by (auto simp: setBaseURL_def Let_def)
qed

text \<open>The token is at hand: no provider, or a token that was fetched and has not expired.\<close>

definition token_ready :: "'w rest_service \<Rightarrow> 'w \<Rightarrow> bool" where
  "token_ready s w \<longleftrightarrow>
     (case svc_bearerTokenProvider s of None \<Rightarrow> True | Some p \<Rightarrow> svc_bearerTokenInitialized s \<and> \<not> tp_tokenExpired p w)"

lemma handleRequest_ready:
  "token_ready s w \<Longrightarrow> handleRequest send url verb data (s, w) = tryURLs send url verb data (svc_baseURLs s) (s, w)"
  by (auto simp: handleRequest_def m_bind_def token_ready_def split: option.splits)

text \<open>
  C26. A request is answered by the first base URL that answers: those before it were asked, in their
  order, those behind it are not.
\<close>

theorem first_url_that_answers:
  assumes "token_ready s w" "svc_baseURLs s = us @ u # rest"
    and "all_fail send (svc_headers s) url verb data us w = Some w1"
    and "send u (svc_headers s) url verb data w1 = (w2, Inr response)"
  shows "handleRequest send url verb data (s, w) = ((s\<lparr>svc_baseURL := Some u\<rparr>, w2), Inr response)"
proof -
  obtain s' where s': "tryURLs send url verb data (us @ u # rest) (s, w) = tryURLs send url verb data (u # rest) (s', w1)"
    "svc_headers s' = svc_headers s" "setBaseURL u s' = setBaseURL u s"
    using tryURLs_after_failures [OF assms(3), of "u # rest"] by auto
  then show ?thesis
    using handleRequest_ready [OF assms(1), of send url verb data] assms(2,4) by (auto simp: setBaseURL_def Let_def)
qed

definition sample_service :: "unit rest_service" where
  "sample_service = \<lparr>svc_baseURLs = [''a'', ''b'', ''c''], svc_baseURL = None, svc_headers = [],
     svc_bearerTokenProvider = None, svc_bearerTokenInitialized = False\<rparr>"

definition sample_send :: "(unit, string) send" where
  "sample_send u hdrs url verb data w =
     (if u = ''a'' then (w, Inl (Axios \<lparr>ax_code = None, ax_message = ''timeout'', ax_response = Some (503, Body_other)\<rparr>))
      else (w, Inr (u @ url)))"

theorem first_url_that_answers_witness:
  "handleRequest sample_send ''/x'' GET [] (sample_service, ()) = ((sample_service\<lparr>svc_baseURL := Some ''b''\<rparr>, ()), Inr ''b/x'')"
  by (rule first_url_that_answers [where us = "[''a'']" and rest = "[''c'']" and ?w1.0 = "()"])
    (simp_all add: token_ready_def sample_service_def sample_send_def)

text \<open>
  When no base URL answers, the request fails with the error of the last one, and if that was an
  error response, the caller gets a \<open>RestError\<close> with the status of the response, whatever its body is.
\<close>

theorem last_failure_is_reported:
  assumes "token_ready s w" "svc_baseURLs s = us @ [u]"
    and "all_fail send (svc_headers s) url verb data us w = Some w1"
    and "send u (svc_headers s) url verb data w1 = (w2, Inl error)"
  shows "handleRequest send url verb data (s, w) = ((s\<lparr>svc_baseURL := Some u\<rparr>, w2), Inl (thrown error)) \<and>
    (\<forall>e status body. error = Axios e \<and> ax_response e = Some (status, body) \<and> \<not> isSuccess status \<longrightarrow>
       (\<exists>message code. thrown error = RestError message status code))"
proof
  obtain s' where s': "tryURLs send url verb data (us @ [u]) (s, w) = tryURLs send url verb data [u] (s', w1)"
    "svc_headers s' = svc_headers s" "setBaseURL u s' = setBaseURL u s"
    using tryURLs_after_failures [OF assms(3), of "[u]"] by auto
  then show "handleRequest send url verb data (s, w) = ((s\<lparr>svc_baseURL := Some u\<rparr>, w2), Inl (thrown error))"
    using handleRequest_ready [OF assms(1), of send url verb data] assms(2,4) by (auto simp: setBaseURL_def Let_def)
  show "\<forall>e status body. error = Axios e \<and> ax_response e = Some (status, body) \<and> \<not> isSuccess status \<longrightarrow>
      (\<exists>message code. thrown error = RestError message status code)"
    by (auto simp: thrown_def toRestError_def newRestError_def split: error_body.splits option.splits)
qed

theorem last_failure_is_reported_witness:
  "let s = sample_service\<lparr>svc_baseURLs := [''a'']\<rparr>;
       error = Axios \<lparr>ax_code = None, ax_message = ''timeout'', ax_response = Some (503, Body_other)\<rparr>
   in handleRequest sample_send ''/x'' GET [] (s, ()) = ((s\<lparr>svc_baseURL := Some ''a''\<rparr>, ()), Inl (thrown error)) \<and>
      (\<forall>e status body. error = Axios e \<and> ax_response e = Some (status, body) \<and> \<not> isSuccess status \<longrightarrow>
         (\<exists>message code. thrown error = RestError message status code))"
  unfolding Let_def
  by (rule last_failure_is_reported [where us = "[]" and ?w1.0 = "()"])
    (simp_all add: token_ready_def sample_service_def sample_send_def)

text \<open>The world after \<open>k\<close> attempts from number \<open>i\<close> on that failed in a way that is retried.\<close>

fun retried :: "('w \<Rightarrow> 'w \<times> (fetch_error + string)) \<Rightarrow> (nat \<Rightarrow> 'w \<Rightarrow> 'w) \<Rightarrow> nat \<Rightarrow> nat \<Rightarrow> 'w \<Rightarrow> 'w option" where
  "retried fetch pause i 0 w = Some w"
| "retried fetch pause i (Suc k) w =
     (case fetch w of
        (w', Inl error) \<Rightarrow> if tokenRetriable error then retried fetch pause (i + 1) k (pause i w') else None
      | (w', Inr t) \<Rightarrow> None)"

lemma tokenAttempts_succeeds:
  assumes "retried fetch pause i k w = Some w1" "fetch w1 = (w2, Inr t)" "i + k \<le> oa_maxRetries c"
  shows "tokenAttempts fetch pause i (k + Suc m) (c, w) = ((c\<lparr>oa_token := Some t\<rparr>, w2), Inr ())"
  using assms
proof (induction k arbitrary: i w)
  case 0
  then show ?case by simp
next
  case (Suc k)
  then obtain w' e where e: "fetch w = (w', Inl e)" "tokenRetriable e"
    and r: "retried fetch pause (i + 1) k (pause i w') = Some w1"
    by (auto split: prod.splits sum.splits if_splits)
  have "tokenAttempts fetch pause (i + 1) (k + Suc m) (c, pause i w') = ((c\<lparr>oa_token := Some t\<rparr>, w2), Inr ())"
    using Suc.prems(2,3) by (intro Suc.IH [OF r]) simp_all
  then show ?case using e Suc.prems(3) by simp
qed

text \<open>
  Fetching a token succeeds as soon as one of the first \<open>maxRetries + 1\<close> attempts does, provided the
  failures before it were of the kind that is retried; the token is kept for later calls.
\<close>

theorem token_is_fetched:
  assumes "oa_token c = None \<or> expired w" "k \<le> oa_maxRetries c"
    and "retried fetch pause 0 k w = Some w1" "fetch w1 = (w2, Inr t)"
  shows "getAccessToken fetch pause expired (c, w) = ((c\<lparr>oa_token := Some t\<rparr>, w2), Inr t)"
proof -
  obtain m where m: "oa_maxRetries c + 1 = k + Suc m" using assms(2) by (metis add_Suc_right le_iff_add Suc_eq_plus1)
  have "generateAccessToken fetch pause (c, w) = ((c\<lparr>oa_token := Some t\<rparr>, w2), Inr ())"
    using tokenAttempts_succeeds [OF assms(3,4), of c m] assms(2) unfolding generateAccessToken_def m [symmetric] by simp
  then show ?thesis
    using assms(1) by (auto simp: getAccessToken_def m_bind_def)
qed

theorem token_is_fetched_witness:
  "getAccessToken (\<lambda>w :: nat. (w + 1, if w < 2 then Inl (Boom 503 ''busy'') else Inr ''tok'')) (\<lambda>i w. w) (\<lambda>w. False)
     (\<lparr>oa_token = None, oa_maxRetries = 2\<rparr>, 0) = ((\<lparr>oa_token = Some ''tok'', oa_maxRetries = 2\<rparr>, 3), Inr ''tok'')"
proof -
  let ?c = "\<lparr>oa_token = None, oa_maxRetries = 2\<rparr>"
  have "getAccessToken (\<lambda>w :: nat. (w + 1, if w < 2 then Inl (Boom 503 ''busy'') else Inr ''tok'')) (\<lambda>i w. w) (\<lambda>w. False)
     (?c, 0) = ((?c\<lparr>oa_token := Some ''tok''\<rparr>, 3), Inr ''tok'')"
    by (rule token_is_fetched [where k = 2 and ?w1.0 = 2]) (simp_all add: numeral_2_eq_2 tokenRetriable_def isRetriable_def)
  then show ?thesis by simp
qed

end
