(* ===== verification/Registry_Client.thy ===== *)
theory Registry_Client
  imports Client_Interface Lru_Cache Rest_Service
begin

text \<open>
  Class \<open>SchemaRegistryClient\<close> of \<open>schemaregistry-client.ts\<close>: the client that talks to a schema registry
  over REST and caches what it answers. The REST service is a parameter, \<open>handleRequest\<close> at the type of
  each response; so are the caches of \<open>lru-cache\<close> (what they keep) and the two functions on keys,
  \<open>stringify\<close> of \<open>json-stringify-deterministic\<close> and \<open>JSON.parse\<close> of its results.

  An operation runs from its start to its end here. The mutexes of the class serialise the
  operations on one cache in the same way. In \<open>deleteSubjectVersion\<close> the inner critical sections are
  not awaited; they only delete, and they are over when the response of the registry arrives.
\<close>

section \<open>Addresses\<close>

definition unreserved :: "char \<Rightarrow> bool" where
  "unreserved c \<longleftrightarrow>
     (let n = of_char c :: nat
      in (48 \<le> n \<and> n \<le> 57) \<or> (65 \<le> n \<and> n \<le> 90) \<or> (97 \<le> n \<and> n \<le> 122) \<or> c \<in> set ''-_.!~*()'' \<or> n = 39)"

definition hex_upper :: "nat \<Rightarrow> char" where
  "hex_upper d = ''0123456789ABCDEF'' ! d"

definition percent :: "byte \<Rightarrow> string" where
  "percent b = [CHR ''%'', hex_upper (unat b div 16), hex_upper (unat b mod 16)]"

definition encodeURIComponent :: "string \<Rightarrow> string" where
  "encodeURIComponent s =
     concat (map (\<lambda>c. if unreserved c then [c] else concat (map percent (textEncode [of_char c]))) s)"

definition bool_str :: "bool \<Rightarrow> string" where
  "bool_str b = (if b then ''true'' else ''false'')"

definition format_str :: "string \<Rightarrow> string option \<Rightarrow> string" where
  "format_str sep fmt = (case fmt of None \<Rightarrow> [] | Some f \<Rightarrow> sep @ ''format='' @ f)"

definition metadata_str :: "(string \<times> string) list \<Rightarrow> string" where
  "metadata_str m = concat (map (\<lambda>(k, v). ''&key='' @ encodeURIComponent k @ ''&value='' @ encodeURIComponent v) m)"

section \<open>State\<close>

datatype rest_body =
    No_body | Schema_body schema_info | Compatibility_body compatibility | Config_body server_config
  | Association_body association_request

datatype rest_request = Request string http_method rest_body

text \<open>\<open>restService.handleRequest\<close>, at each type of response.\<close>

record 'w rest_calls =
  call_info :: "rest_request \<Rightarrow> ('w, schema_info) meth"
  call_metadata :: "rest_request \<Rightarrow> ('w, schema_metadata) meth"
  call_versions :: "rest_request \<Rightarrow> ('w, int list) meth"
  call_version :: "rest_request \<Rightarrow> ('w, int) meth"
  call_subjects :: "rest_request \<Rightarrow> ('w, string list) meth"
  call_compatible :: "rest_request \<Rightarrow> ('w, bool) meth"
  call_level :: "rest_request \<Rightarrow> ('w, compatibility option \<times> compatibility option) meth"
  call_config :: "rest_request \<Rightarrow> ('w, server_config) meth"
  call_associations :: "rest_request \<Rightarrow> ('w, association list) meth"
  call_association :: "rest_request \<Rightarrow> ('w, association_response) meth"
  call_nothing :: "rest_request \<Rightarrow> ('w, unit) meth"

record 'k cache_keeps =
  keep_idToSchemaInfo :: "('k, schema_info) cache \<Rightarrow> ('k, schema_info) cache"
  keep_guidToSchemaInfo :: "(string, schema_info) cache \<Rightarrow> (string, schema_info) cache"
  keep_infoToSchema :: "('k, schema_metadata) cache \<Rightarrow> ('k, schema_metadata) cache"
  keep_latestToSchema :: "(string, schema_metadata) cache \<Rightarrow> (string, schema_metadata) cache"
  keep_schemaToVersion :: "('k, int) cache \<Rightarrow> ('k, int) cache"
  keep_versionToSchema :: "('k, schema_metadata) cache \<Rightarrow> ('k, schema_metadata) cache"
  keep_metadataToSchema :: "('k, schema_metadata) cache \<Rightarrow> ('k, schema_metadata) cache"

record ('k, 'w) registry_env =
  env_stringify :: "json_key \<Rightarrow> 'k"
  env_parse :: "'k \<Rightarrow> json_key"
  env_keeps :: "'k cache_keeps"
  env_rest :: "'w rest_calls"

record ('k, 'w) registry_client =
  rc_idToSchemaInfo :: "('k, schema_info) cache"
  rc_guidToSchemaInfo :: "(string, schema_info) cache"
  rc_infoToSchema :: "('k, schema_metadata) cache"
  rc_latestToSchema :: "(string, schema_metadata) cache"
  rc_schemaToVersion :: "('k, int) cache"
  rc_versionToSchema :: "('k, schema_metadata) cache"
  rc_metadataToSchema :: "('k, schema_metadata) cache"
  rc_world :: 'w

definition newRegistryClient :: "'w \<Rightarrow> ('k, 'w) registry_client" where
  "newRegistryClient w =
     \<lparr>rc_idToSchemaInfo = [], rc_guidToSchemaInfo = [], rc_infoToSchema = [], rc_latestToSchema = [],
      rc_schemaToVersion = [], rc_versionToSchema = [], rc_metadataToSchema = [], rc_world = w\<rparr>"

type_synonym ('k, 'w, 'a) rc_meth = "(('k, 'w) registry_client, 'a) meth"

definition on_rest :: "('w, 'a) meth \<Rightarrow> ('k, 'w, 'a) rc_meth" where
  "on_rest m c = (case m (rc_world c) of (w, r) \<Rightarrow> (c\<lparr>rc_world := w\<rparr>, r))"

text \<open>The subject of a parsed key.\<close>

fun parsed_subject :: "json_key \<Rightarrow> string option" where
  "parsed_subject (KSubjectSchema sub i) = Some sub"
| "parsed_subject (KSubjectSchemaDeleted sub i d) = Some sub"
| "parsed_subject (KSubjectId sub n) = Some sub"
| "parsed_subject (KSubjectVersion sub v d) = Some sub"
| "parsed_subject (KSubjectVersionOnly sub v) = Some sub"
| "parsed_subject (KSubjectMetadata sub m d) = Some sub"
| "parsed_subject (KSubject sub) = Some sub"
| "parsed_subject _ = None"

fun parsed_schema :: "json_key \<Rightarrow> schema_info option" where
  "parsed_schema (KSubjectSchema sub i) = Some i"
| "parsed_schema (KSubjectSchemaDeleted sub i d) = Some i"
| "parsed_schema (KSchema i) = Some i"
| "parsed_schema _ = None"

section \<open>Operations that read through a cache\<close>

definition registerFullResponse_rest ::
    "('k, 'w) registry_env \<Rightarrow> string \<Rightarrow> schema_info \<Rightarrow> bool \<Rightarrow> ('k, 'w, schema_metadata) rc_meth" where
  "registerFullResponse_rest env subject schema nz c =
     (let cacheKey = env_stringify env (KSubjectSchema subject (minimize schema));
          keep = keep_infoToSchema (env_keeps env)
      in case cache_get keep cacheKey (rc_infoToSchema c) of
           Some md \<Rightarrow> (c, Inr md)
         | None \<Rightarrow>
             m_bind (on_rest (call_metadata (env_rest env)
                 (Request (''/subjects/'' @ encodeURIComponent subject @ ''/versions?normalize='' @ bool_str nz) POST (Schema_body schema))))
               (\<lambda>md c'. (c'\<lparr>rc_infoToSchema := cache_set keep cacheKey md (rc_infoToSchema c')\<rparr>, Inr md)) c)"

definition register_rest ::
    "('k, 'w) registry_env \<Rightarrow> string \<Rightarrow> schema_info \<Rightarrow> bool \<Rightarrow> ('k, 'w, int option) rc_meth" where
  "register_rest env subject schema nz =
     m_bind (registerFullResponse_rest env subject schema nz) (\<lambda>md. m_return (sm_id md))"

definition getBySubjectAndId_rest ::
    "('k, 'w) registry_env \<Rightarrow> string \<Rightarrow> int \<Rightarrow> string option \<Rightarrow> ('k, 'w, schema_info) rc_meth" where
  "getBySubjectAndId_rest env subject i fmt c =
     (let cacheKey = env_stringify env (KSubjectId subject i);
          keep = keep_idToSchemaInfo (env_keeps env)
      in case cache_get keep cacheKey (rc_idToSchemaInfo c) of
           Some info \<Rightarrow> (c, Inr info)
         | None \<Rightarrow>
             m_bind (on_rest (call_info (env_rest env)
                 (Request (''/schemas/ids/'' @ int_str i @ ''?subject='' @ encodeURIComponent subject @ format_str ''&'' fmt) GET No_body)))
               (\<lambda>info c'. (c'\<lparr>rc_idToSchemaInfo := cache_set keep cacheKey info (rc_idToSchemaInfo c')\<rparr>, Inr info)) c)"

definition getByGuid_rest ::
    "('k, 'w) registry_env \<Rightarrow> string \<Rightarrow> string option \<Rightarrow> ('k, 'w, schema_info) rc_meth" where
  "getByGuid_rest env guid fmt c =
     (let keep = keep_guidToSchemaInfo (env_keeps env)
      in case cache_get keep guid (rc_guidToSchemaInfo c) of
           Some info \<Rightarrow> (c, Inr info)
         | None \<Rightarrow>
             m_bind (on_rest (call_info (env_rest env)
                 (Request (''/schemas/guids/'' @ guid @ format_str ''?'' fmt) GET No_body)))
               (\<lambda>info c'. (c'\<lparr>rc_guidToSchemaInfo := cache_set keep guid info (rc_guidToSchemaInfo c')\<rparr>, Inr info)) c)"

text \<open>A cached response without a valid version is looked up again.\<close>

definition getIdFullResponse_rest ::
    "('k, 'w) registry_env \<Rightarrow> string \<Rightarrow> schema_info \<Rightarrow> bool \<Rightarrow> ('k, 'w, schema_metadata) rc_meth" where
  "getIdFullResponse_rest env subject schema nz c =
     (let cacheKey = env_stringify env (KSubjectSchema subject (minimize schema));
          keep = keep_infoToSchema (env_keeps env);
          load = m_bind (on_rest (call_metadata (env_rest env)
                     (Request (''/subjects/'' @ encodeURIComponent subject @ ''?normalize='' @ bool_str nz) POST (Schema_body schema))))
                   (\<lambda>md c'. (c'\<lparr>rc_infoToSchema := cache_set keep cacheKey md (rc_infoToSchema c')\<rparr>, Inr md))
      in case cache_get keep cacheKey (rc_infoToSchema c) of
           Some md \<Rightarrow>
             (case sm_version md of
                Some v \<Rightarrow> if v > 0 then (c, Inr md) else load c
              | None \<Rightarrow> load c)
         | None \<Rightarrow> load c)"

definition getId_rest ::
    "('k, 'w) registry_env \<Rightarrow> string \<Rightarrow> schema_info \<Rightarrow> bool \<Rightarrow> ('k, 'w, int option) rc_meth" where
  "getId_rest env subject schema nz =
     m_bind (getIdFullResponse_rest env subject schema nz) (\<lambda>md. m_return (sm_id md))"

text \<open>The cache is read under the subject and written under the encoded subject.\<close>

definition getLatestSchemaMetadata_rest ::
    "('k, 'w) registry_env \<Rightarrow> string \<Rightarrow> string option \<Rightarrow> ('k, 'w, schema_metadata) rc_meth" where
  "getLatestSchemaMetadata_rest env subject fmt c =
     (let keep = keep_latestToSchema (env_keeps env)
      in case cache_get keep subject (rc_latestToSchema c) of
           Some md \<Rightarrow> (c, Inr md)
         | None \<Rightarrow>
             (let subject = encodeURIComponent subject
              in m_bind (on_rest (call_metadata (env_rest env)
                   (Request (''/subjects/'' @ subject @ ''/versions/latest'' @ format_str ''?'' fmt) GET No_body)))
                 (\<lambda>md c'. (c'\<lparr>rc_latestToSchema := cache_set keep subject md (rc_latestToSchema c')\<rparr>, Inr md)) c))"

definition getSchemaMetadata_rest ::
    "('k, 'w) registry_env \<Rightarrow> string \<Rightarrow> int \<Rightarrow> bool \<Rightarrow> string option \<Rightarrow> ('k, 'w, schema_metadata) rc_meth" where
  "getSchemaMetadata_rest env subject version deleted fmt c =
     (let cacheKey = env_stringify env (KSubjectVersion subject version deleted);
          keep = keep_versionToSchema (env_keeps env)
      in case cache_get keep cacheKey (rc_versionToSchema c) of
           Some md \<Rightarrow> (c, Inr md)
         | None \<Rightarrow>
             m_bind (on_rest (call_metadata (env_rest env)
                 (Request (''/subjects/'' @ encodeURIComponent subject @ ''/versions/'' @ int_str version @ ''?deleted='' @
                    bool_str deleted @ format_str ''&'' fmt) GET No_body)))
               (\<lambda>md c'. (c'\<lparr>rc_versionToSchema := cache_set keep cacheKey md (rc_versionToSchema c')\<rparr>, Inr md)) c)"

definition getLatestWithMetadata_rest ::
    "('k, 'w) registry_env \<Rightarrow> string \<Rightarrow> (string \<times> string) list \<Rightarrow> bool \<Rightarrow> string option \<Rightarrow> ('k, 'w, schema_metadata) rc_meth" where
  "getLatestWithMetadata_rest env subject meta deleted fmt c =
     (let cacheKey = env_stringify env (KSubjectMetadata subject meta deleted);
          keep = keep_metadataToSchema (env_keeps env)
      in case cache_get keep cacheKey (rc_metadataToSchema c) of
           Some md \<Rightarrow> (c, Inr md)
         | None \<Rightarrow>
             m_bind (on_rest (call_metadata (env_rest env)
                 (Request (''/subjects/'' @ encodeURIComponent subject @ ''/metadata?deleted='' @ bool_str deleted @ ''&'' @
                    metadata_str meta @ format_str ''&'' fmt) GET No_body)))
               (\<lambda>md c'. (c'\<lparr>rc_metadataToSchema := cache_set keep cacheKey md (rc_metadataToSchema c')\<rparr>, Inr md)) c)"

text \<open>Zero counts as absent in the cache; setting an undefined version deletes the key.\<close>

definition getVersion_rest ::
    "('k, 'w) registry_env \<Rightarrow> string \<Rightarrow> schema_info \<Rightarrow> bool \<Rightarrow> bool \<Rightarrow> ('k, 'w, int option) rc_meth" where
  "getVersion_rest env subject schema nz deleted c =
     (let cacheKey = env_stringify env (KSubjectSchemaDeleted subject (minimize schema) deleted);
          keep = keep_schemaToVersion (env_keeps env);
          load = m_bind (on_rest (call_metadata (env_rest env)
                     (Request (''/subjects/'' @ encodeURIComponent subject @ ''?normalize='' @ bool_str nz @ ''&deleted='' @
                        bool_str deleted) POST (Schema_body schema))))
                   (\<lambda>md c'. (c'\<lparr>rc_schemaToVersion :=
                        (case sm_version md of
                           Some v \<Rightarrow> cache_set keep cacheKey v (rc_schemaToVersion c')
                         | None \<Rightarrow> cache_delete keep cacheKey (rc_schemaToVersion c'))\<rparr>, Inr (sm_version md)))
      in case cache_get keep cacheKey (rc_schemaToVersion c) of
           Some v \<Rightarrow> if v \<noteq> 0 then (c, Inr (Some v)) else load c
         | None \<Rightarrow> load c)"

section \<open>Deleting\<close>

text \<open>\<open>forEach\<close> over what the cache still has, deleting the keys of the subject.\<close>

definition forget_subject ::
    "('k \<Rightarrow> json_key) \<Rightarrow> (('k, 'v) cache \<Rightarrow> ('k, 'v) cache) \<Rightarrow> string \<Rightarrow> ('k, 'v) cache \<Rightarrow> ('k, 'v) cache" where
  "forget_subject parse keep subject cache =
     fold (\<lambda>(k, v) m. if parsed_subject (parse k) = Some subject then jm_delete k m else m) (keep cache) (keep cache)"

definition deleteSubject_rest ::
    "('k, 'w) registry_env \<Rightarrow> string \<Rightarrow> bool \<Rightarrow> ('k, 'w, int list) rc_meth" where
  "deleteSubject_rest env subject permanent c =
     (let parse = env_parse env; keeps = env_keeps env;
          c1 = c\<lparr>rc_infoToSchema := forget_subject parse (keep_infoToSchema keeps) subject (rc_infoToSchema c)\<rparr>;
          c2 = c1\<lparr>rc_schemaToVersion := forget_subject parse (keep_schemaToVersion keeps) subject (rc_schemaToVersion c1)\<rparr>;
          c3 = c2\<lparr>rc_versionToSchema := forget_subject parse (keep_versionToSchema keeps) subject (rc_versionToSchema c2)\<rparr>;
          c4 = c3\<lparr>rc_idToSchemaInfo := forget_subject parse (keep_idToSchemaInfo keeps) subject (rc_idToSchemaInfo c3)\<rparr>
      in on_rest (call_versions (env_rest env)
           (Request (''/subjects/'' @ encodeURIComponent subject @ ''?permanent='' @ bool_str permanent) DELETE No_body)) c4)"

definition deleteCachedVersion ::
    "('k, 'w) registry_env \<Rightarrow> string \<Rightarrow> int \<Rightarrow> 'k \<times> int \<Rightarrow> ('k, 'w) registry_client \<Rightarrow> ('k, 'w) registry_client" where
  "deleteCachedVersion env subject version = (\<lambda>(key, val) c.
     if parsed_subject (env_parse env key) = Some subject \<and> val = version
     then let c1 = c\<lparr>rc_schemaToVersion := jm_delete key (rc_schemaToVersion c)\<rparr>
          in case parsed_schema (env_parse env key) of
               None \<Rightarrow> c1
             | Some schema \<Rightarrow>
                 (let infoKey = env_stringify env (KSubjectSchema subject (minimize schema));
                      keep = keep_infoToSchema (env_keeps env)
                  in case cache_get keep infoKey (rc_infoToSchema c1) of
                       None \<Rightarrow> c1
                     | Some md \<Rightarrow>
                         (let c2 = c1\<lparr>rc_infoToSchema := cache_delete keep infoKey (rc_infoToSchema c1)\<rparr>
                          in c2\<lparr>rc_idToSchemaInfo := cache_delete (keep_idToSchemaInfo (env_keeps env))
                               (env_stringify env (case sm_id md of Some i \<Rightarrow> KSubjectId subject i | None \<Rightarrow> KSubject subject))
                               (rc_idToSchemaInfo c2)\<rparr>))
     else c)"

definition deleteSubjectVersion_rest ::
    "('k, 'w) registry_env \<Rightarrow> string \<Rightarrow> int \<Rightarrow> bool \<Rightarrow> ('k, 'w, int) rc_meth" where
  "deleteSubjectVersion_rest env subject version permanent c =
     (let entries = keep_schemaToVersion (env_keeps env) (rc_schemaToVersion c);
          c1 = fold (deleteCachedVersion env subject version) entries (c\<lparr>rc_schemaToVersion := entries\<rparr>);
          cacheKey = env_stringify env (KSubjectVersionOnly subject version);
          c2 = c1\<lparr>rc_versionToSchema := cache_delete (keep_versionToSchema (env_keeps env)) cacheKey (rc_versionToSchema c1)\<rparr>
      in on_rest (call_version (env_rest env)
           (Request (''/subjects/'' @ encodeURIComponent subject @ ''/versions/'' @ int_str version @ ''?permanent='' @
              bool_str permanent) DELETE No_body)) c2)"

section \<open>Operations without a cache\<close>

definition getAllVersions_rest :: "('k, 'w) registry_env \<Rightarrow> string \<Rightarrow> ('k, 'w, int list) rc_meth" where
  "getAllVersions_rest env subject =
     on_rest (call_versions (env_rest env) (Request (''/subjects/'' @ subject @ ''/versions'') GET No_body))"

definition getAllSubjects_rest :: "('k, 'w) registry_env \<Rightarrow> ('k, 'w, string list) rc_meth" where
  "getAllSubjects_rest env = on_rest (call_subjects (env_rest env) (Request ''/subjects'' GET No_body))"

definition testSubjectCompatibility_rest :: "('k, 'w) registry_env \<Rightarrow> string \<Rightarrow> schema_info \<Rightarrow> ('k, 'w, bool) rc_meth" where
  "testSubjectCompatibility_rest env subject schema =
     on_rest (call_compatible (env_rest env)
       (Request (''/compatibility/subjects/'' @ encodeURIComponent subject @ ''/versions/latest'') POST (Schema_body schema)))"

definition testCompatibility_rest :: "('k, 'w) registry_env \<Rightarrow> string \<Rightarrow> int \<Rightarrow> schema_info \<Rightarrow> ('k, 'w, bool) rc_meth" where
  "testCompatibility_rest env subject version schema =
     on_rest (call_compatible (env_rest env)
       (Request (''/compatibility/subjects/'' @ encodeURIComponent subject @ ''/versions/'' @ int_str version) POST (Schema_body schema)))"

definition getCompatibility_rest :: "('k, 'w) registry_env \<Rightarrow> string \<Rightarrow> ('k, 'w, compatibility option) rc_meth" where
  "getCompatibility_rest env subject =
     m_bind (on_rest (call_level (env_rest env) (Request (''/config/'' @ encodeURIComponent subject) GET No_body)))
       (\<lambda>(compat, level). m_return level)"

definition updateCompatibility_rest :: "('k, 'w) registry_env \<Rightarrow> string \<Rightarrow> compatibility \<Rightarrow> ('k, 'w, compatibility option) rc_meth" where
  "updateCompatibility_rest env subject update =
     m_bind (on_rest (call_level (env_rest env)
         (Request (''/config/'' @ encodeURIComponent subject) PUT (Compatibility_body update))))
       (\<lambda>(compat, level). m_return compat)"

definition getDefaultCompatibility_rest :: "('k, 'w) registry_env \<Rightarrow> ('k, 'w, compatibility option) rc_meth" where
  "getDefaultCompatibility_rest env =
     m_bind (on_rest (call_level (env_rest env) (Request ''/config'' GET No_body))) (\<lambda>(compat, level). m_return level)"

definition updateDefaultCompatibility_rest :: "('k, 'w) registry_env \<Rightarrow> compatibility \<Rightarrow> ('k, 'w, compatibility option) rc_meth" where
  "updateDefaultCompatibility_rest env update =
     m_bind (on_rest (call_level (env_rest env) (Request ''/config'' PUT (Compatibility_body update))))
       (\<lambda>(compat, level). m_return compat)"

definition getConfig_rest :: "('k, 'w) registry_env \<Rightarrow> string \<Rightarrow> ('k, 'w, server_config) rc_meth" where
  "getConfig_rest env subject = on_rest (call_config (env_rest env) (Request (''/config/'' @ encodeURIComponent subject) GET No_body))"

definition updateConfig_rest :: "('k, 'w) registry_env \<Rightarrow> string \<Rightarrow> server_config \<Rightarrow> ('k, 'w, server_config) rc_meth" where
  "updateConfig_rest env subject update =
     on_rest (call_config (env_rest env) (Request (''/config/'' @ subject) PUT (Config_body update)))"

definition getDefaultConfig_rest :: "('k, 'w) registry_env \<Rightarrow> ('k, 'w, server_config) rc_meth" where
  "getDefaultConfig_rest env = on_rest (call_config (env_rest env) (Request ''/config'' GET No_body))"

definition updateDefaultConfig_rest :: "('k, 'w) registry_env \<Rightarrow> server_config \<Rightarrow> ('k, 'w, server_config) rc_meth" where
  "updateDefaultConfig_rest env update = on_rest (call_config (env_rest env) (Request ''/config'' PUT (Config_body update)))"

definition lifecycle_str :: "lifecycle_policy \<Rightarrow> string" where
  "lifecycle_str p = (case p of STRONG \<Rightarrow> ''STRONG'' | WEAK \<Rightarrow> ''WEAK'')"

fun join_query :: "string list \<Rightarrow> string" where
  "join_query [] = []"
| "join_query [q] = q"
| "join_query (q # r # qs) = q @ ''&'' @ join_query (r # qs)"

definition association_query ::
    "string option \<Rightarrow> string list \<Rightarrow> lifecycle_policy option \<Rightarrow> nat \<Rightarrow> int \<Rightarrow> string list" where
  "association_query resourceType associationTypes lifecycle offset limit =
     (case resourceType of Some t \<Rightarrow> [''resourceType='' @ encodeURIComponent t] | None \<Rightarrow> [])
     @ map (\<lambda>t. ''associationType='' @ encodeURIComponent t) associationTypes
     @ (case lifecycle of Some l \<Rightarrow> [''lifecycle='' @ encodeURIComponent (lifecycle_str l)] | None \<Rightarrow> [])
     @ (if offset > 0 then [''offset='' @ nat_str offset] else [])
     @ (if limit \<ge> 1 then [''limit='' @ int_str limit] else [])"

definition getAssociationsByResourceName_rest ::
    "('k, 'w) registry_env \<Rightarrow> string \<Rightarrow> string \<Rightarrow> string option \<Rightarrow> string list \<Rightarrow> lifecycle_policy option \<Rightarrow> nat \<Rightarrow> int
     \<Rightarrow> ('k, 'w, association list) rc_meth" where
  "getAssociationsByResourceName_rest env resourceName resourceNamespace resourceType associationTypes lifecycle offset limit =
     (let path = ''/associations/resources/'' @ encodeURIComponent resourceNamespace @ ''/'' @ encodeURIComponent resourceName;
          params = association_query resourceType associationTypes lifecycle offset limit
      in on_rest (call_associations (env_rest env)
           (Request (if params \<noteq> [] then path @ ''?'' @ join_query params else path) GET No_body)))"

definition createAssociation_rest ::
    "('k, 'w) registry_env \<Rightarrow> association_request \<Rightarrow> ('k, 'w, association_response) rc_meth" where
  "createAssociation_rest env request =
     on_rest (call_association (env_rest env) (Request ''/associations'' POST (Association_body request)))"

definition deleteAssociations_rest ::
    "('k, 'w) registry_env \<Rightarrow> string \<Rightarrow> string option \<Rightarrow> string list option \<Rightarrow> bool \<Rightarrow> ('k, 'w, unit) rc_meth" where
  "deleteAssociations_rest env resourceId resourceType associationTypes cascadeLifecycle =
     (let params = association_query resourceType (case associationTypes of Some ts \<Rightarrow> ts | None \<Rightarrow> []) None 0 0
                   @ [''cascadeLifecycle='' @ bool_str cascadeLifecycle]
      in on_rest (call_nothing (env_rest env)
           (Request (''/associations/resources/'' @ encodeURIComponent resourceId @ ''?'' @ join_query params) DELETE No_body)))"

section \<open>Clearing\<close>

definition clearLatestCaches_rest :: "('k, 'w) registry_client \<Rightarrow> ('k, 'w) registry_client" where
  "clearLatestCaches_rest c = c\<lparr>rc_latestToSchema := [], rc_metadataToSchema := []\<rparr>"

definition clearCaches_rest :: "('k, 'w) registry_client \<Rightarrow> ('k, 'w) registry_client" where
  "clearCaches_rest c =
     c\<lparr>rc_idToSchemaInfo := [], rc_guidToSchemaInfo := [], rc_infoToSchema := [], rc_latestToSchema := [],
       rc_schemaToVersion := [], rc_versionToSchema := [], rc_metadataToSchema := []\<rparr>"

definition close_rest :: "('k, 'w) registry_client \<Rightarrow> ('k, 'w) registry_client" where
  "close_rest c = clearCaches_rest c"

section \<open>Access to the caches for tests\<close>

definition addToInfoToSchemaCache ::
    "('k, 'w) registry_env \<Rightarrow> string \<Rightarrow> schema_info \<Rightarrow> schema_metadata \<Rightarrow> ('k, 'w) registry_client \<Rightarrow> ('k, 'w) registry_client" where
  "addToInfoToSchemaCache env subject schema metadata c =
     c\<lparr>rc_infoToSchema := cache_set (keep_infoToSchema (env_keeps env))
         (env_stringify env (KSubjectSchema subject (minimize schema))) metadata (rc_infoToSchema c)\<rparr>"

text \<open>This key has no \<open>deleted\<close>, unlike the keys \<open>getVersion\<close> uses; the next one likewise.\<close>

definition addToSchemaToVersionCache ::
    "('k, 'w) registry_env \<Rightarrow> string \<Rightarrow> schema_info \<Rightarrow> int \<Rightarrow> ('k, 'w) registry_client \<Rightarrow> ('k, 'w) registry_client" where
  "addToSchemaToVersionCache env subject schema version c =
     c\<lparr>rc_schemaToVersion := cache_set (keep_schemaToVersion (env_keeps env))
         (env_stringify env (KSubjectSchema subject (minimize schema))) version (rc_schemaToVersion c)\<rparr>"

definition addToVersionToSchemaCache ::
    "('k, 'w) registry_env \<Rightarrow> string \<Rightarrow> int \<Rightarrow> schema_metadata \<Rightarrow> ('k, 'w) registry_client \<Rightarrow> ('k, 'w) registry_client" where
  "addToVersionToSchemaCache env subject version metadata c =
     c\<lparr>rc_versionToSchema := cache_set (keep_versionToSchema (env_keeps env))
         (env_stringify env (KSubjectVersionOnly subject version)) metadata (rc_versionToSchema c)\<rparr>"

definition addToIdToSchemaInfoCache ::
    "('k, 'w) registry_env \<Rightarrow> string \<Rightarrow> int \<Rightarrow> schema_info \<Rightarrow> ('k, 'w) registry_client \<Rightarrow> ('k, 'w) registry_client" where
  "addToIdToSchemaInfoCache env subject i schema c =
     c\<lparr>rc_idToSchemaInfo := cache_set (keep_idToSchemaInfo (env_keeps env))
         (env_stringify env (KSubjectId subject i)) schema (rc_idToSchemaInfo c)\<rparr>"

definition addToGuidToSchemaInfoCache ::
    "('k, 'w) registry_env \<Rightarrow> string \<Rightarrow> schema_info \<Rightarrow> ('k, 'w) registry_client \<Rightarrow> ('k, 'w) registry_client" where
  "addToGuidToSchemaInfoCache env guid schema c =
     c\<lparr>rc_guidToSchemaInfo := cache_set (keep_guidToSchemaInfo (env_keeps env)) guid schema (rc_guidToSchemaInfo c)\<rparr>"

text \<open>\<open>newClient\<close>: which client the first base URL asks for.\<close>

datatype client_kind = Mock_kind | Registry_kind

definition newClient :: "string list \<Rightarrow> client_kind result" where
  "newClient baseURLs =
     (case baseURLs of
        [] \<Rightarrow> Inl (TypeError [])
      | url # _ \<Rightarrow> if take 7 url = ''mock://'' then Inr Mock_kind else Inr Registry_kind)"

section \<open>The client\<close>

definition RegistryClient :: "('k, 'w) registry_env \<Rightarrow> ('k, 'w) registry_client client" where
  "RegistryClient env =
     \<lparr>cl_registerFullResponse = registerFullResponse_rest env, cl_getBySubjectAndId = getBySubjectAndId_rest env,
      cl_getByGuid = getByGuid_rest env, cl_getIdFullResponse = getIdFullResponse_rest env,
      cl_getLatestSchemaMetadata = getLatestSchemaMetadata_rest env, cl_getSchemaMetadata = getSchemaMetadata_rest env,
      cl_getLatestWithMetadata = getLatestWithMetadata_rest env,
      cl_getVersion = (\<lambda>subject schema nz deleted. m_bind (getVersion_rest env subject schema nz deleted)
        (\<lambda>v. m_return (case v of Some n \<Rightarrow> n | None \<Rightarrow> 0))),
      cl_getAssociationsByResourceName = getAssociationsByResourceName_rest env\<rparr>"

end
