(* ===== verification/Registry_Lookups.thy ===== *)
theory Registry_Lookups
  imports Registry_Client
begin

text \<open>
  What the caches of the REST client do to its callers: lookups give what the registry would answer,
  deleting a subject forgets it, and where the keys of the caches fall short of that.
\<close>

section \<open>Reading through one of the caches\<close>

text \<open>
  A cache inside a client: it can be read and replaced, and replacing it touches neither the other
  end of the connection nor anything else.
\<close>

locale client_cache =
  fixes get_cache :: "('k, 'w) registry_client \<Rightarrow> ('q, 'v) cache"
    and put_cache :: "('q, 'v) cache \<Rightarrow> ('k, 'w) registry_client \<Rightarrow> ('k, 'w) registry_client"
  assumes get_put: "get_cache (put_cache m c) = m"
    and put_world: "rc_world (put_cache m c) = rc_world c"
    and world_get: "get_cache (c\<lparr>rc_world := w\<rparr>) = get_cache c"
begin

definition through ::
    "(('q, 'v) cache \<Rightarrow> ('q, 'v) cache) \<Rightarrow> 'q \<Rightarrow> 'q \<Rightarrow> ('w, 'v) meth \<Rightarrow> ('k, 'w, 'v) rc_meth" where
  "through keep rkey wkey load c =
     (case cache_get keep rkey (get_cache c) of
        Some v \<Rightarrow> (c, Inr v)
      | None \<Rightarrow> m_bind (on_rest load) (\<lambda>v c'. (put_cache (cache_set keep wkey v (get_cache c')) c', Inr v)) c)"

text \<open>
  A cache whose entries are what loading gives answers what loading gives. Either the client is
  as before or it has the loaded entry in addition.
\<close>

lemma through_transparent:
  assumes keep: "keeps_entries keep" and pure: "fst (load (rc_world c)) = rc_world c"
    and ok: "cache_ok P (get_cache c)"
    and hit: "\<And>v. P k v \<Longrightarrow> load (rc_world c) = (rc_world c, Inr v)"
    and new: "\<And>v. load (rc_world c) = (rc_world c, Inr v) \<Longrightarrow> P k v"
  shows "\<exists>c'. through keep k k load c = (c', snd (load (rc_world c))) \<and>
    (c' = c \<or> (\<exists>m. c' = put_cache m c \<and> cache_ok P m))"
proof (cases "cache_get keep k (get_cache c)")
  case (Some v)
  with hit [OF cache_ok_get [OF keep ok]] show ?thesis by (auto simp: through_def)
next
  case None
  obtain r where r: "load (rc_world c) = (rc_world c, r)" using pure by (cases "load (rc_world c)") simp
  show ?thesis
  proof (cases r)
    case (Inl e)
    with None r show ?thesis by (simp add: through_def m_bind_def on_rest_def)
  next
    case (Inr v)
    with cache_ok_set [OF keep ok new] None r show ?thesis
      by (auto simp: through_def m_bind_def on_rest_def)
  qed
qed

text \<open>What is still in the cache is not asked for again.\<close>

lemma through_hit: "cache_get keep k (get_cache c) = Some v \<Longrightarrow> through keep k k' load c = (c, Inr v)"
  by (simp add: through_def)

end

interpretation id_cache: client_cache rc_idToSchemaInfo "\<lambda>m c. c\<lparr>rc_idToSchemaInfo := m\<rparr>"
  by unfold_locales simp_all

interpretation guid_cache: client_cache rc_guidToSchemaInfo "\<lambda>m c. c\<lparr>rc_guidToSchemaInfo := m\<rparr>"
  by unfold_locales simp_all

interpretation latest_cache: client_cache rc_latestToSchema "\<lambda>m c. c\<lparr>rc_latestToSchema := m\<rparr>"
  by unfold_locales simp_all

interpretation version_cache: client_cache rc_versionToSchema "\<lambda>m c. c\<lparr>rc_versionToSchema := m\<rparr>"
  by unfold_locales simp_all

interpretation metadata_cache: client_cache rc_metadataToSchema "\<lambda>m c. c\<lparr>rc_metadataToSchema := m\<rparr>"
  by unfold_locales simp_all

section \<open>Sequences of lookups\<close>

datatype lookup =
    By_id string int | By_guid string | By_latest string | By_version string int bool
  | By_metadata string "(string \<times> string) list" bool

text \<open>The lookups of the client, with one format.\<close>

fun lookup_client ::
    "('k, 'w) registry_env \<Rightarrow> string option \<Rightarrow> lookup \<Rightarrow> ('k, 'w, schema_info + schema_metadata) rc_meth" where
  "lookup_client env fmt (By_id sub i) = m_bind (getBySubjectAndId_rest env sub i fmt) (\<lambda>x. m_return (Inl x))"
| "lookup_client env fmt (By_guid g) = m_bind (getByGuid_rest env g fmt) (\<lambda>x. m_return (Inl x))"
| "lookup_client env fmt (By_latest sub) = m_bind (getLatestSchemaMetadata_rest env sub fmt) (\<lambda>x. m_return (Inr x))"
| "lookup_client env fmt (By_version sub v d) = m_bind (getSchemaMetadata_rest env sub v d fmt) (\<lambda>x. m_return (Inr x))"
| "lookup_client env fmt (By_metadata sub md d) = m_bind (getLatestWithMetadata_rest env sub md d fmt) (\<lambda>x. m_return (Inr x))"

text \<open>The same lookups put to the registry, with no cache between.\<close>

fun lookup_url :: "string option \<Rightarrow> lookup \<Rightarrow> string" where
  "lookup_url fmt (By_id sub i) = ''/schemas/ids/'' @ int_str i @ ''?subject='' @ encodeURIComponent sub @ format_str ''&'' fmt"
| "lookup_url fmt (By_guid g) = ''/schemas/guids/'' @ g @ format_str ''?'' fmt"
| "lookup_url fmt (By_latest sub) = ''/subjects/'' @ encodeURIComponent sub @ ''/versions/latest'' @ format_str ''?'' fmt"
| "lookup_url fmt (By_version sub v d) =
     ''/subjects/'' @ encodeURIComponent sub @ ''/versions/'' @ int_str v @ ''?deleted='' @ bool_str d @ format_str ''&'' fmt"
| "lookup_url fmt (By_metadata sub md d) =
     ''/subjects/'' @ encodeURIComponent sub @ ''/metadata?deleted='' @ bool_str d @ ''&'' @ metadata_str md @ format_str ''&'' fmt"

fun lookup_direct :: "'w rest_calls \<Rightarrow> string option \<Rightarrow> lookup \<Rightarrow> ('w, schema_info + schema_metadata) meth" where
  "lookup_direct rest fmt (By_id sub i) = m_bind (call_info rest (Request (lookup_url fmt (By_id sub i)) GET No_body)) (\<lambda>x. m_return (Inl x))"
| "lookup_direct rest fmt (By_guid g) = m_bind (call_info rest (Request (lookup_url fmt (By_guid g)) GET No_body)) (\<lambda>x. m_return (Inl x))"
| "lookup_direct rest fmt l = m_bind (call_metadata rest (Request (lookup_url fmt l) GET No_body)) (\<lambda>x. m_return (Inr x))"

text \<open>One lookup after the other, errors included.\<close>

fun lookup_all ::
    "('k, 'w) registry_env \<Rightarrow> string option \<Rightarrow> lookup list \<Rightarrow> ('k, 'w) registry_client
     \<Rightarrow> ('k, 'w) registry_client \<times> (schema_info + schema_metadata) result list" where
  "lookup_all env fmt [] c = (c, [])"
| "lookup_all env fmt (l # ls) c =
     (case lookup_client env fmt l c of (c1, r) \<Rightarrow> (case lookup_all env fmt ls c1 of (c2, rs) \<Rightarrow> (c2, r # rs)))"

text \<open>The keys a lookup stringifies; the subjects whose latest schema is looked up.\<close>

fun lookup_keys :: "lookup \<Rightarrow> json_key list" where
  "lookup_keys (By_id sub i) = [KSubjectId sub i]"
| "lookup_keys (By_version sub v d) = [KSubjectVersion sub v d]"
| "lookup_keys (By_metadata sub md d) = [KSubjectMetadata sub md d]"
| "lookup_keys _ = []"

fun plain_latest :: "lookup \<Rightarrow> bool" where
  "plain_latest (By_latest sub) = (encodeURIComponent sub = sub)"
| "plain_latest _ = True"


section \<open>The caches agree with the registry\<close>

text \<open>The part of a cache key that differs from one lookup to another, and the request behind it.\<close>

definition info_entry :: "'w rest_calls \<Rightarrow> string option \<Rightarrow> 'w \<Rightarrow> lookup \<Rightarrow> schema_info \<Rightarrow> bool" where
  "info_entry rest fmt w l v \<longleftrightarrow> call_info rest (Request (lookup_url fmt l) GET No_body) w = (w, Inr v)"

definition metadata_entry :: "'w rest_calls \<Rightarrow> string option \<Rightarrow> 'w \<Rightarrow> lookup \<Rightarrow> schema_metadata \<Rightarrow> bool" where
  "metadata_entry rest fmt w l v \<longleftrightarrow> call_metadata rest (Request (lookup_url fmt l) GET No_body) w = (w, Inr v)"

definition id_ok :: "('k, 'w) registry_env \<Rightarrow> string option \<Rightarrow> 'w \<Rightarrow> lookup set \<Rightarrow> 'k \<Rightarrow> schema_info \<Rightarrow> bool" where
  "id_ok env fmt w L k v \<longleftrightarrow> (\<exists>sub i. By_id sub i \<in> L \<and> k = env_stringify env (KSubjectId sub i) \<and>
     info_entry (env_rest env) fmt w (By_id sub i) v)"

definition version_ok :: "('k, 'w) registry_env \<Rightarrow> string option \<Rightarrow> 'w \<Rightarrow> lookup set \<Rightarrow> 'k \<Rightarrow> schema_metadata \<Rightarrow> bool" where
  "version_ok env fmt w L k v \<longleftrightarrow> (\<exists>sub n d. By_version sub n d \<in> L \<and> k = env_stringify env (KSubjectVersion sub n d) \<and>
     metadata_entry (env_rest env) fmt w (By_version sub n d) v)"

definition metadata_ok :: "('k, 'w) registry_env \<Rightarrow> string option \<Rightarrow> 'w \<Rightarrow> lookup set \<Rightarrow> 'k \<Rightarrow> schema_metadata \<Rightarrow> bool" where
  "metadata_ok env fmt w L k v \<longleftrightarrow> (\<exists>sub md d. By_metadata sub md d \<in> L \<and> k = env_stringify env (KSubjectMetadata sub md d) \<and>
     metadata_entry (env_rest env) fmt w (By_metadata sub md d) v)"

definition client_agrees ::
    "('k, 'w) registry_env \<Rightarrow> string option \<Rightarrow> 'w \<Rightarrow> lookup set \<Rightarrow> ('k, 'w) registry_client \<Rightarrow> bool" where
  "client_agrees env fmt w L c \<longleftrightarrow>
     rc_world c = w \<and>
     cache_ok (id_ok env fmt w L) (rc_idToSchemaInfo c) \<and>
     cache_ok (\<lambda>k. info_entry (env_rest env) fmt w (By_guid k)) (rc_guidToSchemaInfo c) \<and>
     cache_ok (\<lambda>k. metadata_entry (env_rest env) fmt w (By_latest k)) (rc_latestToSchema c) \<and>
     cache_ok (version_ok env fmt w L) (rc_versionToSchema c) \<and>
     cache_ok (metadata_ok env fmt w L) (rc_metadataToSchema c)"

definition keeps_all :: "('k, 'w) registry_env \<Rightarrow> bool" where
  "keeps_all env \<longleftrightarrow>
     keeps_entries (keep_idToSchemaInfo (env_keeps env)) \<and> keeps_entries (keep_guidToSchemaInfo (env_keeps env)) \<and>
     keeps_entries (keep_latestToSchema (env_keeps env)) \<and> keeps_entries (keep_versionToSchema (env_keeps env)) \<and>
     keeps_entries (keep_metadataToSchema (env_keeps env))"

text \<open>A lookup does not change the registry.\<close>

definition lookups_pure :: "'w rest_calls \<Rightarrow> 'w \<Rightarrow> bool" where
  "lookups_pure rest w \<longleftrightarrow>
     (\<forall>url. fst (call_info rest (Request url GET No_body) w) = w \<and> fst (call_metadata rest (Request url GET No_body) w) = w)"

definition keys_of :: "lookup set \<Rightarrow> json_key set" where
  "keys_of L = (\<Union>l\<in>L. set (lookup_keys l))"

lemma keys_of_I: "l \<in> L \<Longrightarrow> k \<in> set (lookup_keys l) \<Longrightarrow> k \<in> keys_of L"
  by (auto simp: keys_of_def)

text \<open>Every lookup reads through its cache.\<close>

lemma by_id_through:
  "getBySubjectAndId_rest env sub i fmt =
     id_cache.through (keep_idToSchemaInfo (env_keeps env)) (env_stringify env (KSubjectId sub i)) (env_stringify env (KSubjectId sub i))
       (call_info (env_rest env) (Request (lookup_url fmt (By_id sub i)) GET No_body))"
  by (rule ext) (simp only: getBySubjectAndId_rest_def id_cache.through_def Let_def lookup_url.simps)

lemma by_guid_through:
  "getByGuid_rest env g fmt =
     guid_cache.through (keep_guidToSchemaInfo (env_keeps env)) g g
       (call_info (env_rest env) (Request (lookup_url fmt (By_guid g)) GET No_body))"
  by (rule ext) (simp only: getByGuid_rest_def guid_cache.through_def Let_def lookup_url.simps)

lemma by_latest_through:
  "getLatestSchemaMetadata_rest env sub fmt =
     latest_cache.through (keep_latestToSchema (env_keeps env)) sub (encodeURIComponent sub)
       (call_metadata (env_rest env) (Request (lookup_url fmt (By_latest sub)) GET No_body))"
  by (rule ext) (simp only: getLatestSchemaMetadata_rest_def latest_cache.through_def Let_def lookup_url.simps)

lemma by_version_through:
  "getSchemaMetadata_rest env sub v d fmt =
     version_cache.through (keep_versionToSchema (env_keeps env)) (env_stringify env (KSubjectVersion sub v d))
       (env_stringify env (KSubjectVersion sub v d))
       (call_metadata (env_rest env) (Request (lookup_url fmt (By_version sub v d)) GET No_body))"
  by (rule ext) (simp only: getSchemaMetadata_rest_def version_cache.through_def Let_def lookup_url.simps)

lemma by_metadata_through:
  "getLatestWithMetadata_rest env sub md d fmt =
     metadata_cache.through (keep_metadataToSchema (env_keeps env)) (env_stringify env (KSubjectMetadata sub md d))
       (env_stringify env (KSubjectMetadata sub md d))
       (call_metadata (env_rest env) (Request (lookup_url fmt (By_metadata sub md d)) GET No_body))"
  by (rule ext) (simp only: getLatestWithMetadata_rest_def metadata_cache.through_def Let_def lookup_url.simps)

lemma m_bind_result:
  "m c = (c', r) \<Longrightarrow> m_bind m (\<lambda>x. m_return (f x)) c = (c', map_sum id f r)"
  by (cases r) (simp_all add: m_bind_def)

lemma transparent_bind:
  assumes "\<exists>c'. m c = (c', snd (n w)) \<and> A c'"
  shows "\<exists>c'. m_bind m (\<lambda>x. m_return (f x)) c = (c', snd (m_bind n (\<lambda>x. m_return (f x)) w)) \<and> A c'"
proof -
  from assms obtain c' where c': "m c = (c', snd (n w))" "A c'" by blast
  have "snd (m_bind n (\<lambda>x. m_return (f x)) w) = map_sum id f (snd (n w))"
    using m_bind_result [of n w "fst (n w)" "snd (n w)" f] by simp
  with c' m_bind_result [of m c c' _ f, OF c'(1)] show ?thesis by auto
qed

definition lookup_setting :: "('k, 'w) registry_env \<Rightarrow> 'w \<Rightarrow> lookup set \<Rightarrow> bool" where
  "lookup_setting env w L \<longleftrightarrow>
     keeps_all env \<and> lookups_pure (env_rest env) w \<and> inj_on (env_stringify env) (keys_of L)"

lemma setting_unique:
  assumes "lookup_setting env w L" "env_stringify env k = env_stringify env k'"
    and "m \<in> L" "k \<in> set (lookup_keys m)" "n \<in> L" "k' \<in> set (lookup_keys n)"
  shows "k = k'"
  using assms by (auto simp: lookup_setting_def intro: inj_onD keys_of_I)

lemma setting_pure:
  assumes "lookup_setting env w L" "client_agrees env fmt w L c"
  shows "fst (call_info (env_rest env) (Request url GET No_body) (rc_world c)) = rc_world c"
    and "fst (call_metadata (env_rest env) (Request url GET No_body) (rc_world c)) = rc_world c"
  using assms by (simp_all add: lookup_setting_def lookups_pure_def client_agrees_def)

lemma agrees_world: "client_agrees env fmt w L c \<Longrightarrow> rc_world c = w"
  by (simp add: client_agrees_def)

lemma by_id_transparent:
  assumes "lookup_setting env w L" "client_agrees env fmt w L c" "By_id sub i \<in> L"
  shows "\<exists>c'. getBySubjectAndId_rest env sub i fmt c =
      (c', snd (call_info (env_rest env) (Request (lookup_url fmt (By_id sub i)) GET No_body) w)) \<and> client_agrees env fmt w L c'"
proof -
  have "id_ok env fmt w L (env_stringify env (KSubjectId sub i)) v \<longleftrightarrow> info_entry (env_rest env) fmt w (By_id sub i) v" for v
    using assms(3) setting_unique [OF assms(1)] by (fastforce simp: id_ok_def)
  then show ?thesis
    using id_cache.through_transparent [where P = "id_ok env fmt w L" and k = "env_stringify env (KSubjectId sub i)" and
        c = c and keep = "keep_idToSchemaInfo (env_keeps env)" and
        load = "call_info (env_rest env) (Request (lookup_url fmt (By_id sub i)) GET No_body)"]
      setting_pure(1) [OF assms(1,2)] assms(1,2)
    unfolding by_id_through by (fastforce simp: client_agrees_def lookup_setting_def keeps_all_def info_entry_def)
qed

lemma by_guid_transparent:
  assumes "lookup_setting env w L" "client_agrees env fmt w L c"
  shows "\<exists>c'. getByGuid_rest env g fmt c =
      (c', snd (call_info (env_rest env) (Request (lookup_url fmt (By_guid g)) GET No_body) w)) \<and> client_agrees env fmt w L c'"
  using guid_cache.through_transparent [where P = "\<lambda>k. info_entry (env_rest env) fmt w (By_guid k)" and k = g and
      c = c and keep = "keep_guidToSchemaInfo (env_keeps env)" and
      load = "call_info (env_rest env) (Request (lookup_url fmt (By_guid g)) GET No_body)"]
    setting_pure(1) [OF assms] assms
  unfolding by_guid_through by (fastforce simp: client_agrees_def lookup_setting_def keeps_all_def info_entry_def)

lemma by_latest_transparent:
  assumes "lookup_setting env w L" "client_agrees env fmt w L c" "encodeURIComponent sub = sub"
  shows "\<exists>c'. getLatestSchemaMetadata_rest env sub fmt c =
      (c', snd (call_metadata (env_rest env) (Request (lookup_url fmt (By_latest sub)) GET No_body) w)) \<and> client_agrees env fmt w L c'"
  using latest_cache.through_transparent [where P = "\<lambda>k. metadata_entry (env_rest env) fmt w (By_latest k)" and k = sub and
      c = c and keep = "keep_latestToSchema (env_keeps env)" and
      load = "call_metadata (env_rest env) (Request (lookup_url fmt (By_latest sub)) GET No_body)"]
    setting_pure(2) [OF assms(1,2)] assms(1,2)
  unfolding by_latest_through assms(3)
  by (fastforce simp: client_agrees_def lookup_setting_def keeps_all_def metadata_entry_def)

lemma by_version_transparent:
  assumes "lookup_setting env w L" "client_agrees env fmt w L c" "By_version sub n d \<in> L"
  shows "\<exists>c'. getSchemaMetadata_rest env sub n d fmt c =
      (c', snd (call_metadata (env_rest env) (Request (lookup_url fmt (By_version sub n d)) GET No_body) w)) \<and> client_agrees env fmt w L c'"
proof -
  have "version_ok env fmt w L (env_stringify env (KSubjectVersion sub n d)) v \<longleftrightarrow>
      metadata_entry (env_rest env) fmt w (By_version sub n d) v" for v
    using assms(3) setting_unique [OF assms(1)] by (fastforce simp: version_ok_def)
  then show ?thesis
    using version_cache.through_transparent [where P = "version_ok env fmt w L" and
        k = "env_stringify env (KSubjectVersion sub n d)" and c = c and keep = "keep_versionToSchema (env_keeps env)" and
        load = "call_metadata (env_rest env) (Request (lookup_url fmt (By_version sub n d)) GET No_body)"]
      setting_pure(2) [OF assms(1,2)] assms(1,2)
    unfolding by_version_through by (fastforce simp: client_agrees_def lookup_setting_def keeps_all_def metadata_entry_def)
qed

lemma by_metadata_transparent:
  assumes "lookup_setting env w L" "client_agrees env fmt w L c" "By_metadata sub md d \<in> L"
  shows "\<exists>c'. getLatestWithMetadata_rest env sub md d fmt c =
      (c', snd (call_metadata (env_rest env) (Request (lookup_url fmt (By_metadata sub md d)) GET No_body) w)) \<and> client_agrees env fmt w L c'"
proof -
  have "metadata_ok env fmt w L (env_stringify env (KSubjectMetadata sub md d)) v \<longleftrightarrow>
      metadata_entry (env_rest env) fmt w (By_metadata sub md d) v" for v
    using assms(3) setting_unique [OF assms(1)] by (fastforce simp: metadata_ok_def)
  then show ?thesis
    using metadata_cache.through_transparent [where P = "metadata_ok env fmt w L" and
        k = "env_stringify env (KSubjectMetadata sub md d)" and c = c and keep = "keep_metadataToSchema (env_keeps env)" and
        load = "call_metadata (env_rest env) (Request (lookup_url fmt (By_metadata sub md d)) GET No_body)"]
      setting_pure(2) [OF assms(1,2)] assms(1,2)
    unfolding by_metadata_through by (fastforce simp: client_agrees_def lookup_setting_def keeps_all_def metadata_entry_def)
qed

text \<open>One lookup on a client whose caches agree with the registry.\<close>

lemma lookup_client_transparent:
  assumes "lookup_setting env w L" "client_agrees env fmt w L c" "l \<in> L" "plain_latest l"
  shows "\<exists>c'. lookup_client env fmt l c = (c', snd (lookup_direct (env_rest env) fmt l w)) \<and> client_agrees env fmt w L c'"
proof (cases l)
  case (By_id sub i)
  show ?thesis
    unfolding By_id lookup_client.simps lookup_direct.simps
    by (rule transparent_bind, rule by_id_transparent [OF assms(1,2) assms(3) [unfolded By_id]])
next
  case (By_guid g)
  show ?thesis
    unfolding By_guid lookup_client.simps lookup_direct.simps
    by (rule transparent_bind, rule by_guid_transparent [OF assms(1,2)])
next
  case (By_latest sub)
  show ?thesis
    unfolding By_latest lookup_client.simps lookup_direct.simps
    by (rule transparent_bind, rule by_latest_transparent [OF assms(1,2) assms(4) [unfolded By_latest plain_latest.simps]])
next
  case (By_version sub n d)
  show ?thesis
    unfolding By_version lookup_client.simps lookup_direct.simps
    by (rule transparent_bind, rule by_version_transparent [OF assms(1,2) assms(3) [unfolded By_version]])
next
  case (By_metadata sub md d)
  show ?thesis
    unfolding By_metadata lookup_client.simps lookup_direct.simps
    by (rule transparent_bind, rule by_metadata_transparent [OF assms(1,2) assms(3) [unfolded By_metadata]])
qed

lemma lookup_all_transparent:
  assumes "lookup_setting env w L" "client_agrees env fmt w L c" "set ls \<subseteq> L" "\<forall>l\<in>set ls. plain_latest l"
  shows "snd (lookup_all env fmt ls c) = map (\<lambda>l. snd (lookup_direct (env_rest env) fmt l w)) ls"
  using assms
proof (induction ls arbitrary: c)
  case (Cons l ls)
  obtain c' where c': "lookup_client env fmt l c = (c', snd (lookup_direct (env_rest env) fmt l w))" "client_agrees env fmt w L c'"
    using lookup_client_transparent [OF Cons.prems(1,2), of l] Cons.prems(3,4) by auto
  with Cons.IH [OF Cons.prems(1) c'(2)] Cons.prems(3,4) show ?case
    by (auto split: prod.split dest: arg_cong [where f = snd])
qed simp


text \<open>
  C18. Caching is invisible while the registry does not change: a sequence of lookups in one format on
  a new client, by id, guid, version, metadata or for the latest schema, gives one by one what the
  registry itself answers, errors included and whatever the caches drop in between. The subjects
  whose latest schema is asked for must be their own URI encoding.
\<close>

theorem lookups_give_what_registry_answers:
  assumes "lookup_setting env w (set ls)" "\<forall>l\<in>set ls. plain_latest l"
  shows "snd (lookup_all env fmt ls (newRegistryClient w)) = map (\<lambda>l. snd (lookup_direct (env_rest env) fmt l w)) ls"
proof (rule lookup_all_transparent)
  show "client_agrees env fmt w (set ls) (newRegistryClient w)"
    by (simp add: client_agrees_def newRegistryClient_def)
qed (use assms in auto)

definition sample_info :: schema_info where
  "sample_info = \<lparr>si_schema = ''{}'', si_schemaType = None, si_references = None, si_metadata = None, si_ruleSet = None\<rparr>"


definition sample_metadata :: "string \<Rightarrow> int \<Rightarrow> schema_metadata" where
  "sample_metadata sub v = \<lparr>si_schema = ''{}'', si_schemaType = None, si_references = None, si_metadata = None, si_ruleSet = None,
     sm_id = Some 1, sm_guid = None, sm_subject = Some sub, sm_version = Some v\<rparr>"

text \<open>A registry that answers each request with what was asked for, and with an error where no schema can be.\<close>

definition sample_rest :: "unit rest_calls" where
  "sample_rest =
     \<lparr>call_info = (\<lambda>r w. (w, Inr sample_info)), call_metadata = (\<lambda>r w. case r of Request url verb body \<Rightarrow> (w, Inr (sample_metadata url 1))),
      call_versions = (\<lambda>r. m_return [1]), call_version = (\<lambda>r. m_return 1), call_subjects = (\<lambda>r. m_return []),
      call_compatible = (\<lambda>r. m_return True), call_level = (\<lambda>r. m_return (None, None)),
      call_config = (\<lambda>r. m_throw (RestError [] 404 40408)), call_associations = (\<lambda>r. m_return []),
      call_association = (\<lambda>r. m_throw (RestError [] 404 40408)), call_nothing = (\<lambda>r. m_return ())\<rparr>"

definition sample_env :: "(json_key, unit) registry_env" where
  "sample_env = \<lparr>env_stringify = id, env_parse = id,
     env_keeps = \<lparr>keep_idToSchemaInfo = id, keep_guidToSchemaInfo = id, keep_infoToSchema = id, keep_latestToSchema = id,
       keep_schemaToVersion = id, keep_versionToSchema = id, keep_metadataToSchema = id\<rparr>,
     env_rest = sample_rest\<rparr>"

lemma sample_setting: "lookup_setting sample_env () L"
  by (simp add: lookup_setting_def keeps_all_def keeps_entries_def lookups_pure_def sample_env_def)

theorem lookups_give_what_registry_answers_witness:
  "let ls = [By_latest ''ab'', By_id ''a b'' 1, By_latest ''ab'', By_version ''a b'' 2 True, By_id ''a b'' 1]
   in snd (lookup_all sample_env None ls (newRegistryClient ())) = map (\<lambda>l. snd (lookup_direct (env_rest sample_env) None l ())) ls"
  unfolding Let_def
  by (rule lookups_give_what_registry_answers [OF sample_setting]) (simp add: encodeURIComponent_def unreserved_def)

section \<open>Deleting\<close>

lemma fold_forget:
  "jm_get (fold (\<lambda>(k, v) m. if P k then jm_delete k m else m) xs m) k = (if P k \<and> k \<in> fst ` set xs then None else jm_get m k)"
proof (induction xs arbitrary: m)
  case (Cons x xs)
  then show ?case by (cases x) auto
qed simp

lemma jm_get_forget_subject:
  "jm_get (forget_subject parse keep sub m) k = (if parsed_subject (parse k) = Some sub then None else jm_get (keep m) k)"
proof -
  have "jm_get (keep m) k = None" if "k \<notin> fst ` set (keep m)"
    using that by (simp add: map_of_eq_None_iff)
  then show ?thesis
    unfolding forget_subject_def by (auto simp: fold_forget [where P = "\<lambda>k. parsed_subject (parse k) = Some sub"])
qed

lemma forgotten:
  assumes "keeps_entries keep" "parsed_subject (parse k) = Some sub"
  shows "cache_get keep k (forget_subject parse keep sub m) = None"
proof (rule ccontr)
  assume "cache_get keep k (forget_subject parse keep sub m) \<noteq> None"
  then obtain v where "jm_get (keep (forget_subject parse keep sub m)) k = Some v" by (auto simp: cache_get_def)
  from keeps_entriesD [OF assms(1) this] show False using assms(2) by (simp add: jm_get_forget_subject)
qed

lemma on_rest_caches [simp]:
  "rc_idToSchemaInfo (fst (on_rest m c)) = rc_idToSchemaInfo c"
  "rc_infoToSchema (fst (on_rest m c)) = rc_infoToSchema c"
  "rc_schemaToVersion (fst (on_rest m c)) = rc_schemaToVersion c"
  "rc_versionToSchema (fst (on_rest m c)) = rc_versionToSchema c"
  "rc_latestToSchema (fst (on_rest m c)) = rc_latestToSchema c"
  "rc_metadataToSchema (fst (on_rest m c)) = rc_metadataToSchema c"
  "rc_guidToSchemaInfo (fst (on_rest m c)) = rc_guidToSchemaInfo c"
  by (cases "m (rc_world c)"; simp add: on_rest_def)+

lemma deleteSubject_caches:
  assumes "deleteSubject_rest env sub permanent c = (c', r)"
  shows "rc_infoToSchema c' = forget_subject (env_parse env) (keep_infoToSchema (env_keeps env)) sub (rc_infoToSchema c)"
    and "rc_schemaToVersion c' = forget_subject (env_parse env) (keep_schemaToVersion (env_keeps env)) sub (rc_schemaToVersion c)"
    and "rc_versionToSchema c' = forget_subject (env_parse env) (keep_versionToSchema (env_keeps env)) sub (rc_versionToSchema c)"
    and "rc_idToSchemaInfo c' = forget_subject (env_parse env) (keep_idToSchemaInfo (env_keeps env)) sub (rc_idToSchemaInfo c)"
    and "rc_latestToSchema c' = rc_latestToSchema c" "rc_metadataToSchema c' = rc_metadataToSchema c"
    and "rc_guidToSchemaInfo c' = rc_guidToSchemaInfo c"
proof -
  have "c' = fst (deleteSubject_rest env sub permanent c)" using assms by simp
  then show "rc_infoToSchema c' = forget_subject (env_parse env) (keep_infoToSchema (env_keeps env)) sub (rc_infoToSchema c)"
    and "rc_schemaToVersion c' = forget_subject (env_parse env) (keep_schemaToVersion (env_keeps env)) sub (rc_schemaToVersion c)"
    and "rc_versionToSchema c' = forget_subject (env_parse env) (keep_versionToSchema (env_keeps env)) sub (rc_versionToSchema c)"
    and "rc_idToSchemaInfo c' = forget_subject (env_parse env) (keep_idToSchemaInfo (env_keeps env)) sub (rc_idToSchemaInfo c)"
    and "rc_latestToSchema c' = rc_latestToSchema c" "rc_metadataToSchema c' = rc_metadataToSchema c"
    and "rc_guidToSchemaInfo c' = rc_guidToSchemaInfo c"
    by (simp_all add: deleteSubject_rest_def Let_def)
qed

text \<open>
  C31. After a subject was deleted, whether or not the registry answered, nothing of it is left in the
  caches for ids, schemas and versions, so that every such lookup asks the registry again. In all of these caches the entries
  of every other subject are what the cache kept of them, and the caches by guid, of the latest schemas and by metadata are
  not touched: they keep what they have of the deleted subject too.
\<close>

theorem deleted_subject_is_forgotten:
  assumes "keeps_entries (keep_idToSchemaInfo (env_keeps env))" "keeps_entries (keep_infoToSchema (env_keeps env))"
    and "keeps_entries (keep_schemaToVersion (env_keeps env))" "keeps_entries (keep_versionToSchema (env_keeps env))"
    and "\<And>k. parsed_subject (env_parse env (env_stringify env k)) = parsed_subject k"
    and "deleteSubject_rest env sub permanent c = (c', r)"
  shows "cache_get (keep_idToSchemaInfo (env_keeps env)) (env_stringify env (KSubjectId sub i)) (rc_idToSchemaInfo c') = None \<and>
    cache_get (keep_infoToSchema (env_keeps env)) (env_stringify env (KSubjectSchema sub info)) (rc_infoToSchema c') = None \<and>
    cache_get (keep_schemaToVersion (env_keeps env)) (env_stringify env (KSubjectSchemaDeleted sub info d)) (rc_schemaToVersion c') = None \<and>
    cache_get (keep_versionToSchema (env_keeps env)) (env_stringify env (KSubjectVersion sub v d)) (rc_versionToSchema c') = None \<and>
    (\<forall>sub'. sub' \<noteq> sub \<longrightarrow>
       jm_get (rc_idToSchemaInfo c') (env_stringify env (KSubjectId sub' i)) =
         jm_get (keep_idToSchemaInfo (env_keeps env) (rc_idToSchemaInfo c)) (env_stringify env (KSubjectId sub' i)) \<and>
       jm_get (rc_infoToSchema c') (env_stringify env (KSubjectSchema sub' info)) =
         jm_get (keep_infoToSchema (env_keeps env) (rc_infoToSchema c)) (env_stringify env (KSubjectSchema sub' info)) \<and>
       jm_get (rc_schemaToVersion c') (env_stringify env (KSubjectSchemaDeleted sub' info d)) =
         jm_get (keep_schemaToVersion (env_keeps env) (rc_schemaToVersion c)) (env_stringify env (KSubjectSchemaDeleted sub' info d)) \<and>
       jm_get (rc_versionToSchema c') (env_stringify env (KSubjectVersion sub' v d)) =
         jm_get (keep_versionToSchema (env_keeps env) (rc_versionToSchema c)) (env_stringify env (KSubjectVersion sub' v d))) \<and>
    rc_guidToSchemaInfo c' = rc_guidToSchemaInfo c \<and> rc_latestToSchema c' = rc_latestToSchema c \<and>
    rc_metadataToSchema c' = rc_metadataToSchema c"
  by (simp add: deleteSubject_caches [OF assms(6)] forgotten [OF assms(1)] forgotten [OF assms(2)] forgotten [OF assms(3)]
      forgotten [OF assms(4)] assms(5) jm_get_forget_subject)

theorem deleted_subject_is_forgotten_witness:
  "\<exists>c' r. deleteSubject_rest sample_env ''a'' True
       ((newRegistryClient ())\<lparr>rc_idToSchemaInfo := [(KSubjectId ''a'' 1, sample_info), (KSubjectId ''b'' 1, sample_info)],
          rc_versionToSchema := [(KSubjectVersion ''b'' 2 False, sample_metadata ''b'' 2)]\<rparr>) = (c', r) \<and>
     cache_get id (KSubjectId ''a'' 1) (rc_idToSchemaInfo c') = None \<and>
     jm_get (rc_idToSchemaInfo c') (KSubjectId ''b'' 1) = Some sample_info \<and>
     jm_get (rc_versionToSchema c') (KSubjectVersion ''b'' 2 False) = Some (sample_metadata ''b'' 2)"
proof -
  let ?c = "(newRegistryClient ())\<lparr>rc_idToSchemaInfo := [(KSubjectId ''a'' 1, sample_info), (KSubjectId ''b'' 1, sample_info)],
          rc_versionToSchema := [(KSubjectVersion ''b'' 2 False, sample_metadata ''b'' 2)]\<rparr>"
  obtain c' r where d: "deleteSubject_rest sample_env ''a'' True ?c = (c', r)"
    by (rule prod.exhaust)
  from deleted_subject_is_forgotten [of sample_env, OF _ _ _ _ _ d, of 1 sample_info False 2] d show ?thesis
    by (auto simp: sample_env_def keeps_entries_def)
qed

lemma deleteCachedVersion_versions:
  "rc_versionToSchema (fold (deleteCachedVersion env sub v) xs c) = rc_versionToSchema c"
proof (induction xs arbitrary: c)
  case (Cons x xs)
  have "rc_versionToSchema (deleteCachedVersion env sub v x c) = rc_versionToSchema c"
    by (cases x) (simp add: deleteCachedVersion_def Let_def split: option.split)
  with Cons show ?case by simp
qed simp

text \<open>
  Deleting a version of a subject does not remove it from the cache that looks up versions, for the
  key that is deleted is not the key that is looked up: as long as the cache drops nothing, a version
  that was looked up before is still answered after it was deleted, without asking the registry.
\<close>

theorem deleted_version_is_still_served:
  assumes "keep_versionToSchema (env_keeps env) = id"
    and "env_stringify env (KSubjectVersion sub v d) \<noteq> env_stringify env (KSubjectVersionOnly sub v)"
    and "jm_get (rc_versionToSchema c) (env_stringify env (KSubjectVersion sub v d)) = Some md"
    and "deleteSubjectVersion_rest env sub v permanent c = (c', r)"
  shows "getSchemaMetadata_rest env sub v d fmt c' = (c', Inr md)"
proof -
  have "c' = fst (deleteSubjectVersion_rest env sub v permanent c)" using assms(4) by simp
  then have "rc_versionToSchema c' = jm_delete (env_stringify env (KSubjectVersionOnly sub v)) (rc_versionToSchema c)"
    using assms(1) by (simp add: deleteSubjectVersion_rest_def Let_def deleteCachedVersion_versions cache_delete_def)
  then have "cache_get id (env_stringify env (KSubjectVersion sub v d)) (rc_versionToSchema c') = Some md"
    using assms(2,3) by (simp add: cache_get_def)
  then show ?thesis
    using version_cache.through_hit assms(1) unfolding by_version_through by metis
qed

theorem deleted_version_is_still_served_witness:
  "\<exists>c' r. deleteSubjectVersion_rest sample_env ''a'' 1 True
       ((newRegistryClient ())\<lparr>rc_versionToSchema := [(KSubjectVersion ''a'' 1 False, sample_metadata ''a'' 1)]\<rparr>) = (c', r) \<and>
     getSchemaMetadata_rest sample_env ''a'' 1 False None c' = (c', Inr (sample_metadata ''a'' 1))"
proof -
  obtain c' r where d: "deleteSubjectVersion_rest sample_env ''a'' 1 True
      ((newRegistryClient ())\<lparr>rc_versionToSchema := [(KSubjectVersion ''a'' 1 False, sample_metadata ''a'' 1)]\<rparr>) = (c', r)"
    by (rule prod.exhaust)
  have "getSchemaMetadata_rest sample_env ''a'' 1 False None c' = (c', Inr (sample_metadata ''a'' 1))"
    by (rule deleted_version_is_still_served [OF _ _ _ d]) (simp_all add: sample_env_def)
  with d show ?thesis by blast
qed

text \<open>
  The latest schema of a subject is stored under the encoded subject: with a cache that drops nothing,
  the subject that is spelled like the encoding of another gets the answer of the other, in any
  format, while the other is asked for again each time.
\<close>

lemma latest_is_stored_under_encoding:
  assumes "keep_latestToSchema (env_keeps env) = id" "encodeURIComponent sub \<noteq> sub"
    and "jm_get (rc_latestToSchema c) sub = None" "getLatestSchemaMetadata_rest env sub fmt c = (c', Inr md)"
  shows "getLatestSchemaMetadata_rest env (encodeURIComponent sub) fmt' c' = (c', Inr md)"
    and "jm_get (rc_latestToSchema c') sub = None"
proof -
  obtain c1 where c1: "on_rest (call_metadata (env_rest env) (Request (lookup_url fmt (By_latest sub)) GET No_body)) c = (c1, Inr md)"
      "c' = c1\<lparr>rc_latestToSchema := jm_set (encodeURIComponent sub) md (rc_latestToSchema c1)\<rparr>"
    using assms(1,3,4) unfolding by_latest_through latest_cache.through_def
    by (auto simp del: lookup_url.simps simp: cache_get_def cache_set_def m_bind_def split: prod.splits sum.splits)
  from on_rest_caches(5) have "rc_latestToSchema c1 = rc_latestToSchema c"
    using c1(1) by (metis fst_conv)
  with c1(2) assms(2,3) show "jm_get (rc_latestToSchema c') sub = None" by auto
  from c1(2) have "cache_get id (encodeURIComponent sub) (rc_latestToSchema c') = Some md" by (simp add: cache_get_def)
  then show "getLatestSchemaMetadata_rest env (encodeURIComponent sub) fmt' c' = (c', Inr md)"
    using latest_cache.through_hit assms(1) unfolding by_latest_through by metis
qed

end
