(* ===== verification/Linked_List.thy ===== *)
theory Linked_List
  imports JS_Prelude
begin

text \<open>
  \<open>_linked-list.js\<close>: the doubly linked list of the consumer. Nodes are objects that list and callers
  share, so they live in a heap: a list of nodes in which a reference is an index and a new node
  is appended. A list is its own record; several lists may share a heap.
\<close>

section \<open>Nodes and lists\<close>

record 'v node =
  nd_value :: 'v
  nd_removed :: bool
  nd_prev :: "nat option"
  nd_next :: "nat option"

type_synonym 'v heap = "'v node list"

record linked_list =
  ll_head :: "nat option"
  ll_tail :: "nat option"
  ll_count :: int

definition newLinkedList :: linked_list where
  "newLinkedList = \<lparr>ll_head = None, ll_tail = None, ll_count = 0\<rparr>"

definition newNode :: "'v \<Rightarrow> 'v heap \<Rightarrow> 'v heap \<times> nat" where
  "newNode v h = (h @ [\<lparr>nd_value = v, nd_removed = False, nd_prev = None, nd_next = None\<rparr>], length h)"

abbreviation set_next :: "nat \<Rightarrow> nat option \<Rightarrow> 'v heap \<Rightarrow> 'v heap" where
  "set_next a r h \<equiv> h[a := (h ! a)\<lparr>nd_next := r\<rparr>]"

abbreviation set_prev :: "nat \<Rightarrow> nat option \<Rightarrow> 'v heap \<Rightarrow> 'v heap" where
  "set_prev a r h \<equiv> h[a := (h ! a)\<lparr>nd_prev := r\<rparr>]"

definition insertInBetween ::
    "nat \<Rightarrow> nat option \<Rightarrow> nat option \<Rightarrow> 'v heap \<times> linked_list \<Rightarrow> ('v heap \<times> linked_list) \<times> nat" where
  "insertInBetween node prev nxt = (\<lambda>(h, l).
     let h = set_next node nxt h;
         h = set_prev node prev h;
         (h, l) = (case prev of Some p \<Rightarrow> (set_next p (Some node) h, l) | None \<Rightarrow> (h, l\<lparr>ll_head := Some node\<rparr>));
         (h, l) = (case nxt of Some n \<Rightarrow> (set_prev n (Some node) h, l) | None \<Rightarrow> (h, l\<lparr>ll_tail := Some node\<rparr>))
     in ((h, l\<lparr>ll_count := ll_count l + 1\<rparr>), node))"

definition remove_node :: "nat \<Rightarrow> 'v heap \<times> linked_list \<Rightarrow> 'v heap \<times> linked_list" where
  "remove_node node = (\<lambda>(h, l).
     if nd_removed (h ! node) then (h, l)
     else
       let (h, l) = (case nd_prev (h ! node) of
                       Some p \<Rightarrow> (set_next p (nd_next (h ! node)) h, l)
                     | None \<Rightarrow> (h, l\<lparr>ll_head := nd_next (h ! node)\<rparr>));
           (h, l) = (case nd_next (h ! node) of
                       Some n \<Rightarrow> (set_prev n (nd_prev (h ! node)) h, l)
                     | None \<Rightarrow> (h, l\<lparr>ll_tail := nd_prev (h ! node)\<rparr>));
           h = set_next node None h;
           h = set_prev node None h;
           h = h[node := (h ! node)\<lparr>nd_removed := True\<rparr>]
       in (h, l\<lparr>ll_count := ll_count l - 1\<rparr>))"

definition removeFirst :: "'v heap \<times> linked_list \<Rightarrow> ('v heap \<times> linked_list) \<times> 'v option" where
  "removeFirst s =
     (case ll_head (snd s) of
        None \<Rightarrow> (s, None)
      | Some node \<Rightarrow> let s' = remove_node node s in (s', Some (nd_value (fst s' ! node))))"

definition removeLast :: "'v heap \<times> linked_list \<Rightarrow> ('v heap \<times> linked_list) \<times> 'v option" where
  "removeLast s =
     (case ll_tail (snd s) of
        None \<Rightarrow> (s, None)
      | Some node \<Rightarrow> let s' = remove_node node s in (s', Some (nd_value (fst s' ! node))))"

definition addFirst :: "'v \<Rightarrow> 'v heap \<times> linked_list \<Rightarrow> ('v heap \<times> linked_list) \<times> nat" where
  "addFirst v = (\<lambda>(h, l). let (h, node) = newNode v h in insertInBetween node None (ll_head l) (h, l))"

definition addLast :: "'v \<Rightarrow> 'v heap \<times> linked_list \<Rightarrow> ('v heap \<times> linked_list) \<times> nat" where
  "addLast v = (\<lambda>(h, l). let (h, node) = newNode v h in insertInBetween node (ll_tail l) None (h, l))"

definition node_removed :: js_error where
  "node_removed = Error ''Node was removed''"

definition addBefore :: "nat \<Rightarrow> 'v \<Rightarrow> ('v heap \<times> linked_list, nat) meth" where
  "addBefore node v = (\<lambda>(h, l).
     if nd_removed (h ! node) then ((h, l), Inl node_removed)
     else let (h, new) = newNode v h; (s, r) = insertInBetween new (nd_prev (h ! node)) (Some node) (h, l) in (s, Inr r))"

definition addAfter :: "nat \<Rightarrow> 'v \<Rightarrow> ('v heap \<times> linked_list, nat) meth" where
  "addAfter node v = (\<lambda>(h, l).
     if nd_removed (h ! node) then ((h, l), Inl node_removed)
     else let (h, new) = newNode v h; (s, r) = insertInBetween new (Some node) (nd_next (h ! node)) (h, l) in (s, Inr r))"

text \<open>The list that is appended is emptied; both lists are on one heap.\<close>

definition concat_list :: "'v heap \<Rightarrow> linked_list \<Rightarrow> linked_list \<Rightarrow> 'v heap \<times> linked_list \<times> linked_list" where
  "concat_list h this list =
     (if ll_count list = 0 then (h, this, list)
      else
        let h = (case ll_tail this of Some t \<Rightarrow> set_next t (ll_head list) h | None \<Rightarrow> h);
            h = (case ll_head list of Some a \<Rightarrow> set_prev a (ll_tail this) h | None \<Rightarrow> h);
            this = this\<lparr>ll_tail := ll_tail list, ll_count := ll_count this + ll_count list\<rparr>
        in (h, this, list\<lparr>ll_count := 0, ll_head := None, ll_tail := None\<rparr>))"

text \<open>The values the iterator yields from a node on; \<open>None\<close> if it does not end.\<close>

partial_function (option) iterate_nodes :: "'v heap \<Rightarrow> nat option \<Rightarrow> 'v list option" where
  "iterate_nodes h node =
     (case node of
        None \<Rightarrow> Some []
      | Some a \<Rightarrow> Option.bind (iterate_nodes h (nd_next (h ! a))) (\<lambda>vs. Some (nd_value (h ! a) # vs)))"

definition iterate_list :: "'v heap \<times> linked_list \<Rightarrow> 'v list option" where
  "iterate_list = (\<lambda>(h, l). iterate_nodes h (ll_head l))"

section \<open>The list behind the nodes\<close>

definition first_or :: "nat option \<Rightarrow> nat list \<Rightarrow> nat option" where
  "first_or d as = (case as of [] \<Rightarrow> d | a # _ \<Rightarrow> Some a)"

definition last_or :: "nat option \<Rightarrow> nat list \<Rightarrow> nat option" where
  "last_or d as = (if as = [] then d else Some (last as))"

lemma first_or_simps [simp]: "first_or d [] = d" "first_or d (a # as) = Some a"
  by (simp_all add: first_or_def)

lemma last_or_simps [simp]: "last_or d [] = d" "last_or d (as @ [a]) = Some a" "last_or d (as @ a # bs) = last_or (Some a) bs"
  "last_or d (a # as) = last_or (Some a) as"
  by (simp_all add: last_or_def)

lemma first_or_append [simp]: "first_or d (as @ bs) = first_or (first_or d bs) as"
  by (cases as) simp_all

lemma last_or_append: "last_or d (as @ bs) = last_or (last_or d as) bs"
  by (simp add: last_or_def)

text \<open>The nodes \<open>as\<close> are linked, after the node \<open>p\<close> and before the node \<open>n\<close>.\<close>

fun linked :: "'v heap \<Rightarrow> nat option \<Rightarrow> nat list \<Rightarrow> nat option \<Rightarrow> bool" where
  "linked h p [] n = True"
| "linked h p (a # as) n \<longleftrightarrow>
     a < length h \<and> \<not> nd_removed (h ! a) \<and> nd_prev (h ! a) = p \<and> nd_next (h ! a) = first_or n as \<and> linked h (Some a) as n"

lemma linked_append: "linked h p (as @ bs) n \<longleftrightarrow> linked h p as (first_or n bs) \<and> linked h (last_or p as) bs n"
  by (induction as arbitrary: p) auto

lemma linked_frame:
  assumes "\<And>a. a \<in> set as \<Longrightarrow> h' ! a = h ! a" "length h \<le> length h'" "linked h p as n"
  shows "linked h' p as n"
  using assms(1,3) assms(2) by (induction as arbitrary: p) auto

lemma linked_bound: "linked h p as n \<Longrightarrow> a \<in> set as \<Longrightarrow> a < length h \<and> \<not> nd_removed (h ! a)"
  by (induction as arbitrary: p) auto

text \<open>A list with the nodes \<open>as\<close>.\<close>

definition list_of :: "'v heap \<Rightarrow> linked_list \<Rightarrow> nat list \<Rightarrow> bool" where
  "list_of h l as \<longleftrightarrow>
     distinct as \<and> linked h None as None \<and> ll_head l = first_or None as \<and> ll_tail l = last_or None as \<and> ll_count l = int (length as)"

definition node_values :: "'v heap \<Rightarrow> nat list \<Rightarrow> 'v list" where
  "node_values h as = map (\<lambda>a. nd_value (h ! a)) as"


lemma node_values_simps [simp]:
  "node_values h [] = []" "node_values h (a # as) = nd_value (h ! a) # node_values h as"
  "node_values h (as @ bs) = node_values h as @ node_values h bs" "length (node_values h as) = length as"
  by (simp_all add: node_values_def)

lemma list_of_new [simp]: "list_of h newLinkedList as \<longleftrightarrow> as = []"
  by (cases as) (auto simp: list_of_def newLinkedList_def)

lemma iterate_linked: "linked h p as None \<Longrightarrow> iterate_nodes h (first_or None as) = Some (node_values h as)"
proof (induction as arbitrary: p)
  case (Cons a as)
  then show ?case by (subst iterate_nodes.simps) auto
qed (simp add: iterate_nodes.simps)

text \<open>The iterator ends and yields the values in their order.\<close>

lemma iterate_list_of: "list_of h l as \<Longrightarrow> iterate_list (h, l) = Some (node_values h as)"
  by (auto simp: list_of_def iterate_list_def iterate_linked)

text \<open>What happens to other nodes does not matter.\<close>

lemma linked_outside [simp]: "a \<notin> set as \<Longrightarrow> linked (h[a := x]) p as n = linked h p as n"
  by (induction as arbitrary: p) auto

lemma linked_new [simp]: "linked h p as n \<Longrightarrow> linked (h @ hs) p as n"
  by (induction as arbitrary: p) (auto simp: nth_append)

lemma first_or_None [simp]: "first_or None as = None \<longleftrightarrow> as = []" "None = first_or None as \<longleftrightarrow> as = []"
  by (cases as; simp)+

lemma last_or_None [simp]: "last_or None as = None \<longleftrightarrow> as = []" "None = last_or None as \<longleftrightarrow> as = []"
  by (simp_all add: last_or_def)

text \<open>Values and the marks of removed nodes.\<close>

definition same_nodes :: "'v heap \<Rightarrow> 'v heap \<Rightarrow> bool" where
  "same_nodes h h' \<longleftrightarrow>
     length h' = length h \<and> (\<forall>a<length h. nd_value (h' ! a) = nd_value (h ! a) \<and> nd_removed (h' ! a) = nd_removed (h ! a))"

lemma nth_update_if: "xs[i := x] ! j = (if i = j \<and> i < length xs then x else xs ! j)"
  by (cases "i < length xs") (auto simp: nth_list_update list_update_beyond)

lemma same_nodes_refl [simp]: "same_nodes h h"
  by (simp add: same_nodes_def)

lemma same_nodes_link [simp]:
  "same_nodes h h1 \<Longrightarrow> same_nodes h (set_next a r h1)" "same_nodes h h1 \<Longrightarrow> same_nodes h (set_prev a r h1)"
  by (auto simp: same_nodes_def nth_update_if)

lemma same_nodesD:
  assumes "same_nodes h h'"
  shows "length h' = length h" and "a < length h \<Longrightarrow> nd_value (h' ! a) = nd_value (h ! a)"
    and "a < length h \<Longrightarrow> nd_removed (h' ! a) = nd_removed (h ! a)"
  using assms by (simp_all add: same_nodes_def)

text \<open>Inserting a node between two neighbours of a list.\<close>

lemma insertInBetween_linked:
  assumes "linked h None (xs @ ys) None" "distinct (xs @ a # ys)" "a < length h" "\<not> nd_removed (h ! a)"
    and "insertInBetween a (last_or None xs) (first_or None ys) (h, l) = ((h', l'), r)"
  shows "linked h' None (xs @ a # ys) None"
proof (cases xs rule: rev_cases; cases ys)
qed (use assms in \<open>auto simp: insertInBetween_def linked_append split: prod.splits\<close>)


lemma insertInBetween_list:
  assumes "insertInBetween a (last_or None xs) (first_or None ys) (h, l) = ((h', l'), r)"
  shows "ll_head l' = (if xs = [] then Some a else ll_head l)" "ll_tail l' = (if ys = [] then Some a else ll_tail l)"
    "ll_count l' = ll_count l + 1" "r = a" "same_nodes h h'"
  using assms
  by (auto simp: insertInBetween_def Let_def first_or_def last_or_def same_nodes_def nth_update_if split: prod.splits list.splits if_splits)

lemma insertInBetween_frame:
  assumes "insertInBetween a p n (h, l) = ((h', l'), r)" "b \<noteq> a" "Some b \<noteq> p" "Some b \<noteq> n"
  shows "h' ! b = h ! b"
  using assms by (auto simp: insertInBetween_def Let_def split: prod.splits option.splits)

lemma insertInBetween_list_of:
  assumes "linked h None (xs @ ys) None" "distinct (xs @ a # ys)" "a < length h" "\<not> nd_removed (h ! a)"
    and "ll_head l = first_or None (xs @ ys)" "ll_tail l = last_or None (xs @ ys)" "ll_count l = int (length (xs @ ys))"
    and "insertInBetween a (last_or None xs) (first_or None ys) (h, l) = ((h', l'), r)"
  shows "list_of h' l' (xs @ a # ys)"
proof -
  have "first_or None (xs @ a # ys) = (if xs = [] then Some a else first_or None (xs @ ys))" by (cases xs) auto
  moreover have "last_or None (xs @ a # ys) = (if ys = [] then Some a else last_or None (xs @ ys))"
    by (auto simp: last_or_def)
  ultimately show ?thesis
    using insertInBetween_linked [OF assms(1-4,8)] insertInBetween_list [OF assms(8)] assms(2,5-7)
    by (simp add: list_of_def)
qed

text \<open>
  A new node on the heap, inserted into a list between two neighbours. The nodes that were there keep
  their values, and those outside the list do not change at all.
\<close>

lemma insert_new:
  assumes "list_of h l (xs @ ys)" "newNode v h = (h1, a)"
    and "insertInBetween a (last_or None xs) (first_or None ys) (h1, l) = ((h', l'), r)"
  shows "r = length h" "list_of h' l' (xs @ length h # ys)" "same_nodes h1 h'"
    "\<And>b. b < length h \<Longrightarrow> b \<notin> set (xs @ ys) \<Longrightarrow> h' ! b = h ! b"
proof -
  have a: "a = length h" "h1 = h @ [\<lparr>nd_value = v, nd_removed = False, nd_prev = None, nd_next = None\<rparr>]"
    using assms(2) by (simp_all add: newNode_def)
  have l: "distinct (xs @ ys)" "linked h None (xs @ ys) None" "ll_head l = first_or None (xs @ ys)"
      "ll_tail l = last_or None (xs @ ys)" "ll_count l = int (length (xs @ ys))"
    using assms(1) by (simp_all only: list_of_def)
  have "length h \<notin> set (xs @ ys)" using linked_bound [OF l(2)] by blast
  then have "distinct (xs @ a # ys)" using l(1) a(1) by auto
  then show "list_of h' l' (xs @ length h # ys)"
    using insertInBetween_list_of [OF linked_new [OF l(2)] _ _ _ l(3-5) assms(3) [unfolded a(2)]] a by simp
  show "r = length h" "same_nodes h1 h'"
    using insertInBetween_list(4,5) [OF assms(3)] a by simp_all
  fix b assume b: "b < length h" "b \<notin> set (xs @ ys)"
  then have "Some b \<noteq> last_or None xs" "Some b \<noteq> first_or None ys"
    by (auto simp: last_or_def first_or_def split: list.splits)
  with insertInBetween_frame [OF assms(3)] b a show "h' ! b = h ! b" by (simp add: nth_append)
qed

text \<open>Taking a node out of a list.\<close>

lemma remove_linked:
  assumes "linked h None (xs @ a # ys) None" "distinct (xs @ a # ys)" "remove_node a (h, l) = (h', l')"
  shows "linked h' None (xs @ ys) None"
proof (cases xs rule: rev_cases; cases ys)
qed (use assms in \<open>auto simp: remove_node_def linked_append split: prod.splits\<close>)


lemma remove_node_eq:
  assumes "linked h None (xs @ a # ys) None" "distinct (xs @ a # ys)"
  shows "remove_node a (h, l) =
    (let h1 = (if xs = [] then h else set_next (last xs) (first_or None ys) h);
         h2 = (if ys = [] then h1 else set_prev (hd ys) (last_or None xs) h1)
     in (h2[a := (h ! a)\<lparr>nd_next := None, nd_prev := None, nd_removed := True\<rparr>],
         l\<lparr>ll_head := if xs = [] then first_or None ys else ll_head l, ll_tail := if ys = [] then last_or None xs else ll_tail l,
           ll_count := ll_count l - 1\<rparr>))"
proof (cases xs rule: rev_cases; cases ys)
qed (use assms in \<open>auto simp: remove_node_def linked_append Let_def\<close>)

lemma remove_list:
  assumes "linked h None (xs @ a # ys) None" "distinct (xs @ a # ys)" "remove_node a (h, l) = (h', l')"
  shows "ll_head l' = (if xs = [] then first_or None ys else ll_head l)"
    "ll_tail l' = (if ys = [] then last_or None xs else ll_tail l)" "ll_count l' = ll_count l - 1"
    "length h' = length h" "nd_removed (h' ! a)"
    "nd_value (h' ! b) = nd_value (h ! b)" "b \<noteq> a \<Longrightarrow> nd_removed (h' ! b) = nd_removed (h ! b)"
    "b \<notin> set (xs @ a # ys) \<Longrightarrow> h' ! b = h ! b"
proof -
  have n: "a < length h" using assms(1) by (simp add: linked_append)
  have p: "xs = [] \<or> last xs \<in> set xs" "ys = [] \<or> hd ys \<in> set ys" by (cases xs; cases ys; simp)+
  define h2 where "h2 = (let h1 = (if xs = [] then h else set_next (last xs) (first_or None ys) h)
    in if ys = [] then h1 else set_prev (hd ys) (last_or None xs) h1)"
  have h': "h' = h2[a := (h ! a)\<lparr>nd_next := None, nd_prev := None, nd_removed := True\<rparr>]"
    "l' = l\<lparr>ll_head := if xs = [] then first_or None ys else ll_head l, ll_tail := if ys = [] then last_or None xs else ll_tail l,
           ll_count := ll_count l - 1\<rparr>"
    using assms(3) [unfolded remove_node_eq [OF assms(1,2)]] by (simp_all add: Let_def h2_def)
  have h2: "length h2 = length h" "nd_value (h2 ! b) = nd_value (h ! b)" "nd_removed (h2 ! b) = nd_removed (h ! b)"
    by (simp_all add: h2_def Let_def nth_update_if)
  have out: "h2 ! b = h ! b" if "b \<notin> set xs" "b \<notin> set ys"
    using p that by (auto simp: h2_def Let_def nth_update_if)
  show "ll_head l' = (if xs = [] then first_or None ys else ll_head l)" "ll_tail l' = (if ys = [] then last_or None xs else ll_tail l)"
    "ll_count l' = ll_count l - 1" "length h' = length h" "nd_removed (h' ! a)"
    using h' n h2(1) by simp_all
  show "nd_value (h' ! b) = nd_value (h ! b)" using h'(1) h2 by (cases "b = a") (auto simp: nth_update_if)
  show "b \<noteq> a \<Longrightarrow> nd_removed (h' ! b) = nd_removed (h ! b)" using h'(1) h2(3) by simp
  show "b \<notin> set (xs @ a # ys) \<Longrightarrow> h' ! b = h ! b" using h'(1) out by simp
qed

lemma remove_list_of:
  assumes "list_of h l (xs @ a # ys)" "remove_node a (h, l) = (h', l')"
  shows "list_of h' l' (xs @ ys)"
proof -
  have l: "distinct (xs @ a # ys)" "linked h None (xs @ a # ys) None" "ll_head l = first_or None (xs @ a # ys)"
      "ll_tail l = last_or None (xs @ a # ys)" "ll_count l = int (length (xs @ a # ys))"
    using assms(1) by (simp_all only: list_of_def)
  have "ll_head l' = first_or None (xs @ ys)"
    using remove_list(1) [OF l(2,1) assms(2)] l(3) by (cases xs) auto
  moreover have "ll_tail l' = last_or None (xs @ ys)"
    using remove_list(2) [OF l(2,1) assms(2)] l(4) by (auto simp: last_or_def)
  ultimately show ?thesis
    using remove_linked [OF l(2,1) assms(2)] remove_list(3) [OF l(2,1) assms(2)] l by (simp add: list_of_def)
qed

lemma remove_removed: "nd_removed (h ! a) \<Longrightarrow> remove_node a (h, l) = (h, l)"
  by (simp add: remove_node_def)

lemma list_of_frame:
  assumes "list_of h l as" "\<And>a. a \<in> set as \<Longrightarrow> h' ! a = h ! a" "length h \<le> length h'"
  shows "list_of h' l as"
  using assms linked_frame [of as h' h] by (auto simp: list_of_def)

lemma node_values_cong: "(\<And>a. a \<in> set as \<Longrightarrow> nd_value (h' ! a) = nd_value (h ! a)) \<Longrightarrow> node_values h' as = node_values h as"
  by (simp add: node_values_def)

lemma list_of_bound: "list_of h l as \<Longrightarrow> a \<in> set as \<Longrightarrow> a < length h \<and> \<not> nd_removed (h ! a)"
  by (auto simp: list_of_def dest: linked_bound)

section \<open>The abstract list\<close>

text \<open>
  What the class promises: a sequence of nodes with their values, in which nodes are inserted at
  either end or next to a node and removed from anywhere. A node is known by its number; numbers
  are given in turn.
\<close>

type_synonym 'v deque = "(nat \<times> 'v) list \<times> nat"

datatype 'v list_op = Add_first 'v | Add_last 'v | Add_before nat 'v | Add_after nat 'v | Remove nat | Remove_first | Remove_last

datatype 'v list_answer = Node nat | Value "'v option" | Thrown js_error | Done

fun insert_before :: "nat \<Rightarrow> nat \<times> 'v \<Rightarrow> (nat \<times> 'v) list \<Rightarrow> (nat \<times> 'v) list" where
  "insert_before a x [] = []"
| "insert_before a x (y # ys) = (if fst y = a then x # y # ys else y # insert_before a x ys)"

fun insert_after :: "nat \<Rightarrow> nat \<times> 'v \<Rightarrow> (nat \<times> 'v) list \<Rightarrow> (nat \<times> 'v) list" where
  "insert_after a x [] = []"
| "insert_after a x (y # ys) = (if fst y = a then y # x # ys else y # insert_after a x ys)"

fun deque_op :: "'v list_op \<Rightarrow> 'v deque \<Rightarrow> 'v deque \<times> 'v list_answer" where
  "deque_op (Add_first v) (xs, k) = (((k, v) # xs, k + 1), Node k)"
| "deque_op (Add_last v) (xs, k) = ((xs @ [(k, v)], k + 1), Node k)"
| "deque_op (Add_before a v) (xs, k) =
     (if a \<in> fst ` set xs then ((insert_before a (k, v) xs, k + 1), Node k) else ((xs, k), Thrown node_removed))"
| "deque_op (Add_after a v) (xs, k) =
     (if a \<in> fst ` set xs then ((insert_after a (k, v) xs, k + 1), Node k) else ((xs, k), Thrown node_removed))"
| "deque_op (Remove a) (xs, k) = ((filter (\<lambda>x. fst x \<noteq> a) xs, k), Done)"
| "deque_op Remove_first (xs, k) = (case xs of [] \<Rightarrow> (([], k), Value None) | x # xs \<Rightarrow> ((xs, k), Value (Some (snd x))))"
| "deque_op Remove_last (xs, k) = (if xs = [] then (([], k), Value None) else ((butlast xs, k), Value (Some (snd (last xs)))))"

fun linked_op :: "'v list_op \<Rightarrow> 'v heap \<times> linked_list \<Rightarrow> ('v heap \<times> linked_list) \<times> 'v list_answer" where
  "linked_op (Add_first v) s = (case addFirst v s of (s', a) \<Rightarrow> (s', Node a))"
| "linked_op (Add_last v) s = (case addLast v s of (s', a) \<Rightarrow> (s', Node a))"
| "linked_op (Add_before a v) s = (case addBefore a v s of (s', Inr r) \<Rightarrow> (s', Node r) | (s', Inl e) \<Rightarrow> (s', Thrown e))"
| "linked_op (Add_after a v) s = (case addAfter a v s of (s', Inr r) \<Rightarrow> (s', Node r) | (s', Inl e) \<Rightarrow> (s', Thrown e))"
| "linked_op (Remove a) s = (remove_node a s, Done)"
| "linked_op Remove_first s = (case removeFirst s of (s', v) \<Rightarrow> (s', Value v))"
| "linked_op Remove_last s = (case removeLast s of (s', v) \<Rightarrow> (s', Value v))"

text \<open>The nodes on the heap that are not in the list were removed from it.\<close>

definition implements :: "'v heap \<times> linked_list \<Rightarrow> 'v deque \<Rightarrow> bool" where
  "implements s d \<longleftrightarrow>
     (case (s, d) of ((h, l), (xs, k)) \<Rightarrow>
        list_of h l (map fst xs) \<and> node_values h (map fst xs) = map snd xs \<and> k = length h \<and>
        (\<forall>a<length h. a \<notin> fst ` set xs \<longrightarrow> nd_removed (h ! a)))"

fun node_of_op :: "'v list_op \<Rightarrow> nat option" where
  "node_of_op (Add_before a v) = Some a"
| "node_of_op (Add_after a v) = Some a"
| "node_of_op (Remove a) = Some a"
| "node_of_op _ = None"


section \<open>Every operation implements the abstract one\<close>

lemma newNode_nodes:
  assumes "newNode v h = (h1, a)" "same_nodes h1 h'"
  shows "length h' = Suc (length h)" "nd_value (h' ! length h) = v" "\<not> nd_removed (h' ! length h)"
    "b < length h \<Longrightarrow> nd_value (h' ! b) = nd_value (h ! b)" "b < length h \<Longrightarrow> nd_removed (h' ! b) = nd_removed (h ! b)"
  using assms same_nodesD [OF assms(2)] by (auto simp: newNode_def nth_append)

text \<open>A new node between the nodes of \<open>xs\<close> and those of \<open>ys\<close>.\<close>

lemma insert_implements:
  assumes "implements (h, l) (xs @ ys, k)" "newNode v h = (h1, a)"
    and "insertInBetween a (last_or None (map fst xs)) (first_or None (map fst ys)) (h1, l) = ((h', l'), r)"
  shows "implements (h', l') (xs @ (k, v) # ys, k + 1)" "r = k"
proof -
  have i: "list_of h l (map fst xs @ map fst ys)" "node_values h (map fst xs @ map fst ys) = map snd xs @ map snd ys" "k = length h"
      "\<And>b. b < length h \<Longrightarrow> b \<notin> fst ` set (xs @ ys) \<Longrightarrow> nd_removed (h ! b)"
    using assms(1) by (auto simp: implements_def)
  note ins = insert_new [OF i(1) assms(2,3)]
  note new = newNode_nodes [OF assms(2) ins(3)]
  have "node_values h' as = node_values h as" if "set as \<subseteq> set (map fst xs @ map fst ys)" for as
    using list_of_bound [OF i(1)] that new(4) by (intro node_values_cong) blast
  then have "node_values h' (map fst xs) = map snd xs" "node_values h' (map fst ys) = map snd ys"
    using i(2) by (simp_all add: append_eq_append_conv)
  then show "implements (h', l') (xs @ (k, v) # ys, k + 1)"
    using ins(2) new(1,2,5) i(3,4) by (auto simp: implements_def less_Suc_eq)
  show "r = k" using ins(1) i(3) by simp
qed

lemma split_at_node:
  assumes "a \<in> fst ` set zs" "distinct (map fst zs)"
  obtains xs x ys where "zs = xs @ (a, x) # ys" "a \<notin> fst ` set xs" "a \<notin> fst ` set ys"
proof -
  from assms(1) obtain x where "(a, x) \<in> set zs" by auto
  from split_list [OF this] obtain xs ys where "zs = xs @ (a, x) # ys" by blast
  with assms(2) that show thesis by auto
qed

lemma insert_before_split: "a \<notin> fst ` set xs \<Longrightarrow> insert_before a y (xs @ (a, x) # ys) = xs @ y # (a, x) # ys"
  by (induction xs) auto

lemma insert_after_split: "a \<notin> fst ` set xs \<Longrightarrow> insert_after a y (xs @ (a, x) # ys) = xs @ (a, x) # y # ys"
  by (induction xs) auto

lemma remove_implements:
  assumes "implements (h, l) (xs @ (a, v) # ys, k)" "remove_node a (h, l) = (h', l')"
  shows "implements (h', l') (xs @ ys, k)" "nd_value (h' ! a) = v"
proof -
  have i: "list_of h l (map fst xs @ a # map fst ys)" "node_values h (map fst xs @ a # map fst ys) = map snd xs @ v # map snd ys" "k = length h"
      "\<And>b. b < length h \<Longrightarrow> b \<notin> fst ` set (xs @ (a, v) # ys) \<Longrightarrow> nd_removed (h ! b)"
    using assms(1) by (auto simp: implements_def)
  have l: "linked h None (map fst xs @ a # map fst ys) None" "distinct (map fst xs @ a # map fst ys)"
    using i(1) by (simp_all only: list_of_def)
  note rem = remove_list [OF l assms(2)]
  have vals: "node_values h' as = node_values h as" for as using rem(6) by (intro node_values_cong)
  have "nd_removed (h' ! b)" if "b < length h" "b \<notin> fst ` set (xs @ ys)" for b
    using that i(4) rem(5) rem(7) [of b] by (cases "b = a") auto
  then show "implements (h', l') (xs @ ys, k)"
    using remove_list_of [OF i(1) assms(2)] rem(4) i(2,3) vals by (simp add: implements_def append_eq_append_conv)
  show "nd_value (h' ! a) = v" using i(2) rem(6) [of a] by (simp add: append_eq_append_conv)
qed


lemma implementsD:
  assumes "implements (h, l) (xs, k)"
  shows "ll_head l = first_or None (map fst xs)" "ll_tail l = last_or None (map fst xs)" "ll_count l = int (length xs)"
    "distinct (map fst xs)" "k = length h" "linked h None (map fst xs) None"
    "a < k \<Longrightarrow> nd_removed (h ! a) \<longleftrightarrow> a \<notin> fst ` set xs"
  using assms list_of_bound [of h l "map fst xs" a] by (auto simp: implements_def list_of_def)

text \<open>The neighbours a node has on the heap are its neighbours in the list.\<close>

lemma neighbours:
  assumes "implements (h, l) (xs @ (a, v) # ys, k)"
  shows "nd_prev (h ! a) = last_or None (map fst xs)" "nd_next (h ! a) = first_or None (map fst ys)" "a < length h"
  using implementsD(6) [OF assms] by (simp_all add: linked_append)

lemma newNode_old: "newNode v h = (h1, a) \<Longrightarrow> b < length h \<Longrightarrow> h1 ! b = h ! b"
  by (auto simp: newNode_def nth_append)

lemma addFirst_implements:
  assumes "implements s d"
  shows "\<exists>s'. linked_op (Add_first v) s = (s', snd (deque_op (Add_first v) d)) \<and> implements s' (fst (deque_op (Add_first v) d))"
proof -
  obtain h l xs k where sd: "s = (h, l)" "d = (xs, k)" by (metis surj_pair)
  obtain h1 a h' l' r where r: "newNode v h = (h1, a)" "insertInBetween a None (ll_head l) (h1, l) = ((h', l'), r)"
    by (metis surj_pair)
  with insert_implements [of h l "[]" xs k v h1 a h' l' r] assms sd implementsD(1) [of h l xs k] show ?thesis
    by (auto simp: addFirst_def)
qed

lemma addLast_implements:
  assumes "implements s d"
  shows "\<exists>s'. linked_op (Add_last v) s = (s', snd (deque_op (Add_last v) d)) \<and> implements s' (fst (deque_op (Add_last v) d))"
proof -
  obtain h l xs k where sd: "s = (h, l)" "d = (xs, k)" by (metis surj_pair)
  obtain h1 a h' l' r where r: "newNode v h = (h1, a)" "insertInBetween a (ll_tail l) None (h1, l) = ((h', l'), r)"
    by (metis surj_pair)
  with insert_implements [of h l xs "[]" k v h1 a h' l' r] assms sd implementsD(2) [of h l xs k] show ?thesis
    by (auto simp: addLast_def)
qed

lemma addBefore_implements:
  assumes "implements s d" "a < snd d"
  shows "\<exists>s'. linked_op (Add_before a v) s = (s', snd (deque_op (Add_before a v) d)) \<and> implements s' (fst (deque_op (Add_before a v) d))"
proof -
  obtain h l zs k where sd: "s = (h, l)" "d = (zs, k)" by (metis surj_pair)
  show ?thesis
  proof (cases "a \<in> fst ` set zs")
    case False
    with assms sd implementsD(7) [of h l zs k a] show ?thesis by (simp add: addBefore_def)
  next
    case True
    with split_at_node [OF True] implementsD(4) assms(1) sd obtain xs x ys where zs: "zs = xs @ (a, x) # ys" "a \<notin> fst ` set xs" by metis
    note nb = neighbours [of h l xs a x ys k]
    obtain h1 b h' l' r where r: "newNode v h = (h1, b)" "insertInBetween b (nd_prev (h ! a)) (Some a) (h1, l) = ((h', l'), r)"
      by (metis surj_pair)
    from insert_implements [of h l xs "(a, x) # ys" k v h1 b h' l' r] assms(1) sd zs nb r
    have "implements (h', l') (xs @ (k, v) # (a, x) # ys, k + 1)" "r = k" by simp_all
    moreover have "\<not> nd_removed (h ! a)" "h1 ! a = h ! a"
      using True implementsD(7) [of h l zs k a] assms sd zs nb newNode_old [OF r(1), of a] by simp_all
    ultimately show ?thesis using r sd zs True by (simp add: addBefore_def insert_before_split)
  qed
qed

lemma addAfter_implements:
  assumes "implements s d" "a < snd d"
  shows "\<exists>s'. linked_op (Add_after a v) s = (s', snd (deque_op (Add_after a v) d)) \<and> implements s' (fst (deque_op (Add_after a v) d))"
proof -
  obtain h l zs k where sd: "s = (h, l)" "d = (zs, k)" by (metis surj_pair)
  show ?thesis
  proof (cases "a \<in> fst ` set zs")
    case False
    with assms sd implementsD(7) [of h l zs k a] show ?thesis by (simp add: addAfter_def)
  next
    case True
    with split_at_node [OF True] implementsD(4) assms(1) sd obtain xs x ys where zs: "zs = xs @ (a, x) # ys" "a \<notin> fst ` set xs" by metis
    note nb = neighbours [of h l xs a x ys k]
    obtain h1 b h' l' r where r: "newNode v h = (h1, b)" "insertInBetween b (Some a) (nd_next (h ! a)) (h1, l) = ((h', l'), r)"
      by (metis surj_pair)
    from insert_implements [of h l "xs @ [(a, x)]" ys k v h1 b h' l' r] assms(1) sd zs nb r
    have "implements (h', l') (xs @ (a, x) # (k, v) # ys, k + 1)" "r = k" by simp_all
    moreover have "\<not> nd_removed (h ! a)" "h1 ! a = h ! a"
      using True implementsD(7) [of h l zs k a] assms sd zs nb newNode_old [OF r(1), of a] by simp_all
    ultimately show ?thesis using r sd zs True by (simp add: addAfter_def insert_after_split)
  qed
qed

lemma filter_absent: "a \<notin> fst ` set xs \<Longrightarrow> filter (\<lambda>x. fst x \<noteq> a) xs = xs"
  by (induction xs) auto

lemma remove_node_implements:
  assumes "implements s d" "a < snd d"
  shows "\<exists>s'. linked_op (Remove a) s = (s', snd (deque_op (Remove a) d)) \<and> implements s' (fst (deque_op (Remove a) d))"
proof -
  obtain h l zs k where sd: "s = (h, l)" "d = (zs, k)" by (metis surj_pair)
  show ?thesis
  proof (cases "a \<in> fst ` set zs")
    case False
    then have "filter (\<lambda>x. fst x \<noteq> a) zs = zs" by (rule filter_absent)
    with False assms sd implementsD(7) [of h l zs k a] show ?thesis by (simp add: remove_removed)
  next
    case True
    with split_at_node [OF True] implementsD(4) assms(1) sd obtain xs x ys
      where zs: "zs = xs @ (a, x) # ys" "a \<notin> fst ` set xs" "a \<notin> fst ` set ys" by metis
    then have "filter (\<lambda>x. fst x \<noteq> a) zs = xs @ ys" by (simp add: filter_absent)
    with remove_implements(1) [of h l xs a x ys k] assms(1) sd zs(1) show ?thesis by (metis deque_op.simps(5) fst_conv snd_conv linked_op.simps(5) surj_pair)
  qed
qed

lemma removeFirst_implements:
  assumes "implements s d"
  shows "\<exists>s'. linked_op Remove_first s = (s', snd (deque_op Remove_first d)) \<and> implements s' (fst (deque_op Remove_first d))"
proof -
  obtain h l zs k where sd: "s = (h, l)" "d = (zs, k)" by (metis surj_pair)
  show ?thesis
  proof (cases zs)
    case Nil
    with assms sd implementsD(1) [of h l zs k] show ?thesis by (simp add: removeFirst_def)
  next
    case (Cons z ys)
    obtain a x where z: "z = (a, x)" by (cases z)
    obtain h' l' where r: "remove_node a (h, l) = (h', l')" by (cases "remove_node a (h, l)")
    from remove_implements [of h l "[]" a x ys k, OF _ r] assms sd Cons z implementsD(1) [of h l zs k] r
    show ?thesis by (simp add: removeFirst_def Let_def)
  qed
qed

lemma removeLast_implements:
  assumes "implements s d"
  shows "\<exists>s'. linked_op Remove_last s = (s', snd (deque_op Remove_last d)) \<and> implements s' (fst (deque_op Remove_last d))"
proof -
  obtain h l zs k where sd: "s = (h, l)" "d = (zs, k)" by (metis surj_pair)
  show ?thesis
  proof (cases zs rule: rev_cases)
    case Nil
    with assms sd implementsD(2) [of h l zs k] show ?thesis by (simp add: removeLast_def)
  next
    case (snoc xs z)
    obtain a x where z: "z = (a, x)" by (cases z)
    obtain h' l' where r: "remove_node a (h, l) = (h', l')" by (cases "remove_node a (h, l)")
    from remove_implements [of h l xs a x "[]" k, OF _ r] assms sd snoc z implementsD(2) [of h l zs k] r
    show ?thesis by (simp add: removeLast_def Let_def)
  qed
qed

lemma linked_op_implements:
  assumes "implements s d" "\<forall>a. node_of_op oper = Some a \<longrightarrow> a < snd d"
  shows "\<exists>s'. linked_op oper s = (s', snd (deque_op oper d)) \<and> implements s' (fst (deque_op oper d))"
proof (cases oper)
  case (Add_first v)
  show ?thesis unfolding Add_first by (rule addFirst_implements [OF assms(1)])
next
  case (Add_last v)
  show ?thesis unfolding Add_last by (rule addLast_implements [OF assms(1)])
next
  case (Add_before a v)
  show ?thesis unfolding Add_before by (rule addBefore_implements [OF assms(1)]) (use assms(2) Add_before in simp)
next
  case (Add_after a v)
  show ?thesis unfolding Add_after by (rule addAfter_implements [OF assms(1)]) (use assms(2) Add_after in simp)
next
  case (Remove a)
  show ?thesis unfolding Remove by (rule remove_node_implements [OF assms(1)]) (use assms(2) Remove in simp)
next
  case Remove_first
  show ?thesis unfolding Remove_first by (rule removeFirst_implements [OF assms(1)])
next
  case Remove_last
  show ?thesis unfolding Remove_last by (rule removeLast_implements [OF assms(1)])
qed

text \<open>Sequences of operations; an operation may name any node that was made before it.\<close>

fun run_ops :: "('o \<Rightarrow> 's \<Rightarrow> 's \<times> 'r) \<Rightarrow> 'o list \<Rightarrow> 's \<Rightarrow> 's \<times> 'r list" where
  "run_ops step [] s = (s, [])"
| "run_ops step (oper # ops) s = (case step oper s of (s', r) \<Rightarrow> (case run_ops step ops s' of (s'', rs) \<Rightarrow> (s'', r # rs)))"

fun ops_ok :: "'v list_op list \<Rightarrow> 'v deque \<Rightarrow> bool" where
  "ops_ok [] d = True"
| "ops_ok (oper # ops) d \<longleftrightarrow> (case node_of_op oper of Some a \<Rightarrow> a < snd d | None \<Rightarrow> True) \<and> ops_ok ops (fst (deque_op oper d))"

lemma run_implements:
  assumes "implements s d" "ops_ok ops d"
  shows "snd (run_ops linked_op ops s) = snd (run_ops deque_op ops d) \<and>
    implements (fst (run_ops linked_op ops s)) (fst (run_ops deque_op ops d))"
  using assms
proof (induction ops arbitrary: s d)
  case (Cons oper ops)
  have "\<forall>a. node_of_op oper = Some a \<longrightarrow> a < snd d" using Cons.prems(2) by auto
  from linked_op_implements [OF Cons.prems(1) this] obtain s' where
    s': "linked_op oper s = (s', snd (deque_op oper d))" "implements s' (fst (deque_op oper d))" by blast
  from Cons.IH [OF s'(2)] Cons.prems(2) s'(1) show ?case by (simp add: case_prod_beta)
qed simp

text \<open>
  C12. The linked list refines the abstract one: for every sequence of insertions at the ends and next
  to nodes and of removals, repeated removals of a node included, a new list gives the answers of
  the abstract list, errors included; in the end the iterator ends and yields the values of the
  abstract list in its order, and the count is their number.
\<close>

theorem linked_list_refines_deque:
  assumes "ops_ok ops ([], 0)"
  shows "snd (run_ops linked_op ops ([], newLinkedList)) = snd (run_ops deque_op ops ([], 0)) \<and>
    iterate_list (fst (run_ops linked_op ops ([], newLinkedList))) = Some (map snd (fst (fst (run_ops deque_op ops ([], 0))))) \<and>
    ll_count (snd (fst (run_ops linked_op ops ([], newLinkedList)))) = int (length (fst (fst (run_ops deque_op ops ([], 0)))))"
proof -
  have "implements ([], newLinkedList) ([] :: (nat \<times> 'a) list, 0)" by (simp add: implements_def)
  note run = run_implements [OF this assms]
  obtain h l xs k where e: "fst (run_ops linked_op ops ([], newLinkedList)) = (h, l)" "fst (run_ops deque_op ops ([], 0)) = (xs, k)"
    by (metis surj_pair)
  with run have "implements (h, l) (xs, k)" by simp
  then have "iterate_list (h, l) = Some (map snd xs)" "ll_count l = int (length xs)"
    using iterate_list_of [of h l "map fst xs"] implementsD(3) by (auto simp: implements_def)
  with run e show ?thesis by simp
qed

theorem linked_list_refines_deque_witness:
  "let ops = [Add_last (1 :: int), Add_first 2, Add_before 0 3, Remove 2, Remove 2, Add_after 2 9, Add_after 1 4, Remove_last, Remove_first]
   in snd (run_ops linked_op ops ([], newLinkedList)) = snd (run_ops deque_op ops ([], 0)) \<and>
     iterate_list (fst (run_ops linked_op ops ([], newLinkedList))) = Some (map snd (fst (fst (run_ops deque_op ops ([], 0))))) \<and>
     ll_count (snd (fst (run_ops linked_op ops ([], newLinkedList)))) = int (length (fst (fst (run_ops deque_op ops ([], 0)))))"
  unfolding Let_def by (rule linked_list_refines_deque) simp

section \<open>Appending one list to another\<close>

lemma concat_appends:
  assumes "list_of h l as" "list_of h m bs" "set as \<inter> set bs = {}" "as \<noteq> []" "concat_list h l m = (h', l', m')"
  shows "list_of h' l' (as @ bs)" "list_of h' m' []" "same_nodes h h'"
proof -
  obtain cs c where as: "as = cs @ [c]" using assms(4) by (cases as rule: rev_cases) auto
  have l: "distinct (cs @ [c])" "linked h None (cs @ [c]) None" "ll_head l = first_or None (cs @ [c])" "ll_tail l = Some c"
    "ll_count l = int (length as)" and m: "distinct bs" "linked h None bs None" "ll_head m = first_or None bs"
    "ll_tail m = last_or None bs" "ll_count m = int (length bs)"
    using assms(1,2) as by (simp_all add: list_of_def)
  show "same_nodes h h'"
    using assms(5) l(4) by (auto simp: concat_list_def Let_def same_nodes_def nth_update_if split: if_splits option.splits)
  show "list_of h' m' []"
    using assms(2,5) m(3-5) by (auto simp: concat_list_def Let_def list_of_def split: if_splits)
  show "list_of h' l' (as @ bs)"
  proof (cases bs)
    case Nil
    with assms(1,5) m(5) show ?thesis by (simp add: concat_list_def)
  next
    case (Cons b bs')
    with assms(3) as l(1) m(1) have ne: "b \<noteq> c" "b \<notin> set cs" "b \<notin> set bs'" "c \<notin> set cs" "c \<notin> set bs'" by auto
    from assms(5) l(4) m(3-5) Cons have "h' = set_prev b (Some c) (set_next c (Some b) h)"
      "l' = l\<lparr>ll_tail := last_or None bs, ll_count := ll_count l + ll_count m\<rparr>"
      by (auto simp: concat_list_def Let_def)
    with l m ne Cons as assms(3) show ?thesis by (auto simp: list_of_def linked_append)
  qed
qed

text \<open>
  Appending to an empty list does not set its head: the list counts the values that were appended,
  and neither the iterator nor \<open>removeFirst\<close> finds them.
\<close>

lemma concat_to_empty_loses:
  assumes "list_of h m bs" "bs \<noteq> []" "concat_list h newLinkedList m = (h', l', m')"
  shows "ll_count l' = int (length bs)" "iterate_list (h', l') = Some []" "removeFirst (h', l') = ((h', l'), None)"
  using assms by (auto simp: concat_list_def Let_def newLinkedList_def list_of_def iterate_list_def iterate_nodes.simps removeFirst_def)

end
