(* ===== verification/Message_Cache.thy ===== *)
theory Message_Cache
  imports Linked_List
begin

text \<open>
  \<open>_consumer_cache.js\<close>: the cache of fetched messages between librdkafka and the workers of the
  consumer. There is a queue of messages for each partition. A worker is assigned a partition, takes
  messages from it and gives it back; meanwhile no other worker gets messages of that partition.

  The objects of class \<open>PerPartitionMessageCache\<close> are shared by the cache and the workers, so they live
  in a store and are known by their index; their own list is private. The nodes of the lists of
  available and of assigned partitions are on one heap, their values are indices of objects.
\<close>

section \<open>State\<close>

record topic_partition =
  tp_topic :: string
  tp_partition :: int

definition partitionKey :: "'a topic_partition_scheme \<Rightarrow> string" where
  "partitionKey tp = tp_topic tp @ ''|'' @ int_str (tp_partition tp)"

type_synonym 'a msg = "'a topic_partition_scheme"

record 'm per_partition_cache =
  pc_nodes :: "'m heap"
  pc_cache :: linked_list
  pc_key :: string
  pc_assigned :: bool
  pc_node :: "nat option"

text \<open>The promise that workers wait for is renewed at each notification; \<open>mc_notified\<close> counts them.\<close>

record 'm message_cache =
  mc_ppcs :: "'m per_partition_cache list"
  mc_nodes :: "nat heap"
  mc_size :: int
  mc_tpToPpc :: "(string, nat) jsmap"
  mc_available :: linked_list
  mc_assigned :: linked_list
  mc_notified :: nat

section \<open>One partition\<close>

definition newPerPartitionCache :: "string \<Rightarrow> 'm per_partition_cache" where
  "newPerPartitionCache key = \<lparr>pc_nodes = [], pc_cache = newLinkedList, pc_key = key, pc_assigned = False, pc_node = None\<rparr>"

definition ppc_size :: "'m per_partition_cache \<Rightarrow> int" where
  "ppc_size ppc = ll_count (pc_cache ppc)"

definition ppc_addLast :: "'m \<Rightarrow> 'm per_partition_cache \<Rightarrow> 'm per_partition_cache" where
  "ppc_addLast message ppc =
     (case addLast message (pc_nodes ppc, pc_cache ppc) of ((h, l), _) \<Rightarrow> ppc\<lparr>pc_nodes := h, pc_cache := l\<rparr>)"

definition ppc_addFirst :: "'m \<Rightarrow> 'm per_partition_cache \<Rightarrow> 'm per_partition_cache" where
  "ppc_addFirst message ppc =
     (case addFirst message (pc_nodes ppc, pc_cache ppc) of ((h, l), _) \<Rightarrow> ppc\<lparr>pc_nodes := h, pc_cache := l\<rparr>)"

definition ppc_next :: "'m per_partition_cache \<Rightarrow> 'm per_partition_cache \<times> 'm option" where
  "ppc_next ppc =
     (case removeFirst (pc_nodes ppc, pc_cache ppc) of ((h, l), m) \<Rightarrow> (ppc\<lparr>pc_nodes := h, pc_cache := l\<rparr>, m))"

text \<open>The loop of \<open>_nextN\<close>; an element that \<open>removeFirst\<close> does not find is a null in the array.\<close>

fun ppc_take :: "nat \<Rightarrow> 'm per_partition_cache \<Rightarrow> 'm per_partition_cache \<times> 'm option list" where
  "ppc_take 0 ppc = (ppc, [])"
| "ppc_take (Suc n) ppc = (case ppc_next ppc of (ppc1, m) \<Rightarrow> (case ppc_take n ppc1 of (ppc2, ms) \<Rightarrow> (ppc2, m # ms)))"

definition ppc_nextN :: "int \<Rightarrow> 'm per_partition_cache \<Rightarrow> 'm per_partition_cache \<times> 'm option list" where
  "ppc_nextN n ppc =
     (let len = ll_count (pc_cache ppc);
          n = (if n < 0 \<or> len < n then len else n)
      in ppc_take (nat n) ppc)"

section \<open>The cache\<close>

definition reinit :: "'m message_cache \<Rightarrow> 'm message_cache" where
  "reinit mc = mc\<lparr>mc_tpToPpc := [], mc_available := newLinkedList, mc_assigned := newLinkedList, mc_size := 0\<rparr>"

definition newMessageCache :: "'m message_cache" where
  "newMessageCache =
     reinit \<lparr>mc_ppcs = [], mc_nodes = [], mc_size = 0, mc_tpToPpc = [], mc_available = newLinkedList,
       mc_assigned = newLinkedList, mc_notified = 0\<rparr>"

abbreviation upd_ppc :: "nat \<Rightarrow> ('m per_partition_cache \<Rightarrow> 'm per_partition_cache) \<Rightarrow> 'm message_cache \<Rightarrow> 'm message_cache" where
  "upd_ppc p f mc \<equiv> mc\<lparr>mc_ppcs := (mc_ppcs mc)[p := f (mc_ppcs mc ! p)]\<rparr>"

definition notifyAvailablePartitions :: "'m message_cache \<Rightarrow> 'm message_cache" where
  "notifyAvailablePartitions mc = mc\<lparr>mc_notified := mc_notified mc + 1\<rparr>"

text \<open>Removing a node from one of the lists; without a node, reading its property throws.\<close>

definition no_node :: js_error where
  "no_node = TypeError ''Cannot read properties of null (reading '_removed')''"

definition removeAvailable :: "nat option \<Rightarrow> ('m message_cache, unit) meth" where
  "removeAvailable node mc =
     (case node of
        None \<Rightarrow> (mc, Inl no_node)
      | Some n \<Rightarrow> (case remove_node n (mc_nodes mc, mc_available mc) of (h, l) \<Rightarrow> (mc\<lparr>mc_nodes := h, mc_available := l\<rparr>, Inr ())))"

definition removeAssigned :: "nat option \<Rightarrow> ('m message_cache, unit) meth" where
  "removeAssigned node mc =
     (case node of
        None \<Rightarrow> (mc, Inl no_node)
      | Some n \<Rightarrow> (case remove_node n (mc_nodes mc, mc_assigned mc) of (h, l) \<Rightarrow> (mc\<lparr>mc_nodes := h, mc_assigned := l\<rparr>, Inr ())))"

definition addAvailable :: "nat \<Rightarrow> 'm message_cache \<Rightarrow> 'm message_cache" where
  "addAvailable p mc =
     (case addLast p (mc_nodes mc, mc_available mc) of
        ((h, l), node) \<Rightarrow> upd_ppc p (\<lambda>ppc. ppc\<lparr>pc_node := Some node\<rparr>) (mc\<lparr>mc_nodes := h, mc_available := l\<rparr>))"

definition assignNewPartition :: "'m message_cache \<Rightarrow> 'm message_cache \<times> nat option" where
  "assignNewPartition mc =
     (case removeFirst (mc_nodes mc, mc_available mc) of
        ((h, l), None) \<Rightarrow> (mc\<lparr>mc_nodes := h, mc_available := l\<rparr>, None)
      | ((h, l), Some p) \<Rightarrow>
          (case addLast p (h, mc_assigned mc) of
             ((h, as), node) \<Rightarrow>
               (upd_ppc p (\<lambda>ppc. ppc\<lparr>pc_node := Some node, pc_assigned := True\<rparr>)
                  (mc\<lparr>mc_nodes := h, mc_available := l, mc_assigned := as\<rparr>), Some p)))"

definition removeEmptyPartition :: "nat \<Rightarrow> ('m message_cache, unit) meth" where
  "removeEmptyPartition p mc =
     m_bind (removeAssigned (pc_node (mc_ppcs mc ! p)))
       (\<lambda>_ mc. let mc = upd_ppc p (\<lambda>ppc. ppc\<lparr>pc_assigned := False, pc_node := None\<rparr>) mc
               in (mc\<lparr>mc_tpToPpc := jm_delete (pc_key (mc_ppcs mc ! p)) (mc_tpToPpc mc)\<rparr>, Inr ())) mc"

definition add_message :: "'a msg \<Rightarrow> bool \<Rightarrow> 'a msg message_cache \<Rightarrow> 'a msg message_cache" where
  "add_message message head mc =
     (let key = partitionKey message;
          (mc, p) =
            (case jm_get (mc_tpToPpc mc) key of
               Some p \<Rightarrow> (mc, p)
             | None \<Rightarrow>
                 let p = length (mc_ppcs mc);
                     mc = mc\<lparr>mc_ppcs := mc_ppcs mc @ [newPerPartitionCache key], mc_tpToPpc := jm_set key p (mc_tpToPpc mc)\<rparr>
                 in (notifyAvailablePartitions (addAvailable p mc), p))
      in if head then upd_ppc p (ppc_addFirst message) mc else upd_ppc p (ppc_addLast message) mc)"

definition availableSize :: "'m message_cache \<Rightarrow> int" where "availableSize mc = ll_count (mc_available mc)"

definition assignedSize :: "'m message_cache \<Rightarrow> int" where "assignedSize mc = ll_count (mc_assigned mc)"

text \<open>One round of the loop of \<open>markStale\<close>, and the loop.\<close>

definition markStaleOne :: "'a topic_partition_scheme \<Rightarrow> ('m message_cache, unit) meth" where
  "markStaleOne topicPartition mc =
     (let key = partitionKey topicPartition
      in case jm_get (mc_tpToPpc mc) key of
           None \<Rightarrow> (mc, Inr ())
         | Some p \<Rightarrow>
             (let ppc = mc_ppcs mc ! p;
                  mc = mc\<lparr>mc_size := mc_size mc - ppc_size ppc\<rparr>
              in m_bind (if pc_assigned ppc then removeAssigned (pc_node ppc) else removeAvailable (pc_node ppc))
                   (\<lambda>_ mc. (upd_ppc p (\<lambda>ppc. ppc\<lparr>pc_assigned := False\<rparr>)
                              (mc\<lparr>mc_tpToPpc := jm_delete key (mc_tpToPpc mc)\<rparr>), Inr ())) mc))"

fun markStale :: "'a topic_partition_scheme list \<Rightarrow> ('m message_cache, unit) meth" where
  "markStale [] mc = (mc, Inr ())"
| "markStale (tp # tps) mc = m_bind (markStaleOne tp) (\<lambda>_. markStale tps) mc"

definition addMessages :: "'a msg list \<Rightarrow> 'a msg message_cache \<Rightarrow> 'a msg message_cache" where
  "addMessages messages mc =
     (let mc = fold (\<lambda>message. add_message message False) messages mc
      in mc\<lparr>mc_size := mc_size mc + int (length messages)\<rparr>)"

definition returnMessages :: "'a msg list \<Rightarrow> 'a msg message_cache \<Rightarrow> 'a msg message_cache" where
  "returnMessages messages mc =
     (let mc = fold (\<lambda>message. add_message message True) (rev messages) mc
      in mc\<lparr>mc_size := mc_size mc + int (length messages)\<rparr>)"

definition return_ppc :: "nat \<Rightarrow> ('m message_cache, unit) meth" where
  "return_ppc p mc =
     (if \<not> pc_assigned (mc_ppcs mc ! p) then (mc, Inr ())
      else if pc_node (mc_ppcs mc ! p) \<noteq> None
      then m_bind (removeAssigned (pc_node (mc_ppcs mc ! p)))
             (\<lambda>_ mc. (notifyAvailablePartitions (upd_ppc p (\<lambda>ppc. ppc\<lparr>pc_assigned := False\<rparr>) (addAvailable p mc)), Inr ())) mc
      else (mc, Inr ()))"

text \<open>The partition a call works on: the one given back if it is still assigned, or a new one.\<close>

definition choosePartition :: "nat option \<Rightarrow> 'm message_cache \<Rightarrow> 'm message_cache \<times> nat option" where
  "choosePartition ppc mc =
     (case ppc of
        Some p \<Rightarrow> if \<not> pc_assigned (mc_ppcs mc ! p) then assignNewPartition mc else (mc, Some p)
      | None \<Rightarrow> assignNewPartition mc)"

text \<open>\<open>next\<close> and \<open>nextN\<close> call themselves when a partition has run out; \<open>None\<close> if that does not end.\<close>

partial_function (option) next_cache ::
    "nat option \<Rightarrow> 'm message_cache \<Rightarrow> ('m message_cache \<times> ('m \<times> nat) option result) option" where
  "next_cache ppc mc =
     (case choosePartition ppc mc of
        (mc, None) \<Rightarrow> Some (mc, Inr None)
      | (mc, Some p) \<Rightarrow>
          (case ppc_next (mc_ppcs mc ! p) of
             (ppc', Some m) \<Rightarrow>
               Some ((upd_ppc p (\<lambda>_. ppc') mc)\<lparr>mc_size := mc_size mc - 1\<rparr>, Inr (Some (m, p)))
           | (ppc', None) \<Rightarrow>
               (case removeEmptyPartition p (upd_ppc p (\<lambda>_. ppc') mc) of
                  (mc, Inl e) \<Rightarrow> Some (mc, Inl e)
                | (mc, Inr _) \<Rightarrow> next_cache None mc)))"

partial_function (option) nextN_cache ::
    "nat option \<Rightarrow> int \<Rightarrow> 'm message_cache \<Rightarrow> ('m message_cache \<times> ('m option list \<times> nat) option result) option" where
  "nextN_cache ppc n mc =
     (case choosePartition ppc mc of
        (mc, None) \<Rightarrow> Some (mc, Inr None)
      | (mc, Some p) \<Rightarrow>
          (case ppc_nextN n (mc_ppcs mc ! p) of
             (ppc', ms) \<Rightarrow>
               if ms \<noteq> []
               then Some ((upd_ppc p (\<lambda>_. ppc') mc)\<lparr>mc_size := mc_size mc - int (length ms)\<rparr>, Inr (Some (ms, p)))
               else (case removeEmptyPartition p (upd_ppc p (\<lambda>_. ppc') mc) of
                       (mc, Inl e) \<Rightarrow> Some (mc, Inl e)
                     | (mc, Inr _) \<Rightarrow> nextN_cache None n mc)))"

definition clear_cache :: "'m message_cache \<Rightarrow> 'm message_cache" where
  "clear_cache mc = reinit (fold (\<lambda>(key, p). upd_ppc p (\<lambda>ppc. ppc\<lparr>pc_assigned := False\<rparr>)) (mc_tpToPpc mc) mc)"

end
