(* ===== verification/Message_Cache_Spec.thy ===== *)
theory Message_Cache_Spec
  imports Message_Cache
begin

text \<open>
  What the message cache promises: two lists of partitions with their queues, those that are available,
  in the order in which they are given out, and those that are assigned. The cache implements it.
\<close>

section \<open>The abstract cache\<close>

type_synonym 'm part = "nat \<times> string \<times> 'm list"

record 'm part_queues =
  pq_available :: "'m part list"
  pq_assigned :: "'m part list"
  pq_next :: nat

definition parts :: "'m part_queues \<Rightarrow> 'm part list" where
  "parts q = pq_available q @ pq_assigned q"

abbreviation part_id :: "'m part \<Rightarrow> nat" where "part_id x \<equiv> fst x"

abbreviation part_key :: "'m part \<Rightarrow> string" where "part_key x \<equiv> fst (snd x)"

abbreviation part_queue :: "'m part \<Rightarrow> 'm list" where "part_queue x \<equiv> snd (snd x)"

definition queued :: "'m part_queues \<Rightarrow> nat" where
  "queued q = sum_list (map (\<lambda>x. length (part_queue x)) (parts q))"

definition on_queue :: "(string \<Rightarrow> bool) \<Rightarrow> ('m list \<Rightarrow> 'm list) \<Rightarrow> 'm part list \<Rightarrow> 'm part list" where
  "on_queue P f = map (\<lambda>(p, k, ms). (p, k, if P k then f ms else ms))"

definition spec_add :: "'a msg \<Rightarrow> bool \<Rightarrow> 'a msg part_queues \<Rightarrow> 'a msg part_queues" where
  "spec_add m head q =
     (let key = partitionKey m; put = (\<lambda>ms. if head then m # ms else ms @ [m])
      in if key \<in> part_key ` set (parts q)
         then q\<lparr>pq_available := on_queue ((=) key) put (pq_available q), pq_assigned := on_queue ((=) key) put (pq_assigned q)\<rparr>
         else q\<lparr>pq_available := pq_available q @ [(pq_next q, key, [m])], pq_next := pq_next q + 1\<rparr>)"

definition spec_stale :: "string \<Rightarrow> 'm part_queues \<Rightarrow> 'm part_queues" where
  "spec_stale key q =
     q\<lparr>pq_available := filter (\<lambda>x. part_key x \<noteq> key) (pq_available q), pq_assigned := filter (\<lambda>x. part_key x \<noteq> key) (pq_assigned q)\<rparr>"

definition spec_return :: "nat \<Rightarrow> 'm part_queues \<Rightarrow> 'm part_queues" where
  "spec_return p q =
     q\<lparr>pq_available := pq_available q @ filter (\<lambda>x. part_id x = p) (pq_assigned q),
       pq_assigned := filter (\<lambda>x. part_id x \<noteq> p) (pq_assigned q)\<rparr>"

text \<open>The first available partition that has messages is assigned, and at most \<open>take_n ms\<close> of them are given out.\<close>

fun spec_from :: "('m list \<Rightarrow> nat) \<Rightarrow> 'm part list \<Rightarrow> 'm part list \<Rightarrow> 'm part list \<times> 'm part list \<times> ('m list \<times> nat) option" where
  "spec_from cnt [] as = ([], as, None)"
| "spec_from cnt ((p, k, ms) # av) as =
     (if ms = [] then spec_from cnt av as else (av, as @ [(p, k, drop (cnt ms) ms)], Some (take (cnt ms) ms, p)))"

definition spec_take :: "('m list \<Rightarrow> nat) \<Rightarrow> nat option \<Rightarrow> 'm part_queues \<Rightarrow> 'm part_queues \<times> ('m list \<times> nat) option" where
  "spec_take cnt ppc q =
     (let fresh = (\<lambda>as. case spec_from cnt (pq_available q) as of (av, as, r) \<Rightarrow> (q\<lparr>pq_available := av, pq_assigned := as\<rparr>, r))
      in case find (\<lambda>x. Some (part_id x) = ppc) (pq_assigned q) of
           None \<Rightarrow> fresh (pq_assigned q)
         | Some (p, k, ms) \<Rightarrow>
             if ms = [] then fresh (filter (\<lambda>x. part_id x \<noteq> p) (pq_assigned q))
             else (q\<lparr>pq_assigned := on_queue ((=) k) (drop (cnt ms)) (pq_assigned q)\<rparr>, Some (take (cnt ms) ms, p)))"

definition spec_clear :: "'m part_queues \<Rightarrow> 'm part_queues" where
  "spec_clear q = q\<lparr>pq_available := [], pq_assigned := []\<rparr>"

definition spec_new :: "'m part_queues" where
  "spec_new = \<lparr>pq_available = [], pq_assigned = [], pq_next = 0\<rparr>"

section \<open>Two lists on one heap\<close>

definition two_lists :: "'v heap \<Rightarrow> linked_list \<Rightarrow> linked_list \<Rightarrow> (nat \<times> 'v) list \<Rightarrow> (nat \<times> 'v) list \<Rightarrow> bool" where
  "two_lists h a b az bz \<longleftrightarrow>
     list_of h a (map fst az) \<and> list_of h b (map fst bz) \<and> node_values h (map fst az) = map snd az \<and>
     node_values h (map fst bz) = map snd bz \<and> fst ` set az \<inter> fst ` set bz = {}"

lemma two_lists_swap: "two_lists h a b az bz \<Longrightarrow> two_lists h b a bz az"
  by (auto simp: two_lists_def)

lemma two_lists_remove:
  assumes "two_lists h a b (xs @ (n, p) # ys) bz" "remove_node n (h, a) = (h', a')"
  shows "two_lists h' a' b (xs @ ys) bz" "nd_value (h' ! n) = p"
proof -
  have t: "list_of h a (map fst xs @ n # map fst ys)" "list_of h b (map fst bz)"
      "node_values h (map fst xs @ n # map fst ys) = map snd xs @ p # map snd ys"
      "node_values h (map fst bz) = map snd bz" "fst ` set (xs @ (n, p) # ys) \<inter> fst ` set bz = {}"
    using assms(1) by (simp_all add: two_lists_def)
  have l: "linked h None (map fst xs @ n # map fst ys) None" "distinct (map fst xs @ n # map fst ys)"
    using t(1) by (simp_all only: list_of_def)
  note rem = remove_list [OF l assms(2)]
  have vals: "node_values h' as = node_values h as" for as using rem(6) by (intro node_values_cong)
  have "h' ! c = h ! c" if "c \<in> set (map fst bz)" for c
    using rem(8) [of c] that t(5) by auto
  then have "list_of h' b (map fst bz)" using list_of_frame [OF t(2)] rem(4) by simp
  moreover have "node_values h' (map fst xs) = map snd xs" "node_values h' (map fst ys) = map snd ys"
    "node_values h' (map fst bz) = map snd bz"
    using t(3,4) by (simp_all add: vals append_eq_append_conv)
  moreover have "fst ` set (xs @ ys) \<inter> fst ` set bz = {}" using t(5) by auto
  ultimately show "two_lists h' a' b (xs @ ys) bz"
    using remove_list_of [OF t(1) assms(2)] by (simp add: two_lists_def)
  show "nd_value (h' ! n) = p" using t(3) rem(6) [of n] by (simp add: append_eq_append_conv)
qed

lemma two_lists_addLast:
  assumes "two_lists h a b az bz" "addLast p (h, a) = ((h', a'), n)"
  shows "two_lists h' a' b (az @ [(n, p)]) bz"
proof -
  have t: "list_of h a (map fst az @ [])" "list_of h b (map fst bz)" "node_values h (map fst az) = map snd az"
      "node_values h (map fst bz) = map snd bz" "fst ` set az \<inter> fst ` set bz = {}"
    using assms(1) by (simp_all add: two_lists_def)
  obtain h1 c where c: "newNode p h = (h1, c)" by (cases "newNode p h")
  with assms(2) t(1) have ins: "insertInBetween c (last_or None (map fst az)) (first_or None []) (h1, a) = ((h', a'), n)"
    by (simp add: addLast_def list_of_def)
  note new = insert_new [OF t(1) c ins]
  note nodes = newNode_nodes [OF c new(3)]
  have "h' ! x = h ! x" if "x \<in> fst ` set bz" for x
    using new(4) [of x] list_of_bound [OF t(2)] t(5) that by auto
  then have "list_of h' b (map fst bz)" using list_of_frame [OF t(2)] nodes(1) by simp
  moreover have "x < length h" if "x \<in> fst ` set az \<union> fst ` set bz" for x
    using that list_of_bound [OF t(1), of x] list_of_bound [OF t(2), of x] by auto
  then have "node_values h' (map fst az) = node_values h (map fst az)" "node_values h' (map fst bz) = node_values h (map fst bz)"
    by (auto intro!: node_values_cong nodes(4))
  moreover have "length h \<notin> fst ` set bz" using list_of_bound [OF t(2), of "length h"] by auto
  ultimately show ?thesis
    using new(1,2) nodes(2) t(3-5) by (simp add: two_lists_def)
qed

lemma two_lists_removeFirst_Nil: "two_lists h a b [] bz \<Longrightarrow> removeFirst (h, a) = ((h, a), None)"
  by (simp add: two_lists_def list_of_def removeFirst_def)

lemma two_lists_removeFirst_Cons:
  assumes "two_lists h a b ((n, p) # ys) bz"
  obtains h' a' where "removeFirst (h, a) = ((h', a'), Some p)" "two_lists h' a' b ys bz"
proof -
  obtain h' a' where r: "remove_node n (h, a) = (h', a')" by (cases "remove_node n (h, a)")
  have "ll_head a = Some n" using assms by (simp add: two_lists_def list_of_def)
  with two_lists_remove [of h a b "[]" n p ys bz, OF _ r] assms r that show thesis
    by (simp add: removeFirst_def Let_def)
qed


section \<open>The queue of one partition\<close>

text \<open>A queue to which messages are added at both ends and from whose front they are taken.\<close>

locale message_queue =
  fixes contents :: "'q \<Rightarrow> 'm list \<Rightarrow> bool" and add_last :: "'m \<Rightarrow> 'q \<Rightarrow> 'q" and add_first :: "'m \<Rightarrow> 'q \<Rightarrow> 'q"
    and take_one :: "'q \<Rightarrow> 'q \<times> 'm option"
  assumes contents_last: "contents q ms \<Longrightarrow> contents (add_last m q) (ms @ [m])"
    and contents_first: "contents q ms \<Longrightarrow> contents (add_first m q) (m # ms)"
    and take_Nil: "contents q [] \<Longrightarrow> contents (fst (take_one q)) [] \<and> snd (take_one q) = None"
    and take_Cons: "contents q (m # ms) \<Longrightarrow> contents (fst (take_one q)) ms \<and> snd (take_one q) = Some m"
begin

primrec take_many :: "nat \<Rightarrow> 'q \<Rightarrow> 'q \<times> 'm option list" where
  "take_many 0 q = (q, [])"
| "take_many (Suc n) q = (case take_one q of (q1, m) \<Rightarrow> (case take_many n q1 of (q2, ms) \<Rightarrow> (q2, m # ms)))"

lemma take_many_contents:
  assumes "contents q ms" "n \<le> length ms"
  shows "contents (fst (take_many n q)) (drop n ms) \<and> snd (take_many n q) = map Some (take n ms)"
  using assms
proof (induction n arbitrary: q ms)
  case (Suc n)
  then obtain m ms' where ms: "ms = m # ms'" by (cases ms) auto
  with take_Cons [of q m ms'] Suc.prems Suc.IH [of "fst (take_one q)" ms'] show ?case by (simp add: case_prod_beta)
qed simp

lemma add_all_contents: "contents q ms \<Longrightarrow> contents (fold add_last ns q) (ms @ ns)"
  by (induction ns arbitrary: q ms) (use contents_last in fastforce)+

text \<open>First in, first out.\<close>

lemma first_in_first_out:
  "contents q [] \<Longrightarrow> snd (take_many (length ns) (fold add_last ns q)) = map Some ns"
  using add_all_contents [of q "[]" ns] take_many_contents [of "fold add_last ns q" ns "length ns"] by simp

end

definition holds :: "'m per_partition_cache \<Rightarrow> 'm list \<Rightarrow> bool" where
  "holds ppc ms \<longleftrightarrow> (\<exists>xs k. implements (pc_nodes ppc, pc_cache ppc) (xs, k) \<and> map snd xs = ms)"

lemma holds_new [simp]: "holds (newPerPartitionCache key) []"
  by (auto simp: holds_def newPerPartitionCache_def implements_def)

lemma holds_flags [simp]: "holds (ppc\<lparr>pc_assigned := b\<rparr>) ms = holds ppc ms" "holds (ppc\<lparr>pc_node := n\<rparr>) ms = holds ppc ms"
  by (simp_all add: holds_def)

lemma holds_size: "holds ppc ms \<Longrightarrow> ll_count (pc_cache ppc) = int (length ms)"
  by (auto simp: holds_def dest: implementsD(3))

lemma holds_addLast:
  assumes "holds ppc ms"
  shows "holds (ppc_addLast m ppc) (ms @ [m])"
proof -
  obtain xs k where "implements (pc_nodes ppc, pc_cache ppc) (xs, k)" "map snd xs = ms" using assms by (auto simp: holds_def)
  with addLast_implements [OF this(1), of m] show ?thesis
    by (auto simp: ppc_addLast_def holds_def split: prod.splits)
qed

lemma holds_addFirst:
  assumes "holds ppc ms"
  shows "holds (ppc_addFirst m ppc) (m # ms)"
proof -
  obtain xs k where "implements (pc_nodes ppc, pc_cache ppc) (xs, k)" "map snd xs = ms" using assms by (auto simp: holds_def)
  with addFirst_implements [OF this(1), of m] show ?thesis
    by (auto simp: ppc_addFirst_def holds_def split: prod.splits)
qed

lemma holds_next_Nil:
  assumes "holds ppc []"
  shows "holds (fst (ppc_next ppc)) [] \<and> snd (ppc_next ppc) = None"
proof -
  obtain k where "implements (pc_nodes ppc, pc_cache ppc) ([], k)" using assms by (auto simp: holds_def)
  from removeFirst_implements [OF this] this show ?thesis by (auto simp: ppc_next_def holds_def split: prod.splits)
qed

lemma holds_next_Cons:
  assumes "holds ppc (m # ms)"
  shows "holds (fst (ppc_next ppc)) ms \<and> snd (ppc_next ppc) = Some m"
proof -
  obtain a xs k where "implements (pc_nodes ppc, pc_cache ppc) ((a, m) # xs, k)" "map snd xs = ms"
    using assms by (auto simp: holds_def)
  with removeFirst_implements [OF this(1)] show ?thesis by (auto simp: ppc_next_def holds_def split: prod.splits)
qed

interpretation ppc_queue: message_queue holds ppc_addLast ppc_addFirst ppc_next
  by unfold_locales (auto intro: holds_addLast holds_addFirst dest: holds_next_Nil holds_next_Cons)

lemma ppc_take_many: "ppc_take n ppc = ppc_queue.take_many n ppc"
  by (induction n arbitrary: ppc) (simp_all split: prod.split)

text \<open>What taking and adding messages leaves alone.\<close>

definition same_ppc :: "'m per_partition_cache \<Rightarrow> 'm per_partition_cache \<Rightarrow> bool" where
  "same_ppc ppc ppc' \<longleftrightarrow> pc_key ppc' = pc_key ppc \<and> pc_assigned ppc' = pc_assigned ppc \<and> pc_node ppc' = pc_node ppc"

lemma same_ppc_ops [simp]:
  "same_ppc ppc (ppc_addLast m ppc)" "same_ppc ppc (ppc_addFirst m ppc)" "same_ppc ppc (fst (ppc_next ppc))" "same_ppc ppc ppc"
  by (simp_all add: same_ppc_def ppc_addLast_def ppc_addFirst_def ppc_next_def split: prod.split)

lemma same_ppc_take: "same_ppc ppc (fst (ppc_take n ppc))"
proof (induction n arbitrary: ppc)
  case (Suc n)
  from Suc [of "fst (ppc_next ppc)"] same_ppc_ops(3) [of ppc] show ?case
    by (auto simp: same_ppc_def split: prod.split)
qed simp

text \<open>How many messages \<open>_nextN\<close> takes.\<close>

definition count_n :: "int \<Rightarrow> 'm list \<Rightarrow> nat" where
  "count_n n ms = (if n < 0 \<or> int (length ms) < n then length ms else nat n)"

lemma holds_nextN:
  assumes "holds ppc ms"
  shows "holds (fst (ppc_nextN n ppc)) (drop (count_n n ms) ms)"
    and "snd (ppc_nextN n ppc) = map Some (take (count_n n ms) ms)" and "same_ppc ppc (fst (ppc_nextN n ppc))"
proof -
  have "ppc_nextN n ppc = ppc_take (count_n n ms) ppc" "count_n n ms \<le> length ms"
    by (auto simp: ppc_nextN_def Let_def holds_size [OF assms] count_n_def)
  with ppc_queue.take_many_contents [OF assms] show "holds (fst (ppc_nextN n ppc)) (drop (count_n n ms) ms)"
    "snd (ppc_nextN n ppc) = map Some (take (count_n n ms) ms)" "same_ppc ppc (fst (ppc_nextN n ppc))"
    by (simp_all add: ppc_take_many flip: ppc_take_many) (metis ppc_take_many same_ppc_take)+
qed


section \<open>The parts of a cache\<close>

text \<open>A part with the node that stands for it in one of the two lists.\<close>

definition part_ok :: "'m per_partition_cache list \<Rightarrow> bool \<Rightarrow> nat \<times> 'm part \<Rightarrow> bool" where
  "part_ok ps b = (\<lambda>(n, p, k, ms).
     p < length ps \<and> pc_key (ps ! p) = k \<and> pc_assigned (ps ! p) = b \<and> pc_node (ps ! p) = Some n \<and> holds (ps ! p) ms)"

abbreviation at_id :: "nat \<times> 'm part \<Rightarrow> nat" where "at_id x \<equiv> fst (snd x)"

abbreviation at_key :: "nat \<times> 'm part \<Rightarrow> string" where "at_key x \<equiv> fst (snd (snd x))"

definition node_ids :: "(nat \<times> 'm part) list \<Rightarrow> (nat \<times> nat) list" where
  "node_ids = map (\<lambda>x. (fst x, at_id x))"

definition map_view :: "(string, nat) jsmap \<Rightarrow> (nat \<times> 'm part) list \<Rightarrow> bool" where
  "map_view tp zs \<longleftrightarrow>
     distinct (map fst tp) \<and> (\<forall>k p. jm_get tp k = Some p \<longleftrightarrow> (k, p) \<in> (\<lambda>x. (at_key x, at_id x)) ` set zs)"

definition cache_view :: "'m message_cache \<Rightarrow> (nat \<times> 'm part) list \<Rightarrow> (nat \<times> 'm part) list \<Rightarrow> bool" where
  "cache_view mc az bz \<longleftrightarrow>
     two_lists (mc_nodes mc) (mc_available mc) (mc_assigned mc) (node_ids az) (node_ids bz) \<and>
     list_all (part_ok (mc_ppcs mc) False) az \<and> list_all (part_ok (mc_ppcs mc) True) bz \<and>
     distinct (map at_id (az @ bz)) \<and> distinct (map at_key (az @ bz)) \<and>
     map_view (mc_tpToPpc mc) (az @ bz) \<and>
     (\<forall>p<length (mc_ppcs mc). p \<notin> at_id ` set (az @ bz) \<longrightarrow> \<not> pc_assigned (mc_ppcs mc ! p))"

lemma node_ids_simps [simp]:
  "node_ids [] = []" "node_ids (x # xs) = (fst x, at_id x) # node_ids xs" "node_ids (xs @ ys) = node_ids xs @ node_ids ys"
  by (simp_all add: node_ids_def)

lemma part_ok_other [simp]: "at_id x \<noteq> p \<Longrightarrow> part_ok (ps[p := y]) b x = part_ok ps b x"
  by (cases x) (auto simp: part_ok_def)

lemma list_all_part_ok_other [simp]:
  "p \<notin> at_id ` set xs \<Longrightarrow> list_all (part_ok (ps[p := y]) b) xs = list_all (part_ok ps b) xs"
  by (induction xs) auto

lemma part_ok_bound: "part_ok ps b x \<Longrightarrow> at_id x < length ps"
  by (cases x) (simp add: part_ok_def)

lemma part_ok_assigned: "part_ok ps b x \<Longrightarrow> pc_assigned (ps ! at_id x) = b"
  by (cases x) (simp add: part_ok_def)

lemma view_bound: "cache_view mc az bz \<Longrightarrow> x \<in> set (az @ bz) \<Longrightarrow> at_id x < length (mc_ppcs mc)"
  by (auto simp: cache_view_def list_all_iff intro: part_ok_bound)

lemma part_ok_new: "part_ok ps b x \<Longrightarrow> part_ok (ps @ qs) b x"
  by (cases x) (auto simp: part_ok_def nth_append)

lemma list_all_part_ok_new: "list_all (part_ok ps b) xs \<Longrightarrow> list_all (part_ok (ps @ qs) b) xs"
  by (induction xs) (auto intro: part_ok_new)

lemma map_view_delete:
  assumes "map_view tp (xs @ (n, p, k, ms) # ys)" "distinct (map at_key (xs @ (n, p, k, ms) # ys))"
  shows "map_view (jm_delete k tp) (xs @ ys)"
  using assms by (fastforce simp: map_view_def jm_delete_distinct image_iff)

lemma map_view_cong: "set zs = set zs' \<Longrightarrow> map_view tp zs = map_view tp zs'"
  by (simp add: map_view_def)

text \<open>A part taken out of the lists, its object changed in any way that leaves it unassigned.\<close>

lemma drop_assigned_part:
  assumes v: "cache_view mc az (xs @ (n, p, k, ms) # ys)" and r: "remove_node n (mc_nodes mc, mc_assigned mc) = (h, l)"
    and y: "\<not> pc_assigned y"
  shows "cache_view (mc\<lparr>mc_nodes := h, mc_assigned := l, mc_ppcs := (mc_ppcs mc)[p := y], mc_tpToPpc := jm_delete k (mc_tpToPpc mc),
      mc_size := sz\<rparr>) az (xs @ ys)"
proof -
  have t: "two_lists (mc_nodes mc) (mc_assigned mc) (mc_available mc) (node_ids xs @ (n, p) # node_ids ys) (node_ids az)"
    using v by (auto simp: cache_view_def intro: two_lists_swap)
  have "map_view (jm_delete k (mc_tpToPpc mc)) ((az @ xs) @ ys)"
    by (rule map_view_delete [where n = n and p = p and ms = ms]) (use v in \<open>simp_all add: cache_view_def\<close>)
  then show ?thesis
    using v y two_lists_swap [OF two_lists_remove(1) [OF t r]] by (auto simp: cache_view_def nth_update_if)
qed

lemma drop_available_part:
  assumes v: "cache_view mc (xs @ (n, p, k, ms) # ys) bz" and r: "remove_node n (mc_nodes mc, mc_available mc) = (h, l)"
    and y: "\<not> pc_assigned y"
  shows "cache_view (mc\<lparr>mc_nodes := h, mc_available := l, mc_ppcs := (mc_ppcs mc)[p := y], mc_tpToPpc := jm_delete k (mc_tpToPpc mc),
      mc_size := sz\<rparr>) (xs @ ys) bz"
proof -
  have t: "two_lists (mc_nodes mc) (mc_available mc) (mc_assigned mc) (node_ids xs @ (n, p) # node_ids ys) (node_ids bz)"
    using v by (simp add: cache_view_def)
  have "map_view (jm_delete k (mc_tpToPpc mc)) (xs @ (ys @ bz))"
    by (rule map_view_delete [where n = n and p = p and ms = ms]) (use v in \<open>simp_all add: cache_view_def\<close>)
  then show ?thesis
    using v y two_lists_remove(1) [OF t r] by (auto simp: cache_view_def nth_update_if)
qed

text \<open>Other messages in the queue of a part.\<close>

definition on_part :: "nat \<Rightarrow> 'm list \<Rightarrow> (nat \<times> 'm part) list \<Rightarrow> (nat \<times> 'm part) list" where
  "on_part p ms = map (\<lambda>(n, q, k, ns). (n, q, k, if q = p then ms else ns))"

lemma on_part_simps [simp]:
  "map fst (on_part p ms xs) = map fst xs" "map at_id (on_part p ms xs) = map at_id xs" "map at_key (on_part p ms xs) = map at_key xs"
  "node_ids (on_part p ms xs) = node_ids xs" "at_id ` set (on_part p ms xs) = at_id ` set xs"
  "(\<lambda>x. (at_key x, at_id x)) ` set (on_part p ms xs) = (\<lambda>x. (at_key x, at_id x)) ` set xs"
  by (simp_all add: on_part_def node_ids_def image_image split_def)

lemma on_part_one:
  assumes "part_ok ps b (n, q, k, ns)" "same_ppc (ps ! p) y" "holds y ms"
  shows "part_ok (ps[p := y]) b (n, q, k, if q = p then ms else ns)"
  using assms by (simp add: part_ok_def same_ppc_def nth_update_if)

lemma on_part_ok:
  assumes "list_all (part_ok ps b) xs" "same_ppc (ps ! p) y" "holds y ms"
  shows "list_all (part_ok (ps[p := y]) b) (on_part p ms xs)"
  using assms(1) by (induction xs) (auto simp: on_part_def intro: on_part_one [OF _ assms(2,3)])

lemma on_part_map: "map_view tp (on_part p ms az @ on_part p ms bz) = map_view tp (az @ bz)"
  by (simp add: map_view_def image_Un)

lemma change_queue:
  assumes "cache_view mc az bz" "same_ppc (mc_ppcs mc ! p) y" "holds y ms"
  shows "cache_view (mc\<lparr>mc_ppcs := (mc_ppcs mc)[p := y]\<rparr>) (on_part p ms az) (on_part p ms bz)"
proof -
  have "pc_assigned ((mc_ppcs mc)[p := y] ! q) = pc_assigned (mc_ppcs mc ! q)" for q
    using assms(2) by (simp add: same_ppc_def nth_update_if)
  then show ?thesis
    using assms on_part_ok [OF _ assms(2,3)] unfolding cache_view_def by (simp add: on_part_map image_Un)
qed

end
