(* ===== verification/Message_Cache_Refine.thy ===== *)
theory Message_Cache_Refine
  imports Message_Cache_Spec
begin

text \<open>The operations of the message cache implement those of the abstract one.\<close>

section \<open>Steps inside the operations\<close>

lemma assign_none: "cache_view mc [] bz \<Longrightarrow> assignNewPartition mc = (mc, None)"
  by (auto simp: assignNewPartition_def cache_view_def dest: two_lists_removeFirst_Nil)

lemma assign_first:
  assumes v: "cache_view mc ((n, p, k, ms) # az) bz"
  obtains mc' n' where "assignNewPartition mc = (mc', Some p)" "cache_view mc' az (bz @ [(n', p, k, ms)])"
    "mc_size mc' = mc_size mc" "length (mc_ppcs mc') = length (mc_ppcs mc)"
proof -
  have t: "two_lists (mc_nodes mc) (mc_available mc) (mc_assigned mc) ((n, p) # node_ids az) (node_ids bz)"
    using v by (simp add: cache_view_def)
  from two_lists_removeFirst_Cons [OF t] obtain h a where
    a: "removeFirst (mc_nodes mc, mc_available mc) = ((h, a), Some p)" "two_lists h a (mc_assigned mc) (node_ids az) (node_ids bz)"
    by blast
  obtain h' l n' where b: "addLast p (h, mc_assigned mc) = ((h', l), n')" by (metis surj_pair)
  note two = two_lists_swap [OF two_lists_addLast [OF two_lists_swap [OF a(2)] b]]
  let ?mc = "upd_ppc p (\<lambda>ppc. ppc\<lparr>pc_node := Some n', pc_assigned := True\<rparr>) (mc\<lparr>mc_nodes := h', mc_available := a, mc_assigned := l\<rparr>)"
  have "part_ok ((mc_ppcs mc)[p := (mc_ppcs mc ! p)\<lparr>pc_node := Some n', pc_assigned := True\<rparr>]) True (n', p, k, ms)"
    using v by (simp add: cache_view_def part_ok_def)
  moreover have "map_view (mc_tpToPpc mc) (az @ bz @ [(n', p, k, ms)])"
    using v by (simp add: cache_view_def map_view_def image_Un insert_commute)
  ultimately have "cache_view ?mc az (bz @ [(n', p, k, ms)])"
    using v two by (auto simp: cache_view_def nth_update_if)
  with a(1) b that [of ?mc n'] show thesis by (simp add: assignNewPartition_def)
qed

lemma remove_empty:
  assumes v: "cache_view mc az (xs @ (n, p, k, ms) # ys)"
  obtains mc' where "removeEmptyPartition p mc = (mc', Inr ())" "cache_view mc' az (xs @ ys)"
    "mc_size mc' = mc_size mc" "length (mc_ppcs mc') = length (mc_ppcs mc)"
proof -
  obtain h l where r: "remove_node n (mc_nodes mc, mc_assigned mc) = (h, l)" by (cases "remove_node n (mc_nodes mc, mc_assigned mc)")
  have p: "pc_node (mc_ppcs mc ! p) = Some n" "pc_key (mc_ppcs mc ! p) = k" "p < length (mc_ppcs mc)"
    using v by (simp_all add: cache_view_def part_ok_def)
  from drop_assigned_part [OF v r, of "(mc_ppcs mc ! p)\<lparr>pc_assigned := False, pc_node := None\<rparr>" "mc_size mc"] p r that
  show thesis by (simp add: removeEmptyPartition_def m_bind_def removeAssigned_def Let_def)
qed

text \<open>A partition whose key is not in the cache yet.\<close>

lemma add_new_part:
  assumes v: "cache_view mc az bz" and k: "k \<notin> at_key ` set (az @ bz)"
  obtains n where
    "cache_view (addAvailable (length (mc_ppcs mc))
       (mc\<lparr>mc_ppcs := mc_ppcs mc @ [newPerPartitionCache k], mc_tpToPpc := jm_set k (length (mc_ppcs mc)) (mc_tpToPpc mc)\<rparr>))
       (az @ [(n, length (mc_ppcs mc), k, [])]) bz"
proof -
  let ?p = "length (mc_ppcs mc)"
  obtain h l n where a: "addLast ?p (mc_nodes mc, mc_available mc) = ((h, l), n)" by (metis surj_pair)
  let ?y = "(newPerPartitionCache k)\<lparr>pc_node := Some n\<rparr>"
  let ?mc = "mc\<lparr>mc_ppcs := mc_ppcs mc @ [?y], mc_nodes := h, mc_available := l, mc_tpToPpc := jm_set k ?p (mc_tpToPpc mc)\<rparr>"
  have ids: "?p \<notin> at_id ` set az" "?p \<notin> at_id ` set bz"
    using view_bound [OF v] by fastforce+
  have ppcs: "list_all (part_ok (mc_ppcs mc @ [?y]) False) az" "list_all (part_ok (mc_ppcs mc @ [?y]) True) bz"
    using v by (simp_all add: cache_view_def list_all_part_ok_new)
  have new: "part_ok (mc_ppcs mc @ [?y]) False (n, ?p, k, [])" "\<not> pc_assigned ?y"
    by (simp_all add: part_ok_def nth_append) (simp_all add: newPerPartitionCache_def)
  have "map_view (jm_set k ?p (mc_tpToPpc mc)) (az @ [(n, ?p, k, [])] @ bz)"
    using v k by (auto simp: cache_view_def map_view_def jm_set_distinct image_iff)
  moreover have "two_lists h l (mc_assigned mc) (node_ids (az @ [(n, ?p, k, [])])) (node_ids bz)"
    using v two_lists_addLast [OF _ a] by (simp add: cache_view_def)
  moreover have "\<not> pc_assigned ((mc_ppcs mc @ [?y]) ! q)" if "q < Suc ?p" "q \<notin> at_id ` set (az @ bz)" for q
    using that v new(2) by (cases "q = ?p") (auto simp: cache_view_def nth_append less_Suc_eq)
  ultimately have "cache_view ?mc (az @ [(n, ?p, k, [])]) bz"
    using v k ids ppcs new(1) by (simp add: cache_view_def image_Un)
  moreover have "addAvailable ?p (mc\<lparr>mc_ppcs := mc_ppcs mc @ [newPerPartitionCache k], mc_tpToPpc := jm_set k ?p (mc_tpToPpc mc)\<rparr>) = ?mc"
    using a by (simp add: addAvailable_def)
  ultimately show thesis using that [of n] by metis
qed

text \<open>The part that has an id or a key.\<close>

lemma on_part_queue:
  assumes "\<And>x. x \<in> set xs \<Longrightarrow> (at_id x = p \<longleftrightarrow> at_key x = k) \<and> (at_id x = p \<longrightarrow> snd (snd (snd x)) = ms)"
  shows "map snd (on_part p (f ms) xs) = on_queue ((=) k) f (map snd xs)"
  using assms by (auto simp: on_part_def on_queue_def)

lemma on_part_part_queue:
  assumes "cache_view mc az bz" "(n, p, k, ms) \<in> set (az @ bz)"
  shows "map snd (on_part p (f ms) az) = on_queue ((=) k) f (map snd az)" "map snd (on_part p (f ms) bz) = on_queue ((=) k) f (map snd bz)"
proof -
  have d: "distinct (map at_id (az @ bz))" "distinct (map at_key (az @ bz))" using assms(1) by (simp_all add: cache_view_def)
  have "(at_id x = p \<longleftrightarrow> at_key x = k) \<and> (at_id x = p \<longrightarrow> snd (snd (snd x)) = ms)" if "x \<in> set (az @ bz)" for x
  proof -
    have "x = (n, p, k, ms)" if "at_id x = p"
      using inj_onD [OF d(1) [unfolded distinct_map, THEN conjunct2], of x "(n, p, k, ms)"] that assms(2) \<open>x \<in> set (az @ bz)\<close> by simp
    moreover have "x = (n, p, k, ms)" if "at_key x = k"
      using inj_onD [OF d(2) [unfolded distinct_map, THEN conjunct2], of x "(n, p, k, ms)"] that assms(2) \<open>x \<in> set (az @ bz)\<close> by simp
    ultimately show ?thesis by (metis fst_conv snd_conv)
  qed
  then show "map snd (on_part p (f ms) az) = on_queue ((=) k) f (map snd az)" "map snd (on_part p (f ms) bz) = on_queue ((=) k) f (map snd bz)"
    by (auto intro!: on_part_queue)
qed

section \<open>The refinement\<close>

definition refines :: "'m message_cache \<Rightarrow> 'm part_queues \<Rightarrow> bool" where
  "refines mc q \<longleftrightarrow>
     (\<exists>az bz. cache_view mc az bz \<and> pq_available q = map snd az \<and> pq_assigned q = map snd bz) \<and> pq_next q = length (mc_ppcs mc)"

lemma refinesI:
  "cache_view mc az bz \<Longrightarrow> pq_available q = map snd az \<Longrightarrow> pq_assigned q = map snd bz \<Longrightarrow> pq_next q = length (mc_ppcs mc) \<Longrightarrow> refines mc q"
  by (auto simp: refines_def)

lemma refines_size [simp]: "refines (mc\<lparr>mc_size := n\<rparr>) q = refines mc q" "refines (notifyAvailablePartitions mc) q = refines mc q"
  by (simp_all add: refines_def cache_view_def notifyAvailablePartitions_def)

lemma view_lookup:
  assumes "cache_view mc az bz"
  shows "jm_get (mc_tpToPpc mc) k = None \<longleftrightarrow> k \<notin> at_key ` set (az @ bz)"
    and "jm_get (mc_tpToPpc mc) k = Some p \<longleftrightarrow> (\<exists>n ms. (n, p, k, ms) \<in> set (az @ bz))"
proof -
  have m: "jm_get (mc_tpToPpc mc) k = Some p \<longleftrightarrow> (k, p) \<in> (\<lambda>x. (at_key x, at_id x)) ` set (az @ bz)" for p
    using assms by (simp add: cache_view_def map_view_def)
  show "jm_get (mc_tpToPpc mc) k = Some p \<longleftrightarrow> (\<exists>n ms. (n, p, k, ms) \<in> set (az @ bz))"
    unfolding m by force
  show "jm_get (mc_tpToPpc mc) k = None \<longleftrightarrow> k \<notin> at_key ` set (az @ bz)"
    using m by (cases "jm_get (mc_tpToPpc mc) k") (auto simp: image_iff)
qed

lemma view_part:
  assumes "cache_view mc az bz" "(n, p, k, ms) \<in> set (az @ bz)"
  shows "p < length (mc_ppcs mc)" "pc_key (mc_ppcs mc ! p) = k" "pc_node (mc_ppcs mc ! p) = Some n" "holds (mc_ppcs mc ! p) ms"
    "pc_assigned (mc_ppcs mc ! p) \<longleftrightarrow> (n, p, k, ms) \<in> set bz"
proof -
  have "list_all (part_ok (mc_ppcs mc) False) az" "list_all (part_ok (mc_ppcs mc) True) bz"
    using assms(1) by (simp_all add: cache_view_def)
  with assms(2) have "part_ok (mc_ppcs mc) False (n, p, k, ms) \<and> (n, p, k, ms) \<notin> set bz \<or> part_ok (mc_ppcs mc) True (n, p, k, ms) \<and> (n, p, k, ms) \<in> set bz"
    by (auto simp: list_all_iff part_ok_def)
  then show "p < length (mc_ppcs mc)" "pc_key (mc_ppcs mc ! p) = k" "pc_node (mc_ppcs mc ! p) = Some n" "holds (mc_ppcs mc ! p) ms"
    "pc_assigned (mc_ppcs mc ! p) \<longleftrightarrow> (n, p, k, ms) \<in> set bz"
    by (auto simp: part_ok_def)
qed

text \<open>Messages into the queue of a partition that is there.\<close>

lemma put_refines:
  assumes v: "cache_view mc az bz" and x: "(n, p, k, ms) \<in> set (az @ bz)" and y: "same_ppc (mc_ppcs mc ! p) y" "holds y (f ms)"
    and q: "pq_available q = map snd az" "pq_assigned q = map snd bz" "pq_next q = length (mc_ppcs mc)"
  shows "refines (mc\<lparr>mc_ppcs := (mc_ppcs mc)[p := y]\<rparr>)
    (q\<lparr>pq_available := on_queue ((=) k) f (pq_available q), pq_assigned := on_queue ((=) k) f (pq_assigned q)\<rparr>)"
  by (rule refinesI [OF change_queue [OF v y]]) (simp_all add: on_part_part_queue [OF v x, of f] q)


lemma refinesE:
  assumes "refines mc q"
  obtains az bz where "cache_view mc az bz" "pq_available q = map snd az" "pq_assigned q = map snd bz" "pq_next q = length (mc_ppcs mc)"
    "part_key ` set (parts q) = at_key ` set (az @ bz)" "part_id ` set (parts q) = at_id ` set (az @ bz)"
    "distinct (map part_key (parts q))" "distinct (map part_id (parts q))"
proof -
  from assms obtain az bz where v: "cache_view mc az bz" "pq_available q = map snd az" "pq_assigned q = map snd bz"
      "pq_next q = length (mc_ppcs mc)" by (auto simp: refines_def)
  have "map part_key (parts q) = map at_key (az @ bz)" "map part_id (parts q) = map at_id (az @ bz)"
    using v(2,3) by (simp_all add: parts_def)
  then have "part_key ` set (parts q) = at_key ` set (az @ bz)" "part_id ` set (parts q) = at_id ` set (az @ bz)"
    "distinct (map part_key (parts q))" "distinct (map part_id (parts q))"
    using v(1) unfolding cache_view_def by (metis list.set_map)+
  with v that show thesis by blast
qed

section \<open>Adding messages\<close>

lemma on_queue_simps [simp]:
  "on_queue P f [] = []" "on_queue P f (x # xs) = (part_id x, part_key x, if P (part_key x) then f (part_queue x) else part_queue x) # on_queue P f xs"
  "on_queue P f (xs @ ys) = on_queue P f xs @ on_queue P f ys"
  by (simp_all add: on_queue_def split_def)

lemma on_queue_absent: "k \<notin> part_key ` set xs \<Longrightarrow> on_queue ((=) k) f xs = xs"
  by (induction xs) auto

abbreviation put_message :: "bool \<Rightarrow> 'm \<Rightarrow> 'm list \<Rightarrow> 'm list" where
  "put_message head m ms \<equiv> if head then m # ms else ms @ [m]"

lemma add_message_refines:
  assumes "refines mc q"
  shows "refines (add_message m head mc) (spec_add m head q)"
proof -
  from assms obtain az bz where v: "cache_view mc az bz" and q: "pq_available q = map snd az" "pq_assigned q = map snd bz"
      "pq_next q = length (mc_ppcs mc)" and k: "part_key ` set (parts q) = at_key ` set (az @ bz)" by (rule refinesE)
  let ?k = "partitionKey m" let ?put = "\<lambda>ppc. if head then ppc_addFirst m ppc else ppc_addLast m ppc"
  have put: "same_ppc ppc (?put ppc)" "holds ppc ms \<Longrightarrow> holds (?put ppc) (put_message head m ms)" for ppc ms
    by (simp_all add: holds_addFirst holds_addLast)
  show ?thesis
  proof (cases "jm_get (mc_tpToPpc mc) ?k")
    case (Some p)
    with view_lookup(2) [OF v] obtain n ms where x: "(n, p, ?k, ms) \<in> set (az @ bz)" by blast
    then have "?k \<in> part_key ` set (parts q)" unfolding k by force
    with put_refines [where f = "put_message head m", OF v x put(1) put(2) [OF view_part(4) [OF v x]] q] Some show ?thesis
      by (cases head) (simp_all add: add_message_def spec_add_def Let_def)
  next
    case None
    then have nk: "?k \<notin> at_key ` set (az @ bz)" using view_lookup(1) [OF v] by blast
    from add_new_part [OF v nk] obtain n where
      n: "cache_view (addAvailable (length (mc_ppcs mc)) (mc\<lparr>mc_ppcs := mc_ppcs mc @ [newPerPartitionCache ?k],
        mc_tpToPpc := jm_set ?k (length (mc_ppcs mc)) (mc_tpToPpc mc)\<rparr>)) (az @ [(n, length (mc_ppcs mc), ?k, [])]) bz" (is "cache_view ?mc _ _") .
    let ?q = "q\<lparr>pq_available := pq_available q @ [(pq_next q, ?k, [])], pq_next := pq_next q + 1\<rparr>"
    have len: "length (mc_ppcs ?mc) = Suc (length (mc_ppcs mc))" by (simp add: addAvailable_def split: prod.split)
    have x: "(n, length (mc_ppcs mc), ?k, []) \<in> set ((az @ [(n, length (mc_ppcs mc), ?k, [])]) @ bz)" by simp
    have "refines (upd_ppc (length (mc_ppcs mc)) ?put ?mc)
        (?q\<lparr>pq_available := on_queue ((=) ?k) (put_message head m) (pq_available ?q), pq_assigned := on_queue ((=) ?k) (put_message head m) (pq_assigned ?q)\<rparr>)"
      by (rule put_refines [where f = "put_message head m", OF n x put(1) put(2) [OF view_part(4) [OF n x]]]) (simp_all add: q len)
    moreover have "(?q\<lparr>pq_available := on_queue ((=) ?k) (put_message head m) (pq_available ?q), pq_assigned := on_queue ((=) ?k) (put_message head m) (pq_assigned ?q)\<rparr>) =
        q\<lparr>pq_available := pq_available q @ [(pq_next q, ?k, [m])], pq_next := pq_next q + 1\<rparr>"
      using nk q(1,2) by (cases q) (auto simp: on_queue_absent image_image image_Un)
    ultimately have "refines (upd_ppc (length (mc_ppcs mc)) ?put ?mc)
        (q\<lparr>pq_available := pq_available q @ [(pq_next q, ?k, [m])], pq_next := pq_next q + 1\<rparr>)"
      by (simp only:)
    moreover have "spec_add m head q = q\<lparr>pq_available := pq_available q @ [(pq_next q, ?k, [m])], pq_next := pq_next q + 1\<rparr>"
      using nk unfolding k [symmetric] by (simp add: spec_add_def Let_def)
    moreover have "add_message m head mc = notifyAvailablePartitions (upd_ppc (length (mc_ppcs mc)) ?put ?mc)"
      using None by (simp add: add_message_def Let_def notifyAvailablePartitions_def)
    ultimately show ?thesis by simp
  qed
qed


lemma add_message_size: "mc_size (add_message m head mc) = mc_size mc"
  by (simp add: add_message_def Let_def addAvailable_def notifyAvailablePartitions_def split: option.split prod.split)

text \<open>The messages in the parts, counted.\<close>

lemma sum_on_queue:
  assumes "distinct (map part_key xs)" "\<And>ms. length (f ms) = length ms + 1" "k \<in> part_key ` set xs"
  shows "sum_list (map (\<lambda>x. length (part_queue x)) (on_queue ((=) k) f xs)) = sum_list (map (\<lambda>x. length (part_queue x)) xs) + 1"
  using assms(1,3)
proof (induction xs)
  case (Cons x xs)
  show ?case
  proof (cases "part_key x = k")
    case True
    with Cons.prems(1) have "on_queue ((=) k) f xs = xs" by (auto intro: on_queue_absent)
    with True show ?thesis by (simp add: assms(2))
  next
    case False
    with Cons show ?thesis by auto
  qed
qed simp

lemma queued_spec_add:
  assumes "distinct (map part_key (parts q))"
  shows "queued (spec_add m head q) = queued q + 1"
proof (cases "partitionKey m \<in> part_key ` set (parts q)")
  case True
  have "parts (spec_add m head q) = on_queue ((=) (partitionKey m)) (put_message head m) (parts q)"
    using True by (simp add: spec_add_def Let_def parts_def on_queue_def)
  then show ?thesis using sum_on_queue [OF assms _ True, of "put_message head m"] by (simp add: queued_def)
next
  case False
  then show ?thesis by (simp add: spec_add_def Let_def parts_def queued_def)
qed

definition implements_cache :: "'m message_cache \<Rightarrow> 'm part_queues \<Rightarrow> bool" where
  "implements_cache mc q \<longleftrightarrow> refines mc q \<and> mc_size mc = int (queued q)"

lemma implements_cacheI:
  "cache_view mc az bz \<Longrightarrow> pq_available q = map snd az \<Longrightarrow> pq_assigned q = map snd bz \<Longrightarrow> pq_next q = length (mc_ppcs mc) \<Longrightarrow>
   mc_size mc = int (queued q) \<Longrightarrow> implements_cache mc q"
  by (auto simp: implements_cache_def intro: refinesI)

lemma implements_cacheE:
  assumes "implements_cache mc q"
  obtains az bz where "cache_view mc az bz" "pq_available q = map snd az" "pq_assigned q = map snd bz" "pq_next q = length (mc_ppcs mc)"
    "mc_size mc = int (queued q)"
  using assms by (auto simp: implements_cache_def refines_def)

lemma fold_add_refines:
  assumes "refines mc q"
  shows "refines (fold (\<lambda>m. add_message m head) ms mc) (fold (\<lambda>m. spec_add m head) ms q) \<and>
    mc_size (fold (\<lambda>m. add_message m head) ms mc) = mc_size mc \<and> queued (fold (\<lambda>m. spec_add m head) ms q) = queued q + length ms"
  using assms
proof (induction ms arbitrary: mc q)
  case (Cons m ms)
  from Cons.prems have "distinct (map part_key (parts q))" by (rule refinesE)
  with Cons.IH [OF add_message_refines [OF Cons.prems, of m head]] show ?case
    by (simp add: add_message_size queued_spec_add)
qed simp

lemma addMessages_implements:
  "implements_cache mc q \<Longrightarrow> implements_cache (addMessages ms mc) (fold (\<lambda>m. spec_add m False) ms q)"
  using fold_add_refines [of mc q False ms] by (simp add: implements_cache_def addMessages_def Let_def)

lemma returnMessages_implements:
  "implements_cache mc q \<Longrightarrow> implements_cache (returnMessages ms mc) (fold (\<lambda>m. spec_add m True) (rev ms) q)"
  using fold_add_refines [of mc q True "rev ms"] by (simp add: implements_cache_def returnMessages_def Let_def)

section \<open>Dropping partitions\<close>

lemma filter_key_split:
  assumes "distinct (map at_key (xs @ (n, p, k, ms) # ys))"
  shows "filter (\<lambda>x. part_key x \<noteq> k) (map snd (xs @ (n, p, k, ms) # ys)) = map snd (xs @ ys)"
proof -
  have "filter (\<lambda>x. part_key x \<noteq> k) (map snd zs) = map snd zs" if "k \<notin> at_key ` set zs" for zs :: "(nat \<times> nat \<times> string \<times> 'a list) list"
    using that by (force simp: filter_id_conv)
  with assms show ?thesis by simp
qed

lemma filter_key_absent:
  "k \<notin> at_key ` set zs \<Longrightarrow> filter (\<lambda>x. part_key x \<noteq> k) (map snd zs) = map snd zs"
  by (force simp: filter_id_conv)

lemma queued_drop:
  assumes "pq_available q @ pq_assigned q = map snd (xs @ (n, p, k, ms) # ys)" "pq_available q' @ pq_assigned q' = map snd (xs @ ys)"
  shows "queued q' + length ms = queued q"
  using assms by (simp add: queued_def parts_def)

lemma markStaleOne_implements:
  assumes "implements_cache mc q"
  shows "\<exists>mc'. markStaleOne tp mc = (mc', Inr ()) \<and> implements_cache mc' (spec_stale (partitionKey tp) q)"
proof -
  from assms obtain az bz where v: "cache_view mc az bz" and q: "pq_available q = map snd az" "pq_assigned q = map snd bz"
      "pq_next q = length (mc_ppcs mc)" and sz: "mc_size mc = int (queued q)" by (rule implements_cacheE)
  let ?k = "partitionKey tp"
  have d: "distinct (map at_key (az @ bz))" using v by (simp add: cache_view_def)
  show ?thesis
  proof (cases "jm_get (mc_tpToPpc mc) ?k")
    case None
    then have "?k \<notin> at_key ` set az" "?k \<notin> at_key ` set bz" using view_lookup(1) [OF v] by auto
    then have "spec_stale ?k q = q" by (simp add: spec_stale_def q filter_key_absent)
    with None assms show ?thesis by (simp add: markStaleOne_def Let_def)
  next
    case (Some p)
    with view_lookup(2) [OF v] obtain n ms where x: "(n, p, ?k, ms) \<in> set (az @ bz)" by blast
    note part = view_part [OF v x]
    show ?thesis
    proof (cases "(n, p, ?k, ms) \<in> set bz")
      case True
      then obtain xs ys where b: "bz = xs @ (n, p, ?k, ms) # ys" by (meson split_list)
      obtain h l where r: "remove_node n (mc_nodes mc, mc_assigned mc) = (h, l)" by (cases "remove_node n (mc_nodes mc, mc_assigned mc)")
      let ?mc = "mc\<lparr>mc_nodes := h, mc_assigned := l, mc_ppcs := (mc_ppcs mc)[p := (mc_ppcs mc ! p)\<lparr>pc_assigned := False\<rparr>],
        mc_tpToPpc := jm_delete ?k (mc_tpToPpc mc), mc_size := mc_size mc - int (length ms)\<rparr>"
      have "cache_view ?mc az (xs @ ys)" by (rule drop_assigned_part [OF v [unfolded b] r]) simp
      note view = this
      have s: "spec_stale ?k q = q\<lparr>pq_assigned := map snd (xs @ ys)\<rparr>"
        using d filter_key_split [of xs n p ?k ms ys] by (simp add: spec_stale_def q b filter_key_absent)
      have "implements_cache ?mc (spec_stale ?k q)"
        using sz queued_drop [of q "az @ xs" n p ?k ms ys "spec_stale ?k q"] q b s
        by (intro implements_cacheI [OF view]) simp_all
      moreover have "markStaleOne tp mc = (?mc, Inr ())"
        using Some part True r holds_size [OF part(4)] by (simp add: markStaleOne_def Let_def m_bind_def removeAssigned_def ppc_size_def)
      ultimately show ?thesis by blast
    next
      case False
      with x obtain xs ys where b: "az = xs @ (n, p, ?k, ms) # ys" by (metis Un_iff set_append split_list)
      obtain h l where r: "remove_node n (mc_nodes mc, mc_available mc) = (h, l)" by (cases "remove_node n (mc_nodes mc, mc_available mc)")
      let ?mc = "mc\<lparr>mc_nodes := h, mc_available := l, mc_ppcs := (mc_ppcs mc)[p := (mc_ppcs mc ! p)\<lparr>pc_assigned := False\<rparr>],
        mc_tpToPpc := jm_delete ?k (mc_tpToPpc mc), mc_size := mc_size mc - int (length ms)\<rparr>"
      have "cache_view ?mc (xs @ ys) bz" by (rule drop_available_part [OF v [unfolded b] r]) simp
      note view = this
      have s: "spec_stale ?k q = q\<lparr>pq_available := map snd (xs @ ys)\<rparr>"
        using d filter_key_split [of xs n p ?k ms ys] by (simp add: spec_stale_def q b filter_key_absent)
      have "implements_cache ?mc (spec_stale ?k q)"
        using sz queued_drop [of q xs n p ?k ms "ys @ bz" "spec_stale ?k q"] q b s
        by (intro implements_cacheI [OF view]) simp_all
      moreover have "markStaleOne tp mc = (?mc, Inr ())"
        using Some part False r holds_size [OF part(4)] by (simp add: markStaleOne_def Let_def m_bind_def removeAvailable_def ppc_size_def)
      ultimately show ?thesis by blast
    qed
  qed
qed


lemma markStale_implements:
  assumes "implements_cache mc q"
  shows "\<exists>mc'. markStale tps mc = (mc', Inr ()) \<and> implements_cache mc' (fold (\<lambda>tp. spec_stale (partitionKey tp)) tps q)"
  using assms
proof (induction tps arbitrary: mc q)
  case (Cons tp tps)
  from markStaleOne_implements [OF Cons.prems] obtain mc1 where
    "markStaleOne tp mc = (mc1, Inr ())" "implements_cache mc1 (spec_stale (partitionKey tp) q)" by blast
  with Cons.IH [OF this(2)] show ?case by (simp add: m_bind_def)
qed simp

section \<open>Giving a partition back\<close>

lemma filter_id_split:
  assumes "distinct (map at_id (xs @ (n, p, k, ms) # ys))"
  shows "filter (\<lambda>x. part_id x = p) (map snd (xs @ (n, p, k, ms) # ys)) = [(p, k, ms)]"
    "filter (\<lambda>x. part_id x \<noteq> p) (map snd (xs @ (n, p, k, ms) # ys)) = map snd (xs @ ys)"
proof -
  have "filter (\<lambda>x. part_id x = p) (map snd zs) = [] \<and> filter (\<lambda>x. part_id x \<noteq> p) (map snd zs) = map snd zs"
    if "p \<notin> at_id ` set zs" for zs :: "(nat \<times> nat \<times> string \<times> 'a list) list"
    using that by (induction zs) auto
  with assms show "filter (\<lambda>x. part_id x = p) (map snd (xs @ (n, p, k, ms) # ys)) = [(p, k, ms)]"
    "filter (\<lambda>x. part_id x \<noteq> p) (map snd (xs @ (n, p, k, ms) # ys)) = map snd (xs @ ys)" by simp_all
qed

lemma view_assigned:
  assumes "cache_view mc az bz" "p < length (mc_ppcs mc)"
  shows "pc_assigned (mc_ppcs mc ! p) \<longleftrightarrow> p \<in> at_id ` set bz"
proof -
  have "list_all (part_ok (mc_ppcs mc) False) az" "list_all (part_ok (mc_ppcs mc) True) bz"
    "p \<notin> at_id ` set (az @ bz) \<longrightarrow> \<not> pc_assigned (mc_ppcs mc ! p)"
    using assms by (simp_all add: cache_view_def)
  then have "p \<in> at_id ` set az \<Longrightarrow> \<not> pc_assigned (mc_ppcs mc ! p)" "p \<in> at_id ` set bz \<Longrightarrow> pc_assigned (mc_ppcs mc ! p)"
    "p \<notin> at_id ` set az \<Longrightarrow> p \<notin> at_id ` set bz \<Longrightarrow> \<not> pc_assigned (mc_ppcs mc ! p)"
    by (auto simp: list_all_iff image_Un dest: part_ok_assigned)
  then show ?thesis by blast
qed

lemma return_ppc_implements:
  assumes "implements_cache mc q" "p < pq_next q"
  shows "\<exists>mc'. return_ppc p mc = (mc', Inr ()) \<and> implements_cache mc' (spec_return p q)"
proof -
  from assms(1) obtain az bz where v: "cache_view mc az bz" and q: "pq_available q = map snd az" "pq_assigned q = map snd bz"
      "pq_next q = length (mc_ppcs mc)" and sz: "mc_size mc = int (queued q)" by (rule implements_cacheE)
  note asg = view_assigned [OF v assms(2) [unfolded q(3)]]
  show ?thesis
  proof (cases "p \<in> at_id ` set bz")
    case False
    then have "filter (\<lambda>x. part_id x = p) (map snd bz) = []" "filter (\<lambda>x. part_id x \<noteq> p) (map snd bz) = map snd bz"
      by (induction bz) auto
    then have "spec_return p q = q" by (simp add: spec_return_def q)
    with assms(1) asg False show ?thesis by (simp add: return_ppc_def)
  next
    case True
    then obtain n k ms where "(n, p, k, ms) \<in> set bz" by force
    then obtain xs ys where b: "bz = xs @ (n, p, k, ms) # ys" by (meson split_list)
    have part: "p < length (mc_ppcs mc)" "pc_node (mc_ppcs mc ! p) = Some n" "pc_key (mc_ppcs mc ! p) = k" "holds (mc_ppcs mc ! p) ms"
      "pc_assigned (mc_ppcs mc ! p)"
      using v b by (simp_all add: cache_view_def part_ok_def)
    obtain h l where r: "remove_node n (mc_nodes mc, mc_assigned mc) = (h, l)" by (cases "remove_node n (mc_nodes mc, mc_assigned mc)")
    obtain h' a n' where ad: "addLast p (h, mc_available mc) = ((h', a), n')" by (metis surj_pair)
    have "two_lists (mc_nodes mc) (mc_assigned mc) (mc_available mc) (node_ids xs @ (n, p) # node_ids ys) (node_ids az)"
      using v b by (auto simp: cache_view_def intro: two_lists_swap)
    from two_lists_addLast [OF two_lists_swap [OF two_lists_remove(1) [OF this r]] ad]
    have two: "two_lists h' a l (node_ids (az @ [(n', p, k, ms)])) (node_ids (xs @ ys))" by simp
    let ?y = "(mc_ppcs mc ! p)\<lparr>pc_node := Some n', pc_assigned := False\<rparr>"
    let ?mc = "mc\<lparr>mc_nodes := h', mc_assigned := l, mc_available := a, mc_ppcs := (mc_ppcs mc)[p := ?y], mc_notified := mc_notified mc + 1\<rparr>"
    have "part_ok ((mc_ppcs mc)[p := ?y]) False (n', p, k, ms)" using part by (simp add: part_ok_def)
    moreover have "map_view (mc_tpToPpc mc) ((az @ [(n', p, k, ms)]) @ xs @ ys)"
      using v b by (simp add: cache_view_def map_view_def image_Un insert_commute)
    ultimately have view: "cache_view ?mc (az @ [(n', p, k, ms)]) (xs @ ys)"
      using v b two by (auto simp: cache_view_def nth_update_if)
    have "distinct (map at_id (xs @ (n, p, k, ms) # ys))" using v b by (simp add: cache_view_def)
    note f = filter_id_split [OF this]
    have "implements_cache ?mc (spec_return p q)"
      using f q b sz by (intro implements_cacheI [OF view]) (simp_all add: spec_return_def queued_def parts_def)
    moreover have "return_ppc p mc = (?mc, Inr ())"
      using part r ad
      by (simp add: return_ppc_def m_bind_def removeAssigned_def addAvailable_def notifyAvailablePartitions_def)
    ultimately show ?thesis by blast
  qed
qed

section \<open>Clearing\<close>

lemma clear_flags:
  "mc_ppcs (fold (\<lambda>(key, p). upd_ppc p (\<lambda>ppc. ppc\<lparr>pc_assigned := False\<rparr>)) tp mc) ! p =
     (if p \<in> snd ` set tp then (mc_ppcs mc ! p)\<lparr>pc_assigned := False\<rparr> else mc_ppcs mc ! p) \<and>
   length (mc_ppcs (fold (\<lambda>(key, p). upd_ppc p (\<lambda>ppc. ppc\<lparr>pc_assigned := False\<rparr>)) tp mc)) = length (mc_ppcs mc)"
  if "p < length (mc_ppcs mc)"
  using that
proof (induction tp arbitrary: mc)
  case (Cons x tp)
  then show ?case by (cases x) (auto simp: nth_update_if)
qed simp

lemma clear_implements:
  assumes "implements_cache mc q"
  shows "implements_cache (clear_cache mc) (spec_clear q)"
proof -
  from assms obtain az bz where v: "cache_view mc az bz" and q: "pq_available q = map snd az" "pq_assigned q = map snd bz"
      "pq_next q = length (mc_ppcs mc)" by (rule implements_cacheE)
  let ?mc = "fold (\<lambda>(key, p). upd_ppc p (\<lambda>ppc. ppc\<lparr>pc_assigned := False\<rparr>)) (mc_tpToPpc mc) mc"
  have len: "length (mc_ppcs ?mc) = length (mc_ppcs mc)"
  proof -
    have "length (mc_ppcs (fold (\<lambda>(key, p). upd_ppc p (\<lambda>ppc. ppc\<lparr>pc_assigned := False\<rparr>)) tp mc)) = length (mc_ppcs mc)" for tp
      by (induction tp arbitrary: mc) auto
    then show ?thesis .
  qed
  have "\<not> pc_assigned (mc_ppcs ?mc ! p)" if "p < length (mc_ppcs mc)" for p
  proof (cases "p \<in> at_id ` set (az @ bz)")
    case True
    then obtain n k ms where "(n, p, k, ms) \<in> set (az @ bz)" by force
    with view_lookup(2) [OF v] have "jm_get (mc_tpToPpc mc) k = Some p" by blast
    then have "p \<in> snd ` set (mc_tpToPpc mc)" by (force dest: map_of_SomeD)
    with clear_flags [OF that, of "mc_tpToPpc mc"] show ?thesis by simp
  next
    case False
    with clear_flags [OF that, of "mc_tpToPpc mc"] v that show ?thesis by (simp add: cache_view_def)
  qed
  then have "cache_view (clear_cache mc) [] []"
    by (simp add: cache_view_def clear_cache_def reinit_def two_lists_def map_view_def len)
  then show ?thesis
    by (rule implements_cacheI) (simp_all add: spec_clear_def q len clear_cache_def reinit_def queued_def parts_def)
qed


section \<open>Taking messages\<close>

lemma on_part_absent: "p \<notin> at_id ` set xs \<Longrightarrow> on_part p ms xs = xs"
  by (induction xs) (auto simp: on_part_def)

lemma on_part_split:
  assumes "distinct (map at_id (xs @ (n, p, k, ms) # ys))"
  shows "on_part p ns (xs @ (n, p, k, ms) # ys) = xs @ (n, p, k, ns) # ys"
proof -
  have "on_part p ns (us @ vs) = on_part p ns us @ on_part p ns vs" "on_part p ns ((n, p, k, ms) # us) = (n, p, k, ns) # on_part p ns us" for us vs
    by (simp_all add: on_part_def)
  with assms show ?thesis by (simp add: on_part_absent)
qed

text \<open>The queue of an assigned part changes.\<close>

lemma change_assigned:
  assumes v: "cache_view mc az (xs @ (n, p, k, ms) # ys)" and y: "same_ppc (mc_ppcs mc ! p) y" "holds y ns"
  shows "cache_view (mc\<lparr>mc_ppcs := (mc_ppcs mc)[p := y], mc_size := sz\<rparr>) az (xs @ (n, p, k, ns) # ys)"
proof -
  have "distinct (map at_id (xs @ (n, p, k, ms) # ys))" "p \<notin> at_id ` set az" using v by (auto simp: cache_view_def)
  with change_queue [OF v y] show ?thesis by (simp add: on_part_split on_part_absent) (simp add: cache_view_def)
qed

lemma choose_assigned:
  "cache_view mc az bz \<Longrightarrow> p \<in> at_id ` set bz \<Longrightarrow> choosePartition (Some p) mc = (mc, Some p)"
  using view_assigned [of mc az bz p] view_bound [of mc az bz] by (auto simp: choosePartition_def)

lemma choose_fresh:
  assumes "cache_view mc az bz" "\<forall>p. ppc = Some p \<longrightarrow> p < length (mc_ppcs mc) \<and> p \<notin> at_id ` set bz"
  shows "choosePartition ppc mc = assignNewPartition mc"
  using assms view_assigned [OF assms(1)] by (auto simp: choosePartition_def split: option.split)

text \<open>
  What \<open>next\<close> and \<open>nextN\<close> share: an operation that takes messages from the partition it chose, and calls
  itself without a partition when there was none to take. \<open>cnt\<close> is how many are taken of a queue,
  \<open>present\<close> the form in which they are returned.
\<close>

locale serving =
  fixes serve :: "nat option \<Rightarrow> 'm message_cache \<Rightarrow> ('m message_cache \<times> ('x \<times> nat) option result) option"
    and take_from :: "'m per_partition_cache \<Rightarrow> 'm per_partition_cache \<times> 'r"
    and taken :: "'r \<Rightarrow> ('x \<times> int) option" and cnt :: "'m list \<Rightarrow> nat" and present :: "'m list \<Rightarrow> 'x"
  assumes serve_eq:
    "serve ppc mc =
       (case choosePartition ppc mc of
          (mc, None) \<Rightarrow> Some (mc, Inr None)
        | (mc, Some p) \<Rightarrow>
            (case take_from (mc_ppcs mc ! p) of
               (ppc', r) \<Rightarrow>
                 (case taken r of
                    Some (x, c) \<Rightarrow> Some ((upd_ppc p (\<lambda>_. ppc') mc)\<lparr>mc_size := mc_size mc - c\<rparr>, Inr (Some (x, p)))
                  | None \<Rightarrow>
                      (case removeEmptyPartition p (upd_ppc p (\<lambda>_. ppc') mc) of
                         (mc, Inl e) \<Rightarrow> Some (mc, Inl e)
                       | (mc, Inr _) \<Rightarrow> serve None mc))))"
    and take_holds:
      "holds cache ms \<Longrightarrow> holds (fst (take_from cache)) (drop (cnt ms) ms) \<and> same_ppc cache (fst (take_from cache)) \<and>
         taken (snd (take_from cache)) = (if take (cnt ms) ms = [] then None else Some (present (take (cnt ms) ms), int (length (take (cnt ms) ms))))"
begin

lemma take_fromE:
  assumes "holds ppc ms"
  obtains ppc' r where "take_from ppc = (ppc', r)" "holds ppc' (drop (cnt ms) ms)" "same_ppc ppc ppc'"
    "taken r = (if take (cnt ms) ms = [] then None else Some (present (take (cnt ms) ms), int (length (take (cnt ms) ms))))"
  using take_holds [OF assms] by (cases "take_from ppc") auto

text \<open>A chosen partition that has messages, and one that has none.\<close>

lemma serve_some:
  assumes ch: "choosePartition ppc mc = (mc1, Some p)" and v: "cache_view mc1 az (xs @ (n, p, k, ms) # ys)" and ne: "take (cnt ms) ms \<noteq> []"
  obtains mc' where "serve ppc mc = Some (mc', Inr (Some (present (take (cnt ms) ms), p)))"
    "cache_view mc' az (xs @ (n, p, k, drop (cnt ms) ms) # ys)" "mc_size mc' = mc_size mc1 - int (length (take (cnt ms) ms))"
    "length (mc_ppcs mc') = length (mc_ppcs mc1)"
proof -
  have h: "holds (mc_ppcs mc1 ! p) ms" using v by (simp add: cache_view_def part_ok_def)
  obtain ppc' r where t: "take_from (mc_ppcs mc1 ! p) = (ppc', r)" "holds ppc' (drop (cnt ms) ms)" "same_ppc (mc_ppcs mc1 ! p) ppc'"
      "taken r = Some (present (take (cnt ms) ms), int (length (take (cnt ms) ms)))"
    using take_fromE [OF h] ne by metis
  let ?mc = "mc1\<lparr>mc_ppcs := (mc_ppcs mc1)[p := ppc'], mc_size := mc_size mc1 - int (length (take (cnt ms) ms))\<rparr>"
  have "serve ppc mc = Some (?mc, Inr (Some (present (take (cnt ms) ms), p)))"
    using ch t(1,4) by (subst serve_eq) simp
  then show thesis using change_assigned [OF v t(3,2)] by (rule that) simp_all
qed

lemma serve_empty:
  assumes ch: "choosePartition ppc mc = (mc1, Some p)" and v: "cache_view mc1 az (xs @ (n, p, k, []) # ys)"
  obtains mc' where "serve ppc mc = serve None mc'" "cache_view mc' az (xs @ ys)" "mc_size mc' = mc_size mc1"
    "length (mc_ppcs mc') = length (mc_ppcs mc1)"
proof -
  have h: "holds (mc_ppcs mc1 ! p) []" using v by (simp add: cache_view_def part_ok_def)
  obtain ppc' r where t: "take_from (mc_ppcs mc1 ! p) = (ppc', r)" "holds ppc' []" "same_ppc (mc_ppcs mc1 ! p) ppc'" "taken r = None"
    using take_fromE [OF h] by (metis drop_Nil take_Nil)
  have "cache_view (upd_ppc p (\<lambda>_. ppc') mc1) az (xs @ (n, p, k, []) # ys)"
    using change_assigned [OF v t(3,2), of "mc_size mc1"] by simp
  from remove_empty [OF this] obtain mc' where
    mc': "removeEmptyPartition p (upd_ppc p (\<lambda>_. ppc') mc1) = (mc', Inr ())" "cache_view mc' az (xs @ ys)" "mc_size mc' = mc_size mc1"
      "length (mc_ppcs mc') = length (mc_ppcs mc1)" by auto
  have "serve ppc mc = serve None mc'" using ch t(1,4) mc'(1) by (subst serve_eq) simp
  then show thesis using mc'(2-4) by (rule that)
qed

text \<open>The number of messages of an answer.\<close>

definition given :: "('m list \<times> nat) option \<Rightarrow> nat" where
  "given r = (case r of None \<Rightarrow> 0 | Some (ms, p) \<Rightarrow> length ms)"

lemma serve_fresh:
  assumes "cache_view mc az bz" "\<And>ms. ms \<noteq> [] \<Longrightarrow> cnt ms > 0" "choosePartition ppc mc = assignNewPartition mc"
    and "spec_from cnt (map snd az) (map snd bz) = (av, as, r)"
  shows "\<exists>mc' az' bz'. serve ppc mc = Some (mc', Inr (map_option (\<lambda>(ms, p). (present ms, p)) r)) \<and> cache_view mc' az' bz' \<and>
    av = map snd az' \<and> as = map snd bz' \<and> length (mc_ppcs mc') = length (mc_ppcs mc) \<and> mc_size mc' = mc_size mc - int (given r)"
  using assms(1,3,4)
proof (induction az arbitrary: mc bz ppc)
  case Nil
  then have "serve ppc mc = Some (mc, Inr None)" by (subst serve_eq) (simp add: assign_none)
  with Nil show ?case by (auto simp: given_def intro!: exI [of _ mc])
next
  case (Cons z az)
  obtain n p k ms where z: "z = (n, p, k, ms)" by (cases z) auto
  from assign_first [OF Cons.prems(1) [unfolded z]] obtain mc1 n' where
    mc1: "assignNewPartition mc = (mc1, Some p)" "cache_view mc1 az (bz @ [(n', p, k, ms)])" "mc_size mc1 = mc_size mc"
      "length (mc_ppcs mc1) = length (mc_ppcs mc)" .
  have ch: "choosePartition ppc mc = (mc1, Some p)" using Cons.prems(2) mc1(1) by simp
  show ?case
  proof (cases "ms = []")
    case False
    with assms(2) have "take (cnt ms) ms \<noteq> []" by (cases ms) (auto simp: take_Cons')
    from serve_some [OF ch mc1(2) this] obtain mc' where
      mc': "serve ppc mc = Some (mc', Inr (Some (present (take (cnt ms) ms), p)))" "cache_view mc' az (bz @ [(n', p, k, drop (cnt ms) ms)])"
        "mc_size mc' = mc_size mc1 - int (length (take (cnt ms) ms))" "length (mc_ppcs mc') = length (mc_ppcs mc1)" .
    have "av = map snd az" "as = map snd (bz @ [(n', p, k, drop (cnt ms) ms)])" "r = Some (take (cnt ms) ms, p)"
      using Cons.prems(3) False z by auto
    with mc' mc1(3,4) show ?thesis by (intro exI conjI) (auto simp: given_def)
  next
    case True
    from serve_empty [OF ch mc1(2) [unfolded True]] obtain mc' where
      mc': "serve ppc mc = serve None mc'" "cache_view mc' az (bz @ [])" "mc_size mc' = mc_size mc1" "length (mc_ppcs mc') = length (mc_ppcs mc1)" .
    have "spec_from cnt (map snd az) (map snd bz) = (av, as, r)" "choosePartition None mc' = assignNewPartition mc'"
      using Cons.prems(3) z True by (simp_all add: choosePartition_def)
    with Cons.IH [of mc' bz None] mc' mc1(3,4) show ?thesis by simp
  qed
qed

lemma queued_parts: "queued q = sum_list (map (\<lambda>x. length (part_queue x)) (pq_available q)) + sum_list (map (\<lambda>x. length (part_queue x)) (pq_assigned q))"
  by (simp add: queued_def parts_def)

lemma queued_from:
  "spec_from cnt av as = (av', as', r) \<Longrightarrow>
   sum_list (map (\<lambda>x. length (part_queue x)) av') + sum_list (map (\<lambda>x. length (part_queue x)) as') + given r =
   sum_list (map (\<lambda>x. length (part_queue x)) av) + sum_list (map (\<lambda>x. length (part_queue x)) as)"
  by (induction cnt av as rule: spec_from.induct) (auto simp: given_def split: if_splits)

text \<open>Without a partition that is still assigned.\<close>

lemma serve_fresh_implements:
  assumes v: "cache_view mc az bz" and pos: "\<And>ms. ms \<noteq> [] \<Longrightarrow> cnt ms > 0" and ch: "choosePartition ppc mc = assignNewPartition mc"
    and q: "pq_next q = length (mc_ppcs mc)" "pq_available q = map snd az" "mc_size mc = int (queued (q\<lparr>pq_assigned := map snd bz\<rparr>))"
    and sf: "spec_from cnt (pq_available q) (map snd bz) = (av, as, r)"
  shows "\<exists>mc'. serve ppc mc = Some (mc', Inr (map_option (\<lambda>(ms, p). (present ms, p)) r)) \<and>
    implements_cache mc' (q\<lparr>pq_available := av, pq_assigned := as\<rparr>)"
proof -
  from serve_fresh [OF v pos ch sf [unfolded q(2)]] obtain mc' az' bz' where
    s: "serve ppc mc = Some (mc', Inr (map_option (\<lambda>(ms, p). (present ms, p)) r))" "cache_view mc' az' bz'"
      "av = map snd az'" "as = map snd bz'" "length (mc_ppcs mc') = length (mc_ppcs mc)" "mc_size mc' = mc_size mc - int (given r)"
    by blast
  have "implements_cache mc' (q\<lparr>pq_available := av, pq_assigned := as\<rparr>)"
    using s(3-6) q queued_from [OF sf] by (intro implements_cacheI [OF s(2)]) (simp_all add: queued_parts)
  with s(1) show ?thesis by blast
qed

lemma find_id_split:
  assumes "distinct (map at_id (xs @ (n, p, k, ms) # ys))"
  shows "find (\<lambda>x. Some (part_id x) = Some p) (map snd (xs @ (n, p, k, ms) # ys)) = Some (p, k, ms)"
proof -
  have "p \<notin> at_id ` set us \<Longrightarrow> find (\<lambda>x. Some (part_id x) = Some p) (map snd us @ (p, k, ms) # vs) = Some (p, k, ms)"
    for us :: "(nat \<times> 'a part) list" and vs by (induction us) auto
  with assms show ?thesis by simp
qed

lemma find_id_absent: "p \<notin> at_id ` set bz \<Longrightarrow> find (\<lambda>x. Some (part_id x) = Some p) (map snd bz) = None"
  by (induction bz) auto

lemma on_queue_split:
  assumes "distinct (map at_key (xs @ (n, p, k, ms) # ys))"
  shows "on_queue ((=) k) f (map snd (xs @ (n, p, k, ms) # ys)) = map snd (xs @ (n, p, k, f ms) # ys)"
proof -
  have "on_queue ((=) k) f (map snd us) = map snd us" if "k \<notin> at_key ` set us" for us :: "(nat \<times> 'a part) list"
    using that by (intro on_queue_absent) (auto simp: image_image)
  with assms show ?thesis by simp
qed

lemma serve_implements:
  assumes "implements_cache mc q" and pos: "\<And>ms. ms \<noteq> [] \<Longrightarrow> cnt ms > 0" and pp: "\<forall>p. ppc = Some p \<longrightarrow> p < pq_next q"
  shows "\<exists>mc'. serve ppc mc = Some (mc', Inr (map_option (\<lambda>(ms, p). (present ms, p)) (snd (spec_take cnt ppc q)))) \<and>
    implements_cache mc' (fst (spec_take cnt ppc q))"
proof -
  from assms(1) obtain az bz where v: "cache_view mc az bz" and q: "pq_available q = map snd az" "pq_assigned q = map snd bz"
      "pq_next q = length (mc_ppcs mc)" and sz: "mc_size mc = int (queued q)" by (rule implements_cacheE)
  obtain av as r where sf: "spec_from cnt (pq_available q) (pq_assigned q) = (av, as, r)" by (metis surj_pair)
  show ?thesis
  proof (cases "\<exists>p. ppc = Some p \<and> p \<in> at_id ` set bz")
    case False
    then have ch: "choosePartition ppc mc = assignNewPartition mc"
      using pp q(3) by (intro choose_fresh [OF v]) auto
    have "find (\<lambda>x. Some (part_id x) = ppc) (pq_assigned q) = None"
      using False q(2) find_id_absent by (cases ppc) (auto simp: find_None_iff)
    then have "spec_take cnt ppc q = (q\<lparr>pq_available := av, pq_assigned := as\<rparr>, r)" using sf by (simp add: spec_take_def Let_def)
    then show ?thesis using serve_fresh_implements [OF v pos ch q(3,1) _ sf [unfolded q(2)]] sz q by (simp add: queued_parts)
  next
    case True
    then obtain p n k ms where p: "ppc = Some p" "(n, p, k, ms) \<in> set bz" by force
    then obtain xs ys where b: "bz = xs @ (n, p, k, ms) # ys" by (meson split_list)
    have ch: "choosePartition ppc mc = (mc, Some p)" using choose_assigned [OF v, of p] p(1) b by simp
    have d: "distinct (map at_id (xs @ (n, p, k, ms) # ys))" "distinct (map at_key (xs @ (n, p, k, ms) # ys))"
      using v b by (simp_all add: cache_view_def)
    have f: "find (\<lambda>x. Some (part_id x) = ppc) (pq_assigned q) = Some (p, k, ms)" using find_id_split [OF d(1)] p(1) q(2) b by simp
    show ?thesis
    proof (cases "ms = []")
      case True
      obtain av as r where sf: "spec_from cnt (pq_available q) (map snd (xs @ ys)) = (av, as, r)" by (metis surj_pair)
      from serve_empty [OF ch v [unfolded b True]] obtain mc' where
        mc': "serve ppc mc = serve None mc'" "cache_view mc' az (xs @ ys)" "mc_size mc' = mc_size mc" "length (mc_ppcs mc') = length (mc_ppcs mc)" .
      have "spec_take cnt ppc q = (q\<lparr>pq_available := av, pq_assigned := as\<rparr>, r)"
        using sf f True filter_id_split(2) [OF d(1)] b q(2) by (simp add: spec_take_def Let_def)
      moreover have "choosePartition None mc' = assignNewPartition mc'" by (simp add: choosePartition_def)
      ultimately show ?thesis
        using serve_fresh_implements [OF mc'(2) pos _ _ q(1) _ sf, of None] mc' sz q b True by (simp add: queued_parts)
    next
      case False
      with pos have "take (cnt ms) ms \<noteq> []" by (cases ms) (auto simp: take_Cons')
      from serve_some [OF ch v [unfolded b] this] obtain mc' where
        mc': "serve ppc mc = Some (mc', Inr (Some (present (take (cnt ms) ms), p)))" "cache_view mc' az (xs @ (n, p, k, drop (cnt ms) ms) # ys)"
          "mc_size mc' = mc_size mc - int (length (take (cnt ms) ms))" "length (mc_ppcs mc') = length (mc_ppcs mc)" .
      have "spec_take cnt ppc q = (q\<lparr>pq_assigned := map snd (xs @ (n, p, k, drop (cnt ms) ms) # ys)\<rparr>, Some (take (cnt ms) ms, p))"
        using f False on_queue_split [OF d(2)] b q(2) by (simp add: spec_take_def Let_def)
      moreover have "implements_cache mc' (q\<lparr>pq_assigned := map snd (xs @ (n, p, k, drop (cnt ms) ms) # ys)\<rparr>)"
        using mc'(3,4) q sz b by (intro implements_cacheI [OF mc'(2)]) (simp_all add: queued_parts)
      ultimately show ?thesis using mc'(1) by simp
    qed
  qed
qed

end

lemma next_take:
  assumes "holds cache ms"
  shows "holds (fst (ppc_next cache)) (drop 1 ms) \<and> same_ppc cache (fst (ppc_next cache)) \<and>
    map_option (\<lambda>m. (m, 1 :: int)) (snd (ppc_next cache)) = (if take 1 ms = [] then None else Some (hd (take 1 ms), int (length (take 1 ms))))"
proof (cases ms)
  case Nil
  with holds_next_Nil [of cache] assms show ?thesis by simp
next
  case (Cons m ms')
  with holds_next_Cons [of cache m ms'] assms show ?thesis by simp
qed

interpretation serve_one: serving next_cache ppc_next "map_option (\<lambda>m. (m, 1))" "\<lambda>_. 1" hd
proof (unfold_locales, goal_cases)
  case (1 ppc mc)
  show ?case
    by (subst next_cache.simps) (simp split: prod.split option.split)
next
  case (2 cache ms)
  then show ?case using next_take [OF 2] by simp
qed

interpretation serve_many: serving "\<lambda>ppc. nextN_cache ppc n" "ppc_nextN n" "\<lambda>r. if r = [] then None else Some (r, int (length r))" "count_n n" "map Some"
  for n
proof (unfold_locales, goal_cases)
  case (1 ppc mc)
  show ?case by (subst nextN_cache.simps) (simp split: prod.split option.split)
next
  case (2 cache ms)
  then show ?case using holds_nextN [OF 2, of n] by auto
qed

end
