(* ===== verification/Message_Cache_Runs.thy ===== *)
theory Message_Cache_Runs
  imports Message_Cache_Refine "HOL-Library.Multiset"
begin

text \<open>Sequences of calls on the message cache: what they answer, and in which order messages come out.\<close>

section \<open>Runs\<close>

datatype 'm cache_op =
    Add_messages "'m list" | Return_messages "'m list" | Mark_stale "topic_partition list" | Return_part nat
  | Next "nat option" | Next_n "nat option" int | Clear

datatype 'm cache_answer = Nothing | Messages "('m list \<times> nat) option" | Failed js_error

text \<open>One call; \<open>None\<close> if it does not return. A null among the messages of \<open>nextN\<close> would be lost here, so it fails.\<close>

definition all_there :: "'m option list \<Rightarrow> 'm list option" where
  "all_there ms = (if None \<in> set ms then None else Some (map the ms))"

fun cache_step :: "'a msg cache_op \<Rightarrow> 'a msg message_cache \<Rightarrow> ('a msg message_cache \<times> 'a msg cache_answer) option" where
  "cache_step (Add_messages ms) mc = Some (addMessages ms mc, Nothing)"
| "cache_step (Return_messages ms) mc = Some (returnMessages ms mc, Nothing)"
| "cache_step (Mark_stale tps) mc = (case markStale tps mc of (mc', Inr _) \<Rightarrow> Some (mc', Nothing) | (mc', Inl e) \<Rightarrow> Some (mc', Failed e))"
| "cache_step (Return_part p) mc = (case return_ppc p mc of (mc', Inr _) \<Rightarrow> Some (mc', Nothing) | (mc', Inl e) \<Rightarrow> Some (mc', Failed e))"
| "cache_step (Next ppc) mc =
     (case next_cache ppc mc of
        None \<Rightarrow> None
      | Some (mc', Inl e) \<Rightarrow> Some (mc', Failed e)
      | Some (mc', Inr r) \<Rightarrow> Some (mc', Messages (map_option (\<lambda>(m, p). ([m], p)) r)))"
| "cache_step (Next_n ppc n) mc =
     (case nextN_cache ppc n mc of
        None \<Rightarrow> None
      | Some (mc', Inl e) \<Rightarrow> Some (mc', Failed e)
      | Some (mc', Inr None) \<Rightarrow> Some (mc', Messages None)
      | Some (mc', Inr (Some (ms, p))) \<Rightarrow> (case all_there ms of Some ns \<Rightarrow> Some (mc', Messages (Some (ns, p))) | None \<Rightarrow> None))"
| "cache_step Clear mc = Some (clear_cache mc, Nothing)"

fun spec_op :: "'a msg cache_op \<Rightarrow> 'a msg part_queues \<Rightarrow> 'a msg part_queues \<times> 'a msg cache_answer" where
  "spec_op (Add_messages ms) q = (fold (\<lambda>m. spec_add m False) ms q, Nothing)"
| "spec_op (Return_messages ms) q = (fold (\<lambda>m. spec_add m True) (rev ms) q, Nothing)"
| "spec_op (Mark_stale tps) q = (fold (\<lambda>tp. spec_stale (partitionKey tp)) tps q, Nothing)"
| "spec_op (Return_part p) q = (spec_return p q, Nothing)"
| "spec_op (Next ppc) q = (case spec_take (\<lambda>_. 1) ppc q of (q', r) \<Rightarrow> (q', Messages r))"
| "spec_op (Next_n ppc n) q = (case spec_take (count_n n) ppc q of (q', r) \<Rightarrow> (q', Messages r))"
| "spec_op Clear q = (spec_clear q, Nothing)"

text \<open>The partitions that calls name were given out before; \<open>nextN\<close> is not asked for zero messages.\<close>

fun op_ok :: "'m cache_op \<Rightarrow> nat \<Rightarrow> bool" where
  "op_ok (Return_part p) k = (p < k)"
| "op_ok (Next ppc) k = (case ppc of Some p \<Rightarrow> p < k | None \<Rightarrow> True)"
| "op_ok (Next_n ppc n) k = (n \<noteq> 0 \<and> (case ppc of Some p \<Rightarrow> p < k | None \<Rightarrow> True))"
| "op_ok _ k = True"

fun run_cache :: "'a msg cache_op list \<Rightarrow> 'a msg message_cache \<Rightarrow> ('a msg message_cache \<times> 'a msg cache_answer list) option" where
  "run_cache [] mc = Some (mc, [])"
| "run_cache (c # cs) mc =
     (case cache_step c mc of
        None \<Rightarrow> None
      | Some (mc1, r) \<Rightarrow> (case run_cache cs mc1 of None \<Rightarrow> None | Some (mc2, rs) \<Rightarrow> Some (mc2, r # rs)))"

fun run_ok :: "'a msg cache_op list \<Rightarrow> 'a msg part_queues \<Rightarrow> bool" where
  "run_ok [] q = True"
| "run_ok (c # cs) q \<longleftrightarrow> op_ok c (pq_next q) \<and> run_ok cs (fst (spec_op c q))"

lemma all_there_Some [simp]: "all_there (map Some ms) = Some ms"
  by (auto simp: all_there_def comp_def)

lemma spec_take_one:
  "snd (spec_take (\<lambda>_. 1) ppc q) = Some (ms, p) \<Longrightarrow> [hd ms] = ms"
proof -
  have from_one: "spec_from (\<lambda>_. 1) av as = (av', as', Some (ms, p)) \<Longrightarrow> [hd ms] = ms" for av as av' as'
    by (induction "\<lambda>_ :: 'a list. 1 :: nat" av as rule: spec_from.induct) (auto split: if_splits simp: take_Suc)
  assume "snd (spec_take (\<lambda>_. 1) ppc q) = Some (ms, p)"
  then show ?thesis
    by (auto simp: spec_take_def Let_def take_Suc split: option.splits prod.splits if_splits dest!: from_one [simplified])
qed

lemma count_n_pos: "n \<noteq> 0 \<Longrightarrow> ms \<noteq> [] \<Longrightarrow> count_n n ms > 0"
  by (auto simp: count_n_def)

lemma cache_step_implements:
  assumes "implements_cache mc q" "op_ok c (pq_next q)"
  shows "\<exists>mc'. cache_step c mc = Some (mc', snd (spec_op c q)) \<and> implements_cache mc' (fst (spec_op c q))"
proof (cases c)
  case (Add_messages ms)
  with addMessages_implements [OF assms(1)] show ?thesis by simp
next
  case (Return_messages ms)
  with returnMessages_implements [OF assms(1)] show ?thesis by simp
next
  case (Mark_stale tps)
  with markStale_implements [OF assms(1), of tps] show ?thesis by auto
next
  case (Return_part p)
  with return_ppc_implements [OF assms(1), of p] assms(2) show ?thesis by auto
next
  case (Next ppc)
  then have "\<forall>p. ppc = Some p \<longrightarrow> p < pq_next q" using assms(2) by auto
  from serve_one.serve_implements [OF assms(1) _ this] obtain mc' where
    mc': "next_cache ppc mc = Some (mc', Inr (map_option (\<lambda>(ms, p). (hd ms, p)) (snd (spec_take (\<lambda>_. 1) ppc q))))"
      "implements_cache mc' (fst (spec_take (\<lambda>_. 1) ppc q))" by auto
  show ?thesis
  proof (cases "snd (spec_take (\<lambda>_. 1) ppc q)")
    case None
    with mc' Next show ?thesis by (simp add: case_prod_beta)
  next
    case (Some r)
    with mc' Next spec_take_one [of ppc q "fst r" "snd r"] show ?thesis by (simp add: case_prod_beta)
  qed
next
  case (Next_n ppc n)
  then have pp: "\<forall>p. ppc = Some p \<longrightarrow> p < pq_next q" and "n \<noteq> 0" using assms(2) by auto
  from serve_many.serve_implements [OF assms(1) count_n_pos [OF this(2)] pp] obtain mc' where
    mc': "nextN_cache ppc n mc = Some (mc', Inr (map_option (\<lambda>(ms, p). (map Some ms, p)) (snd (spec_take (count_n n) ppc q))))"
      "implements_cache mc' (fst (spec_take (count_n n) ppc q))" by auto
  with Next_n show ?thesis by (cases "snd (spec_take (count_n n) ppc q)") (auto simp: case_prod_beta)
next
  case Clear
  with clear_implements [OF assms(1)] show ?thesis by simp
qed

lemma run_cache_implements:
  assumes "implements_cache mc q" "run_ok cs q"
  shows "\<exists>mc'. run_cache cs mc = Some (mc', snd (run_ops spec_op cs q)) \<and> implements_cache mc' (fst (run_ops spec_op cs q))"
  using assms
proof (induction cs arbitrary: mc q)
  case (Cons c cs)
  from cache_step_implements [OF Cons.prems(1)] Cons.prems(2) obtain mc1 where
    mc1: "cache_step c mc = Some (mc1, snd (spec_op c q))" "implements_cache mc1 (fst (spec_op c q))" by auto
  from Cons.IH [OF mc1(2)] Cons.prems(2) mc1(1) show ?case by (auto simp: case_prod_beta)
qed simp

lemma new_implements: "implements_cache newMessageCache spec_new"
  by (rule implements_cacheI [where az = "[]" and bz = "[]"])
    (simp_all add: newMessageCache_def reinit_def cache_view_def two_lists_def map_view_def spec_new_def queued_def parts_def)


text \<open>A sequence of calls on two partitions.\<close>

record sample_message = topic_partition +
  sample_offset :: int

definition sample_msg :: "string \<Rightarrow> int \<Rightarrow> sample_message" where
  "sample_msg t n = \<lparr>tp_topic = t, tp_partition = 0, sample_offset = n\<rparr>"

definition sample_ops :: "sample_message cache_op list" where
  "sample_ops =
     [Add_messages [sample_msg ''a'' 1, sample_msg ''b'' 2, sample_msg ''a'' 3], Next None, Next_n (Some 0) 5, Next (Some 0),
      Return_part 1, Add_messages [sample_msg ''a'' 4], Next_n None (-1)]"


lemma sample_run_ok: "run_ok sample_ops spec_new"
  by (simp add: sample_ops_def spec_new_def spec_add_def spec_take_def spec_return_def parts_def Let_def partitionKey_def
      sample_msg_def count_n_def)

text \<open>
  C10. The message cache refines the two lists of partitions with their queues: every sequence of calls on
  a new cache returns, none of them throws, each answers as the abstract cache does, and in the
  end the sizes the cache reports are the number of messages that wait, of available and of
  assigned partitions. Calls may give back any partition that was given out before, in any state.
\<close>

theorem message_cache_refines_queues:
  assumes "run_ok cs spec_new"
  shows "\<exists>mc. run_cache cs newMessageCache = Some (mc, snd (run_ops spec_op cs spec_new)) \<and>
    mc_size mc = int (queued (fst (run_ops spec_op cs spec_new))) \<and>
    availableSize mc = int (length (pq_available (fst (run_ops spec_op cs spec_new)))) \<and>
    assignedSize mc = int (length (pq_assigned (fst (run_ops spec_op cs spec_new))))"
proof -
  from run_cache_implements [OF new_implements assms] obtain mc where
    mc: "run_cache cs newMessageCache = Some (mc, snd (run_ops spec_op cs spec_new))"
      "implements_cache mc (fst (run_ops spec_op cs spec_new))" by blast
  from mc(2) obtain az bz where v: "cache_view mc az bz" "pq_available (fst (run_ops spec_op cs spec_new)) = map snd az"
      "pq_assigned (fst (run_ops spec_op cs spec_new)) = map snd bz" "mc_size mc = int (queued (fst (run_ops spec_op cs spec_new)))"
    by (rule implements_cacheE)
  then have "availableSize mc = int (length az)" "assignedSize mc = int (length bz)"
    by (simp_all add: cache_view_def two_lists_def list_of_def availableSize_def assignedSize_def node_ids_def)
  with mc(1) v show ?thesis by simp
qed

theorem message_cache_refines_queues_witness:
  "\<exists>mc. run_cache sample_ops newMessageCache = Some (mc, snd (run_ops spec_op sample_ops spec_new)) \<and>
    mc_size mc = int (queued (fst (run_ops spec_op sample_ops spec_new))) \<and>
    availableSize mc = int (length (pq_available (fst (run_ops spec_op sample_ops spec_new)))) \<and>
    assignedSize mc = int (length (pq_assigned (fst (run_ops spec_op sample_ops spec_new))))"
  by (rule message_cache_refines_queues [OF sample_run_ok])

section \<open>The order of messages\<close>

text \<open>The messages that wait for a key.\<close>

definition wait :: "string \<Rightarrow> 'm part list \<Rightarrow> 'm list" where
  "wait k xs = (case map_of (map snd xs) k of Some ms \<Rightarrow> ms | None \<Rightarrow> [])"

definition keyed :: "'a msg part list \<Rightarrow> bool" where
  "keyed xs \<longleftrightarrow> (\<forall>x\<in>set xs. \<forall>m\<in>set (part_queue x). partitionKey m = part_key x)"

abbreviation of_key :: "string \<Rightarrow> 'a msg list \<Rightarrow> 'a msg list" where
  "of_key k \<equiv> filter (\<lambda>m. partitionKey m = k)"

lemma wait_Nil [simp]: "wait k [] = []"
  by (simp add: wait_def)

lemma wait_Cons [simp]: "wait k (x # xs) = (if part_key x = k then part_queue x else wait k xs)"
  by (cases x) (simp add: wait_def)

lemma wait_absent: "k \<notin> part_key ` set xs \<Longrightarrow> wait k xs = []"
  by (induction xs) auto

lemma wait_append: "wait k (xs @ ys) = (if k \<in> part_key ` set xs then wait k xs else wait k ys)"
  by (induction xs) auto

lemma wait_cong:
  assumes "distinct (map part_key xs)" "set ys = set xs" "distinct (map part_key ys)"
  shows "wait k ys = wait k xs"
proof -
  have "map_of (map snd ys) = map_of (map snd xs)"
    using assms by (subst map_of_inject_set) (simp_all add: comp_def)
  then show ?thesis by (simp add: wait_def)
qed

lemma wait_on_queue: "wait k (on_queue ((=) k0) f xs) = (if k = k0 \<and> k \<in> part_key ` set xs then f (wait k xs) else wait k xs)"
proof (induction xs)
  case (Cons x xs)
  then show ?case by (cases "part_key x = k"; cases "k \<in> part_key ` set xs") auto
qed simp

lemma keyed_parts_Nil [simp]: "keyed []"
  by (simp add: keyed_def)

lemma keyed_append [simp]: "keyed (xs @ ys) \<longleftrightarrow> keyed xs \<and> keyed ys"
  by (auto simp: keyed_def)

lemma keyed_Cons [simp]: "keyed (x # xs) \<longleftrightarrow> (\<forall>m\<in>set (part_queue x). partitionKey m = part_key x) \<and> keyed xs"
  by (simp add: keyed_def)

lemma keyed_subset: "keyed xs \<Longrightarrow> set ys \<subseteq> set xs \<Longrightarrow> keyed ys"
  by (auto simp: keyed_def)

lemma of_key_all: "\<forall>m\<in>set ms. partitionKey m = k0 \<Longrightarrow> of_key k ms = (if k = k0 then ms else [])"
  by (induction ms) auto

lemma keys_on_queue [simp]: "part_key ` set (on_queue P f xs) = part_key ` set xs"
  by (induction xs) auto

lemma add_in_order:
  assumes "keyed (parts q)"
  shows "wait k (parts (spec_add m False q)) = wait k (parts q) @ of_key k [m]" "keyed (parts (spec_add m False q))"
proof -
  have kq: "keyed (on_queue ((=) (partitionKey m)) (\<lambda>ms. ms @ [m]) xs)" if "keyed xs" for xs
    using that by (induction xs) auto
  show "wait k (parts (spec_add m False q)) = wait k (parts q) @ of_key k [m]"
    using wait_absent [of "partitionKey m"]
    by (auto simp: spec_add_def Let_def parts_def wait_append wait_on_queue image_Un)
  show "keyed (parts (spec_add m False q))"
    using assms kq by (auto simp: spec_add_def Let_def parts_def)
qed

lemma adds_in_order:
  assumes "keyed (parts q)"
  shows "wait k (parts (fold (\<lambda>m. spec_add m False) ms q)) = wait k (parts q) @ of_key k ms \<and>
    keyed (parts (fold (\<lambda>m. spec_add m False) ms q))"
  using assms
proof (induction ms arbitrary: q)
  case (Cons m ms)
  from Cons.IH [OF add_in_order(2) [OF Cons.prems]] add_in_order(1) [OF Cons.prems] show ?case by simp
qed simp

text \<open>The messages of an answer.\<close>

definition given_of :: "('m list \<times> nat) option \<Rightarrow> 'm list" where
  "given_of r = (case r of None \<Rightarrow> [] | Some (ms, p) \<Rightarrow> ms)"

lemma from_in_order:
  assumes "distinct (map part_key (av @ as))" "keyed (av @ as)" "spec_from cnt av as = (av', as', r)"
  shows "wait k (av @ as) = of_key k (given_of r) @ wait k (av' @ as') \<and> keyed (av' @ as')"
  using assms
proof (induction cnt av as rule: spec_from.induct)
  case (1 cnt as)
  then show ?case by (simp add: given_of_def)
next
  case (2 cnt p k0 ms av as)
  show ?case
  proof (cases "ms = []")
    case True
    with 2 have "wait k (av @ as) = of_key k (given_of r) @ wait k (av' @ as') \<and> keyed (av' @ as')" by simp
    moreover have "wait k0 (av @ as) = []" using 2(2) by (intro wait_absent) auto
    ultimately show ?thesis using True by auto
  next
    case False
    then have r: "av' = av" "as' = as @ [(p, k0, drop (cnt ms) ms)]" "r = Some (take (cnt ms) ms, p)" using 2(4) by auto
    have ms: "\<forall>m\<in>set ms. partitionKey m = k0" using 2(3) by simp
    then have "of_key k (take (cnt ms) ms) = (if k = k0 then take (cnt ms) ms else [])"
      by (intro of_key_all) (meson in_set_takeD)
    moreover have "k0 \<notin> part_key ` set (av @ as)" using 2(2) by (simp add: image_Un)
    ultimately show ?thesis
      using r ms 2(3) wait_absent [of k0 "av @ as"] by (auto simp: given_of_def wait_append wait_absent dest: in_set_dropD)
  qed
qed


lemma wait_drop_empty:
  "k0 \<notin> part_key ` set xs \<Longrightarrow> k0 \<notin> part_key ` set ys \<Longrightarrow> wait k (xs @ (p, k0, []) # ys) = wait k (xs @ ys)"
  by (cases "k = k0") (simp_all add: wait_append wait_absent)

lemma take_in_order:
  assumes d: "distinct (map part_key (parts q))" and i: "distinct (map part_id (parts q))" and kd: "keyed (parts q)" and t: "spec_take cnt ppc q = (q', r)"
  shows "wait k (parts q) = of_key k (given_of r) @ wait k (parts q') \<and> keyed (parts q')"
proof (cases "find (\<lambda>x. Some (part_id x) = ppc) (pq_assigned q)")
  case None
  obtain av as r' where sf: "spec_from cnt (pq_available q) (pq_assigned q) = (av, as, r')" by (metis surj_pair)
  with t None have "q' = q\<lparr>pq_available := av, pq_assigned := as\<rparr>" "r = r'" by (auto simp: spec_take_def Let_def)
  with from_in_order [OF d [unfolded parts_def] kd [unfolded parts_def] sf, of k] show ?thesis by (simp add: parts_def)
next
  case (Some x)
  obtain p k0 ms where x: "x = (p, k0, ms)" by (cases x) auto
  with Some have mem: "(p, k0, ms) \<in> set (pq_assigned q)" by (auto simp: find_Some_iff)
  then obtain us vs where b: "pq_assigned q = us @ (p, k0, ms) # vs" by (meson split_list)
  have nk: "k0 \<notin> part_key ` set (pq_available q)" "k0 \<notin> part_key ` set us" "k0 \<notin> part_key ` set vs"
    using d b by (auto simp: parts_def)
  show ?thesis
  proof (cases "ms = []")
    case True
    have "filter (\<lambda>x. part_id x \<noteq> p) xs = xs" if "p \<notin> part_id ` set xs" for xs :: "'a msg part list"
      using that by (induction xs) auto
    with i b have fl: "filter (\<lambda>x. part_id x \<noteq> p) (pq_assigned q) = us @ vs" by (simp add: parts_def)
    obtain av as r' where sf: "spec_from cnt (pq_available q) (us @ vs) = (av, as, r')" by (metis surj_pair)
    with t Some x True fl have q': "q' = q\<lparr>pq_available := av, pq_assigned := as\<rparr>" "r = r'" by (auto simp: spec_take_def Let_def)
    have "distinct (map part_key (pq_available q @ us @ vs))" "keyed (pq_available q @ us @ vs)"
      using d kd b by (auto simp: parts_def)
    moreover have "wait k (parts q) = wait k (pq_available q @ us @ vs)"
      using wait_drop_empty [of k0 "pq_available q @ us" vs k p] nk True by (simp add: parts_def b image_Un)
    ultimately show ?thesis using from_in_order [OF _ _ sf, of k] q' by (simp add: parts_def)
  next
    case False
    with t Some x have q': "q' = q\<lparr>pq_assigned := on_queue ((=) k0) (drop (cnt ms)) (pq_assigned q)\<rparr>" "r = Some (take (cnt ms) ms, p)"
      by (auto simp: spec_take_def Let_def)
    have on: "on_queue ((=) k0) (drop (cnt ms)) (pq_assigned q) = us @ (p, k0, drop (cnt ms) ms) # vs"
      using nk by (simp add: b on_queue_absent)
    have ms: "\<forall>m\<in>set ms. partitionKey m = k0" using kd b by (simp add: parts_def)
    then have "of_key k (take (cnt ms) ms) = (if k = k0 then take (cnt ms) ms else [])"
      by (intro of_key_all) (meson in_set_takeD)
    with q' on b nk ms kd show ?thesis
      by (auto simp: parts_def given_of_def wait_append wait_absent dest: in_set_dropD)
  qed
qed

lemma return_in_order:
  assumes "distinct (map part_key (parts q))" "keyed (parts q)"
  shows "wait k (parts (spec_return p q)) = wait k (parts q) \<and> keyed (parts (spec_return p q))"
proof
  have s: "set (parts (spec_return p q)) = set (parts q)" by (auto simp: parts_def spec_return_def)
  have "mset (parts (spec_return p q)) = mset (parts q)"
    using multiset_partition [of "mset (pq_assigned q)" "\<lambda>x. part_id x = p", symmetric] by (simp add: parts_def spec_return_def)
  then have "distinct (map part_key (parts (spec_return p q)))"
    using assms(1) by (metis mset_map mset_eq_imp_distinct_iff)
  from wait_cong [OF assms(1) s this] show "wait k (parts (spec_return p q)) = wait k (parts q)" .
  show "keyed (parts (spec_return p q))" using assms(2) s by (simp add: keyed_def)
qed

text \<open>Calls that neither drop messages nor put them back.\<close>

fun plain_op :: "'m cache_op \<Rightarrow> bool" where
  "plain_op (Add_messages ms) = True"
| "plain_op (Return_part p) = True"
| "plain_op (Next ppc) = True"
| "plain_op (Next_n ppc n) = True"
| "plain_op _ = False"

fun added_by :: "'m cache_op \<Rightarrow> 'm list" where
  "added_by (Add_messages ms) = ms"
| "added_by _ = []"

fun given_by :: "'m cache_answer \<Rightarrow> 'm list" where
  "given_by (Messages r) = given_of r"
| "given_by _ = []"

lemma step_in_order:
  assumes "distinct (map part_key (parts q))" "distinct (map part_id (parts q))" "keyed (parts q)" "plain_op c"
  shows "wait k (parts q) @ of_key k (added_by c) = of_key k (given_by (snd (spec_op c q))) @ wait k (parts (fst (spec_op c q))) \<and>
    keyed (parts (fst (spec_op c q)))"
proof (cases c)
  case (Add_messages ms)
  with adds_in_order [OF assms(3)] show ?thesis by simp
next
  case (Return_part p)
  with return_in_order [OF assms(1,3)] show ?thesis by simp
next
  case (Next ppc)
  with take_in_order [OF assms(1-3), of "\<lambda>_. 1" ppc] show ?thesis by (simp split: prod.split)
next
  case (Next_n ppc n)
  with take_in_order [OF assms(1-3), of "count_n n" ppc] show ?thesis by (simp split: prod.split)
qed (use assms(4) in simp_all)

lemma run_in_order:
  assumes "implements_cache mc q" "run_ok cs q" "keyed (parts q)" "list_all plain_op cs"
  shows "wait k (parts q) @ of_key k (concat (map added_by cs)) =
    of_key k (concat (map given_by (snd (run_ops spec_op cs q)))) @ wait k (parts (fst (run_ops spec_op cs q)))"
  using assms
proof (induction cs arbitrary: mc q)
  case (Cons c cs)
  from Cons.prems(1) have "refines mc q" by (simp add: implements_cache_def)
  then have d: "distinct (map part_key (parts q))" "distinct (map part_id (parts q))" by (rule refinesE, simp)+
  from cache_step_implements [OF Cons.prems(1)] Cons.prems(2) obtain mc1 where "implements_cache mc1 (fst (spec_op c q))" by auto
  note IH = Cons.IH [OF this]
  from step_in_order [OF d Cons.prems(3), of c k] Cons.prems(4) have
    st: "wait k (parts q) @ of_key k (added_by c) = of_key k (given_by (snd (spec_op c q))) @ wait k (parts (fst (spec_op c q)))"
      "keyed (parts (fst (spec_op c q)))" by simp_all
  have "wait k (parts q) @ of_key k (added_by c) @ of_key k (concat (map added_by cs)) =
      of_key k (given_by (snd (spec_op c q))) @ wait k (parts (fst (spec_op c q))) @ of_key k (concat (map added_by cs))"
    using st(1) by (metis append.assoc)
  with IH st(2) Cons.prems(2,4) show ?case by (simp add: case_prod_beta)
qed simp

text \<open>
  C16. Messages of a partition are handed out in the order in which they were added, none is lost and none
  is handed out twice: after any sequence of calls that add messages, take them singly or in
  batches, with or without giving a partition back, the messages added for a key are those that
  were handed out for it, in their order, followed by those that still wait for it.
\<close>

theorem messages_come_in_order:
  assumes "run_ok cs spec_new" "list_all plain_op cs"
  shows "\<exists>mc answers waiting. run_cache cs newMessageCache = Some (mc, answers) \<and>
    (\<forall>k. of_key k (concat (map added_by cs)) = of_key k (concat (map given_by answers)) @ wait k waiting) \<and>
    mc_size mc = int (sum_list (map (\<lambda>x. length (part_queue x)) waiting)) \<and> distinct (map part_key waiting)"
proof -
  let ?q = "fst (run_ops spec_op cs spec_new)"
  from run_cache_implements [OF new_implements assms(1)] obtain mc where
    mc: "run_cache cs newMessageCache = Some (mc, snd (run_ops spec_op cs spec_new))" "implements_cache mc ?q" by blast
  have "wait k (parts spec_new) = []" "keyed (parts spec_new)" for k by (simp_all add: spec_new_def parts_def)
  with run_in_order [OF new_implements assms(1) _ assms(2)]
  have "of_key k (concat (map added_by cs)) = of_key k (concat (map given_by (snd (run_ops spec_op cs spec_new)))) @ wait k (parts ?q)" for k
    by (metis append_Nil)
  moreover have "mc_size mc = int (sum_list (map (\<lambda>x. length (part_queue x)) (parts ?q)))" "distinct (map part_key (parts ?q))"
    using mc(2) refinesE by (auto simp: implements_cache_def queued_def)
  ultimately show ?thesis using mc(1) by blast
qed

theorem messages_come_in_order_witness:
  "\<exists>mc answers waiting. run_cache sample_ops newMessageCache = Some (mc, answers) \<and>
    (\<forall>k. of_key k (concat (map added_by sample_ops)) = of_key k (concat (map given_by answers)) @ wait k waiting) \<and>
    mc_size mc = int (sum_list (map (\<lambda>x. length (part_queue x)) waiting)) \<and> distinct (map part_key waiting)"
  by (rule messages_come_in_order [OF sample_run_ok]) (simp add: sample_ops_def)

end
