(* ===== verification/Base64.thy ===== *)
theory Base64
  imports Variant_Format
begin

text \<open>
  The conversions of Node's \<open>Buffer\<close> that the encryption code uses: base64 text to bytes
  (\<open>Buffer.from(s, 'base64')\<close>), which also takes the URL-safe alphabet, skips any other character and
  stops at the first \<open>=\<close>; and UTF-8 bytes to text (\<open>toString()\<close>), which keeps a byte order mark. Encoding
  is \<open>base64Encode\<close> and \<open>textEncode\<close>. Both round trips are proved here.
\<close>

definition unbase64 :: "nat \<Rightarrow> nat option" where
  "unbase64 u =
     (if 65 \<le> u \<and> u \<le> 90 then Some (u - 65)
      else if 97 \<le> u \<and> u \<le> 122 then Some (u - 71)
      else if 48 \<le> u \<and> u \<le> 57 then Some (u + 4)
      else if u = 43 \<or> u = 45 then Some 62
      else if u = 47 \<or> u = 95 then Some 63
      else None)"

fun sextets_bytes :: "nat list \<Rightarrow> bytes" where
  "sextets_bytes (a # b # c # d # r) =
     of_nat (a * 4 + b div 16) # of_nat (b mod 16 * 16 + c div 4) # of_nat (c mod 4 * 64 + d) # sextets_bytes r"
| "sextets_bytes [a, b, c] = [of_nat (a * 4 + b div 16), of_nat (b mod 16 * 16 + c div 4)]"
| "sextets_bytes [a, b] = [of_nat (a * 4 + b div 16)]"
| "sextets_bytes _ = []"

definition base64Decode :: "ustring \<Rightarrow> bytes" where
  "base64Decode s = sextets_bytes (List.map_filter unbase64 (takeWhile (\<lambda>u. u \<noteq> 61) s))"

definition bufferToString :: "bytes \<Rightarrow> ustring" where
  "bufferToString bs = concat (map units_of (decode_points u_init (map unat bs)))"

lemma bufferToString_textEncode: "well_formed s \<Longrightarrow> bufferToString (textEncode s) = s"
  using code_points_back [of s] decode_encode_points [of "code_points s"]
  by (simp add: bufferToString_def unat_textEncode)

section \<open>Decoding what was encoded\<close>

definition base64_codes :: "nat list" where
  "base64_codes = [65..<91] @ [97..<123] @ [48..<58] @ [43, 47]"

lemma base64_codes:
  "map of_char ''ABCDEFGHIJKLMNOPQRSTUVWXYZabcdefghijklmnopqrstuvwxyz0123456789+/'' = base64_codes"
  by (simp add: base64_codes_def upt_rec)

lemma base64_char_code: "n < 64 \<Longrightarrow> of_char (base64_char n) = base64_codes ! n"
  unfolding base64_char_def base64_codes [symmetric] by (rule nth_map [symmetric]) simp

lemma base64_codes_back:
  assumes "n < 64"
  shows "unbase64 (base64_codes ! n) = Some n" and "base64_codes ! n \<noteq> 61"
proof -
  consider "n < 26" | "26 \<le> n" "n < 52" | "52 \<le> n" "n < 62" | "n = 62" | "n = 63"
    using assms by linarith
  then have "unbase64 (base64_codes ! n) = Some n \<and> base64_codes ! n \<noteq> 61"
  proof cases
    case 1
    then have "base64_codes ! n = 65 + n" by (simp add: base64_codes_def nth_append del: upt_rec_numeral)
    with 1 show ?thesis by (simp add: unbase64_def)
  next
    case 2
    then have "base64_codes ! n = 97 + (n - 26)" by (simp add: base64_codes_def nth_append del: upt_rec_numeral)
    with 2 show ?thesis by (simp add: unbase64_def)
  next
    case 3
    then have "\<not> n < 26" "\<not> n - 26 < 26" "n - 52 < 10" by linarith+
    then have "base64_codes ! n = 48 + (n - 52)" by (simp add: base64_codes_def nth_append del: upt_rec_numeral)
    with 3 show ?thesis by (auto simp: unbase64_def)
  qed (simp_all add: base64_codes_def nth_append unbase64_def del: upt_rec_numeral)
  then show "unbase64 (base64_codes ! n) = Some n" "base64_codes ! n \<noteq> 61"
    by simp_all
qed

lemma unbase64_char [simp]: "n < 64 \<Longrightarrow> unbase64 (of_char (base64_char n)) = Some n"
  by (simp only: base64_char_code base64_codes_back)

lemma base64_char_not_pad [simp]: "n < 64 \<Longrightarrow> of_char (base64_char n) \<noteq> (61 :: nat)"
  by (simp add: base64_char_code base64_codes_back)

lemma div_bound: "x < k * d \<Longrightarrow> x div d < k" for x k d :: nat
  by (simp add: less_mult_imp_div_less)

lemma sextet_bounds [simp]:
  "unat (a :: byte) div 4 < 64" "unat a mod 4 * 16 < 64" "unat a mod 4 * 16 + unat (b :: byte) div 16 < 64"
  "unat b mod 16 * 4 < 64" "unat b mod 16 * 4 + unat (c :: byte) div 64 < 64" "unat c mod 64 < 64"
proof -
  have "unat a mod 4 < 4" "unat b mod 16 < 16" "unat b div 16 < 16" "unat c div 64 < 4" "unat a div 4 < 64"
    using unat_byte_less [of a] unat_byte_less [of b] unat_byte_less [of c] by (simp_all add: div_bound)
  then show "unat a div 4 < 64" "unat a mod 4 * 16 < 64" "unat a mod 4 * 16 + unat b div 16 < 64"
    "unat b mod 16 * 4 < 64" "unat b mod 16 * 4 + unat c div 64 < 64" "unat c mod 64 < 64"
    by simp_all
qed

lemma sextets_of_encoded:
  "List.map_filter unbase64 (takeWhile (\<lambda>u. u \<noteq> 61) (ascii (base64Encode bs))) =
     (case bs of
        [] \<Rightarrow> []
      | [a] \<Rightarrow> [unat a div 4, unat a mod 4 * 16]
      | [a, b] \<Rightarrow> [unat a div 4, unat a mod 4 * 16 + unat b div 16, unat b mod 16 * 4]
      | a # b # c # r \<Rightarrow>
          [unat a div 4, unat a mod 4 * 16 + unat b div 16, unat b mod 16 * 4 + unat c div 64, unat c mod 64] @
          List.map_filter unbase64 (takeWhile (\<lambda>u. u \<noteq> 61) (ascii (base64Encode r))))"
  by (cases bs rule: base64Encode.cases) (simp_all add: ascii_def map_filter_simps)

lemma byte_back_1: "of_nat (unat a div 4 * 4 + (unat a mod 4 * 16 + unat b div 16) div 16) = a" for a b :: byte
proof -
  have "unat a div 4 * 4 + (unat a mod 4 * 16 + unat b div 16) div 16 = unat a"
    using unat_byte_less [of b] by (simp add: div_mult2_eq [symmetric])
  then show ?thesis by simp
qed

lemma byte_back_1_pad: "of_nat (unat a div 4 * 4 + (unat a mod 4 * 16) div 16) = a" for a :: byte
  by simp

lemma byte_back_2:
  "of_nat ((unat a mod 4 * 16 + unat b div 16) mod 16 * 16 + (unat b mod 16 * 4 + unat c div 64) div 4) = b" for a b c :: byte
proof -
  have "(unat a mod 4 * 16 + unat b div 16) mod 16 * 16 + (unat b mod 16 * 4 + unat c div 64) div 4 = unat b"
    using unat_byte_less [of b] unat_byte_less [of c] by (simp add: div_mult2_eq [symmetric] div_bound)
  then show ?thesis by simp
qed

lemma byte_back_2_pad:
  "of_nat ((unat a mod 4 * 16 + unat b div 16) mod 16 * 16 + (unat b mod 16 * 4) div 4) = b" for a b :: byte
  using byte_back_2 [of a b 0] by simp

lemma byte_back_3: "of_nat ((unat b mod 16 * 4 + unat c div 64) mod 4 * 64 + unat c mod 64) = c" for b c :: byte
proof -
  have "(unat b mod 16 * 4 + unat c div 64) mod 4 = unat c div 64"
    using div_bound [of "unat c" 4 64] by (simp add: mod_mult_self3)
  then have "(unat b mod 16 * 4 + unat c div 64) mod 4 * 64 + unat c mod 64 = unat c"
    by simp
  then show ?thesis by (simp del: of_nat_add of_nat_mult)
qed

lemma base64Decode_base64Encode [simp]: "base64Decode (ascii (base64Encode bs)) = bs"
proof (induction bs rule: base64Encode.induct)
  case 1
  then show ?case by (simp add: base64Decode_def ascii_def map_filter_simps)
next
  case (2 a)
  then show ?case
    by (simp only: base64Decode_def sextets_of_encoded [of "[a]"] list.case sextets_bytes.simps byte_back_1_pad)
next
  case (3 a b)
  then show ?case
    by (simp only: base64Decode_def sextets_of_encoded [of "[a, b]"] list.case sextets_bytes.simps byte_back_1 byte_back_2_pad)
next
  case (4 a b c r)
  then show ?case
    by (simp only: base64Decode_def sextets_of_encoded [of "a # b # c # r"] list.case append.simps sextets_bytes.simps
        byte_back_1 byte_back_2 byte_back_3)
qed

lemma base64Encode_Nil_iff [simp]: "base64Encode bs = [] \<longleftrightarrow> bs = []"
  by (cases bs rule: base64Encode.cases) simp_all

end
