(* ===== verification/Tink.thy ===== *)
theory Tink
  imports Rule_Engine Base64
begin

text \<open>
  The primitives under \<open>rules/encryption/tink/\<close>: byte arrays (\<open>bytes.ts\<close>), argument checks
  (\<open>validators.ts\<close>), random bytes (\<open>random.ts\<close>), AES-GCM and AES-SIV as authenticated encryption
  (\<open>aes_gcm.ts\<close>, \<open>aes_siv.ts\<close>), HMAC (\<open>hmac.ts\<close>) and the key derivation HKDF (\<open>hkdf.ts\<close>).

  What they call is a parameter, the record \<open>crypto\<close>: the platform's \<open>crypto.subtle\<close> and
  \<open>crypto.getRandomValues\<close>, the SIV implementation of the \<open>miscreant\<close> package and the two key messages of
  the protobuf package. \<open>'k\<close> is the type of its key objects, \<open>'w\<close> the world that randomness comes from.
  An argument that is typed as \<open>Uint8Array\<close> is one: \<open>requireUint8Array\<close> always passes.
\<close>

record ('k, 'w) crypto =
  getRandomValues :: "nat \<Rightarrow> 'w \<Rightarrow> 'w \<times> bytes"
  importAesKey :: "bytes \<Rightarrow> 'k result"
  importHmacKey :: "string \<Rightarrow> bytes \<Rightarrow> 'k result"
  subtle_encrypt :: "'k \<Rightarrow> bytes \<Rightarrow> bytes option \<Rightarrow> bytes \<Rightarrow> bytes result"
  subtle_decrypt :: "'k \<Rightarrow> bytes \<Rightarrow> bytes option \<Rightarrow> bytes \<Rightarrow> bytes result"
  subtle_sign :: "string \<Rightarrow> 'k \<Rightarrow> bytes \<Rightarrow> bytes result"
  siv_seal :: "bytes \<Rightarrow> bytes list \<Rightarrow> bytes \<Rightarrow> bytes result"
  siv_open :: "bytes \<Rightarrow> bytes list \<Rightarrow> bytes \<Rightarrow> bytes result"
  AesGcmKey_toBinary :: "bytes \<Rightarrow> bytes"
  AesGcmKey_fromBinary :: "bytes \<Rightarrow> bytes result"
  AesSivKey_toBinary :: "bytes \<Rightarrow> bytes"
  AesSivKey_fromBinary :: "bytes \<Rightarrow> bytes result"

section \<open>Byte arrays\<close>

text \<open>The loop of \<open>isEqual\<close> collects the differences; the number of steps depends on the length only.\<close>

fun differences :: "int \<Rightarrow> bytes \<Rightarrow> bytes \<Rightarrow> int" where
  "differences r (a # as) (b # bs) = differences (js_or r (js_xor (uint a) (uint b))) as bs"
| "differences r _ _ = r"

definition isEqual :: "bytes \<Rightarrow> bytes \<Rightarrow> bool" where
  "isEqual ba1 ba2 = (if length ba1 \<noteq> length ba2 then False else differences 0 ba1 ba2 = 0)"

text \<open>\<open>result.set(bytes, offset)\<close> of a typed array, for bytes that fit.\<close>

definition array_set :: "nat \<Rightarrow> bytes \<Rightarrow> bytes \<Rightarrow> bytes" where
  "array_set off bs result = take off result @ bs @ drop (off + length bs) result"

fun concatLoop :: "bytes list \<Rightarrow> nat \<Rightarrow> bytes \<Rightarrow> bytes" where
  "concatLoop [] curOffset result = result"
| "concatLoop (a # as) curOffset result = concatLoop as (curOffset + length a) (array_set curOffset a result)"

definition concat_arrays :: "bytes list \<Rightarrow> bytes" where
  "concat_arrays args = concatLoop args 0 (replicate (sum_list (map length args)) 0)"

text \<open>A loop of \<open>fromNumber\<close>: the lowest \<open>n\<close> bytes, the last one first.\<close>

fun lowBytes :: "nat \<Rightarrow> int \<Rightarrow> bytes" where
  "lowBytes 0 x = []"
| "lowBytes (Suc n) x = lowBytes n (js_ushr x 8) @ [word_of_int (js_and x 255)]"

text \<open>\<open>None\<close> is a number that is not finite. The operators on \<open>high\<close> truncate it first.\<close>

definition fromNumber :: "rat option \<Rightarrow> bytes result" where
  "fromNumber value =
     (case value of
        None \<Rightarrow> Inl (InvalidArgumentsException ''cannot convert non-integer value'')
      | Some v \<Rightarrow>
          if v \<noteq> of_int \<lfloor>v\<rfloor> then Inl (InvalidArgumentsException ''cannot convert non-integer value'')
          else if v < 0 then Inl (InvalidArgumentsException ''cannot convert negative number'')
          else if v > 9007199254740991
          then Inl (InvalidArgumentsException (''cannot convert number larger than '' @ int_str 9007199254740991))
          else Inr (lowBytes 4 (\<lfloor>v\<rfloor> div 2 ^ 32) @ lowBytes 4 (\<lfloor>v\<rfloor> mod 2 ^ 32)))"

definition js_space :: "nat \<Rightarrow> bool" where
  "js_space u \<longleftrightarrow>
     (9 \<le> u \<and> u \<le> 13) \<or> u = 32 \<or> u = 160 \<or> u = 0x1680 \<or> (0x2000 \<le> u \<and> u \<le> 0x200A) \<or>
     u = 0x2028 \<or> u = 0x2029 \<or> u = 0x202F \<or> u = 0x205F \<or> u = 0x3000 \<or> u = 0xFEFF"

definition hex_value :: "nat \<Rightarrow> nat option" where
  "hex_value u =
     (if 48 \<le> u \<and> u \<le> 57 then Some (u - 48)
      else if 97 \<le> u \<and> u \<le> 102 then Some (u - 87)
      else if 65 \<le> u \<and> u \<le> 70 then Some (u - 55)
      else None)"

text \<open>\<open>parseInt(s, 16)\<close>; \<open>None\<close> is \<open>NaN\<close>.\<close>

definition parseInt16 :: "ustring \<Rightarrow> int option" where
  "parseInt16 s =
     (let s1 = dropWhile js_space s;
          neg = (s1 \<noteq> [] \<and> hd s1 = 45);
          s2 = (if s1 \<noteq> [] \<and> (hd s1 = 45 \<or> hd s1 = 43) then tl s1 else s1);
          s3 = (case s2 of z # x # r \<Rightarrow> if z = 48 \<and> (x = 120 \<or> x = 88) then r else s2 | _ \<Rightarrow> s2);
          ds = List.map_filter hex_value (takeWhile (\<lambda>u. hex_value u \<noteq> None) s3)
      in if ds = [] then None
         else Some ((if neg then - 1 else 1) * foldl (\<lambda>v d. v * 16 + int d) 0 ds))"

text \<open>A \<open>NaN\<close> stored into a byte array is \<open>0\<close>, a number is reduced modulo 256.\<close>

definition stored_byte :: "int option \<Rightarrow> byte" where
  "stored_byte v = (case v of None \<Rightarrow> 0 | Some x \<Rightarrow> word_of_int x)"

fun hexLoop :: "ustring \<Rightarrow> bytes" where
  "hexLoop (a # b # r) = stored_byte (parseInt16 [a, b]) # hexLoop r"
| "hexLoop _ = []"

definition fromHex :: "ustring \<Rightarrow> bytes result" where
  "fromHex hex =
     (if length hex mod 2 \<noteq> 0 then Inl (InvalidArgumentsException ''Hex string length must be multiple of 2'')
      else Inr (hexLoop hex))"

fun hex_str :: "nat \<Rightarrow> ustring" where
  "hex_str n = (if n < 16 then [of_char (digit_char n)] else hex_str (n div 16) @ [of_char (digit_char (n mod 16))])"

declare hex_str.simps [simp del]

definition toHex :: "bytes \<Rightarrow> ustring" where
  "toHex bs = concat (map (\<lambda>b. let hexByte = hex_str (unat b) in if length hexByte > 1 then hexByte else 48 # hexByte) bs)"

definition fromByteString :: "ustring \<Rightarrow> bytes" where
  "fromByteString str = map (\<lambda>c. word_of_int (int c)) str"

definition toByteString :: "bytes \<Rightarrow> ustring" where
  "toByteString bs = map unat bs"

section \<open>Argument checks\<close>

definition SUPPORTED_AES_KEY_SIZES :: "nat list" where
  "SUPPORTED_AES_KEY_SIZES = [16, 32]"

definition validateAesKeySize :: "nat \<Rightarrow> unit result" where
  "validateAesKeySize n =
     res_guard (n \<in> set SUPPORTED_AES_KEY_SIZES) (InvalidArgumentsException (''unsupported AES key size: '' @ nat_str n))"

definition validateVersion :: "int \<Rightarrow> int \<Rightarrow> unit result" where
  "validateVersion candidate maxVersion =
     res_guard (\<not> (candidate < 0 \<or> candidate > maxVersion))
       (SecurityException (''Version is out of bound, must be between 0 and '' @ int_str maxVersion @ ''.''))"

definition validateEcdsaParams :: "string \<Rightarrow> string \<Rightarrow> unit result" where
  "validateEcdsaParams curve hash =
     (if curve = ''P-256'' then
        res_guard (hash = ''SHA-256'') (SecurityException (''expected SHA-256 (because curve is P-256) but got '' @ hash))
      else if curve = ''P-384'' then
        res_guard (hash = ''SHA-384'' \<or> hash = ''SHA-512'')
          (SecurityException (''expected SHA-384 or SHA-512 (because curve is P-384) but got '' @ hash))
      else if curve = ''P-521'' then
        res_guard (hash = ''SHA-512'') (SecurityException (''expected SHA-512 (because curve is P-521) but got '' @ hash))
      else Inl (SecurityException (''unsupported curve: '' @ curve)))"

definition randBytes :: "('k, 'w) crypto \<Rightarrow> int \<Rightarrow> ('w, bytes) meth" where
  "randBytes cr n w =
     (if n < 0 then (w, Inl (InvalidArgumentsException ''n must be a nonnegative integer''))
      else case getRandomValues cr (nat n) w of (w', r) \<Rightarrow> (w', Inr r))"

section \<open>Authenticated encryption\<close>

text \<open>\<open>String(error)\<close>: the name of the class, where it has one of its own, and the message.\<close>

fun err_name :: "js_error \<Rightarrow> string" where
  "err_name (VariantError m) = ''VariantError''"
| "err_name (AxiosError m) = ''AxiosError''"
| "err_name (SecurityException m) = ''SecurityException''"
| "err_name (InvalidArgumentsException m) = ''InvalidArgumentsException''"
| "err_name (RangeError m) = ''RangeError''"
| "err_name (TypeError m) = ''TypeError''"
| "err_name e = ''Error''"

definition err_string :: "js_error \<Rightarrow> string" where
  "err_string e = (if err_message e = [] then err_name e else err_name e @ '': '' @ err_message e)"

definition IV_SIZE_IN_BYTES :: nat where "IV_SIZE_IN_BYTES = 12"

definition TAG_SIZE_IN_BITS :: nat where "TAG_SIZE_IN_BITS = 128"

record ('k, 'w) aead =
  aead_encrypt :: "bytes \<Rightarrow> bytes option \<Rightarrow> ('w, bytes) meth"
  aead_decrypt :: "bytes \<Rightarrow> bytes option \<Rightarrow> ('w, bytes) meth"

definition AesGcm_encrypt :: "('k, 'w) crypto \<Rightarrow> 'k \<Rightarrow> bytes \<Rightarrow> bytes option \<Rightarrow> ('w, bytes) meth" where
  "AesGcm_encrypt cr key plaintext associatedData =
     m_bind (randBytes cr (int IV_SIZE_IN_BYTES)) (\<lambda>iv.
     m_bind (m_lift (subtle_encrypt cr key iv associatedData plaintext)) (\<lambda>ciphertext.
     m_return (concat_arrays [iv, ciphertext])))"

definition AesGcm_decrypt :: "('k, 'w) crypto \<Rightarrow> 'k \<Rightarrow> bytes \<Rightarrow> bytes option \<Rightarrow> ('w, bytes) meth" where
  "AesGcm_decrypt cr key ciphertext associatedData =
     (if length ciphertext < IV_SIZE_IN_BYTES + TAG_SIZE_IN_BITS div 8
      then m_throw (SecurityException ''ciphertext too short'')
      else let iv = array_set 0 (js_slice 0 IV_SIZE_IN_BYTES ciphertext) (replicate IV_SIZE_IN_BYTES 0)
           in case subtle_decrypt cr key iv associatedData (drop IV_SIZE_IN_BYTES ciphertext) of
                Inl e \<Rightarrow> m_throw (SecurityException (err_string e))
              | Inr p \<Rightarrow> m_return p)"

definition newAesGcm :: "('k, 'w) crypto \<Rightarrow> 'k \<Rightarrow> ('k, 'w) aead" where
  "newAesGcm cr key = \<lparr>aead_encrypt = AesGcm_encrypt cr key, aead_decrypt = AesGcm_decrypt cr key\<rparr>"

definition aesGcmFromRawKey :: "('k, 'w) crypto \<Rightarrow> bytes \<Rightarrow> ('k, 'w) aead result" where
  "aesGcmFromRawKey cr key =
     res_bind (validateAesKeySize (length key)) (\<lambda>_.
     res_bind (importAesKey cr key) (\<lambda>webCryptoKey. Inr (newAesGcm cr webCryptoKey)))"

definition siv_data :: "bytes option \<Rightarrow> bytes list" where
  "siv_data associatedData = (case associatedData of None \<Rightarrow> [] | Some a \<Rightarrow> [a])"

definition AesSiv_encrypt :: "('k, 'w) crypto \<Rightarrow> bytes \<Rightarrow> bytes \<Rightarrow> bytes option \<Rightarrow> ('w, bytes) meth" where
  "AesSiv_encrypt cr key plaintext associatedData = m_lift (siv_seal cr key (siv_data associatedData) plaintext)"

definition AesSiv_decrypt :: "('k, 'w) crypto \<Rightarrow> bytes \<Rightarrow> bytes \<Rightarrow> bytes option \<Rightarrow> ('w, bytes) meth" where
  "AesSiv_decrypt cr key ciphertext associatedData = m_lift (siv_open cr key (siv_data associatedData) ciphertext)"

definition aesSivFromRawKey :: "('k, 'w) crypto \<Rightarrow> bytes \<Rightarrow> ('k, 'w) aead result" where
  "aesSivFromRawKey cr key = Inr \<lparr>aead_encrypt = AesSiv_encrypt cr key, aead_decrypt = AesSiv_decrypt cr key\<rparr>"

section \<open>HMAC and HKDF\<close>

definition MIN_TAG_SIZE_IN_BYTES :: int where "MIN_TAG_SIZE_IN_BYTES = 10"

record 'k hmac =
  hm_hash :: string
  hm_key :: 'k
  hm_tagSize :: nat

definition computeMac :: "('k, 'w) crypto \<Rightarrow> 'k hmac \<Rightarrow> bytes \<Rightarrow> bytes result" where
  "computeMac cr h data =
     res_bind (subtle_sign cr (hm_hash h) (hm_key h) data) (\<lambda>tag. Inr (js_slice 0 (hm_tagSize h) tag))"

definition verifyMac :: "('k, 'w) crypto \<Rightarrow> 'k hmac \<Rightarrow> bytes \<Rightarrow> bytes \<Rightarrow> bool result" where
  "verifyMac cr h tag data = res_bind (computeMac cr h data) (\<lambda>computedTag. Inr (isEqual tag computedTag))"

definition too_long :: "nat \<Rightarrow> js_error" where
  "too_long n = InvalidArgumentsException (''tag too long, must not be larger than '' @ nat_str n @ '' bytes'')"

definition hmacFromRawKey :: "('k, 'w) crypto \<Rightarrow> string \<Rightarrow> bytes \<Rightarrow> int \<Rightarrow> 'k hmac result" where
  "hmacFromRawKey cr hash key tagSize =
     (if tagSize < MIN_TAG_SIZE_IN_BYTES
      then Inl (InvalidArgumentsException (''tag too short, must be at least '' @ int_str MIN_TAG_SIZE_IN_BYTES @ '' bytes''))
      else res_bind
        (if hash = ''SHA-1'' then res_guard (\<not> tagSize > 20) (too_long 20)
         else if hash = ''SHA-256'' then res_guard (\<not> tagSize > 32) (too_long 32)
         else if hash = ''SHA-512'' then res_guard (\<not> tagSize > 64) (too_long 64)
         else Inl (InvalidArgumentsException (hash @ '' is not supported'')))
        (\<lambda>_. res_bind (importHmacKey cr hash key) (\<lambda>cryptoKey.
           Inr \<lparr>hm_hash = hash, hm_key = cryptoKey, hm_tagSize = nat tagSize\<rparr>)))"

text \<open>The expansion loop; \<open>None\<close> if it never ends. The counter is stored as a byte.\<close>

partial_function (option) hkdfLoop ::
    "('k, 'w) crypto \<Rightarrow> 'k hmac \<Rightarrow> bytes \<Rightarrow> nat \<Rightarrow> nat \<Rightarrow> nat \<Rightarrow> bytes \<Rightarrow> bytes \<Rightarrow> bytes result option" where
  "hkdfLoop cr h info sz ctr off digest result =
     (case computeMac cr h (concat_arrays [digest, info, [of_nat ctr]]) of
        Inl e \<Rightarrow> Some (Inl e)
      | Inr d \<Rightarrow>
          if off + length d < sz
          then hkdfLoop cr h info sz (ctr + 1) (off + length d) d (array_set off d result)
          else Some (Inr (array_set off (js_slice 0 (sz - off) d) result)))"

definition digestSizeOf :: "string \<Rightarrow> nat option" where
  "digestSizeOf hash =
     (if hash = ''SHA-1'' then Some 20 else if hash = ''SHA-256'' then Some 32
      else if hash = ''SHA-512'' then Some 64 else None)"

definition hkdf_compute ::
    "('k, 'w) crypto \<Rightarrow> int \<Rightarrow> string \<Rightarrow> bytes \<Rightarrow> bytes \<Rightarrow> bytes option \<Rightarrow> bytes result option" where
  "hkdf_compute cr sz hash ikm info opt_salt =
     (if sz \<le> 0 then Some (Inl (InvalidArgumentsException ''size must be positive''))
      else case digestSizeOf hash of
             None \<Rightarrow> Some (Inl (InvalidArgumentsException (hash @ '' is not supported'')))
           | Some digestSize \<Rightarrow>
               if sz > 255 * int digestSize then Some (Inl (InvalidArgumentsException ''size too large''))
               else let salt = (case opt_salt of
                                  None \<Rightarrow> replicate digestSize 0
                                | Some s \<Rightarrow> if s = [] then replicate digestSize 0 else s)
                    in case res_bind (hmacFromRawKey cr hash salt (int digestSize)) (\<lambda>hmac.
                              res_bind (computeMac cr hmac ikm) (\<lambda>prk. hmacFromRawKey cr hash prk (int digestSize))) of
                         Inl e \<Rightarrow> Some (Inl e)
                       | Inr hmac \<Rightarrow> hkdfLoop cr hmac info (nat sz) 1 0 [] (replicate (nat sz) 0))"

end
