(* ===== verification/Tink_Facts.thy ===== *)
theory Tink_Facts
  imports Tink
begin

text \<open>
  What the primitives compute: \<open>isEqual\<close> is equality and \<open>concat\<close> is concatenation; hexadecimal and byte
  strings convert back; \<open>fromNumber\<close> is the 64-bit big-endian representation; \<open>Hkdf.compute\<close> ends and is the
  key derivation of RFC 5869.
\<close>

section \<open>Byte arrays\<close>

lemma to_int32_byte [simp]: "to_int32 (uint (b :: byte)) = uint b"
proof (rule to_int32_id)
  show "- (2 ^ 31) \<le> uint b"
    by (rule order_trans [of _ 0]) simp_all
  show "uint b < 2 ^ 31"
    by (rule order_less_trans [OF uint_byte_less]) simp
qed

lemma differences_eq_0_iff:
  "length as = length bs \<Longrightarrow> differences (uint (r :: byte)) as bs = 0 \<longleftrightarrow> r = 0 \<and> as = bs"
proof (induction as bs arbitrary: r rule: list_induct2)
  case Nil
  then show ?case by (simp add: uint_0_iff)
next
  case (Cons a as b bs)
  have "js_or (uint r) (js_xor (uint a) (uint b)) = uint (r OR (a XOR b))"
    by (simp add: js_or_def js_xor_def flip: uint_xor uint_or)
  moreover have "a XOR b = 0 \<longleftrightarrow> a = b"
    by (metis xor_self_eq xor.assoc xor.right_neutral)
  ultimately show ?case
    using Cons.IH by (simp add: or_eq_0_iff)
qed

lemma isEqual_iff: "isEqual ba1 ba2 \<longleftrightarrow> ba1 = ba2"
  using differences_eq_0_iff [of ba1 ba2 0] by (auto simp: isEqual_def)

lemma concatLoop_spec:
  "length front = off \<Longrightarrow> length rest = sum_list (map length args) \<Longrightarrow>
   concatLoop args off (front @ rest) = front @ concat args"
proof (induction args arbitrary: front off rest)
  case Nil
  then show ?case by simp
next
  case (Cons a args)
  then have "array_set off a (front @ rest) = (front @ a) @ drop (length a) rest"
    by (simp add: array_set_def)
  with Cons.IH [of "front @ a" "off + length a" "drop (length a) rest"] Cons.prems show ?case
    by simp
qed

lemma concat_arrays_eq [simp]: "concat_arrays args = concat args"
  using concatLoop_spec [of "[]" 0 "replicate (sum_list (map length args)) 0" args]
  by (simp add: concat_arrays_def)

section \<open>Numbers and text\<close>

lemma digit_char_code: "d < 16 \<Longrightarrow> of_char (digit_char d) = (if d < 10 then 48 + d else 87 + d)"
proof -
  assume "d < 16"
  then have "d \<in> set [0..<16]" by simp
  then show ?thesis
    by (simp add: digit_char_def upt_rec) (elim disjE; simp)
qed

lemma hex_value_digit: "d < 16 \<Longrightarrow> hex_value (of_char (digit_char d)) = Some d"
  by (auto simp: digit_char_code hex_value_def)

lemma parseInt16_two:
  assumes "a < 16" "b < 16"
  shows "parseInt16 [of_char (digit_char a), of_char (digit_char b)] = Some (int (a * 16 + b))"
proof -
  have plain: "\<not> js_space (of_char (digit_char d))" "of_char (digit_char d) \<notin> {43, 45, 88, 120 :: nat}" if "d < 16" for d
    using that by (auto simp: digit_char_code js_space_def)
  show ?thesis
    using assms plain [of a] plain [of b]
    by (simp add: parseInt16_def Let_def hex_value_digit map_filter_simps)
qed

lemma hex_pair:
  assumes "n < 256"
  shows "(let h = hex_str n in if length h > 1 then h else 48 # h) =
    [of_char (digit_char (n div 16)), of_char (digit_char (n mod 16))]"
proof -
  have "n div 16 < 16" using assms by (simp add: div_bound)
  then show ?thesis
    using assms by (auto simp: hex_str.simps [of n] hex_str.simps [of "n div 16"] digit_char_code)
qed

lemma toHex_Cons:
  "toHex (b # bs) = of_char (digit_char (unat b div 16)) # of_char (digit_char (unat b mod 16)) # toHex bs"
  using hex_pair [of "unat b"] by (simp add: toHex_def)

lemma hexLoop_toHex: "hexLoop (toHex bs) = bs"
proof (induction bs)
  case Nil
  then show ?case by (simp add: toHex_def)
next
  case (Cons b bs)
  then show ?case
    using parseInt16_two [of "unat b div 16" "unat b mod 16"] by (simp add: toHex_Cons stored_byte_def div_bound)
qed

lemma even_toHex: "length (toHex bs) mod 2 = 0"
  by (induction bs) (simp_all add: toHex_Cons toHex_def [of "[]"])

text \<open>The bytes of a number, the most significant first.\<close>

definition big_endian :: "nat \<Rightarrow> int \<Rightarrow> bytes" where
  "big_endian n x = map (\<lambda>i. word_of_int (x div 256 ^ (n - 1 - i))) [0..<n]"

lemma byte_mod_256: "word_of_int (x mod 256) = (word_of_int x :: byte)"
  by (rule byte_of_int_eqI) (simp add: uint_word_of_int take_bit_eq_mod)

lemma big_endian_Suc: "big_endian (Suc n) x = big_endian n (x div 256) @ [word_of_int x]"
proof -
  have "x div 256 div 256 ^ (n - Suc i) = x div 256 ^ (n - i)" if "i < n" for i
    using that by (simp add: zdiv_zmult2_eq [symmetric] power_Suc [symmetric] Suc_diff_Suc del: power_Suc)
  then show ?thesis by (simp add: big_endian_def)
qed

lemma lowBytes_eq: "0 \<le> x \<Longrightarrow> x < 2 ^ 32 \<Longrightarrow> lowBytes n x = big_endian n x"
proof (induction n arbitrary: x)
  case 0
  then show ?case by (simp add: big_endian_def)
next
  case (Suc n)
  have "js_ushr x 8 = x div 256"
    using Suc.prems by (simp add: js_ushr_nonneg)
  moreover have "x div 256 < 2 ^ 32" "0 \<le> x div 256"
    using Suc.prems zdiv_mono1 [of x "2 ^ 32 - 1" 256] by (simp_all add: pos_imp_zdiv_nonneg_iff)
  ultimately show ?case
    using Suc.IH [of "x div 256"] by (simp add: js_and_0xff big_endian_Suc byte_mod_256)
qed

lemma big_endian_append: "big_endian n (x div 256 ^ m) @ big_endian m (x mod 256 ^ m) = big_endian (n + m) x"
proof (induction m arbitrary: x)
  case 0
  then show ?case by (simp add: big_endian_def)
next
  case (Suc m)
  have "x mod 256 ^ Suc m div 256 = x div 256 mod 256 ^ m"
    by (simp add: zmod_zmult2_eq)
  moreover have "word_of_int (x mod 256 ^ Suc m) = (word_of_int x :: byte)"
    by (rule byte_of_int_eqI) (simp add: uint_word_of_int take_bit_eq_mod mod_mod_cancel)
  moreover have "x div 256 ^ Suc m = x div 256 div 256 ^ m"
    by (simp add: zdiv_zmult2_eq)
  ultimately show ?case
    using Suc.IH [of "x div 256"] by (simp add: big_endian_Suc del: power_Suc)
qed

lemma fromNumber_big_endian:
  assumes "0 \<le> x" and "x \<le> 2 ^ 53 - 1"
  shows "fromNumber (Some (of_int x)) = Inr (big_endian 8 x)"
proof -
  have "x div 2 ^ 32 < 2 ^ 32" "0 \<le> x div 2 ^ 32"
    using assms zdiv_mono1 [of x "2 ^ 53 - 1" "2 ^ 32"] by (simp_all add: pos_imp_zdiv_nonneg_iff)
  then have "lowBytes 4 (x div 2 ^ 32) @ lowBytes 4 (x mod 2 ^ 32) = big_endian 8 x"
    using big_endian_append [of 4 x 4] by (simp add: lowBytes_eq)
  moreover have "of_int x \<le> (of_int 9007199254740991 :: rat)"
    by (subst of_int_le_iff) (use assms(2) in simp)
  ultimately show ?thesis
    using assms(1) by (simp add: fromNumber_def not_less)
qed

section \<open>Key derivation\<close>

text \<open>
  RFC 5869, over a keyed hash function \<open>H\<close> with digests of \<open>ds\<close> bytes: the blocks of the expansion, and
  the output keying material of length \<open>L\<close>.
\<close>

fun rfc_T :: "(bytes \<Rightarrow> bytes) \<Rightarrow> bytes \<Rightarrow> nat \<Rightarrow> bytes" where
  "rfc_T H info 0 = []"
| "rfc_T H info (Suc i) = H (rfc_T H info i @ info @ [of_nat (Suc i)])"

definition rfc5869 :: "(bytes \<Rightarrow> bytes \<Rightarrow> bytes) \<Rightarrow> nat \<Rightarrow> nat \<Rightarrow> bytes \<Rightarrow> bytes \<Rightarrow> bytes \<Rightarrow> bytes" where
  "rfc5869 H ds L salt ikm info =
     (let prk = H salt ikm; N = (L + ds - 1) div ds
      in take L (concat (map (rfc_T (H prk) info) [1..<Suc N])))"

lemma length_blocks:
  "(\<And>d. length (H d) = ds) \<Longrightarrow> length (concat (map (rfc_T H info) [1..<Suc n])) = n * ds"
  by (induction n) simp_all

lemma hkdfLoop_expands:
  assumes mac: "\<And>d. computeMac cr h d = Inr (H d)" and ds: "\<And>d. length (H d) = ds" "0 < ds"
  shows "i * ds < sz \<Longrightarrow> length rest = sz - i * ds \<Longrightarrow>
    hkdfLoop cr h info sz (Suc i) (i * ds) (rfc_T H info i) (concat (map (rfc_T H info) [1..<Suc i]) @ rest) =
    Some (Inr (take sz (concat (map (rfc_T H info) [1..<Suc ((sz + ds - 1) div ds)]))))"
proof (induction "sz - i * ds" arbitrary: i rest rule: less_induct)
  case less
  let ?T = "rfc_T H info" and ?pre = "concat (map (rfc_T H info) [1..<Suc i])"
  have len: "length ?pre = i * ds" "length (?T (Suc i)) = ds"
    using length_blocks [OF ds(1)] ds(1) by simp_all
  have m: "computeMac cr h (concat_arrays [?T i, info, [of_nat (Suc i)]]) = Inr (?T (Suc i))"
    using mac by simp
  show ?case
  proof (cases "i * ds + ds < sz")
    case True
    have "array_set (i * ds) (?T (Suc i)) (?pre @ rest) = concat (map ?T [1..<Suc (Suc i)]) @ drop ds rest"
      using len by (simp add: array_set_def)
    moreover have "hkdfLoop cr h info sz (Suc (Suc i)) (Suc i * ds) (?T (Suc i)) (concat (map ?T [1..<Suc (Suc i)]) @ drop ds rest) =
      Some (Inr (take sz (concat (map ?T [1..<Suc ((sz + ds - 1) div ds)]))))"
      using True less.prems ds(2) by (intro less.hyps) simp_all
    ultimately show ?thesis
      using True m len(2) by (subst hkdfLoop.simps) (simp add: add.commute)
  next
    case False
    have "(sz + ds - 1) div ds = Suc i"
    proof (rule div_nat_eqI)
      show "ds * Suc i \<le> sz + ds - 1" using less.prems ds(2) by (simp add: mult.commute)
      show "sz + ds - 1 < ds * Suc (Suc i)" using False ds(2) by (simp add: mult.commute)
    qed
    moreover have "array_set (i * ds) (js_slice 0 (sz - i * ds) (?T (Suc i))) (?pre @ rest) = take sz (?pre @ ?T (Suc i))"
      using len False less.prems by (simp add: array_set_def js_slice_def)
    ultimately show ?thesis
      using False m len(2) by (subst hkdfLoop.simps) simp
  qed
qed

text \<open>Hashes of the platform, as far as key derivation relies on them: digests have the size of the hash.\<close>

definition hashes :: "('k, 'w) crypto \<Rightarrow> string \<Rightarrow> (bytes \<Rightarrow> bytes \<Rightarrow> bytes) \<Rightarrow> bool" where
  "hashes cr hash H \<longleftrightarrow>
     (\<forall>key. key \<noteq> [] \<longrightarrow> (\<exists>k. importHmacKey cr hash key = Inr k \<and> (\<forall>d. subtle_sign cr hash k d = Inr (H key d)))) \<and>
     (\<forall>key d. digestSizeOf hash = Some (length (H key d)))"

lemma hmacFromRawKey_hashes:
  assumes "hashes cr hash H" and "key \<noteq> []" and "digestSizeOf hash = Some ds"
  shows "\<exists>h. hmacFromRawKey cr hash key (int ds) = Inr h \<and> (\<forall>d. computeMac cr h d = Inr (H key d))"
proof -
  obtain k where k: "importHmacKey cr hash key = Inr k" "\<And>d. subtle_sign cr hash k d = Inr (H key d)"
    using assms(1,2) by (auto simp: hashes_def)
  have len: "length (H key d) = ds" for d
    using assms(1,3) by (simp add: hashes_def)
  have "hmacFromRawKey cr hash key (int ds) = Inr \<lparr>hm_hash = hash, hm_key = k, hm_tagSize = ds\<rparr>"
    using assms(3) k(1)
    by (auto simp: digestSizeOf_def hmacFromRawKey_def MIN_TAG_SIZE_IN_BYTES_def res_bind_guard split: if_splits)
  with k(2) len show ?thesis by (auto simp: computeMac_def js_slice_def)
qed

lemma digestSizeOf_bounds: "digestSizeOf hash = Some ds \<Longrightarrow> 20 \<le> ds \<and> ds \<le> 64"
  by (auto simp: digestSizeOf_def split: if_splits)

lemma hkdf_compute_eq:
  assumes hs: "hashes cr hash H" and ds: "digestSizeOf hash = Some ds"
    and sz: "0 < sz" "sz \<le> 255 * int ds" and salt: "salt = (if s = None \<or> s = Some [] then replicate ds 0 else the s)"
  shows "hkdf_compute cr sz hash ikm info s = Some (Inr (rfc5869 H ds (nat sz) salt ikm info))"
proof -
  have len: "length (H key d) = ds" for key d
    using hs ds by (simp add: hashes_def)
  have pos: "0 < ds" using digestSizeOf_bounds [OF ds] by simp
  have salt_eq: "(case s of None \<Rightarrow> replicate ds 0 | Some t \<Rightarrow> if t = [] then replicate ds 0 else t) = salt"
    using salt by (auto split: option.splits)
  have "salt \<noteq> []" using salt pos by (auto split: if_splits)
  then obtain h1 where h1: "hmacFromRawKey cr hash salt (int ds) = Inr h1" "computeMac cr h1 ikm = Inr (H salt ikm)"
    using hmacFromRawKey_hashes [OF hs _ ds] by blast
  have "H salt ikm \<noteq> []" using len [of salt ikm] pos by force
  then obtain h2 where h2: "hmacFromRawKey cr hash (H salt ikm) (int ds) = Inr h2"
      "\<And>d. computeMac cr h2 d = Inr (H (H salt ikm) d)"
    using hmacFromRawKey_hashes [OF hs _ ds] by blast
  have "hkdfLoop cr h2 info (nat sz) 1 0 [] (replicate (nat sz) 0) = Some (Inr (rfc5869 H ds (nat sz) salt ikm info))"
    using hkdfLoop_expands [OF h2(2) len pos, of 0 "nat sz" "replicate (nat sz) 0" info] sz(1)
    by (simp add: rfc5869_def Let_def)
  then show ?thesis
    using ds sz h1 h2(1) by (simp add: hkdf_compute_def salt_eq Let_def)
qed

text \<open>
  C21. \<open>Hkdf.compute\<close> always ends, with the output keying material of RFC 5869, for each of the three
  hashes and every size from 1 to 255 digests; an absent or empty salt counts as a digest of zeros.
\<close>

theorem hkdf_is_rfc5869:
  assumes "hashes cr hash H" and "digestSizeOf hash = Some ds" and "0 < sz" and "sz \<le> 255 * int ds"
  shows "hkdf_compute cr sz hash ikm info s =
    Some (Inr (rfc5869 H ds (nat sz) (if s = None \<or> s = Some [] then replicate ds 0 else the s) ikm info))"
  by (rule hkdf_compute_eq [OF assms refl])

text \<open>A platform to evaluate the definitions on: a checksum for hash, a visible mark for encryption.\<close>

definition toy_crypto :: "(bytes, nat) crypto" where
  "toy_crypto =
     \<lparr>getRandomValues = (\<lambda>n w. (w + 1, replicate n (of_nat w))),
      importAesKey = Inr, importHmacKey = (\<lambda>hash key. if key = [] then Inl (Error ''Zero-length key is not supported'') else Inr key),
      subtle_encrypt = (\<lambda>k iv a p. Inr (map (\<lambda>b. b XOR sum_list k) p @ replicate 16 (sum_list iv))),
      subtle_decrypt = (\<lambda>k iv a c.
        if drop (length c - 16) c = replicate 16 (sum_list iv) then Inr (map (\<lambda>b. b XOR sum_list k) (take (length c - 16) c))
        else Inl (Error ''The operation failed for an operation-specific reason'')),
      subtle_sign = (\<lambda>hash k d. Inr (replicate (case digestSizeOf hash of Some n \<Rightarrow> n | None \<Rightarrow> 0) (sum_list k + sum_list d))),
      siv_seal = (\<lambda>k a p. Inr (sum_list k # p)),
      siv_open = (\<lambda>k a c. if c \<noteq> [] \<and> hd c = sum_list k then Inr (tl c) else Inl (Error ''AES-SIV: ciphertext verification failure!'')),
      AesGcmKey_toBinary = (\<lambda>k. 0x1A # of_nat (length k) # k), AesGcmKey_fromBinary = (\<lambda>b. Inr (drop 2 b)),
      AesSivKey_toBinary = (\<lambda>k. 0x12 # of_nat (length k) # k), AesSivKey_fromBinary = (\<lambda>b. Inr (drop 2 b))\<rparr>"

definition toy_digest :: "nat \<Rightarrow> bytes \<Rightarrow> bytes \<Rightarrow> bytes" where
  "toy_digest n k d = replicate n (sum_list k + sum_list d)"

lemma toy_hashes: "digestSizeOf hash = Some n \<Longrightarrow> hashes toy_crypto hash (toy_digest n)"
  by (simp add: hashes_def toy_crypto_def toy_digest_def)

theorem hkdf_is_rfc5869_witness:
  "hkdf_compute toy_crypto 40 ''SHA-256'' [1, 2, 3] [4] None =
     Some (Inr (rfc5869 (toy_digest 32) 32 40 (replicate 32 0) [1, 2, 3] [4]))"
  using hkdf_is_rfc5869 [of toy_crypto "''SHA-256''" "toy_digest 32" 32 40 "[1, 2, 3]" "[4]" None] toy_hashes [of "''SHA-256''" 32]
  by (simp add: digestSizeOf_def)

text \<open>Hexadecimal text and byte strings read as the bytes they were made from.\<close>

lemma bytes_convert_back:
  "fromHex (toHex bs) = Inr bs" "fromByteString (toByteString bs) = bs"
  by (simp_all add: fromHex_def even_toHex hexLoop_toHex fromByteString_def toByteString_def comp_def)

text \<open>A tag is accepted exactly if it is the one computed for the data.\<close>

lemma verifyMac_iff: "verifyMac cr h tag data = Inr True \<longleftrightarrow> computeMac cr h data = Inr tag"
  by (auto simp: verifyMac_def res_bind_Inr_iff isEqual_iff)

end
