(* ===== verification/Kms.thy ===== *)
theory Kms
  imports Tink_Facts
begin

text \<open>
  Class \<open>Cryptor\<close> of \<open>encrypt-executor.ts\<close>, the registry of key management services
  (\<open>kms-registry.ts\<close>) and the drivers and clients for a local secret, AWS, Azure and GCP.

  Drivers and clients are records of their operations. What their SDKs and the environment variables
  answer are parameters; \<open>'w\<close> is the world they read and change. An argument that may be \<open>null\<close> at run
  time (the encrypted key of a dek that has none) is an \<open>option\<close>.
\<close>

section \<open>Encryption with a data encryption key\<close>

datatype dek_format = AES128_GCM | AES256_GCM | AES256_SIV

text \<open>\<open>None\<close> is \<open>undefined\<close>: \<open>DekFormat[name]\<close> for a name that is no format.\<close>

definition DekFormat :: "string \<Rightarrow> dek_format option" where
  "DekFormat name =
     (if name = ''AES128_GCM'' then Some AES128_GCM else if name = ''AES256_GCM'' then Some AES256_GCM
      else if name = ''AES256_SIV'' then Some AES256_SIV else None)"

fun dek_format_str :: "dek_format \<Rightarrow> string" where
  "dek_format_str AES128_GCM = ''AES128_GCM''"
| "dek_format_str AES256_GCM = ''AES256_GCM''"
| "dek_format_str AES256_SIV = ''AES256_SIV''"

definition unsupportedFormat :: js_error where
  "unsupportedFormat = RuleError ''unsupported dek format''"

fun keySize :: "dek_format option \<Rightarrow> int result" where
  "keySize (Some AES256_SIV) = Inr 64"
| "keySize (Some AES128_GCM) = Inr 16"
| "keySize (Some AES256_GCM) = Inr 32"
| "keySize None = Inl unsupportedFormat"

definition generateKey :: "('k, 'w) crypto \<Rightarrow> dek_format option \<Rightarrow> ('w, bytes) meth" where
  "generateKey cr fmt =
     m_bind (m_lift (keySize fmt)) (\<lambda>n.
     m_bind (randBytes cr n) (\<lambda>rawKey.
       case fmt of
         Some AES256_SIV \<Rightarrow> m_return (AesSivKey_toBinary cr rawKey)
       | Some AES128_GCM \<Rightarrow> m_return (AesGcmKey_toBinary cr rawKey)
       | Some AES256_GCM \<Rightarrow> m_return (AesGcmKey_toBinary cr rawKey)
       | None \<Rightarrow> m_throw unsupportedFormat))"

text \<open>The key of a serialised key message; a message that is \<open>null\<close> cannot be read.\<close>

definition no_key :: js_error where
  "no_key = TypeError ''null is not a Uint8Array''"

definition dekAead :: "('k, 'w) crypto \<Rightarrow> dek_format option \<Rightarrow> bytes option \<Rightarrow> ('k, 'w) aead result" where
  "dekAead cr fmt dek =
     (case fmt of
        None \<Rightarrow> Inl unsupportedFormat
      | Some f \<Rightarrow>
          (case dek of
             None \<Rightarrow> Inl no_key
           | Some d \<Rightarrow> if f = AES256_SIV then res_bind (AesSivKey_fromBinary cr d) (aesSivFromRawKey cr)
                       else res_bind (AesGcmKey_fromBinary cr d) (aesGcmFromRawKey cr)))"

definition cryptor_encrypt ::
    "('k, 'w) crypto \<Rightarrow> dek_format option \<Rightarrow> bytes option \<Rightarrow> bytes \<Rightarrow> ('w, bytes) meth" where
  "cryptor_encrypt cr fmt dek plaintext =
     m_bind (m_lift (dekAead cr fmt dek)) (\<lambda>aead. aead_encrypt aead plaintext (Some []))"

definition cryptor_decrypt ::
    "('k, 'w) crypto \<Rightarrow> dek_format option \<Rightarrow> bytes option \<Rightarrow> bytes \<Rightarrow> ('w, bytes) meth" where
  "cryptor_decrypt cr fmt dek ciphertext =
     m_bind (m_lift (dekAead cr fmt dek)) (\<lambda>aead. aead_decrypt aead ciphertext (Some []))"

section \<open>The registry of key management services\<close>

record 'w kms_client =
  kc_supported :: "string \<Rightarrow> bool"
  kc_encrypt :: "bytes \<Rightarrow> ('w, bytes) meth"
  kc_decrypt :: "bytes option \<Rightarrow> ('w, bytes) meth"

record 'w kms_driver =
  kd_getKeyUrlPrefix :: string
  kd_newKmsClient :: "(string, string) jsmap \<Rightarrow> string \<Rightarrow> 'w kms_client result"

record 'w kms_registry =
  kmsDrivers :: "'w kms_driver list"
  kmsClients :: "'w kms_client list"

definition startsWith :: "string \<Rightarrow> string \<Rightarrow> bool" where
  "startsWith s p \<longleftrightarrow> take (length p) s = p"

definition registerKmsDriver :: "'w kms_driver \<Rightarrow> 'w kms_registry \<Rightarrow> 'w kms_registry" where
  "registerKmsDriver d reg = reg\<lparr>kmsDrivers := kmsDrivers reg @ [d]\<rparr>"

definition getKmsDriver :: "string \<Rightarrow> 'w kms_registry \<Rightarrow> 'w kms_driver result" where
  "getKmsDriver keyUrl reg =
     (case find (\<lambda>d. startsWith keyUrl (kd_getKeyUrlPrefix d)) (kmsDrivers reg) of
        Some d \<Rightarrow> Inr d
      | None \<Rightarrow> Inl (SecurityException (''no KMS driver found for key URL: '' @ keyUrl)))"

definition registerKmsClient :: "'w kms_client \<Rightarrow> 'w kms_registry \<Rightarrow> 'w kms_registry" where
  "registerKmsClient c reg = reg\<lparr>kmsClients := kmsClients reg @ [c]\<rparr>"

definition findKmsClient :: "string \<Rightarrow> 'w kms_registry \<Rightarrow> 'w kms_client option" where
  "findKmsClient keyUrl reg = find (\<lambda>c. kc_supported c keyUrl) (kmsClients reg)"

definition clearKmsClients :: "'w kms_registry \<Rightarrow> 'w kms_registry" where
  "clearKmsClients reg = reg\<lparr>kmsClients := []\<rparr>"

text \<open>The function \<open>getKmsClient\<close> of \<open>encrypt-executor.ts\<close>, on the registry.\<close>

definition getKmsClient :: "(string, string) jsmap \<Rightarrow> string \<Rightarrow> string \<Rightarrow> ('w kms_registry, 'w kms_client) meth" where
  "getKmsClient config ktype keyId reg =
     (let keyUrl = ktype @ ''://'' @ keyId
      in case findKmsClient keyUrl reg of
           Some c \<Rightarrow> (reg, Inr c)
         | None \<Rightarrow>
             (case res_bind (getKmsDriver keyUrl reg) (\<lambda>d. kd_newKmsClient d config keyUrl) of
                Inl e \<Rightarrow> (reg, Inl e)
              | Inr c \<Rightarrow> (registerKmsClient c reg, Inr c)))"

section \<open>A local secret\<close>

definition LocalKms_PREFIX :: string where "LocalKms_PREFIX = ''local-kms://''"

definition LocalKms_getKey :: "('k, 'w) crypto \<Rightarrow> string \<Rightarrow> bytes result option" where
  "LocalKms_getKey cr secret =
     map_option (\<lambda>rawKey. res_bind rawKey (\<lambda>k. Inr (AesGcmKey_toBinary cr k)))
       (hkdf_compute cr 16 ''SHA-256'' (textEncode (ascii secret)) [] None)"

text \<open>
  The derivation ends for every hash function (\<open>hkdf_compute_eq\<close>); the case that it does not has no
  value in a client's operations and is an error there. \<open>new Uint8Array(null)\<close> is empty.
\<close>

definition localKey :: "('k, 'w) crypto \<Rightarrow> string \<Rightarrow> bytes result" where
  "localKey cr secret = (case LocalKms_getKey cr secret of None \<Rightarrow> Inl (Error ''does not return'') | Some r \<Rightarrow> r)"

definition newLocalKmsClient :: "('k, 'w) crypto \<Rightarrow> string \<Rightarrow> 'w kms_client" where
  "newLocalKmsClient cr secret =
     \<lparr>kc_supported = (\<lambda>keyUri. startsWith keyUri LocalKms_PREFIX),
      kc_encrypt = (\<lambda>plaintext. m_bind (m_lift (localKey cr secret)) (\<lambda>k. cryptor_encrypt cr (Some AES128_GCM) (Some k) plaintext)),
      kc_decrypt = (\<lambda>ciphertext. m_bind (m_lift (localKey cr secret)) (\<lambda>k.
        cryptor_decrypt cr (Some AES128_GCM) (Some k) (case ciphertext of None \<Rightarrow> [] | Some c \<Rightarrow> c)))\<rparr>"

definition LocalKmsDriver :: "('k, 'w) crypto \<Rightarrow> (string \<Rightarrow> string option) \<Rightarrow> 'w kms_driver" where
  "LocalKmsDriver cr getenv =
     \<lparr>kd_getKeyUrlPrefix = LocalKms_PREFIX,
      kd_newKmsClient = (\<lambda>config keyUrl.
        let secret = (case jm_get config ''secret'' of Some s \<Rightarrow> Some s | None \<Rightarrow> getenv ''LOCAL_SECRET'')
        in case secret of
             None \<Rightarrow> Inl (Error ''cannot load secret'')
           | Some s \<Rightarrow> Inr (newLocalKmsClient cr s))\<rparr>"

section \<open>AWS and GCP\<close>

datatype aws_credentials =
    Aws_key string string
  | Aws_profile string
  | Aws_role "aws_credentials option" string string "string option" string

record 'w aws_sdk =
  aws_encrypt :: "string \<Rightarrow> aws_credentials option \<Rightarrow> string \<Rightarrow> bytes \<Rightarrow> ('w, bytes) meth"
  aws_decrypt :: "string \<Rightarrow> aws_credentials option \<Rightarrow> string \<Rightarrow> bytes option \<Rightarrow> ('w, bytes) meth"

definition Aws_PREFIX :: string where "Aws_PREFIX = ''aws-kms://''"

definition aws_region :: "string \<Rightarrow> string result" where
  "aws_region keyId =
     (let tokens = split_on (CHR '':'') keyId
      in if length tokens < 4 then Inl (Error (''invalid key uri '' @ keyId)) else Inr (tokens ! 3))"

definition newAwsKmsClient :: "'w aws_sdk \<Rightarrow> string \<Rightarrow> aws_credentials option \<Rightarrow> 'w kms_client result" where
  "newAwsKmsClient sdk keyUri creds =
     (if \<not> startsWith keyUri Aws_PREFIX then Inl (Error (''key uri must start with '' @ Aws_PREFIX))
      else let keyId = drop (length Aws_PREFIX) keyUri
           in res_bind (aws_region keyId) (\<lambda>region.
                Inr \<lparr>kc_supported = (\<lambda>u. keyUri = u),
                     kc_encrypt = aws_encrypt sdk region creds keyId,
                     kc_decrypt = aws_decrypt sdk region creds keyId\<rparr>))"

definition config_or_env :: "(string \<Rightarrow> string option) \<Rightarrow> (string, string) jsmap \<Rightarrow> string \<Rightarrow> string \<Rightarrow> string option" where
  "config_or_env getenv config key var = (case jm_get config key of Some v \<Rightarrow> Some v | None \<Rightarrow> getenv var)"

definition AwsKmsDriver :: "'w aws_sdk \<Rightarrow> (string \<Rightarrow> string option) \<Rightarrow> 'w kms_driver" where
  "AwsKmsDriver sdk getenv =
     \<lparr>kd_getKeyUrlPrefix = Aws_PREFIX,
      kd_newKmsClient = (\<lambda>config keyUrl.
        let key = jm_get config ''access.key.id'';
            secret = jm_get config ''secret.access.key'';
            profile = jm_get config ''profile'';
            roleArn = config_or_env getenv config ''role.arn'' ''AWS_ROLE_ARN'';
            roleSessionName = config_or_env getenv config ''role.session.name'' ''AWS_ROLE_SESSION_NAME'';
            roleExternalId = config_or_env getenv config ''role.external.id'' ''AWS_ROLE_EXTERNAL_ID'';
            roleWebIdentityTokenFile = getenv ''AWS_WEB_IDENTITY_TOKEN_FILE'';
            creds = (case (key, secret) of
                       (Some k, Some s) \<Rightarrow> Some (Aws_key k s)
                     | _ \<Rightarrow> map_option Aws_profile profile)
        in case (roleArn, roleWebIdentityTokenFile) of
             (Some role, None) \<Rightarrow>
               res_bind (aws_region (drop (length Aws_PREFIX) keyUrl)) (\<lambda>region.
                 newAwsKmsClient sdk keyUrl
                   (Some (Aws_role creds role (case roleSessionName of Some n \<Rightarrow> n | None \<Rightarrow> ''confluent-encrypt'')
                            (if roleExternalId = Some [] then None else roleExternalId) region)))
           | _ \<Rightarrow> newAwsKmsClient sdk keyUrl creds)\<rparr>"

record gcp_credentials =
  gc_type :: "string option"
  gc_private_key_id :: string
  gc_private_key :: string
  gc_client_email :: string
  gc_client_id :: string

record 'w gcp_sdk =
  gcp_encrypt :: "gcp_credentials option \<Rightarrow> string \<Rightarrow> bytes \<Rightarrow> ('w, bytes) meth"
  gcp_decrypt :: "gcp_credentials option \<Rightarrow> string \<Rightarrow> bytes option \<Rightarrow> ('w, bytes) meth"

definition Gcp_PREFIX :: string where "Gcp_PREFIX = ''gcp-kms://''"

definition newGcpKmsClient :: "'w gcp_sdk \<Rightarrow> string \<Rightarrow> gcp_credentials option \<Rightarrow> 'w kms_client result" where
  "newGcpKmsClient sdk keyUri creds =
     (if \<not> startsWith keyUri Gcp_PREFIX then Inl (Error (''key uri must start with '' @ Gcp_PREFIX))
      else let keyId = drop (length Gcp_PREFIX) keyUri
           in Inr \<lparr>kc_supported = (\<lambda>u. keyUri = u), kc_encrypt = gcp_encrypt sdk creds keyId,
                   kc_decrypt = gcp_decrypt sdk creds keyId\<rparr>)"

definition GcpKmsDriver :: "'w gcp_sdk \<Rightarrow> 'w kms_driver" where
  "GcpKmsDriver sdk =
     \<lparr>kd_getKeyUrlPrefix = Gcp_PREFIX,
      kd_newKmsClient = (\<lambda>config keyUrl.
        newGcpKmsClient sdk keyUrl
          (case (jm_get config ''client.id'', jm_get config ''client.email'', jm_get config ''private.key.id'',
                 jm_get config ''private.key'') of
             (Some clientId, Some clientEmail, Some privateKeyId, Some privateKey) \<Rightarrow>
               Some \<lparr>gc_type = (case jm_get config ''account.type'' of
                                 None \<Rightarrow> Some ''service_account''
                               | Some t \<Rightarrow> if t = [] then None else Some t),
                     gc_private_key_id = privateKeyId, gc_private_key = privateKey,
                     gc_client_email = clientEmail, gc_client_id = clientId\<rparr>
           | _ \<Rightarrow> None))\<rparr>"

section \<open>Azure\<close>

text \<open>
  The Azure SDK: encryption and decryption with the key of an identifier, and the identifier of the
  latest version of a key of a vault (\<open>None\<close> if the answer has none). \<open>parseURL\<close> gives the protocol, the
  host and the path of a URL.
\<close>

datatype azure_credentials = Client_secret string string string | Default_azure

record 'w azure_sdk =
  az_encrypt :: "string \<Rightarrow> azure_credentials \<Rightarrow> bytes \<Rightarrow> ('w, bytes) meth"
  az_decrypt :: "string \<Rightarrow> azure_credentials \<Rightarrow> bytes \<Rightarrow> ('w, bytes) meth"
  az_getKey :: "string \<Rightarrow> azure_credentials \<Rightarrow> string \<Rightarrow> ('w, string option) meth"
  az_parseURL :: "string \<Rightarrow> (string \<times> string \<times> string) option"

record azure_key_id =
  ak_vaultUrl :: string
  ak_name :: string
  ak_version :: "string option"

definition Azure_PREFIX :: string where "Azure_PREFIX = ''azure-kms://''"

definition azure_parse :: "'w azure_sdk \<Rightarrow> string \<Rightarrow> azure_key_id result" where
  "azure_parse sdk keyId =
     (case az_parseURL sdk keyId of
        None \<Rightarrow> Inl (SecurityException (''Invalid Azure Key Vault key id: '' @ keyId))
      | Some (protocol, host, pathname) \<Rightarrow>
          let segments = filter (\<lambda>s. s \<noteq> []) (split_on (CHR ''/'') pathname)
          in if length segments < 2 \<or> length segments > 3 \<or> segments ! 0 \<noteq> ''keys''
             then Inl (SecurityException (''Invalid Azure Key Vault key id: '' @ keyId))
             else Inr \<lparr>ak_vaultUrl = protocol @ ''//'' @ host, ak_name = segments ! 1,
                       ak_version = if length segments = 3 then Some (segments ! 2) else None\<rparr>)"

definition azure_getCredentials :: "(string, string) jsmap \<Rightarrow> azure_credentials" where
  "azure_getCredentials config =
     (case (jm_get config ''tenant.id'', jm_get config ''client.id'', jm_get config ''client.secret'') of
        (Some t, Some c, Some s) \<Rightarrow> Client_secret t c s
      | _ \<Rightarrow> Default_azure)"

definition isVersionless :: "'w azure_sdk \<Rightarrow> string \<Rightarrow> bool result" where
  "isVersionless sdk keyId = res_bind (azure_parse sdk keyId) (\<lambda>p. Inr (ak_version p = None))"

definition withVersion :: "'w azure_sdk \<Rightarrow> string \<Rightarrow> string \<Rightarrow> string result" where
  "withVersion sdk keyId version =
     res_bind (azure_parse sdk keyId) (\<lambda>p. Inr (ak_vaultUrl p @ ''/keys/'' @ ak_name p @ ''/'' @ version))"

definition unresolved :: "azure_key_id \<Rightarrow> string \<Rightarrow> js_error" where
  "unresolved p details = SecurityException (''Failed to resolve Azure Key Vault key id for key name '' @ quoted (ak_name p) @
     '' in vault '' @ ak_vaultUrl p @ details)"

definition getVersionedKeyId :: "'w azure_sdk \<Rightarrow> (string, string) jsmap \<Rightarrow> string \<Rightarrow> ('w, string) meth" where
  "getVersionedKeyId sdk config keyId =
     m_bind (m_lift (azure_parse sdk keyId)) (\<lambda>parsed.
       if ak_version parsed \<noteq> None then m_return keyId
       else m_bind (m_catch (az_getKey sdk (ak_vaultUrl parsed) (azure_getCredentials config) (ak_name parsed))
                      (\<lambda>e. m_throw (unresolved parsed ('': '' @ err_message e)))) (\<lambda>key.
            case key of
              None \<Rightarrow> m_throw (unresolved parsed [])
            | Some resolvedId \<Rightarrow>
                m_bind (m_lift (azure_parse sdk resolvedId)) (\<lambda>p.
                  if ak_version p = None
                  then m_throw (SecurityException (''Resolved Azure Key Vault key id is missing a version segment: '' @ resolvedId))
                  else m_return resolvedId)))"

definition azure_mark :: bytes where
  "azure_mark = textEncode (ascii ''azure:v1:'')"

definition VERSION_LENGTH :: nat where "VERSION_LENGTH = 32"

definition HEADER_LENGTH :: nat where "HEADER_LENGTH = length azure_mark + VERSION_LENGTH + 1"

definition isValidVersion :: "string \<Rightarrow> bool" where
  "isValidVersion value \<longleftrightarrow> length value = VERSION_LENGTH \<and> (\<forall>c \<in> set value. hex_value (of_char c) \<noteq> None)"

text \<open>\<open>toString('ascii')\<close> drops the highest bit of every byte; \<open>Buffer.from(s, 'ascii')\<close> keeps the low byte of every unit.\<close>

definition ascii_text :: "bytes \<Rightarrow> string" where
  "ascii_text bs = map (\<lambda>b. char_of (unat b mod 128)) bs"

definition ascii_bytes :: "string \<Rightarrow> bytes" where
  "ascii_bytes s = map (\<lambda>c. of_nat (of_char c)) s"

definition azure_extractVersion :: "bytes \<Rightarrow> string option" where
  "azure_extractVersion ciphertext =
     (if length ciphertext < HEADER_LENGTH \<or> js_slice 0 (length azure_mark) ciphertext \<noteq> azure_mark \<or>
         ciphertext ! (HEADER_LENGTH - 1) \<noteq> 0x3A
      then None
      else Some (ascii_text (js_slice (length azure_mark) (length azure_mark + VERSION_LENGTH) ciphertext)))"

definition saveVersion :: "(string, string) jsmap \<Rightarrow> bool" where
  "saveVersion config =
     (case jm_get config ''encrypt.azure.key.version.save'' of
        None \<Rightarrow> False
      | Some v \<Rightarrow> map lower_char v = ''true'')"

definition after_last_slash :: "string \<Rightarrow> string" where
  "after_last_slash s = rev (takeWhile (\<lambda>c. c \<noteq> CHR ''/'') (rev s))"

definition azureKms_encrypt ::
    "'w azure_sdk \<Rightarrow> (string, string) jsmap \<Rightarrow> azure_credentials \<Rightarrow> string \<Rightarrow> bytes \<Rightarrow> ('w, bytes) meth" where
  "azureKms_encrypt sdk config creds keyId plaintext =
     (if \<not> saveVersion config then az_encrypt sdk keyId creds plaintext
      else m_bind (getVersionedKeyId sdk config keyId) (\<lambda>resolvedKeyUri.
        let version = after_last_slash resolvedKeyUri
        in if \<not> isValidVersion version
           then m_throw (SecurityException (''kms key version '' @ quoted version @ '' must be a '' @ nat_str VERSION_LENGTH @
                  ''-character hex string; cannot be embedded in a fixed-width azure:v1: prefix''))
           else m_bind (m_lift (withVersion sdk keyId version)) (\<lambda>versioned.
                m_bind (az_encrypt sdk versioned creds plaintext) (\<lambda>result.
                m_return (concat [azure_mark, ascii_bytes version, [0x3A], result])))))"

definition azureKms_decrypt ::
    "'w azure_sdk \<Rightarrow> azure_credentials \<Rightarrow> string \<Rightarrow> bytes option \<Rightarrow> ('w, bytes) meth" where
  "azureKms_decrypt sdk creds keyId ciphertext =
     (case ciphertext of
        None \<Rightarrow> m_throw (TypeError ''Cannot read properties of null'')
      | Some c \<Rightarrow>
          (case azure_extractVersion c of
             None \<Rightarrow> az_decrypt sdk keyId creds c
           | Some version \<Rightarrow>
               if \<not> isValidVersion version
               then m_throw (SecurityException (''ciphertext carries an invalid azure:v1: key version: '' @ quoted version))
               else m_bind (m_lift (withVersion sdk keyId version)) (\<lambda>versioned.
                    az_decrypt sdk versioned creds (drop HEADER_LENGTH c))))"

definition newAzureKmsClient ::
    "'w azure_sdk \<Rightarrow> string \<Rightarrow> azure_credentials \<Rightarrow> (string, string) jsmap \<Rightarrow> 'w kms_client result" where
  "newAzureKmsClient sdk keyUri creds config =
     (if \<not> startsWith keyUri Azure_PREFIX then Inl (Error (''key uri must start with '' @ Azure_PREFIX))
      else let keyId = drop (length Azure_PREFIX) keyUri
           in Inr \<lparr>kc_supported = (\<lambda>u. keyUri = u), kc_encrypt = azureKms_encrypt sdk config creds keyId,
                   kc_decrypt = azureKms_decrypt sdk creds keyId\<rparr>)"

definition AzureKmsDriver :: "'w azure_sdk \<Rightarrow> 'w kms_driver" where
  "AzureKmsDriver sdk =
     \<lparr>kd_getKeyUrlPrefix = Azure_PREFIX,
      kd_newKmsClient = (\<lambda>config keyUrl. newAzureKmsClient sdk keyUrl (azure_getCredentials config) config)\<rparr>"

end
