(* ===== verification/Kms_Facts.thy ===== *)
theory Kms_Facts
  imports Kms
begin

text \<open>
  What was encrypted is decrypted again: by a \<open>Cryptor\<close> with the same key, by the local service with the
  same secret, and by the Azure client with the key version that is saved in the ciphertext, whatever
  version of the key is the latest by then. Clients are created once per key URL.
\<close>

section \<open>Authenticated encryption\<close>

text \<open>
  What is relied on of the platform: random values have the length asked for, a GCM ciphertext is 16
  bytes longer than the plaintext, and decryption undoes encryption.
\<close>

definition crypto_ok :: "('k, 'w) crypto \<Rightarrow> bool" where
  "crypto_ok cr \<longleftrightarrow>
     (\<forall>n w. length (snd (getRandomValues cr n w)) = n) \<and>
     (\<forall>k iv a p c. subtle_encrypt cr k iv a p = Inr c \<longrightarrow> length c = length p + 16 \<and> subtle_decrypt cr k iv a c = Inr p) \<and>
     (\<forall>k a p c. siv_seal cr k a p = Inr c \<longrightarrow> siv_open cr k a c = Inr p)"

lemma toy_crypto_ok: "crypto_ok toy_crypto"
  by (auto simp: crypto_ok_def toy_crypto_def comp_def xor.assoc)

lemma AesGcm_decrypt_encrypt:
  assumes ok: "crypto_ok cr" and enc: "AesGcm_encrypt cr k p a w = (w', Inr c)"
  shows "AesGcm_decrypt cr k c a w2 = (w2, Inr p)"
proof -
  obtain iv x where iv: "getRandomValues cr 12 w = (w', iv)" and x: "subtle_encrypt cr k iv a p = Inr x" and c: "c = iv @ x"
    using enc by (auto simp: AesGcm_encrypt_def randBytes_def IV_SIZE_IN_BYTES_def m_bind_eq_Inr_iff split: prod.splits)
  have "length iv = 12" "length x = length p + 16" "subtle_decrypt cr k iv a x = Inr p"
    using ok iv x by (auto simp: crypto_ok_def dest: spec [where x = 12] split: prod.splits) (metis snd_conv)
  then show ?thesis
    by (simp add: AesGcm_decrypt_def c IV_SIZE_IN_BYTES_def TAG_SIZE_IN_BITS_def array_set_def js_slice_def)
qed

lemma cryptor_decrypt_encrypt:
  assumes ok: "crypto_ok cr" and enc: "cryptor_encrypt cr fmt dek p w = (w', Inr c)"
  shows "cryptor_decrypt cr fmt dek c w2 = (w2, Inr p)"
proof -
  obtain ae where ae: "dekAead cr fmt dek = Inr ae" "aead_encrypt ae p (Some []) w = (w', Inr c)"
    using enc by (auto simp: cryptor_encrypt_def m_bind_eq_Inr_iff)
  then have "(\<exists>k. ae = newAesGcm cr k) \<or> (\<exists>k. aesSivFromRawKey cr k = Inr ae)"
    by (auto simp: dekAead_def aesGcmFromRawKey_def res_bind_Inr_iff split: option.splits if_splits)
  then have "aead_decrypt ae c (Some []) w2 = (w2, Inr p)"
  proof (elim disjE exE)
    fix k assume "ae = newAesGcm cr k"
    with ae(2) show ?thesis using AesGcm_decrypt_encrypt [OF ok] by (simp add: newAesGcm_def)
  next
    fix k assume "aesSivFromRawKey cr k = Inr ae"
    with ae(2) ok show ?thesis
      by (auto simp: aesSivFromRawKey_def AesSiv_encrypt_def AesSiv_decrypt_def crypto_ok_def)
  qed
  with ae(1) show ?thesis by (simp add: cryptor_decrypt_def m_bind_Inr)
qed

lemma short_is_refused: "length c < 28 \<Longrightarrow> \<exists>e. AesGcm_decrypt cr k c a w = (w, Inl e)"
  by (simp add: AesGcm_decrypt_def IV_SIZE_IN_BYTES_def TAG_SIZE_IN_BITS_def)

section \<open>The local service\<close>

lemma local_decrypt_encrypt:
  assumes "crypto_ok cr" and "kc_encrypt (newLocalKmsClient cr secret) p w = (w', Inr c)"
  shows "kc_decrypt (newLocalKmsClient cr secret) (Some c) w2 = (w2, Inr p)"
  using assms(2) cryptor_decrypt_encrypt [OF assms(1), of "Some AES128_GCM"]
  by (cases "localKey cr secret") (simp_all add: newLocalKmsClient_def m_bind_def)

lemma gcm_refuses_nothing:
  assumes "fmt \<noteq> Some AES256_SIV"
  shows "\<exists>e. cryptor_decrypt cr fmt dek [] w = (w, Inl e)"
proof (cases "dekAead cr fmt dek")
  case (Inr ae)
  with assms obtain k where "ae = newAesGcm cr k"
    by (auto simp: dekAead_def aesGcmFromRawKey_def res_bind_Inr_iff split: option.splits if_splits)
  with Inr show ?thesis
    using short_is_refused [of "[]" cr k "Some []" w] by (simp add: cryptor_decrypt_def m_bind_Inr newAesGcm_def)
qed (simp add: cryptor_decrypt_def m_bind_def)

lemma local_refuses_null: "\<exists>e. kc_decrypt (newLocalKmsClient cr secret) None w = (w, Inl e)"
  using gcm_refuses_nothing [of "Some AES128_GCM" cr _ w]
  by (cases "localKey cr secret") (simp_all add: newLocalKmsClient_def m_bind_def)

section \<open>Azure\<close>

lemma length_azure_mark [simp]: "length azure_mark = 9"
  by (simp add: azure_mark_def textEncode_def ascii_def encode_point_def is_high_def is_low_def)

lemma hex_char_ascii: "hex_value (of_char c) \<noteq> None \<Longrightarrow> of_char c < (128 :: nat)"
  by (auto simp: hex_value_def split: if_splits)

lemma ascii_text_bytes: "isValidVersion v \<Longrightarrow> ascii_text (ascii_bytes v) = v"
proof -
  assume "isValidVersion v"
  then have "of_char c < (128 :: nat)" if "c \<in> set v" for c
    using that hex_char_ascii by (auto simp: isValidVersion_def)
  then show ?thesis
    by (auto simp: ascii_text_def ascii_bytes_def unat_of_nat comp_def intro!: map_idI)
qed

lemma azure_extract_saved:
  assumes "isValidVersion v"
  shows "azure_extractVersion (azure_mark @ ascii_bytes v @ [0x3A] @ x) = Some v"
    and "drop HEADER_LENGTH (azure_mark @ ascii_bytes v @ [0x3A] @ x) = x"
proof -
  have len: "length (ascii_bytes v) = 32"
    using assms by (simp add: ascii_bytes_def isValidVersion_def VERSION_LENGTH_def)
  then show "drop HEADER_LENGTH (azure_mark @ ascii_bytes v @ [0x3A] @ x) = x"
    by (simp add: HEADER_LENGTH_def VERSION_LENGTH_def)
  show "azure_extractVersion (azure_mark @ ascii_bytes v @ [0x3A] @ x) = Some v"
    using len ascii_text_bytes [OF assms]
    by (simp add: azure_extractVersion_def HEADER_LENGTH_def VERSION_LENGTH_def js_slice_def nth_append)
qed

text \<open>What is relied on of Key Vault: an operation that names a version of a key uses that version.\<close>

definition versions_decrypt :: "'w azure_sdk \<Rightarrow> bool" where
  "versions_decrypt sdk \<longleftrightarrow>
     (\<forall>keyId v uri creds p w w' c w2. withVersion sdk keyId v = Inr uri \<longrightarrow> az_encrypt sdk uri creds p w = (w', Inr c) \<longrightarrow>
        (\<exists>w3. az_decrypt sdk uri creds c w2 = (w3, Inr p)))"

text \<open>
  C23. A dek wrapped by the Azure client with \<open>encrypt.azure.key.version.save\<close> is unwrapped again by any
  client for the same key identifier, whether or not the setting is still on, and in any later state of
  Key Vault: the version that wrapped it is read from the ciphertext, so rotating the key does not matter.
\<close>

theorem azure_unwraps_with_saved_version:
  assumes sdk: "versions_decrypt sdk" and save: "saveVersion config"
    and enc: "azureKms_encrypt sdk config creds keyId p w = (w', Inr c)"
  shows "\<exists>w3. azureKms_decrypt sdk creds keyId (Some c) w2 = (w3, Inr p)"
proof -
  obtain w1 resolved where r: "getVersionedKeyId sdk config keyId w = (w1, Inr resolved)"
      and rest: "(let version = after_last_slash resolved
        in if \<not> isValidVersion version
           then m_throw (SecurityException (''kms key version '' @ quoted version @ '' must be a '' @ nat_str VERSION_LENGTH @
                  ''-character hex string; cannot be embedded in a fixed-width azure:v1: prefix''))
           else m_bind (m_lift (withVersion sdk keyId version)) (\<lambda>versioned.
                m_bind (az_encrypt sdk versioned creds p) (\<lambda>result.
                m_return (concat [azure_mark, ascii_bytes version, [0x3A], result])))) w1 = (w', Inr c)"
    using enc save by (auto simp: azureKms_encrypt_def m_bind_eq_Inr_iff)
  define v where "v = after_last_slash resolved"
  obtain uri x where v: "isValidVersion v" and uri: "withVersion sdk keyId v = Inr uri"
      and x: "az_encrypt sdk uri creds p w1 = (w', Inr x)" and c: "c = azure_mark @ ascii_bytes v @ [0x3A] @ x"
    using rest by (auto simp: v_def Let_def m_bind_eq_Inr_iff split: if_splits)
  obtain w3 where "az_decrypt sdk uri creds x w2 = (w3, Inr p)"
    using sdk uri x unfolding versions_decrypt_def by blast
  with uri v show ?thesis
    unfolding c by (simp add: azureKms_decrypt_def azure_extract_saved [OF v, simplified] m_bind_def)
qed

text \<open>
  A vault for the witness: its state is the version that is the latest, each version marks its
  ciphertexts, and every identifier names the key \<open>k\<close> of the vault \<open>v\<close>.
\<close>

definition sample_version :: "nat \<Rightarrow> string" where
  "sample_version n = ''0000000000000000000000000000000'' @ [digit_char (n mod 16)]"

definition sample_vault :: "nat azure_sdk" where
  "sample_vault =
     \<lparr>az_encrypt = (\<lambda>uri creds p w. (w, Inr (of_char (last uri) # p))),
      az_decrypt = (\<lambda>uri creds c w. (w, if c \<noteq> [] \<and> hd c = of_char (last uri) then Inr (tl c) else Inl (Error ''wrong key''))),
      az_getKey = (\<lambda>vault creds name w. (w, Inr (Some (''x/'' @ sample_version w)))),
      az_parseURL = (\<lambda>u. Some (''https:'', ''v'', if take 2 u = ''x/'' then ''/keys/k/'' @ drop 2 u else ''/keys/k''))\<rparr>"

lemma sample_vault_decrypts: "versions_decrypt sample_vault"
  by (simp add: versions_decrypt_def sample_vault_def)

lemma sample_vault_getKey: "az_getKey sample_vault vault creds name w = (w, Inr (Some (''x/'' @ sample_version w)))"
  by (simp add: sample_vault_def)

lemma valid_sample_version: "isValidVersion (sample_version 3)"
  by (simp add: isValidVersion_def sample_version_def VERSION_LENGTH_def digit_char_def hex_value_def)

lemma sample_vault_encrypts:
  "azureKms_encrypt sample_vault [(''encrypt.azure.key.version.save'', ''true'')] Default_azure ''k'' [7] 3 =
     (3, Inr (azure_mark @ ascii_bytes (sample_version 3) @ [0x3A, 0x33, 7]))"
proof -
  have parse: "azure_parse sample_vault ''k'' = Inr \<lparr>ak_vaultUrl = ''https://v'', ak_name = ''k'', ak_version = None\<rparr>"
    by (simp add: azure_parse_def sample_vault_def)
  have parse_x: "azure_parse sample_vault (''x/'' @ sample_version 3) =
      Inr \<lparr>ak_vaultUrl = ''https://v'', ak_name = ''k'', ak_version = Some (sample_version 3)\<rparr>"
    by (simp add: azure_parse_def sample_vault_def sample_version_def digit_char_def)
  have "getVersionedKeyId sample_vault [(''encrypt.azure.key.version.save'', ''true'')] ''k'' 3 = (3, Inr (''x/'' @ sample_version 3))"
    using parse_x by (simp add: getVersionedKeyId_def parse m_bind_def m_catch_def sample_vault_getKey)
  moreover have "after_last_slash (''x/'' @ sample_version 3) = sample_version 3"
    by (simp add: after_last_slash_def sample_version_def digit_char_def)
  moreover have "saveVersion [(''encrypt.azure.key.version.save'', ''true'')]"
    by (simp add: saveVersion_def lower_char_def)
  ultimately show ?thesis
    using valid_sample_version
    by (simp add: azureKms_encrypt_def m_bind_def withVersion_def parse)
      (simp add: sample_vault_def sample_version_def digit_char_def)
qed

theorem azure_unwraps_with_saved_version_witness:
  "\<exists>w3. azureKms_decrypt sample_vault Default_azure ''k'' (Some (azure_mark @ ascii_bytes (sample_version 3) @ [0x3A, 0x33, 7])) 4 =
     (w3, Inr [7])"
  by (rule azure_unwraps_with_saved_version [OF sample_vault_decrypts _ sample_vault_encrypts])
    (simp add: saveVersion_def lower_char_def)

section \<open>One client per key URL\<close>

lemma find_append: "find P (xs @ ys) = (case find P xs of Some x \<Rightarrow> Some x | None \<Rightarrow> find P ys)"
  by (induction xs) simp_all

text \<open>
  A client is created with the configuration of its first use and found again by its key URL
  ever after: a later call with another configuration gets the client of the first one.
\<close>

theorem kms_client_keeps_first_config:
  assumes "getKmsClient config ktype keyId reg = (reg', Inr c)" and "kc_supported c (ktype @ ''://'' @ keyId)"
  shows "getKmsClient config' ktype keyId reg' = (reg', Inr c)"
  using assms
  by (auto simp: getKmsClient_def findKmsClient_def registerKmsClient_def find_append Let_def split: option.splits sum.splits)

definition local_registry :: "nat kms_registry" where
  "local_registry = \<lparr>kmsDrivers = [LocalKmsDriver toy_crypto (\<lambda>v. None)], kmsClients = []\<rparr>"

lemma local_registry_client:
  "getKmsClient [(''secret'', s)] ''local-kms'' k local_registry =
     (local_registry\<lparr>kmsClients := [newLocalKmsClient toy_crypto s]\<rparr>, Inr (newLocalKmsClient toy_crypto s))"
  by (simp add: getKmsClient_def findKmsClient_def getKmsDriver_def local_registry_def LocalKmsDriver_def LocalKms_PREFIX_def
      startsWith_def registerKmsClient_def)

theorem kms_client_keeps_first_config_witness:
  "getKmsClient [(''secret'', ''b'')] ''local-kms'' ''k'' (local_registry\<lparr>kmsClients := [newLocalKmsClient toy_crypto ''a'']\<rparr>) =
     (local_registry\<lparr>kmsClients := [newLocalKmsClient toy_crypto ''a'']\<rparr>, Inr (newLocalKmsClient toy_crypto ''a''))"
  by (rule kms_client_keeps_first_config [OF local_registry_client])
    (simp add: newLocalKmsClient_def LocalKms_PREFIX_def startsWith_def)

end
