(* ===== verification/Dek_Registry.thy ===== *)
theory Dek_Registry
  imports Registry_Client Base64
begin

text \<open>
  \<open>rules/encryption/dekregistry/\<close>: key encryption keys (\<open>Kek\<close>) and data encryption keys (\<open>Dek\<close>), the
  interface \<open>DekClient\<close>, its REST client with two caches and its in-memory client.

  A \<open>Dek\<close> is an object that is changed after it was handed out (its key material is filled in), and the
  caches hold the same object: deks live in a store, a list, and are referred to by their index.
  Keks are never changed and stand for themselves. \<open>stringify\<close> and \<open>JSON.parse\<close> of the cache keys are
  parameters, as in the clients of the schema registry.
\<close>

section \<open>Data\<close>

record kek =
  kek_name :: "string option"
  kmsType :: "string option"
  kmsKeyId :: "string option"
  kmsProps :: "(string \<times> string) list option"
  kek_doc :: "string option"
  kek_shared :: "bool option"
  kek_ts :: "int option"
  kek_deleted :: "bool option"

text \<open>Every dek that a registry answers has a version; the other properties may be missing.\<close>

record dek =
  dek_kekName :: "string option"
  dek_subject :: "string option"
  dek_version :: int
  dek_algorithm :: "string option"
  encryptedKeyMaterial :: "string option"
  encryptedKeyMaterialBytes :: "bytes option"
  keyMaterial :: "string option"
  keyMaterialBytes :: "bytes option"
  dek_ts :: "int option"
  dek_deleted :: "bool option"

type_synonym dek_ref = nat

text \<open>\<open>!s\<close> for an optional string, and the optional properties \<open>...x && { x }\<close>.\<close>

definition falsy :: "string option \<Rightarrow> bool" where
  "falsy s \<longleftrightarrow> s = None \<or> s = Some []"

definition if_truthy :: "string option \<Rightarrow> string option" where
  "if_truthy s = (if falsy s then None else s)"

datatype dek_json =
    KKek string bool "string option"
  | KDek string string int "string option" bool

record 'c dek_client =
  dc_registerKek :: "string \<Rightarrow> string \<Rightarrow> string \<Rightarrow> bool \<Rightarrow> (string \<times> string) list option \<Rightarrow> string option \<Rightarrow> string option
    \<Rightarrow> ('c, kek) meth"
  dc_getKek :: "string \<Rightarrow> bool \<Rightarrow> string option \<Rightarrow> ('c, kek) meth"
  dc_registerDek :: "string \<Rightarrow> string \<Rightarrow> string option \<Rightarrow> int \<Rightarrow> string option \<Rightarrow> ('c, dek_ref) meth"
  dc_getDek :: "string \<Rightarrow> string \<Rightarrow> string option \<Rightarrow> int \<Rightarrow> bool \<Rightarrow> ('c, dek_ref) meth"
  dc_getDekEncryptedKeyMaterialBytes :: "dek_ref \<Rightarrow> ('c, bytes option) meth"
  dc_getDekKeyMaterialBytes :: "dek_ref \<Rightarrow> ('c, bytes option) meth"
  dc_setDekKeyMaterial :: "dek_ref \<Rightarrow> bytes \<Rightarrow> ('c, unit) meth"
  dc_dek :: "'c \<Rightarrow> dek_ref \<Rightarrow> dek"

section \<open>Key material of a dek\<close>

text \<open>What the two clients do with a dek object, on the store.\<close>

definition getEncryptedBytes :: "dek_ref \<Rightarrow> dek list \<Rightarrow> dek list \<times> bytes option" where
  "getEncryptedBytes r h =
     (let d = h ! r
      in if falsy (encryptedKeyMaterial d) then (h, None)
         else case encryptedKeyMaterialBytes d of
                Some b \<Rightarrow> (h, Some b)
              | None \<Rightarrow> let b = base64Decode (ascii (the (encryptedKeyMaterial d)))
                        in (h[r := d\<lparr>encryptedKeyMaterialBytes := Some b\<rparr>], Some b))"

definition getKeyBytes :: "dek_ref \<Rightarrow> dek list \<Rightarrow> dek list \<times> bytes option" where
  "getKeyBytes r h =
     (let d = h ! r
      in if falsy (keyMaterial d) then (h, None)
         else case keyMaterialBytes d of
                Some b \<Rightarrow> (h, Some b)
              | None \<Rightarrow> let b = base64Decode (ascii (the (keyMaterial d)))
                        in (h[r := d\<lparr>keyMaterialBytes := Some b\<rparr>], Some b))"

definition setKeyMaterial :: "dek_ref \<Rightarrow> bytes \<Rightarrow> dek list \<Rightarrow> dek list" where
  "setKeyMaterial r keyBytes h = h[r := (h ! r)\<lparr>keyMaterial := Some (base64Encode keyBytes)\<rparr>]"

section \<open>The in-memory client\<close>

record 'k mock_dek_client =
  mk_keks :: "('k, kek) jsmap"
  mk_deks :: "('k, dek_ref) jsmap"
  mk_heap :: "dek list"

definition newMockDekClient :: "'k mock_dek_client" where
  "newMockDekClient = \<lparr>mk_keks = [], mk_deks = [], mk_heap = []\<rparr>"

definition MOCK_TS :: int where "MOCK_TS = 11112223334"

definition newKek ::
    "string \<Rightarrow> string \<Rightarrow> string \<Rightarrow> bool \<Rightarrow> (string \<times> string) list option \<Rightarrow> string option \<Rightarrow> kek" where
  "newKek name ktype keyId shared props doc =
     \<lparr>kek_name = Some name, kmsType = Some ktype, kmsKeyId = Some keyId, kmsProps = props, kek_doc = if_truthy doc,
      kek_shared = Some shared, kek_ts = None, kek_deleted = None\<rparr>"

definition registerKek_mock ::
    "(dek_json \<Rightarrow> 'k) \<Rightarrow> string \<Rightarrow> string \<Rightarrow> string \<Rightarrow> bool \<Rightarrow> (string \<times> string) list option \<Rightarrow> string option \<Rightarrow> string option
     \<Rightarrow> ('k mock_dek_client, kek) meth" where
  "registerKek_mock stringify name ktype keyId shared props doc context c =
     (let cacheKey = stringify (KKek name False context)
      in case jm_get (mk_keks c) cacheKey of
           Some kek \<Rightarrow> (c, Inr kek)
         | None \<Rightarrow>
             let kek = newKek name ktype keyId shared props doc
             in (c\<lparr>mk_keks := jm_set cacheKey kek (mk_keks c)\<rparr>, Inr kek))"

definition getKek_mock :: "(dek_json \<Rightarrow> 'k) \<Rightarrow> string \<Rightarrow> bool \<Rightarrow> string option \<Rightarrow> ('k mock_dek_client, kek) meth" where
  "getKek_mock stringify name deleted context c =
     (c, case jm_get (mk_keks c) (stringify (KKek name deleted context)) of
           Some kek \<Rightarrow> if kek_deleted kek \<noteq> Some True \<or> deleted then Inr kek
                       else Inl (RestError (''Kek not found: '' @ name) 404 40400)
         | None \<Rightarrow> Inl (RestError (''Kek not found: '' @ name) 404 40400))"

definition newDek :: "string \<Rightarrow> string \<Rightarrow> string option \<Rightarrow> int \<Rightarrow> string option \<Rightarrow> dek" where
  "newDek kekName subject algorithm version material =
     \<lparr>dek_kekName = Some kekName, dek_subject = Some subject, dek_version = version, dek_algorithm = algorithm,
      encryptedKeyMaterial = if_truthy material, encryptedKeyMaterialBytes = None, keyMaterial = None,
      keyMaterialBytes = None, dek_ts = Some MOCK_TS, dek_deleted = None\<rparr>"

definition registerDek_mock ::
    "(dek_json \<Rightarrow> 'k) \<Rightarrow> string \<Rightarrow> string \<Rightarrow> string option \<Rightarrow> int \<Rightarrow> string option \<Rightarrow> ('k mock_dek_client, dek_ref) meth" where
  "registerDek_mock stringify kekName subject algorithm version material c =
     (let cacheKey = stringify (KDek kekName subject version algorithm False)
      in case jm_get (mk_deks c) cacheKey of
           Some r \<Rightarrow> (c, Inr r)
         | None \<Rightarrow>
             let r = length (mk_heap c)
             in (c\<lparr>mk_heap := mk_heap c @ [newDek kekName subject algorithm version material],
                   mk_deks := jm_set cacheKey r (mk_deks c)\<rparr>, Inr r))"

fun matching_version :: "string \<Rightarrow> string \<Rightarrow> string option \<Rightarrow> bool \<Rightarrow> dek_json \<Rightarrow> int option" where
  "matching_version kekName subject algorithm deleted (KDek kn s v a d) =
     (if kn = kekName \<and> s = subject \<and> a = algorithm \<and> d = deleted then Some v else None)"
| "matching_version kekName subject algorithm deleted (KKek n d ctx) = None"

definition latestVersion ::
    "('k \<Rightarrow> dek_json) \<Rightarrow> string \<Rightarrow> string \<Rightarrow> string option \<Rightarrow> bool \<Rightarrow> 'k mock_dek_client \<Rightarrow> int" where
  "latestVersion parse kekName subject algorithm deleted c =
     fold (\<lambda>(key, r) latest. case matching_version kekName subject algorithm deleted (parse key) of
             Some v \<Rightarrow> max latest v | None \<Rightarrow> latest) (mk_deks c) 0"

definition dekNotFound :: "string \<Rightarrow> js_error" where
  "dekNotFound subject = RestError (''Dek not found: '' @ subject) 404 40400"

definition getDek_mock ::
    "(dek_json \<Rightarrow> 'k) \<Rightarrow> ('k \<Rightarrow> dek_json) \<Rightarrow> string \<Rightarrow> string \<Rightarrow> string option \<Rightarrow> int \<Rightarrow> bool
     \<Rightarrow> ('k mock_dek_client, dek_ref) meth" where
  "getDek_mock stringify parse kekName subject algorithm version deleted c =
     (let latest = latestVersion parse kekName subject algorithm deleted c
      in if version = -1 \<and> latest = 0 then (c, Inl (dekNotFound subject))
         else case jm_get (mk_deks c)
                     (stringify (KDek kekName subject (if version = -1 then latest else version) algorithm False)) of
                Some r \<Rightarrow> (c, Inr r)
              | None \<Rightarrow> (c, Inl (dekNotFound subject)))"

definition on_mock_heap :: "(dek list \<Rightarrow> dek list \<times> 'a) \<Rightarrow> ('k mock_dek_client, 'a) meth" where
  "on_mock_heap f c = (case f (mk_heap c) of (h, x) \<Rightarrow> (c\<lparr>mk_heap := h\<rparr>, Inr x))"

definition MockDekClient :: "(dek_json \<Rightarrow> 'k) \<Rightarrow> ('k \<Rightarrow> dek_json) \<Rightarrow> 'k mock_dek_client dek_client" where
  "MockDekClient stringify parse =
     \<lparr>dc_registerKek = registerKek_mock stringify, dc_getKek = getKek_mock stringify,
      dc_registerDek = registerDek_mock stringify, dc_getDek = getDek_mock stringify parse,
      dc_getDekEncryptedKeyMaterialBytes = (\<lambda>r. on_mock_heap (getEncryptedBytes r)),
      dc_getDekKeyMaterialBytes = (\<lambda>r. on_mock_heap (getKeyBytes r)),
      dc_setDekKeyMaterial = (\<lambda>r b. on_mock_heap (\<lambda>h. (setKeyMaterial r b h, ()))),
      dc_dek = (\<lambda>c r. mk_heap c ! r)\<rparr>"

section \<open>The REST client\<close>

text \<open>A request body is a \<open>CreateKekRequest\<close> or a dek without a store entry.\<close>

datatype dek_body = No_dek_body | Kek_body kek | Dek_body "string \<times> int \<times> string option \<times> string option"

datatype dek_request = Dek_request string http_method dek_body

record ('k, 'w) dek_env =
  de_stringify :: "dek_json \<Rightarrow> 'k"
  de_keepKeks :: "('k, kek) cache \<Rightarrow> ('k, kek) cache"
  de_keepDeks :: "('k, dek_ref) cache \<Rightarrow> ('k, dek_ref) cache"
  de_kek :: "dek_request \<Rightarrow> ('w, kek) meth"
  de_dek :: "dek_request \<Rightarrow> ('w, dek) meth"

record ('k, 'w) rest_dek_client =
  dr_keks :: "('k, kek) cache"
  dr_deks :: "('k, dek_ref) cache"
  dr_heap :: "dek list"
  dr_world :: 'w

definition newRestDekClient :: "'w \<Rightarrow> ('k, 'w) rest_dek_client" where
  "newRestDekClient w = \<lparr>dr_keks = [], dr_deks = [], dr_heap = [], dr_world = w\<rparr>"

definition undefined_str :: "string option \<Rightarrow> string" where
  "undefined_str s = (case s of None \<Rightarrow> ''undefined'' | Some t \<Rightarrow> t)"

definition request_kek :: "('k, 'w) dek_env \<Rightarrow> 'k \<Rightarrow> dek_request \<Rightarrow> (('k, 'w) rest_dek_client, kek) meth" where
  "request_kek env cacheKey req c =
     (case cache_get (de_keepKeks env) cacheKey (dr_keks c) of
        Some kek \<Rightarrow> (c, Inr kek)
      | None \<Rightarrow> (case de_kek env req (dr_world c) of
                   (w, Inl e) \<Rightarrow> (c\<lparr>dr_world := w\<rparr>, Inl e)
                 | (w, Inr kek) \<Rightarrow>
                     (c\<lparr>dr_world := w, dr_keks := cache_set (de_keepKeks env) cacheKey kek (dr_keks c)\<rparr>, Inr kek)))"

definition registerKek_rest ::
    "('k, 'w) dek_env \<Rightarrow> string \<Rightarrow> string \<Rightarrow> string \<Rightarrow> bool \<Rightarrow> (string \<times> string) list option \<Rightarrow> string option \<Rightarrow> string option
     \<Rightarrow> (('k, 'w) rest_dek_client, kek) meth" where
  "registerKek_rest env name ktype keyId shared props doc context =
     (let path = (case context of
                    Some ctx \<Rightarrow> ''/dek-registry/v1/keks?context='' @ encodeURIComponent ctx
                  | None \<Rightarrow> ''/dek-registry/v1/keks'')
      in request_kek env (de_stringify env (KKek name False context))
           (Dek_request path POST (Kek_body (newKek name ktype keyId shared props doc))))"

definition getKek_rest :: "('k, 'w) dek_env \<Rightarrow> string \<Rightarrow> bool \<Rightarrow> string option \<Rightarrow> (('k, 'w) rest_dek_client, kek) meth" where
  "getKek_rest env name deleted context =
     (let path = ''/dek-registry/v1/keks/'' @ encodeURIComponent name @ ''?deleted='' @ bool_str deleted @
                 (case context of Some ctx \<Rightarrow> ''&context='' @ encodeURIComponent ctx | None \<Rightarrow> [])
      in request_kek env (de_stringify env (KKek name deleted context)) (Dek_request path GET No_dek_body))"

text \<open>An answer is a new object.\<close>

definition request_dek :: "('k, 'w) dek_env \<Rightarrow> dek_request \<Rightarrow> (('k, 'w) rest_dek_client, dek_ref) meth" where
  "request_dek env req c =
     (case de_dek env req (dr_world c) of
        (w, Inl e) \<Rightarrow> (c\<lparr>dr_world := w\<rparr>, Inl e)
      | (w, Inr d) \<Rightarrow> (c\<lparr>dr_world := w, dr_heap := dr_heap c @ [d]\<rparr>, Inr (length (dr_heap c))))"

definition createDek_rest ::
    "('k, 'w) dek_env \<Rightarrow> string \<Rightarrow> string \<times> int \<times> string option \<times> string option \<Rightarrow> (('k, 'w) rest_dek_client, dek_ref) meth" where
  "createDek_rest env kekName request =
     (let keks = ''/dek-registry/v1/keks/'' @ encodeURIComponent kekName @ ''/deks''
      in m_catch (request_dek env (Dek_request (keks @ ''/'' @ encodeURIComponent (fst request)) POST (Dek_body request)))
           (\<lambda>error. case error of
              RestError m status code \<Rightarrow>
                if status = 405 then request_dek env (Dek_request keks POST (Dek_body request)) else m_throw error
            | _ \<Rightarrow> m_throw error))"

definition cache_dek :: "('k, 'w) dek_env \<Rightarrow> 'k \<Rightarrow> dek_ref \<Rightarrow> ('k, 'w) rest_dek_client \<Rightarrow> ('k, 'w) rest_dek_client" where
  "cache_dek env cacheKey r c = c\<lparr>dr_deks := cache_set (de_keepDeks env) cacheKey r (dr_deks c)\<rparr>"

definition uncache_dek :: "('k, 'w) dek_env \<Rightarrow> 'k \<Rightarrow> ('k, 'w) rest_dek_client \<Rightarrow> ('k, 'w) rest_dek_client" where
  "uncache_dek env cacheKey c = c\<lparr>dr_deks := cache_delete (de_keepDeks env) cacheKey (dr_deks c)\<rparr>"

definition registerDek_rest ::
    "('k, 'w) dek_env \<Rightarrow> string \<Rightarrow> string \<Rightarrow> string option \<Rightarrow> int \<Rightarrow> string option \<Rightarrow> (('k, 'w) rest_dek_client, dek_ref) meth" where
  "registerDek_rest env kekName subject algorithm version material c =
     (let key = (\<lambda>v del. de_stringify env (KDek kekName subject v algorithm del))
      in case cache_get (de_keepDeks env) (key version False) (dr_deks c) of
           Some r \<Rightarrow> (c, Inr r)
         | None \<Rightarrow>
             m_bind (createDek_rest env kekName (subject, version, algorithm, if_truthy material)) (\<lambda>r c'.
               (uncache_dek env (key (-1) True) (uncache_dek env (key (-1) False) (cache_dek env (key version False) r c')),
                Inr r)) c)"

definition getDek_rest ::
    "('k, 'w) dek_env \<Rightarrow> string \<Rightarrow> string \<Rightarrow> string option \<Rightarrow> int \<Rightarrow> bool \<Rightarrow> (('k, 'w) rest_dek_client, dek_ref) meth" where
  "getDek_rest env kekName subject algorithm version deleted c =
     (let cacheKey = de_stringify env (KDek kekName subject version algorithm deleted);
          path = ''/dek-registry/v1/keks/'' @ encodeURIComponent kekName @ ''/deks/'' @ encodeURIComponent subject @
                 ''/versions/'' @ int_str version @ ''?algorithm='' @ undefined_str algorithm @ ''&deleted='' @ bool_str deleted
      in case cache_get (de_keepDeks env) cacheKey (dr_deks c) of
           Some r \<Rightarrow> (c, Inr r)
         | None \<Rightarrow>
             m_bind (request_dek env (Dek_request path GET No_dek_body)) (\<lambda>r c'. (cache_dek env cacheKey r c', Inr r)) c)"

definition checkLatestDekInCache :: "('k, 'w) dek_env \<Rightarrow> string \<Rightarrow> string \<Rightarrow> string option \<Rightarrow> ('k, 'w) rest_dek_client \<Rightarrow> bool" where
  "checkLatestDekInCache env kekName subject algorithm c \<longleftrightarrow>
     cache_get (de_keepDeks env) (de_stringify env (KDek kekName subject (-1) algorithm False)) (dr_deks c) \<noteq> None"

definition on_rest_heap :: "(dek list \<Rightarrow> dek list \<times> 'a) \<Rightarrow> (('k, 'w) rest_dek_client, 'a) meth" where
  "on_rest_heap f c = (case f (dr_heap c) of (h, x) \<Rightarrow> (c\<lparr>dr_heap := h\<rparr>, Inr x))"

definition RestDekClient :: "('k, 'w) dek_env \<Rightarrow> ('k, 'w) rest_dek_client dek_client" where
  "RestDekClient env =
     \<lparr>dc_registerKek = registerKek_rest env, dc_getKek = getKek_rest env,
      dc_registerDek = registerDek_rest env, dc_getDek = getDek_rest env,
      dc_getDekEncryptedKeyMaterialBytes = (\<lambda>r. on_rest_heap (getEncryptedBytes r)),
      dc_getDekKeyMaterialBytes = (\<lambda>r. on_rest_heap (getKeyBytes r)),
      dc_setDekKeyMaterial = (\<lambda>r b. on_rest_heap (\<lambda>h. (setKeyMaterial r b h, ()))),
      dc_dek = (\<lambda>c r. dr_heap c ! r)\<rparr>"

end
