(* ===== verification/Dek_Store.thy ===== *)
theory Dek_Store
  imports Dek_Registry
begin

text \<open>
  The contract of a \<open>DekClient\<close> that the encryption executor relies on, as a locale, and that the
  in-memory client keeps it. \<open>inv\<close> is what holds of the client between calls, \<open>le\<close> is how its content may
  change: keys are added, and key material, once known, stays.
\<close>

section \<open>The contract\<close>

locale dek_store =
  fixes cl :: "'c dek_client" and inv :: "'c \<Rightarrow> bool" and le :: "'c \<Rightarrow> 'c \<Rightarrow> bool" and live :: "'c \<Rightarrow> dek_ref \<Rightarrow> bool"
  assumes le_refl: "le c c"
    and le_trans: "le c d \<Longrightarrow> le d e \<Longrightarrow> le c e"
    and same_dek: "le c d \<Longrightarrow> live c r \<Longrightarrow>
      live d r \<and> dek_version (dc_dek cl d r) = dek_version (dc_dek cl c r) \<and>
      encryptedKeyMaterial (dc_dek cl d r) = encryptedKeyMaterial (dc_dek cl c r)"
    and registerKek_step: "inv c \<Longrightarrow> dc_registerKek cl n t i sh ps doc ctx c = (c', kres) \<Longrightarrow> inv c' \<and> le c c'"
    and registerKek_found: "inv c \<Longrightarrow> dc_registerKek cl n t i sh ps doc ctx c = (c', Inr kek) \<Longrightarrow> inv d \<Longrightarrow> le c' d \<Longrightarrow>
      \<exists>d'. dc_getKek cl n False ctx d = (d', Inr kek)"
    and getKek_step: "inv c \<Longrightarrow> dc_getKek cl n del ctx c = (c', kres) \<Longrightarrow> inv c' \<and> le c c'"
    and getKek_found: "inv c \<Longrightarrow> dc_getKek cl n False ctx c = (c', Inr kek) \<Longrightarrow> inv d \<Longrightarrow> le c' d \<Longrightarrow>
      \<exists>d'. dc_getKek cl n False ctx d = (d', Inr kek)"
    and registerDek_step: "inv c \<Longrightarrow> 0 < v \<Longrightarrow> dc_registerDek cl n s a v m c = (c', dres) \<Longrightarrow> inv c' \<and> le c c'"
    and registerDek_found: "inv c \<Longrightarrow> 0 < v \<Longrightarrow> dc_registerDek cl n s a v m c = (c', Inr r) \<Longrightarrow>
      live c' r \<and> dek_version (dc_dek cl c' r) = v \<and>
      (\<forall>d. inv d \<longrightarrow> le c' d \<longrightarrow> (\<exists>d'. dc_getDek cl n s a v True d = (d', Inr r)))"
    and getDek_step: "inv c \<Longrightarrow> dc_getDek cl n s a v del c = (c', dres) \<Longrightarrow> inv c' \<and> le c c' \<and> (\<forall>r. dres = Inr r \<longrightarrow> live c' r)"
    and getDek_found: "inv c \<Longrightarrow> dc_getDek cl n s a v del c = (c', Inr r) \<Longrightarrow> v = -1 \<or> 0 < v \<Longrightarrow>
      0 < dek_version (dc_dek cl c' r) \<and> (0 < v \<longrightarrow> dek_version (dc_dek cl c' r) = v) \<and>
      (\<forall>d. inv d \<longrightarrow> le c' d \<longrightarrow> (\<exists>d'. dc_getDek cl n s a (dek_version (dc_dek cl c' r)) True d = (d', Inr r)))"
    and encrypted_step: "inv c \<Longrightarrow> live c r \<Longrightarrow> dc_getDekEncryptedKeyMaterialBytes cl r c = (c', bres) \<Longrightarrow>
      inv c' \<and> le c c' \<and> keyMaterial (dc_dek cl c' r) = keyMaterial (dc_dek cl c r) \<and>
      (\<forall>b. bres = Inr (Some b) \<longrightarrow> \<not> falsy (encryptedKeyMaterial (dc_dek cl c' r)))"
    and key_step: "inv c \<Longrightarrow> live c r \<Longrightarrow> dc_getDekKeyMaterialBytes cl r c = (c', bres) \<Longrightarrow>
      inv c' \<and> le c c' \<and> (bres = Inr None \<longrightarrow> falsy (keyMaterial (dc_dek cl c' r)))"
    and key_found: "inv c \<Longrightarrow> live c r \<Longrightarrow> dc_getDekKeyMaterialBytes cl r c = (c', Inr (Some b)) \<Longrightarrow>
      encryptedKeyMaterial (dc_dek cl c' r) \<noteq> None \<and>
      (\<forall>d. inv d \<longrightarrow> le c' d \<longrightarrow> (\<exists>d'. dc_getDekKeyMaterialBytes cl r d = (d', Inr (Some b))))"
    and set_key_step: "inv c \<Longrightarrow> live c r \<Longrightarrow> falsy (keyMaterial (dc_dek cl c r)) \<Longrightarrow>
      \<not> falsy (encryptedKeyMaterial (dc_dek cl c r)) \<Longrightarrow> dc_setDekKeyMaterial cl r b c = (c', ures) \<Longrightarrow> inv c' \<and> le c c'"

section \<open>The in-memory client\<close>

text \<open>The key material of a dek: what \<open>getDekKeyMaterialBytes\<close> returns.\<close>

definition dek_key :: "dek \<Rightarrow> bytes option" where
  "dek_key d =
     (if falsy (keyMaterial d) then None
      else Some (case keyMaterialBytes d of Some b \<Rightarrow> b | None \<Rightarrow> base64Decode (ascii (the (keyMaterial d)))))"

definition mock_dek_inv :: "(dek_json \<Rightarrow> 'k) \<Rightarrow> 'k mock_dek_client \<Rightarrow> bool" where
  "mock_dek_inv stringify c \<longleftrightarrow>
     (\<forall>k kek. jm_get (mk_keks c) k = Some kek \<longrightarrow> kek_deleted kek \<noteq> Some True) \<and>
     (\<forall>(k, r) \<in> set (mk_deks c). r < length (mk_heap c) \<and>
        (\<exists>n s a. k = stringify (KDek n s (dek_version (mk_heap c ! r)) a False))) \<and>
     (\<forall>d \<in> set (mk_heap c). \<not> falsy (keyMaterial d) \<longrightarrow> \<not> falsy (encryptedKeyMaterial d))"

definition dek_le :: "dek \<Rightarrow> dek \<Rightarrow> bool" where
  "dek_le d e \<longleftrightarrow>
     dek_version e = dek_version d \<and> encryptedKeyMaterial e = encryptedKeyMaterial d \<and>
     (\<forall>b. dek_key d = Some b \<longrightarrow> dek_key e = Some b)"

definition mock_dek_le :: "'k mock_dek_client \<Rightarrow> 'k mock_dek_client \<Rightarrow> bool" where
  "mock_dek_le c d \<longleftrightarrow>
     (\<forall>k kek. jm_get (mk_keks c) k = Some kek \<longrightarrow> jm_get (mk_keks d) k = Some kek) \<and>
     (\<forall>k r. jm_get (mk_deks c) k = Some r \<longrightarrow> jm_get (mk_deks d) k = Some r) \<and>
     length (mk_heap c) \<le> length (mk_heap d) \<and>
     (\<forall>r < length (mk_heap c). dek_le (mk_heap c ! r) (mk_heap d ! r))"

definition mock_dek_live :: "'k mock_dek_client \<Rightarrow> dek_ref \<Rightarrow> bool" where
  "mock_dek_live c r \<longleftrightarrow> r < length (mk_heap c)"

lemma dek_le_refl [simp]: "dek_le d d"
  by (simp add: dek_le_def)

lemma dek_le_trans: "dek_le d e \<Longrightarrow> dek_le e f \<Longrightarrow> dek_le d f"
  by (auto simp: dek_le_def)

lemma mock_dek_le_refl [simp]: "mock_dek_le c c"
  by (simp add: mock_dek_le_def)

lemma mock_dek_le_trans: "mock_dek_le c d \<Longrightarrow> mock_dek_le d e \<Longrightarrow> mock_dek_le c e"
  unfolding mock_dek_le_def by (meson dek_le_trans order_less_le_trans order_trans)

lemma new_mock_dek_inv [simp]: "mock_dek_inv stringify newMockDekClient"
  by (simp add: mock_dek_inv_def newMockDekClient_def)

text \<open>Changing one object in a way that keeps what is known of it.\<close>

lemma update_object:
  assumes inv: "mock_dek_inv stringify c" and r: "r < length (mk_heap c)" and d: "dek_le (mk_heap c ! r) d"
    and material: "\<not> falsy (keyMaterial d) \<Longrightarrow> \<not> falsy (encryptedKeyMaterial d)"
  shows "mock_dek_inv stringify (c\<lparr>mk_heap := (mk_heap c)[r := d]\<rparr>) \<and> mock_dek_le c (c\<lparr>mk_heap := (mk_heap c)[r := d]\<rparr>)"
proof
  show "mock_dek_le c (c\<lparr>mk_heap := (mk_heap c)[r := d]\<rparr>)"
    using d r by (auto simp: mock_dek_le_def nth_list_update)
  have "dek_version ((mk_heap c)[r := d] ! q) = dek_version (mk_heap c ! q)" if "q < length (mk_heap c)" for q
    using that d r by (simp add: nth_list_update dek_le_def)
  then show "mock_dek_inv stringify (c\<lparr>mk_heap := (mk_heap c)[r := d]\<rparr>)"
    using inv material unfolding mock_dek_inv_def
    by (fastforce dest!: subsetD [OF set_update_subset_insert])
qed

lemma getKeyBytes_key: "r < length h \<Longrightarrow> getKeyBytes r h = (h', b) \<Longrightarrow>
  b = dek_key (h ! r) \<and> h' = h[r := h' ! r] \<and> dek_le (h ! r) (h' ! r) \<and> dek_key (h' ! r) = dek_key (h ! r) \<and>
  keyMaterial (h' ! r) = keyMaterial (h ! r)"
  by (cases "keyMaterialBytes (h ! r)")
    (auto simp: getKeyBytes_def dek_key_def dek_le_def Let_def dest: sym [where s = "Some _"] split: if_splits)

lemma getEncryptedBytes_key: "r < length h \<Longrightarrow> getEncryptedBytes r h = (h', b) \<Longrightarrow>
  h' = h[r := h' ! r] \<and> dek_le (h ! r) (h' ! r) \<and> keyMaterial (h' ! r) = keyMaterial (h ! r) \<and>
  (b \<noteq> None \<longrightarrow> \<not> falsy (encryptedKeyMaterial (h' ! r)))"
  by (auto simp: getEncryptedBytes_def dek_key_def dek_le_def Let_def split: if_splits option.splits)

locale dek_codec =
  fixes stringify :: "dek_json \<Rightarrow> 'k" and parse :: "'k \<Rightarrow> dek_json"
  assumes parse_stringify [simp]: "parse (stringify k) = k"
begin

lemma stringify_eq [simp]: "stringify k = stringify k' \<longleftrightarrow> k = k'"
  by (metis parse_stringify)

lemma mock_entry:
  assumes "mock_dek_inv stringify c" and "jm_get (mk_deks c) (stringify (KDek n s v a False)) = Some r"
  shows "r < length (mk_heap c)" and "dek_version (mk_heap c ! r) = v"
  using assms(1) map_of_SomeD [OF assms(2)] by (auto simp: mock_dek_inv_def)

lemma latestVersion_entry:
  assumes "mock_dek_inv stringify c" and "latestVersion parse n s a del c = v" and "v \<noteq> 0"
  shows "0 < v \<and> jm_get (mk_deks c) (stringify (KDek n s v a False)) \<noteq> None"
proof -
  let ?f = "\<lambda>(key, r) latest. case matching_version n s a del (parse key) of Some v \<Rightarrow> max latest v | None \<Rightarrow> latest"
  have "fold ?f es x = v \<Longrightarrow> v = x \<or> (x < v \<and> (\<exists>(k, r) \<in> set es. matching_version n s a del (parse k) = Some v))" for es x v
  proof (induction es arbitrary: x)
    case (Cons e es)
    obtain k r where e: "e = (k, r)" by (cases e)
    show ?case
      using Cons.IH [of "?f e x"] Cons.prems by (auto simp: e max_def split: option.splits if_splits)
  qed simp
  with assms(2,3) obtain k r where "0 < v" and kr: "(k, r) \<in> set (mk_deks c)" and m: "matching_version n s a del (parse k) = Some v"
    unfolding latestVersion_def by fastforce
  moreover obtain n' s' a' where "k = stringify (KDek n' s' (dek_version (mk_heap c ! r)) a' False)"
    using assms(1) kr by (auto simp: mock_dek_inv_def)
  ultimately show ?thesis
    using m by (auto simp: map_of_eq_None_iff image_iff split: if_splits) force
qed

lemma mock_registerDek:
  assumes inv: "mock_dek_inv stringify c" and reg: "registerDek_mock stringify n s a v m c = (c', res)"
  shows "mock_dek_inv stringify c' \<and> mock_dek_le c c'"
    and "res = Inr r \<Longrightarrow> jm_get (mk_deks c') (stringify (KDek n s v a False)) = Some r"
proof -
  let ?k = "stringify (KDek n s v a False)"
  show "mock_dek_inv stringify c' \<and> mock_dek_le c c'"
  proof (cases "jm_get (mk_deks c) ?k")
    case None
    have c': "c' = c\<lparr>mk_heap := mk_heap c @ [newDek n s a v m], mk_deks := jm_set ?k (length (mk_heap c)) (mk_deks c)\<rparr>"
      using reg None by (simp add: registerDek_mock_def Let_def)
    have "mock_dek_inv stringify c'"
      using inv unfolding c' mock_dek_inv_def
      by (auto simp: nth_append newDek_def falsy_def dest!: jm_set_entry)
    moreover have "mock_dek_le c c'"
      using None unfolding c' mock_dek_le_def by (auto simp: nth_append)
    ultimately show ?thesis ..
  qed (use inv reg in \<open>simp add: registerDek_mock_def\<close>)
  show "res = Inr r \<Longrightarrow> jm_get (mk_deks c') ?k = Some r"
    using reg by (auto simp: registerDek_mock_def Let_def split: option.splits)
qed

lemma mock_getDek:
  assumes inv: "mock_dek_inv stringify c" and get: "getDek_mock stringify parse n s a v del c = (c', res)"
  shows "c' = c" and "res = Inr r \<Longrightarrow> \<exists>v'. jm_get (mk_deks c) (stringify (KDek n s v' a False)) = Some r \<and>
    (if v = -1 then 0 < v' else v' = v)"
  using get latestVersion_entry [OF inv refl, of n s a del]
  by (auto simp: getDek_mock_def Let_def split: if_splits option.splits)

lemma mock_getDek_again:
  "jm_get (mk_deks c) (stringify (KDek n s v a False)) = Some r \<Longrightarrow> 0 < v \<Longrightarrow> mock_dek_le c d \<Longrightarrow>
   getDek_mock stringify parse n s a v True d = (d, Inr r)"
  by (auto simp: getDek_mock_def mock_dek_le_def Let_def)

lemma mock_encrypted_step:
  assumes inv: "mock_dek_inv stringify c" and r: "mock_dek_live c r"
    and "dc_getDekEncryptedKeyMaterialBytes (MockDekClient stringify parse) r c = (c', res)"
  shows "mock_dek_inv stringify c' \<and> mock_dek_le c c' \<and>
      keyMaterial (dc_dek (MockDekClient stringify parse) c' r) = keyMaterial (dc_dek (MockDekClient stringify parse) c r) \<and>
      (\<forall>b. res = Inr (Some b) \<longrightarrow> \<not> falsy (encryptedKeyMaterial (dc_dek (MockDekClient stringify parse) c' r)))"
proof -
  from assms obtain h b where h: "getEncryptedBytes r (mk_heap c) = (h, b)" "c' = c\<lparr>mk_heap := h\<rparr>" "res = Inr b"
    by (auto simp: MockDekClient_def on_mock_heap_def split: prod.splits)
  note g = getEncryptedBytes_key [OF r [unfolded mock_dek_live_def] h(1)]
  have "\<not> falsy (keyMaterial (h ! r)) \<Longrightarrow> \<not> falsy (encryptedKeyMaterial (h ! r))"
    using inv r g by (auto simp: mock_dek_inv_def mock_dek_live_def dek_le_def)
  with update_object [OF inv r [unfolded mock_dek_live_def], of "h ! r"] g
  show ?thesis
    by (auto simp: h MockDekClient_def)
qed

lemma mock_key_step:
  assumes inv: "mock_dek_inv stringify c" and r: "mock_dek_live c r"
    and "dc_getDekKeyMaterialBytes (MockDekClient stringify parse) r c = (c', res)"
  shows "mock_dek_inv stringify c' \<and> mock_dek_le c c' \<and>
      (res = Inr None \<longrightarrow> falsy (keyMaterial (dc_dek (MockDekClient stringify parse) c' r)))"
proof -
  from assms obtain h b where h: "getKeyBytes r (mk_heap c) = (h, b)" "c' = c\<lparr>mk_heap := h\<rparr>" "res = Inr b"
    by (auto simp: MockDekClient_def on_mock_heap_def split: prod.splits)
  note g = getKeyBytes_key [OF r [unfolded mock_dek_live_def] h(1)]
  have "\<not> falsy (keyMaterial (h ! r)) \<Longrightarrow> \<not> falsy (encryptedKeyMaterial (h ! r))"
    using inv r g by (auto simp: mock_dek_inv_def mock_dek_live_def dek_le_def)
  with update_object [OF inv r [unfolded mock_dek_live_def], of "h ! r"] g
  show ?thesis
    by (auto simp: h MockDekClient_def dek_key_def split: if_splits)
qed

lemma mock_key_found:
  assumes inv: "mock_dek_inv stringify c" and r: "mock_dek_live c r"
    and "dc_getDekKeyMaterialBytes (MockDekClient stringify parse) r c = (c', Inr (Some b))"
  shows "encryptedKeyMaterial (dc_dek (MockDekClient stringify parse) c' r) \<noteq> None \<and>
      (\<forall>d. mock_dek_inv stringify d \<longrightarrow> mock_dek_le c' d \<longrightarrow>
         (\<exists>d'. dc_getDekKeyMaterialBytes (MockDekClient stringify parse) r d = (d', Inr (Some b))))"
proof -
  from assms obtain h where h: "getKeyBytes r (mk_heap c) = (h, Some b)" "c' = c\<lparr>mk_heap := h\<rparr>"
    by (auto simp: MockDekClient_def on_mock_heap_def split: prod.splits)
  note g = getKeyBytes_key [OF r [unfolded mock_dek_live_def] h(1)]
  have len: "r < length h" using g r by (metis length_list_update mock_dek_live_def)
  have enc: "encryptedKeyMaterial (h ! r) \<noteq> None"
    using inv r g by (auto simp: mock_dek_inv_def mock_dek_live_def dek_le_def dek_key_def falsy_def split: if_splits)
  have "\<exists>d'. dc_getDekKeyMaterialBytes (MockDekClient stringify parse) r d = (d', Inr (Some b))" if "mock_dek_le c' d" for d
  proof -
    have "dek_key (h ! r) = Some b" using g by simp
    then have key: "r < length (mk_heap d)" "dek_key (mk_heap d ! r) = Some b"
      using that len h(2) by (simp_all add: mock_dek_le_def dek_le_def)
    obtain h2 b2 where h2: "getKeyBytes r (mk_heap d) = (h2, b2)" by (cases "getKeyBytes r (mk_heap d)")
    with getKeyBytes_key [OF key(1) h2] key(2) show ?thesis
      by (simp add: MockDekClient_def on_mock_heap_def)
  qed
  with enc show ?thesis
    by (simp add: MockDekClient_def h(2))
qed

end

sublocale dek_codec \<subseteq> dek_store "MockDekClient stringify parse" "mock_dek_inv stringify" mock_dek_le mock_dek_live
proof
  fix c d e :: "'k mock_dek_client"
  show "mock_dek_le c c" by simp
  show "mock_dek_le c d \<Longrightarrow> mock_dek_le d e \<Longrightarrow> mock_dek_le c e" by (rule mock_dek_le_trans)
next
  fix c d :: "'k mock_dek_client" and r
  assume "mock_dek_le c d" "mock_dek_live c r"
  then show "mock_dek_live d r \<and>
      dek_version (dc_dek (MockDekClient stringify parse) d r) = dek_version (dc_dek (MockDekClient stringify parse) c r) \<and>
      encryptedKeyMaterial (dc_dek (MockDekClient stringify parse) d r) = encryptedKeyMaterial (dc_dek (MockDekClient stringify parse) c r)"
    by (auto simp: mock_dek_le_def mock_dek_live_def MockDekClient_def dek_le_def)
next
  fix c c' :: "'k mock_dek_client" and n t i sh ps doc ctx res
  assume "mock_dek_inv stringify c" "dc_registerKek (MockDekClient stringify parse) n t i sh ps doc ctx c = (c', res)"
  then show "mock_dek_inv stringify c' \<and> mock_dek_le c c'"
    by (auto simp: MockDekClient_def registerKek_mock_def newKek_def mock_dek_inv_def mock_dek_le_def Let_def split: option.splits if_splits)
next
  fix c c' d :: "'k mock_dek_client" and n t i sh ps doc ctx kek
  assume "mock_dek_inv stringify c" "dc_registerKek (MockDekClient stringify parse) n t i sh ps doc ctx c = (c', Inr kek)"
    and d: "mock_dek_inv stringify d" "mock_dek_le c' d"
  then have "jm_get (mk_keks c') (stringify (KKek n False ctx)) = Some kek"
    by (auto simp: MockDekClient_def registerKek_mock_def Let_def split: option.splits)
  with d show "\<exists>d'. dc_getKek (MockDekClient stringify parse) n False ctx d = (d', Inr kek)"
    by (auto simp: MockDekClient_def getKek_mock_def mock_dek_inv_def mock_dek_le_def)
next
  fix c c' :: "'k mock_dek_client" and n del ctx res
  assume "mock_dek_inv stringify c" "dc_getKek (MockDekClient stringify parse) n del ctx c = (c', res)"
  then show "mock_dek_inv stringify c' \<and> mock_dek_le c c'"
    by (simp add: MockDekClient_def getKek_mock_def)
next
  fix c c' d :: "'k mock_dek_client" and n ctx kek
  assume "mock_dek_inv stringify c" "dc_getKek (MockDekClient stringify parse) n False ctx c = (c', Inr kek)"
    and "mock_dek_inv stringify d" "mock_dek_le c' d"
  then show "\<exists>d'. dc_getKek (MockDekClient stringify parse) n False ctx d = (d', Inr kek)"
    by (auto simp: MockDekClient_def getKek_mock_def mock_dek_le_def split: option.splits if_splits)
next
  fix c c' :: "'k mock_dek_client" and v n s a m res
  assume "mock_dek_inv stringify c" "dc_registerDek (MockDekClient stringify parse) n s a v m c = (c', res)"
  then show "mock_dek_inv stringify c' \<and> mock_dek_le c c'"
    using mock_registerDek(1) by (simp add: MockDekClient_def)
next
  fix c c' :: "'k mock_dek_client" and v n s a m r
  assume inv: "mock_dek_inv stringify c" and v: "0 < v"
    and "dc_registerDek (MockDekClient stringify parse) n s a v m c = (c', Inr r)"
  then have reg: "registerDek_mock stringify n s a v m c = (c', Inr r)"
    by (simp add: MockDekClient_def)
  note entry = mock_registerDek(2) [OF inv reg refl]
  from v show "mock_dek_live c' r \<and> dek_version (dc_dek (MockDekClient stringify parse) c' r) = v \<and>
      (\<forall>d. mock_dek_inv stringify d \<longrightarrow> mock_dek_le c' d \<longrightarrow>
         (\<exists>d'. dc_getDek (MockDekClient stringify parse) n s a v True d = (d', Inr r)))"
    using mock_entry [OF conjunct1 [OF mock_registerDek(1) [OF inv reg]] entry] mock_getDek_again [OF entry]
    by (auto simp: MockDekClient_def mock_dek_live_def)
next
  fix c c' :: "'k mock_dek_client" and n s a v del res
  assume inv: "mock_dek_inv stringify c" and "dc_getDek (MockDekClient stringify parse) n s a v del c = (c', res)"
  then have get: "getDek_mock stringify parse n s a v del c = (c', res)"
    by (simp add: MockDekClient_def)
  show "mock_dek_inv stringify c' \<and> mock_dek_le c c' \<and> (\<forall>r. res = Inr r \<longrightarrow> mock_dek_live c' r)"
    using mock_getDek [OF inv get] mock_entry(1) [OF inv] inv by (auto simp: mock_dek_live_def)
next
  fix c c' :: "'k mock_dek_client" and n s a v del r
  assume inv: "mock_dek_inv stringify c" and "dc_getDek (MockDekClient stringify parse) n s a v del c = (c', Inr r)"
    and v: "v = -1 \<or> 0 < v"
  then have get: "getDek_mock stringify parse n s a v del c = (c', Inr r)"
    by (simp add: MockDekClient_def)
  obtain v' where entry: "jm_get (mk_deks c) (stringify (KDek n s v' a False)) = Some r" and v': "if v = -1 then 0 < v' else v' = v"
    using mock_getDek(2) [OF inv get refl] by blast
  have pos: "0 < v'" using v v' by (auto split: if_splits)
  show "0 < dek_version (dc_dek (MockDekClient stringify parse) c' r) \<and>
      (0 < v \<longrightarrow> dek_version (dc_dek (MockDekClient stringify parse) c' r) = v) \<and>
      (\<forall>d. mock_dek_inv stringify d \<longrightarrow> mock_dek_le c' d \<longrightarrow>
         (\<exists>d'. dc_getDek (MockDekClient stringify parse) n s a (dek_version (dc_dek (MockDekClient stringify parse) c' r)) True d = (d', Inr r)))"
    using mock_getDek(1) [OF inv get] mock_entry(2) [OF inv entry] mock_getDek_again [OF entry pos] pos v'
    by (auto simp: MockDekClient_def split: if_splits)
next
  fix c c' :: "'k mock_dek_client" and r res
  assume inv: "mock_dek_inv stringify c" and r: "mock_dek_live c r"
    and "dc_getDekEncryptedKeyMaterialBytes (MockDekClient stringify parse) r c = (c', res)"
  then show "mock_dek_inv stringify c' \<and> mock_dek_le c c' \<and>
      keyMaterial (dc_dek (MockDekClient stringify parse) c' r) = keyMaterial (dc_dek (MockDekClient stringify parse) c r) \<and>
      (\<forall>b. res = Inr (Some b) \<longrightarrow> \<not> falsy (encryptedKeyMaterial (dc_dek (MockDekClient stringify parse) c' r)))"
    by (rule mock_encrypted_step)
next
  fix c c' :: "'k mock_dek_client" and r res
  assume inv: "mock_dek_inv stringify c" and r: "mock_dek_live c r"
    and "dc_getDekKeyMaterialBytes (MockDekClient stringify parse) r c = (c', res)"
  then show "mock_dek_inv stringify c' \<and> mock_dek_le c c' \<and>
      (res = Inr None \<longrightarrow> falsy (keyMaterial (dc_dek (MockDekClient stringify parse) c' r)))"
    by (rule mock_key_step)
next
  fix c c' :: "'k mock_dek_client" and r b
  assume inv: "mock_dek_inv stringify c" and r: "mock_dek_live c r"
    and "dc_getDekKeyMaterialBytes (MockDekClient stringify parse) r c = (c', Inr (Some b))"
  then show "encryptedKeyMaterial (dc_dek (MockDekClient stringify parse) c' r) \<noteq> None \<and>
      (\<forall>d. mock_dek_inv stringify d \<longrightarrow> mock_dek_le c' d \<longrightarrow>
         (\<exists>d'. dc_getDekKeyMaterialBytes (MockDekClient stringify parse) r d = (d', Inr (Some b))))"
    by (rule mock_key_found)
next
  fix c c' :: "'k mock_dek_client" and r b res
  assume inv: "mock_dek_inv stringify c" and r: "mock_dek_live c r"
    and m: "falsy (keyMaterial (dc_dek (MockDekClient stringify parse) c r))"
      "\<not> falsy (encryptedKeyMaterial (dc_dek (MockDekClient stringify parse) c r))"
    and "dc_setDekKeyMaterial (MockDekClient stringify parse) r b c = (c', res)"
  then have c': "c' = c\<lparr>mk_heap := (mk_heap c)[r := (mk_heap c ! r)\<lparr>keyMaterial := Some (base64Encode b)\<rparr>]\<rparr>"
    by (simp add: MockDekClient_def on_mock_heap_def setKeyMaterial_def)
  show "mock_dek_inv stringify c' \<and> mock_dek_le c c'"
    unfolding c' using m r by (intro update_object [OF inv]) (auto simp: MockDekClient_def mock_dek_live_def dek_le_def dek_key_def)
qed

interpretation plain_dek: dek_codec "id :: dek_json \<Rightarrow> dek_json" id
  by unfold_locales simp

end
