(* ===== verification/Encryption.thy ===== *)
theory Encryption
  imports Rule_Context Schema_Id Kms_Facts Dek_Registry
begin

text \<open>
  \<open>rules/encryption/encrypt-executor.ts\<close>: the executor that encrypts fields when a message is written and
  decrypts them when it is read. A data encryption key is found in the registry or created, kept there
  wrapped by a key management service, and replaced when it has expired.

  A value comes with the type of its field (\<open>as string\<close>, \<open>as Buffer\<close>): it is a string, a buffer, or of a type
  that is not encrypted. The state of a run of a transform is the client of the registry, the global
  registry of key management services, the world, and the key encryption key the transform has read.
\<close>

section \<open>Numbers given as text\<close>

text \<open>The value of \<open>Number(text)\<close>, exact where a double would be rounded.\<close>

datatype js_number = NaN | PosInf | NegInf | Fin rat

definition digit_of :: "nat \<Rightarrow> char \<Rightarrow> nat option" where
  "digit_of base c = (case hex_value (of_char c) of Some d \<Rightarrow> if d < base then Some d else None | None \<Rightarrow> None)"

definition digits_value :: "nat \<Rightarrow> string \<Rightarrow> nat" where
  "digits_value base ds = foldl (\<lambda>v d. v * base + d) 0 (List.map_filter (digit_of base) ds)"

definition all_digits :: "nat \<Rightarrow> string \<Rightarrow> bool" where
  "all_digits base ds \<longleftrightarrow> ds \<noteq> [] \<and> (\<forall>c \<in> set ds. digit_of base c \<noteq> None)"

definition js_trim :: "string \<Rightarrow> string" where
  "js_trim s = (let sp = (\<lambda>c. js_space (of_char c)) in rev (dropWhile sp (rev (dropWhile sp s))))"

definition is_digit :: "char \<Rightarrow> bool" where
  "is_digit c \<longleftrightarrow> digit_of 10 c \<noteq> None"

definition power_of_ten :: "int \<Rightarrow> rat" where
  "power_of_ten e = (if e \<ge> 0 then 10 ^ nat e else 1 / 10 ^ nat (- e))"

definition unsigned_decimal :: "string \<Rightarrow> rat option" where
  "unsigned_decimal s =
     (let ip = takeWhile is_digit s; r1 = dropWhile is_digit s;
          fp = (if r1 \<noteq> [] \<and> hd r1 = CHR ''.'' then takeWhile is_digit (tl r1) else []);
          r2 = (if r1 \<noteq> [] \<and> hd r1 = CHR ''.'' then dropWhile is_digit (tl r1) else r1);
          mantissa = of_nat (digits_value 10 (ip @ fp)) * power_of_ten (- int (length fp))
      in if ip @ fp = [] then None
         else if r2 = [] then Some mantissa
         else if hd r2 = CHR ''e'' \<or> hd r2 = CHR ''E'' then
           let r3 = tl r2;
               ds = (if r3 \<noteq> [] \<and> (hd r3 = CHR ''-'' \<or> hd r3 = CHR ''+'') then tl r3 else r3);
               e = int (digits_value 10 ds)
           in if all_digits 10 ds
              then Some (mantissa * power_of_ten (if r3 \<noteq> [] \<and> hd r3 = CHR ''-'' then - e else e)) else None
         else None)"

definition signed_decimal :: "string \<Rightarrow> js_number" where
  "signed_decimal s =
     (let neg = (s \<noteq> [] \<and> hd s = CHR ''-'');
          t = (if s \<noteq> [] \<and> (hd s = CHR ''-'' \<or> hd s = CHR ''+'') then tl s else s)
      in if t = ''Infinity'' then (if neg then NegInf else PosInf)
         else case unsigned_decimal t of None \<Rightarrow> NaN | Some q \<Rightarrow> Fin (if neg then - q else q))"

definition toNumber :: "string \<Rightarrow> js_number" where
  "toNumber s =
     (let t = js_trim s;
          radix = (\<lambda>base. if all_digits base (drop 2 t) then Fin (of_nat (digits_value base (drop 2 t))) else NaN)
      in if t = [] then Fin 0
         else if take 2 t \<in> {''0x'', ''0X''} then radix 16
         else if take 2 t \<in> {''0o'', ''0O''} then radix 8
         else if take 2 t \<in> {''0b'', ''0B''} then radix 2
         else signed_decimal t)"

fun num_negative :: "js_number \<Rightarrow> bool" where
  "num_negative (Fin q) \<longleftrightarrow> q < 0"
| "num_negative NegInf \<longleftrightarrow> True"
| "num_negative n \<longleftrightarrow> False"

fun num_positive :: "js_number \<Rightarrow> bool" where
  "num_positive (Fin q) \<longleftrightarrow> q > 0"
| "num_positive PosInf \<longleftrightarrow> True"
| "num_positive n \<longleftrightarrow> False"

fun num_at_most :: "js_number \<Rightarrow> rat \<Rightarrow> bool" where
  "num_at_most (Fin q) x \<longleftrightarrow> q \<le> x"
| "num_at_most NegInf x \<longleftrightarrow> True"
| "num_at_most n x \<longleftrightarrow> False"

section \<open>Contexts and identifiers\<close>

definition contextFor :: "string \<Rightarrow> string option" where
  "contextFor subject =
     (if startsWith subject '':.'' then
        let rest = drop 2 subject;
            context = (if CHR '':'' \<in> set rest
                       then js_slice 1 (length (takeWhile (\<lambda>c. c \<noteq> CHR '':'') rest) + 2) subject
                       else drop 1 subject)
        in if context = ''.'' then None else Some context
      else None)"

record kek_id =
  ki_name :: string
  ki_deleted :: bool
  ki_context :: "string option"

record dek_id =
  di_kekName :: string
  di_subject :: string
  di_version :: "int option"
  di_algorithm :: "string option"
  di_deleted :: bool

section \<open>The executor\<close>

record ('cfg, 'c) executor =
  exec_client :: "('cfg \<times> 'c) option"
  exec_config :: "(string, string) jsmap option"

definition newEncryptionExecutor :: "('cfg, 'c) executor" where
  "newEncryptionExecutor = \<lparr>exec_client = None, exec_config = None\<rparr>"

text \<open>The loop over the entries of the new configuration; the message of the error is not a template.\<close>

fun mergeConfig :: "(string \<times> string) list \<Rightarrow> ((string, string) jsmap, unit) meth" where
  "mergeConfig [] m = (m, Inr ())"
| "mergeConfig ((key, val) # es) m =
     (case jm_get m key of
        Some v \<Rightarrow> if v \<noteq> val then (m, Inl (RuleError ''rule config key already set: {key}'')) else mergeConfig es m
      | None \<Rightarrow> mergeConfig es (jm_set key val m))"

definition configure ::
    "('cfg \<Rightarrow> 'c) \<Rightarrow> 'cfg \<Rightarrow> (string, string) jsmap option \<Rightarrow> (('cfg, 'c) executor, unit) meth" where
  "configure mkClient clientConfig config e =
     (if (case exec_client e of Some (cfg, c) \<Rightarrow> cfg \<noteq> clientConfig | None \<Rightarrow> False)
      then (e, Inl (RuleError ''executor already configured''))
      else let e1 = (if exec_client e = None then e\<lparr>exec_client := Some (clientConfig, mkClient clientConfig)\<rparr> else e)
           in case exec_config e1 of
                None \<Rightarrow> (e1\<lparr>exec_config := Some (case config of Some m \<Rightarrow> m | None \<Rightarrow> [])\<rparr>, Inr ())
              | Some m \<Rightarrow> (case config of
                             None \<Rightarrow> (e1, Inr ())
                           | Some entries \<Rightarrow> (case mergeConfig entries m of (m', r) \<Rightarrow> (e1\<lparr>exec_config := Some m'\<rparr>, r))))"

definition getCryptor :: "'m rule_context \<Rightarrow> dek_format option" where
  "getCryptor ctx =
     (case getParameter ctx ''encrypt.dek.algorithm'' of None \<Rightarrow> Some AES256_GCM | Some s \<Rightarrow> DekFormat s)"

definition getKekName :: "'m rule_context \<Rightarrow> string result" where
  "getKekName ctx =
     (case getParameter ctx ''encrypt.kek.name'' of
        None \<Rightarrow> Inl (RuleError ''no kek name found'')
      | Some n \<Rightarrow> if n = [] then Inl (RuleError ''empty kek name'') else Inr n)"

definition getDekExpiryDays :: "'m rule_context \<Rightarrow> js_number result" where
  "getDekExpiryDays ctx =
     (case getParameter ctx ''encrypt.dek.expiry.days'' of
        None \<Rightarrow> Inr (Fin 0)
      | Some s \<Rightarrow>
          let expiryDays = toNumber s
          in if expiryDays = NaN then Inl (RuleError ''invalid expiry days'')
             else if num_negative expiryDays then Inl (RuleError ''negative expiry days'')
             else Inr expiryDays)"

record enc_transform =
  tr_dekFormat :: "dek_format option"
  tr_kekName :: string
  tr_dekExpiryDays :: js_number

definition newTransform :: "'m rule_context \<Rightarrow> enc_transform result" where
  "newTransform ctx =
     res_bind (getKekName ctx) (\<lambda>kekName.
     res_bind (getDekExpiryDays ctx) (\<lambda>days.
       Inr \<lparr>tr_dekFormat = getCryptor ctx, tr_kekName = kekName, tr_dekExpiryDays = days\<rparr>))"

section \<open>State and environment of a transform\<close>

record ('c, 'k, 'w) enc_env =
  ee_client :: "'c dek_client"
  ee_crypto :: "('k, 'w) crypto"
  ee_now :: "'w \<Rightarrow> int"
  ee_config :: "(string, string) jsmap"

record ('c, 'w) enc_state =
  es_client :: 'c
  es_kms :: "'w kms_registry"
  es_world :: 'w
  es_kek :: "kek option"

type_synonym ('c, 'w, 'a) enc_meth = "(('c, 'w) enc_state, 'a) meth"

definition on_client :: "('c, 'a) meth \<Rightarrow> ('c, 'w, 'a) enc_meth" where
  "on_client m s = (case m (es_client s) of (c, r) \<Rightarrow> (s\<lparr>es_client := c\<rparr>, r))"

definition on_world :: "('w, 'a) meth \<Rightarrow> ('c, 'w, 'a) enc_meth" where
  "on_world m s = (case m (es_world s) of (w, r) \<Rightarrow> (s\<lparr>es_world := w\<rparr>, r))"

definition on_kms :: "('w kms_registry, 'a) meth \<Rightarrow> ('c, 'w, 'a) enc_meth" where
  "on_kms m s = (case m (es_kms s) of (reg, r) \<Rightarrow> (s\<lparr>es_kms := reg\<rparr>, r))"

section \<open>Wrapping keys\<close>

record kms_wrapper =
  kw_config :: "(string, string) jsmap"
  kw_kek :: kek
  kw_kekId :: string
  kw_kmsKeyIds :: "string list"

definition getKmsKeyIds :: "(string, string) jsmap \<Rightarrow> kek \<Rightarrow> string list" where
  "getKmsKeyIds config kek =
     (let fromProps = (case kmsProps kek of None \<Rightarrow> None | Some ps \<Rightarrow> map_of ps ''encrypt.alternate.kms.key.ids'');
          alternate = (case fromProps of Some a \<Rightarrow> Some a | None \<Rightarrow> jm_get config ''encrypt.alternate.kms.key.ids'')
      in undefined_str (kmsKeyId kek) #
         (case alternate of None \<Rightarrow> [] | Some a \<Rightarrow> map js_trim (split_on (CHR '','') a)))"

definition newKmsClientWrapper :: "(string, string) jsmap \<Rightarrow> kek \<Rightarrow> kms_wrapper" where
  "newKmsClientWrapper config kek =
     \<lparr>kw_config = config, kw_kek = kek, kw_kekId = undefined_str (kmsType kek) @ ''://'' @ undefined_str (kmsKeyId kek),
      kw_kmsKeyIds = getKmsKeyIds config kek\<rparr>"

definition getAeadConfig :: "kms_wrapper \<Rightarrow> (string, string) jsmap" where
  "getAeadConfig kw =
     (case kmsProps (kw_kek kw) of
        None \<Rightarrow> kw_config kw
      | Some ps \<Rightarrow> fold (\<lambda>(key, val). jm_set key val) ps (kw_config kw))"

definition wrapper_supported :: "kms_wrapper \<Rightarrow> string \<Rightarrow> bool" where
  "wrapper_supported kw keyUri \<longleftrightarrow> kw_kekId kw = keyUri"

text \<open>The loop over the key identifiers, for either operation of a client.\<close>

fun tryKeys ::
    "string \<Rightarrow> ('w kms_client \<Rightarrow> ('w, bytes) meth) \<Rightarrow> (string, string) jsmap \<Rightarrow> string \<Rightarrow> string list
     \<Rightarrow> ('c, 'w, bytes) enc_meth" where
  "tryKeys verb use config ktype [] = m_throw (RuleError (''no KEK found for '' @ verb @ ''ion''))"
| "tryKeys verb use config ktype (i # is) =
     m_catch (m_bind (on_kms (getKmsClient config ktype i)) (\<lambda>client. on_world (use client)))
       (\<lambda>e. if is = [] then m_throw (RuleError (''failed to '' @ verb @ '' key with all KMS keys: '' @ err_string e))
            else tryKeys verb use config ktype is)"

definition wrapper_encrypt :: "kms_wrapper \<Rightarrow> bytes \<Rightarrow> ('c, 'w, bytes) enc_meth" where
  "wrapper_encrypt kw rawKey =
     tryKeys ''encrypt'' (\<lambda>client. kc_encrypt client rawKey) (getAeadConfig kw) (undefined_str (kmsType (kw_kek kw))) (kw_kmsKeyIds kw)"

definition wrapper_decrypt :: "kms_wrapper \<Rightarrow> bytes option \<Rightarrow> ('c, 'w, bytes) enc_meth" where
  "wrapper_decrypt kw encryptedKey =
     tryKeys ''decrypt'' (\<lambda>client. kc_decrypt client encryptedKey) (getAeadConfig kw) (undefined_str (kmsType (kw_kek kw))) (kw_kmsKeyIds kw)"

section \<open>Key encryption keys\<close>

fun rest_status :: "js_error \<Rightarrow> int option" where
  "rest_status (RestError m status code) = Some status"
| "rest_status e = None"

definition null_on :: "int \<Rightarrow> string \<Rightarrow> ('s, 'a) meth \<Rightarrow> ('s, 'a option) meth" where
  "null_on status context m =
     m_catch (m_bind m (\<lambda>x. m_return (Some x)))
       (\<lambda>err. if rest_status err = Some status then m_return None else m_throw (RuleError (context @ '': '' @ err_string err)))"

definition retrieveKekFromRegistry :: "('c, 'k, 'w) enc_env \<Rightarrow> kek_id \<Rightarrow> ('c, 'w, kek option) enc_meth" where
  "retrieveKekFromRegistry env key =
     null_on 404 (''could not get kek '' @ ki_name key)
       (on_client (dc_getKek (ee_client env) (ki_name key) (ki_deleted key) (ki_context key)))"

definition storeKekToRegistry ::
    "('c, 'k, 'w) enc_env \<Rightarrow> kek_id \<Rightarrow> string \<Rightarrow> string \<Rightarrow> bool \<Rightarrow> ('c, 'w, kek option) enc_meth" where
  "storeKekToRegistry env key ktype keyId shared =
     null_on 409 (''could not register kek '' @ ki_name key)
       (on_client (dc_registerKek (ee_client env) (ki_name key) ktype keyId shared None None (ki_context key)))"

definition nonempty :: "string option \<Rightarrow> bool" where
  "nonempty s \<longleftrightarrow> s \<noteq> None \<and> s \<noteq> Some []"

definition checkKek :: "enc_transform \<Rightarrow> string option \<Rightarrow> string option \<Rightarrow> kek \<Rightarrow> kek result" where
  "checkKek tr ktype keyId kek =
     (if nonempty ktype \<and> ktype \<noteq> kmsType kek
      then Inl (RuleError (''found '' @ tr_kekName tr @ '' with kms type '' @ undefined_str (kmsType kek) @
                  '' which differs from rule kms type '' @ the ktype))
      else if nonempty keyId \<and> keyId \<noteq> kmsKeyId kek
      then Inl (RuleError (''found '' @ tr_kekName tr @ '' with kms key id '' @ undefined_str (kmsKeyId kek) @
                  '' which differs from rule kms keyId '' @ the keyId))
      else Inr kek)"

definition noKek :: "enc_transform \<Rightarrow> string \<Rightarrow> string \<Rightarrow> js_error" where
  "noKek tr what doing = RuleError (''no '' @ what @ '' found for '' @ tr_kekName tr @ '' during '' @ doing)"

definition getOrCreateKek ::
    "('c, 'k, 'w) enc_env \<Rightarrow> enc_transform \<Rightarrow> 'm rule_context \<Rightarrow> ('c, 'w, kek) enc_meth" where
  "getOrCreateKek env tr ctx =
     (let isRead = (ctx_ruleMode ctx = READ);
          ktype = getParameter ctx ''encrypt.kms.type'';
          keyId = getParameter ctx ''encrypt.kms.key.id'';
          kekId = \<lparr>ki_name = tr_kekName tr, ki_deleted = False, ki_context = contextFor (ctx_subject ctx)\<rparr>
      in m_bind
           (m_bind (retrieveKekFromRegistry env kekId) (\<lambda>found.
              case found of
                Some kek \<Rightarrow> m_return kek
              | None \<Rightarrow>
                  if isRead then m_throw (noKek tr ''kek'' ''consume'')
                  else if \<not> nonempty ktype then m_throw (noKek tr ''kms type'' ''produce'')
                  else if \<not> nonempty keyId then m_throw (noKek tr ''kms key id'' ''produce'')
                  else m_bind (storeKekToRegistry env kekId (the ktype) (the keyId) False) (\<lambda>stored.
                       m_bind (case stored of Some kek \<Rightarrow> m_return (Some kek) | None \<Rightarrow> retrieveKekFromRegistry env kekId) (\<lambda>again.
                         case again of None \<Rightarrow> m_throw (noKek tr ''kek'' ''produce'') | Some kek \<Rightarrow> m_return kek))))
           (\<lambda>kek. m_lift (checkKek tr ktype keyId kek)))"

definition getKek :: "('c, 'k, 'w) enc_env \<Rightarrow> enc_transform \<Rightarrow> 'm rule_context \<Rightarrow> ('c, 'w, kek) enc_meth" where
  "getKek env tr ctx s =
     (case es_kek s of
        Some kek \<Rightarrow> (s, Inr kek)
      | None \<Rightarrow> m_bind (getOrCreateKek env tr ctx) (\<lambda>kek s'. (s'\<lparr>es_kek := Some kek\<rparr>, Inr kek)) s)"

section \<open>Data encryption keys\<close>

definition isDekRotated :: "enc_transform \<Rightarrow> bool" where
  "isDekRotated tr \<longleftrightarrow> num_positive (tr_dekExpiryDays tr)"

definition default_version :: "int option \<Rightarrow> int" where
  "default_version v = (case v of None \<Rightarrow> 1 | Some n \<Rightarrow> if n = 0 then 1 else n)"

definition retrieveDekFromRegistry :: "('c, 'k, 'w) enc_env \<Rightarrow> dek_id \<Rightarrow> ('c, 'w, dek_ref option) enc_meth" where
  "retrieveDekFromRegistry env key =
     m_bind (null_on 404 (''could not get dek for kek '' @ di_kekName key @ '', subject '' @ di_subject key)
       (on_client (dc_getDek (ee_client env) (di_kekName key) (di_subject key) (di_algorithm key)
                     (default_version (di_version key)) (di_deleted key))))
       (\<lambda>dek s. (s, Inr (case dek of
                          None \<Rightarrow> None
                        | Some r \<Rightarrow> if encryptedKeyMaterial (dc_dek (ee_client env) (es_client s) r) \<noteq> None then Some r else None)))"

definition storeDekToRegistry :: "('c, 'k, 'w) enc_env \<Rightarrow> dek_id \<Rightarrow> bytes option \<Rightarrow> ('c, 'w, dek_ref option) enc_meth" where
  "storeDekToRegistry env key encryptedDek =
     null_on 409 (''could not register dek for kek '' @ di_kekName key @ '', subject '' @ di_subject key)
       (on_client (dc_registerDek (ee_client env) (di_kekName key) (di_subject key) (di_algorithm key)
                     (default_version (di_version key)) (map_option base64Encode encryptedDek)))"

definition createDek ::
    "('c, 'k, 'w) enc_env \<Rightarrow> dek_id \<Rightarrow> int option \<Rightarrow> bytes option \<Rightarrow> ('c, 'w, dek_ref) enc_meth" where
  "createDek env dekId newVersion encryptedDek =
     m_bind (storeDekToRegistry env (dekId\<lparr>di_version := newVersion\<rparr>) encryptedDek) (\<lambda>stored.
     m_bind (case stored of Some r \<Rightarrow> m_return (Some r) | None \<Rightarrow> retrieveDekFromRegistry env dekId) (\<lambda>dek.
       case dek of
         Some r \<Rightarrow> m_return r
       | None \<Rightarrow> m_throw (RuleError (''no dek found for '' @ di_kekName dekId @ '' during produce''))))"

definition MILLIS_IN_DAY :: rat where "MILLIS_IN_DAY = 24 * 60 * 60 * 1000"

text \<open>Without a time stamp the age is \<open>NaN\<close>, which is never enough.\<close>

definition isExpired ::
    "('c, 'k, 'w) enc_env \<Rightarrow> enc_transform \<Rightarrow> 'm rule_context \<Rightarrow> dek_ref option \<Rightarrow> ('c, 'w) enc_state \<Rightarrow> bool" where
  "isExpired env tr ctx dek s \<longleftrightarrow>
     ctx_ruleMode ctx \<noteq> READ \<and> num_positive (tr_dekExpiryDays tr) \<and>
     (case dek of
        None \<Rightarrow> False
      | Some r \<Rightarrow>
          (case dek_ts (dc_dek (ee_client env) (es_client s) r) of
             None \<Rightarrow> False
           | Some ts \<Rightarrow> num_at_most (tr_dekExpiryDays tr) (of_int (ee_now env (es_world s) - ts) / MILLIS_IN_DAY)))"

definition wrapNewKey :: "('c, 'k, 'w) enc_env \<Rightarrow> enc_transform \<Rightarrow> kek \<Rightarrow> ('c, 'w, bytes option) enc_meth" where
  "wrapNewKey env tr kek =
     (if kek_shared kek = Some True then m_return None
      else m_bind (on_world (generateKey (ee_crypto env) (tr_dekFormat tr))) (\<lambda>rawDek.
           m_bind (wrapper_encrypt (newKmsClientWrapper (ee_config env) kek) rawDek) (\<lambda>e. m_return (Some e))))"

definition unwrapKey :: "('c, 'k, 'w) enc_env \<Rightarrow> kek \<Rightarrow> dek_ref \<Rightarrow> ('c, 'w, dek_ref) enc_meth" where
  "unwrapKey env kek dek =
     m_bind (on_client (dc_getDekKeyMaterialBytes (ee_client env) dek)) (\<lambda>keyBytes.
       if keyBytes \<noteq> None then m_return dek
       else m_bind (on_client (dc_getDekEncryptedKeyMaterialBytes (ee_client env) dek)) (\<lambda>encryptedBytes.
            m_bind (wrapper_decrypt (newKmsClientWrapper (ee_config env) kek) encryptedBytes) (\<lambda>rawDek.
            m_bind (on_client (dc_setDekKeyMaterial (ee_client env) dek rawDek)) (\<lambda>_. m_return dek))))"

definition dekIdFor :: "enc_transform \<Rightarrow> 'm rule_context \<Rightarrow> int option \<Rightarrow> dek_id" where
  "dekIdFor tr ctx version =
     \<lparr>di_kekName = tr_kekName tr, di_subject = ctx_subject ctx, di_version = Some (default_version version),
      di_algorithm = map_option dek_format_str (tr_dekFormat tr), di_deleted = (ctx_ruleMode ctx = READ)\<rparr>"

definition replaceDek ::
    "('c, 'k, 'w) enc_env \<Rightarrow> enc_transform \<Rightarrow> 'm rule_context \<Rightarrow> kek \<Rightarrow> dek_id \<Rightarrow> dek_ref option \<Rightarrow> bool \<Rightarrow> ('c, 'w, dek_ref) enc_meth" where
  "replaceDek env tr ctx kek dekId dek expired =
     (if ctx_ruleMode ctx = READ then m_throw (noKek tr ''dek'' ''consume'')
      else m_bind (wrapNewKey env tr kek) (\<lambda>encryptedDek s.
        let newVersion = (if expired then Some (dek_version (dc_dek (ee_client env) (es_client s) (the dek)) + 1) else None)
        in m_catch (createDek env dekId newVersion encryptedDek)
             (\<lambda>err. case dek of None \<Rightarrow> m_throw err | Some r \<Rightarrow> m_return r) s))"

definition getOrCreateDek ::
    "('c, 'k, 'w) enc_env \<Rightarrow> enc_transform \<Rightarrow> 'm rule_context \<Rightarrow> int option \<Rightarrow> ('c, 'w, dek_ref) enc_meth" where
  "getOrCreateDek env tr ctx version =
     m_bind (getKek env tr ctx) (\<lambda>kek.
     m_bind (retrieveDekFromRegistry env (dekIdFor tr ctx version)) (\<lambda>dek.
     m_bind (\<lambda>s. let expired = isExpired env tr ctx dek s
                 in if dek = None \<or> expired then replaceDek env tr ctx kek (dekIdFor tr ctx version) dek expired s
                    else (s, Inr (the dek)))
       (\<lambda>r. unwrapKey env kek r)))"

section \<open>Encrypting and decrypting values\<close>

datatype field_value = FString ustring | FBytes bytes | FOther field_type

fun field_type_of :: "field_value \<Rightarrow> field_type" where
  "field_type_of (FString s) = F_STRING"
| "field_type_of (FBytes b) = F_BYTES"
| "field_type_of (FOther t) = t"

fun toBytes :: "field_value \<Rightarrow> bytes option" where
  "toBytes (FBytes b) = Some b"
| "toBytes (FString s) = Some (textEncode s)"
| "toBytes (FOther t) = None"

text \<open>\<open>toObject\<close> for the type of the given field; \<open>None\<close> is \<open>null\<close>.\<close>

fun toObject :: "field_value \<Rightarrow> bytes \<Rightarrow> field_value option" where
  "toObject (FBytes _) b = Some (FBytes b)"
| "toObject (FString _) b = Some (FString (bufferToString b))"
| "toObject (FOther t) b = None"

definition prefixVersion :: "int \<Rightarrow> bytes \<Rightarrow> bytes result" where
  "prefixVersion version ciphertext =
     res_bind (writeInt32BE version) (\<lambda>versionBuf. Inr (concat [MAGIC_BYTE_V0, versionBuf, ciphertext]))"

definition extractVersion :: "bytes \<Rightarrow> int result" where
  "extractVersion ciphertext =
     (let magicByte = js_slice 0 1 ciphertext
      in if magicByte \<noteq> MAGIC_BYTE_V0
         then Inl (RuleError (''Message encoded with magic byte '' @ buffer_json magicByte @ '', expected '' @ buffer_json MAGIC_BYTE_V0))
         else readInt32BE (js_slice 1 5 ciphertext))"

fun mode_str :: "rule_mode \<Rightarrow> string" where
  "mode_str UPGRADE = ''UPGRADE''" | "mode_str DOWNGRADE = ''DOWNGRADE''" | "mode_str UPDOWN = ''UPDOWN''"
| "mode_str WRITE = ''WRITE''" | "mode_str READ = ''READ''" | "mode_str WRITEREAD = ''WRITEREAD''"

definition transform_write ::
    "('c, 'k, 'w) enc_env \<Rightarrow> enc_transform \<Rightarrow> 'm rule_context \<Rightarrow> field_value \<Rightarrow> ('c, 'w, field_value option) enc_meth" where
  "transform_write env tr ctx fieldValue =
     (case toBytes fieldValue of
        None \<Rightarrow> m_throw (RuleError (''type '' @ typeName (field_type_of fieldValue) @ '' not supported for encryption''))
      | Some plaintext \<Rightarrow>
          m_bind (getOrCreateDek env tr ctx (if isDekRotated tr then Some (-1) else None)) (\<lambda>dek.
          m_bind (on_client (dc_getDekKeyMaterialBytes (ee_client env) dek)) (\<lambda>keyBytes.
          m_bind (on_world (cryptor_encrypt (ee_crypto env) (tr_dekFormat tr) keyBytes plaintext)) (\<lambda>encrypted s.
          m_bind (m_lift (if isDekRotated tr
                          then prefixVersion (dek_version (dc_dek (ee_client env) (es_client s) dek)) encrypted
                          else Inr encrypted)) (\<lambda>ciphertext.
            m_return (if field_type_of fieldValue = F_STRING then Some (FString (ascii (base64Encode ciphertext)))
                      else toObject fieldValue ciphertext)) s))))"

definition transform_read ::
    "('c, 'k, 'w) enc_env \<Rightarrow> enc_transform \<Rightarrow> 'm rule_context \<Rightarrow> field_value \<Rightarrow> ('c, 'w, field_value option) enc_meth" where
  "transform_read env tr ctx fieldValue =
     (case (case fieldValue of FString s \<Rightarrow> Some (base64Decode s) | _ \<Rightarrow> toBytes fieldValue) of
        None \<Rightarrow> m_return (Some fieldValue)
      | Some c \<Rightarrow>
          m_bind (m_lift (if isDekRotated tr then res_bind (extractVersion c) (\<lambda>v. Inr (Some v, drop 5 c)) else Inr (None, c)))
            (\<lambda>(version, ciphertext).
          m_bind (getOrCreateDek env tr ctx version) (\<lambda>dek.
          m_bind (on_client (dc_getDekKeyMaterialBytes (ee_client env) dek)) (\<lambda>keyBytes.
          m_bind (on_world (cryptor_decrypt (ee_crypto env) (tr_dekFormat tr) keyBytes ciphertext)) (\<lambda>plaintext.
            m_return (toObject fieldValue plaintext))))))"

text \<open>\<open>EncryptionExecutorTransform.transform\<close>; \<open>None\<close> is \<open>null\<close>.\<close>

definition transform ::
    "('c, 'k, 'w) enc_env \<Rightarrow> enc_transform \<Rightarrow> 'm rule_context \<Rightarrow> field_value option \<Rightarrow> ('c, 'w, field_value option) enc_meth" where
  "transform env tr ctx fieldValue =
     (case fieldValue of
        None \<Rightarrow> m_return None
      | Some v \<Rightarrow>
          if ctx_ruleMode ctx = WRITE then transform_write env tr ctx v
          else if ctx_ruleMode ctx = READ then transform_read env tr ctx v
          else m_throw (RuleError (''unsupported rule mode '' @ mode_str (ctx_ruleMode ctx))))"

text \<open>
  \<open>EncryptionExecutor.transform\<close>, for a whole payload, and \<open>FieldEncryptionExecutorTransform.transform\<close>, for a
  field with one transform per message. A new transform has not read its key encryption key.
\<close>

definition executor_transform ::
    "('c, 'k, 'w) enc_env \<Rightarrow> 'm rule_context \<Rightarrow> bytes option \<Rightarrow> ('c, 'w, field_value option) enc_meth" where
  "executor_transform env ctx msg s =
     (case newTransform ctx of
        Inl e \<Rightarrow> (s, Inl e)
      | Inr tr \<Rightarrow> transform env tr ctx (map_option FBytes msg) (s\<lparr>es_kek := None\<rparr>))"

definition field_transforms ::
    "('c, 'k, 'w) enc_env \<Rightarrow> enc_transform \<Rightarrow> 'm rule_context \<Rightarrow> 'm field_context \<Rightarrow> field_value option \<Rightarrow> ('c, 'w, field_value option) enc_meth" where
  "field_transforms env tr ctx fieldCtx fieldValue = transform env tr ctx fieldValue"

end
