(* ===== verification/Encryption_Roundtrip.thy ===== *)
theory Encryption_Roundtrip
  imports Encryption Dek_Store
begin

text \<open>
  A value that the executor encrypted is decrypted to the same value, after any further messages, whatever
  keys were rotated in between. The proof runs the executor over the contract \<open>dek_store\<close> of its client; a
  triple says what an operation leaves behind, on success and on failure. The theorem for the in-memory
  client is at the end.
\<close>

section \<open>Services that refuse nothing\<close>

text \<open>Asked to decrypt \<open>null\<close>, a service fails.\<close>

definition refuses_null :: "'w kms_client \<Rightarrow> bool" where
  "refuses_null c \<longleftrightarrow> (\<forall>w. \<exists>w' e. kc_decrypt c None w = (w', Inl e))"

definition kms_ok :: "'w kms_registry \<Rightarrow> bool" where
  "kms_ok reg \<longleftrightarrow>
     (\<forall>c \<in> set (kmsClients reg). refuses_null c) \<and>
     (\<forall>d \<in> set (kmsDrivers reg). \<forall>config url c. kd_newKmsClient d config url = Inr c \<longrightarrow> refuses_null c)"

lemma find_member: "find P xs = Some x \<Longrightarrow> x \<in> set xs"
  by (auto simp: find_Some_iff)

lemma getKmsClient_ok:
  assumes ok: "kms_ok reg" and get: "getKmsClient config t i reg = (reg', res)"
  shows "kms_ok reg' \<and> (\<forall>c. res = Inr c \<longrightarrow> refuses_null c)"
proof (cases "findKmsClient (t @ ''://'' @ i) reg")
  case None
  show ?thesis
  proof (cases "res_bind (getKmsDriver (t @ ''://'' @ i) reg) (\<lambda>d. kd_newKmsClient d config (t @ ''://'' @ i))")
    case (Inr k)
    then obtain d where "d \<in> set (kmsDrivers reg)" "kd_newKmsClient d config (t @ ''://'' @ i) = Inr k"
      by (auto simp: res_bind_Inr_iff getKmsDriver_def dest: find_member split: option.splits)
    then have "refuses_null k" using ok by (auto simp: kms_ok_def)
    with None Inr get ok show ?thesis
      by (auto simp: getKmsClient_def registerKmsClient_def kms_ok_def Let_def)
  qed (use None get ok in \<open>auto simp: getKmsClient_def Let_def\<close>)
next
  case (Some k)
  then have "refuses_null k"
    using ok by (auto simp: findKmsClient_def kms_ok_def dest: find_member)
  with Some get ok show ?thesis
    by (auto simp: getKmsClient_def Let_def)
qed

lemma local_driver_refuses: "kd_newKmsClient (LocalKmsDriver cr getenv) config url = Inr c \<Longrightarrow> refuses_null c"
  using local_refuses_null by (fastforce simp: LocalKmsDriver_def refuses_null_def Let_def split: option.splits)

section \<open>Triples\<close>

lemma tryKeys_Nil: "tryKeys verb use config t [] = m_throw (RuleError (''no KEK found for '' @ verb @ ''ion''))"
  by (rule ext) simp

lemma tryKeys_Cons:
  "tryKeys verb use config t (i # is) =
     m_catch (m_bind (on_kms (getKmsClient config t i)) (\<lambda>client. on_world (use client)))
       (\<lambda>e. if is = [] then m_throw (RuleError (''failed to '' @ verb @ '' key with all KMS keys: '' @ err_string e))
            else tryKeys verb use config t is)"
  by (rule ext) simp

context dek_store
begin

definition ok :: "('c, 'w) enc_state \<Rightarrow> bool" where
  "ok s \<longleftrightarrow> inv (es_client s) \<and> kms_ok (es_kms s)"

definition extended :: "('c, 'w) enc_state \<Rightarrow> ('c, 'w) enc_state \<Rightarrow> bool" where
  "extended s s' \<longleftrightarrow> ok s' \<and> le (es_client s) (es_client s')"

definition triple :: "(('c, 'w) enc_state \<Rightarrow> bool) \<Rightarrow> ('c, 'w, 'a) enc_meth \<Rightarrow> ('a \<Rightarrow> ('c, 'w) enc_state \<Rightarrow> bool) \<Rightarrow> bool" where
  "triple P m Q \<longleftrightarrow> (\<forall>s s' res. ok s \<longrightarrow> P s \<longrightarrow> m s = (s', res) \<longrightarrow> extended s s' \<and> (\<forall>x. res = Inr x \<longrightarrow> Q x s'))"

text \<open>Facts about the content of the client that later states keep.\<close>

definition kept :: "(('c, 'w) enc_state \<Rightarrow> bool) \<Rightarrow> bool" where
  "kept P \<longleftrightarrow> (\<forall>s s'. P s \<longrightarrow> extended s s' \<longrightarrow> P s')"

lemma extended_refl: "ok s \<Longrightarrow> extended s s"
  by (simp add: extended_def le_refl)

lemma extended_trans: "extended s s' \<Longrightarrow> extended s' s'' \<Longrightarrow> extended s s''"
  by (auto simp: extended_def intro: le_trans)

lemma extended_ok: "extended s s' \<Longrightarrow> ok s'"
  by (simp add: extended_def)

lemma tripleI:
  "(\<And>s s' res. ok s \<Longrightarrow> P s \<Longrightarrow> m s = (s', res) \<Longrightarrow> extended s s' \<and> (\<forall>x. res = Inr x \<longrightarrow> Q x s')) \<Longrightarrow> triple P m Q"
  by (simp add: triple_def)

lemma tripleD: "triple P m Q \<Longrightarrow> ok s \<Longrightarrow> P s \<Longrightarrow> m s = (s', res) \<Longrightarrow> extended s s' \<and> (\<forall>x. res = Inr x \<longrightarrow> Q x s')"
  by (simp add: triple_def)

lemma triple_weaken: "triple P m Q \<Longrightarrow> (\<And>s. P' s \<Longrightarrow> P s) \<Longrightarrow> (\<And>x s. Q x s \<Longrightarrow> Q' x s) \<Longrightarrow> triple P' m Q'"
  unfolding triple_def by blast

lemma triple_return: "(\<And>s. P s \<Longrightarrow> Q x s) \<Longrightarrow> triple P (m_return x) Q"
  by (auto simp: triple_def extended_refl)

lemma triple_throw: "triple P (m_throw e) Q"
  by (auto simp: triple_def extended_refl)

lemma triple_lift: "(\<And>x s. r = Inr x \<Longrightarrow> P s \<Longrightarrow> Q x s) \<Longrightarrow> triple P (m_lift r) Q"
  by (auto simp: triple_def extended_refl)

lemma triple_bind:
  assumes "triple P m R" and "\<And>x. triple (R x) (f x) Q"
  shows "triple P (m_bind m f) Q"
proof (rule tripleI)
  fix s s' res
  assume s: "ok s" "P s" and eq: "m_bind m f s = (s', res)"
  obtain s1 r1 where m: "m s = (s1, r1)" by (cases "m s")
  note m1 = tripleD [OF assms(1) s m]
  show "extended s s' \<and> (\<forall>x. res = Inr x \<longrightarrow> Q x s')"
  proof (cases r1)
    case (Inl e)
    with eq m m1 show ?thesis by (auto simp: m_bind_def)
  next
    case (Inr x)
    with eq m have "f x s1 = (s', res)" by (simp add: m_bind_def)
    with tripleD [OF assms(2) [of x], of s1] m1 Inr show ?thesis
      using extended_ok extended_trans by blast
  qed
qed

lemma triple_catch:
  assumes "triple P m Q" and "kept P" and "\<And>e. triple P (h e) Q"
  shows "triple P (m_catch m h) Q"
proof (rule tripleI)
  fix s s' res
  assume s: "ok s" "P s" and eq: "m_catch m h s = (s', res)"
  obtain s1 r1 where m: "m s = (s1, r1)" by (cases "m s")
  note m1 = tripleD [OF assms(1) s m]
  show "extended s s' \<and> (\<forall>x. res = Inr x \<longrightarrow> Q x s')"
  proof (cases r1)
    case (Inl e)
    with eq m have "h e s1 = (s', res)" by (simp add: m_catch_def)
    moreover have "P s1" using assms(2) s(2) m1 by (auto simp: kept_def)
    ultimately show ?thesis
      using tripleD [OF assms(3) [of e], of s1] m1 extended_ok extended_trans by blast
  qed (use eq m m1 in \<open>simp add: m_catch_def\<close>)
qed

lemma triple_frame:
  assumes "triple P m Q" and "kept R"
  shows "triple (\<lambda>s. R s \<and> P s) m (\<lambda>x s. R s \<and> Q x s)"
  using assms unfolding triple_def kept_def by blast

lemma triple_pre: "(\<And>s. P s \<Longrightarrow> triple (\<lambda>t. t = s) m Q) \<Longrightarrow> triple P m Q"
  unfolding triple_def by blast

text \<open>Operations on the world and on the services leave the client alone.\<close>

lemma triple_world: "triple P (on_world m) (\<lambda>x s. True)"
  by (auto simp: triple_def on_world_def extended_def ok_def le_refl split: prod.splits)

lemma triple_kms: "triple P (on_kms (getKmsClient config t i)) (\<lambda>c s. refuses_null c)"
  by (rule tripleI) (auto simp: on_kms_def extended_def ok_def le_refl split: prod.splits dest: getKmsClient_ok)

lemma kept_True: "kept (\<lambda>s. True)"
  by (simp add: kept_def)

lemma triple_tryKeys: "triple (\<lambda>s. True) (tryKeys verb use config t is) (\<lambda>x s. True)"
proof (induction "is")
  case Nil
  show ?case unfolding tryKeys_Nil by (rule triple_throw)
next
  case (Cons i "is")
  have "triple (\<lambda>s. True) (m_bind (on_kms (getKmsClient config t i)) (\<lambda>client. on_world (use client))) (\<lambda>x s. True)"
    by (rule triple_bind [OF triple_kms triple_world])
  with Cons show ?case
    unfolding tryKeys_Cons by (auto intro!: triple_catch kept_True triple_throw)
qed

text \<open>No service decrypts \<open>null\<close>.\<close>

lemma tryKeys_null:
  "triple (\<lambda>s. True) (tryKeys verb (\<lambda>client. kc_decrypt client None) config t is) (\<lambda>x s. False)"
proof (induction "is")
  case Nil
  show ?case unfolding tryKeys_Nil by (rule triple_throw)
next
  case (Cons i "is")
  have "triple (\<lambda>s. refuses_null c) (on_world (kc_decrypt c None)) (\<lambda>x s. False)" for c :: "'w kms_client"
    by (rule tripleI) (auto simp: refuses_null_def on_world_def extended_def ok_def le_refl split: prod.splits, metis Inl_Inr_False prod.inject)
  then have "triple (\<lambda>s. True) (m_bind (on_kms (getKmsClient config t i)) (\<lambda>client. on_world (kc_decrypt client None))) (\<lambda>x s. False)"
    by (intro triple_bind [OF triple_kms])
  with Cons show ?case
    unfolding tryKeys_Cons by (auto intro!: triple_catch kept_True triple_throw)
qed

section \<open>What the executor leaves behind\<close>

lemma triple_client:
  assumes "\<And>c c' res. inv c \<Longrightarrow> P c \<Longrightarrow> m c = (c', res) \<Longrightarrow> inv c' \<and> le c c' \<and> (\<forall>x. res = Inr x \<longrightarrow> Q x c')"
  shows "triple (\<lambda>s. P (es_client s)) (on_client m) (\<lambda>x s. Q x (es_client s))"
  using assms by (intro tripleI) (auto simp: on_client_def extended_def ok_def split: prod.splits)

lemma triple_null_on:
  assumes "triple P m Q" and "kept P"
  shows "triple P (null_on status context m) (\<lambda>x s. \<forall>y. x = Some y \<longrightarrow> Q y s)"
  unfolding null_on_def
  by (intro triple_catch assms(2) triple_bind [OF assms(1)]) (auto intro!: triple_return triple_throw)

definition kek_found :: "string \<Rightarrow> string option \<Rightarrow> kek \<Rightarrow> ('c, 'w) enc_state \<Rightarrow> bool" where
  "kek_found n ctx kek s \<longleftrightarrow> (\<forall>d. inv d \<longrightarrow> le (es_client s) d \<longrightarrow> (\<exists>d'. dc_getKek cl n False ctx d = (d', Inr kek)))"

definition dek_found :: "string \<Rightarrow> string \<Rightarrow> string option \<Rightarrow> int \<Rightarrow> dek_ref \<Rightarrow> ('c, 'w) enc_state \<Rightarrow> bool" where
  "dek_found n sub a v r s \<longleftrightarrow>
     (let ver = dek_version (dc_dek cl (es_client s) r)
      in live (es_client s) r \<and> 0 < ver \<and> (v = 1 \<longrightarrow> ver = 1) \<and>
         (\<forall>d. inv d \<longrightarrow> le (es_client s) d \<longrightarrow> (\<exists>d'. dc_getDek cl n sub a ver True d = (d', Inr r))))"

lemma kept_kek_found: "kept (kek_found n ctx kek)"
  by (auto simp: kept_def kek_found_def extended_def intro: le_trans)

lemma kept_live: "kept (\<lambda>s. live (es_client s) r)"
  by (auto simp: kept_def extended_def dest: same_dek)

lemma kept_dek_found: "kept (dek_found n sub a v r)"
  unfolding kept_def
proof (intro allI impI)
  fix s s' :: "('c, 'w) enc_state"
  assume f: "dek_found n sub a v r s" and g: "extended s s'"
  have l: "le (es_client s) (es_client s')" using g by (simp add: extended_def)
  moreover have "live (es_client s) r" using f by (simp add: dek_found_def Let_def)
  ultimately show "dek_found n sub a v r s'"
    using f same_dek [OF l] le_trans [OF l] by (simp add: dek_found_def Let_def)
qed

lemma kept_imp: "(\<And>x. kept (Q x)) \<Longrightarrow> kept (\<lambda>s. \<forall>x. R x \<longrightarrow> Q x s)"
  unfolding kept_def by blast

lemma retrieveKek_triple:
  assumes client: "ee_client env = cl"
  shows "triple (\<lambda>s. True) (retrieveKekFromRegistry env \<lparr>ki_name = n, ki_deleted = False, ki_context = ctx\<rparr>)
    (\<lambda>x s. \<forall>kek. x = Some kek \<longrightarrow> kek_found n ctx kek s)"
  unfolding retrieveKekFromRegistry_def client kek_found_def kek_id.select_convs
  by (intro triple_null_on kept_True
      triple_client [where P = "\<lambda>c. True" and Q = "\<lambda>kek c. \<forall>d. inv d \<longrightarrow> le c d \<longrightarrow> (\<exists>d'. dc_getKek cl n False ctx d = (d', Inr kek))"])
    (blast dest: getKek_step getKek_found)

lemma storeKek_triple:
  assumes client: "ee_client env = cl"
  shows "triple (\<lambda>s. True) (storeKekToRegistry env \<lparr>ki_name = n, ki_deleted = False, ki_context = ctx\<rparr> t i sh)
    (\<lambda>x s. \<forall>kek. x = Some kek \<longrightarrow> kek_found n ctx kek s)"
  unfolding storeKekToRegistry_def client kek_found_def kek_id.select_convs
  by (intro triple_null_on kept_True
      triple_client [where P = "\<lambda>c. True" and Q = "\<lambda>kek c. \<forall>d. inv d \<longrightarrow> le c d \<longrightarrow> (\<exists>d'. dc_getKek cl n False ctx d = (d', Inr kek))"])
    (blast dest: registerKek_step registerKek_found)

text \<open>The kek that is returned will be found again and passes the checks again.\<close>

definition kek_known :: "enc_transform \<Rightarrow> 'm rule_context \<Rightarrow> kek \<Rightarrow> ('c, 'w) enc_state \<Rightarrow> bool" where
  "kek_known tr ctx kek s \<longleftrightarrow>
     kek_found (tr_kekName tr) (contextFor (ctx_subject ctx)) kek s \<and>
     checkKek tr (getParameter ctx ''encrypt.kms.type'') (getParameter ctx ''encrypt.kms.key.id'') kek = Inr kek"

lemma kept_kek_known: "kept (kek_known tr ctx kek)"
  using kept_kek_found unfolding kept_def kek_known_def by blast

lemma checkKek_same: "checkKek tr t i kek = Inr kek' \<Longrightarrow> kek' = kek"
  by (auto simp: checkKek_def split: if_splits)

lemma getOrCreateKek_triple:
  assumes client: "ee_client env = cl"
  shows "triple (\<lambda>s. True) (getOrCreateKek env tr ctx) (kek_known tr ctx)"
proof -
  let ?n = "tr_kekName tr" and ?c = "contextFor (ctx_subject ctx)"
  let ?some = "\<lambda>x s. \<forall>kek. x = Some kek \<longrightarrow> kek_found ?n ?c kek s"
  have again: "triple (?some x) (case x of Some kek \<Rightarrow> m_return (Some kek) | None \<Rightarrow>
      retrieveKekFromRegistry env \<lparr>ki_name = ?n, ki_deleted = False, ki_context = ?c\<rparr>) ?some" for x
    using triple_weaken [OF retrieveKek_triple [OF client]]
    by (cases x) (auto intro!: triple_return)
  have out: "triple (?some x) (case x of None \<Rightarrow> m_throw e | Some kek \<Rightarrow> m_return kek) (\<lambda>kek s. kek_found ?n ?c kek s)" for x e
    by (cases x) (auto intro!: triple_return triple_throw)
  have create: "triple P (m_bind (storeKekToRegistry env \<lparr>ki_name = ?n, ki_deleted = False, ki_context = ?c\<rparr> t i sh) (\<lambda>stored.
      m_bind (case stored of Some kek \<Rightarrow> m_return (Some kek) | None \<Rightarrow>
        retrieveKekFromRegistry env \<lparr>ki_name = ?n, ki_deleted = False, ki_context = ?c\<rparr>) (\<lambda>again.
      case again of None \<Rightarrow> m_throw e | Some kek \<Rightarrow> m_return kek))) (\<lambda>kek s. kek_found ?n ?c kek s)" for P t i sh e
    by (rule triple_weaken [OF triple_bind [OF storeKek_triple [OF client] triple_bind [OF again out]]]) simp_all
  have get: "triple (?some x) (case x of Some kek \<Rightarrow> m_return kek | None \<Rightarrow> f) (\<lambda>kek s. kek_found ?n ?c kek s)"
    if "triple (\<lambda>s. True) f (\<lambda>kek s. kek_found ?n ?c kek s)" for x f
    using triple_weaken [OF that] by (cases x) (auto intro!: triple_return)
  have check: "triple (kek_found ?n ?c kek)
      (m_lift (checkKek tr (getParameter ctx ''encrypt.kms.type'') (getParameter ctx ''encrypt.kms.key.id'') kek)) (kek_known tr ctx)" for kek
    by (rule triple_lift) (frule checkKek_same, simp add: kek_known_def)
  show ?thesis
    unfolding getOrCreateKek_def Let_def
    by (intro triple_bind [OF triple_bind [OF retrieveKek_triple [OF client] get] check])
      (auto intro!: triple_throw create)
qed

lemma getKek_triple:
  assumes client: "ee_client env = cl"
  shows "triple (\<lambda>s. es_kek s = None) (getKek env tr ctx) (kek_known tr ctx)"
    and "triple (\<lambda>s. True) (getKek env tr ctx) (\<lambda>kek s. True)"
proof -
  have "triple (\<lambda>s. True) (m_bind (getOrCreateKek env tr ctx) (\<lambda>kek s'. (s'\<lparr>es_kek := Some kek\<rparr>, Inr kek))) (kek_known tr ctx)"
    by (rule triple_bind [OF getOrCreateKek_triple [OF client]])
      (auto simp: triple_def extended_def ok_def le_refl kek_known_def kek_found_def)
  then show "triple (\<lambda>s. es_kek s = None) (getKek env tr ctx) (kek_known tr ctx)"
    and "triple (\<lambda>s. True) (getKek env tr ctx) (\<lambda>kek s. True)"
    unfolding triple_def getKek_def by (auto simp: extended_refl split: option.splits)
qed

lemma retrieveDek_triple:
  assumes client: "ee_client env = cl"
  shows "triple (\<lambda>s. True) (retrieveDekFromRegistry env key) (\<lambda>x s. \<forall>r. x = Some r \<longrightarrow> live (es_client s) r)"
    and "default_version (di_version key) = v \<Longrightarrow> v = -1 \<or> 0 < v \<Longrightarrow>
      triple (\<lambda>s. True) (retrieveDekFromRegistry env key)
        (\<lambda>x s. \<forall>r. x = Some r \<longrightarrow> dek_found (di_kekName key) (di_subject key) (di_algorithm key) v r s)"
proof -
  let ?get = "dc_getDek cl (di_kekName key) (di_subject key) (di_algorithm key) (default_version (di_version key)) (di_deleted key)"
  have filter: "triple (\<lambda>s. True) (retrieveDekFromRegistry env key) (\<lambda>x s. \<forall>r. x = Some r \<longrightarrow> Q r s)"
    if "triple (\<lambda>s. True) (on_client ?get) Q" for Q
    unfolding retrieveDekFromRegistry_def client
    by (rule triple_bind [OF triple_null_on [OF that kept_True]])
      (auto simp: triple_def extended_refl split: option.splits if_splits)
  show "triple (\<lambda>s. True) (retrieveDekFromRegistry env key) (\<lambda>x s. \<forall>r. x = Some r \<longrightarrow> live (es_client s) r)"
    by (rule filter [OF triple_client [where P = "\<lambda>c. True" and Q = "\<lambda>r c. live c r"]]) (blast dest: getDek_step)
  assume v: "default_version (di_version key) = v" "v = -1 \<or> 0 < v"
  let ?Q = "\<lambda>r c. live c r \<and> 0 < dek_version (dc_dek cl c r) \<and> (v = 1 \<longrightarrow> dek_version (dc_dek cl c r) = 1) \<and>
    (\<forall>d. inv d \<longrightarrow> le c d \<longrightarrow> (\<exists>d'. dc_getDek cl (di_kekName key) (di_subject key) (di_algorithm key) (dek_version (dc_dek cl c r)) True d = (d', Inr r)))"
  have "inv c' \<and> le c c' \<and> (\<forall>r. res = Inr r \<longrightarrow> ?Q r c')" if "inv c" "?get c = (c', res)" for c c' res
    using getDek_step [OF that] getDek_found [OF that(1), where v = v and c' = c'] that(2) v by (metis zero_less_one)
  from triple_client [where P = "\<lambda>c. True" and Q = ?Q, OF this]
  show "triple (\<lambda>s. True) (retrieveDekFromRegistry env key)
        (\<lambda>x s. \<forall>r. x = Some r \<longrightarrow> dek_found (di_kekName key) (di_subject key) (di_algorithm key) v r s)"
    unfolding dek_found_def Let_def by (intro filter) simp
qed

lemma storeDek_triple:
  assumes client: "ee_client env = cl" and v: "0 < default_version (di_version key)" "v = 1 \<longrightarrow> default_version (di_version key) = 1"
  shows "triple (\<lambda>s. True) (storeDekToRegistry env key m)
    (\<lambda>x s. \<forall>r. x = Some r \<longrightarrow> dek_found (di_kekName key) (di_subject key) (di_algorithm key) v r s)"
proof -
  let ?reg = "dc_registerDek cl (di_kekName key) (di_subject key) (di_algorithm key) (default_version (di_version key)) (map_option base64Encode m)"
  let ?Q = "\<lambda>r c. live c r \<and> 0 < dek_version (dc_dek cl c r) \<and> (v = 1 \<longrightarrow> dek_version (dc_dek cl c r) = 1) \<and>
    (\<forall>d. inv d \<longrightarrow> le c d \<longrightarrow> (\<exists>d'. dc_getDek cl (di_kekName key) (di_subject key) (di_algorithm key) (dek_version (dc_dek cl c r)) True d = (d', Inr r)))"
  have "inv c' \<and> le c c' \<and> (\<forall>r. res = Inr r \<longrightarrow> ?Q r c')" if "inv c" "?reg c = (c', res)" for c c' res
    using registerDek_step [OF that(1) v(1) that(2)] registerDek_found [OF that(1) v(1), where c' = c'] that(2) v by metis
  from triple_client [where P = "\<lambda>c. True" and Q = ?Q, OF this]
  show ?thesis
    unfolding storeDekToRegistry_def client dek_found_def Let_def by (intro triple_null_on kept_True) simp
qed

lemma createDek_triple:
  assumes client: "ee_client env = cl" and v: "default_version (di_version key) = v" "v = -1 \<or> 0 < v"
    and new: "0 < default_version new" "v = 1 \<longrightarrow> default_version new = 1"
  shows "triple (\<lambda>s. True) (createDek env key new m) (dek_found (di_kekName key) (di_subject key) (di_algorithm key) v)"
proof -
  let ?some = "\<lambda>x s. \<forall>r. x = Some r \<longrightarrow> dek_found (di_kekName key) (di_subject key) (di_algorithm key) v r s"
  have store: "triple (\<lambda>s. True) (storeDekToRegistry env (key\<lparr>di_version := new\<rparr>) m) ?some"
    using storeDek_triple [OF client, of "key\<lparr>di_version := new\<rparr>" v m] new by simp
  have again: "triple (?some x) (case x of Some r \<Rightarrow> m_return (Some r) | None \<Rightarrow> retrieveDekFromRegistry env key) ?some" for x
    using triple_weaken [OF retrieveDek_triple(2) [OF client v]] by (cases x) (auto intro!: triple_return)
  have out: "triple (?some x) (case x of Some r \<Rightarrow> m_return r | None \<Rightarrow> m_throw e)
      (dek_found (di_kekName key) (di_subject key) (di_algorithm key) v)" for x e
    by (cases x) (auto intro!: triple_return triple_throw)
  show ?thesis
    unfolding createDek_def by (rule triple_bind [OF store triple_bind [OF again out]])
qed

lemma wrapNewKey_triple: "triple P (wrapNewKey env tr kek) (\<lambda>x s. True)"
  unfolding wrapNewKey_def wrapper_encrypt_def
  by (auto intro!: triple_return triple_bind [OF triple_world] triple_bind [OF triple_tryKeys])

lemma tryKeys_client: "tryKeys verb use config t is s = (s', res) \<Longrightarrow> es_client s' = es_client s"
proof (induction "is" arbitrary: s)
  case Nil
  then show ?case by simp
next
  case (Cons i "is")
  then show ?case
    by (auto simp: m_catch_def m_bind_def on_kms_def on_world_def split: prod.splits sum.splits if_splits)
qed

definition dek_for :: "enc_transform \<Rightarrow> 'm rule_context \<Rightarrow> int \<Rightarrow> dek_ref \<Rightarrow> ('c, 'w) enc_state \<Rightarrow> bool" where
  "dek_for tr ctx = dek_found (tr_kekName tr) (ctx_subject ctx) (map_option dek_format_str (tr_dekFormat tr))"

lemma dek_for_positive: "dek_for tr ctx v r s \<Longrightarrow> live (es_client s) r \<and> 0 < dek_version (dc_dek cl (es_client s) r)"
  by (simp add: dek_for_def dek_found_def Let_def)

lemma kept_dek_for: "kept (\<lambda>s. \<forall>r. dek = Some r \<longrightarrow> dek_for tr ctx v r s)"
  unfolding dek_for_def by (rule kept_imp [OF kept_dek_found])

lemma replaceDek_triple:
  fixes env :: "('c, 'k, 'w) enc_env"
  assumes client: "ee_client env = cl" and mode: "ctx_ruleMode ctx \<noteq> READ"
    and v: "default_version version = v" "v = -1 \<or> v = 1" and expired: "expired \<Longrightarrow> dek \<noteq> None \<and> v = -1"
  shows "triple (\<lambda>s. \<forall>r. dek = Some r \<longrightarrow> dek_for tr ctx v r s)
    (replaceDek env tr ctx kek (dekIdFor tr ctx version) dek expired) (dek_for tr ctx v)"
proof -
  let ?P = "\<lambda>s. \<forall>r. dek = Some r \<longrightarrow> dek_for tr ctx v r s" and ?id = "dekIdFor tr ctx version"
  have id: "default_version (di_version ?id) = v"
    using v by (auto simp: dekIdFor_def default_version_def)
  have create: "triple ?P (createDek env ?id new m) (dek_for tr ctx v)"
    if "0 < default_version new" "v = 1 \<longrightarrow> default_version new = 1" for new m
    using triple_weaken [OF createDek_triple [OF client id _ that, of m]] v
    by (auto simp: dek_for_def dekIdFor_def)
  have handler: "triple ?P (case dek of None \<Rightarrow> m_throw e | Some r \<Rightarrow> m_return r) (dek_for tr ctx v)" for e
    by (cases dek) (auto intro!: triple_throw triple_return)
  have "triple ?P (\<lambda>s. m_catch (createDek env ?id (if expired then Some (dek_version (dc_dek (ee_client env) (es_client s) (the dek)) + 1) else None) m)
      (\<lambda>e. case dek of None \<Rightarrow> m_throw e | Some r \<Rightarrow> m_return r) s) (dek_for tr ctx v)" for m
  proof (rule triple_pre)
    fix s0 :: "('c, 'w) enc_state" assume P: "?P s0"
    let ?new = "if expired then Some (dek_version (dc_dek (ee_client env) (es_client s0) (the dek)) + 1) else None"
    have "0 < dek_version (dc_dek (ee_client env) (es_client s0) (the dek))" if expired
      using P expired [OF that] dek_for_positive [of tr ctx v "the dek" s0] client by auto
    then have new: "0 < default_version ?new" "v = 1 \<longrightarrow> default_version ?new = 1"
      using expired by (auto simp: default_version_def)
    from triple_catch [OF create [OF new] kept_dek_for handler]
    show "triple (\<lambda>t. t = s0) (\<lambda>s. m_catch (createDek env ?id (if expired then Some (dek_version (dc_dek (ee_client env) (es_client s) (the dek)) + 1) else None) m)
      (\<lambda>e. case dek of None \<Rightarrow> m_throw e | Some r \<Rightarrow> m_return r) s) (dek_for tr ctx v)"
      using P unfolding triple_def by auto
  qed
  then show ?thesis
    using mode triple_frame [OF wrapNewKey_triple [of "\<lambda>s. True"] kept_dek_for]
    unfolding replaceDek_def Let_def by (auto intro!: triple_bind)
qed

lemma unwrapKey_triple:
  assumes client: "ee_client env = cl"
  shows "triple (\<lambda>s. live (es_client s) r) (unwrapKey env kek r) (\<lambda>r' s. r' = r)"
proof -
  have key: "triple (\<lambda>s. live (es_client s) r) (on_client (dc_getDekKeyMaterialBytes cl r))
      (\<lambda>x s. live (es_client s) r \<and> (x = None \<longrightarrow> falsy (keyMaterial (dc_dek cl (es_client s) r))))"
    by (rule triple_client [where P = "\<lambda>c. live c r"]) (blast dest: key_step same_dek)
  have enc: "triple (\<lambda>s. live (es_client s) r \<and> falsy (keyMaterial (dc_dek cl (es_client s) r)))
      (on_client (dc_getDekEncryptedKeyMaterialBytes cl r))
      (\<lambda>x s. live (es_client s) r \<and> falsy (keyMaterial (dc_dek cl (es_client s) r)) \<and>
         (\<forall>b. x = Some b \<longrightarrow> \<not> falsy (encryptedKeyMaterial (dc_dek cl (es_client s) r))))"
  proof (rule triple_client [where P = "\<lambda>c. live c r \<and> falsy (keyMaterial (dc_dek cl c r))"])
    fix c c' res
    assume c: "inv c" "live c r \<and> falsy (keyMaterial (dc_dek cl c r))" and g: "dc_getDekEncryptedKeyMaterialBytes cl r c = (c', res)"
    note e = encrypted_step [OF c(1) conjunct1 [OF c(2)] g]
    with c same_dek [of c c' r]
    show "inv c' \<and> le c c' \<and> (\<forall>x. res = Inr x \<longrightarrow> live c' r \<and> falsy (keyMaterial (dc_dek cl c' r)) \<and>
        (\<forall>b. x = Some b \<longrightarrow> \<not> falsy (encryptedKeyMaterial (dc_dek cl c' r))))"
      by simp
  qed
  let ?ready = "\<lambda>s. live (es_client s) r \<and> falsy (keyMaterial (dc_dek cl (es_client s) r)) \<and>
    \<not> falsy (encryptedKeyMaterial (dc_dek cl (es_client s) r))"
  have dec: "triple (\<lambda>s. live (es_client s) r \<and> falsy (keyMaterial (dc_dek cl (es_client s) r)) \<and>
       (\<forall>b. x = Some b \<longrightarrow> \<not> falsy (encryptedKeyMaterial (dc_dek cl (es_client s) r))))
      (wrapper_decrypt kw x) (\<lambda>y s. ?ready s)" for kw x
  proof (cases x)
    case None
    then show ?thesis
      unfolding wrapper_decrypt_def by (auto intro: triple_weaken [OF tryKeys_null])
  next
    case (Some b)
    have "triple ?ready (wrapper_decrypt kw x) (\<lambda>y s. ?ready s)"
      using triple_tryKeys unfolding wrapper_decrypt_def triple_def by (metis tryKeys_client)
    with Some show ?thesis by (auto intro: triple_weaken)
  qed
  have set: "triple ?ready (on_client (dc_setDekKeyMaterial cl r b)) (\<lambda>x s. True)" for b
    by (rule triple_client [where P = "\<lambda>c. live c r \<and> falsy (keyMaterial (dc_dek cl c r)) \<and> \<not> falsy (encryptedKeyMaterial (dc_dek cl c r))"])
      (blast dest: set_key_step)
  have "triple (\<lambda>s. live (es_client s) r \<and> falsy (keyMaterial (dc_dek cl (es_client s) r)))
      (m_bind (on_client (dc_getDekEncryptedKeyMaterialBytes cl r)) (\<lambda>e. m_bind (wrapper_decrypt kw e) (\<lambda>raw.
        m_bind (on_client (dc_setDekKeyMaterial cl r raw)) (\<lambda>_. m_return r)))) (\<lambda>r' s. r' = r)" for kw
    by (intro triple_bind [OF enc triple_bind [OF dec triple_bind [OF set]]] triple_return) simp
  then have "triple (\<lambda>s. live (es_client s) r \<and> (x = None \<longrightarrow> falsy (keyMaterial (dc_dek cl (es_client s) r))))
      (if x \<noteq> None then m_return r else m_bind (on_client (dc_getDekEncryptedKeyMaterialBytes cl r)) (\<lambda>e. m_bind (wrapper_decrypt kw e) (\<lambda>raw.
        m_bind (on_client (dc_setDekKeyMaterial cl r raw)) (\<lambda>_. m_return r)))) (\<lambda>r' s. r' = r)" for x kw
    by (cases x) (auto intro: triple_return triple_weaken)
  then show ?thesis
    unfolding unwrapKey_def client by (rule triple_bind [OF key])
qed

end

end
