(* ===== verification/Encryption_Runs.thy ===== *)
theory Encryption_Runs
  imports Encryption_Roundtrip
begin

text \<open>
  The operations of the executor that are run for a value, composed: getting the data encryption key,
  writing and reading. What is read is what was written, after any further runs.
\<close>

section \<open>The version in front of a ciphertext\<close>

lemma extract_prefixed:
  assumes "prefixVersion v x = Inr c"
  shows "extractVersion c = Inr v" and "drop 5 c = x"
proof -
  obtain b where b: "writeInt32BE v = Inr b" and c: "c = 0 # b @ x"
    using assms by (cases "writeInt32BE v") (auto simp: prefixVersion_def MAGIC_BYTE_V0_def)
  have len: "length b = 4" and r: "readInt32BE b = Inr v"
    using readInt32BE_write [OF b, of "[]"] by simp_all
  then show "drop 5 c = x"
    by (simp add: c numeral_eq_Suc)
  have "js_slice 1 5 c = b"
    using len by (simp add: c js_slice_def)
  then show "extractVersion c = Inr v"
    using r by (simp add: extractVersion_def c js_slice_def MAGIC_BYTE_V0_def)
qed

section \<open>Values and runs\<close>

text \<open>A string has no lone surrogates; any buffer will do.\<close>

fun plain_value :: "field_value \<Rightarrow> bool" where
  "plain_value (FString t) \<longleftrightarrow> well_formed t"
| "plain_value (FBytes b) \<longleftrightarrow> True"
| "plain_value (FOther t) \<longleftrightarrow> False"

text \<open>The messages of a list, each with a transform of its own; a failure concerns its message only.\<close>

fun run_messages ::
    "('c, 'k, 'w) enc_env \<Rightarrow> (enc_transform \<times> 'm rule_context \<times> field_value option) list \<Rightarrow> ('c, 'w) enc_state \<Rightarrow> ('c, 'w) enc_state" where
  "run_messages env [] s = s"
| "run_messages env ((tr, ctx, x) # ms) s = run_messages env ms (fst (transform env tr ctx x (s\<lparr>es_kek := None\<rparr>)))"

section \<open>Getting the key\<close>

context dek_store
begin

lemma kept_conj: "kept P \<Longrightarrow> kept Q \<Longrightarrow> kept (\<lambda>s. P s \<and> Q s)"
  unfolding kept_def by blast

lemma kept_dek_for1: "kept (dek_for tr ctx v r)"
  unfolding dek_for_def by (rule kept_dek_found)

lemma unwrap_keeps:
  assumes client: "ee_client env = cl" and "\<And>r s. Q r s \<Longrightarrow> live (es_client s) r" and "\<And>r. kept (Q r)"
  shows "triple (Q r) (unwrapKey env kek r) Q"
  by (rule triple_weaken [OF triple_frame [OF unwrapKey_triple [OF client, of r kek] assms(3) [of r]]])
    (use assms(2) in auto)

lemma getOrCreateDek_write:
  fixes env :: "('c, 'k, 'w) enc_env"
  assumes client: "ee_client env = cl" and mode: "ctx_ruleMode ctx \<noteq> READ"
    and version: "version = (if isDekRotated tr then Some (-1) else None)" "v = default_version version"
    and kek: "triple P (getKek env tr ctx) K" "\<And>kek. kept (K kek)"
  shows "triple P (getOrCreateDek env tr ctx version) (\<lambda>r s. dek_for tr ctx v r s \<and> (\<exists>kek. K kek s))"
proof -
  let ?id = "dekIdFor tr ctx version"
  let ?some = "\<lambda>x s. \<forall>r. x = Some r \<longrightarrow> dek_for tr ctx v r s"
  have v: "v = -1 \<or> v = 1" "isDekRotated tr \<longleftrightarrow> v = -1" "v = -1 \<or> 0 < v"
    using version by (auto simp: default_version_def)
  have id: "default_version (di_version ?id) = v"
    using v(1) version(2) by (auto simp: dekIdFor_def default_version_def)
  have retrieve: "triple (\<lambda>s. True) (retrieveDekFromRegistry env ?id) ?some"
    using retrieveDek_triple(2) [OF client id v(3)] by (simp add: dek_for_def dekIdFor_def)
  have choose: "triple (?some x) (\<lambda>s. let expired = isExpired env tr ctx x s
      in if x = None \<or> expired then replaceDek env tr ctx k ?id x expired s else (s, Inr (the x))) (dek_for tr ctx v)" for x k
  proof (rule triple_pre)
    fix s0 :: "('c, 'w) enc_state" assume s0: "?some x s0"
    let ?e = "isExpired env tr ctx x s0"
    have e: "?e \<Longrightarrow> x \<noteq> None \<and> v = -1"
      using v(2) by (auto simp: isExpired_def isDekRotated_def split: option.splits)
    show "triple (\<lambda>t. t = s0) (\<lambda>s. let expired = isExpired env tr ctx x s
      in if x = None \<or> expired then replaceDek env tr ctx k ?id x expired s else (s, Inr (the x))) (dek_for tr ctx v)"
    proof (cases "x = None \<or> ?e")
      case True
      have "triple (?some x) (replaceDek env tr ctx k ?id x ?e) (dek_for tr ctx v)"
        by (rule replaceDek_triple [OF client mode version(2) [symmetric] v(1) e])
      with True s0 show ?thesis unfolding triple_def by (auto simp: Let_def)
    next
      case False
      with s0 show ?thesis by (auto simp: triple_def extended_refl)
    qed
  qed
  have unwrap: "triple (\<lambda>s. K k s \<and> dek_for tr ctx v r s) (unwrapKey env k r) (\<lambda>r s. K k s \<and> dek_for tr ctx v r s)" for k r
    by (rule unwrap_keeps [OF client _ kept_conj [OF kek(2) kept_dek_for1]]) (blast dest: dek_for_positive)
  have "triple (K k) (m_bind (retrieveDekFromRegistry env ?id) (\<lambda>dek.
     m_bind (\<lambda>s. let expired = isExpired env tr ctx dek s
                 in if dek = None \<or> expired then replaceDek env tr ctx k ?id dek expired s else (s, Inr (the dek)))
       (\<lambda>r. unwrapKey env k r))) (\<lambda>r s. dek_for tr ctx v r s \<and> (\<exists>kek. K kek s))" for k
    by (rule triple_weaken [OF triple_bind [OF triple_frame [OF retrieve kek(2) [of k]]
          triple_bind [OF triple_frame [OF choose kek(2) [of k]] unwrap]]]) auto
  from triple_bind [OF kek(1) this] show ?thesis
    unfolding getOrCreateDek_def .
qed

lemma getOrCreateDek_read:
  assumes client: "ee_client env = cl" and mode: "ctx_ruleMode ctx = READ"
  shows "triple (\<lambda>s. True) (getOrCreateDek env tr ctx version) (\<lambda>r s. live (es_client s) r)"
proof -
  have choose: "triple (\<lambda>s. \<forall>r. x = Some r \<longrightarrow> live (es_client s) r) (\<lambda>s. let expired = isExpired env tr ctx x s
      in if x = None \<or> expired then replaceDek env tr ctx k i x expired s else (s, Inr (the x))) (\<lambda>r s. live (es_client s) r)" for x k i
    using mode by (cases x) (auto simp: triple_def extended_refl isExpired_def replaceDek_def)
  show ?thesis
    unfolding getOrCreateDek_def
    by (rule triple_bind [OF getKek_triple(2) [OF client] triple_bind [OF retrieveDek_triple(1) [OF client]
          triple_bind [OF choose unwrap_keeps [OF client _ kept_live]]]]) simp
qed

lemma keyBytes_triple:
  "triple (\<lambda>s. live (es_client s) r) (on_client (dc_getDekKeyMaterialBytes cl r)) (\<lambda>x s. live (es_client s) r)"
  by (rule triple_client [where P = "\<lambda>c. live c r"]) (blast dest: key_step same_dek)

lemma transform_triple:
  assumes client: "ee_client env = cl"
  shows "triple (\<lambda>s. True) (transform env tr ctx x) (\<lambda>x s. True)"
proof (cases x)
  case None
  then show ?thesis by (simp add: transform_def triple_return)
next
  case (Some v)
  have wr: "triple (\<lambda>s. True) (transform_write env tr ctx v) (\<lambda>x s. True)" if "ctx_ruleMode ctx = WRITE"
  proof -
    have "triple (\<lambda>s. True) (getOrCreateDek env tr ctx (if isDekRotated tr then Some (-1) else None)) (\<lambda>r s. live (es_client s) r)"
      by (rule triple_weaken [OF getOrCreateDek_write [OF client _ refl refl getKek_triple(2) [OF client] kept_True]])
        (use that in \<open>auto dest: dek_for_positive\<close>)
    then show ?thesis
      unfolding transform_write_def client
      by (auto intro!: triple_throw triple_bind [OF _ triple_bind [OF keyBytes_triple triple_bind [OF triple_world]]] split: option.split)
        (auto simp: triple_def extended_refl m_bind_def split: sum.splits)
  qed
  have rd: "triple (\<lambda>s. True) (transform_read env tr ctx v) (\<lambda>x s. True)" if "ctx_ruleMode ctx = READ"
    unfolding transform_read_def client
    by (auto intro!: triple_return triple_bind [OF triple_lift]
        triple_bind [OF getOrCreateDek_read [OF client that] triple_bind [OF keyBytes_triple triple_bind [OF triple_world]]] split: option.split)
  show ?thesis
    using Some wr rd by (auto simp: transform_def intro: triple_throw)
qed

section \<open>Reading back\<close>

definition reachable_from :: "('c, 'w) enc_state \<Rightarrow> ('c, 'w) enc_state \<Rightarrow> bool" where
  "reachable_from s s' \<longleftrightarrow> inv (es_client s') \<and> le (es_client s) (es_client s')"

lemma reachable_trans: "reachable_from s s' \<Longrightarrow> reachable_from s' s'' \<Longrightarrow> reachable_from s s''"
  by (auto simp: reachable_from_def intro: le_trans)

lemma getKek_again:
  assumes client: "ee_client env = cl" and kek: "kek_known tr ctx kek s" and s2: "reachable_from s s2"
    and ctx': "ctx_subject ctx' = ctx_subject ctx" "getParameter ctx' = getParameter ctx"
  shows "\<exists>s3 kek'. getKek env tr ctx' s2 = (s3, Inr kek') \<and> reachable_from s2 s3"
proof (cases "es_kek s2")
  case None
  obtain d where d: "dc_getKek cl (tr_kekName tr) False (contextFor (ctx_subject ctx)) (es_client s2) = (d, Inr kek)"
    using kek s2 unfolding kek_known_def kek_found_def reachable_from_def by blast
  have "inv d \<and> le (es_client s2) d"
    by (rule getKek_step [OF _ d]) (use s2 in \<open>simp add: reachable_from_def\<close>)
  moreover have "getKek env tr ctx' s2 = (s2\<lparr>es_client := d, es_kek := Some kek\<rparr>, Inr kek)"
    using None d kek ctx'
    by (simp add: getKek_def getOrCreateKek_def retrieveKekFromRegistry_def null_on_def m_bind_def m_catch_def on_client_def
        client kek_known_def Let_def)
  ultimately show ?thesis by (simp add: reachable_from_def)
next
  case (Some k)
  with s2 show ?thesis by (simp add: getKek_def reachable_from_def le_refl)
qed

lemma getOrCreateDek_again:
  assumes client: "ee_client env = cl" and mode: "ctx_ruleMode ctx' = READ"
    and kek: "kek_known tr ctx kek s" and dek: "dek_for tr ctx v r s" and s2: "reachable_from s s2"
    and version: "default_version version = dek_version (dc_dek cl (es_client s) r)"
    and enc: "encryptedKeyMaterial (dc_dek cl (es_client s) r) \<noteq> None"
    and key: "\<forall>d. inv d \<longrightarrow> le (es_client s) d \<longrightarrow> (\<exists>d'. dc_getDekKeyMaterialBytes cl r d = (d', Inr (Some k)))"
    and ctx': "ctx_subject ctx' = ctx_subject ctx" "getParameter ctx' = getParameter ctx"
  shows "\<exists>s3. getOrCreateDek env tr ctx' version s2 = (s3, Inr r) \<and> reachable_from s2 s3"
proof -
  obtain sk k' where k: "getKek env tr ctx' s2 = (sk, Inr k')" "reachable_from s2 sk"
    using getKek_again [OF client kek s2 ctx'] by blast
  note sk = reachable_trans [OF s2 k(2)]
  have r: "live (es_client s) r" "0 < dek_version (dc_dek cl (es_client s) r)"
    using dek_for_positive [OF dek] by auto
  obtain d where d: "dc_getDek cl (tr_kekName tr) (ctx_subject ctx) (map_option dek_format_str (tr_dekFormat tr))
      (dek_version (dc_dek cl (es_client s) r)) True (es_client sk) = (d, Inr r)"
    using dek sk by (auto simp: dek_for_def dek_found_def Let_def reachable_from_def)
  have d_inv: "inv d" "le (es_client sk) d"
    using getDek_step [OF _ d] sk by (auto simp: reachable_from_def)
  then have d_enc: "encryptedKeyMaterial (dc_dek cl d r) \<noteq> None" "le (es_client s) d"
    using same_dek [OF _ r(1), of d] sk enc le_trans by (auto simp: reachable_from_def)
  have retrieve: "retrieveDekFromRegistry env (dekIdFor tr ctx' version) sk = (sk\<lparr>es_client := d\<rparr>, Inr (Some r))"
    using d d_enc version r(2) mode ctx'(1)
    by (simp add: retrieveDekFromRegistry_def null_on_def m_bind_def m_catch_def on_client_def client dekIdFor_def)
      (simp add: default_version_def client)
  obtain d' where d': "dc_getDekKeyMaterialBytes cl r d = (d', Inr (Some k))"
    using key d_inv d_enc by blast
  have "live d r" using same_dek [OF d_enc(2) r(1)] by simp
  from key_step [OF d_inv(1) this d'] have "inv d'" "le d d'" by auto
  moreover have "getOrCreateDek env tr ctx' version s2 = (sk\<lparr>es_client := d'\<rparr>, Inr r)"
    using k retrieve d' mode
    by (simp add: getOrCreateDek_def m_bind_def isExpired_def unwrapKey_def on_client_def client)
  ultimately show ?thesis
    using k(2) d_inv le_trans by (auto simp: reachable_from_def)
qed

lemma plain_value_back:
  assumes "plain_value x"
  obtains p where "toBytes x = Some p" and "toObject x p = Some x"
proof (cases x)
  case (FString t)
  with assms that [of "textEncode t"] show thesis by (simp add: bufferToString_textEncode)
qed (use assms that in auto)

text \<open>What a successful write leaves behind for every later state.\<close>

lemma write_leaves:
  fixes env :: "('c, 'k, 'w) enc_env"
  assumes client: "ee_client env = cl" and cr: "crypto_ok (ee_crypto env)"
    and s: "ok s" "es_kek s = None" and mode: "ctx_ruleMode ctx = WRITE" and p: "toBytes x = Some p"
    and wr: "transform env tr ctx (Some x) s = (s1, Inr c)" and v: "v = (if isDekRotated tr then -1 else 1)"
  obtains r k e ct kek where "dek_for tr ctx v r s1" and "kek_known tr ctx kek s1"
    and "encryptedKeyMaterial (dc_dek cl (es_client s1) r) \<noteq> None"
    and "\<forall>d. inv d \<longrightarrow> le (es_client s1) d \<longrightarrow> (\<exists>d'. dc_getDekKeyMaterialBytes cl r d = (d', Inr (Some k)))"
    and "\<And>w. cryptor_decrypt (ee_crypto env) (tr_dekFormat tr) (Some k) e w = (w, Inr p)"
    and "(if isDekRotated tr then prefixVersion (dek_version (dc_dek cl (es_client s1) r)) e else Inr e) = Inr ct"
    and "c = (if field_type_of x = F_STRING then Some (FString (ascii (base64Encode ct))) else toObject x ct)"
proof -
  let ?version = "if isDekRotated tr then Some (-1) else None"
  obtain sA r sB kb e ct where
      A: "getOrCreateDek env tr ctx ?version s = (sA, Inr r)" and
      B: "on_client (dc_getDekKeyMaterialBytes cl r) sA = (sB, Inr kb)" and
      C: "on_world (cryptor_encrypt (ee_crypto env) (tr_dekFormat tr) kb p) sB = (s1, Inr e)" and
      ct: "(if isDekRotated tr then prefixVersion (dek_version (dc_dek cl (es_client s1) r)) e else Inr e) = Inr ct" and
      c: "c = (if field_type_of x = F_STRING then Some (FString (ascii (base64Encode ct))) else toObject x ct)"
    using wr mode p client by (auto simp: transform_def transform_write_def m_bind_eq_Inr_iff)
  have A': "extended s sA" "dek_for tr ctx v r sA" "\<exists>kek. kek_known tr ctx kek sA"
    using tripleD [OF getOrCreateDek_write [OF client _ refl refl getKek_triple(1) [OF client] kept_kek_known] s A] mode v
    by (auto simp: default_version_def split: if_splits)
  have live: "live (es_client sA) r" using dek_for_positive [OF A'(2)] by simp
  have B': "extended sA sB"
    using tripleD [OF keyBytes_triple extended_ok [OF A'(1)] live B] by simp
  have C': "es_client s1 = es_client sB"
    using C by (auto simp: on_world_def split: prod.splits)
  have "dek_for tr ctx v r sB" "\<exists>kek. kek_known tr ctx kek sB"
    using kept_dek_for1 kept_kek_known A'(2,3) B' unfolding kept_def by blast+
  then obtain kek where dek1: "dek_for tr ctx v r s1" and kek1: "kek_known tr ctx kek s1"
    using C' by (auto simp: dek_for_def dek_found_def kek_known_def kek_found_def)
  obtain k where k: "kb = Some k"
    using C by (cases kb) (auto simp: on_world_def cryptor_encrypt_def dekAead_def m_bind_def split: prod.splits option.splits)
  have dec: "cryptor_decrypt (ee_crypto env) (tr_dekFormat tr) (Some k) e w = (w, Inr p)" for w
    using C cryptor_decrypt_encrypt [OF cr] by (auto simp: on_world_def k split: prod.splits)
  have "dc_getDekKeyMaterialBytes cl r (es_client sA) = (es_client s1, Inr (Some k))"
    using B k C' by (auto simp: on_client_def split: prod.splits)
  from key_found [OF _ live this] extended_ok [OF A'(1)]
  show thesis by (intro that [OF dek1 kek1 _ _ dec ct c]) (auto simp: ok_def)
qed

lemma transform_read_steps:
  assumes "ee_client env = cl"
    and "(case y of FString t \<Rightarrow> Some (base64Decode t) | _ \<Rightarrow> toBytes y) = Some ct"
    and "(if isDekRotated tr then res_bind (extractVersion ct) (\<lambda>v. Inr (Some v, drop 5 ct)) else Inr (None, ct)) = Inr (ver, e)"
    and "getOrCreateDek env tr ctx ver s = (s', Inr r)"
    and "dc_getDekKeyMaterialBytes cl r (es_client s') = (d', Inr kb)"
    and "\<And>w. cryptor_decrypt (ee_crypto env) (tr_dekFormat tr) kb e w = (w, Inr p)"
  shows "transform_read env tr ctx y s = (s'\<lparr>es_client := d'\<rparr>, Inr (toObject y p))"
  unfolding transform_read_def assms(1,2) option.case assms(3)
  using assms(4-6) by (simp add: m_bind_def on_client_def on_world_def)

lemma read_what_was_written:
  fixes env :: "('c, 'k, 'w) enc_env"
  assumes client: "ee_client env = cl" and cr: "crypto_ok (ee_crypto env)"
    and s: "ok s" "es_kek s = None" and modes: "ctx_ruleMode ctx = WRITE" "ctx_ruleMode ctx' = READ"
    and ctx': "ctx_subject ctx' = ctx_subject ctx" "getParameter ctx' = getParameter ctx"
    and val: "plain_value x" and wr: "transform env tr ctx (Some x) s = (s1, Inr c)" and s2: "reachable_from s1 s2"
  shows "\<exists>s3. transform env tr ctx' c s2 = (s3, Inr (Some x))"
proof -
  obtain p where p: "toBytes x = Some p" "toObject x p = Some x"
    using plain_value_back [OF val] .
  define v :: int where "v = (if isDekRotated tr then -1 else 1)"
  obtain r kek k e ct where dek: "dek_for tr ctx v r s1" and kek: "kek_known tr ctx kek s1"
    and enc: "encryptedKeyMaterial (dc_dek cl (es_client s1) r) \<noteq> None"
    and again: "\<forall>d. inv d \<longrightarrow> le (es_client s1) d \<longrightarrow> (\<exists>d'. dc_getDekKeyMaterialBytes cl r d = (d', Inr (Some k)))"
    and dec: "\<And>w. cryptor_decrypt (ee_crypto env) (tr_dekFormat tr) (Some k) e w = (w, Inr p)"
    and ct: "(if isDekRotated tr then prefixVersion (dek_version (dc_dek cl (es_client s1) r)) e else Inr e) = Inr ct"
    and c: "c = (if field_type_of x = F_STRING then Some (FString (ascii (base64Encode ct))) else toObject x ct)"
    by (rule write_leaves [OF client cr s modes(1) p(1) wr v_def]) (rule that, assumption+)
  define ver where "ver = (if isDekRotated tr then Some (dek_version (dc_dek cl (es_client s1) r)) else None)"
  have "default_version ver = dek_version (dc_dek cl (es_client s1) r)"
    using dek by (auto simp: ver_def v_def dek_for_def dek_found_def Let_def default_version_def)
  from getOrCreateDek_again [OF client modes(2) kek dek s2 this enc again ctx']
  obtain s3 where s3: "getOrCreateDek env tr ctx' ver s2 = (s3, Inr r)" "reachable_from s2 s3" by blast
  obtain d' where d': "dc_getDekKeyMaterialBytes cl r (es_client s3) = (d', Inr (Some k))"
    using again reachable_trans [OF s2 s3(2)] by (auto simp: reachable_from_def)
  obtain y where y: "c = Some y" "toObject y = toObject x" "(case y of FString t \<Rightarrow> Some (base64Decode t) | _ \<Rightarrow> toBytes y) = Some ct"
    using val c by (cases x) (auto simp: fun_eq_iff)
  have "(if isDekRotated tr then res_bind (extractVersion ct) (\<lambda>v. Inr (Some v, drop 5 ct)) else Inr (None, ct)) = Inr (ver, e)"
    using ct extract_prefixed by (auto simp: ver_def)
  from transform_read_steps [OF client y(3) this s3(1) d' dec]
  have "transform_read env tr ctx' y s2 = (s3\<lparr>es_client := d'\<rparr>, Inr (Some x))"
    using y(2) p(2) by simp
  with y(1) modes(2) show ?thesis by (auto simp: transform_def)
qed

lemma run_messages_extended:
  assumes client: "ee_client env = cl"
  shows "ok s \<Longrightarrow> extended s (run_messages env ms s)"
proof (induction ms arbitrary: s)
  case Nil
  then show ?case by (simp add: extended_refl)
next
  case (Cons m ms)
  obtain tr ctx x where m: "m = (tr, ctx, x)" by (cases m)
  obtain s' res where s': "transform env tr ctx x (s\<lparr>es_kek := None\<rparr>) = (s', res)" by fastforce
  have "extended (s\<lparr>es_kek := None\<rparr>) s'"
    using tripleD [OF transform_triple [OF client] _ _ s'] Cons.prems by (simp add: ok_def)
  then have "extended s s'" by (simp add: extended_def)
  with Cons.IH [of s'] s' show ?case
    using extended_ok extended_trans by (fastforce simp: m)
qed

end

section \<open>The in-memory client\<close>

definition newEncState :: "'c \<Rightarrow> 'w kms_registry \<Rightarrow> 'w \<Rightarrow> ('c, 'w) enc_state" where
  "newEncState c reg w = \<lparr>es_client = c, es_kms = reg, es_world = w, es_kek = None\<rparr>"

context dek_codec
begin

lemma mock_values_are_read_back:
  assumes client: "ee_client env = MockDekClient stringify parse"
    and cr: "crypto_ok (ee_crypto env)" and reg: "kms_ok reg"
    and modes: "ctx_ruleMode ctx = WRITE" "ctx_ruleMode ctx' = READ"
    and ctx': "ctx_subject ctx' = ctx_subject ctx" "getParameter ctx' = getParameter ctx" and val: "plain_value x"
    and wr: "transform env tr ctx (Some x) ((run_messages env before (newEncState newMockDekClient reg w))\<lparr>es_kek := None\<rparr>) = (s1, Inr c)"
  shows "\<exists>s3. transform env tr ctx' c ((run_messages env after s1)\<lparr>es_kek := None\<rparr>) = (s3, Inr (Some x))"
proof -
  let ?s = "(run_messages env before (newEncState newMockDekClient reg w))\<lparr>es_kek := None\<rparr>"
  have "ok (newEncState newMockDekClient reg w)"
    using reg by (simp add: ok_def newEncState_def)
  from extended_ok [OF run_messages_extended [OF client this]] have s: "ok ?s"
    by (simp add: ok_def)
  have s1: "ok s1"
    using tripleD [OF transform_triple [OF client] s _ wr] extended_ok by simp
  have "reachable_from s1 ((run_messages env after s1)\<lparr>es_kek := None\<rparr>)"
    using run_messages_extended [OF client s1, of after] by (simp add: extended_def ok_def reachable_from_def)
  from read_what_was_written [OF client cr s _ modes ctx' val wr this] show ?thesis by simp
qed

end

text \<open>
  C2. A string or buffer that the executor encrypted, with the in-memory client and after any messages, is
  decrypted to the same value, after any further messages: under every dek format, with the dek
  created, found or rotated on the way, and whatever was rotated since. What is relied on: decryption
  undoes encryption on the platform, and services fail when asked to decrypt \<open>null\<close>.
\<close>

theorem encrypted_values_are_read_back:
  assumes "dek_codec stringify parse" and "ee_client env = MockDekClient stringify parse"
    and "crypto_ok (ee_crypto env)" and "kms_ok reg"
    and "ctx_ruleMode ctx = WRITE" and "ctx_ruleMode ctx' = READ"
    and "ctx_subject ctx' = ctx_subject ctx" and "getParameter ctx' = getParameter ctx" and "plain_value x"
    and "transform env tr ctx (Some x) ((run_messages env before (newEncState newMockDekClient reg w))\<lparr>es_kek := None\<rparr>) = (s1, Inr c)"
  shows "\<exists>s3. transform env tr ctx' c ((run_messages env after s1)\<lparr>es_kek := None\<rparr>) = (s3, Inr (Some x))"
  by (rule dek_codec.mock_values_are_read_back [OF assms])

text \<open>
  A run for the witness: a service that wraps a key by itself, a platform with short keys and a visible
  plaintext, and a rule that names the key.
\<close>

definition plain_crypto :: "(bytes, unit) crypto" where
  "plain_crypto =
     \<lparr>getRandomValues = (\<lambda>n w. (w, replicate n 0)), importAesKey = Inr, importHmacKey = (\<lambda>h k. Inr k),
      subtle_encrypt = (\<lambda>k iv a p. Inr (p @ replicate 16 0)), subtle_decrypt = (\<lambda>k iv a c. Inr (take (length c - 16) c)),
      subtle_sign = (\<lambda>h k d. Inr []), siv_seal = (\<lambda>k a p. Inr p), siv_open = (\<lambda>k a c. Inr c),
      AesGcmKey_toBinary = (\<lambda>k. [1]), AesGcmKey_fromBinary = (\<lambda>b. Inr (replicate 16 0)),
      AesSivKey_toBinary = (\<lambda>k. [1]), AesSivKey_fromBinary = (\<lambda>b. Inr (replicate 64 0))\<rparr>"

definition plain_service :: "unit kms_client" where
  "plain_service =
     \<lparr>kc_supported = (\<lambda>u. True), kc_encrypt = (\<lambda>p. m_return p),
      kc_decrypt = (\<lambda>c. case c of None \<Rightarrow> m_throw (Error ''no key'') | Some b \<Rightarrow> m_return b)\<rparr>"

definition plain_registry :: "unit kms_registry" where
  "plain_registry = \<lparr>kmsDrivers = [], kmsClients = [plain_service]\<rparr>"

definition plain_env :: "(dek_json mock_dek_client, bytes, unit) enc_env" where
  "plain_env = \<lparr>ee_client = MockDekClient id id, ee_crypto = plain_crypto, ee_now = (\<lambda>w. 0), ee_config = []\<rparr>"

definition plain_transform :: enc_transform where
  "plain_transform = \<lparr>tr_dekFormat = Some AES128_GCM, tr_kekName = ''n'', tr_dekExpiryDays = Fin 0\<rparr>"

definition key_rule :: rule where
  "key_rule = (sample_rule ''r'' ''TRANSFORM'' WRITEREAD)
     \<lparr>rule_params := Some [(''encrypt.kms.type'', ''t''), (''encrypt.kms.key.id'', ''k'')]\<rparr>"

definition key_ctx :: "rule_mode \<Rightarrow> unit rule_context" where
  "key_ctx mode =
     \<lparr>ctx_enabledEnv = None, ctx_source = None, ctx_target = sample_schema [], ctx_subject = ''s'', ctx_topic = ''s'',
      ctx_isKey = False, ctx_ruleMode = mode, ctx_rule = key_rule, ctx_index = 0, ctx_rules = [key_rule],
      ctx_inlineTags = None, ctx_depSchemas = None, ctx_fieldContexts = []\<rparr>"

lemma plain_crypto_ok: "crypto_ok plain_crypto"
  by (simp add: crypto_ok_def plain_crypto_def)

lemma plain_registry_ok: "kms_ok plain_registry"
  by (simp add: kms_ok_def plain_registry_def refuses_null_def plain_service_def)

lemma key_ctx_param [simp]:
  "getParameter (key_ctx mode) ''encrypt.kms.type'' = Some ''t''" "getParameter (key_ctx mode) ''encrypt.kms.key.id'' = Some ''k''"
  by (simp_all add: getParameter_def key_ctx_def key_rule_def opt_get_def)

lemma key_ctx_select [simp]:
  "ctx_ruleMode (key_ctx mode) = mode" "ctx_subject (key_ctx mode) = ''s''"
  "ctx_rule (key_ctx mode) = key_rule" "ctx_target (key_ctx mode) = sample_schema []"
  by (simp_all add: key_ctx_def)

lemma key_ctx_params: "getParameter (key_ctx READ) = getParameter (key_ctx WRITE)"
  by (simp add: fun_eq_iff getParameter_def split: option.split)

lemma plain_key [simp]:
  "generateKey plain_crypto (Some AES128_GCM) w = (w, Inr [1])"
  by (simp add: generateKey_def m_bind_def randBytes_def plain_crypto_def)

lemma plain_encrypt [simp]:
  "cryptor_encrypt plain_crypto (Some AES128_GCM) (Some d) p w = (w, Inr (replicate 12 0 @ p @ replicate 16 0))"
  by (simp add: cryptor_encrypt_def dekAead_def aesGcmFromRawKey_def validateAesKeySize_def SUPPORTED_AES_KEY_SIZES_def res_bind_guard
      newAesGcm_def AesGcm_encrypt_def randBytes_def IV_SIZE_IN_BYTES_def m_bind_def plain_crypto_def)

definition plain_kek :: kek where
  "plain_kek = newKek ''n'' ''t'' ''k'' False None None"

definition plain_dek :: dek where
  "plain_dek = newDek ''n'' ''s'' (Some ''AES128_GCM'') 1 (Some (base64Encode [1]))"

definition plain_state :: "dek list \<Rightarrow> (dek_json mock_dek_client, unit) enc_state" where
  "plain_state h =
     \<lparr>es_client = \<lparr>mk_keks = [(KKek ''n'' False None, plain_kek)],
        mk_deks = (if h = [] then [] else [(KDek ''n'' ''s'' 1 (Some ''AES128_GCM'') False, 0)]), mk_heap = h\<rparr>,
      es_kms = plain_registry, es_world = (), es_kek = Some plain_kek\<rparr>"

lemma plain_getKek:
  "getKek plain_env plain_transform (key_ctx WRITE) (newEncState newMockDekClient plain_registry ()) = (plain_state [], Inr plain_kek)"
  by (simp add: getKek_def getOrCreateKek_def retrieveKekFromRegistry_def storeKekToRegistry_def null_on_def checkKek_def nonempty_def
      m_bind_def m_catch_def on_client_def contextFor_def startsWith_def plain_env_def plain_transform_def newEncState_def plain_state_def
      plain_kek_def newKek_def MockDekClient_def registerKek_mock_def getKek_mock_def newMockDekClient_def Let_def)

lemma plain_id:
  "dekIdFor plain_transform (key_ctx WRITE) None =
     \<lparr>di_kekName = ''n'', di_subject = ''s'', di_version = Some 1, di_algorithm = Some ''AES128_GCM'', di_deleted = False\<rparr>"
  by (simp add: dekIdFor_def plain_transform_def default_version_def)

lemma plain_retrieveDek:
  "retrieveDekFromRegistry plain_env (dekIdFor plain_transform (key_ctx WRITE) None) (plain_state []) = (plain_state [], Inr None)"
  by (simp add: plain_id retrieveDekFromRegistry_def null_on_def m_bind_def m_catch_def on_client_def plain_env_def MockDekClient_def
      getDek_mock_def plain_state_def dekNotFound_def default_version_def)

lemma plain_service_found: "getKmsClient config t i plain_registry = (plain_registry, Inr plain_service)"
  by (simp add: getKmsClient_def findKmsClient_def plain_registry_def plain_service_def)

lemma plain_wrap: "wrapNewKey plain_env plain_transform plain_kek (plain_state []) = (plain_state [], Inr (Some [1]))"
  by (simp add: wrapNewKey_def plain_kek_def newKek_def m_bind_def m_catch_def on_world_def on_kms_def plain_env_def plain_transform_def
      wrapper_encrypt_def newKmsClientWrapper_def getKmsKeyIds_def plain_state_def plain_service_found)
    (simp add: plain_service_def)

lemma plain_createDek:
  "createDek plain_env (dekIdFor plain_transform (key_ctx WRITE) None) None (Some [1]) (plain_state []) = (plain_state [plain_dek], Inr 0)"
  by (simp add: plain_id createDek_def storeDekToRegistry_def null_on_def m_bind_def m_catch_def on_client_def plain_env_def MockDekClient_def
      registerDek_mock_def plain_state_def plain_dek_def default_version_def)

lemma plain_key_material: "base64Encode [1] \<noteq> []"
  by simp

lemma plain_unwrap:
  "\<exists>d. unwrapKey plain_env plain_kek 0 (plain_state [plain_dek]) = (plain_state [d], Inr 0) \<and>
     keyMaterial d = Some (base64Encode [1]) \<and> keyMaterialBytes d = None"
  using plain_key_material
  by (simp add: unwrapKey_def m_bind_def m_catch_def on_client_def on_world_def on_kms_def plain_env_def MockDekClient_def on_mock_heap_def
      getKeyBytes_def getEncryptedBytes_def setKeyMaterial_def falsy_def if_truthy_def plain_dek_def newDek_def Let_def
      wrapper_decrypt_def newKmsClientWrapper_def getKmsKeyIds_def plain_state_def plain_service_found del: base64Encode.simps)
    (simp add: plain_service_def plain_kek_def newKek_def del: base64Encode.simps)

lemma plain_getOrCreateDek:
  "\<exists>d. getOrCreateDek plain_env plain_transform (key_ctx WRITE) None (newEncState newMockDekClient plain_registry ()) =
     (plain_state [d], Inr 0) \<and> keyMaterial d = Some (base64Encode [1]) \<and> keyMaterialBytes d = None"
  using plain_unwrap
  by (auto simp: getOrCreateDek_def m_bind_def plain_getKek plain_retrieveDek isExpired_def replaceDek_def plain_wrap m_catch_def
      plain_createDek)

lemma plain_write:
  "\<exists>s1. transform plain_env plain_transform (key_ctx WRITE) (Some (FBytes [7])) (newEncState newMockDekClient plain_registry ()) =
     (s1, Inr (Some (FBytes (replicate 12 0 @ [7] @ replicate 16 0))))"
proof -
  obtain d where d: "getOrCreateDek plain_env plain_transform (key_ctx WRITE) None (newEncState newMockDekClient plain_registry ()) =
     (plain_state [d], Inr 0)" "keyMaterial d = Some (base64Encode [1])" "keyMaterialBytes d = None"
    using plain_getOrCreateDek by blast
  have "isDekRotated plain_transform = False" by (simp add: isDekRotated_def plain_transform_def)
  with d show ?thesis
    by (simp add: transform_def transform_write_def m_bind_def on_client_def plain_env_def MockDekClient_def on_mock_heap_def
        getKeyBytes_def plain_state_def falsy_def Let_def on_world_def del: base64Encode.simps)
      (simp add: plain_transform_def)
qed

theorem encrypted_values_are_read_back_witness:
  "\<exists>s1 s3. transform plain_env plain_transform (key_ctx WRITE) (Some (FBytes [7])) (newEncState newMockDekClient plain_registry ()) =
     (s1, Inr (Some (FBytes (replicate 12 0 @ [7] @ replicate 16 0)))) \<and>
   transform plain_env plain_transform (key_ctx READ) (Some (FBytes (replicate 12 0 @ [7] @ replicate 16 0)))
     ((run_messages plain_env [(plain_transform, key_ctx WRITE, Some (FBytes [8]))] s1)\<lparr>es_kek := None\<rparr>) = (s3, Inr (Some (FBytes [7])))"
proof -
  obtain s1 where s1: "transform plain_env plain_transform (key_ctx WRITE) (Some (FBytes [7]))
      ((run_messages plain_env ([] :: (enc_transform \<times> unit rule_context \<times> field_value option) list)
         (newEncState newMockDekClient plain_registry ()))\<lparr>es_kek := None\<rparr>) =
     (s1, Inr (Some (FBytes (replicate 12 0 @ [7] @ replicate 16 0))))"
    using plain_write by (auto simp: newEncState_def)
  from encrypted_values_are_read_back [OF plain_dek.dek_codec_axioms _ _ plain_registry_ok _ _ _ key_ctx_params _ s1,
      of "[(plain_transform, key_ctx WRITE, Some (FBytes [8]))]"]
  show ?thesis using s1 plain_crypto_ok by (auto simp: plain_env_def newEncState_def)
qed

end
