(* ===== verification/Encryption_Facts.thy ===== *)
theory Encryption_Facts
  imports Encryption_Runs
begin

text \<open>
  Further facts about the encryption executor: reading registers nothing, a lost race for a new version
  keeps the expired key in use with the REST client, and configuring merges settings without overriding any.
\<close>

section \<open>Reading registers nothing\<close>

definition with_registration ::
    "(string \<Rightarrow> string \<Rightarrow> string \<Rightarrow> bool \<Rightarrow> (string \<times> string) list option \<Rightarrow> string option \<Rightarrow> string option \<Rightarrow> ('c, kek) meth)
     \<Rightarrow> (string \<Rightarrow> string \<Rightarrow> string option \<Rightarrow> int \<Rightarrow> string option \<Rightarrow> ('c, dek_ref) meth) \<Rightarrow> ('c, 'k, 'w) enc_env \<Rightarrow> ('c, 'k, 'w) enc_env" where
  "with_registration f g env = env\<lparr>ee_client := (ee_client env)\<lparr>dc_registerKek := f, dc_registerDek := g\<rparr>\<rparr>"

lemma with_registration_select [simp]:
  "ee_crypto (with_registration f g env) = ee_crypto env" "ee_config (with_registration f g env) = ee_config env"
  "dc_getKek (ee_client (with_registration f g env)) = dc_getKek (ee_client env)"
  "dc_getDek (ee_client (with_registration f g env)) = dc_getDek (ee_client env)"
  "dc_getDekEncryptedKeyMaterialBytes (ee_client (with_registration f g env)) = dc_getDekEncryptedKeyMaterialBytes (ee_client env)"
  "dc_getDekKeyMaterialBytes (ee_client (with_registration f g env)) = dc_getDekKeyMaterialBytes (ee_client env)"
  "dc_setDekKeyMaterial (ee_client (with_registration f g env)) = dc_setDekKeyMaterial (ee_client env)"
  "dc_dek (ee_client (with_registration f g env)) = dc_dek (ee_client env)"
  by (simp_all add: with_registration_def)

lemma getKek_reading:
  "ctx_ruleMode ctx = READ \<Longrightarrow> getKek (with_registration f g env) tr ctx = getKek env tr ctx"
  by (rule ext) (simp add: getKek_def getOrCreateKek_def retrieveKekFromRegistry_def Let_def cong: option.case_cong)

lemma getOrCreateDek_reading:
  "ctx_ruleMode ctx = READ \<Longrightarrow> getOrCreateDek (with_registration f g env) tr ctx version = getOrCreateDek env tr ctx version"
  by (simp add: getOrCreateDek_def getKek_reading retrieveDekFromRegistry_def unwrapKey_def isExpired_def replaceDek_def
      cong: option.case_cong if_cong)

text \<open>
  C22. Reading a value registers neither a key encryption key nor a data encryption key: what it does, to
  the client, the services and the world, is the same whatever the two operations that register would do.
\<close>

theorem reading_registers_nothing:
  assumes "ctx_ruleMode ctx = READ"
  shows "transform (with_registration f g env) tr ctx x = transform env tr ctx x"
  using assms by (cases x) (simp_all add: transform_def transform_read_def getOrCreateDek_reading cong: option.case_cong)

theorem reading_registers_nothing_witness:
  "transform (with_registration (\<lambda>n t i sh ps d c. m_throw (Error ''kek'')) (\<lambda>n s a v m. m_throw (Error ''dek'')) plain_env)
     plain_transform (key_ctx READ) (Some (FBytes [7])) =
   transform plain_env plain_transform (key_ctx READ) (Some (FBytes [7]))"
  by (rule reading_registers_nothing) simp

section \<open>A lost race for a new version\<close>

lemma request_dek_fails: "request_dek env req c = (c', Inl e) \<Longrightarrow> dr_deks c' = dr_deks c \<and> dr_heap c' = dr_heap c"
  by (auto simp: request_dek_def split: prod.splits sum.splits)

lemma createDek_rest_fails:
  "createDek_rest env kekName req c = (c', Inl e) \<Longrightarrow> dr_deks c' = dr_deks c \<and> dr_heap c' = dr_heap c"
  by (auto simp: createDek_rest_def m_catch_def Let_def split: prod.splits sum.splits js_error.splits if_splits dest!: request_dek_fails)

text \<open>
  The REST client keeps the dek it has cached as the latest version when registering a new version
  fails. So when another client was faster and the registry answers 409, the executor that wanted to
  replace an expired dek is given that expired dek again, from the cache, although the registry has a
  newer one.
\<close>

theorem conflict_returns_cached_dek:
  assumes client: "ee_client env = RestDekClient renv"
    and key: "di_version dekId = Some (-1)" "di_deleted dekId = False"
    and cached: "cache_get (de_keepDeks renv) (de_stringify renv (KDek (di_kekName dekId) (di_subject dekId) (-1) (di_algorithm dekId) False))
        (dr_deks (es_client s)) = Some r"
    and material: "encryptedKeyMaterial (dr_heap (es_client s) ! r) \<noteq> None"
    and conflict: "registerDek_rest renv (di_kekName dekId) (di_subject dekId) (di_algorithm dekId) (default_version newVersion)
        (map_option base64Encode encryptedDek) (es_client s) = (c', Inl (RestError msg 409 code))"
  shows "createDek env dekId newVersion encryptedDek s = (s\<lparr>es_client := c'\<rparr>, Inr r)"
proof -
  have same: "dr_deks c' = dr_deks (es_client s) \<and> dr_heap c' = dr_heap (es_client s)"
    using conflict createDek_rest_fails
    by (fastforce simp: registerDek_rest_def m_bind_def Let_def split: option.splits prod.splits sum.splits)
  have "storeDekToRegistry env (dekId\<lparr>di_version := newVersion\<rparr>) encryptedDek s = (s\<lparr>es_client := c'\<rparr>, Inr None)"
    using conflict
    by (simp add: storeDekToRegistry_def null_on_def m_bind_def m_catch_def on_client_def client RestDekClient_def)
  moreover have "retrieveDekFromRegistry env dekId (s\<lparr>es_client := c'\<rparr>) = (s\<lparr>es_client := c'\<rparr>, Inr (Some r))"
    using key cached material same
    by (simp add: retrieveDekFromRegistry_def null_on_def m_bind_def m_catch_def on_client_def client RestDekClient_def
        getDek_rest_def default_version_def)
  ultimately show ?thesis
    by (simp add: createDek_def m_bind_def)
qed

definition conflict_renv :: "(dek_json, unit) dek_env" where
  "conflict_renv =
     \<lparr>de_stringify = id, de_keepKeks = id, de_keepDeks = id, de_kek = (\<lambda>r. m_throw (Error ''kek'')),
      de_dek = (\<lambda>r. m_throw (RestError ''Key already exists'' 409 40972))\<rparr>"

definition conflict_env :: "((dek_json, unit) rest_dek_client, bytes, unit) enc_env" where
  "conflict_env = \<lparr>ee_client = RestDekClient conflict_renv, ee_crypto = plain_crypto, ee_now = (\<lambda>w. 0), ee_config = []\<rparr>"

definition conflict_id :: dek_id where
  "conflict_id = \<lparr>di_kekName = ''n'', di_subject = ''s'', di_version = Some (-1), di_algorithm = Some ''AES128_GCM'', di_deleted = False\<rparr>"

definition conflict_state :: "((dek_json, unit) rest_dek_client, unit) enc_state" where
  "conflict_state = newEncState
     \<lparr>dr_keks = [], dr_deks = [(KDek ''n'' ''s'' (-1) (Some ''AES128_GCM'') False, 0)], dr_heap = [plain_dek], dr_world = ()\<rparr> plain_registry ()"

theorem conflict_returns_cached_dek_witness:
  "createDek conflict_env conflict_id (Some 2) (Some [1]) conflict_state = (conflict_state, Inr 0)"
proof -
  have "registerDek_rest conflict_renv (di_kekName conflict_id) (di_subject conflict_id) (di_algorithm conflict_id) (default_version (Some 2))
      (map_option base64Encode (Some [1])) (es_client conflict_state) = (es_client conflict_state, Inl (RestError ''Key already exists'' 409 40972))"
    by (simp add: registerDek_rest_def createDek_rest_def request_dek_def m_bind_def m_catch_def Let_def cache_get_def default_version_def
        conflict_renv_def conflict_id_def conflict_state_def newEncState_def)
  from conflict_returns_cached_dek [OF _ _ _ _ _ this, where env = conflict_env and r = 0]
  show ?thesis
    by (simp add: conflict_env_def conflict_renv_def conflict_id_def conflict_state_def newEncState_def cache_get_def plain_dek_def
        newDek_def if_truthy_def falsy_def)
qed

section \<open>Configuring\<close>

lemma mergeConfig_keeps: "mergeConfig es m = (m', res) \<Longrightarrow> jm_get m k = Some v \<Longrightarrow> jm_get m' k = Some v"
proof (induction es m rule: mergeConfig.induct)
  case (2 key val es m)
  then show ?case by (cases "k = key") (auto split: option.splits if_splits)
qed simp

lemma mergeConfig_adds: "mergeConfig es m = (m', Inr ()) \<Longrightarrow> (k, v) \<in> set es \<Longrightarrow> jm_get m' k = Some v"
proof (induction es m rule: mergeConfig.induct)
  case (2 key val es m)
  then show ?case
    using mergeConfig_keeps [of es _ m' "Inr ()" key val]
    by (auto split: option.splits if_splits)
qed simp

text \<open>
  A setting an executor was configured with stays, and a configuration that is accepted is in effect
  afterwards: a later one can only add settings.
\<close>

lemma configure_merges:
  assumes "configure mk cfg config e = (e', res)"
  shows "exec_config e = Some m \<Longrightarrow> jm_get m k = Some v \<Longrightarrow> \<exists>m'. exec_config e' = Some m' \<and> jm_get m' k = Some v"
    and "res = Inr () \<Longrightarrow> config = Some es \<Longrightarrow> distinct (map fst es) \<Longrightarrow> (k, v) \<in> set es \<Longrightarrow>
      \<exists>m'. exec_config e' = Some m' \<and> jm_get m' k = Some v"
  using assms mergeConfig_keeps mergeConfig_adds
  by (auto simp: configure_def Let_def split: if_splits option.splits prod.splits)

end
