(* ===== verification/Decimals.thy ===== *)
theory Decimals
  imports JS_Prelude
begin

text \<open>
  The conversions between decimal numbers and \<open>confluent.type.Decimal\<close> of
  \<open>schemaregistry/confluent/type/decimal-utils.ts\<close>: an unscaled integer in two's complement, a scale and a
  precision. The library decimal.js is a parameter; what is relied on of it is \<open>decimal_laws\<close>.
\<close>

section \<open>Two's complement\<close>

definition bytesToBigIntSigned :: "bytes \<Rightarrow> int" where
  "bytesToBigIntSigned bs =
     (if bs = [] then 0
      else let result = foldl (\<lambda>r b. push_bit 8 r OR uint b) 0 bs
           in if hd bs AND 0x80 \<noteq> 0 then result - push_bit (length bs * 8) 1 else result)"

text \<open>\<open>toString(2).length\<close> of a non-negative integer, and the loop that fills the bytes from the last to the first.\<close>

fun bin_length :: "nat \<Rightarrow> nat" where
  "bin_length n = (if n < 2 then 1 else bin_length (n div 2) + 1)"

declare bin_length.simps [simp del]

fun fill_bytes :: "nat \<Rightarrow> int \<Rightarrow> bytes" where
  "fill_bytes 0 v = []"
| "fill_bytes (Suc i) v = fill_bytes i (drop_bit 8 v) @ [word_of_int (v AND 0xFF)]"

definition bigIntToTwosComplementBytes :: "int \<Rightarrow> bytes" where
  "bigIntToTwosComplementBytes n =
     (if n = 0 then [0]
      else let negative = n < 0;
               bits = bin_length (nat (if negative then NOT n else n));
               byteLen = (bits + 1 + 7) div 8;
               byteLen' = (if byteLen = 0 then 1 else byteLen);
               v = (if negative then push_bit (byteLen' * 8) 1 + n else n)
           in fill_bytes byteLen' v)"

section \<open>Plain form and widths\<close>

definition decimalPlainString :: "int \<Rightarrow> int \<Rightarrow> string" where
  "decimalPlainString unscaled scale =
     (let digits = nat_str (nat \<bar>unscaled\<bar>);
          sign = (if unscaled < 0 then ''-'' else [])
      in if scale = 0 then sign @ digits
         else if scale < 0 then sign @ digits @ replicate (nat (- scale)) (CHR ''0'')
         else let ds = (if int (length digits) \<le> scale then replicate (nat scale - length digits + 1) (CHR ''0'') @ digits else digits);
                  point = length ds - nat scale
              in sign @ take point ds @ ''.'' @ drop point ds)"

definition unscaledPrecision :: "int \<Rightarrow> nat" where
  "unscaledPrecision unscaled = (let digits = length (nat_str (nat \<bar>unscaled\<bar>)) in if digits = 0 then 1 else digits)"

definition SANE_WIDTH :: int where "SANE_WIDTH = 10000000"
definition SANE_COEFFICIENT :: int where "SANE_COEFFICIENT = 4300"

text \<open>What the code uses of a \<open>Decimal\<close> of decimal.js: \<open>dj_e\<close> is the exponent of its first significant digit.\<close>

record 'd decimal_js =
  dj_isZero :: "'d \<Rightarrow> bool"
  dj_sd :: "'d \<Rightarrow> nat"
  dj_e :: "'d \<Rightarrow> int"
  dj_decimalPlaces :: "'d \<Rightarrow> nat"
  dj_toFixed :: "'d \<Rightarrow> string"
  dj_new :: "string \<Rightarrow> 'd"

definition shapeOf :: "'d decimal_js \<Rightarrow> 'd \<Rightarrow> int \<times> int" where
  "shapeOf dj d = (let digits = (if dj_isZero dj d then 1 else int (dj_sd dj d)) in (dj_e dj d - digits + 1, digits))"

definition rescaledDigits :: "'d decimal_js \<Rightarrow> int \<Rightarrow> 'd \<Rightarrow> int" where
  "rescaledDigits dj targetScale d =
     (if dj_isZero dj d then 1 else let (exponent, digits) = shapeOf dj d in max 1 (digits + targetScale + exponent))"

definition plainFormLength :: "'d decimal_js \<Rightarrow> 'd \<Rightarrow> int" where
  "plainFormLength dj d = (let (exponent, digits) = shapeOf dj d in digits + \<bar>exponent\<bar>)"

definition requireSaneWidth :: "int \<Rightarrow> string \<Rightarrow> string \<Rightarrow> int \<Rightarrow> unit result" where
  "requireSaneWidth needed fn what limit =
     res_guard (needed \<le> limit)
       (Error (fn @ '': '' @ what @ '' needs '' @ int_str needed @ '' digits, past this client'' @ [CHR 0x27] @ ''s '' @ int_str limit @ ''-digit limit''))"

definition operandWidth :: "'d decimal_js \<Rightarrow> int \<Rightarrow> 'd \<Rightarrow> int \<Rightarrow> int" where
  "operandWidth dj targetScale d scale = (if dj_isZero dj d then 1 else int (dj_sd dj d) + (targetScale - scale))"

definition requireAlignable :: "'d decimal_js \<Rightarrow> 'd \<Rightarrow> int \<Rightarrow> 'd \<Rightarrow> int \<Rightarrow> string \<Rightarrow> unit result" where
  "requireAlignable dj a scaleA b scaleB fn =
     (let targetScale = max scaleA scaleB;
          needed = max (operandWidth dj targetScale a scaleA) (operandWidth dj targetScale b scaleB) + 1
      in requireSaneWidth needed fn ''aligning the operands'' SANE_WIDTH)"

section \<open>Conversions\<close>

text \<open>
  \<open>indexOf\<close> of the point, \<open>slice\<close> and \<open>BigInt\<close>; the division of \<open>bigint\<close>s truncates, and here both are not
  negative.
\<close>

definition before_point :: "string \<Rightarrow> string" where
  "before_point s = takeWhile (\<lambda>c. c \<noteq> CHR ''.'') s"

definition after_point :: "string \<Rightarrow> string" where
  "after_point s = drop 1 (dropWhile (\<lambda>c. c \<noteq> CHR ''.'') s)"

definition decimalToUnscaled :: "'d decimal_js \<Rightarrow> 'd \<Rightarrow> int \<Rightarrow> int result" where
  "decimalToUnscaled dj d scale =
     res_bind (requireSaneWidth (plainFormLength dj d) ''confluent.type.Decimal'' ''the plain form'' SANE_WIDTH) (\<lambda>_.
     res_bind (requireSaneWidth (rescaledDigits dj scale d) ''confluent.type.Decimal'' ''the coefficient'' SANE_COEFFICIENT) (\<lambda>_.
     if dj_isZero dj d then Inr 0
     else
       let plain = dj_toFixed dj d;
           negative = (plain \<noteq> [] \<and> hd plain = CHR ''-'');
           unsigned = (if negative then drop 1 plain else plain);
           intPart = before_point unsigned;
           fracPart = after_point unsigned;
           v = decimal_digits (intPart @ fracPart);
           shift = scale - int (length fracPart);
           w = (if shift \<ge> 0 then v * 10 ^ nat shift else v div 10 ^ nat (- shift))
       in Inr (if negative then - w else w)))"

record proto_decimal =
  pd_value :: bytes
  pd_scale :: int
  pd_precision :: nat

definition fromProtoDecimal :: "'d decimal_js \<Rightarrow> proto_decimal \<Rightarrow> 'd" where
  "fromProtoDecimal dj p =
     (let unscaled = (if pd_value p \<noteq> [] then bytesToBigIntSigned (pd_value p) else 0)
      in dj_new dj (int_str unscaled @ ''e'' @ int_str (- pd_scale p)))"

definition toProto :: "int \<Rightarrow> int \<Rightarrow> proto_decimal" where
  "toProto unscaled scale =
     \<lparr>pd_value = bigIntToTwosComplementBytes unscaled, pd_scale = scale, pd_precision = unscaledPrecision unscaled\<rparr>"

definition toProtoDecimal :: "'d decimal_js \<Rightarrow> 'd \<Rightarrow> proto_decimal result" where
  "toProtoDecimal dj d =
     (let scale = int (dj_decimalPlaces dj d)
      in res_bind (decimalToUnscaled dj d scale) (\<lambda>unscaled. Inr (toProto unscaled scale)))"

definition toProtoDecimalWithScale :: "'d decimal_js \<Rightarrow> 'd \<Rightarrow> int \<Rightarrow> proto_decimal result" where
  "toProtoDecimalWithScale dj d scale =
     (if scale < - 2147483648 \<or> scale > 2147483647
      then Inl (RangeError (''confluent.type.Decimal: scale '' @ int_str scale @ '' does not fit the int32 scale field''))
      else res_bind (decimalToUnscaled dj d scale) (\<lambda>unscaled. Inr (toProto unscaled scale)))"

section \<open>Two's complement is exact and minimal\<close>

lemma shift_or_byte: "push_bit 8 r OR uint (b :: byte) = r * 256 + uint b"
proof -
  have "push_bit 8 r OR uint b = push_bit 8 r + uint b"
    by (intro disjunctive_add [symmetric] ) (auto simp: bit_push_bit_iff bit_uint_iff)
  then show ?thesis by (simp add: push_bit_eq_mult)
qed

definition unsigned_value :: "bytes \<Rightarrow> int" where
  "unsigned_value bs = foldl (\<lambda>r b. push_bit 8 r OR uint b) 0 bs"

lemma unsigned_value_snoc [simp]: "unsigned_value [] = 0" "unsigned_value (bs @ [b]) = unsigned_value bs * 256 + uint b"
  by (simp_all add: unsigned_value_def shift_or_byte)

lemma unsigned_value_bounds: "0 \<le> unsigned_value bs \<and> unsigned_value bs < 256 ^ length bs"
proof (induction bs rule: rev_induct)
  case (snoc b bs)
  have b: "uint b < 256" "0 \<le> uint b" by simp_all
  have "(unsigned_value bs + 1) * 256 \<le> 256 ^ length bs * 256"
    using snoc by (intro mult_right_mono) simp_all
  then show ?case
    using snoc b unfolding unsigned_value_snoc length_append by (simp add: algebra_simps del: uint_byte_less)
qed simp

lemma unsigned_value_Cons: "unsigned_value (b # bs) = uint b * 256 ^ length bs + unsigned_value bs"
proof (induction bs rule: rev_induct)
  case Nil
  then show ?case using unsigned_value_snoc(2) [of "[]" b] by simp
next
  case (snoc c cs)
  then show ?case using unsigned_value_snoc(2) [of "b # cs" c] by (simp add: algebra_simps)
qed

lemma high_bit: "(b AND 0x80 \<noteq> 0) \<longleftrightarrow> uint (b :: byte) \<ge> 128"
proof -
  have "b AND 0x80 \<noteq> 0 \<longleftrightarrow> bit b 7"
    using and_exp_eq_0_iff_not_bit [of b 7] by simp
  also have "\<dots> \<longleftrightarrow> odd (uint b div 128)"
    by (simp add: bit_uint_iff flip: bit_iff_odd [of "uint b" 7, simplified])
  also have "\<dots> \<longleftrightarrow> uint b \<ge> 128"
  proof -
    have "uint b < 256" "0 \<le> uint b" by simp_all
    then show ?thesis by presburger
  qed
  finally show ?thesis .
qed

lemma signed_value:
  assumes "bs \<noteq> []"
  shows "bytesToBigIntSigned bs =
     (if 2 * unsigned_value bs \<ge> 256 ^ length bs then unsigned_value bs - 256 ^ length bs else unsigned_value bs)"
proof -
  obtain b r where bs: "bs = b # r" using assms by (cases bs) auto
  define x :: int where "x = 256 ^ length r"
  define y where "y = uint b * x"
  have r: "0 \<le> unsigned_value r" "unsigned_value r < x" using unsigned_value_bounds [of r] by (simp_all add: x_def)
  have eq: "unsigned_value bs = y + unsigned_value r" "256 ^ length bs = 256 * x"
    by (simp_all add: bs unsigned_value_Cons x_def y_def)
  have high: "128 * x \<le> y" if "uint b \<ge> 128"
    unfolding y_def using that r by (intro mult_right_mono) simp_all
  have low: "y \<le> 127 * x" if "\<not> uint b \<ge> 128"
    unfolding y_def using that r by (intro mult_right_mono) simp_all
  have "(2 * unsigned_value bs \<ge> 256 ^ length bs) = (uint b \<ge> 128)"
    using r high low unfolding eq by (cases "uint b \<ge> 128") simp_all
  moreover have "push_bit (length bs * 8) 1 = (256 ^ length bs :: int)"
    by (simp add: push_bit_eq_mult mult.commute [of _ 8] power_mult)
  ultimately show ?thesis
    using assms unfolding bytesToBigIntSigned_def Let_def unsigned_value_def [symmetric] high_bit by (simp add: bs)
qed

lemma fill_bytes_value:
  "length (fill_bytes k v) = k \<and> unsigned_value (fill_bytes k v) = v mod 256 ^ k"
proof (induction k arbitrary: v)
  case (Suc k)
  have "v AND 255 = v mod 256"
    using take_bit_eq_mask [of 8 v] by (simp add: mask_eq_exp_minus_1 take_bit_eq_mod)
  then have "uint (word_of_int (v AND 255) :: byte) = v mod 256"
    by (simp add: uint_word_of_int take_bit_eq_mod)
  moreover have "(v div 256) mod 256 ^ k * 256 + v mod 256 = v mod (256 * 256 ^ k)"
    using zmod_zmult2_eq [of "256 ^ k" v 256] by (simp add: mult.commute)
  ultimately show ?case
    using Suc by (simp add: drop_bit_eq_div)
qed simp

lemma bin_length_bounds: "n < 2 ^ bin_length n \<and> (n > 0 \<longrightarrow> 2 ^ (bin_length n - 1) \<le> n) \<and> bin_length n \<ge> 1"
proof (induction n rule: bin_length.induct)
  case (1 n)
  show ?case
  proof (cases "n < 2")
    case True
    then show ?thesis by (auto simp: bin_length.simps [of n])
  next
    case False
    then have ih: "n div 2 < 2 ^ bin_length (n div 2)" "2 ^ (bin_length (n div 2) - 1) \<le> n div 2" "bin_length (n div 2) \<ge> 1"
      using 1 by auto
    obtain k where k: "bin_length (n div 2) = Suc k" using ih(3) by (metis Suc_le_D One_nat_def)
    have "n < 2 * 2 ^ Suc k" "2 * 2 ^ k \<le> n" using ih(1,2) by (simp_all add: k)
    then show ?thesis using False by (simp add: bin_length.simps [of n] k)
  qed
qed

text \<open>The number of bytes the code writes, and the range of integers that fit in them.\<close>

definition magnitude :: "int \<Rightarrow> nat" where
  "magnitude n = nat (if n < 0 then NOT n else n)"

lemma fits_iff: "k > 0 \<Longrightarrow> (- (256 ^ k) \<le> 2 * n \<and> 2 * n < 256 ^ k) \<longleftrightarrow> 2 * magnitude n < 256 ^ k"
proof -
  have "2 * magnitude n < 256 ^ k \<longleftrightarrow> 2 * int (magnitude n) < 256 ^ k"
    by (metis (mono_tags) of_nat_less_iff of_nat_mult of_nat_numeral of_nat_power)
  moreover have "int (magnitude n) = (if n < 0 then - n - 1 else n)"
    by (simp add: magnitude_def not_int_def)
  moreover assume "k > 0"
  then obtain h :: int where "256 ^ k = 2 * h" by (metis dvd_def dvd_power even_numeral numeral_Bit0 dvd_trans)
  ultimately show ?thesis by auto
qed

definition byte_length :: "int \<Rightarrow> nat" where
  "byte_length n = (bin_length (magnitude n) + 8) div 8"

lemma byte_length_least:
  assumes "k > 0"
  shows "2 * magnitude n < 256 ^ k \<longleftrightarrow> byte_length n \<le> k"
proof -
  let ?m = "magnitude n" let ?l = "bin_length ?m"
  note b = bin_length_bounds [of ?m]
  have pow: "(256 :: nat) ^ k = 2 ^ (8 * k)" by (simp add: power_mult)
  have "2 * ?m < 2 ^ (8 * k) \<longleftrightarrow> ?l + 1 \<le> 8 * k"
  proof
    assume le: "?l + 1 \<le> 8 * k"
    have "2 * ?m < 2 ^ (?l + 1)" using b by simp
    also have "\<dots> \<le> 2 ^ (8 * k)" using le by (intro power_increasing) simp_all
    finally show "2 * ?m < 2 ^ (8 * k)" .
  next
    assume less: "2 * ?m < 2 ^ (8 * k)"
    show "?l + 1 \<le> 8 * k"
    proof (cases "?m = 0")
      case True
      then show ?thesis using assms by (simp add: bin_length.simps [of 0])
    next
      case False
      then have "2 ^ (?l - 1) * 2 \<le> 2 * ?m" using b by simp
      then have "(2 :: nat) ^ ?l < 2 ^ (8 * k)" using less b by (cases ?l) simp_all
      then show ?thesis by simp
    qed
  qed
  then show ?thesis unfolding pow byte_length_def by linarith
qed

lemma byte_length_pos: "byte_length n > 0"
  using bin_length_bounds [of "magnitude n"] by (simp add: byte_length_def)

lemma bigIntToTwosComplementBytes_alt:
  "bigIntToTwosComplementBytes n = fill_bytes (byte_length n) (if n < 0 then 256 ^ byte_length n + n else n)"
proof (cases "n = 0")
  case True
  then show ?thesis
    by (simp add: bigIntToTwosComplementBytes_def byte_length_def magnitude_def bin_length.simps [of 0])
next
  case False
  have "push_bit (byte_length n * 8) 1 = (256 ^ byte_length n :: int)"
    by (simp add: push_bit_eq_mult mult.commute [of _ 8] power_mult)
  then show ?thesis
    using False byte_length_pos [of n]
    by (cases "n < 0") (simp_all add: bigIntToTwosComplementBytes_def Let_def byte_length_def magnitude_def add.commute)
qed

lemma twos_complement_value:
  "bytesToBigIntSigned (bigIntToTwosComplementBytes n) = n" "length (bigIntToTwosComplementBytes n) = byte_length n"
proof -
  let ?k = "byte_length n"
  define m :: int where "m = 256 ^ ?k"
  have fits: "- m \<le> 2 * n" "2 * n < m"
    using fits_iff [OF byte_length_pos, of n n] byte_length_least [OF byte_length_pos, of n n] by (simp_all add: m_def)
  let ?bs = "bigIntToTwosComplementBytes n"
  show len: "length ?bs = ?k" by (simp add: bigIntToTwosComplementBytes_alt fill_bytes_value)
  have "unsigned_value ?bs = (if n < 0 then m + n else n)"
    unfolding bigIntToTwosComplementBytes_alt using fits by (simp add: fill_bytes_value m_def [symmetric])
  moreover have "?bs \<noteq> []" using len byte_length_pos [of n] by auto
  ultimately show "bytesToBigIntSigned ?bs = n"
    using fits by (auto simp: signed_value len m_def [symmetric])
qed

lemma signed_range:
  assumes "bs \<noteq> []"
  shows "- (256 ^ length bs) \<le> 2 * bytesToBigIntSigned bs" "2 * bytesToBigIntSigned bs < 256 ^ length bs"
  using signed_value [OF assms] unsigned_value_bounds [of bs] by auto

text \<open>
  C37. An integer is written as big-endian two's complement and read back exactly, whatever its size; and no
  shorter non-empty byte string stands for the same integer, so the encoding is minimal at every power of two.
\<close>

theorem twos_complement_exact_and_minimal:
  "bytesToBigIntSigned (bigIntToTwosComplementBytes n) = n \<and>
   bigIntToTwosComplementBytes n \<noteq> [] \<and>
   (\<forall>bs. bs \<noteq> [] \<longrightarrow> bytesToBigIntSigned bs = n \<longrightarrow> length (bigIntToTwosComplementBytes n) \<le> length bs)"
proof (intro conjI allI impI)
  show "bytesToBigIntSigned (bigIntToTwosComplementBytes n) = n" by (rule twos_complement_value)
  show "bigIntToTwosComplementBytes n \<noteq> []"
    using byte_length_pos [of n] twos_complement_value(2) [of n] by auto
  fix bs assume bs: "bs \<noteq> []" "bytesToBigIntSigned bs = n"
  then have "length bs > 0" by simp
  then show "length (bigIntToTwosComplementBytes n) \<le> length bs"
    using signed_range [OF bs(1)] bs(2) fits_iff [of "length bs" n] byte_length_least [of "length bs" n] twos_complement_value(2) by simp
qed

theorem twos_complement_exact_and_minimal_witness:
  "bytesToBigIntSigned (bigIntToTwosComplementBytes (- 128)) = - 128 \<and> length (bigIntToTwosComplementBytes (- 128)) \<le> length [0x80 :: byte]"
proof -
  have "bytesToBigIntSigned [0x80] = - 128"
    by (simp add: bytesToBigIntSigned_def Let_def push_bit_eq_mult)
  then show ?thesis
    using twos_complement_exact_and_minimal [of "- 128"] by blast
qed

section \<open>Decimals survive the conversion\<close>

lemma decimal_digits_simps [simp]:
  "decimal_digits [] = 0" "decimal_digits (s @ [c]) = decimal_digits s * 10 + (of_char c - 48)"
  by (simp_all add: decimal_digits_def)

lemma decimal_digits_zeros:
  "decimal_digits (s @ replicate k (CHR ''0'')) = decimal_digits s * 10 ^ k"
  "decimal_digits (replicate k (CHR ''0'') @ s) = decimal_digits s"
proof -
  show zeros: "decimal_digits (s @ replicate k (CHR ''0'')) = decimal_digits s * 10 ^ k" for s
  proof (induction k)
    case (Suc k)
    have "decimal_digits (s @ replicate (Suc k) (CHR ''0'')) = decimal_digits ((s @ replicate k (CHR ''0'')) @ [CHR ''0''])"
      by (simp only: replicate_append_same [symmetric] replicate_Suc append_assoc)
    then show ?case using Suc unfolding decimal_digits_simps by simp
  qed simp
  show "decimal_digits (replicate k (CHR ''0'') @ s) = decimal_digits s"
  proof (induction s rule: rev_induct)
    case Nil
    then show ?case using zeros [of "[]"] by simp
  next
    case (snoc c s)
    then show ?case by (simp only: append_assoc [symmetric] decimal_digits_simps)
  qed
qed

lemma digit_char_plain: "d < 10 \<Longrightarrow> digit_char d \<noteq> CHR ''.'' \<and> digit_char d \<noteq> CHR ''-''"
  using digit_of_char [of d] by auto

lemma nat_str_plain: "c \<in> set (nat_str n) \<Longrightarrow> c \<noteq> CHR ''.'' \<and> c \<noteq> CHR ''-''"
proof (induction n rule: less_induct)
  case (less n)
  then show ?case
    using digit_char_plain [of n] digit_char_plain [of "n mod 10"] less.IH [of "n div 10"]
    by (cases "n < 10") (auto simp: nat_str.simps [of n])
qed

lemma point_parts:
  assumes "\<forall>c \<in> set a. c \<noteq> CHR ''.''"
  shows "before_point (a @ ''.'' @ b) = a" "after_point (a @ ''.'' @ b) = b" "before_point a = a" "after_point a = []"
proof -
  have all: "\<And>c. c \<in> set a \<Longrightarrow> c \<noteq> CHR ''.''" using assms by blast
  show "before_point (a @ ''.'' @ b) = a" "after_point (a @ ''.'' @ b) = b"
    unfolding before_point_def after_point_def
    using takeWhile_append2 [of a "\<lambda>c. c \<noteq> CHR ''.''" "''.'' @ b"] dropWhile_append2 [of a "\<lambda>c. c \<noteq> CHR ''.''" "''.'' @ b"] all
    by simp_all
  show "before_point a = a" "after_point a = []"
    unfolding before_point_def after_point_def using assms 
    by (simp_all only: takeWhile_eq_all_conv iffD2 [OF dropWhile_eq_Nil_conv] drop_Nil)
qed

text \<open>The plain form without its sign: its digits and the number of those after the point.\<close>

definition unsigned_plain :: "nat \<Rightarrow> int \<Rightarrow> string" where
  "unsigned_plain c scale = decimalPlainString (int c) scale"

lemma decimalPlainString_sign:
  "decimalPlainString c scale = (if c < 0 then ''-'' else []) @ unsigned_plain (nat \<bar>c\<bar>) scale"
  by (simp add: decimalPlainString_def unsigned_plain_def Let_def)

lemma unsigned_plain_parts:
  "decimal_digits (before_point (unsigned_plain c scale) @ after_point (unsigned_plain c scale)) = int c * 10 ^ nat (- scale) \<and>
   length (after_point (unsigned_plain c scale)) = nat scale \<and> unsigned_plain c scale \<noteq> [] \<and> hd (unsigned_plain c scale) \<noteq> CHR ''-''"
proof -
  let ?ds = "nat_str c"
  have plain: "\<forall>x \<in> set ?ds. x \<noteq> CHR ''.''" using nat_str_plain by blast
  have hd: "hd ?ds \<noteq> CHR ''-''" using nat_str_plain [of "hd ?ds" c] by simp
  note v = conjunct1 [OF nat_str_digits [of c]]
  consider "scale = 0" | "scale < 0" | "scale > 0" by linarith
  then show ?thesis
  proof cases
    case 1
    then show ?thesis using hd v point_parts(3,4) [OF plain] by (simp add: unsigned_plain_def decimalPlainString_def Let_def)
  next
    case 2
    then have u: "unsigned_plain c scale = ?ds @ replicate (nat (- scale)) (CHR ''0'')"
      by (simp add: unsigned_plain_def decimalPlainString_def Let_def)
    have "\<forall>x \<in> set (?ds @ replicate (nat (- scale)) (CHR ''0'')). x \<noteq> CHR ''.''"
      unfolding set_append ball_Un set_replicate_conv_if using plain by simp
    note pp = point_parts(3,4) [OF this]
    have "hd (?ds @ replicate (nat (- scale)) (CHR ''0'')) \<noteq> CHR ''-''" using hd by (simp add: hd_append)
    then show ?thesis
      using 2 unfolding u pp append_Nil2 decimal_digits_zeros v by simp
  next
    case 3
    define ds where "ds = (if int (length ?ds) \<le> scale then replicate (nat scale - length ?ds + 1) (CHR ''0'') @ ?ds else ?ds)"
    have dv: "decimal_digits ds = int c" unfolding ds_def using v by (simp only: decimal_digits_zeros split: if_split) simp
    have len: "length ds > nat scale" using 3 by (auto simp: ds_def)
    have ds: "\<forall>x \<in> set ds. x \<noteq> CHR ''.''" "hd ds \<noteq> CHR ''-''"
      unfolding ds_def using plain hd by (simp_all add: ball_Un set_replicate_conv_if)
    define pt where "pt = length ds - nat scale"
    have u: "unsigned_plain c scale = take pt ds @ ''.'' @ drop pt ds"
      using 3 by (simp add: unsigned_plain_def decimalPlainString_def Let_def ds_def pt_def)
    have take: "\<forall>x \<in> set (take pt ds). x \<noteq> CHR ''.''" using ds(1) in_set_takeD by fast
    have ne: "take pt ds \<noteq> []" using len by (auto simp: pt_def)
    then have "hd (unsigned_plain c scale) \<noteq> CHR ''-''" using ds(2) unfolding u by (simp add: hd_take hd_append)
    then show ?thesis
      using 3 dv len point_parts(1,2) [OF take] unfolding u by (simp add: pt_def)
  qed
qed

text \<open>
  What decimal.js documents: a finite number is its significant digits, without trailing zeros, and the
  exponent of the last of them; \<open>toFixed()\<close> renders it exactly and without exponent; a text in exponent notation
  is read exactly.
\<close>

definition decimal_val :: "('d \<Rightarrow> int) \<Rightarrow> ('d \<Rightarrow> int) \<Rightarrow> 'd \<Rightarrow> rat" where
  "decimal_val coeff expo d = of_int (coeff d) * 10 powi expo d"

definition decimal_laws :: "'d decimal_js \<Rightarrow> ('d \<Rightarrow> int) \<Rightarrow> ('d \<Rightarrow> int) \<Rightarrow> bool" where
  "decimal_laws dj coeff expo \<longleftrightarrow>
     (\<forall>d. dj_isZero dj d \<longleftrightarrow> coeff d = 0) \<and>
     (\<forall>d. coeff d \<noteq> 0 \<longrightarrow> dj_sd dj d = length (nat_str (nat \<bar>coeff d\<bar>)) \<and> dj_e dj d = expo d + int (dj_sd dj d) - 1) \<and>
     (\<forall>d. coeff d = 0 \<longrightarrow> dj_e dj d = 0) \<and>
     (\<forall>d. dj_decimalPlaces dj d = nat (- expo d)) \<and>
     (\<forall>d. dj_toFixed dj d = decimalPlainString (coeff d) (- expo d)) \<and>
     (\<forall>u x. decimal_val coeff expo (dj_new dj (int_str u @ ''e'' @ int_str x)) = of_int u * 10 powi x)"

lemma decimalToUnscaled_exact:
  assumes laws: "decimal_laws dj coeff expo" and integral: "\<exists>z. decimal_val coeff expo d * 10 powi scale = of_int z"
    and conv: "decimalToUnscaled dj d scale = Inr u"
  shows "of_int u = decimal_val coeff expo d * 10 powi scale"
proof (cases "coeff d = 0")
  case True
  then have "dj_isZero dj d" using laws by (simp add: decimal_laws_def)
  then show ?thesis using True conv by (auto simp: decimalToUnscaled_def decimal_val_def res_bind_Inr_iff)
next
  case False
  let ?c = "nat \<bar>coeff d\<bar>" let ?u = "unsigned_plain ?c (- expo d)"
  note parts = unsigned_plain_parts [of ?c "- expo d"]
  define v where "v = int ?c * 10 ^ nat (expo d)"
  define shift where "shift = scale - int (nat (- expo d))"
  define w where "w = (if shift \<ge> 0 then v * 10 ^ nat shift else v div 10 ^ nat (- shift))"
  have nz: "\<not> dj_isZero dj d" "dj_toFixed dj d = (if coeff d < 0 then ''-'' else []) @ ?u"
    using laws False by (simp_all add: decimal_laws_def decimalPlainString_sign)
  have neg: "(dj_toFixed dj d \<noteq> [] \<and> hd (dj_toFixed dj d) = CHR ''-'') = (coeff d < 0)"
      "(if coeff d < 0 then drop 1 (dj_toFixed dj d) else dj_toFixed dj d) = ?u"
    using parts by (auto simp: nz(2))
  have parts': "decimal_digits (before_point ?u @ after_point ?u) = v" "length (after_point ?u) = nat (- expo d)"
    using parts by (simp_all add: v_def)
  have u: "u = (if coeff d < 0 then - w else w)"
    using conv nz(1) unfolding decimalToUnscaled_def Let_def neg parts' shift_def [symmetric] w_def [symmetric]
    by (auto simp: res_bind_Inr_iff)
  have abs_val: "\<bar>decimal_val coeff expo d\<bar> * 10 powi scale = of_int v * 10 powi shift"
  proof -
    have "(10 :: rat) powi expo d = 10 ^ nat (expo d) * 10 powi (- int (nat (- expo d)))"
      by (cases "expo d \<ge> 0") (simp_all add: power_int_def)
    moreover have "(10 :: rat) powi (- int (nat (- expo d))) * 10 powi scale = 10 powi shift"
      by (simp add: shift_def power_int_add [symmetric])
    moreover have "\<bar>of_int (coeff d) :: rat\<bar> = of_int (int ?c)" by simp
    ultimately show ?thesis
      by (simp add: decimal_val_def v_def abs_mult power_int_abs mult.assoc)
  qed
  have "of_int w = \<bar>decimal_val coeff expo d\<bar> * 10 powi scale"
  proof (cases "shift \<ge> 0")
    case True
    then show ?thesis unfolding abs_val by (simp add: w_def power_int_def)
  next
    case neg_shift: False
    obtain z where z: "decimal_val coeff expo d * 10 powi scale = of_int z" using integral by blast
    have p: "(10 :: rat) powi shift = 1 / of_int (10 ^ nat (- shift))"
      using neg_shift by (simp add: power_int_def field_simps power_one_over)
    have "\<bar>decimal_val coeff expo d\<bar> * 10 powi scale = of_int \<bar>z\<bar>"
      using arg_cong [OF z, of abs] by (simp add: abs_mult power_int_abs)
    then have "(of_int v :: rat) = of_int (\<bar>z\<bar> * 10 ^ nat (- shift))"
      using abs_val p by (simp add: field_simps)
    then have "v = \<bar>z\<bar> * 10 ^ nat (- shift)" by (simp only: of_int_eq_iff)
    then have "w = \<bar>z\<bar>" using neg_shift by (simp add: w_def)
    then show ?thesis using \<open>\<bar>decimal_val coeff expo d\<bar> * 10 powi scale = of_int \<bar>z\<bar>\<close> by simp
  qed
  moreover have "decimal_val coeff expo d < 0 \<longleftrightarrow> coeff d < 0"
  proof -
    have "(10 :: rat) powi expo d > 0" by simp
    then show ?thesis unfolding decimal_val_def by (simp only: mult_less_0_iff of_int_less_0_iff) (meson not_less_iff_gr_or_eq)
  qed
  ultimately show ?thesis
    by (cases "coeff d < 0") (simp_all add: u)
qed

lemma toProto_roundtrip:
  assumes laws: "decimal_laws dj coeff expo" and u: "of_int u = decimal_val coeff expo d * 10 powi scale"
  shows "decimal_val coeff expo (fromProtoDecimal dj (toProto u scale)) = decimal_val coeff expo d"
proof -
  have "bigIntToTwosComplementBytes u \<noteq> []"
    using byte_length_pos [of u] twos_complement_value(2) [of u] by auto
  then have "decimal_val coeff expo (fromProtoDecimal dj (toProto u scale)) = of_int u * 10 powi (- scale)"
    using laws by (simp add: fromProtoDecimal_def toProto_def twos_complement_value decimal_laws_def)
  also have "\<dots> = decimal_val coeff expo d"
    by (simp add: u power_int_minus)
  finally show ?thesis .
qed

lemma own_scale_integral:
  assumes "decimal_laws dj coeff expo"
  shows "decimal_val coeff expo d * 10 powi int (dj_decimalPlaces dj d) = of_int (coeff d * 10 ^ nat (expo d))"
proof -
  have "(10 :: rat) powi expo d * 10 powi int (nat (- expo d)) = 10 powi (expo d + int (nat (- expo d)))"
    by (simp add: power_int_add)
  also have "\<dots> = 10 ^ nat (expo d)"
    by (cases "expo d \<ge> 0") (simp_all add: power_int_def)
  finally have "(10 :: rat) powi expo d * 10 powi int (nat (- expo d)) = 10 ^ nat (expo d)" .
  then show ?thesis
    using assms by (simp add: decimal_val_def decimal_laws_def mult.assoc)
qed

text \<open>
  C7. A decimal number survives the conversion to confluent.type.Decimal exactly, however many digits it has: the
  bytes hold its value times ten to the scale, which is the requested one, the precision is the number of
  digits of that integer, and reading the message back gives the number. The caller has rounded the number to
  the scale. The hypotheses on decimal.js are its documented behaviour.
\<close>

theorem proto_decimal_roundtrip:
  assumes "decimal_laws dj coeff expo" and "\<exists>z. decimal_val coeff expo d * 10 powi scale = of_int z"
    and "toProtoDecimalWithScale dj d scale = Inr p"
  shows "pd_scale p = scale \<and> - 2147483648 \<le> scale \<and> scale \<le> 2147483647 \<and>
         of_int (bytesToBigIntSigned (pd_value p)) = decimal_val coeff expo d * 10 powi scale \<and>
         pd_precision p = length (nat_str (nat \<bar>bytesToBigIntSigned (pd_value p)\<bar>)) \<and>
         decimal_val coeff expo (fromProtoDecimal dj p) = decimal_val coeff expo d"
proof -
  obtain u where range: "- 2147483648 \<le> scale" "scale \<le> 2147483647" and conv: "decimalToUnscaled dj d scale = Inr u"
      and p: "p = toProto u scale"
    using assms(3) by (auto simp: toProtoDecimalWithScale_def res_bind_Inr_iff split: if_splits)
  have u: "of_int u = decimal_val coeff expo d * 10 powi scale"
    by (rule decimalToUnscaled_exact [OF assms(1,2) conv])
  then show ?thesis
    using range toProto_roundtrip [OF assms(1) u] unfolding p
    by (simp add: toProto_def twos_complement_value unscaledPrecision_def Let_def)
qed

text \<open>
  Written at its own scale, a decimal number is refused exactly when it is not zero and its plain form would pass
  ten million digits or its unscaled integer 4300; everything else is written, and reading it back gives the number.
\<close>

theorem toProtoDecimal_accepts:
  assumes "decimal_laws dj coeff expo"
  shows "(case toProtoDecimal dj d of
            Inr p \<Rightarrow> decimal_val coeff expo (fromProtoDecimal dj p) = decimal_val coeff expo d \<and> pd_scale p = max 0 (- expo d)
          | Inl e \<Rightarrow> True) \<and>
         ((\<exists>p. toProtoDecimal dj d = Inr p) \<longleftrightarrow>
            (let digits = int (length (nat_str (nat \<bar>coeff d\<bar>)))
             in coeff d = 0 \<or> digits + \<bar>expo d\<bar> \<le> 10000000 \<and> digits + max 0 (expo d) \<le> 4300))"
proof
  have dp: "int (dj_decimalPlaces dj d) = max 0 (- expo d)" using assms by (simp add: decimal_laws_def)
  have "\<exists>z. decimal_val coeff expo d * 10 powi int (dj_decimalPlaces dj d) = of_int z"
    using own_scale_integral [OF assms, of d] by blast
  note exact = decimalToUnscaled_exact [OF assms this]
  show "case toProtoDecimal dj d of
            Inr p \<Rightarrow> decimal_val coeff expo (fromProtoDecimal dj p) = decimal_val coeff expo d \<and> pd_scale p = max 0 (- expo d)
          | Inl e \<Rightarrow> True"
  proof (cases "decimalToUnscaled dj d (int (dj_decimalPlaces dj d))")
    case (Inr u)
    then show ?thesis
      using toProto_roundtrip [OF assms exact [OF Inr]] by (simp add: toProtoDecimal_def dp) (simp add: toProto_def)
  qed (simp add: toProtoDecimal_def)
  let ?digits = "int (length (nat_str (nat \<bar>coeff d\<bar>)))"
  have one: "length (nat_str (nat \<bar>coeff d\<bar>)) \<ge> 1" by (metis One_nat_def Suc_leI length_greater_0_conv nat_str_not_Nil)
  have "(\<exists>p. toProtoDecimal dj d = Inr p) \<longleftrightarrow>
      plainFormLength dj d \<le> SANE_WIDTH \<and> rescaledDigits dj (max 0 (- expo d)) d \<le> SANE_COEFFICIENT"
    by (auto simp: toProtoDecimal_def decimalToUnscaled_def dp requireSaneWidth_def res_bind_guard Let_def)
  also have "\<dots> \<longleftrightarrow> coeff d = 0 \<or> ?digits + \<bar>expo d\<bar> \<le> 10000000 \<and> ?digits + max 0 (expo d) \<le> 4300"
    using assms one
    by (cases "coeff d = 0"; cases "expo d \<ge> 0")
      (auto simp: decimal_laws_def plainFormLength_def rescaledDigits_def shapeOf_def Let_def SANE_WIDTH_def SANE_COEFFICIENT_def)
  finally show "(\<exists>p. toProtoDecimal dj d = Inr p) \<longleftrightarrow>
      (let digits = ?digits in coeff d = 0 \<or> digits + \<bar>expo d\<bar> \<le> 10000000 \<and> digits + max 0 (expo d) \<le> 4300)"
    by (simp add: Let_def)
qed

text \<open>A decimal number as a pair of coefficient and exponent.\<close>

definition pair_decimal :: "(int \<times> int) decimal_js" where
  "pair_decimal =
     \<lparr>dj_isZero = \<lambda>(c, x). c = 0, dj_sd = \<lambda>(c, x). length (nat_str (nat \<bar>c\<bar>)),
      dj_e = \<lambda>(c, x). if c = 0 then 0 else x + int (length (nat_str (nat \<bar>c\<bar>))) - 1,
      dj_decimalPlaces = \<lambda>(c, x). nat (- x), dj_toFixed = \<lambda>(c, x). decimalPlainString c (- x),
      dj_new = \<lambda>s. (decimal_value (takeWhile (\<lambda>c. c \<noteq> CHR ''e'') s), decimal_value (drop 1 (dropWhile (\<lambda>c. c \<noteq> CHR ''e'') s)))\<rparr>"

lemma nat_str_no_e: "c \<in> set (nat_str n) \<Longrightarrow> c \<noteq> CHR ''e''"
proof (induction n rule: less_induct)
  case (less n)
  have "digit_char k \<noteq> CHR ''e''" if "k < 10" for k using digit_of_char [OF that] that by auto
  from this [of n] this [of "n mod 10"] show ?case
    using less.prems less.IH [of "n div 10"] by (cases "n < 10") (auto simp: nat_str.simps [of n])
qed

lemma int_str_no_e: "c \<in> set (int_str n) \<Longrightarrow> c \<noteq> CHR ''e''"
  using nat_str_no_e by (auto simp: int_str_def split: if_splits)

lemma pair_decimal_laws: "decimal_laws pair_decimal fst snd"
proof -
  have "dj_new pair_decimal (int_str u @ ''e'' @ int_str x) = (u, x)" for u x
    using takeWhile_append2 [of "int_str u" "\<lambda>c. c \<noteq> CHR ''e''" "''e'' @ int_str x"]
      dropWhile_append2 [of "int_str u" "\<lambda>c. c \<noteq> CHR ''e''" "''e'' @ int_str x"] int_str_no_e
    by (simp add: pair_decimal_def decimal_value_int_str)
  then show ?thesis
    by (auto simp: decimal_laws_def decimal_val_def) (simp_all add: pair_decimal_def)
qed

theorem proto_decimal_roundtrip_witness:
  "\<exists>p. toProtoDecimalWithScale pair_decimal (- 199, - 1) 2 = Inr p \<and> pd_scale p = 2 \<and>
     decimal_val fst snd (fromProtoDecimal pair_decimal p) = - 199 / 10"
proof -
  have "of_int (- 1990) = decimal_val fst snd (- 199, - 1) * 10 powi 2"
    by (simp add: decimal_val_def power_int_def)
  then have integral: "\<exists>z. decimal_val fst snd (- 199, - 1) * 10 powi 2 = of_int z" by metis
  obtain p where p: "toProtoDecimalWithScale pair_decimal (- 199, - 1) 2 = Inr p"
    by (simp add: toProtoDecimalWithScale_def decimalToUnscaled_def requireSaneWidth_def res_bind_guard plainFormLength_def rescaledDigits_def
        shapeOf_def pair_decimal_def SANE_WIDTH_def SANE_COEFFICIENT_def nat_str.simps Let_def)
  then show ?thesis
    using proto_decimal_roundtrip [OF pair_decimal_laws integral p] by (simp add: decimal_val_def power_int_def)
qed

theorem toProtoDecimal_accepts_witness:
  "(\<exists>p. toProtoDecimal pair_decimal (5, - 3) = Inr p) \<and> \<not> (\<exists>p. toProtoDecimal pair_decimal (5, 4300) = Inr p)"
  using toProtoDecimal_accepts [OF pair_decimal_laws, of "(5, - 3)"] toProtoDecimal_accepts [OF pair_decimal_laws, of "(5, 4300)"]
  by (simp add: nat_str.simps)

end
