(* ===== verification/Rw_Lock.thy ===== *)
theory Rw_Lock
  imports JS_Prelude
begin

text \<open>
  Class \<open>Lock\<close> of \<open>lib/kafkajs/_common.js\<close>, a readers-writer lock with reentrant calls.

  A call \<open>read(task)\<close> or \<open>write(task)\<close> tests the lock and waits for a promise until it gets in, runs its task,
  and then releases. The code between two \<open>await\<close>s runs alone, so a run of the lock is a sequence of three
  kinds of events: a call begins and tests the lock, a call that was notified tests it again, the task
  of a call ends. Calls made inside a task share the store of that task (\<open>AsyncLocalStorage\<close>), whether
  or not the task waits for them.
\<close>

section \<open>The lock\<close>

datatype lock_kind = Reader | Writer

datatype call_status = Sleeping | Woken | Inside | Left

record lock_call =
  lc_store :: nat
  lc_kind :: lock_kind
  lc_status :: call_status

record lock_store =
  sl_readers :: int
  sl_writers :: int

record rw_lock =
  lk_readers :: int
  lk_writers :: int
  lk_stores :: "lock_store list"
  lk_calls :: "lock_call list"

definition newLock :: rw_lock where
  "newLock = \<lparr>lk_readers = 0, lk_writers = 0, lk_stores = [], lk_calls = []\<rparr>"

definition createAsyncLocalStorageStore :: lock_store where
  "createAsyncLocalStorageStore = \<lparr>sl_readers = 0, sl_writers = 0\<rparr>"

abbreviation store_of :: "rw_lock \<Rightarrow> nat \<Rightarrow> lock_store" where
  "store_of l s \<equiv> lk_stores l ! s"

text \<open>All calls wait for the same promise, which is resolved and replaced.\<close>

definition wake_up :: "lock_call \<Rightarrow> lock_call" where
  "wake_up c = (if lc_status c = Sleeping then c\<lparr>lc_status := Woken\<rparr> else c)"

definition notifyZeroReadersAndWriters :: "rw_lock \<Rightarrow> rw_lock" where
  "notifyZeroReadersAndWriters l =
     (if lk_readers l = 0 \<and> lk_writers l = 0 then l\<lparr>lk_calls := map wake_up (lk_calls l)\<rparr> else l)"

text \<open>
  A test of the lock for a call of a store; \<open>False\<close> if the call has to wait. A reader looks at the writers of its store
  only when it begins; after a wait it tests the lock alone.
\<close>

definition acquireRead :: "bool \<Rightarrow> nat \<Rightarrow> rw_lock \<Rightarrow> rw_lock \<times> bool" where
  "acquireRead first s l =
     (if first \<and> sl_writers (store_of l s) \<noteq> 0 then (l, True)
      else if lk_writers l > 0 then (l, False)
      else (l\<lparr>lk_readers := lk_readers l + 1,
              lk_stores := (lk_stores l)[s := (store_of l s)\<lparr>sl_readers := sl_readers (store_of l s) + 1\<rparr>]\<rparr>, True))"

definition acquireWrite :: "nat \<Rightarrow> rw_lock \<Rightarrow> rw_lock \<times> bool" where
  "acquireWrite s l =
     (let readers = lk_readers l - sl_readers (store_of l s);
          writers = lk_writers l - sl_writers (store_of l s)
      in if readers > 0 \<or> writers > 0 then (l, False)
         else (l\<lparr>lk_writers := lk_writers l + 1,
                 lk_stores := (lk_stores l)[s := (store_of l s)\<lparr>sl_writers := sl_writers (store_of l s) + 1\<rparr>]\<rparr>, True))"

definition releaseRead :: "nat \<Rightarrow> rw_lock \<Rightarrow> rw_lock" where
  "releaseRead s l =
     notifyZeroReadersAndWriters
       (l\<lparr>lk_readers := lk_readers l - 1,
          lk_stores := (lk_stores l)[s := (store_of l s)\<lparr>sl_readers := sl_readers (store_of l s) - 1\<rparr>]\<rparr>)"

definition releaseWrite :: "nat \<Rightarrow> rw_lock \<Rightarrow> rw_lock" where
  "releaseWrite s l =
     notifyZeroReadersAndWriters
       (l\<lparr>lk_writers := lk_writers l - 1,
          lk_stores := (lk_stores l)[s := (store_of l s)\<lparr>sl_writers := sl_writers (store_of l s) - 1\<rparr>]\<rparr>)"

section \<open>Runs\<close>

definition set_status :: "nat \<Rightarrow> call_status \<Rightarrow> rw_lock \<Rightarrow> rw_lock" where
  "set_status i st l = l\<lparr>lk_calls := (lk_calls l)[i := (lk_calls l ! i)\<lparr>lc_status := st\<rparr>]\<rparr>"

text \<open>One turn of the loop in \<open>acquireRead\<close> or \<open>acquireWrite\<close> of call \<open>i\<close>, the first one or one after a wait.\<close>

definition acquire :: "bool \<Rightarrow> nat \<Rightarrow> rw_lock \<Rightarrow> rw_lock" where
  "acquire first i l =
     (let c = lk_calls l ! i;
          (l', entered) = (case lc_kind c of Reader \<Rightarrow> acquireRead first (lc_store c) l | Writer \<Rightarrow> acquireWrite (lc_store c) l)
      in set_status i (if entered then Inside else Sleeping) l')"

definition release :: "nat \<Rightarrow> rw_lock \<Rightarrow> rw_lock" where
  "release i l =
     (let c = lk_calls l ! i; l' = set_status i Left l
      in case lc_kind c of Reader \<Rightarrow> releaseRead (lc_store c) l' | Writer \<Rightarrow> releaseWrite (lc_store c) l')"

text \<open>
  A call begins in a store that exists, when it is made inside a task, or in a new one. Events that
  cannot happen have no result.
\<close>

datatype lock_event = Begin nat lock_kind | Wake nat | End nat

definition begin_call :: "nat \<Rightarrow> lock_kind \<Rightarrow> rw_lock \<Rightarrow> rw_lock" where
  "begin_call s k l =
     (let l1 = (if s < length (lk_stores l) then l
                else l\<lparr>lk_stores := lk_stores l @ [createAsyncLocalStorageStore]\<rparr>)
      in acquire True (length (lk_calls l))
           (l1\<lparr>lk_calls := lk_calls l @ [\<lparr>lc_store = s, lc_kind = k, lc_status = Woken\<rparr>]\<rparr>))"

fun lock_step :: "lock_event \<Rightarrow> rw_lock \<Rightarrow> rw_lock option" where
  "lock_step (Begin s k) l = (if s \<le> length (lk_stores l) then Some (begin_call s k l) else None)"
| "lock_step (Wake i) l =
     (if i < length (lk_calls l) \<and> lc_status (lk_calls l ! i) = Woken then Some (acquire False i l) else None)"
| "lock_step (End i) l =
     (if i < length (lk_calls l) \<and> lc_status (lk_calls l ! i) = Inside then Some (release i l) else None)"

fun lock_run :: "lock_event list \<Rightarrow> rw_lock \<Rightarrow> rw_lock option" where
  "lock_run [] l = Some l"
| "lock_run (e # es) l = (case lock_step e l of None \<Rightarrow> None | Some l' \<Rightarrow> lock_run es l')"

text \<open>No read begins in a store that holds the lock for writing.\<close>

fun reads_outside :: "lock_event \<Rightarrow> rw_lock \<Rightarrow> bool" where
  "reads_outside (Begin s k) l \<longleftrightarrow> (k = Reader \<and> s < length (lk_stores l) \<longrightarrow> sl_writers (store_of l s) = 0)"
| "reads_outside (Wake i) l \<longleftrightarrow> True"
| "reads_outside (End i) l \<longleftrightarrow> True"

text \<open>The states that can be reached without such a read, and those that can be reached without any reentrant call.\<close>

inductive lock_reach :: "rw_lock \<Rightarrow> bool" where
  reach_new: "lock_reach newLock"
| reach_step: "lock_reach l \<Longrightarrow> reads_outside e l \<Longrightarrow> lock_step e l = Some l' \<Longrightarrow> lock_reach l'"

fun outside_run :: "lock_event list \<Rightarrow> rw_lock \<Rightarrow> bool" where
  "outside_run [] l \<longleftrightarrow> True"
| "outside_run (e # es) l \<longleftrightarrow> reads_outside e l \<and> (case lock_step e l of None \<Rightarrow> True | Some l' \<Rightarrow> outside_run es l')"

fun fresh_store :: "lock_event \<Rightarrow> rw_lock \<Rightarrow> bool" where
  "fresh_store (Begin s k) l \<longleftrightarrow> s = length (lk_stores l)"
| "fresh_store e l \<longleftrightarrow> True"

inductive flat_reach :: "rw_lock \<Rightarrow> bool" where
  flat_new: "flat_reach newLock"
| flat_step: "flat_reach l \<Longrightarrow> fresh_store e l \<Longrightarrow> lock_step e l = Some l' \<Longrightarrow> flat_reach l'"

end
