(* ===== verification/Rw_Lock_Facts.thy ===== *)
theory Rw_Lock_Facts
  imports Rw_Lock
begin

text \<open>
  What the lock promises. Its counters count the calls that are inside, a writer is alone with the calls
  of its own store, and without reentrant calls nobody waits for a lock that is free. Both promises
  fail where the comment of the class goes further: a read inside a write is released although
  nothing was acquired, and an upgrade waits for a notification that its own read prevents.
\<close>

section \<open>Counting calls\<close>

definition held :: "(lock_call \<Rightarrow> bool) \<Rightarrow> lock_call list \<Rightarrow> int" where
  "held P cs = int (length (filter (\<lambda>c. lc_status c = Inside \<and> P c) cs))"

lemma held_update:
  "i < length cs \<Longrightarrow>
     held P (cs[i := c]) = held P cs - of_bool (lc_status (cs ! i) = Inside \<and> P (cs ! i)) + of_bool (lc_status c = Inside \<and> P c)"
proof (induction cs arbitrary: i)
  case Nil
  then show ?case by simp
next
  case (Cons x xs)
  then show ?case by (cases i) (auto simp: held_def)
qed

lemma held_append: "held P (cs @ ds) = held P cs + held P ds"
  by (simp add: held_def)

lemma held_nonneg [simp]: "0 \<le> held P cs"
  by (simp add: held_def)

lemma held_split: "held P cs = held (\<lambda>c. P c \<and> Q c) cs + held (\<lambda>c. P c \<and> \<not> Q c) cs"
  by (induction cs) (auto simp: held_def)

lemma held_zero: "held P cs \<le> 0 \<longleftrightarrow> (\<forall>c \<in> set cs. lc_status c = Inside \<longrightarrow> \<not> P c)"
  by (auto simp: held_def filter_empty_conv)

lemma wake_up_simps [simp]:
  "lc_status (wake_up c) = Inside \<longleftrightarrow> lc_status c = Inside"
  "lc_status (wake_up c) = Left \<longleftrightarrow> lc_status c = Left"
  "lc_status (wake_up c) \<noteq> Sleeping"
  "lc_kind (wake_up c) = lc_kind c" "lc_store (wake_up c) = lc_store c"
  by (simp_all add: wake_up_def)

lemma held_woken:
  assumes "\<And>c. P (wake_up c) = P c"
  shows "held P (map wake_up cs) = held P cs"
  by (induction cs) (simp_all add: held_def assms)

abbreviation reading :: "lock_call \<Rightarrow> bool" where "reading c \<equiv> lc_kind c = Reader"
abbreviation writing :: "lock_call \<Rightarrow> bool" where "writing c \<equiv> lc_kind c = Writer"

section \<open>The invariant\<close>

definition counts_ok :: "rw_lock \<Rightarrow> bool" where
  "counts_ok l \<longleftrightarrow>
     lk_readers l = held reading (lk_calls l) \<and> lk_writers l = held writing (lk_calls l) \<and>
     (\<forall>s < length (lk_stores l).
        sl_readers (store_of l s) = held (\<lambda>c. reading c \<and> lc_store c = s) (lk_calls l) \<and>
        sl_writers (store_of l s) = held (\<lambda>c. writing c \<and> lc_store c = s) (lk_calls l)) \<and>
     (\<forall>c \<in> set (lk_calls l). lc_store c < length (lk_stores l))"

definition exclusive :: "rw_lock \<Rightarrow> bool" where
  "exclusive l \<longleftrightarrow>
     (\<forall>c \<in> set (lk_calls l). \<forall>d \<in> set (lk_calls l).
        lc_status c = Inside \<longrightarrow> writing c \<longrightarrow> lc_status d = Inside \<longrightarrow> lc_store c = lc_store d)"

lemma counts_ok_D:
  assumes "counts_ok l" and "i < length (lk_calls l)"
  shows "lc_store (lk_calls l ! i) < length (lk_stores l)"
  using assms nth_mem by (fastforce simp: counts_ok_def)

text \<open>A writer gets in only when every call inside belongs to its store.\<close>

lemma others_zero:
  assumes "counts_ok l" and s: "s < length (lk_stores l)"
  shows "lk_readers l - sl_readers (store_of l s) \<le> 0 \<longleftrightarrow>
           (\<forall>c \<in> set (lk_calls l). lc_status c = Inside \<longrightarrow> reading c \<longrightarrow> lc_store c = s)"
    and "lk_writers l - sl_writers (store_of l s) \<le> 0 \<longleftrightarrow>
           (\<forall>c \<in> set (lk_calls l). lc_status c = Inside \<longrightarrow> writing c \<longrightarrow> lc_store c = s)"
proof -
  have "lk_readers l - sl_readers (store_of l s) = held (\<lambda>c. reading c \<and> lc_store c \<noteq> s) (lk_calls l)"
    and "lk_writers l - sl_writers (store_of l s) = held (\<lambda>c. writing c \<and> lc_store c \<noteq> s) (lk_calls l)"
    using assms held_split [of reading "lk_calls l" "\<lambda>c. lc_store c = s"]
      held_split [of writing "lk_calls l" "\<lambda>c. lc_store c = s"]
    by (simp_all add: counts_ok_def)
  then show "lk_readers l - sl_readers (store_of l s) \<le> 0 \<longleftrightarrow>
           (\<forall>c \<in> set (lk_calls l). lc_status c = Inside \<longrightarrow> reading c \<longrightarrow> lc_store c = s)"
    and "lk_writers l - sl_writers (store_of l s) \<le> 0 \<longleftrightarrow>
           (\<forall>c \<in> set (lk_calls l). lc_status c = Inside \<longrightarrow> writing c \<longrightarrow> lc_store c = s)"
    by (auto simp: held_zero)
qed

lemma no_writers:
  "counts_ok l \<Longrightarrow> \<not> lk_writers l > 0 \<longleftrightarrow> (\<forall>c \<in> set (lk_calls l). lc_status c = Inside \<longrightarrow> \<not> writing c)"
  by (simp add: counts_ok_def not_less held_zero)

section \<open>Every event keeps it\<close>

lemma notify_keeps:
  shows "counts_ok l \<Longrightarrow> counts_ok (notifyZeroReadersAndWriters l)"
    and "exclusive l \<Longrightarrow> exclusive (notifyZeroReadersAndWriters l)"
  by (simp_all add: notifyZeroReadersAndWriters_def counts_ok_def exclusive_def held_woken)

text \<open>Calls that were not inside before, with the counters of their stores, come inside or leave.\<close>

definition count_call :: "nat \<Rightarrow> int \<Rightarrow> rw_lock \<Rightarrow> rw_lock" where
  "count_call i n l =
     (let c = lk_calls l ! i; s = lc_store c; st = store_of l s
      in case lc_kind c of
           Reader \<Rightarrow> l\<lparr>lk_readers := lk_readers l + n, lk_stores := (lk_stores l)[s := st\<lparr>sl_readers := sl_readers st + n\<rparr>]\<rparr>
         | Writer \<Rightarrow> l\<lparr>lk_writers := lk_writers l + n, lk_stores := (lk_stores l)[s := st\<lparr>sl_writers := sl_writers st + n\<rparr>]\<rparr>)"

lemma calls_count_call [simp]: "lk_calls (count_call i n l) = lk_calls l"
  by (simp add: count_call_def Let_def split: lock_kind.split)

lemma counts_ok_set_status:
  assumes ok: "counts_ok l" and i: "i < length (lk_calls l)"
    and n: "n = of_bool (st = Inside) - of_bool (lc_status (lk_calls l ! i) = Inside)"
  shows "counts_ok (set_status i st (count_call i n l))"
proof -
  define c where "c = (lk_calls l ! i)\<lparr>lc_status := st\<rparr>"
  have upd: "held P ((lk_calls l)[i := c]) = held P (lk_calls l) + n * of_bool (P (lk_calls l ! i))"
    if "P c = P (lk_calls l ! i)" for P
    using that by (simp add: held_update i n c_def)
  have "lc_store d < length (lk_stores l)" if "d \<in> set ((lk_calls l)[i := c])" for d
  proof -
    have "d = c \<or> d \<in> set (lk_calls l)"
      using that set_update_subset_insert [of "lk_calls l" i c] by blast
    then show ?thesis
      using ok counts_ok_D [OF ok i] by (auto simp: counts_ok_def c_def)
  qed
  moreover have "lc_kind c = lc_kind (lk_calls l ! i)" "lc_store c = lc_store (lk_calls l ! i)"
    by (simp_all add: c_def)
  ultimately show ?thesis
    using ok counts_ok_D [OF ok i]
    by (cases "lc_kind (lk_calls l ! i)")
       (simp_all add: counts_ok_def set_status_def count_call_def Let_def upd nth_list_update flip: c_def)
qed

lemma exclusive_set_status:
  assumes ex: "exclusive l"
    and st: "st = Inside \<Longrightarrow> \<forall>d \<in> set (lk_calls l). lc_status d = Inside \<longrightarrow>
           (writing d \<or> writing (lk_calls l ! i)) \<longrightarrow> lc_store d = lc_store (lk_calls l ! i)"
  shows "exclusive (set_status i st l)"
proof -
  define c where "c = (lk_calls l ! i)\<lparr>lc_status := st\<rparr>"
  have c: "lc_kind c = lc_kind (lk_calls l ! i)" "lc_store c = lc_store (lk_calls l ! i)" "lc_status c = st"
    by (simp_all add: c_def)
  have same: "lc_store d = lc_store e"
    if "d = c \<or> d \<in> set (lk_calls l)" "e = c \<or> e \<in> set (lk_calls l)"
       "lc_status d = Inside" "writing d" "lc_status e = Inside" for d e
    using that c st ex unfolding exclusive_def by metis
  have "set (lk_calls (set_status i st l)) \<subseteq> insert c (set (lk_calls l))"
    by (simp add: set_status_def set_update_subset_insert flip: c_def)
  then have sub: "d = c \<or> d \<in> set (lk_calls l)" if "d \<in> set (lk_calls (set_status i st l))" for d
    using that by blast
  show ?thesis
    unfolding exclusive_def by (intro ballI impI) (rule same [OF sub sub])
qed

text \<open>The steps of the model in these terms.\<close>

lemma acquire_eq:
  "acquire first i l =
     (let c = lk_calls l ! i; st = store_of l (lc_store c)
      in case lc_kind c of
           Reader \<Rightarrow> if first \<and> sl_writers st \<noteq> 0 then set_status i Inside l
                     else if lk_writers l > 0 then set_status i Sleeping l
                     else set_status i Inside (count_call i 1 l)
         | Writer \<Rightarrow> if lk_readers l - sl_readers st > 0 \<or> lk_writers l - sl_writers st > 0 then set_status i Sleeping l
                     else set_status i Inside (count_call i 1 l))"
  by (simp add: acquire_def acquireRead_def acquireWrite_def count_call_def Let_def split: lock_kind.split)

lemma release_eq: "release i l = notifyZeroReadersAndWriters (set_status i Left (count_call i (- 1) l))"
  by (cases l) (simp add: release_def releaseRead_def releaseWrite_def count_call_def set_status_def Let_def split: lock_kind.split)

lemma count_call_0 [simp]: "count_call i 0 l = l"
  by (simp add: count_call_def Let_def split: lock_kind.split)

lemma exclusive_count_call [simp]: "exclusive (count_call i n l) = exclusive l"
  by (simp add: exclusive_def)

lemma acquire_keeps:
  assumes ok: "counts_ok l" and ex: "exclusive l" and i: "i < length (lk_calls l)"
    and out: "lc_status (lk_calls l ! i) \<noteq> Inside"
    and rd: "first \<Longrightarrow> reading (lk_calls l ! i) \<Longrightarrow> sl_writers (store_of l (lc_store (lk_calls l ! i))) = 0"
  shows "counts_ok (acquire first i l) \<and> exclusive (acquire first i l)"
proof -
  let ?c = "lk_calls l ! i"
  have sleep: "counts_ok (set_status i Sleeping l)" "exclusive (set_status i Sleeping l)"
    using counts_ok_set_status [OF ok i, of 0 Sleeping] exclusive_set_status [OF ex, of Sleeping i] out by simp_all
  have counted: "counts_ok (set_status i Inside (count_call i 1 l))"
    using counts_ok_set_status [OF ok i, of 1 Inside] out by simp
  have inside: "exclusive (set_status i Inside (count_call i 1 l))"
    if "\<forall>d \<in> set (lk_calls l). lc_status d = Inside \<longrightarrow> (writing d \<or> writing ?c) \<longrightarrow> lc_store d = lc_store ?c"
    using that ex by (intro exclusive_set_status) simp_all
  note z = others_zero [OF ok counts_ok_D [OF ok i]]
  show ?thesis
  proof (cases "lc_kind ?c")
    case Reader
    have "exclusive (set_status i Inside (count_call i 1 l))" if "\<not> lk_writers l > 0"
      using that no_writers [OF ok] Reader by (intro inside) auto
    then show ?thesis
      using Reader rd sleep counted by (auto simp: acquire_eq Let_def)
  next
    case Writer
    have "exclusive (set_status i Inside (count_call i 1 l))"
      if "\<not> (lk_readers l - sl_readers (store_of l (lc_store ?c)) > 0 \<or> lk_writers l - sl_writers (store_of l (lc_store ?c)) > 0)"
    proof (intro inside ballI impI)
      fix d
      assume "d \<in> set (lk_calls l)" "lc_status d = Inside"
      then show "lc_store d = lc_store ?c"
        using that z by (cases "lc_kind d") auto
    qed
    then show ?thesis
      using Writer sleep counted by (simp add: acquire_eq Let_def)
  qed
qed

lemma release_keeps:
  assumes ok: "counts_ok l" and ex: "exclusive l" and i: "i < length (lk_calls l)"
    and inside: "lc_status (lk_calls l ! i) = Inside"
  shows "counts_ok (release i l) \<and> exclusive (release i l)"
  using counts_ok_set_status [OF ok i, of "- 1" Left] exclusive_set_status [of "count_call i (- 1) l" Left i] ex inside
  by (simp add: release_eq notify_keeps)

text \<open>A call that begins is added outside, with a store of its own if it is not made inside a task.\<close>

definition added :: "nat \<Rightarrow> lock_kind \<Rightarrow> rw_lock \<Rightarrow> rw_lock" where
  "added s k l =
     l\<lparr>lk_stores := lk_stores l @ (if s < length (lk_stores l) then [] else [createAsyncLocalStorageStore]),
       lk_calls := lk_calls l @ [\<lparr>lc_store = s, lc_kind = k, lc_status = Woken\<rparr>]\<rparr>"

lemma begin_call_eq: "begin_call s k l = acquire True (length (lk_calls l)) (added s k l)"
  by (cases l) (simp add: begin_call_def added_def)

lemma added_calls [simp]: "lk_calls (added s k l) = lk_calls l @ [\<lparr>lc_store = s, lc_kind = k, lc_status = Woken\<rparr>]"
  and added_counters [simp]: "lk_readers (added s k l) = lk_readers l" "lk_writers (added s k l) = lk_writers l"
  by (simp_all add: added_def)

lemma added_keeps:
  assumes ok: "counts_ok l" and s: "s \<le> length (lk_stores l)"
  shows "counts_ok (added s k l)" and "exclusive l \<Longrightarrow> exclusive (added s k l)"
proof -
  have new: "held P [\<lparr>lc_store = s', lc_kind = k, lc_status = Woken\<rparr>] = 0" for P s'
    by (simp add: held_def)
  have fresh: "held (\<lambda>c. P c \<and> lc_store c = length (lk_stores l)) (lk_calls l) = 0" for P
    using ok held_zero [of "\<lambda>c. P c \<and> lc_store c = length (lk_stores l)" "lk_calls l"]
    by (auto simp: counts_ok_def order_antisym_conv dest!: bspec)
  show "counts_ok (added s k l)"
    using ok s fresh
    by (cases "s < length (lk_stores l)")
       (auto simp: counts_ok_def added_def held_append new nth_append less_Suc_eq createAsyncLocalStorageStore_def)
  show "exclusive (added s k l)" if "exclusive l"
    using that by (auto simp: exclusive_def)
qed

lemma step_keeps:
  assumes ok: "counts_ok l" "exclusive l" and out: "reads_outside e l" and "lock_step e l = Some l'"
  shows "counts_ok l' \<and> exclusive l'"
proof (cases e)
  case (Begin s k)
  then have s: "s \<le> length (lk_stores l)" and l': "l' = acquire True (length (lk_calls l)) (added s k l)"
    using assms(4) by (auto simp: begin_call_eq split: if_splits)
  have "sl_writers (store_of (added s k l) s) = 0" if "k = Reader"
    using that out s Begin by (auto simp: added_def nth_append createAsyncLocalStorageStore_def)
  then show ?thesis
    unfolding l' using added_keeps [OF ok(1) s] ok(2) by (intro acquire_keeps) (auto simp: nth_append)
next
  case (Wake i)
  then show ?thesis
    using assms acquire_keeps [OF ok, of i False] by (simp split: if_splits)
next
  case (End i)
  then show ?thesis
    using assms release_keeps [OF ok, of i] by (simp split: if_splits)
qed

lemma reach_ok: "lock_reach l \<Longrightarrow> counts_ok l \<and> exclusive l"
proof (induction rule: lock_reach.induct)
  case reach_new
  then show ?case by (simp add: newLock_def counts_ok_def exclusive_def held_def)
next
  case (reach_step l e l')
  then show ?case using step_keeps by blast
qed

lemma reach_run: "lock_reach l \<Longrightarrow> outside_run es l \<Longrightarrow> lock_run es l = Some l' \<Longrightarrow> lock_reach l'"
  by (induction es arbitrary: l) (auto split: option.splits intro: lock_reach.reach_step)

lemmas lock_eval =
  newLock_def begin_call_def acquire_def acquireRead_def acquireWrite_def release_def releaseRead_def
  releaseWrite_def notifyZeroReadersAndWriters_def wake_up_def set_status_def createAsyncLocalStorageStore_def Let_def

section \<open>Mutual exclusion\<close>

text \<open>
  C5. In every state the lock can reach without a read inside a write of the same store, a writer is
  alone: every call that is inside with it was made inside the same outermost task. The counters of
  the lock count the readers and writers that are inside.
\<close>

theorem writer_is_alone:
  assumes "lock_reach l"
  shows "(\<forall>i < length (lk_calls l). \<forall>j < length (lk_calls l).
            lc_status (lk_calls l ! i) = Inside \<and> lc_kind (lk_calls l ! i) = Writer \<and> lc_status (lk_calls l ! j) = Inside
            \<longrightarrow> lc_store (lk_calls l ! i) = lc_store (lk_calls l ! j)) \<and>
         lk_readers l = int (length (filter (\<lambda>c. lc_status c = Inside \<and> lc_kind c = Reader) (lk_calls l))) \<and>
         lk_writers l = int (length (filter (\<lambda>c. lc_status c = Inside \<and> lc_kind c = Writer) (lk_calls l)))"
  using reach_ok [OF assms] by (simp add: counts_ok_def exclusive_def held_def)

text \<open>A writer with a reentrant write inside, while a reader of another store waits.\<close>

theorem writer_is_alone_witness:
  "\<exists>l. lock_run [Begin 0 Writer, Begin 1 Reader, Begin 0 Writer] newLock = Some l \<and>
       map lc_status (lk_calls l) = [Inside, Sleeping, Inside] \<and> lk_readers l = 0 \<and> lk_writers l = 2"
proof -
  define es where "es = [Begin 0 Writer, Begin 1 Reader, Begin 0 Writer]"
  obtain l where l: "lock_run es newLock = Some l" "map lc_status (lk_calls l) = [Inside, Sleeping, Inside]"
      "map lc_kind (lk_calls l) = [Writer, Reader, Writer]" and out: "outside_run es newLock"
    by (simp add: es_def lock_eval)
  then obtain a b c where calls: "lk_calls l = [a, b, c]"
    by (auto simp: map_eq_Cons_conv)
  have "lk_readers l = 0 \<and> lk_writers l = 2"
    using writer_is_alone [OF reach_run [OF lock_reach.reach_new out l(1)]] l(2,3) by (simp add: calls)
  then show ?thesis
    using l by (simp add: es_def)
qed

section \<open>Nobody waits for a free lock\<close>

definition attended :: "rw_lock \<Rightarrow> bool" where
  "attended l \<longleftrightarrow> (\<exists>c \<in> set (lk_calls l). lc_status c = Sleeping) \<longrightarrow> lk_readers l \<noteq> 0 \<or> lk_writers l \<noteq> 0"

lemma attended_notify: "attended (notifyZeroReadersAndWriters l)"
  by (auto simp: attended_def notifyZeroReadersAndWriters_def)

lemma counters_set_status [simp]:
  "lk_readers (set_status i st l) = lk_readers l" "lk_writers (set_status i st l) = lk_writers l"
  "lk_stores (set_status i st l) = lk_stores l" "length (lk_calls (set_status i st l)) = length (lk_calls l)"
  by (simp_all add: set_status_def)

lemma stores_set_status [simp]: "map lc_store (lk_calls (set_status i st l)) = map lc_store (lk_calls l)"
  by (cases "i < length (lk_calls l)") (auto intro!: nth_equalityI simp: set_status_def nth_list_update)

lemma count_call_lengths [simp]: "length (lk_stores (count_call i n l)) = length (lk_stores l)"
  by (simp add: count_call_def Let_def split: lock_kind.split)

text \<open>Without reentrant calls the store of a call is its own.\<close>

definition flat :: "rw_lock \<Rightarrow> bool" where
  "flat l \<longleftrightarrow> map lc_store (lk_calls l) = [0..<length (lk_calls l)] \<and> length (lk_stores l) = length (lk_calls l)"

lemma flat_own_store:
  assumes flat: "flat l" and ok: "counts_ok l" and i: "i < length (lk_calls l)"
    and out: "lc_status (lk_calls l ! i) \<noteq> Inside"
  shows "sl_readers (store_of l (lc_store (lk_calls l ! i))) = 0" "sl_writers (store_of l (lc_store (lk_calls l ! i))) = 0"
proof -
  have store: "lc_store (lk_calls l ! j) = j" if "j < length (lk_calls l)" for j
    using flat that unfolding flat_def by (metis add_0 nth_map nth_upt)
  have "lc_store c \<noteq> i" if "c \<in> set (lk_calls l)" "lc_status c = Inside" for c
    using that out store by (metis in_set_conv_nth)
  then have "held (\<lambda>c. P c \<and> lc_store c = i) (lk_calls l) \<le> 0" for P
    by (simp add: held_zero)
  then have "held (\<lambda>c. P c \<and> lc_store c = i) (lk_calls l) = 0" for P
    by (simp add: order_antisym)
  then show "sl_readers (store_of l (lc_store (lk_calls l ! i))) = 0" "sl_writers (store_of l (lc_store (lk_calls l ! i))) = 0"
    using ok i flat by (simp_all add: store counts_ok_def flat_def)
qed

lemma flat_acquire:
  assumes "flat l" "counts_ok l" "attended l" "i < length (lk_calls l)" "lc_status (lk_calls l ! i) \<noteq> Inside"
  shows "attended (acquire first i l)"
proof -
  have nonneg: "0 \<le> lk_readers l" "0 \<le> lk_writers l"
    using assms(2) by (simp_all add: counts_ok_def)
  note own = flat_own_store [OF assms(1,2,4,5)]
  show "attended (acquire first i l)"
    using own nonneg
    by (cases "lc_kind (lk_calls l ! i)") (auto simp: acquire_eq Let_def attended_def count_call_def)
qed

lemma flat_calls:
  "map lc_store (lk_calls (acquire first i l)) = map lc_store (lk_calls l)" "length (lk_stores (acquire first i l)) = length (lk_stores l)"
  "map lc_store (lk_calls (release i l)) = map lc_store (lk_calls l)" "length (lk_stores (release i l)) = length (lk_stores l)"
  by (simp_all add: acquire_eq release_eq Let_def notifyZeroReadersAndWriters_def comp_def split: lock_kind.split)

lemma flat_steps:
  assumes "flat l"
  shows "flat (acquire first i l)" "flat (release i l)"
  using assms flat_calls(1,2) [of first i l] flat_calls(3,4) [of i l] map_eq_imp_length_eq [OF flat_calls(1), of first i l] map_eq_imp_length_eq [OF flat_calls(3), of i l]
  by (simp_all add: flat_def)

lemma flat_added: "flat l \<Longrightarrow> flat (added (length (lk_stores l)) k l)"
  by (simp add: flat_def added_def)

lemma flat_reach_ok: "flat_reach l \<Longrightarrow> lock_reach l \<and> flat l \<and> attended l"
proof (induction rule: flat_reach.induct)
  case flat_new
  then show ?case
    using lock_reach.reach_new by (simp add: newLock_def flat_def attended_def)
next
  case (flat_step l e l')
  then have reach: "lock_reach l" and flat: "flat l" and att: "attended l" by simp_all
  have ok: "counts_ok l" using reach_ok [OF reach] by simp
  show ?case
  proof (cases e)
    case (Begin s k)
    then have s: "s = length (lk_stores l)" and l': "l' = acquire True (length (lk_calls l)) (added s k l)"
      using flat_step by (auto simp: begin_call_eq split: if_splits)
    have "reads_outside e l" using Begin s by simp
    then have "lock_reach l'" using reach flat_step.hyps(3) lock_reach.reach_step by blast
    moreover have "attended (added s k l)" using att by (simp add: attended_def)
    ultimately show ?thesis
      using flat_acquire [of "added s k l" "length (lk_calls l)" True] flat_added [OF flat, of k] flat_steps(1)
        added_keeps(1) [OF ok, of s k] s l' by (simp add: nth_append)
  next
    case (Wake i)
    then have l': "l' = acquire False i l" and i: "i < length (lk_calls l)" "lc_status (lk_calls l ! i) \<noteq> Inside"
      using flat_step.hyps(3) by (auto split: if_splits)
    have "reads_outside e l" using Wake by simp
    then have "lock_reach l'" using reach flat_step.hyps(3) lock_reach.reach_step by blast
    then show ?thesis
      using flat_acquire [OF flat ok att i] flat_steps(1) [OF flat] l' by simp
  next
    case (End i)
    then have l': "l' = release i l" using flat_step.hyps(3) by (auto split: if_splits)
    have "reads_outside e l" using End by simp
    then have "lock_reach l'" using reach flat_step.hyps(3) lock_reach.reach_step by blast
    then show ?thesis
      using flat_steps(2) [OF flat] attended_notify l' by (simp add: release_eq)
  qed
qed

text \<open>
  C32. Without reentrant calls nobody waits for a lock that nobody holds: a call sleeps only while another
  one is inside, and a call that was notified gets in at its next test if no call is inside.
\<close>

theorem free_lock_is_taken:
  assumes "flat_reach l" and "\<forall>c \<in> set (lk_calls l). lc_status c \<noteq> Inside" and "i < length (lk_calls l)"
    and "lc_status (lk_calls l ! i) \<noteq> Left"
  shows "lc_status (lk_calls l ! i) = Woken \<and>
         (\<exists>l'. lock_step (Wake i) l = Some l' \<and> lc_status (lk_calls l' ! i) = Inside)"
proof -
  have ok: "counts_ok l" and flat: "flat l" and att: "attended l"
    using flat_reach_ok [OF assms(1)] reach_ok by simp_all
  have "held P (lk_calls l) = 0" for P
    using assms(2) by (simp add: held_def filter_empty_conv)
  then have zero: "lk_readers l = 0" "lk_writers l = 0"
    using ok by (simp_all add: counts_ok_def)
  have mem: "lk_calls l ! i \<in> set (lk_calls l)" using assms(3) by simp
  have "lc_status (lk_calls l ! i) \<noteq> Sleeping" using att zero mem by (auto simp: attended_def)
  then have woken: "lc_status (lk_calls l ! i) = Woken"
    using assms(2,4) mem by (cases "lc_status (lk_calls l ! i)") auto
  have "lc_status (lk_calls (acquire False i l) ! i) = Inside"
    using flat_own_store [OF flat ok assms(3)] woken zero assms(3)
    by (cases "lc_kind (lk_calls l ! i)") (simp_all add: acquire_eq Let_def set_status_def)
  then show ?thesis
    using woken assms(3) by simp
qed

text \<open>Two writers; the first one leaves and the second one is notified.\<close>

lemma flat_two_writers:
  "flat_reach (the (lock_run [Begin 0 Writer, Begin 1 Writer, End 0] newLock))"
proof -
  have "flat_reach newLock" by (rule flat_reach.flat_new)
  then have "flat_reach (the (lock_run [Begin 0 Writer] newLock))"
    by (rule flat_reach.flat_step [where e = "Begin 0 Writer"]) (simp_all add: lock_eval)
  then have "flat_reach (the (lock_run [Begin 0 Writer, Begin 1 Writer] newLock))"
    by (rule flat_reach.flat_step [where e = "Begin 1 Writer"]) (simp_all add: lock_eval)
  then show ?thesis
    by (rule flat_reach.flat_step [where e = "End 0"]) (simp_all add: lock_eval)
qed

theorem free_lock_is_taken_witness:
  "\<exists>l'. lock_step (Wake 1) (the (lock_run [Begin 0 Writer, Begin 1 Writer, End 0] newLock)) = Some l' \<and>
        lc_status (lk_calls l' ! 1) = Inside"
  using free_lock_is_taken [OF flat_two_writers, of 1] by (simp add: lock_eval)

section \<open>Where the lock fails\<close>

lemma inside_reader_counts:
  assumes "counts_ok l" and "i < length (lk_calls l)" and "lc_status (lk_calls l ! i) = Inside" "reading (lk_calls l ! i)"
  shows "lk_readers l > 0"
proof (rule ccontr)
  assume "\<not> lk_readers l > 0"
  then have "held reading (lk_calls l) \<le> 0" using assms(1) by (simp add: counts_ok_def)
  then show False using assms(2,3,4) nth_mem [OF assms(2)] unfolding held_zero by blast
qed

lemma other_calls:
  "k \<noteq> i \<Longrightarrow> lk_calls (set_status i st l) ! k = lk_calls l ! k"
  "k \<noteq> i \<Longrightarrow> lk_calls (acquire first i l) ! k = lk_calls l ! k"
  by (simp_all add: acquire_eq Let_def set_status_def split: lock_kind.split)

lemma sleeper_sleeps_on:
  assumes reach: "lock_reach l" and out: "reads_outside e l" and step: "lock_step e l = Some l'" and e: "e \<noteq> End i"
    and i: "i < length (lk_calls l)" "lc_status (lk_calls l ! i) = Inside" "reading (lk_calls l ! i)"
    and j: "j < length (lk_calls l)" "lc_status (lk_calls l ! j) = Sleeping"
  shows "lk_calls l' ! i = lk_calls l ! i \<and> lk_calls l' ! j = lk_calls l ! j \<and> length (lk_calls l) \<le> length (lk_calls l')"
proof (cases e)
  case (Begin s k)
  then have "l' = acquire True (length (lk_calls l)) (added s k l)"
    using step by (auto simp: begin_call_eq split: if_splits)
  then show ?thesis
    using i(1) j(1) map_eq_imp_length_eq [OF flat_calls(1), of True "length (lk_calls l)" "added s k l"]
    by (simp add: other_calls nth_append)
next
  case (Wake k)
  then have "l' = acquire False k l" "i \<noteq> k" "j \<noteq> k"
    using step i j by (auto split: if_splits)
  then show ?thesis
    using map_eq_imp_length_eq [OF flat_calls(1), of False k l] by (simp add: other_calls)
next
  case (End k)
  then have k: "k < length (lk_calls l)" "lc_status (lk_calls l ! k) = Inside" and l': "l' = release k l"
    using step by (auto split: if_splits)
  define m where "m = set_status k Left (count_call k (- 1) l)"
  have "counts_ok m"
    using counts_ok_set_status [of l k "- 1" Left] reach_ok [OF reach] k by (simp add: m_def)
  moreover have ne: "i \<noteq> k" "j \<noteq> k" using End e j(2) k(2) by auto
  ultimately have "lk_readers m > 0"
    using i by (intro inside_reader_counts [of m i]) (simp_all add: m_def other_calls)
  then have "l' = m"
    by (simp add: l' release_eq notifyZeroReadersAndWriters_def flip: m_def)
  then show ?thesis
    using ne by (simp add: m_def other_calls)
qed

text \<open>
  A read lock is not upgraded while other readers are inside, not even after they have left: the
  upgrading call waits for a notification that is sent when no reader is inside, and as long as the read
  it upgrades is inside, whatever the other calls do, it keeps sleeping. A task that awaits the upgrade
  never ends.
\<close>

theorem upgrade_is_never_notified:
  assumes "lock_reach l" and "outside_run es l" and "lock_run es l = Some l'" and "End i \<notin> set es"
    and "i < length (lk_calls l)" "lc_status (lk_calls l ! i) = Inside" "lc_kind (lk_calls l ! i) = Reader"
    and "j < length (lk_calls l)" "lc_status (lk_calls l ! j) = Sleeping" "lc_kind (lk_calls l ! j) = Writer"
    and "lc_store (lk_calls l ! j) = lc_store (lk_calls l ! i)"
  shows "lc_status (lk_calls l' ! j) = Sleeping"
  using assms(1-6,7-9)
proof (induction es arbitrary: l)
  case Nil
  then show ?case by simp
next
  case (Cons e es)
  then obtain m where m: "lock_step e l = Some m" "reads_outside e l" "outside_run es m" "lock_run es m = Some l'"
    by (auto split: option.splits)
  note same = sleeper_sleeps_on [OF Cons.prems(1) m(2,1)]
  show ?case
    using m Cons.prems same [of i j] by (intro Cons.IH [of m]) (auto intro: lock_reach.reach_step)
qed

text \<open>Two readers, one of which asks to write; the other one leaves, and a third one comes and goes.\<close>

theorem upgrade_is_never_notified_witness:
  "\<exists>l l'. lock_run [Begin 0 Reader, Begin 1 Reader, Begin 0 Writer] newLock = Some l \<and>
          lock_run [End 1, Begin 2 Reader, End 3] l = Some l' \<and> lc_status (lk_calls l' ! 2) = Sleeping"
proof -
  define es where "es = [Begin 0 Reader, Begin 1 Reader, Begin 0 Writer]"
  define fs where "fs = [End 1, Begin 2 Reader, End 3]"
  have out: "outside_run es newLock" by (simp add: es_def lock_eval)
  have "\<exists>l. lock_run es newLock = Some l \<and> outside_run fs l \<and> lock_run fs l \<noteq> None \<and>
        map lc_status (lk_calls l) = [Inside, Inside, Sleeping] \<and>
        map lc_kind (lk_calls l) = [Reader, Reader, Writer] \<and> map lc_store (lk_calls l) = [0, 1, 0]"
    by (simp add: es_def fs_def lock_eval)
  then obtain l l' where l: "lock_run es newLock = Some l" "outside_run fs l" "lock_run fs l = Some l'"
      "map lc_status (lk_calls l) = [Inside, Inside, Sleeping]"
      "map lc_kind (lk_calls l) = [Reader, Reader, Writer]" "map lc_store (lk_calls l) = [0, 1, 0]"
    by auto
  then obtain a b c where calls: "lk_calls l = [a, b, c]"
    by (auto simp: map_eq_Cons_conv)
  have "lc_status (lk_calls l' ! 2) = Sleeping"
    using upgrade_is_never_notified [OF reach_run [OF lock_reach.reach_new out l(1)] l(2,3), of 0 2] l(4-6)
    by (simp add: calls fs_def)
  then show ?thesis
    using l by (simp add: es_def fs_def)
qed

lemma lock_run_append: "lock_run (es @ fs) l = (case lock_run es l of None \<Rightarrow> None | Some m \<Rightarrow> lock_run fs m)"
  by (induction es arbitrary: l) (auto split: option.splits)

text \<open>The release of a read inside a write, which takes back what was never counted.\<close>

lemma read_in_write:
  assumes "s < length (lk_stores l)" and "sl_writers (store_of l s) > 0" and "lk_writers l > 0"
  shows "\<exists>m. lock_run [Begin s Reader, End (length (lk_calls l))] l = Some m \<and>
    lk_readers m = lk_readers l - 1 \<and> lk_writers m = lk_writers l \<and> length (lk_stores m) = length (lk_stores l) \<and>
    sl_writers (store_of m s) = sl_writers (store_of l s) \<and> lk_calls m = lk_calls l @ [\<lparr>lc_store = s, lc_kind = Reader, lc_status = Left\<rparr>]"
  using assms by (simp add: lock_eval list_update_append)

lemma reads_in_write:
  assumes "s < length (lk_stores l)" and "sl_writers (store_of l s) > 0" and "lk_writers l > 0"
  shows "\<exists>m. lock_run (concat (map (\<lambda>i. [Begin s Reader, End (length (lk_calls l) + i)]) [0..<k])) l = Some m \<and>
    lk_readers m = lk_readers l - int k \<and> lk_writers m = lk_writers l \<and> length (lk_stores m) = length (lk_stores l) \<and>
    sl_writers (store_of m s) = sl_writers (store_of l s) \<and>
    lk_calls m = lk_calls l @ replicate k \<lparr>lc_store = s, lc_kind = Reader, lc_status = Left\<rparr>"
proof (induction k)
  case (Suc k)
  then obtain m where m: "lock_run (concat (map (\<lambda>i. [Begin s Reader, End (length (lk_calls l) + i)]) [0..<k])) l = Some m"
      "lk_readers m = lk_readers l - int k" "lk_writers m = lk_writers l" "length (lk_stores m) = length (lk_stores l)"
      "sl_writers (store_of m s) = sl_writers (store_of l s)"
      "lk_calls m = lk_calls l @ replicate k \<lparr>lc_store = s, lc_kind = Reader, lc_status = Left\<rparr>"
    by blast
  obtain m' where "lock_run [Begin s Reader, End (length (lk_calls m))] m = Some m'"
      "lk_readers m' = lk_readers m - 1" "lk_writers m' = lk_writers m" "length (lk_stores m') = length (lk_stores m)"
      "sl_writers (store_of m' s) = sl_writers (store_of m s)"
      "lk_calls m' = lk_calls m @ [\<lparr>lc_store = s, lc_kind = Reader, lc_status = Left\<rparr>]"
    using read_in_write [of s m] m assms by auto
  with m show ?case
    by (simp add: lock_run_append replicate_append_same del: lock_run.simps lock_step.simps)
qed simp

text \<open>New readers enter a lock without writers, whatever the number of readers says.\<close>

lemma fresh_readers:
  assumes "lk_writers l = 0"
  shows "\<exists>m. lock_run (map (\<lambda>i. Begin (length (lk_stores l) + i) Reader) [0..<k]) l = Some m \<and>
    lk_readers m = lk_readers l + int k \<and> lk_writers m = 0 \<and> length (lk_stores m) = length (lk_stores l) + k \<and>
    lk_calls m = lk_calls l @ map (\<lambda>i. \<lparr>lc_store = length (lk_stores l) + i, lc_kind = Reader, lc_status = Inside\<rparr>) [0..<k]"
proof (induction k)
  case (Suc k)
  then obtain m where m: "lock_run (map (\<lambda>i. Begin (length (lk_stores l) + i) Reader) [0..<k]) l = Some m"
      "lk_readers m = lk_readers l + int k" "lk_writers m = 0" "length (lk_stores m) = length (lk_stores l) + k"
      "lk_calls m = lk_calls l @ map (\<lambda>i. \<lparr>lc_store = length (lk_stores l) + i, lc_kind = Reader, lc_status = Inside\<rparr>) [0..<k]"
    by blast
  then show ?case
    by (simp add: lock_run_append) (simp add: lock_eval nth_append list_update_append)
qed (use assms in simp)

text \<open>
  C33. A read inside a write is not the no-op that the comment of the class calls it: it acquires nothing and is
  released all the same. From any state in which nobody holds the lock, after a write with k > 0 reads inside, the
  number of readers is -k though nobody is inside; k readers and then a writer, each of a task of its own, all get
  in and hold the lock together.
\<close>

theorem read_in_write_breaks_exclusion:
  assumes "lk_readers l = 0" and "lk_writers l = 0" and "k > 0"
    and "s = length (lk_stores l)" and "n = length (lk_calls l)"
  shows "\<exists>l1 m. lock_run (Begin s Writer # concat (map (\<lambda>i. [Begin s Reader, End (n + 1 + i)]) [0..<k]) @ [End n]) l = Some l1 \<and>
     lk_readers l1 = - int k \<and> lk_writers l1 = 0 \<and>
     lock_run (map (\<lambda>i. Begin (s + 1 + i) Reader) [0..<k] @ [Begin (s + 1 + k) Writer]) l1 = Some m \<and>
     (\<forall>j \<le> k. lk_calls m ! (n + 1 + k + j) =
        \<lparr>lc_store = s + 1 + j, lc_kind = (if j < k then Reader else Writer), lc_status = Inside\<rparr>)"
proof -
  obtain a where a: "lock_step (Begin s Writer) l = Some a" "lk_readers a = 0" "lk_writers a = 1" "length (lk_stores a) = s + 1"
      "sl_writers (store_of a s) = 1" "lk_calls a = lk_calls l @ [\<lparr>lc_store = s, lc_kind = Writer, lc_status = Inside\<rparr>]"
    using assms by (simp add: lock_eval nth_append)
  obtain b where b: "lock_run (concat (map (\<lambda>i. [Begin s Reader, End (n + 1 + i)]) [0..<k])) a = Some b"
      "lk_readers b = - int k" "lk_writers b = 1" "length (lk_stores b) = s + 1" "sl_writers (store_of b s) = 1"
      "lk_calls b = lk_calls a @ replicate k \<lparr>lc_store = s, lc_kind = Reader, lc_status = Left\<rparr>"
    using reads_in_write [of s a k] a assms(5) by auto
  obtain c where c: "lock_step (End n) b = Some c" "lk_readers c = - int k" "lk_writers c = 0" "length (lk_stores c) = s + 1"
      "length (lk_calls c) = n + 1 + k"
    using a b assms(3,5) by (simp add: lock_eval nth_append)
  obtain d where d: "lock_run (map (\<lambda>i. Begin (s + 1 + i) Reader) [0..<k]) c = Some d" "lk_readers d = 0" "lk_writers d = 0"
      "length (lk_stores d) = s + 1 + k"
      "lk_calls d = lk_calls c @ map (\<lambda>i. \<lparr>lc_store = s + 1 + i, lc_kind = Reader, lc_status = Inside\<rparr>) [0..<k]"
    using fresh_readers [of c k] c by auto
  obtain m where m: "lock_step (Begin (s + 1 + k) Writer) d = Some m"
      "lk_calls m = lk_calls d @ [\<lparr>lc_store = s + 1 + k, lc_kind = Writer, lc_status = Inside\<rparr>]"
    using d by (simp add: lock_eval nth_append list_update_append)
  have "lk_calls m ! (n + 1 + k + j) = \<lparr>lc_store = s + 1 + j, lc_kind = (if j < k then Reader else Writer), lc_status = Inside\<rparr>"
    if "j \<le> k" for j
    using that m(2) d(5) c(5) by (auto simp: nth_append)
  then show ?thesis
    using a b c d m by (intro exI [of _ c] exI [of _ m]) (simp add: lock_run_append del: lock_step.simps)
qed

text \<open>Two reads inside the first write.\<close>

theorem read_in_write_breaks_exclusion_witness:
  "\<exists>l1 m. lock_run [Begin 0 Writer, Begin 0 Reader, End 1, Begin 0 Reader, End 2, End 0] newLock = Some l1 \<and>
     lk_readers l1 = - 2 \<and> lock_run [Begin 1 Reader, Begin 2 Reader, Begin 3 Writer] l1 = Some m \<and>
     lc_status (lk_calls m ! 3) = Inside \<and> lc_kind (lk_calls m ! 3) = Reader \<and>
     lc_status (lk_calls m ! 5) = Inside \<and> lc_kind (lk_calls m ! 5) = Writer"
proof -
  have two: "[0..<2] = [0, 1]" by (simp add: upt_rec)
  obtain l1 m where "lock_run [Begin 0 Writer, Begin 0 Reader, End 1, Begin 0 Reader, End 2, End 0] newLock = Some l1"
      "lk_readers l1 = - 2" "lock_run [Begin 1 Reader, Begin 2 Reader, Begin 3 Writer] l1 = Some m"
      and inside: "\<And>j. j \<le> 2 \<Longrightarrow> lk_calls m ! (3 + j) =
        \<lparr>lc_store = 1 + j, lc_kind = (if j < 2 then Reader else Writer), lc_status = Inside\<rparr>"
    using read_in_write_breaks_exclusion [of newLock 2 0 0]
    by (auto simp: newLock_def two numeral_2_eq_2 numeral_3_eq_3 simp del: lock_run.simps)
  with inside [of 0] inside [of 2] show ?thesis by auto
qed

end
