(* ===== verification/Kafka_Errors.thy ===== *)
theory Kafka_Errors
  imports JS_Prelude
begin

text \<open>
  The errors of the Kafka clients: the error codes and \<open>LibrdKafkaError\<close> of \<open>lib/error.js\<close>, the classes of
  \<open>lib/kafkajs/_error.js\<close>, and their conversion in \<open>lib/kafkajs/_common.js\<close>.

  Errors are records of their properties, the class being the name. A stack trace is left out. The text
  of a code (\<open>err2str\<close> of librdkafka) is a parameter.
\<close>

section \<open>Error codes\<close>

definition local_codes :: "(string \<times> int) list" where
  "local_codes =
     [(''ERR__BEGIN'', - 200), (''ERR__BAD_MSG'', - 199), (''ERR__BAD_COMPRESSION'', - 198),
      (''ERR__DESTROY'', - 197), (''ERR__FAIL'', - 196), (''ERR__TRANSPORT'', - 195),
      (''ERR__CRIT_SYS_RESOURCE'', - 194), (''ERR__RESOLVE'', - 193), (''ERR__MSG_TIMED_OUT'', - 192),
      (''ERR__PARTITION_EOF'', - 191), (''ERR__UNKNOWN_PARTITION'', - 190), (''ERR__FS'', - 189),
      (''ERR__UNKNOWN_TOPIC'', - 188), (''ERR__ALL_BROKERS_DOWN'', - 187), (''ERR__INVALID_ARG'', - 186),
      (''ERR__TIMED_OUT'', - 185), (''ERR__QUEUE_FULL'', - 184), (''ERR__ISR_INSUFF'', - 183),
      (''ERR__NODE_UPDATE'', - 182), (''ERR__SSL'', - 181), (''ERR__WAIT_COORD'', - 180),
      (''ERR__UNKNOWN_GROUP'', - 179), (''ERR__IN_PROGRESS'', - 178), (''ERR__PREV_IN_PROGRESS'', - 177),
      (''ERR__EXISTING_SUBSCRIPTION'', - 176), (''ERR__ASSIGN_PARTITIONS'', - 175),
      (''ERR__REVOKE_PARTITIONS'', - 174), (''ERR__CONFLICT'', - 173), (''ERR__STATE'', - 172),
      (''ERR__UNKNOWN_PROTOCOL'', - 171), (''ERR__NOT_IMPLEMENTED'', - 170), (''ERR__AUTHENTICATION'', - 169),
      (''ERR__NO_OFFSET'', - 168), (''ERR__OUTDATED'', - 167), (''ERR__TIMED_OUT_QUEUE'', - 166),
      (''ERR__UNSUPPORTED_FEATURE'', - 165), (''ERR__WAIT_CACHE'', - 164), (''ERR__INTR'', - 163),
      (''ERR__KEY_SERIALIZATION'', - 162), (''ERR__VALUE_SERIALIZATION'', - 161),
      (''ERR__KEY_DESERIALIZATION'', - 160), (''ERR__VALUE_DESERIALIZATION'', - 159), (''ERR__PARTIAL'', - 158),
      (''ERR__READ_ONLY'', - 157), (''ERR__NOENT'', - 156), (''ERR__UNDERFLOW'', - 155),
      (''ERR__INVALID_TYPE'', - 154), (''ERR__RETRY'', - 153), (''ERR__PURGE_QUEUE'', - 152),
      (''ERR__PURGE_INFLIGHT'', - 151), (''ERR__FATAL'', - 150), (''ERR__INCONSISTENT'', - 149),
      (''ERR__GAPLESS_GUARANTEE'', - 148), (''ERR__MAX_POLL_EXCEEDED'', - 147), (''ERR__UNKNOWN_BROKER'', - 146),
      (''ERR__NOT_CONFIGURED'', - 145), (''ERR__FENCED'', - 144), (''ERR__APPLICATION'', - 143),
      (''ERR__ASSIGNMENT_LOST'', - 142), (''ERR__NOOP'', - 141), (''ERR__AUTO_OFFSET_RESET'', - 140),
      (''ERR__LOG_TRUNCATION'', - 139), (''ERR__INVALID_DIFFERENT_RECORD'', - 138), (''ERR__DESTROY_BROKER'', - 137),
      (''ERR__END'', - 100)]"

definition broker_codes :: "(string \<times> int) list" where
  "broker_codes =
     [(''ERR_UNKNOWN'', - 1), (''ERR_NO_ERROR'', 0), (''ERR_OFFSET_OUT_OF_RANGE'', 1), (''ERR_INVALID_MSG'', 2),
      (''ERR_UNKNOWN_TOPIC_OR_PART'', 3), (''ERR_INVALID_MSG_SIZE'', 4), (''ERR_LEADER_NOT_AVAILABLE'', 5),
      (''ERR_NOT_LEADER_FOR_PARTITION'', 6), (''ERR_REQUEST_TIMED_OUT'', 7), (''ERR_BROKER_NOT_AVAILABLE'', 8),
      (''ERR_REPLICA_NOT_AVAILABLE'', 9), (''ERR_MSG_SIZE_TOO_LARGE'', 10), (''ERR_STALE_CTRL_EPOCH'', 11),
      (''ERR_OFFSET_METADATA_TOO_LARGE'', 12), (''ERR_NETWORK_EXCEPTION'', 13),
      (''ERR_COORDINATOR_LOAD_IN_PROGRESS'', 14), (''ERR_GROUP_LOAD_IN_PROGRESS'', 14),
      (''ERR_COORDINATOR_NOT_AVAILABLE'', 15), (''ERR_GROUP_COORDINATOR_NOT_AVAILABLE'', 15),
      (''ERR_NOT_COORDINATOR'', 16), (''ERR_NOT_COORDINATOR_FOR_GROUP'', 16), (''ERR_TOPIC_EXCEPTION'', 17),
      (''ERR_RECORD_LIST_TOO_LARGE'', 18), (''ERR_NOT_ENOUGH_REPLICAS'', 19),
      (''ERR_NOT_ENOUGH_REPLICAS_AFTER_APPEND'', 20), (''ERR_INVALID_REQUIRED_ACKS'', 21),
      (''ERR_ILLEGAL_GENERATION'', 22), (''ERR_INCONSISTENT_GROUP_PROTOCOL'', 23), (''ERR_INVALID_GROUP_ID'', 24),
      (''ERR_UNKNOWN_MEMBER_ID'', 25), (''ERR_INVALID_SESSION_TIMEOUT'', 26), (''ERR_REBALANCE_IN_PROGRESS'', 27),
      (''ERR_INVALID_COMMIT_OFFSET_SIZE'', 28), (''ERR_TOPIC_AUTHORIZATION_FAILED'', 29),
      (''ERR_GROUP_AUTHORIZATION_FAILED'', 30), (''ERR_CLUSTER_AUTHORIZATION_FAILED'', 31),
      (''ERR_INVALID_TIMESTAMP'', 32), (''ERR_UNSUPPORTED_SASL_MECHANISM'', 33), (''ERR_ILLEGAL_SASL_STATE'', 34),
      (''ERR_UNSUPPORTED_VERSION'', 35), (''ERR_TOPIC_ALREADY_EXISTS'', 36), (''ERR_INVALID_PARTITIONS'', 37),
      (''ERR_INVALID_REPLICATION_FACTOR'', 38), (''ERR_INVALID_REPLICA_ASSIGNMENT'', 39),
      (''ERR_INVALID_CONFIG'', 40), (''ERR_NOT_CONTROLLER'', 41), (''ERR_INVALID_REQUEST'', 42),
      (''ERR_UNSUPPORTED_FOR_MESSAGE_FORMAT'', 43), (''ERR_POLICY_VIOLATION'', 44),
      (''ERR_OUT_OF_ORDER_SEQUENCE_NUMBER'', 45), (''ERR_DUPLICATE_SEQUENCE_NUMBER'', 46),
      (''ERR_INVALID_PRODUCER_EPOCH'', 47), (''ERR_INVALID_TXN_STATE'', 48),
      (''ERR_INVALID_PRODUCER_ID_MAPPING'', 49), (''ERR_INVALID_TRANSACTION_TIMEOUT'', 50),
      (''ERR_CONCURRENT_TRANSACTIONS'', 51), (''ERR_TRANSACTION_COORDINATOR_FENCED'', 52),
      (''ERR_TRANSACTIONAL_ID_AUTHORIZATION_FAILED'', 53), (''ERR_SECURITY_DISABLED'', 54),
      (''ERR_OPERATION_NOT_ATTEMPTED'', 55), (''ERR_KAFKA_STORAGE_ERROR'', 56), (''ERR_LOG_DIR_NOT_FOUND'', 57),
      (''ERR_SASL_AUTHENTICATION_FAILED'', 58), (''ERR_UNKNOWN_PRODUCER_ID'', 59),
      (''ERR_REASSIGNMENT_IN_PROGRESS'', 60), (''ERR_DELEGATION_TOKEN_AUTH_DISABLED'', 61),
      (''ERR_DELEGATION_TOKEN_NOT_FOUND'', 62), (''ERR_DELEGATION_TOKEN_OWNER_MISMATCH'', 63),
      (''ERR_DELEGATION_TOKEN_REQUEST_NOT_ALLOWED'', 64), (''ERR_DELEGATION_TOKEN_AUTHORIZATION_FAILED'', 65),
      (''ERR_DELEGATION_TOKEN_EXPIRED'', 66), (''ERR_INVALID_PRINCIPAL_TYPE'', 67), (''ERR_NON_EMPTY_GROUP'', 68),
      (''ERR_GROUP_ID_NOT_FOUND'', 69), (''ERR_FETCH_SESSION_ID_NOT_FOUND'', 70),
      (''ERR_INVALID_FETCH_SESSION_EPOCH'', 71), (''ERR_LISTENER_NOT_FOUND'', 72),
      (''ERR_TOPIC_DELETION_DISABLED'', 73), (''ERR_FENCED_LEADER_EPOCH'', 74), (''ERR_UNKNOWN_LEADER_EPOCH'', 75),
      (''ERR_UNSUPPORTED_COMPRESSION_TYPE'', 76), (''ERR_STALE_BROKER_EPOCH'', 77),
      (''ERR_OFFSET_NOT_AVAILABLE'', 78), (''ERR_MEMBER_ID_REQUIRED'', 79),
      (''ERR_PREFERRED_LEADER_NOT_AVAILABLE'', 80), (''ERR_GROUP_MAX_SIZE_REACHED'', 81),
      (''ERR_FENCED_INSTANCE_ID'', 82), (''ERR_ELIGIBLE_LEADERS_NOT_AVAILABLE'', 83),
      (''ERR_ELECTION_NOT_NEEDED'', 84), (''ERR_NO_REASSIGNMENT_IN_PROGRESS'', 85),
      (''ERR_GROUP_SUBSCRIBED_TO_TOPIC'', 86), (''ERR_INVALID_RECORD'', 87), (''ERR_UNSTABLE_OFFSET_COMMIT'', 88),
      (''ERR_THROTTLING_QUOTA_EXCEEDED'', 89), (''ERR_PRODUCER_FENCED'', 90), (''ERR_RESOURCE_NOT_FOUND'', 91),
      (''ERR_DUPLICATE_RESOURCE'', 92), (''ERR_UNACCEPTABLE_CREDENTIAL'', 93), (''ERR_INCONSISTENT_VOTER_SET'', 94),
      (''ERR_INVALID_UPDATE_VERSION'', 95), (''ERR_FEATURE_UPDATE_FAILED'', 96),
      (''ERR_PRINCIPAL_DESERIALIZATION_FAILURE'', 97), (''ERR_UNKNOWN_TOPIC_ID'', 100),
      (''ERR_FENCED_MEMBER_EPOCH'', 110), (''ERR_UNRELEASED_INSTANCE_ID'', 111), (''ERR_UNSUPPORTED_ASSIGNOR'', 112),
      (''ERR_STALE_MEMBER_EPOCH'', 113), (''ERR_UNKNOWN_SUBSCRIPTION_ID'', 117), (''ERR_TELEMETRY_TOO_LARGE'', 118),
      (''ERR_REBOOTSTRAP_REQUIRED'', 129)]"

definition LibrdKafkaError_codes :: "(string \<times> int) list" where
  "LibrdKafkaError_codes = local_codes @ broker_codes"

text \<open>The codes the code refers to.\<close>

definition ERR__TRANSPORT :: int where "ERR__TRANSPORT = - 195"
definition ERR__RESOLVE :: int where "ERR__RESOLVE = - 193"
definition ERR__ALL_BROKERS_DOWN :: int where "ERR__ALL_BROKERS_DOWN = - 187"
definition ERR__INVALID_ARG :: int where "ERR__INVALID_ARG = - 186"
definition ERR__TIMED_OUT :: int where "ERR__TIMED_OUT = - 185"
definition ERR__ASSIGN_PARTITIONS :: int where "ERR__ASSIGN_PARTITIONS = - 175"
definition ERR__REVOKE_PARTITIONS :: int where "ERR__REVOKE_PARTITIONS = - 174"
definition ERR__STATE :: int where "ERR__STATE = - 172"
definition ERR__NOT_IMPLEMENTED :: int where "ERR__NOT_IMPLEMENTED = - 170"
definition ERR__AUTHENTICATION :: int where "ERR__AUTHENTICATION = - 169"
definition ERR__TIMED_OUT_QUEUE :: int where "ERR__TIMED_OUT_QUEUE = - 166"
definition ERR__KEY_SERIALIZATION :: int where "ERR__KEY_SERIALIZATION = - 162"
definition ERR__VALUE_SERIALIZATION :: int where "ERR__VALUE_SERIALIZATION = - 161"
definition ERR__PARTIAL :: int where "ERR__PARTIAL = - 158"
definition ERR__END :: int where "ERR__END = - 100"
definition ERR_UNKNOWN :: int where "ERR_UNKNOWN = - 1"
definition ERR_NO_ERROR :: int where "ERR_NO_ERROR = 0"
definition ERR_OFFSET_OUT_OF_RANGE :: int where "ERR_OFFSET_OUT_OF_RANGE = 1"
definition ERR_REQUEST_TIMED_OUT :: int where "ERR_REQUEST_TIMED_OUT = 7"
definition ERR_GROUP_COORDINATOR_NOT_AVAILABLE :: int where "ERR_GROUP_COORDINATOR_NOT_AVAILABLE = 15"

lemmas code_defs =
  ERR__TRANSPORT_def ERR__RESOLVE_def ERR__ALL_BROKERS_DOWN_def ERR__INVALID_ARG_def ERR__TIMED_OUT_def ERR__STATE_def
  ERR__NOT_IMPLEMENTED_def ERR__AUTHENTICATION_def ERR__TIMED_OUT_QUEUE_def ERR__KEY_SERIALIZATION_def
  ERR__VALUE_SERIALIZATION_def ERR__PARTIAL_def ERR__END_def ERR_UNKNOWN_def ERR_NO_ERROR_def ERR_OFFSET_OUT_OF_RANGE_def
  ERR_REQUEST_TIMED_OUT_def ERR_GROUP_COORDINATOR_NOT_AVAILABLE_def

section \<open>LibrdKafkaError\<close>

text \<open>
  The properties of an error object that are read. The flags under the names \<open>retriable\<close>, \<open>fatal\<close> and
  \<open>abortable\<close> are properties of their own. \<open>None\<close> is \<open>undefined\<close>.
\<close>

record librdkafka_error =
  le_message :: string
  le_code :: "int option"
  le_origin :: string
  le_isFatal :: "bool option"
  le_isRetriable :: "bool option"
  le_isTxnRequiresAbort :: "bool option"
  le_retriable :: "bool option"
  le_fatal :: "bool option"
  le_abortable :: "bool option"

text \<open>What an error is made of: a code, an object of the native addon, or an \<open>Error\<close>.\<close>

record error_fields =
  ef_message :: string
  ef_code :: "int option"
  ef_isFatal :: "bool option"
  ef_isRetriable :: "bool option"
  ef_isTxnRequiresAbort :: "bool option"

datatype error_source = Err_number int | Err_object error_fields | Err_error error_fields

definition code_origin :: "int option \<Rightarrow> string" where
  "code_origin code =
     (case code of
        Some c \<Rightarrow> if c \<ge> ERR__END then ''local'' else ''kafka''
      | None \<Rightarrow> ''kafka'')"

text \<open>\<open>message.split(': ')\<close>: what is before the first separator and what is between it and the next.\<close>

fun split_colon :: "string \<Rightarrow> string list" where
  "split_colon (a # b # r) =
     (if a = CHR '':'' \<and> b = CHR '' '' then [] # split_colon r
      else case split_colon (b # r) of t # ts \<Rightarrow> (a # t) # ts | [] \<Rightarrow> [[a]])"
| "split_colon s = [s]"

definition parsedMessage :: "string \<Rightarrow> string \<times> string" where
  "parsedMessage message =
     (case split_colon message of
        o1 # m1 # _ \<Rightarrow> (map lower_char o1, map lower_char m1)
      | _ \<Rightarrow> (''unknown'', map lower_char message))"

definition newLibrdKafkaError :: "(int \<Rightarrow> string) \<Rightarrow> error_source \<Rightarrow> librdkafka_error" where
  "newLibrdKafkaError err2str e =
     (case e of
        Err_number n \<Rightarrow>
          \<lparr>le_message = err2str n, le_code = Some n, le_origin = code_origin (Some n),
           le_isFatal = None, le_isRetriable = None, le_isTxnRequiresAbort = None,
           le_retriable = None, le_fatal = None, le_abortable = None\<rparr>
      | Err_object f \<Rightarrow>
          \<lparr>le_message = ef_message f, le_code = ef_code f, le_origin = code_origin (ef_code f),
           le_isFatal = ef_isFatal f, le_isRetriable = ef_isRetriable f, le_isTxnRequiresAbort = ef_isTxnRequiresAbort f,
           le_retriable = None, le_fatal = None, le_abortable = None\<rparr>
      | Err_error f \<Rightarrow>
          (let (origin, msg) = parsedMessage (ef_message f);
               state = (msg = ''consumer is disconnected'' \<or> msg = ''producer is disconnected'')
           in \<lparr>le_message = msg,
               le_code = Some (if state then ERR__STATE else case ef_code f of Some c \<Rightarrow> c | None \<Rightarrow> - 1),
               le_origin = (if state then ''local'' else origin),
               le_isFatal = ef_isFatal f, le_isRetriable = ef_isRetriable f, le_isTxnRequiresAbort = ef_isTxnRequiresAbort f,
               le_retriable = None, le_fatal = None, le_abortable = None\<rparr>))"

text \<open>\<open>errorWrap\<close> of a result code: the error to throw, or the value to return.\<close>

definition errorWrap :: "(int \<Rightarrow> string) \<Rightarrow> int \<Rightarrow> bool \<Rightarrow> librdkafka_error + (bool + int)" where
  "errorWrap err2str errorCode intIsError =
     (if errorCode \<noteq> ERR_NO_ERROR then Inl (newLibrdKafkaError err2str (Err_number errorCode))
      else Inr (if intIsError then Inr errorCode else Inl True))"

section \<open>KafkaJSError\<close>

datatype kafka_error_text = Text string | Wrapped librdkafka_error

datatype error_type = Type_name string | Type_code int

record kafka_error =
  ke_name :: string
  ke_message :: kafka_error_text
  ke_retriable :: bool
  ke_fatal :: bool
  ke_abortable :: bool
  ke_code :: int
  ke_type :: error_type

record error_properties =
  pr_retriable :: "bool option"
  pr_fatal :: "bool option"
  pr_abortable :: "bool option"
  pr_code :: "int option"

definition or_default :: "'a \<Rightarrow> 'a option \<Rightarrow> 'a" where
  "or_default d x = (case x of None \<Rightarrow> d | Some v \<Rightarrow> v)"

definition typeOfCode :: "int \<Rightarrow> error_type" where
  "typeOfCode code =
     (case map fst (filter (\<lambda>(k, c). c = code) LibrdKafkaError_codes) of
        [t] \<Rightarrow> Type_name t
      | _ \<Rightarrow> Type_code ERR_UNKNOWN)"

definition newKafkaJSError :: "string \<Rightarrow> kafka_error_text \<Rightarrow> error_properties \<Rightarrow> kafka_error" where
  "newKafkaJSError name message p =
     \<lparr>ke_name = name, ke_message = message, ke_retriable = or_default False (pr_retriable p),
      ke_fatal = or_default False (pr_fatal p), ke_abortable = or_default False (pr_abortable p),
      ke_code = or_default ERR_UNKNOWN (pr_code p), ke_type = typeOfCode (or_default ERR_UNKNOWN (pr_code p))\<rparr>"

text \<open>An error of the library itself: a message and a code.\<close>

definition kjs_error :: "string \<Rightarrow> int \<Rightarrow> kafka_error" where
  "kjs_error message code =
     newKafkaJSError ''KafkaJSError'' (Text message) \<lparr>pr_retriable = None, pr_fatal = None, pr_abortable = None, pr_code = Some code\<rparr>"

text \<open>\<open>e.message || e\<close>\<close>

definition message_or_self :: "librdkafka_error \<Rightarrow> kafka_error_text" where
  "message_or_self e = (if le_message e = [] then Wrapped e else Text (le_message e))"

text \<open>
  The class for a code; the class named for \<open>ERR_GROUP_COORDINATOR_NOT_AVAILABLE\<close> does not exist in \<open>_error.js\<close>.
\<close>

definition error_class :: "int option \<Rightarrow> string option" where
  "error_class code =
     (if code = Some ERR_OFFSET_OUT_OF_RANGE then Some ''KafkaJSOffsetOutOfRange''
      else if code = Some ERR_REQUEST_TIMED_OUT then Some ''KafkaJSRequestTimeoutError''
      else if code = Some ERR__PARTIAL then Some ''KafkaJSPartialMessageError''
      else if code = Some ERR__AUTHENTICATION then Some ''KafkaJSSASLAuthenticationError''
      else if code = Some ERR_GROUP_COORDINATOR_NOT_AVAILABLE then None
      else if code = Some ERR__NOT_IMPLEMENTED then Some ''KafkaJSNotImplemented''
      else if code = Some ERR__TIMED_OUT then Some ''KafkaJSTimeout''
      else if code = Some ERR__ALL_BROKERS_DOWN then Some ''KafkaJSNoBrokerAvailableError''
      else if code = Some ERR__TRANSPORT then Some ''KafkaJSConnectionError''
      else if (case code of Some c \<Rightarrow> c > 0 | None \<Rightarrow> False) then Some ''KafkaJSProtocolError''
      else Some ''KafkaJSError'')"

definition createKafkaJsErrorFromLibRdKafkaError :: "librdkafka_error \<Rightarrow> kafka_error result" where
  "createKafkaJsErrorFromLibRdKafkaError e =
     (let properties = \<lparr>pr_retriable = le_retriable e, pr_fatal = le_fatal e, pr_abortable = le_abortable e, pr_code = le_code e\<rparr>
      in case error_class (pr_code properties) of
           None \<Rightarrow> Inl (TypeError ''error.KafkaJSGroupCoordinatorNotAvailableError is not a constructor'')
         | Some name \<Rightarrow> Inr (newKafkaJSError name (message_or_self e) properties))"

definition KeySerializationError :: "string \<Rightarrow> kafka_error" where
  "KeySerializationError message =
     newKafkaJSError ''KeySerializationError'' (Text message)
       \<lparr>pr_retriable = None, pr_fatal = None, pr_abortable = None, pr_code = Some ERR__KEY_SERIALIZATION\<rparr>"

definition ValueSerializationError :: "string \<Rightarrow> kafka_error" where
  "ValueSerializationError message =
     newKafkaJSError ''ValueSerializationError'' (Text message)
       \<lparr>pr_retriable = None, pr_fatal = None, pr_abortable = None, pr_code = Some ERR__VALUE_SERIALIZATION\<rparr>"

definition isRebalancing :: "kafka_error \<Rightarrow> bool" where
  "isRebalancing e \<longleftrightarrow>
     ke_type e = Type_name ''REBALANCE_IN_PROGRESS'' \<or> ke_type e = Type_name ''NOT_COORDINATOR_FOR_GROUP'' \<or>
     ke_type e = Type_name ''ILLEGAL_GENERATION''"

section \<open>What becomes of an error\<close>

lemma codes_begin_with_ERR: "(k, c) \<in> set LibrdKafkaError_codes \<Longrightarrow> take 4 k = ''ERR_''"
proof -
  have "list_all (\<lambda>(k, c). take 4 k = ''ERR_'') LibrdKafkaError_codes"
    by (simp add: LibrdKafkaError_codes_def local_codes_def broker_codes_def)
  then show "(k, c) \<in> set LibrdKafkaError_codes \<Longrightarrow> take 4 k = ''ERR_''"
    by (auto simp: list_all_iff)
qed

lemma type_begins_with_ERR: "typeOfCode c = Type_name t \<Longrightarrow> take 4 t = ''ERR_''"
proof -
  assume "typeOfCode c = Type_name t"
  then have "map fst (filter (\<lambda>(k, d). d = c) LibrdKafkaError_codes) = [t]"
    by (auto simp: typeOfCode_def split: list.splits)
  then have "t \<in> fst ` set LibrdKafkaError_codes"
    by (metis filter_is_subset image_mono list.set_intros(1) list.set_map subsetD)
  then show ?thesis
    using codes_begin_with_ERR by auto
qed

text \<open>
  No error of the library is ever recognised as one of a rebalance: the types of errors are the names of
  codes, which begin with ERR, and \<open>isRebalancing\<close> compares them with the names KafkaJS uses.
\<close>

theorem no_error_is_rebalancing: "\<not> isRebalancing (newKafkaJSError name message p)"
  using type_begins_with_ERR [of "or_default ERR_UNKNOWN (pr_code p)"]
  by (auto simp: isRebalancing_def newKafkaJSError_def)

text \<open>
  Converting an error of librdkafka keeps its code, and its message if there is one, but loses its
  flags: whatever the native error says, the error handed to the user is neither retriable nor fatal nor
  abortable. The conversion itself fails for a group coordinator that is not available.
\<close>

theorem conversion_loses_flags:
  "let l = newLibrdKafkaError err2str e in
   case createKafkaJsErrorFromLibRdKafkaError l of
     Inr k \<Rightarrow> le_code l \<noteq> Some 15 \<and> ke_code k = or_default (- 1) (le_code l) \<and>
              ke_message k = message_or_self l \<and> \<not> ke_retriable k \<and> \<not> ke_fatal k \<and> \<not> ke_abortable k
   | Inl err \<Rightarrow> le_code l = Some 15"
proof -
  define l where "l = newLibrdKafkaError err2str e"
  have "le_retriable l = None" "le_fatal l = None" "le_abortable l = None"
    by (simp_all add: l_def newLibrdKafkaError_def Let_def split: error_source.split prod.split)
  moreover have "error_class (le_code l) = None \<longleftrightarrow> le_code l = Some 15"
    by (simp add: error_class_def code_defs)
  ultimately show ?thesis
    unfolding Let_def l_def [symmetric]
    by (auto simp: createKafkaJsErrorFromLibRdKafkaError_def newKafkaJSError_def or_default_def ERR_UNKNOWN_def
        split: option.split)
qed

end
