(* ===== verification/Kafka_Common.thy ===== *)
theory Kafka_Common
  imports Kafka_Errors
begin

text \<open>
  Helpers of \<open>lib/kafkajs/_common.js\<close> that producer and consumer share: headers, offsets, serializers built
  from a configuration, and what decides whether and when a connection is tried again.
\<close>

section \<open>Values of a configuration\<close>

text \<open>
  A value of a configuration object. A function stands for itself by a number. An object has its own
  properties in the order in which they were set.
\<close>

datatype cval =
    CNull
  | CUndefined
  | CBool bool
  | CNum rat
  | CStr string
  | CArr "cval list"
  | CObj "(string \<times> cval) list"
  | CFun nat

type_synonym config = "(string, cval) jsmap"

section \<open>Headers\<close>

text \<open>
  A header of a message has a value, which may be \<open>null\<close>, or an array of values. Librdkafka takes and
  returns a list of pairs.
\<close>

datatype 'v hvalue = One "'v option" | Many "'v option list"

fun convert_header :: "string \<times> 'v hvalue \<Rightarrow> (string \<times> 'v option) list" where
  "convert_header (key, Many vs) = map (Pair key) vs"
| "convert_header (key, One v) = [(key, v)]"

definition convertToRdKafkaHeaders :: "(string, 'v hvalue) jsmap option \<Rightarrow> (string \<times> 'v option) list option" where
  "convertToRdKafkaHeaders headers = map_option (\<lambda>hs. concat (map convert_header hs)) headers"

text \<open>\<open>createHeaders\<close> of \<open>lib/kafkajs/_consumer.js\<close>; a property of \<open>null\<close> cannot be read.\<close>

fun add_header :: "string \<times> 'v option \<Rightarrow> (string, 'v hvalue) jsmap \<Rightarrow> (string, 'v hvalue) jsmap result" where
  "add_header (key, v) headers =
     (case jm_get headers key of
        None \<Rightarrow> Inr (jm_set key (One v) headers)
      | Some (Many vs) \<Rightarrow> Inr (jm_set key (Many (vs @ [v])) headers)
      | Some (One None) \<Rightarrow> Inl (TypeError ''Cannot read properties of null (reading constructor)'')
      | Some (One (Some x)) \<Rightarrow> Inr (jm_set key (Many [Some x, v]) headers))"

fun add_headers :: "(string \<times> 'v option) list \<Rightarrow> (string, 'v hvalue) jsmap \<Rightarrow> (string, 'v hvalue) jsmap result" where
  "add_headers [] headers = Inr headers"
| "add_headers (h # hs) headers = res_bind (add_header h headers) (add_headers hs)"

definition createHeaders :: "(string \<times> 'v option) list option \<Rightarrow> (string, 'v hvalue) jsmap option result" where
  "createHeaders messageHeaders =
     (case messageHeaders of
        None \<Rightarrow> Inr None
      | Some hs \<Rightarrow> res_bind (add_headers hs []) (\<lambda>headers. Inr (Some headers)))"

section \<open>Offsets\<close>

record tpo =
  tpo_topic :: string
  tpo_partition :: int
  tpo_offset :: "string option"
  tpo_metadata :: "string option"
  tpo_leaderEpoch :: "int option"

record rd_tpo =
  rt_topic :: string
  rt_partition :: int
  rt_offset :: "int option"
  rt_metadata :: "string option"
  rt_leaderEpoch :: "int option"

text \<open>\<open>toNum\<close> is \<open>Number\<close> of a text. An empty text and the number 0 are not true.\<close>

definition topicPartitionOffsetToRdKafka :: "(string \<Rightarrow> int) \<Rightarrow> string \<Rightarrow> int \<Rightarrow> string \<Rightarrow> int option \<Rightarrow> rd_tpo" where
  "topicPartitionOffsetToRdKafka toNum topic part offset leaderEpoch =
     \<lparr>rt_topic = topic, rt_partition = part, rt_offset = Some (toNum offset), rt_metadata = None,
      rt_leaderEpoch = leaderEpoch\<rparr>"

definition topicPartitionOffsetMetadataToRdKafka :: "(string \<Rightarrow> int) \<Rightarrow> tpo \<Rightarrow> rd_tpo" where
  "topicPartitionOffsetMetadataToRdKafka toNum t =
     \<lparr>rt_topic = tpo_topic t, rt_partition = tpo_partition t,
      rt_offset = (case tpo_offset t of None \<Rightarrow> None | Some s \<Rightarrow> if s = [] then None else Some (toNum s)),
      rt_metadata = tpo_metadata t, rt_leaderEpoch = tpo_leaderEpoch t\<rparr>"

definition topicPartitionOffsetMetadataToKafkaJS :: "rd_tpo \<Rightarrow> tpo" where
  "topicPartitionOffsetMetadataToKafkaJS t =
     \<lparr>tpo_topic = rt_topic t, tpo_partition = rt_partition t,
      tpo_offset = (case rt_offset t of None \<Rightarrow> None | Some n \<Rightarrow> if n = 0 then None else Some (int_str n)),
      tpo_metadata = rt_metadata t, tpo_leaderEpoch = rt_leaderEpoch t\<rparr>"

section \<open>Connecting again\<close>

definition connectRetriableErrorCodes :: "int list" where
  "connectRetriableErrorCodes = [ERR__TRANSPORT, ERR__ALL_BROKERS_DOWN, ERR__RESOLVE, ERR__TIMED_OUT, ERR__TIMED_OUT_QUEUE]"

definition isConnectRetriable :: "librdkafka_error option \<Rightarrow> bool" where
  "isConnectRetriable err =
     (case err of
        None \<Rightarrow> False
      | Some e \<Rightarrow>
          if le_isFatal e = Some True \<or> le_fatal e = Some True then False
          else case le_code e of Some c \<Rightarrow> c \<in> set connectRetriableErrorCodes | None \<Rightarrow> False)"

definition hasSpecificCode :: "librdkafka_error \<Rightarrow> bool" where
  "hasSpecificCode e \<longleftrightarrow> le_code e \<noteq> None \<and> le_code e \<noteq> Some ERR_UNKNOWN"

definition moreInformativeConnectError ::
    "librdkafka_error option \<Rightarrow> librdkafka_error option \<Rightarrow> librdkafka_error option" where
  "moreInformativeConnectError primary fallback =
     (case (primary, fallback) of
        (None, _) \<Rightarrow> fallback
      | (_, None) \<Rightarrow> primary
      | (Some p, Some f) \<Rightarrow>
          if le_isFatal p = Some True then primary
          else if le_isFatal f = Some True then fallback
          else if \<not> hasSpecificCode p \<and> hasSpecificCode f then fallback
          else primary)"

definition DEFAULT_CONNECTION_SETUP_TIMEOUT_MS :: rat where
  "DEFAULT_CONNECTION_SETUP_TIMEOUT_MS = 30000"

text \<open>\<open>toNum\<close> is \<open>Number\<close> of a text that is not blank; \<open>None\<close> if it is not finite.\<close>

definition connectMetadataTimeout :: "(string \<Rightarrow> rat option) \<Rightarrow> config \<Rightarrow> rat" where
  "connectMetadataTimeout toNum rdKafkaConfig =
     (case jm_get rdKafkaConfig ''socket.connection.setup.timeout.ms'' of
        Some (CNum n) \<Rightarrow> n
      | Some (CStr s) \<Rightarrow> (case toNum s of Some n \<Rightarrow> n | None \<Rightarrow> DEFAULT_CONNECTION_SETUP_TIMEOUT_MS)
      | _ \<Rightarrow> DEFAULT_CONNECTION_SETUP_TIMEOUT_MS) + 1000"

record retry_options =
  ro_retries :: "nat option"
  ro_initialRetryTime :: "rat option"
  ro_maxRetryTime :: "rat option"

definition connectRetries :: "retry_options option \<Rightarrow> nat" where
  "connectRetries retry = (case retry of None \<Rightarrow> 5 | Some r \<Rightarrow> or_default 5 (ro_retries r))"

definition CONNECT_RETRY_INITIAL_MS :: rat where "CONNECT_RETRY_INITIAL_MS = 300"
definition CONNECT_RETRY_MAX_MS :: rat where "CONNECT_RETRY_MAX_MS = 30000"
definition CONNECT_RETRY_MULTIPLIER :: rat where "CONNECT_RETRY_MULTIPLIER = 2"
definition CONNECT_RETRY_JITTER_FACTOR :: rat where "CONNECT_RETRY_JITTER_FACTOR = 1 / 5"

text \<open>\<open>random\<close> is the answer of \<open>Math.random()\<close>.\<close>

definition connectRetryBackoff :: "rat \<Rightarrow> retry_options option \<Rightarrow> nat \<Rightarrow> rat" where
  "connectRetryBackoff random retry attempt =
     (let initial = or_default CONNECT_RETRY_INITIAL_MS (Option.bind retry ro_initialRetryTime);
          top = or_default CONNECT_RETRY_MAX_MS (Option.bind retry ro_maxRetryTime);
          base = min (initial * CONNECT_RETRY_MULTIPLIER ^ attempt) top;
          jitter = base * CONNECT_RETRY_JITTER_FACTOR;
          withJitter = base - jitter + random * 2 * jitter
      in min withJitter top)"

section \<open>Serializers of a client\<close>

text \<open>A property is kept only if every builder left it in place; the last builder gives the value.\<close>

definition intersectSerdeLeftovers :: "config \<Rightarrow> config list \<Rightarrow> config" where
  "intersectSerdeLeftovers config leftovers =
     (if leftovers = [] then config
      else filter (\<lambda>(key, v). \<forall>l \<in> set (butlast leftovers). jm_get l key \<noteq> None) (last leftovers))"

text \<open>
  \<open>close\<close> closes a serializer, which has a \<open>close\<close> method or not; the errors of all are collected. More than one
  are thrown together.
\<close>

datatype close_failure = One_error js_error | Aggregate_error string "js_error list"

fun close_all :: "('s \<Rightarrow> ('w, unit) meth option) \<Rightarrow> 's option list \<Rightarrow> 'w \<Rightarrow> 'w \<times> js_error list" where
  "close_all close [] w = (w, [])"
| "close_all close (serde # serdes) w =
     (case Option.bind serde close of
        None \<Rightarrow> close_all close serdes w
      | Some m \<Rightarrow>
          (case m w of
             (w', Inr _) \<Rightarrow> close_all close serdes w'
           | (w', Inl e) \<Rightarrow> (case close_all close serdes w' of (w'', es) \<Rightarrow> (w'', e # es))))"

definition closeSerdes :: "('s \<Rightarrow> ('w, unit) meth option) \<Rightarrow> 's option list \<Rightarrow> 'w \<Rightarrow> 'w \<times> (close_failure + unit)" where
  "closeSerdes close serdes w =
     (case close_all close serdes w of
        (w', []) \<Rightarrow> (w', Inr ())
      | (w', [e]) \<Rightarrow> (w', Inl (One_error e))
      | (w', es) \<Rightarrow> (w', Inl (Aggregate_error ''Failed to close the serializers or deserializers'' es)))"

text \<open>
  A builder takes a copy of the configuration and whether it is for keys; what it returns is checked
  by \<open>validateSerdeBuildResult\<close>, of which the outcome is here the builder's. If a builder fails, what was built before
  is closed.
\<close>

type_synonym ('s, 'w) serde_builder = "config \<Rightarrow> bool \<Rightarrow> ('w, 's \<times> config) meth"

fun build_all ::
    "('s \<Rightarrow> ('w, unit) meth option) \<Rightarrow> config \<Rightarrow> (('s, 'w) serde_builder option \<times> bool) list \<Rightarrow> 's option list \<Rightarrow> config list
     \<Rightarrow> ('w, 's option list \<times> config list) meth" where
  "build_all close config [] serdes leftovers w = (w, Inr (serdes, leftovers))"
| "build_all close config ((builder, isKey) # specs) serdes leftovers w =
     (case builder of
        None \<Rightarrow> build_all close config specs (serdes @ [None]) leftovers w
      | Some build \<Rightarrow>
          (case build config isKey w of
             (w', Inl e) \<Rightarrow> (fst (closeSerdes close serdes w'), Inl e)
           | (w', Inr (serde, leftover)) \<Rightarrow> build_all close config specs (serdes @ [Some serde]) (leftovers @ [leftover]) w'))"

definition buildSerdes ::
    "('s \<Rightarrow> ('w, unit) meth option) \<Rightarrow> config \<Rightarrow> (('s, 'w) serde_builder option \<times> bool) list \<Rightarrow> ('w, 's option list \<times> config) meth" where
  "buildSerdes close config specs =
     m_bind (build_all close config specs [] []) (\<lambda>(serdes, leftovers).
       m_return (serdes, intersectSerdeLeftovers config leftovers))"

section \<open>Headers are read back\<close>

text \<open>Reading gives one value for an array of one, and nothing for an empty array.\<close>

fun read_value :: "'v hvalue \<Rightarrow> 'v hvalue option" where
  "read_value (Many []) = None"
| "read_value (Many [v]) = Some (One v)"
| "read_value h = Some h"

definition read_headers :: "(string, 'v hvalue) jsmap \<Rightarrow> (string, 'v hvalue) jsmap" where
  "read_headers hs = List.map_filter (\<lambda>(k, h). map_option (Pair k) (read_value h)) hs"

fun no_null :: "'v hvalue \<Rightarrow> bool" where
  "no_null (One v) \<longleftrightarrow> True"
| "no_null (Many vs) \<longleftrightarrow> None \<notin> set vs"

lemma add_headers_append: "add_headers (a @ b) m = res_bind (add_headers a m) (add_headers b)"
proof (induction a arbitrary: m)
  case (Cons h hs)
  then show ?case by (cases "add_header h m") simp_all
qed simp

lemma add_more_values:
  assumes "jm_get m k = Some (Many vs)"
  shows "add_headers (map (Pair k) ws) m = Inr (if ws = [] then m else jm_set k (Many (vs @ ws)) m)"
  using assms
proof (induction ws arbitrary: m vs)
  case Nil
  then show ?case by simp
next
  case (Cons w ws)
  then show ?case by (simp del: fun_upd_apply) (simp add: Cons.IH)
qed

lemma add_converted:
  assumes new: "k \<notin> fst ` set m" and nn: "no_null h"
  shows "add_headers (convert_header (k, h)) m =
           Inr (m @ (case read_value h of None \<Rightarrow> [] | Some x \<Rightarrow> [(k, x)]))"
proof -
  have none: "jm_get m k = None" using new by (simp add: map_of_eq_None_iff)
  show ?thesis
  proof (cases h)
    case (One v)
    then show ?thesis by (simp add: none jm_set_new [OF new])
  next
    case (Many vs)
    show ?thesis
    proof (cases vs)
      case Nil
      then show ?thesis using Many by simp
    next
      case (Cons x r)
      then obtain v where v: "x = Some v" using nn Many by (cases x) auto
      show ?thesis
      proof (cases r)
        case Nil
        then show ?thesis using Many Cons by (simp add: none jm_set_new [OF new])
      next
        case (Cons y r')
        define m' where "m' = jm_set k (Many [x, y]) (jm_set k (One x) m)"
        have m': "m' = m @ [(k, Many [x, y])]" "jm_set k z m' = m @ [(k, z)]" for z
          unfolding m'_def AList.update_last by (simp_all only: jm_set_new [OF new])
        have "add_headers (convert_header (k, h)) m = add_headers (map (Pair k) r') m'"
          using Many \<open>vs = x # r\<close> Cons v by (simp add: none m'_def)
        also have "\<dots> = Inr (if r' = [] then m' else jm_set k (Many ([x, y] @ r')) m')"
          by (rule add_more_values) (simp add: m'_def)
        also have "\<dots> = Inr (m @ [(k, h)])"
          using Many \<open>vs = x # r\<close> Cons by (cases "r' = []") (simp add: m'(1), simp add: m'(2))
        finally show ?thesis using Many \<open>vs = x # r\<close> Cons by simp
      qed
    qed
  qed
qed

lemma read_headers_simps [simp]:
  "read_headers [] = []"
  "read_headers ((k, h) # hs) = (case read_value h of None \<Rightarrow> [] | Some x \<Rightarrow> [(k, x)]) @ read_headers hs"
  by (simp_all add: read_headers_def List.map_filter_def split: option.split)

lemma add_all_converted:
  assumes "distinct (map fst hs)" and "\<forall>(k, h) \<in> set hs. no_null h" and "fst ` set hs \<inter> fst ` set m = {}"
  shows "add_headers (concat (map convert_header hs)) m = Inr (m @ read_headers hs)"
  using assms
proof (induction hs arbitrary: m)
  case Nil
  then show ?case by simp
next
  case (Cons p hs)
  obtain k h where p: "p = (k, h)" by fastforce
  define m' where "m' = m @ (case read_value h of None \<Rightarrow> [] | Some x \<Rightarrow> [(k, x)])"
  have "add_headers (convert_header p) m = Inr m'"
    using Cons.prems p unfolding m'_def by (auto intro: add_converted)
  moreover have "add_headers (concat (map convert_header hs)) m' = Inr (m' @ read_headers hs)"
  proof (rule Cons.IH)
    show "fst ` set hs \<inter> fst ` set m' = {}"
      using Cons.prems p by (cases "read_value h") (auto simp: m'_def)
  qed (use Cons.prems in simp_all)
  ultimately show ?case
    by (simp add: add_headers_append p m'_def)
qed

text \<open>
  C34. The headers of a message are read back: what the consumer makes of the headers that the producer
  sent are the same names, in the same order, with the same values; an array of one value becomes that
  value and an empty array is left out. An array must not contain \<open>null\<close>.
\<close>

theorem headers_are_read_back:
  assumes "distinct (map fst hs)" and "\<forall>(k, h) \<in> set hs. no_null h"
  shows "createHeaders (convertToRdKafkaHeaders (Some hs)) = Inr (Some (read_headers hs))"
  using add_all_converted [OF assms, of "[]"] by (simp add: createHeaders_def convertToRdKafkaHeaders_def)

theorem headers_are_read_back_witness:
  "createHeaders (convertToRdKafkaHeaders
     (Some [(''a'', One (Some 1)), (''b'', Many [Some 2, Some 3]), (''c'', Many [Some (4 :: nat)]), (''d'', Many [])]))
   = Inr (Some [(''a'', One (Some 1)), (''b'', Many [Some 2, Some 3]), (''c'', One (Some 4))])"
  using headers_are_read_back
    [of "[(''a'', One (Some 1)), (''b'', Many [Some 2, Some 3]), (''c'', Many [Some (4 :: nat)]), (''d'', Many [])]"]
  by simp

section \<open>Waiting before the next attempt\<close>

text \<open>
  The wait before a connection is tried again is at most the maximum, and lies within a fifth of the
  initial wait doubled for each attempt made, as far as that is below the maximum.
\<close>

theorem backoff_is_bounded:
  assumes "0 \<le> random" and "random < 1"
    and "0 \<le> or_default CONNECT_RETRY_INITIAL_MS (Option.bind retry ro_initialRetryTime)"
    and "0 \<le> or_default CONNECT_RETRY_MAX_MS (Option.bind retry ro_maxRetryTime)"
  shows "let base = min (or_default CONNECT_RETRY_INITIAL_MS (Option.bind retry ro_initialRetryTime) * 2 ^ attempt)
                      (or_default CONNECT_RETRY_MAX_MS (Option.bind retry ro_maxRetryTime))
         in 4 / 5 * base \<le> connectRetryBackoff random retry attempt \<and> connectRetryBackoff random retry attempt \<le> 6 / 5 * base \<and>
            connectRetryBackoff random retry attempt \<le> or_default CONNECT_RETRY_MAX_MS (Option.bind retry ro_maxRetryTime)"
proof -
  define top where "top = or_default CONNECT_RETRY_MAX_MS (Option.bind retry ro_maxRetryTime)"
  define base where "base = min (or_default CONNECT_RETRY_INITIAL_MS (Option.bind retry ro_initialRetryTime) * 2 ^ attempt) top"
  have base: "0 \<le> base" "base \<le> top" using assms by (simp_all add: base_def top_def)
  define w where "w = base - base / 5 + random * 2 * (base / 5)"
  have eq: "connectRetryBackoff random retry attempt = min w top"
    by (simp add: connectRetryBackoff_def Let_def CONNECT_RETRY_MULTIPLIER_def CONNECT_RETRY_JITTER_FACTOR_def
        base_def top_def w_def)
  have "0 \<le> random * base" "random * base \<le> base"
    using base(1) assms(1,2) by (simp_all add: mult_left_le_one_le)
  then have "4 / 5 * base \<le> w" "w \<le> 6 / 5 * base"
    by (simp_all add: w_def field_simps)
  moreover have "4 / 5 * base \<le> top" using base by simp
  ultimately have "4 / 5 * base \<le> min w top" "min w top \<le> 6 / 5 * base" "min w top \<le> top"
    by (simp_all add: min_le_iff_disj)
  then show ?thesis
    unfolding Let_def eq base_def top_def by blast
qed

theorem backoff_is_bounded_witness:
  "1920 \<le> connectRetryBackoff (1 / 4) None 3 \<and> connectRetryBackoff (1 / 4) None 3 \<le> 2880"
  using backoff_is_bounded [of "1 / 4" None 3]
  by (simp add: or_default_def CONNECT_RETRY_INITIAL_MS_def CONNECT_RETRY_MAX_MS_def)

section \<open>Offsets\<close>

text \<open>
  An offset that librdkafka reports is handed to the user as its decimal text and read back from it,
  except for the offset zero: a partition whose committed offset is 0 is reported as one without an offset.
\<close>

theorem offset_zero_is_lost:
  assumes "\<And>n. toNum (int_str n) = n"
  shows "topicPartitionOffsetMetadataToRdKafka toNum (topicPartitionOffsetMetadataToKafkaJS t) =
           (if rt_offset t = Some 0 then t\<lparr>rt_offset := None\<rparr> else t)"
proof -
  have "int_str n \<noteq> []" for n
    by (simp add: int_str_def)
  then show ?thesis
    using assms
    by (cases t) (auto simp: topicPartitionOffsetMetadataToRdKafka_def topicPartitionOffsetMetadataToKafkaJS_def split: option.split)
qed

theorem offset_zero_is_lost_witness:
  "topicPartitionOffsetMetadataToRdKafka decimal_value (topicPartitionOffsetMetadataToKafkaJS
     \<lparr>rt_topic = ''t'', rt_partition = 0, rt_offset = Some 0, rt_metadata = None, rt_leaderEpoch = None\<rparr>)
   = \<lparr>rt_topic = ''t'', rt_partition = 0, rt_offset = None, rt_metadata = None, rt_leaderEpoch = None\<rparr>"
  by (subst offset_zero_is_lost [OF decimal_value_int_str]) simp

section \<open>Configurations\<close>

lemma intersect_keeps_iff:
  assumes "leftovers \<noteq> []"
  shows "key \<in> fst ` set (intersectSerdeLeftovers config leftovers) \<longleftrightarrow> (\<forall>l \<in> set leftovers. jm_get l key \<noteq> None)"
proof -
  obtain ls l where "leftovers = ls @ [l]" using assms by (metis append_butlast_last_id)
  then show ?thesis
    by (force simp: intersectSerdeLeftovers_def map_of_eq_None_iff)
qed

end
