(* ===== verification/Producer.thy ===== *)
theory Producer
  imports Kafka_Common
begin

text \<open>
  The life cycle of class \<open>Producer\<close> of \<open>lib/kafkajs/_producer.js\<close>: connecting with retries, disconnecting, and
  the guards of the operations that call librdkafka.

  The methods are asynchronous and interleave at every \<open>await\<close>. A producer is therefore a state machine: its
  state has the fields of the class and the place where \<open>connectWithRetries\<close> and \<open>disconnect\<close> wait, and an event is
  a call of a method or the end of what is awaited, with the answer the environment gives. The code
  from one \<open>await\<close> to the next is one step. Promises that are already settled are awaited too.
\<close>

section \<open>State\<close>

datatype producer_state =
  INIT | CONNECTING | INITIALIZING_TRANSACTIONS | CONNECTED | DISCONNECTING | DISCONNECTED

fun state_number :: "producer_state \<Rightarrow> nat" where
  "state_number INIT = 0"
| "state_number CONNECTING = 1"
| "state_number INITIALIZING_TRANSACTIONS = 2"
| "state_number CONNECTED = 3"
| "state_number DISCONNECTING = 4"
| "state_number DISCONNECTED = 5"

text \<open>
  An internal client, with whether it is connected and whether the listeners of the producer are
  registered. Errors of a connection attempt are of librdkafka or anything a builder, a serializer or a
  constructor throws.
\<close>

record rd_client =
  cl_connected :: bool
  cl_listeners :: bool

datatype connect_error =
    Lib_error librdkafka_error
  | Kafka_error kafka_error
  | Other_error js_error

text \<open>Where \<open>connectWithRetries\<close> waits; the number is that of the attempt, from 0.\<close>

datatype connect_pc =
    C_idle
  | C_config
  | C_unconfigured js_error
  | C_attempt nat
  | C_unbuilt nat js_error
  | C_connecting nat
  | C_setup nat
  | C_transactions nat
  | C_after nat "connect_error option"
  | C_teardown nat "connect_error option"
  | C_wait nat
  | C_closing connect_error
  | C_settled "connect_error option"

text \<open>Where \<open>disconnect\<close> waits once it has called the client, and the operations that wait for the client.\<close>

datatype disconnect_pc = D_idle | D_client | D_closing "connect_error option"

datatype client_op = Begin_transaction | Commit_transaction | Abort_transaction | Send_offsets | Flush | Cluster_id

record producer =
  ps_state :: producer_state
  ps_config :: "bool option"
  ps_serdes :: bool
  ps_clients :: "rd_client list"
  ps_client :: "nat option"
  ps_connectionError :: "librdkafka_error option"
  ps_abort :: "bool option"
  ps_connect :: connect_pc
  ps_disconnect :: disconnect_pc
  ps_waiting :: nat
  ps_ongoing :: bool
  ps_pending :: "client_op list"
  ps_sending :: nat
  ps_inflight :: nat

text \<open>
  The configuration counts for whether it has a \<open>transactional.id\<close>. \<open>ps_abort\<close> is \<open>connectAbort\<close>, with whether it is
  resolved; \<open>connectPromise\<close> is set while \<open>ps_connect\<close> is not idle; \<open>ps_waiting\<close> counts the calls of \<open>disconnect\<close>
  that wait for that promise. \<open>ps_sending\<close> counts the calls of \<open>send\<close> that wait for their serializers and
  \<open>ps_inflight\<close> those that have produced and wait for their delivery reports.
\<close>

definition newProducer :: producer where
  "newProducer =
     \<lparr>ps_state = INIT, ps_config = None, ps_serdes = False, ps_clients = [], ps_client = None,
      ps_connectionError = None, ps_abort = None, ps_connect = C_idle, ps_disconnect = D_idle, ps_waiting = 0,
      ps_ongoing = False, ps_pending = [], ps_sending = 0, ps_inflight = 0\<rparr>"

definition upd_client :: "(rd_client \<Rightarrow> rd_client) \<Rightarrow> producer \<Rightarrow> producer" where
  "upd_client f p = (case ps_client p of None \<Rightarrow> p | Some i \<Rightarrow> p\<lparr>ps_clients := (ps_clients p)[i := f (ps_clients p ! i)]\<rparr>)"

definition isConnected :: "producer \<Rightarrow> bool" where
  "isConnected p = (case ps_client p of None \<Rightarrow> False | Some i \<Rightarrow> cl_connected (ps_clients p ! i))"

section \<open>What is observed\<close>

datatype effect =
    Connect_returned "connect_error option"
  | Disconnect_returned "connect_error option"
  | Refused string int
  | Client_call nat client_op
  | Op_returned client_op "connect_error option"
  | Produce_call nat
  | Send_returned "connect_error option"
  | Sasl_configured
  | Sasl_call nat
  | Sasl_threw js_error

definition lib_to_kafka :: "librdkafka_error \<Rightarrow> connect_error" where
  "lib_to_kafka e = (case createKafkaJsErrorFromLibRdKafkaError e of Inr k \<Rightarrow> Kafka_error k | Inl t \<Rightarrow> Other_error t)"

definition abortError :: connect_error where
  "abortError = Kafka_error (kjs_error ''Connect aborted by disconnect().'' ERR__STATE)"

section \<open>connectWithRetries\<close>

text \<open>The \<open>catch\<close> and \<open>finally\<close> around the loop.\<close>

definition connect_failed :: "connect_error \<Rightarrow> producer \<Rightarrow> producer" where
  "connect_failed err p =
     (if ps_state p \<noteq> INIT then p\<lparr>ps_serdes := False, ps_connect := C_closing err\<rparr>
      else p\<lparr>ps_abort := None, ps_connect := C_settled (Some err)\<rparr>)"

text \<open>After \<open>config\<close>: handing the serializers their resolver may throw.\<close>

definition configured :: "bool \<Rightarrow> js_error option \<Rightarrow> producer \<Rightarrow> producer" where
  "configured tx resolver p =
     (let p1 = (if ps_config p = None then p\<lparr>ps_config := Some tx, ps_serdes := True\<rparr> else p)
      in case resolver of
           Some err \<Rightarrow> p1\<lparr>ps_config := None, ps_serdes := False, ps_connect := C_unconfigured err\<rparr>
         | None \<Rightarrow> p1\<lparr>ps_state := CONNECTING, ps_abort := Some False, ps_connect := C_attempt 0\<rparr>)"

definition connectInternalClientOnce :: "nat \<Rightarrow> js_error option \<Rightarrow> producer \<Rightarrow> producer" where
  "connectInternalClientOnce n build p =
     (let p1 = p\<lparr>ps_state := CONNECTING, ps_connectionError := None\<rparr>
      in case build of
           Some err \<Rightarrow> p1\<lparr>ps_state := INIT, ps_config := None, ps_serdes := False, ps_connect := C_unbuilt n err\<rparr>
         | None \<Rightarrow> p1\<lparr>ps_clients := ps_clients p1 @ [\<lparr>cl_connected = False, cl_listeners = True\<rparr>],
                      ps_client := Some (length (ps_clients p1)), ps_connect := C_connecting n\<rparr>)"

definition errorCb :: "librdkafka_error \<Rightarrow> producer \<Rightarrow> producer" where
  "errorCb err p =
     (if state_number (ps_state p) < state_number CONNECTED \<and> ps_connectionError p = None
      then p\<lparr>ps_connectionError := Some err\<rparr> else p)"

text \<open>
  The callback of \<open>connect\<close> of the client, and what follows it in the loop. A client that fails is no longer
  connected when it calls back.
\<close>

definition connect_callback :: "nat \<Rightarrow> librdkafka_error option \<Rightarrow> producer \<Rightarrow> producer" where
  "connect_callback n err p =
     (case err of
        Some e \<Rightarrow> p\<lparr>ps_connect := C_after n (map_option Lib_error (moreInformativeConnectError (ps_connectionError p) (Some e)))\<rparr>
      | None \<Rightarrow>
          (let p1 = upd_client (\<lambda>c. c\<lparr>cl_connected := True\<rparr>) p
           in if ps_abort p1 \<noteq> Some True then p1\<lparr>ps_connect := C_setup n\<rparr> else p1\<lparr>ps_connect := C_after n None\<rparr>))"

definition onConnected :: "nat \<Rightarrow> producer \<Rightarrow> producer" where
  "onConnected n p =
     (if ps_config p = Some True then p\<lparr>ps_state := INITIALIZING_TRANSACTIONS, ps_connect := C_transactions n\<rparr>
      else p\<lparr>ps_state := CONNECTED, ps_connect := C_after n None\<rparr>)"

definition transactions_initialized :: "nat \<Rightarrow> librdkafka_error option \<Rightarrow> producer \<Rightarrow> producer" where
  "transactions_initialized n err p =
     (case err of
        Some e \<Rightarrow> p\<lparr>ps_connect := C_after n (Some (Lib_error e))\<rparr>
      | None \<Rightarrow> p\<lparr>ps_state := CONNECTED, ps_connect := C_after n None\<rparr>)"

text \<open>The loop body after an attempt; tearing the client down waits for it to disconnect.\<close>

definition attempt_ended :: "nat \<Rightarrow> connect_error option \<Rightarrow> producer \<Rightarrow> producer" where
  "attempt_ended n attemptError p =
     (if ps_state p = INIT then connect_failed (the attemptError) p
      else if attemptError = None \<and> ps_abort p \<noteq> Some True then p\<lparr>ps_abort := None, ps_connect := C_settled None\<rparr>
      else upd_client (\<lambda>c. c\<lparr>cl_listeners := False\<rparr>) p\<lparr>ps_connect := C_teardown n attemptError\<rparr>)"

definition throwIfConnectAborted :: "(producer \<Rightarrow> producer) \<Rightarrow> producer \<Rightarrow> producer" where
  "throwIfConnectAborted proceed p =
     (if ps_abort p = Some True then connect_failed abortError (p\<lparr>ps_state := DISCONNECTED\<rparr>) else proceed p)"

fun retry_or_fail :: "nat \<Rightarrow> nat \<Rightarrow> connect_error option \<Rightarrow> producer \<Rightarrow> producer" where
  "retry_or_fail retries n (Some (Lib_error e)) p =
     (case createKafkaJsErrorFromLibRdKafkaError e of
        Inl t \<Rightarrow> connect_failed (Other_error t) p
      | Inr k \<Rightarrow>
          if n \<ge> retries \<or> \<not> isConnectRetriable (Some e)
          then connect_failed (Kafka_error k) (p\<lparr>ps_state := DISCONNECTED\<rparr>)
          else p\<lparr>ps_connect := C_wait n\<rparr>)"
| "retry_or_fail retries n _ p = p"

definition torn_down :: "nat \<Rightarrow> nat \<Rightarrow> connect_error option \<Rightarrow> producer \<Rightarrow> producer" where
  "torn_down retries n attemptError p =
     throwIfConnectAborted (retry_or_fail retries n attemptError) (upd_client (\<lambda>c. c\<lparr>cl_connected := False\<rparr>) p)"

definition waited :: "nat \<Rightarrow> producer \<Rightarrow> producer" where
  "waited n = throwIfConnectAborted (\<lambda>p. p\<lparr>ps_connect := C_attempt (n + 1)\<rparr>)"

section \<open>Calls\<close>

definition connect :: "producer \<Rightarrow> producer \<times> effect list" where
  "connect p =
     (if ps_connect p \<noteq> C_idle then (p, [])
      else if ps_state p \<noteq> INIT then (p, [Refused ''Connect has already been called elsewhere.'' ERR__STATE])
      else (p\<lparr>ps_connect := C_config\<rparr>, []))"

definition disconnect :: "producer \<Rightarrow> producer \<times> effect list" where
  "disconnect p =
     (if ps_state p = INIT then (p, [Disconnect_returned None])
      else if ps_abort p \<noteq> None then
        (if ps_connect p \<noteq> C_idle then (p\<lparr>ps_abort := Some True, ps_waiting := ps_waiting p + 1\<rparr>, [])
         else (p\<lparr>ps_abort := Some True\<rparr>, [Disconnect_returned None]))
      else if state_number (ps_state p) \<ge> state_number DISCONNECTING then (p, [Disconnect_returned None])
      else (p\<lparr>ps_state := DISCONNECTING, ps_disconnect := D_client\<rparr>, []))"

definition client_disconnected :: "librdkafka_error option \<Rightarrow> producer \<Rightarrow> producer" where
  "client_disconnected err p =
     (case err of
        Some e \<Rightarrow> p\<lparr>ps_serdes := False, ps_disconnect := D_closing (Some (lib_to_kafka e))\<rparr>
      | None \<Rightarrow> upd_client (\<lambda>c. c\<lparr>cl_connected := False\<rparr>) p\<lparr>ps_state := DISCONNECTED, ps_serdes := False, ps_disconnect := D_closing None\<rparr>)"

text \<open>The operations and their guards.\<close>

fun op_name :: "client_op \<Rightarrow> string" where
  "op_name Begin_transaction = ''start transaction''"
| "op_name Commit_transaction = ''commit''"
| "op_name Abort_transaction = ''abort''"
| "op_name Send_offsets = ''sendOffsets''"
| "op_name Flush = ''flush''"
| "op_name Cluster_id = ''fetch the cluster id''"

definition refused :: "client_op \<Rightarrow> producer \<Rightarrow> producer \<times> effect list" where
  "refused op p = (p, [Refused (''Cannot '' @ op_name op @ '' without awaiting connect()'') ERR__STATE])"

definition to_client :: "client_op \<Rightarrow> producer \<Rightarrow> producer \<times> effect list" where
  "to_client op p = (p\<lparr>ps_pending := op # ps_pending p\<rparr>, case ps_client p of Some i \<Rightarrow> [Client_call i op] | None \<Rightarrow> [])"

text \<open>\<open>transaction\<close>, \<open>commit\<close>, \<open>abort\<close> and \<open>sendOffsets\<close>, then \<open>flush\<close> and \<open>clusterId\<close>: guard and call are one step.\<close>

definition transaction_client :: "client_op \<Rightarrow> producer \<Rightarrow> producer \<times> effect list" where
  "transaction_client op p =
     (if ps_state p \<noteq> CONNECTED then refused op p
      else if op = Begin_transaction \<and> ps_ongoing p
      then (p, [Refused ''Can only start one transaction at a time.'' ERR__STATE])
      else if op \<in> {Commit_transaction, Abort_transaction, Send_offsets} \<and> \<not> ps_ongoing p
      then (p, [Refused (''Cannot '' @ op_name op @ '', no transaction ongoing.'') ERR__STATE])
      else to_client op p)"

definition flush_client :: "producer \<Rightarrow> producer \<times> effect list" where
  "flush_client p = (if ps_state p \<noteq> CONNECTED then refused Flush p else to_client Flush p)"

definition clusterId :: "producer \<Rightarrow> producer \<times> effect list" where
  "clusterId p = (if ps_state p \<noteq> CONNECTED then refused Cluster_id p else to_client Cluster_id p)"

fun call_client :: "client_op \<Rightarrow> producer \<Rightarrow> producer \<times> effect list" where
  "call_client Flush p = flush_client p"
| "call_client Cluster_id p = clusterId p"
| "call_client op p = transaction_client op p"

definition op_callback :: "client_op \<Rightarrow> librdkafka_error option \<Rightarrow> producer \<Rightarrow> producer \<times> effect list" where
  "op_callback op err p =
     (let p1 = p\<lparr>ps_pending := remove1 op (ps_pending p)\<rparr>
      in case err of
           Some e \<Rightarrow> (p1, [Op_returned op (Some (lib_to_kafka e))])
         | None \<Rightarrow>
             (p1\<lparr>ps_ongoing := (if op = Begin_transaction then True
                               else if op = Commit_transaction \<or> op = Abort_transaction then False else ps_ongoing p1)\<rparr>,
              [Op_returned op None]))"

definition isActive :: "producer \<Rightarrow> bool" where
  "isActive p = ps_ongoing p"

text \<open>
  \<open>send\<close> tests the state when it is called, awaits the serializers of all messages, and produces without testing it again,
  with whatever client there is then. \<open>Inl\<close> is an error of its arguments or of the preparation, \<open>Inr\<close> the number of
  messages; what is prepared and produced is the subject of \<open>Producer_Send\<close>.
\<close>

definition begin_send :: "producer \<Rightarrow> producer \<times> effect list" where
  "begin_send p =
     (if ps_state p \<noteq> CONNECTED then (p, [Refused ''Cannot send without awaiting connect()'' ERR__STATE])
      else (p\<lparr>ps_sending := ps_sending p + 1\<rparr>, []))"

definition send_prepared :: "kafka_error + nat \<Rightarrow> producer \<Rightarrow> producer \<times> effect list" where
  "send_prepared r p =
     (let p1 = p\<lparr>ps_sending := ps_sending p - 1\<rparr>
      in case r of
           Inl e \<Rightarrow> (p1, [Send_returned (Some (Kafka_error e))])
         | Inr n \<Rightarrow> (p1\<lparr>ps_inflight := ps_inflight p1 + 1\<rparr>, case ps_client p1 of Some i \<Rightarrow> replicate n (Produce_call i) | None \<Rightarrow> []))"

definition send_settled :: "connect_error option \<Rightarrow> producer \<Rightarrow> producer \<times> effect list" where
  "send_settled r p = (p\<lparr>ps_inflight := ps_inflight p - 1\<rparr>, [Send_returned r])"

text \<open>
  \<open>setSaslCredentials\<close> with complete arguments: it is not for a connected producer only. From the state CONNECTING on it
  calls the client, and throws if none has been built.
\<close>

definition sasl_client :: "producer \<Rightarrow> producer \<times> effect list" where
  "sasl_client p =
     (if state_number (ps_state p) < state_number CONNECTING then (p, [Sasl_configured])
      else case ps_client p of
             Some i \<Rightarrow> (p, [Sasl_call i])
           | None \<Rightarrow> (p, [Sasl_threw (TypeError ''Cannot read properties of null (reading setSaslCredentials)'')]))"

section \<open>Events\<close>

datatype event =
    Call_connect
  | Call_disconnect
  | Call_op client_op
  | Call_send
  | Call_sasl
  | Send_prepared "kafka_error + nat"
  | Send_settled "connect_error option"
  | Config_failed js_error
  | Config_ready bool "js_error option"
  | Built "js_error option"
  | Error_event librdkafka_error
  | Connected "librdkafka_error option"
  | Set_up
  | Transactions "librdkafka_error option"
  | Attempt_ended
  | Torn_down
  | Waited
  | Serdes_closed
  | Settled
  | Client_disconnected "librdkafka_error option"
  | Disconnect_closed "js_error option"
  | Op_callback client_op "librdkafka_error option"

text \<open>A step of the coroutine of \<open>connectWithRetries\<close>, if it waits for the event.\<close>

definition connect_step :: "nat \<Rightarrow> event \<Rightarrow> producer \<Rightarrow> producer option" where
  "connect_step retries e p =
     (case ps_connect p of
        C_config \<Rightarrow>
          (case e of
             Config_failed err \<Rightarrow> Some (p\<lparr>ps_connect := C_settled (Some (Other_error err))\<rparr>)
           | Config_ready tx r \<Rightarrow> Some (configured tx r p)
           | _ \<Rightarrow> None)
      | C_unconfigured err \<Rightarrow>
          (case e of Serdes_closed \<Rightarrow> Some (p\<lparr>ps_connect := C_settled (Some (Other_error err))\<rparr>) | _ \<Rightarrow> None)
      | C_attempt n \<Rightarrow> (case e of Built b \<Rightarrow> Some (connectInternalClientOnce n b p) | _ \<Rightarrow> None)
      | C_unbuilt n err \<Rightarrow> (case e of Serdes_closed \<Rightarrow> Some (p\<lparr>ps_connect := C_after n (Some (Other_error err))\<rparr>) | _ \<Rightarrow> None)
      | C_connecting n \<Rightarrow> (case e of Connected err \<Rightarrow> Some (connect_callback n err p) | _ \<Rightarrow> None)
      | C_setup n \<Rightarrow> (case e of Set_up \<Rightarrow> Some (onConnected n p) | _ \<Rightarrow> None)
      | C_transactions n \<Rightarrow> (case e of Transactions err \<Rightarrow> Some (transactions_initialized n err p) | _ \<Rightarrow> None)
      | C_after n r \<Rightarrow> (case e of Attempt_ended \<Rightarrow> Some (attempt_ended n r p) | _ \<Rightarrow> None)
      | C_teardown n r \<Rightarrow> (case e of Torn_down \<Rightarrow> Some (torn_down retries n r p) | _ \<Rightarrow> None)
      | C_wait n \<Rightarrow> (case e of Waited \<Rightarrow> Some (waited n p) | _ \<Rightarrow> None)
      | C_closing err \<Rightarrow>
          (case e of Serdes_closed \<Rightarrow> Some (p\<lparr>ps_abort := None, ps_connect := C_settled (Some err)\<rparr>) | _ \<Rightarrow> None)
      | _ \<Rightarrow> None)"

definition settle :: "connect_error option \<Rightarrow> producer \<Rightarrow> producer \<times> effect list" where
  "settle r p = (p\<lparr>ps_connect := C_idle, ps_waiting := 0\<rparr>, Connect_returned r # replicate (ps_waiting p) (Disconnect_returned None))"

definition producer_step :: "nat \<Rightarrow> event \<Rightarrow> producer \<Rightarrow> (producer \<times> effect list) option" where
  "producer_step retries e p =
     (case e of
        Call_connect \<Rightarrow> Some (connect p)
      | Call_disconnect \<Rightarrow> Some (disconnect p)
      | Call_op op \<Rightarrow> Some (call_client op p)
      | Call_send \<Rightarrow> Some (begin_send p)
      | Call_sasl \<Rightarrow> Some (sasl_client p)
      | Send_prepared r \<Rightarrow> if ps_sending p > 0 then Some (send_prepared r p) else None
      | Send_settled r \<Rightarrow> if ps_inflight p > 0 then Some (send_settled r p) else None
      | Error_event err \<Rightarrow> if \<exists>c \<in> set (ps_clients p). cl_listeners c then Some (errorCb err p, []) else None
      | Client_disconnected err \<Rightarrow> if ps_disconnect p = D_client then Some (client_disconnected err p, []) else None
      | Disconnect_closed err \<Rightarrow>
          (case ps_disconnect p of
             D_closing r \<Rightarrow> Some (p\<lparr>ps_disconnect := D_idle\<rparr>,
                              [Disconnect_returned (case err of Some e \<Rightarrow> Some (Other_error e) | None \<Rightarrow> r)])
           | _ \<Rightarrow> None)
      | Op_callback op err \<Rightarrow> if op \<in> set (ps_pending p) then Some (op_callback op err p) else None
      | Settled \<Rightarrow> (case ps_connect p of C_settled r \<Rightarrow> Some (settle r p) | _ \<Rightarrow> None)
      | _ \<Rightarrow> map_option (\<lambda>p'. (p', [])) (connect_step retries e p))"

fun producer_run :: "nat \<Rightarrow> event list \<Rightarrow> producer \<Rightarrow> (producer \<times> effect list) option" where
  "producer_run retries [] p = Some (p, [])"
| "producer_run retries (e # es) p =
     (case producer_step retries e p of
        None \<Rightarrow> None
      | Some (p', out) \<Rightarrow> map_option (\<lambda>(p'', outs). (p'', out @ outs)) (producer_run retries es p'))"

inductive producer_reach :: "nat \<Rightarrow> producer \<Rightarrow> bool" for retries where
  new: "producer_reach retries newProducer"
| step: "producer_reach retries p \<Longrightarrow> producer_step retries e p = Some (p', out) \<Longrightarrow> producer_reach retries p'"

end
