(* ===== verification/Producer_Facts.thy ===== *)
theory Producer_Facts
  imports Producer
begin

text \<open>
  What holds of a producer however calls, answers of librdkafka and timers interleave: at most one internal
  client is connected, operations reach the connected client or are refused, except that a send that awaits its serializers
  can outlive the connection; a connection that is given up leaves nothing behind, and connecting ends.
\<close>

section \<open>The current client\<close>

lemma upd_client_simps [simp]:
  "ps_state (upd_client f p) = ps_state p" "ps_config (upd_client f p) = ps_config p"
  "ps_serdes (upd_client f p) = ps_serdes p" "ps_client (upd_client f p) = ps_client p"
  "ps_connectionError (upd_client f p) = ps_connectionError p" "ps_abort (upd_client f p) = ps_abort p"
  "ps_connect (upd_client f p) = ps_connect p" "ps_disconnect (upd_client f p) = ps_disconnect p"
  "ps_waiting (upd_client f p) = ps_waiting p" "ps_ongoing (upd_client f p) = ps_ongoing p"
  "ps_pending (upd_client f p) = ps_pending p" "ps_sending (upd_client f p) = ps_sending p" "ps_inflight (upd_client f p) = ps_inflight p"
  "length (ps_clients (upd_client f p)) = length (ps_clients p)"
  by (simp_all add: upd_client_def split: option.split)

text \<open>Clients other than the current one are not connected.\<close>

definition alone :: "producer \<Rightarrow> bool" where
  "alone p \<longleftrightarrow>
     (\<forall>i < length (ps_clients p). cl_connected (ps_clients p ! i) \<longrightarrow> ps_client p = Some i) \<and>
     (\<forall>i. ps_client p = Some i \<longrightarrow> i < length (ps_clients p))"

lemma alone_D:
  "alone p \<Longrightarrow> i < length (ps_clients p) \<Longrightarrow> cl_connected (ps_clients p ! i) \<Longrightarrow> ps_client p = Some i"
  "alone p \<Longrightarrow> ps_client p = Some i \<Longrightarrow> i < length (ps_clients p)"
  unfolding alone_def by blast+

lemma alone_upd_client:
  assumes "alone p"
  shows "alone (upd_client f p)"
proof (cases "ps_client p")
  case None
  then show ?thesis using assms by (simp add: upd_client_def)
next
  case (Some i)
  have "ps_clients (upd_client f p) ! j = ps_clients p ! j" if "j \<noteq> i" for j
    using that Some by (simp add: upd_client_def)
  then have "ps_client p = Some j" if "j < length (ps_clients p)" "cl_connected (ps_clients (upd_client f p) ! j)" for j
    using that Some alone_D(1) [OF assms, of j] by (cases "j = i") simp_all
  then show ?thesis
    using alone_D(2) [OF assms] unfolding alone_def upd_client_simps by blast
qed

lemma isConnected_upd_client:
  assumes "alone p" and "ps_client p \<noteq> None"
  shows "isConnected (upd_client (\<lambda>c. c\<lparr>cl_connected := b\<rparr>) p) = b"
    and "isConnected (upd_client (\<lambda>c. c\<lparr>cl_listeners := b\<rparr>) p) = isConnected p"
proof -
  obtain i where "ps_client p = Some i" using assms(2) by auto
  then show "isConnected (upd_client (\<lambda>c. c\<lparr>cl_connected := b\<rparr>) p) = b"
    and "isConnected (upd_client (\<lambda>c. c\<lparr>cl_listeners := b\<rparr>) p) = isConnected p"
    using alone_D(2) [OF assms(1)] by (simp_all add: isConnected_def upd_client_def)
qed

lemma connected_has_client: "isConnected p \<Longrightarrow> ps_client p \<noteq> None"
  by (simp add: isConnected_def split: option.splits)

lemma field_updates [simp]:
  "isConnected (p\<lparr>ps_state := x0\<rparr>) = isConnected p" "alone (p\<lparr>ps_state := x0\<rparr>) = alone p"
  "isConnected (p\<lparr>ps_config := x1\<rparr>) = isConnected p" "alone (p\<lparr>ps_config := x1\<rparr>) = alone p"
  "isConnected (p\<lparr>ps_serdes := x2\<rparr>) = isConnected p" "alone (p\<lparr>ps_serdes := x2\<rparr>) = alone p"
  "isConnected (p\<lparr>ps_connectionError := x3\<rparr>) = isConnected p" "alone (p\<lparr>ps_connectionError := x3\<rparr>) = alone p"
  "isConnected (p\<lparr>ps_abort := x4\<rparr>) = isConnected p" "alone (p\<lparr>ps_abort := x4\<rparr>) = alone p"
  "isConnected (p\<lparr>ps_connect := x5\<rparr>) = isConnected p" "alone (p\<lparr>ps_connect := x5\<rparr>) = alone p"
  "isConnected (p\<lparr>ps_disconnect := x6\<rparr>) = isConnected p" "alone (p\<lparr>ps_disconnect := x6\<rparr>) = alone p"
  "isConnected (p\<lparr>ps_waiting := x7\<rparr>) = isConnected p" "alone (p\<lparr>ps_waiting := x7\<rparr>) = alone p"
  "isConnected (p\<lparr>ps_ongoing := x8\<rparr>) = isConnected p" "alone (p\<lparr>ps_ongoing := x8\<rparr>) = alone p"
  "isConnected (p\<lparr>ps_pending := x9\<rparr>) = isConnected p" "alone (p\<lparr>ps_pending := x9\<rparr>) = alone p"
  "isConnected (p\<lparr>ps_sending := x10\<rparr>) = isConnected p" "alone (p\<lparr>ps_sending := x10\<rparr>) = alone p"
  "isConnected (p\<lparr>ps_inflight := x11\<rparr>) = isConnected p" "alone (p\<lparr>ps_inflight := x11\<rparr>) = alone p"
  by (simp_all add: isConnected_def alone_def cong: option.case_cong)

section \<open>The invariant\<close>

text \<open>A producer that is not connecting, or whose connection attempt is over.\<close>

definition at_rest :: "producer \<Rightarrow> bool" where
  "at_rest p \<longleftrightarrow>
     ps_abort p = None \<and>
     (case ps_state p of
        INIT \<Rightarrow> \<not> isConnected p \<and> \<not> ps_serdes p \<and> ps_config p = None \<and> ps_disconnect p = D_idle
      | CONNECTING \<Rightarrow> \<not> isConnected p \<and> \<not> ps_serdes p \<and> ps_disconnect p = D_idle
      | INITIALIZING_TRANSACTIONS \<Rightarrow> \<not> isConnected p \<and> \<not> ps_serdes p \<and> ps_disconnect p = D_idle
      | CONNECTED \<Rightarrow> isConnected p \<and> ps_serdes p \<and> ps_disconnect p = D_idle
      | DISCONNECTING \<Rightarrow> ps_disconnect p = D_client \<or> \<not> ps_serdes p
      | DISCONNECTED \<Rightarrow> \<not> isConnected p \<and> \<not> ps_serdes p \<and> ps_disconnect p \<noteq> D_client)"

text \<open>A producer inside the loop, with everything it needs for an attempt.\<close>

definition equipped :: "producer \<Rightarrow> bool" where
  "equipped p \<longleftrightarrow> ps_abort p \<noteq> None \<and> ps_disconnect p = D_idle \<and> ps_serdes p \<and> ps_config p \<noteq> None"

definition stripped :: "producer \<Rightarrow> bool" where
  "stripped p \<longleftrightarrow> ps_disconnect p = D_idle \<and> \<not> ps_serdes p \<and> \<not> isConnected p"

abbreviation pending_states :: "producer_state set" where
  "pending_states \<equiv> {CONNECTING, INITIALIZING_TRANSACTIONS}"

fun phase :: "nat \<Rightarrow> connect_pc \<Rightarrow> producer \<Rightarrow> bool" where
  "phase retries C_idle p \<longleftrightarrow> at_rest p \<and> ps_waiting p = 0"
| "phase retries C_config p \<longleftrightarrow> ps_state p = INIT \<and> at_rest p \<and> ps_waiting p = 0"
| "phase retries (C_unconfigured e) p \<longleftrightarrow> ps_state p = INIT \<and> at_rest p \<and> ps_waiting p = 0"
| "phase retries (C_attempt n) p \<longleftrightarrow> n \<le> retries \<and> ps_state p \<in> pending_states \<and> equipped p \<and> \<not> isConnected p"
| "phase retries (C_unbuilt n e) p \<longleftrightarrow> n \<le> retries \<and> ps_state p = INIT \<and> stripped p \<and> ps_config p = None \<and> ps_abort p \<noteq> None"
| "phase retries (C_connecting n) p \<longleftrightarrow> n \<le> retries \<and> ps_state p = CONNECTING \<and> equipped p \<and> \<not> isConnected p \<and> ps_client p \<noteq> None"
| "phase retries (C_setup n) p \<longleftrightarrow> n \<le> retries \<and> ps_state p = CONNECTING \<and> equipped p \<and> isConnected p"
| "phase retries (C_transactions n) p \<longleftrightarrow> n \<le> retries \<and> ps_state p = INITIALIZING_TRANSACTIONS \<and> equipped p \<and> isConnected p"
| "phase retries (C_after n r) p \<longleftrightarrow> n \<le> retries \<and>
     (if ps_state p = INIT then stripped p \<and> ps_config p = None \<and> ps_abort p \<noteq> None \<and> r \<noteq> None
      else equipped p \<and> ps_client p \<noteq> None \<and>
        (case r of
           None \<Rightarrow> isConnected p \<and> (ps_state p = CONNECTED \<or> ps_state p \<in> pending_states \<and> ps_abort p = Some True)
         | Some e \<Rightarrow> ps_state p \<in> pending_states \<and> (\<exists>l. e = Lib_error l)))"
| "phase retries (C_teardown n r) p \<longleftrightarrow> n \<le> retries \<and> equipped p \<and> ps_client p \<noteq> None \<and>
     (case r of
        None \<Rightarrow> isConnected p \<and> ps_state p \<in> insert CONNECTED pending_states \<and> ps_abort p = Some True
      | Some e \<Rightarrow> ps_state p \<in> pending_states \<and> (\<exists>l. e = Lib_error l))"
| "phase retries (C_wait n) p \<longleftrightarrow> n < retries \<and> ps_state p \<in> pending_states \<and> equipped p \<and> \<not> isConnected p"
| "phase retries (C_closing e) p \<longleftrightarrow> ps_state p \<in> insert DISCONNECTED pending_states \<and> stripped p \<and> ps_abort p \<noteq> None"
| "phase retries (C_settled r) p \<longleftrightarrow> at_rest p \<and> (case r of None \<Rightarrow> ps_waiting p = 0 | Some e \<Rightarrow> \<not> isConnected p \<and> \<not> ps_serdes p \<and> ps_state p \<noteq> CONNECTED)"

lemma unaffected [simp]:
  "at_rest (p\<lparr>ps_connectionError := x0\<rparr>) = at_rest p" "equipped (p\<lparr>ps_connectionError := x0\<rparr>) = equipped p" "stripped (p\<lparr>ps_connectionError := x0\<rparr>) = stripped p"
  "at_rest (p\<lparr>ps_pending := x1\<rparr>) = at_rest p" "equipped (p\<lparr>ps_pending := x1\<rparr>) = equipped p" "stripped (p\<lparr>ps_pending := x1\<rparr>) = stripped p"
  "at_rest (p\<lparr>ps_sending := x5\<rparr>) = at_rest p" "equipped (p\<lparr>ps_sending := x5\<rparr>) = equipped p" "stripped (p\<lparr>ps_sending := x5\<rparr>) = stripped p"
  "at_rest (p\<lparr>ps_inflight := x6\<rparr>) = at_rest p" "equipped (p\<lparr>ps_inflight := x6\<rparr>) = equipped p" "stripped (p\<lparr>ps_inflight := x6\<rparr>) = stripped p"
  "at_rest (p\<lparr>ps_ongoing := x2\<rparr>) = at_rest p" "equipped (p\<lparr>ps_ongoing := x2\<rparr>) = equipped p" "stripped (p\<lparr>ps_ongoing := x2\<rparr>) = stripped p"
  "at_rest (p\<lparr>ps_connect := x3\<rparr>) = at_rest p" "equipped (p\<lparr>ps_connect := x3\<rparr>) = equipped p" "stripped (p\<lparr>ps_connect := x3\<rparr>) = stripped p"
  "at_rest (p\<lparr>ps_waiting := x4\<rparr>) = at_rest p" "equipped (p\<lparr>ps_waiting := x4\<rparr>) = equipped p" "stripped (p\<lparr>ps_waiting := x4\<rparr>) = stripped p"
  by (simp_all add: at_rest_def equipped_def stripped_def cong: producer_state.case_cong)

lemma at_rest_abort: "at_rest p \<Longrightarrow> ps_abort p = None"
  by (simp add: at_rest_def)

definition producer_ok :: "nat \<Rightarrow> producer \<Rightarrow> bool" where
  "producer_ok retries p \<longleftrightarrow>
     alone p \<and> phase retries (ps_connect p) p \<and>
     (ps_waiting p > 0 \<longrightarrow> ps_abort p = Some True \<or> (\<exists>e. ps_connect p = C_settled (Some e)))"

section \<open>Every step keeps it\<close>

lemma connect_failed_ok:
  assumes "alone p" and "\<not> isConnected p" and "ps_disconnect p = D_idle" and "ps_abort p \<noteq> None"
    and "ps_waiting p > 0 \<longrightarrow> ps_abort p = Some True"
    and "ps_state p = INIT \<longrightarrow> \<not> ps_serdes p \<and> ps_config p = None"
    and "ps_state p \<in> {INIT, DISCONNECTED} \<union> pending_states"
  shows "producer_ok retries (connect_failed e p)"
  using assms by (auto simp: producer_ok_def connect_failed_def stripped_def at_rest_def)

lemmas phase_defs = producer_ok_def at_rest_def equipped_def stripped_def Let_def

lemma configured_ok:
  assumes "alone p" and "phase retries C_config p"
  shows "producer_ok retries (configured tx r p)"
  using assms by (cases r) (auto simp: phase_defs configured_def)

lemma config_failed_ok:
  assumes "alone p" and "phase retries C_config p"
  shows "producer_ok retries (p\<lparr>ps_connect := C_settled (Some e)\<rparr>)"
  using assms by (auto simp: phase_defs)

lemma connectInternalClientOnce_ok:
  assumes al: "alone p" and ph: "phase retries (C_attempt n) p" and w: "ps_waiting p > 0 \<longrightarrow> ps_abort p = Some True"
  shows "producer_ok retries (connectInternalClientOnce n b p)"
proof (cases b)
  case (Some e)
  then show ?thesis using assms by (auto simp: phase_defs connectInternalClientOnce_def)
next
  case None
  define q where "q = connectInternalClientOnce n b p"
  have clients: "ps_clients q = ps_clients p @ [\<lparr>cl_connected = False, cl_listeners = True\<rparr>]"
      "ps_client q = Some (length (ps_clients p))"
    using None by (simp_all add: q_def connectInternalClientOnce_def Let_def)
  have "\<not> cl_connected (ps_clients p ! i)" if "i < length (ps_clients p)" for i
    using alone_D(1) [OF al that] ph by (auto simp: isConnected_def split: option.splits)
  then have "alone q"
    by (auto simp: alone_def clients nth_append less_Suc_eq)
  moreover have "\<not> isConnected q"
    by (simp add: isConnected_def clients)
  moreover have "ps_state q = CONNECTING" "ps_connect q = C_connecting n" "ps_abort q = ps_abort p" "ps_disconnect q = ps_disconnect p"
      "ps_serdes q = ps_serdes p" "ps_config q = ps_config p" "ps_waiting q = ps_waiting p"
    using None by (simp_all add: q_def connectInternalClientOnce_def Let_def)
  ultimately show ?thesis
    using ph w clients unfolding q_def [symmetric] by (simp add: phase_defs)
qed

lemma connect_callback_ok:
  assumes al: "alone p" and ph: "phase retries (C_connecting n) p" and w: "ps_waiting p > 0 \<longrightarrow> ps_abort p = Some True"
  shows "producer_ok retries (connect_callback n err p)"
proof (cases err)
  case (Some e)
  have "moreInformativeConnectError (ps_connectionError p) (Some e) \<noteq> None"
    by (simp add: moreInformativeConnectError_def split: option.split)
  then obtain l where l: "moreInformativeConnectError (ps_connectionError p) (Some e) = Some l"
    by auto
  show ?thesis
    using Some assms by (auto simp: phase_defs connect_callback_def l)
next
  case None
  then show ?thesis
    using assms alone_upd_client [OF al] isConnected_upd_client(1) [OF al, of True]
    by (auto simp: phase_defs connect_callback_def)
qed

lemma set_up_ok:
  assumes "alone p" and "ps_waiting p > 0 \<longrightarrow> ps_abort p = Some True"
  shows "phase retries (C_setup n) p \<Longrightarrow> producer_ok retries (onConnected n p)"
    and "phase retries (C_transactions n) p \<Longrightarrow> producer_ok retries (transactions_initialized n err p)"
  using assms connected_has_client
  by (auto simp: phase_defs onConnected_def transactions_initialized_def split: option.split)

lemma attempt_ended_ok:
  assumes al: "alone p" and ph: "phase retries (C_after n r) p" and w: "ps_waiting p > 0 \<longrightarrow> ps_abort p = Some True"
  shows "producer_ok retries (attempt_ended n r p)"
proof (cases "ps_state p = INIT")
  case True
  then show ?thesis
    using assms by (auto simp: attempt_ended_def stripped_def intro!: connect_failed_ok)
next
  case False
  then show ?thesis
    using assms alone_upd_client [OF al] isConnected_upd_client(2) [OF al, of False]
    by (auto simp: phase_defs attempt_ended_def split: option.splits)
qed

lemma throwIfConnectAborted_ok:
  assumes "alone p" and "equipped p" and "\<not> isConnected p" and "ps_waiting p > 0 \<longrightarrow> ps_abort p = Some True"
    and "ps_abort p \<noteq> Some True \<Longrightarrow> producer_ok retries (proceed p)"
  shows "producer_ok retries (throwIfConnectAborted proceed p)"
  using assms by (auto simp: throwIfConnectAborted_def equipped_def intro!: connect_failed_ok)

lemma torn_down_ok:
  assumes al: "alone p" and ph: "phase retries (C_teardown n r) p" and w: "ps_waiting p > 0 \<longrightarrow> ps_abort p = Some True"
  shows "producer_ok retries (torn_down retries n r p)"
proof -
  define q where "q = upd_client (\<lambda>c. c\<lparr>cl_connected := False\<rparr>) p"
  have q: "alone q" "\<not> isConnected q" "equipped q" "ps_waiting q > 0 \<longrightarrow> ps_abort q = Some True"
      "ps_state q = ps_state p" "ps_abort q = ps_abort p" "ps_waiting q = ps_waiting p"
    using al ph w alone_upd_client isConnected_upd_client(1) [OF al, of False] by (auto simp: q_def equipped_def)
  have "producer_ok retries (retry_or_fail retries n r q)" if na: "ps_abort q \<noteq> Some True"
  proof -
    obtain e where r: "r = Some (Lib_error e)" and st: "ps_state q \<in> pending_states" and n: "n \<le> retries"
      using ph na q by (cases r) auto
    have "producer_ok retries (connect_failed x q)" "producer_ok retries (connect_failed x (q\<lparr>ps_state := DISCONNECTED\<rparr>))" for x
      using q st by (auto simp: equipped_def intro!: connect_failed_ok)
    moreover have "producer_ok retries (q\<lparr>ps_connect := C_wait n\<rparr>)" if "n < retries"
      using that q st na by (auto simp: phase_defs)
    ultimately show ?thesis
      by (simp add: r split: sum.split)
  qed
  then show ?thesis
    unfolding torn_down_def q_def [symmetric] using q by (intro throwIfConnectAborted_ok) simp_all
qed

lemma waited_ok:
  assumes al: "alone p" and ph: "phase retries (C_wait n) p" and w: "ps_waiting p > 0 \<longrightarrow> ps_abort p = Some True"
  shows "producer_ok retries (waited n p)"
  unfolding waited_def using assms by (intro throwIfConnectAborted_ok) (auto simp: phase_defs)

lemma connect_step_ok:
  assumes ok: "producer_ok retries p" and step: "connect_step retries e p = Some p'"
  shows "producer_ok retries p'"
proof -
  have al: "alone p" and ph: "phase retries (ps_connect p) p"
    using ok by (simp_all add: producer_ok_def)
  have w: "ps_waiting p > 0 \<longrightarrow> ps_abort p = Some True" if "\<And>r. ps_connect p \<noteq> C_settled r"
    using ok that by (auto simp: producer_ok_def)
  show ?thesis
  proof (cases "ps_connect p")
    case C_config
    then show ?thesis
      using step ph configured_ok [OF al] config_failed_ok [OF al] by (cases e) (auto simp: connect_step_def)
  next
    case (C_attempt n)
    then show ?thesis
      using step ph w connectInternalClientOnce_ok [OF al] by (cases e) (auto simp: connect_step_def)
  next
    case (C_connecting n)
    then show ?thesis
      using step ph w connect_callback_ok [OF al] by (cases e) (auto simp: connect_step_def)
  next
    case (C_setup n)
    then show ?thesis
      using step ph w set_up_ok [OF al] by (cases e) (auto simp: connect_step_def)
  next
    case (C_transactions n)
    then show ?thesis
      using step ph w set_up_ok [OF al] by (cases e) (auto simp: connect_step_def)
  next
    case (C_after n r)
    then show ?thesis
      using step ph w attempt_ended_ok [OF al, of retries n r] by (cases e) (simp_all add: connect_step_def)
  next
    case (C_teardown n r)
    then show ?thesis
      using step ph w torn_down_ok [OF al, of retries n r] by (cases e) (simp_all add: connect_step_def)
  next
    case (C_wait n)
    then show ?thesis
      using step ph w waited_ok [OF al] by (cases e) (auto simp: connect_step_def)
  qed (use step al ph w in \<open>cases e; auto simp: connect_step_def phase_defs\<close>)+
qed

lemma phase_unaffected [simp]:
  "phase retries pc (p\<lparr>ps_connectionError := c\<rparr>) = phase retries pc p" "phase retries pc (p\<lparr>ps_pending := a\<rparr>) = phase retries pc p"
  "phase retries pc (p\<lparr>ps_ongoing := b\<rparr>) = phase retries pc p" "phase retries pc (p\<lparr>ps_sending := n\<rparr>) = phase retries pc p"
  "phase retries pc (p\<lparr>ps_inflight := n\<rparr>) = phase retries pc p"
  by (cases pc; simp cong: option.case_cong)+

lemma other_fields_ok:
  assumes "producer_ok retries p"
  shows "producer_ok retries (p\<lparr>ps_connectionError := c\<rparr>)" "producer_ok retries (p\<lparr>ps_pending := a\<rparr>)"
    "producer_ok retries (p\<lparr>ps_ongoing := b\<rparr>)" "producer_ok retries (p\<lparr>ps_sending := n\<rparr>)" "producer_ok retries (p\<lparr>ps_inflight := n\<rparr>)"
  using assms by (simp_all add: producer_ok_def)

lemmas client_defs = transaction_client_def flush_client_def clusterId_def refused_def to_client_def

lemma connect_ok: "producer_ok retries p \<Longrightarrow> producer_ok retries (fst (connect p))"
  by (auto simp: connect_def producer_ok_def)

lemma aborting_ok:
  assumes "producer_ok retries p" and "ps_abort p \<noteq> None"
  shows "ps_connect p \<noteq> C_idle" and "producer_ok retries (p\<lparr>ps_abort := Some True, ps_waiting := ps_waiting p + 1\<rparr>)"
  using assms
  by (cases "ps_connect p"; auto simp: producer_ok_def equipped_def stripped_def dest: at_rest_abort split: option.splits)+

lemma disconnect_ok:
  assumes ok: "producer_ok retries p"
  shows "producer_ok retries (fst (disconnect p))"
proof (cases "ps_state p = INIT \<or> ps_abort p \<noteq> None \<or> state_number (ps_state p) \<ge> state_number DISCONNECTING")
  case True
  then show ?thesis
    using ok aborting_ok [OF ok] by (auto simp: disconnect_def)
next
  case False
  then have st: "ps_state p \<in> insert CONNECTED pending_states" "ps_abort p = None" by (cases "ps_state p"; simp)+
  then have pc: "ps_connect p = C_idle \<or> (\<exists>r. ps_connect p = C_settled r)"
    using ok by (cases "ps_connect p") (auto simp: phase_defs)
  show ?thesis
    using ok False pc by (auto simp: disconnect_def phase_defs split: option.splits)
qed

lemma disconnecting_pc:
  assumes ok: "producer_ok retries p" and d: "ps_disconnect p \<noteq> D_idle"
  shows "at_rest p" and "ps_connect p = C_idle \<or> (\<exists>r. ps_connect p = C_settled r)"
    and "ps_state p = DISCONNECTING \<or> (ps_state p = DISCONNECTED \<and> ps_disconnect p \<noteq> D_client)"
proof -
  have "\<not> equipped p" "\<not> stripped p" using d by (simp_all add: equipped_def stripped_def)
  then have rest: "at_rest p \<and> (ps_state p = INIT \<or> ps_connect p = C_idle \<or> (\<exists>r. ps_connect p = C_settled r))"
    using ok by (cases "ps_connect p") (auto simp: producer_ok_def split: if_splits)
  moreover have st: "ps_state p = DISCONNECTING \<or> (ps_state p = DISCONNECTED \<and> ps_disconnect p \<noteq> D_client)"
    using d conjunct1 [OF rest] by (cases "ps_state p") (simp_all add: at_rest_def)
  ultimately show "at_rest p" and "ps_connect p = C_idle \<or> (\<exists>r. ps_connect p = C_settled r)"
    and "ps_state p = DISCONNECTING \<or> (ps_state p = DISCONNECTED \<and> ps_disconnect p \<noteq> D_client)"
    by auto
qed

lemma client_disconnected_ok:
  assumes ok: "producer_ok retries p" and d: "ps_disconnect p = D_client"
  shows "producer_ok retries (client_disconnected err p)"
proof -
  have al: "alone p" using ok by (simp add: producer_ok_def)
  have gone: "\<not> isConnected (upd_client (\<lambda>c. c\<lparr>cl_connected := False\<rparr>) p)"
    using isConnected_upd_client(1) [OF al, of False] connected_has_client by fastforce
  note at = disconnecting_pc [OF ok, unfolded d, simplified]
  have rest: "at_rest (client_disconnected err p)"
    using at(1,3) gone by (cases err) (simp_all add: client_disconnected_def at_rest_def)
  have "ps_connect (client_disconnected err p) = ps_connect p" "ps_waiting (client_disconnected err p) = ps_waiting p"
      "alone (client_disconnected err p)" "\<not> isConnected p \<Longrightarrow> \<not> isConnected (client_disconnected err p)"
      "ps_state (client_disconnected err p) \<noteq> CONNECTED" "ps_abort (client_disconnected err p) = ps_abort p"
      "\<not> ps_serdes (client_disconnected err p)"
    using al gone at(3) alone_upd_client [OF al] by (cases err; simp add: client_disconnected_def)+
  then show ?thesis
    using ok at(2) rest by (auto simp: producer_ok_def split: option.splits)
qed

lemma disconnect_closed_ok:
  assumes ok: "producer_ok retries p" and d: "ps_disconnect p = D_closing r"
  shows "producer_ok retries (p\<lparr>ps_disconnect := D_idle\<rparr>)"
proof -
  note at = disconnecting_pc [OF ok, unfolded d, simplified]
  have rest: "at_rest (p\<lparr>ps_disconnect := D_idle\<rparr>)"
    using at(1,3) d by (auto simp: at_rest_def)
  then show ?thesis
    using ok at(2) by (auto simp: producer_ok_def split: option.splits)
qed

lemma producer_step_ok:
  assumes ok: "producer_ok retries p" and step: "producer_step retries e p = Some (p', out)"
  shows "producer_ok retries p'"
proof (cases e)
  case Call_connect
  then show ?thesis using step connect_ok [OF ok] by (auto simp: producer_step_def)
next
  case Call_disconnect
  then show ?thesis using step disconnect_ok [OF ok] by (auto simp: producer_step_def)
next
  case (Call_op op)
  then show ?thesis using step ok other_fields_ok [OF ok] by (cases op) (auto simp: producer_step_def client_defs split: if_splits)
next
  case Call_send
  then show ?thesis using step ok other_fields_ok [OF ok] by (auto simp: producer_step_def begin_send_def split: if_splits)
next
  case Call_sasl
  then show ?thesis using step ok by (auto simp: producer_step_def sasl_client_def split: if_splits option.splits)
next
  case (Send_prepared r)
  then show ?thesis
    using step other_fields_ok(4) [OF ok] other_fields_ok(5) [OF other_fields_ok(4) [OF ok]]
    by (auto simp: producer_step_def send_prepared_def Let_def split: if_splits sum.splits)
next
  case (Send_settled r)
  then show ?thesis using step other_fields_ok(5) [OF ok] by (auto simp: producer_step_def send_settled_def split: if_splits)
next
  case (Error_event err)
  then show ?thesis using step ok other_fields_ok [OF ok] by (auto simp: producer_step_def errorCb_def split: if_splits)
next
  case (Client_disconnected err)
  then show ?thesis using step client_disconnected_ok [OF ok] by (auto simp: producer_step_def split: if_splits)
next
  case (Disconnect_closed err)
  then show ?thesis
    using step disconnect_closed_ok [OF ok] by (auto simp: producer_step_def split: disconnect_pc.splits)
next
  case (Op_callback op err)
  then show ?thesis
    using step other_fields_ok(2) [OF ok] other_fields_ok(3) [OF other_fields_ok(2) [OF ok]]
    by (auto simp: producer_step_def op_callback_def Let_def split: if_splits option.splits)
next
  case Settled
  then obtain r where r: "ps_connect p = C_settled r" and p': "p' = p\<lparr>ps_connect := C_idle, ps_waiting := 0\<rparr>"
    using step by (auto simp: producer_step_def settle_def split: connect_pc.splits)
  show ?thesis
    using ok r unfolding p' by (simp add: producer_ok_def)
qed (use step connect_step_ok [OF ok] in \<open>auto simp: producer_step_def\<close>)

lemma reach_producer_ok: "producer_reach retries p \<Longrightarrow> producer_ok retries p"
proof (induction rule: producer_reach.induct)
  case new
  then show ?case by (simp add: newProducer_def phase_defs alone_def isConnected_def)
next
  case (step p e p' out)
  then show ?case using producer_step_ok by blast
qed

lemma producer_reach_run:
  assumes "producer_reach retries p" and "producer_run retries es p = Some (p', out)"
  shows "producer_reach retries p'"
  using assms
proof (induction es arbitrary: p out)
  case (Cons e es)
  then show ?case
    by (auto split: option.splits intro: producer_reach.step)
qed simp

lemmas run_simps = producer_step_def connect_step_def newProducer_def connect_def disconnect_def configured_def
  connectInternalClientOnce_def connect_callback_def onConnected_def transactions_initialized_def attempt_ended_def
  torn_down_def throwIfConnectAborted_def connect_failed_def waited_def settle_def upd_client_def isConnected_def client_defs
  begin_send_def send_prepared_def send_settled_def sasl_client_def op_callback_def isActive_def Let_def

section \<open>Safety\<close>

lemma connected_state:
  assumes "producer_ok retries p" and "ps_state p = CONNECTED"
  shows "isConnected p" and "ps_serdes p"
  using assms
  by (cases "ps_connect p"; auto simp: producer_ok_def at_rest_def equipped_def stripped_def split: option.splits if_splits)+

text \<open>
  C3. However connecting, retrying and disconnecting interleave, at most one of the internal clients
  a producer ever built is connected, and it is the one the producer uses; a producer in state CONNECTED has
  such a client and its serializers. In particular a retry never builds a client while the last one is
  still connected.
\<close>

theorem one_client_connected:
  assumes "producer_reach retries p"
  shows "length (filter cl_connected (ps_clients p)) \<le> 1 \<and>
         (\<forall>i < length (ps_clients p). cl_connected (ps_clients p ! i) \<longrightarrow> ps_client p = Some i) \<and>
         (ps_state p = CONNECTED \<longrightarrow> isConnected p \<and> ps_serdes p) \<and>
         ((\<exists>n. ps_connect p = C_attempt n) \<longrightarrow> filter cl_connected (ps_clients p) = [])"
proof (intro conjI)
  have ok: "producer_ok retries p" and al: "alone p"
    using reach_producer_ok [OF assms] by (auto simp: producer_ok_def)
  have "i = j" if "i < length (ps_clients p)" "cl_connected (ps_clients p ! i)" "j < length (ps_clients p)" "cl_connected (ps_clients p ! j)" for i j
    using alone_D(1) [OF al that(1,2)] alone_D(1) [OF al that(3,4)] by simp
  then have "card {i. i < length (ps_clients p) \<and> cl_connected (ps_clients p ! i)} \<le> 1"
    by (auto simp: card_le_Suc0_iff_eq)
  then show "length (filter cl_connected (ps_clients p)) \<le> 1"
    by (simp add: length_filter_conv_card)
  show "\<forall>i < length (ps_clients p). cl_connected (ps_clients p ! i) \<longrightarrow> ps_client p = Some i"
    using alone_D(1) [OF al] by blast
  show "ps_state p = CONNECTED \<longrightarrow> isConnected p \<and> ps_serdes p"
    using connected_state [OF ok] by blast
  show "(\<exists>n. ps_connect p = C_attempt n) \<longrightarrow> filter cl_connected (ps_clients p) = []"
  proof
    assume "\<exists>n. ps_connect p = C_attempt n"
    then have "\<not> isConnected p" using ok by (auto simp: producer_ok_def)
    then show "filter cl_connected (ps_clients p) = []"
      using alone_D(1) [OF al] by (fastforce simp: filter_empty_conv in_set_conv_nth isConnected_def)
  qed
qed

text \<open>A transactional producer whose first attempt fails after it connected, and which connects at the second.\<close>

definition network_error :: librdkafka_error where
  "network_error =
     \<lparr>le_message = ''broker transport failure'', le_code = Some ERR__TRANSPORT, le_origin = ''local'',
      le_isFatal = Some False, le_isRetriable = Some True, le_isTxnRequiresAbort = Some False,
      le_retriable = None, le_fatal = None, le_abortable = None\<rparr>"

lemma network_error_converts:
  "createKafkaJsErrorFromLibRdKafkaError network_error =
     Inr (newKafkaJSError ''KafkaJSConnectionError'' (message_or_self network_error)
            \<lparr>pr_retriable = None, pr_fatal = None, pr_abortable = None, pr_code = Some ERR__TRANSPORT\<rparr>)"
  "isConnectRetriable (Some network_error)"
  by (simp_all add: createKafkaJsErrorFromLibRdKafkaError_def error_class_def network_error_def code_defs isConnectRetriable_def
      connectRetriableErrorCodes_def)

definition second_attempt :: "event list" where
  "second_attempt =
     [Call_connect, Config_ready True None, Built None, Connected None, Set_up, Transactions (Some network_error), Attempt_ended,
      Torn_down, Waited, Built None, Connected None, Set_up, Transactions None, Attempt_ended, Settled]"

lemma second_attempt_run:
  "producer_run 1 second_attempt newProducer =
     Some (newProducer\<lparr>ps_state := CONNECTED, ps_config := Some True, ps_serdes := True,
             ps_clients := [\<lparr>cl_connected = False, cl_listeners = False\<rparr>, \<lparr>cl_connected = True, cl_listeners = True\<rparr>],
             ps_client := Some 1\<rparr>, [Connect_returned None])"
  by (simp add: second_attempt_def run_simps network_error_converts)

theorem one_client_connected_witness:
  "\<exists>p out. producer_run 1 second_attempt newProducer = Some (p, out) \<and> length (ps_clients p) = 2 \<and>
     length (filter cl_connected (ps_clients p)) \<le> 1 \<and> ps_client p = Some 1 \<and> isConnected p \<and> ps_serdes p"
proof -
  note reach = producer_reach_run [OF producer_reach.new second_attempt_run]
  show ?thesis
    using one_client_connected [OF reach] second_attempt_run by simp
qed

text \<open>As long as nobody calls \<open>disconnect\<close>, a connected producer stays connected, with the same client.\<close>

definition uses_client :: "nat \<Rightarrow> producer \<Rightarrow> bool" where
  "uses_client i p \<longleftrightarrow> ps_connect p = C_idle \<and> ps_disconnect p = D_idle \<and> ps_state p = CONNECTED \<and> ps_client p = Some i \<and>
     i < length (ps_clients p) \<and> cl_connected (ps_clients p ! i)"

lemma uses_client_step:
  assumes uses: "uses_client i p" and step: "producer_step retries e p = Some (p', out)" and e: "e \<noteq> Call_disconnect"
  shows "uses_client i p' \<and> (\<forall>j op. Client_call j op \<in> set out \<or> Produce_call j \<in> set out \<longrightarrow> j = i)"
proof (cases e)
  case (Call_op op)
  then show ?thesis
    using step uses by (cases op) (auto simp: producer_step_def client_defs uses_client_def split: if_splits)
next
  case (Op_callback op err)
  then show ?thesis
    using step uses by (auto simp: producer_step_def op_callback_def uses_client_def Let_def split: if_splits option.splits)
qed (use step uses e in \<open>auto simp: producer_step_def connect_def errorCb_def connect_step_def begin_send_def sasl_client_def
      send_prepared_def send_settled_def uses_client_def Let_def split: if_splits option.splits sum.splits\<close>)

lemma uses_client_run:
  assumes "uses_client i p" and "producer_run retries es p = Some (p', out)" and "Call_disconnect \<notin> set es"
  shows "uses_client i p' \<and> (\<forall>j op. Client_call j op \<in> set out \<or> Produce_call j \<in> set out \<longrightarrow> j = i)"
  using assms
proof (induction es arbitrary: p out)
  case (Cons e es)
  obtain q o1 o2 where q: "producer_step retries e p = Some (q, o1)" "producer_run retries es q = Some (p', o2)" "out = o1 @ o2"
    using Cons.prems(2) by (auto split: option.splits)
  have "uses_client i q \<and> (\<forall>j op. Client_call j op \<in> set o1 \<or> Produce_call j \<in> set o1 \<longrightarrow> j = i)"
    using uses_client_step [OF Cons.prems(1) q(1)] Cons.prems(3) by auto
  with Cons.IH [of q o2] q(2,3) Cons.prems(3) show ?case by auto
qed simp

text \<open>
  C35. Calls reach librdkafka through the connected client of the producer. transaction(), commit(), abort(), sendOffsets(),
  flush() and clusterId() test the state and call in one step: in every reachable state they call the current client, which is
  connected, with the serializers in place and with a fitting transaction, or are refused with code ERR__STATE and change
  nothing. send() tests the state only when it is called and awaits its serializers before it produces; for it
  the promise is that after connect() has returned, as long as disconnect() is not called, the producer stays CONNECTED and
  whatever is produced or called meanwhile goes to the same client, which stays connected. Without that condition it
  is not so (late_send_meets_no_client); setSaslCredentials() is not part of the claim, it may be called in any state.
\<close>

theorem calls_reach_connected_client:
  assumes "producer_reach retries p"
  shows "(\<forall>op p' out. producer_step retries (Call_op op) p = Some (p', out) \<longrightarrow>
            (\<exists>i. out = [Client_call i op] \<and> ps_state p = CONNECTED \<and> ps_client p = Some i \<and> i < length (ps_clients p) \<and>
               cl_connected (ps_clients p ! i) \<and> ps_serdes p \<and>
               (op = Begin_transaction \<longrightarrow> \<not> isActive p) \<and>
               (op \<in> {Commit_transaction, Abort_transaction, Send_offsets} \<longrightarrow> isActive p))
            \<or> ((\<exists>m. out = [Refused m ERR__STATE]) \<and> p' = p)) \<and>
         (\<forall>es p' out. ps_connect p = C_idle \<and> ps_state p = CONNECTED \<and> Call_disconnect \<notin> set es \<and>
            producer_run retries es p = Some (p', out) \<longrightarrow>
            ps_state p' = CONNECTED \<and>
            (\<exists>i. ps_client p = Some i \<and> ps_client p' = Some i \<and> cl_connected (ps_clients p' ! i) \<and>
               (\<forall>j op. Client_call j op \<in> set out \<or> Produce_call j \<in> set out \<longrightarrow> j = i)))"
proof -
  have ok: "producer_ok retries p" and al: "alone p"
    using reach_producer_ok [OF assms(1)] by (auto simp: producer_ok_def)
  have client: "\<exists>i. ps_client p = Some i \<and> i < length (ps_clients p) \<and> cl_connected (ps_clients p ! i)" and serdes: "ps_serdes p"
    if "ps_state p = CONNECTED"
    using connected_state [OF ok that] alone_D(2) [OF al] by (auto simp: isConnected_def split: option.splits)
  have "(\<exists>i. out = [Client_call i op] \<and> ps_state p = CONNECTED \<and> ps_client p = Some i \<and> i < length (ps_clients p) \<and>
               cl_connected (ps_clients p ! i) \<and> ps_serdes p \<and>
               (op = Begin_transaction \<longrightarrow> \<not> isActive p) \<and>
               (op \<in> {Commit_transaction, Abort_transaction, Send_offsets} \<longrightarrow> isActive p))
            \<or> ((\<exists>m. out = [Refused m ERR__STATE]) \<and> p' = p)" if "producer_step retries (Call_op op) p = Some (p', out)" for op p' out
    using that client serdes by (cases op) (auto simp: producer_step_def client_defs isActive_def split: if_splits)
  moreover have "ps_state p' = CONNECTED \<and> (\<exists>i. ps_client p = Some i \<and> ps_client p' = Some i \<and> cl_connected (ps_clients p' ! i) \<and>
       (\<forall>j op. Client_call j op \<in> set out \<or> Produce_call j \<in> set out \<longrightarrow> j = i))"
    if st: "ps_connect p = C_idle" "ps_state p = CONNECTED" and es: "Call_disconnect \<notin> set es" "producer_run retries es p = Some (p', out)" for es p' out
  proof -
    obtain i where "uses_client i p"
      using client ok st by (auto simp: uses_client_def producer_ok_def at_rest_def)
    from uses_client_run [OF this es(2,1)] this show ?thesis by (auto simp: uses_client_def)
  qed
  ultimately show ?thesis by blast
qed

theorem calls_reach_connected_client_witness:
  "\<exists>p p' out. producer_run 1 second_attempt newProducer = Some (p, [Connect_returned None]) \<and>
     producer_run 1 [Call_send, Call_op Begin_transaction, Send_prepared (Inr 2)] p = Some (p', out) \<and>
     out = [Client_call 1 Begin_transaction, Produce_call 1, Produce_call 1] \<and> ps_state p' = CONNECTED \<and> cl_connected (ps_clients p' ! 1)"
proof -
  obtain p where run: "producer_run 1 second_attempt newProducer = Some (p, [Connect_returned None])"
      and p: "ps_connect p = C_idle" "ps_state p = CONNECTED" "ps_client p = Some 1" "\<not> ps_ongoing p" "ps_sending p = 0"
    using second_attempt_run by (simp add: newProducer_def)
  obtain p' where sent: "producer_run 1 [Call_send, Call_op Begin_transaction, Send_prepared (Inr 2)] p =
      Some (p', [Client_call 1 Begin_transaction, Produce_call 1, Produce_call 1])"
    using p by (simp add: producer_step_def begin_send_def client_defs send_prepared_def Let_def numeral_2_eq_2)
  show ?thesis
    using conjunct2 [OF calls_reach_connected_client [OF producer_reach_run [OF producer_reach.new run]]] p run sent by fastforce
qed

text \<open>
  A send() that awaits its serializers while the producer is disconnected produces all the same, with the client that is no
  longer connected.
\<close>

lemma connect_failed_fields [simp]:
  "ps_sending (connect_failed e p) = ps_sending p" "ps_client (connect_failed e p) = ps_client p"
  by (simp_all add: connect_failed_def)

lemma retry_or_fail_fields [simp]:
  "ps_sending (retry_or_fail retries n r p) = ps_sending p" "ps_client (retry_or_fail retries n r p) = ps_client p"
  by (cases "(retries, n, r, p)" rule: retry_or_fail.cases; simp split: sum.split)+

lemma connect_step_fields:
  assumes "connect_step retries e p = Some p'"
  shows "ps_sending p' = ps_sending p \<and> (ps_client p' = ps_client p \<or> ps_client p' \<noteq> None)"
  using assms
  by (auto simp: connect_step_def configured_def connectInternalClientOnce_def connect_callback_def onConnected_def
      transactions_initialized_def attempt_ended_def torn_down_def throwIfConnectAborted_def waited_def Let_def
      split: connect_pc.splits event.splits option.splits if_splits)

lemma step_sending:
  assumes "producer_step retries e p = Some (p', out)"
  shows "(ps_client p' = ps_client p \<or> ps_client p' \<noteq> None) \<and> (ps_sending p' \<le> ps_sending p \<or> ps_state p = CONNECTED)"
proof (cases e)
  case (Call_op op)
  then show ?thesis using assms by (cases op) (auto simp: producer_step_def client_defs split: if_splits)
qed (use assms connect_step_fields [of retries e p] in \<open>auto simp: producer_step_def connect_def disconnect_def errorCb_def begin_send_def
      sasl_client_def send_prepared_def send_settled_def settle_def op_callback_def client_disconnected_def Let_def
      split: if_splits option.splits sum.splits connect_pc.splits disconnect_pc.splits\<close>)

lemma sending_has_client: "producer_reach retries p \<Longrightarrow> ps_sending p > 0 \<Longrightarrow> ps_client p \<noteq> None"
proof (induction rule: producer_reach.induct)
  case (step p e p' out)
  have "ps_client p \<noteq> None" if "ps_state p = CONNECTED"
    using connected_state(1) [OF reach_producer_ok [OF step.hyps(1)] that] connected_has_client by blast
  then show ?case using step_sending [OF step.hyps(2)] step.IH step.prems by auto
qed (simp add: newProducer_def)

theorem late_send_meets_no_client:
  assumes "producer_reach retries p" and "ps_state p = DISCONNECTED" and "ps_connect p = C_idle" and "ps_sending p > 0"
  shows "\<exists>p' i. producer_step retries (Send_prepared (Inr n)) p = Some (p', replicate n (Produce_call i)) \<and>
     \<not> cl_connected (ps_clients p ! i)"
proof -
  obtain i where "ps_client p = Some i" using sending_has_client [OF assms(1,4)] by auto
  moreover have "\<not> isConnected p"
    using reach_producer_ok [OF assms(1)] assms(2,3) by (simp add: producer_ok_def at_rest_def)
  ultimately show ?thesis
    using assms(4) by (auto simp: producer_step_def send_prepared_def Let_def isConnected_def)
qed

theorem late_send_meets_no_client_witness:
  "\<exists>p p'. producer_run 1 [Call_connect, Config_ready False None, Built None, Connected None, Set_up, Attempt_ended, Settled,
       Call_send, Call_disconnect, Client_disconnected None, Disconnect_closed None] newProducer =
         Some (p, [Connect_returned None, Disconnect_returned None]) \<and>
     producer_step 1 (Send_prepared (Inr 1)) p = Some (p', [Produce_call 0])"
proof -
  obtain p where run: "producer_run 1 [Call_connect, Config_ready False None, Built None, Connected None, Set_up, Attempt_ended, Settled,
       Call_send, Call_disconnect, Client_disconnected None, Disconnect_closed None] newProducer =
         Some (p, [Connect_returned None, Disconnect_returned None])"
      and p: "ps_state p = DISCONNECTED" "ps_connect p = C_idle" "ps_sending p > 0" "ps_client p = Some 0"
    by (simp add: run_simps client_disconnected_def)
  obtain p' i where "producer_step 1 (Send_prepared (Inr 1)) p = Some (p', replicate 1 (Produce_call i))"
    using late_send_meets_no_client [OF producer_reach_run [OF producer_reach.new run] p(1-3), of 1] by blast
  moreover from this p(3,4) have "i = 0" by (simp add: producer_step_def send_prepared_def Let_def)
  ultimately show ?thesis using run by auto
qed

text \<open>
  C36. When calls of disconnect() wait for a connection attempt, they return only once that attempt has failed, and
  then no client is connected, the serializers are released and the producer is not in state CONNECTED:
  nothing the attempt built is left behind.
\<close>

theorem aborted_connect_leaves_nothing:
  assumes "producer_reach retries p" and "producer_step retries Settled p = Some (p', out)"
    and "Disconnect_returned None \<in> set out"
  shows "(\<exists>e. Connect_returned (Some e) \<in> set out) \<and>
         filter cl_connected (ps_clients p') = [] \<and>
         \<not> ps_serdes p' \<and>
         ps_state p' \<noteq> CONNECTED \<and>
         ps_connect p' = C_idle"
proof (intro conjI)
  have ok: "producer_ok retries p" and al: "alone p"
    using reach_producer_ok [OF assms(1)] by (auto simp: producer_ok_def)
  obtain r where r: "ps_connect p = C_settled r" and p': "p' = p\<lparr>ps_connect := C_idle, ps_waiting := 0\<rparr>"
      and out: "out = Connect_returned r # replicate (ps_waiting p) (Disconnect_returned None)"
    using assms(2) by (auto simp: producer_step_def settle_def split: connect_pc.splits)
  have "ps_waiting p > 0" using assms(3) out by (simp split: if_splits)
  then obtain e where e: "r = Some e" and left: "\<not> isConnected p" "\<not> ps_serdes p" "ps_state p \<noteq> CONNECTED"
    using ok r by (auto simp: producer_ok_def split: option.splits)
  show "\<exists>e. Connect_returned (Some e) \<in> set out" using e out by auto
  show "filter cl_connected (ps_clients p') = []"
    using left(1) alone_D(1) [OF al] by (fastforce simp: p' filter_empty_conv in_set_conv_nth isConnected_def)
  show "\<not> ps_serdes p'" "ps_state p' \<noteq> CONNECTED" "ps_connect p' = C_idle"
    using left by (simp_all add: p')
qed

text \<open>A disconnect() during the attempt, which then connects all the same.\<close>

definition aborted_attempt :: "event list" where
  "aborted_attempt =
     [Call_connect, Config_ready False None, Built None, Call_disconnect, Connected None, Attempt_ended, Torn_down, Serdes_closed]"

theorem aborted_connect_leaves_nothing_witness:
  "\<exists>p p' out. producer_run 5 aborted_attempt newProducer = Some (p, []) \<and> producer_step 5 Settled p = Some (p', out) \<and>
     out = [Connect_returned (Some abortError), Disconnect_returned None] \<and> filter cl_connected (ps_clients p') = [] \<and> \<not> ps_serdes p'"
proof -
  obtain p where run: "producer_run 5 aborted_attempt newProducer = Some (p, [])"
      and p: "ps_connect p = C_settled (Some abortError)" "ps_waiting p = 1"
    by (simp add: aborted_attempt_def run_simps)
  have step: "producer_step 5 Settled p = Some (p\<lparr>ps_connect := C_idle, ps_waiting := 0\<rparr>, [Connect_returned (Some abortError), Disconnect_returned None])"
    using p by (simp add: producer_step_def settle_def)
  show ?thesis
    using aborted_connect_leaves_nothing [OF producer_reach_run [OF producer_reach.new run] step] run step by simp
qed

section \<open>Connecting ends\<close>

text \<open>The events of the coroutine, and what is left of it at each place.\<close>

fun of_connect :: "event \<Rightarrow> bool" where
  "of_connect (Config_failed _) = True"
| "of_connect (Config_ready _ _) = True"
| "of_connect (Built _) = True"
| "of_connect (Connected _) = True"
| "of_connect Set_up = True"
| "of_connect (Transactions _) = True"
| "of_connect Attempt_ended = True"
| "of_connect Torn_down = True"
| "of_connect Waited = True"
| "of_connect Serdes_closed = True"
| "of_connect Settled = True"
| "of_connect _ = False"

fun is_attempt :: "event \<Rightarrow> bool" where
  "is_attempt (Built _) = True"
| "is_attempt _ = False"

fun steps_left :: "nat \<Rightarrow> connect_pc \<Rightarrow> nat" where
  "steps_left retries C_idle = 0"
| "steps_left retries (C_settled _) = 1"
| "steps_left retries (C_closing _) = 2"
| "steps_left retries (C_unconfigured _) = 2"
| "steps_left retries (C_wait n) = 8 * (retries - n) + 3"
| "steps_left retries (C_teardown n _) = 8 * (retries - n) + 4"
| "steps_left retries (C_after n _) = 8 * (retries - n) + 5"
| "steps_left retries (C_transactions n) = 8 * (retries - n) + 6"
| "steps_left retries (C_unbuilt n _) = 8 * (retries - n) + 6"
| "steps_left retries (C_setup n) = 8 * (retries - n) + 7"
| "steps_left retries (C_connecting n) = 8 * (retries - n) + 8"
| "steps_left retries (C_attempt n) = 8 * (retries - n) + 9"
| "steps_left retries C_config = 8 * retries + 10"

fun attempts_left :: "nat \<Rightarrow> connect_pc \<Rightarrow> nat" where
  "attempts_left retries C_config = retries + 1"
| "attempts_left retries (C_attempt n) = retries + 1 - n"
| "attempts_left retries (C_unbuilt n _) = retries - n"
| "attempts_left retries (C_connecting n) = retries - n"
| "attempts_left retries (C_setup n) = retries - n"
| "attempts_left retries (C_transactions n) = retries - n"
| "attempts_left retries (C_after n _) = retries - n"
| "attempts_left retries (C_teardown n _) = retries - n"
| "attempts_left retries (C_wait n) = retries - n"
| "attempts_left retries _ = 0"

definition less_left :: "nat \<Rightarrow> event \<Rightarrow> connect_pc \<Rightarrow> connect_pc \<Rightarrow> bool" where
  "less_left retries e pc pc' \<longleftrightarrow>
     steps_left retries pc' + (if of_connect e then 1 else 0) \<le> steps_left retries pc \<and>
     attempts_left retries pc' + (if is_attempt e then 1 else 0) \<le> attempts_left retries pc"

lemma connect_failed_pc: "ps_connect (connect_failed e p) \<in> {C_closing e, C_settled (Some e)}"
  by (simp add: connect_failed_def)

lemma torn_down_pc:
  assumes "phase retries (C_teardown n r) p"
  shows "ps_connect (torn_down retries n r p) \<in> {C_wait n} \<union> range C_closing \<union> range C_settled"
proof (cases "ps_abort p = Some True")
  case True
  then show ?thesis by (simp add: torn_down_def throwIfConnectAborted_def connect_failed_def)
next
  case False
  then obtain e where "r = Some (Lib_error e)" using assms by (cases r) auto
  then show ?thesis
    using False by (simp add: torn_down_def throwIfConnectAborted_def connect_failed_def split: sum.split)
qed

lemma waited_pc:
  assumes "phase retries (C_wait n) p"
  shows "ps_connect (waited n p) \<in> {C_attempt (n + 1)} \<union> range C_closing"
  using assms by (auto simp: waited_def throwIfConnectAborted_def connect_failed_def)

lemma connect_step_less_left:
  assumes ok: "producer_ok retries p" and step: "connect_step retries e p = Some p'"
  shows "less_left retries e (ps_connect p) (ps_connect p')"
proof -
  have ph: "phase retries (ps_connect p) p" using ok by (simp add: producer_ok_def)
  show ?thesis
  proof (cases "ps_connect p")
    case C_config
    then show ?thesis
      using step by (cases e) (auto simp: connect_step_def less_left_def configured_def Let_def split: option.splits)
  next
    case (C_attempt n)
    then show ?thesis
      using step ph by (cases e) (auto simp: connect_step_def less_left_def connectInternalClientOnce_def Let_def split: option.splits)
  next
    case (C_connecting n)
    then show ?thesis
      using step by (cases e) (auto simp: connect_step_def less_left_def connect_callback_def Let_def split: option.splits)
  next
    case (C_setup n)
    then show ?thesis
      using step by (cases e) (auto simp: connect_step_def less_left_def onConnected_def)
  next
    case (C_transactions n)
    then show ?thesis
      using step by (cases e) (auto simp: connect_step_def less_left_def transactions_initialized_def split: option.splits)
  next
    case (C_after n r)
    then show ?thesis
      using step by (cases e) (auto simp: connect_step_def less_left_def attempt_ended_def connect_failed_def)
  next
    case (C_teardown n r)
    then show ?thesis
      using step ph torn_down_pc [of retries n r p] by (cases e) (auto simp: connect_step_def less_left_def)
  next
    case (C_wait n)
    then show ?thesis
      using step ph waited_pc [of retries n p] by (cases e) (auto simp: connect_step_def less_left_def)
  qed (use step in \<open>cases e; auto simp: connect_step_def less_left_def\<close>)+
qed

lemma call_client_pc: "call_client op p = (p', out) \<Longrightarrow> ps_connect p' = ps_connect p"
  by (cases op) (auto simp: client_defs split: if_splits)

lemma producer_step_less_left:
  assumes ok: "producer_ok retries p" and step: "producer_step retries e p = Some (p', out)" and e: "e \<noteq> Call_connect"
  shows "less_left retries e (ps_connect p) (ps_connect p')"
proof (cases "of_connect e \<and> e \<noteq> Settled")
  case True
  then have "connect_step retries e p = Some p'"
    using step by (cases e) (auto simp: producer_step_def)
  then show ?thesis by (rule connect_step_less_left [OF ok])
next
  case False
  show ?thesis
  proof (cases "e = Settled")
    case True
    then show ?thesis
      using step by (auto simp: producer_step_def settle_def less_left_def split: connect_pc.splits)
  next
    case no: False
    have "ps_connect p' = ps_connect p"
      using step e False no
      by (cases e) (auto simp: producer_step_def disconnect_def errorCb_def client_disconnected_def op_callback_def Let_def
            begin_send_def sasl_client_def send_prepared_def send_settled_def dest: call_client_pc
            split: if_splits option.splits sum.splits disconnect_pc.splits)
    moreover have "\<not> of_connect e" "\<not> is_attempt e" using False no by (cases e; simp)+
    ultimately show ?thesis by (simp add: less_left_def)
  qed
qed

lemma run_less_left:
  assumes "producer_ok retries p" and "producer_run retries es p = Some (p', out)" and "Call_connect \<notin> set es"
  shows "steps_left retries (ps_connect p') + length (filter of_connect es) \<le> steps_left retries (ps_connect p) \<and>
         attempts_left retries (ps_connect p') + length (filter is_attempt es) \<le> attempts_left retries (ps_connect p)"
  using assms
proof (induction es arbitrary: p out)
  case (Cons e es)
  obtain q o1 o2 where q: "producer_step retries e p = Some (q, o1)" "producer_run retries es q = Some (p', o2)"
    using Cons.prems(2) by (auto split: option.splits)
  have "less_left retries e (ps_connect p) (ps_connect q)"
    using producer_step_less_left [OF Cons.prems(1) q(1)] Cons.prems(3) by auto
  moreover note Cons.IH [OF producer_step_ok [OF Cons.prems(1) q(1)] q(2)]
  ultimately show ?case
    using Cons.prems(3) by (auto simp: less_left_def split: if_splits)
qed simp

lemma connect_progress:
  assumes "ps_connect p \<noteq> C_idle"
  shows "\<exists>e p' out. of_connect e \<and> producer_step retries e p = Some (p', out)"
proof (cases "ps_connect p")
  case C_config
  then show ?thesis by (intro exI [of _ "Config_ready False None"]) (simp add: producer_step_def connect_step_def)
next
  case (C_attempt n)
  then show ?thesis by (intro exI [of _ "Built None"]) (simp add: producer_step_def connect_step_def)
next
  case (C_connecting n)
  then show ?thesis by (intro exI [of _ "Connected None"]) (simp add: producer_step_def connect_step_def)
next
  case (C_setup n)
  then show ?thesis by (intro exI [of _ Set_up]) (simp add: producer_step_def connect_step_def)
next
  case (C_transactions n)
  then show ?thesis by (intro exI [of _ "Transactions None"]) (simp add: producer_step_def connect_step_def)
next
  case (C_after n r)
  then show ?thesis by (intro exI [of _ Attempt_ended]) (simp add: producer_step_def connect_step_def)
next
  case (C_teardown n r)
  then show ?thesis by (intro exI [of _ Torn_down]) (simp add: producer_step_def connect_step_def)
next
  case (C_wait n)
  then show ?thesis by (intro exI [of _ Waited]) (simp add: producer_step_def connect_step_def)
next
  case (C_settled r)
  then show ?thesis by (intro exI [of _ Settled]) (simp add: producer_step_def settle_def)
qed (use assms in \<open>auto intro!: exI [of _ Serdes_closed] simp: producer_step_def connect_step_def\<close>)

text \<open>
  C6. A call of connect() ends. From the moment it starts, however it interleaves with other calls and events, it
  makes at most one attempt more than the configured retries and passes at most 8 times the retries plus 10 awaits;
  and as long as the promise it returned is not settled, what it waits for can still end.
\<close>

theorem connect_ends:
  assumes "producer_reach retries p" and "ps_connect p = C_config"
    and "producer_run retries es p = Some (p', out)" and "Call_connect \<notin> set es"
  shows "length (filter is_attempt es) \<le> retries + 1 \<and>
         length (filter of_connect es) \<le> 8 * retries + 10 \<and>
         (length (filter of_connect es) = 8 * retries + 10 \<longrightarrow> ps_connect p' = C_idle) \<and>
         (ps_connect p' \<noteq> C_idle \<longrightarrow> (\<exists>e q. of_connect e \<and> producer_step retries e p' = Some q))"
proof (intro conjI)
  note left = run_less_left [OF reach_producer_ok [OF assms(1)] assms(3,4)]
  show "length (filter is_attempt es) \<le> retries + 1" "length (filter of_connect es) \<le> 8 * retries + 10"
    using left assms(2) by simp_all
  show "length (filter of_connect es) = 8 * retries + 10 \<longrightarrow> ps_connect p' = C_idle"
    using left assms(2) by (cases "ps_connect p'") simp_all
  show "ps_connect p' \<noteq> C_idle \<longrightarrow> (\<exists>e q. of_connect e \<and> producer_step retries e p' = Some q)"
    using connect_progress by fast
qed

theorem connect_ends_witness:
  "\<exists>p out. producer_run 1 second_attempt newProducer = Some (p, out) \<and>
     length (filter is_attempt (tl second_attempt)) \<le> 2 \<and> length (filter of_connect (tl second_attempt)) \<le> 18"
proof -
  obtain p where run: "producer_run 1 (tl second_attempt) (newProducer\<lparr>ps_connect := C_config\<rparr>) = Some (p, [Connect_returned None])"
    using second_attempt_run by (simp add: second_attempt_def producer_step_def connect_def newProducer_def split: option.splits)
  have "producer_run 1 [Call_connect] newProducer = Some (newProducer\<lparr>ps_connect := C_config\<rparr>, [])"
    by (simp add: producer_step_def connect_def newProducer_def)
  note reach = producer_reach_run [OF producer_reach.new this]
  have "Call_connect \<notin> set (tl second_attempt)" by (simp add: second_attempt_def)
  then show ?thesis
    using connect_ends [OF reach _ run] second_attempt_run by simp
qed

section \<open>Runs\<close>

text \<open>
  While connect() awaits the configuration (the serializers are built then) the state is still INIT: a call
  of disconnect() returns at once and stops nothing, and the producer ends up connected after it was disconnected.
\<close>

theorem disconnect_misses_configuration:
  "\<exists>p. producer_run 5 [Call_connect, Call_disconnect, Config_ready False None, Built None, Connected None, Set_up, Attempt_ended, Settled]
        newProducer = Some (p, [Disconnect_returned None, Connect_returned None]) \<and>
       ps_state p = CONNECTED \<and> isConnected p"
  by (simp add: run_simps)

end
