(* ===== verification/Producer_Send.thy ===== *)
theory Producer_Send
  imports Producer
begin

text \<open>
  What the operations of class \<open>Producer\<close> (\<open>lib/kafkajs/_producer.js\<close>) do with their arguments: \<open>send\<close> with the
  serializers, the delivery reports and the metadata it returns, \<open>sendBatch\<close>, \<open>sendOffsets\<close>, \<open>flush\<close> and
  \<open>setSaslCredentials\<close>. Serializers and librdkafka are parameters.
\<close>

section \<open>Messages\<close>

text \<open>
  A key or a value is a text, a \<open>Buffer\<close> or anything else; an absent one is \<open>null\<close>. The value of a header is
  a text or a \<open>Buffer\<close>, or an object with one property, which is what an entry of the list for librdkafka is.
  The headers of a message are an object or such a list, or are \<open>undefined\<close> or \<open>null\<close>.
\<close>

datatype 'o content = Str string | Buf bytes | Other 'o

datatype hval = H_str string | H_buf bytes | H_entry string "hval option"

datatype hdrs = H_object "(string, hval hvalue) jsmap" | H_array "(string \<times> hval option) list"

datatype msg_hdrs = H_undefined | H_null | H_given hdrs

record 'o message =
  msg_key :: "'o content option"
  msg_value :: "'o content option"
  msg_partition :: "int option"
  msg_timestamp :: "string option"
  msg_headers :: msg_hdrs

text \<open>\<open>Object.entries\<close>: those of an array have their indices as keys.\<close>

fun header_entries :: "hdrs \<Rightarrow> (string, hval hvalue) jsmap" where
  "header_entries (H_object m) = m"
| "header_entries (H_array hs) = map (\<lambda>(i, k, v). (nat_str i, One (Some (H_entry k v)))) (enumerate 0 hs)"

text \<open>What a serializer throws: an \<open>Error\<close>, \<open>null\<close> or \<open>undefined\<close>, or any other value with its text.\<close>

datatype serde_thrown = Thrown_error string | Thrown_nothing | Thrown_value string

fun normalizeThrown :: "serde_thrown \<Rightarrow> string" where
  "normalizeThrown (Thrown_error m) = m"
| "normalizeThrown Thrown_nothing = ''unknown error''"
| "normalizeThrown (Thrown_value s) = s"

text \<open>
  A serializer gets the topic, the content and the headers, which it may write to, and has a state of its own
  (a schema registry).
\<close>

type_synonym ('s, 'o) serializer = "string \<Rightarrow> 'o content \<Rightarrow> hdrs \<Rightarrow> 's \<Rightarrow> 's \<times> (serde_thrown + 'o content option \<times> hdrs)"

text \<open>The client and the serializers that \<open>send\<close> works with; \<open>toNum\<close> is \<open>Number\<close> and \<open>utf8\<close> is \<open>Buffer.from\<close> of a text.\<close>

record ('s, 'o) send_env =
  se_key :: "('s, 'o) serializer option"
  se_value :: "('s, 'o) serializer option"
  se_toNum :: "string \<Rightarrow> int"
  se_utf8 :: "string \<Rightarrow> bytes"

section \<open>Preparing a record\<close>

record 'o prepared =
  pm_msg :: "'o message"
  pm_key :: "'o content option"
  pm_value :: "'o content option"
  pm_headers :: "hdrs option"

definition serializer_headers :: "('s, 'o) send_env \<Rightarrow> 'o message \<Rightarrow> hdrs option" where
  "serializer_headers env msg =
     (case msg_headers msg of
        H_given hs \<Rightarrow> Some hs
      | _ \<Rightarrow> if se_key env \<noteq> None \<or> se_value env \<noteq> None then Some (H_object []) else None)"

text \<open>A key or value through its serializer, if there are both; the headers are an object then.\<close>

definition serialize_with ::
  "(string \<Rightarrow> kafka_error) \<Rightarrow> ('s, 'o) serializer option \<Rightarrow> string \<Rightarrow> 'o content option \<Rightarrow> hdrs option \<Rightarrow> 's
     \<Rightarrow> 's \<times> (kafka_error + 'o content option \<times> hdrs option)" where
  "serialize_with wrap serializer topic content headers s =
     (case (serializer, content, headers) of
        (Some ser, Some c, Some hs) \<Rightarrow>
          (case ser topic c hs s of
             (s', Inl t) \<Rightarrow> (s', Inl (wrap (normalizeThrown t)))
           | (s', Inr (r, hs')) \<Rightarrow> (s', Inr (r, Some hs')))
      | _ \<Rightarrow> (s, Inr (content, headers)))"

definition valid_key :: "'o content option \<Rightarrow> bool" where
  "valid_key key = (case key of Some (Other _) \<Rightarrow> False | _ \<Rightarrow> True)"

definition valid_value :: "'o content option \<Rightarrow> bool" where
  "valid_value v = (case v of None \<Rightarrow> True | Some (Buf _) \<Rightarrow> True | _ \<Rightarrow> False)"

text \<open>Headers that the message has are the object the serializers write to.\<close>

definition prepare_message :: "('s, 'o) send_env \<Rightarrow> string \<Rightarrow> 'o message \<Rightarrow> 's \<Rightarrow> 's \<times> (kafka_error + 'o prepared)" where
  "prepare_message env topic msg s =
     (case serialize_with KeySerializationError (se_key env) topic (msg_key msg) (serializer_headers env msg) s of
        (s1, Inl e) \<Rightarrow> (s1, Inl e)
      | (s1, Inr (key, hs1)) \<Rightarrow>
          (case serialize_with ValueSerializationError (se_value env) topic (msg_value msg) hs1 s1 of
             (s2, Inl e) \<Rightarrow> (s2, Inl e)
           | (s2, Inr (v, hs2)) \<Rightarrow>
               (let v' = (case v of Some (Str t) \<Rightarrow> if se_value env = None then Some (Buf (se_utf8 env t)) else v | _ \<Rightarrow> v)
                in if \<not> valid_key key
                   then (s2, Inl (kjs_error ''Key must be a string or a Buffer. Check your serializer configuration'' ERR__INVALID_ARG))
                   else if \<not> valid_value v'
                   then (s2, Inl (kjs_error ''Value must be a string or a Buffer. Check your serializer configuration'' ERR__INVALID_ARG))
                   else (s2, Inr \<lparr>pm_msg = msg\<lparr>msg_headers := (case (msg_headers msg, hs2) of (H_given _, Some h) \<Rightarrow> H_given h | (h, _) \<Rightarrow> h)\<rparr>,
                                   pm_key = key, pm_value = v', pm_headers = hs2\<rparr>))))"

text \<open>
  A call of \<open>produce\<close> of the client. The message of the user is written to as well; its timestamp is kept as a text.
\<close>

record 'o produce_call =
  pc_topic :: string
  pc_partition :: int
  pc_value :: "'o content option"
  pc_key :: "'o content option"
  pc_timestamp :: int
  pc_headers :: "(string \<times> hval option) list option"

text \<open>
  What a call of \<open>send\<close> works on: the state of the serializers, and the calls of \<open>produce\<close> so far. The first loop
  prepares all messages and stops at the first error.
\<close>

record ('s, 'o) send_world =
  sw_serdes :: 's
  sw_calls :: "'o produce_call list"

fun prepare_all ::
  "('s, 'o) send_env \<Rightarrow> string \<Rightarrow> 'o message list \<Rightarrow> 'o prepared list \<Rightarrow> ('s, 'o) send_world
     \<Rightarrow> ('s, 'o) send_world \<times> (kafka_error + 'o prepared list)" where
  "prepare_all env topic [] acc w = (w, Inr acc)"
| "prepare_all env topic (m # ms) acc w =
     (case prepare_message env topic m (sw_serdes w) of
        (s1, Inl e) \<Rightarrow> (w\<lparr>sw_serdes := s1\<rparr>, Inl e)
      | (s1, Inr pm) \<Rightarrow> prepare_all env topic ms (acc @ [pm]) (w\<lparr>sw_serdes := s1\<rparr>))"

section \<open>Producing\<close>

definition produced :: "('s, 'o) send_env \<Rightarrow> string \<Rightarrow> 'o prepared \<Rightarrow> 'o message \<times> 'o produce_call" where
  "produced env topic pm =
     (let msg = pm_msg pm;
          part = (case msg_partition msg of None \<Rightarrow> - 1 | Some n \<Rightarrow> n);
          ts = (case msg_timestamp msg of None \<Rightarrow> 0 | Some t \<Rightarrow> if t = [] then 0 else se_toNum env t);
          hs = (if msg_headers msg = H_undefined \<and> (case pm_headers pm of Some h \<Rightarrow> header_entries h = [] | None \<Rightarrow> False)
                then None else pm_headers pm);
          rd = convertToRdKafkaHeaders (map_option header_entries hs)
      in (msg\<lparr>msg_partition := Some part, msg_timestamp := Some (int_str ts), msg_headers := (case rd of Some l \<Rightarrow> H_given (H_array l) | None \<Rightarrow> H_undefined)\<rparr>,
          \<lparr>pc_topic = topic, pc_partition = part, pc_value = pm_value pm, pc_key = pm_key pm, pc_timestamp = ts, pc_headers = rd\<rparr>))"

text \<open>The second loop; an error \<open>produce\<close> throws rejects the promise of that message and does not end the loop.\<close>

fun produce_all ::
  "('s, 'o) send_env \<Rightarrow> string \<Rightarrow> 'o prepared list \<Rightarrow> ('s, 'o) send_world \<Rightarrow> ('s, 'o) send_world \<times> 'o message list" where
  "produce_all env topic [] w = (w, [])"
| "produce_all env topic (pm # pms) w =
     (case produced env topic pm of
        (msg, c) \<Rightarrow> (case produce_all env topic pms (w\<lparr>sw_calls := sw_calls w @ [c]\<rparr>) of (w', msgs) \<Rightarrow> (w', msg # msgs)))"

text \<open>The argument of \<open>send\<close>: which options are set, and the topic and the messages if they are a text and an array.\<close>

record 'o send_options =
  so_acks :: bool
  so_timeout :: bool
  so_compression :: bool
  so_topic :: "string option"
  so_messages :: "'o message list option"

definition nl :: string where "nl = [CHR 0x0A]"
definition tab :: string where "tab = [CHR 0x09]"
definition quote :: string where "quote = [CHR 0x27]"

definition createReplacementErrorMessage :: "string \<Rightarrow> string \<Rightarrow> string \<Rightarrow> string \<Rightarrow> string \<Rightarrow> bool \<Rightarrow> string" where
  "createReplacementErrorMessage cOrP fnCall property propertyVal replacementVal isLK =
     (let rep = (if isLK then replacementVal else ''kafkaJS: { '' @ replacementVal @ '', ... }'')
      in quote @ property @ quote @ '' is not supported as a property to '' @ quote @ fnCall @ quote @
         '', but must be passed to the '' @ cOrP @ '' during creation.'' @ nl @
         ''Before: '' @ nl @
         tab @ ''const '' @ cOrP @ '' = kafka.'' @ cOrP @ ''({ ... });'' @ nl @
         tab @ ''await '' @ cOrP @ ''.connect();'' @ nl @
         tab @ cOrP @ ''.'' @ fnCall @ ''({ '' @ propertyVal @ '', ... });'' @ nl @
         ''After: '' @ nl @
         tab @ ''const '' @ cOrP @ '' = kafka.'' @ cOrP @ ''({ '' @ rep @ '', ... });'' @ nl @
         tab @ ''await '' @ cOrP @ ''.connect();'' @ nl @
         tab @ cOrP @ ''.'' @ fnCall @ ''({ ... });'' @ nl @
         (if isLK then ''For more details on what can be used outside the kafkaJS block, see '' @
            ''https://github.com/confluentinc/librdkafka/blob/master/CONFIGURATION.md'' @ nl else []))"

definition sendOptionsAcks :: "string \<Rightarrow> string" where
  "sendOptionsAcks fn = createReplacementErrorMessage ''producer'' fn ''acks'' ''acks: <number>'' ''acks: <number>'' False"

definition sendOptionsCompression :: "string \<Rightarrow> string" where
  "sendOptionsCompression fn =
     createReplacementErrorMessage ''producer'' fn ''compression'' ''compression: <type>'' ''compression: CompressionTypes.GZIP|SNAPPY|LZ4|ZSTD'' False"

definition sendOptionsTimeout :: "string \<Rightarrow> string" where
  "sendOptionsTimeout fn = createReplacementErrorMessage ''producer'' fn ''timeout'' ''timeout: <number>'' ''timeout: <number>'' False"

definition sendOptionsMandatoryMissing :: string where
  "sendOptionsMandatoryMissing =
     ''The argument passed to send must be an object, and must contain the '' @ quote @ ''topic'' @ quote @ '' and '' @ quote @ ''messages'' @ quote @
     '' properties: {topic: string, messages: Message[]}'' @ nl"

definition sendBatchMandatoryMissing :: string where
  "sendBatchMandatoryMissing =
     ''The argument passed to sendbatch must be an object, and must contain the '' @ quote @ ''topicMessages'' @ quote @
     '' property: { topicMessages: {topic: string, messages: Message[]}[] } '' @ nl"

definition sendOffsetsMustProvideConsumer :: string where
  "sendOffsetsMustProvideConsumer =
     ''The sendOffsets method must be called with a connected consumer instance and without a consumerGroupId parameter.'' @ nl"

definition invalid_arg :: "string \<Rightarrow> kafka_error" where
  "invalid_arg message = kjs_error message ERR__INVALID_ARG"

definition not_awaited :: "string \<Rightarrow> kafka_error" where
  "not_awaited what = kjs_error (''Cannot '' @ what @ '' without awaiting connect()'') ERR__STATE"

definition checkSendOptions :: "producer \<Rightarrow> 'o send_options option \<Rightarrow> kafka_error + string \<times> 'o message list" where
  "checkSendOptions p arg =
     (if ps_state p \<noteq> CONNECTED then Inl (not_awaited ''send'')
      else case arg of
        None \<Rightarrow> Inl (invalid_arg sendOptionsMandatoryMissing)
      | Some o1 \<Rightarrow>
          if so_acks o1 then Inl (invalid_arg (sendOptionsAcks ''send''))
          else if so_timeout o1 then Inl (invalid_arg (sendOptionsTimeout ''send''))
          else if so_compression o1 then Inl (invalid_arg (sendOptionsCompression ''send''))
          else case so_topic o1 of
            None \<Rightarrow> Inl (invalid_arg ''topic must be a non-empty string'')
          | Some t \<Rightarrow>
              if t = [] then Inl (invalid_arg ''topic must be a non-empty string'')
              else case so_messages o1 of
                None \<Rightarrow> Inl (invalid_arg ''messages must be an array'')
              | Some ms \<Rightarrow> Inr (t, ms))"

text \<open>
  \<open>send\<close> up to where it waits for the delivery reports: the error it throws, or the messages as it leaves them; the calls of
  \<open>produce\<close> are in the state either way. Other activity while it awaits a serializer is not part of it.
\<close>

definition send ::
  "('s, 'o) send_env \<Rightarrow> producer \<Rightarrow> 'o send_options option \<Rightarrow> ('s, 'o) send_world \<Rightarrow> ('s, 'o) send_world \<times> (kafka_error + 'o message list)" where
  "send env p arg w =
     (case checkSendOptions p arg of
        Inl e \<Rightarrow> (w, Inl e)
      | Inr (topic, ms) \<Rightarrow>
          (case prepare_all env topic ms [] w of
             (w1, Inl e) \<Rightarrow> (w1, Inl e)
           | (w1, Inr pms) \<Rightarrow> (case produce_all env topic pms w1 of (w2, msgs) \<Rightarrow> (w2, Inr msgs))))"

section \<open>Delivery reports\<close>

record report =
  rp_topic :: string
  rp_partition :: int
  rp_offset :: "int option"

record record_metadata =
  md_topicName :: string
  md_partition :: int
  md_errorCode :: int
  md_baseOffset :: "int option"
  md_logAppendTime :: string
  md_logStartOffset :: string

datatype 'a outcome = Rejected connect_error | Resolved 'a

text \<open>The callback; \<open>Inl\<close> if it throws, which settles nothing.\<close>

definition deliveryCallback :: "bool \<Rightarrow> librdkafka_error option \<Rightarrow> report \<Rightarrow> connect_error + record_metadata outcome" where
  "deliveryCallback hasOpaque err rp =
     (if \<not> hasOpaque then Inl (Kafka_error (kjs_error ''Internal error: deliveryCallback called without opaque set properly'' ERR__STATE))
      else case err of
        Some e \<Rightarrow>
          (case createKafkaJsErrorFromLibRdKafkaError e of
             Inl t \<Rightarrow> Inl (Other_error t)
           | Inr k \<Rightarrow> Inr (Rejected (Kafka_error k)))
      | None \<Rightarrow>
          Inr (Resolved \<lparr>md_topicName = rp_topic rp, md_partition = rp_partition rp, md_errorCode = 0,
                         md_baseOffset = rp_offset rp, md_logAppendTime = ''-1'', md_logStartOffset = ''0''\<rparr>))"

text \<open>
  \<open>Promise.all\<close> of \<open>n\<close> promises that settle in the order of the list, each once: nothing as long as one is
  pending and none is rejected.
\<close>

fun first_rejection :: "(nat \<times> 'a outcome) list \<Rightarrow> connect_error option" where
  "first_rejection [] = None"
| "first_rejection ((i, Rejected e) # r) = Some e"
| "first_rejection ((i, Resolved x) # r) = first_rejection r"

definition promise_all :: "nat \<Rightarrow> (nat \<times> 'a outcome) list \<Rightarrow> (connect_error + 'a list) option" where
  "promise_all n settled =
     (case first_rejection settled of
        Some e \<Rightarrow> Some (Inl e)
      | None \<Rightarrow>
          map_option Inr (those (map (\<lambda>i. case map_of settled i of Some (Resolved x) \<Rightarrow> Some x | _ \<Rightarrow> None) [0..<n])))"

text \<open>One record per topic and partition, in the order of their first report.\<close>

definition metadata_key :: "record_metadata \<Rightarrow> string" where
  "metadata_key md = md_topicName md @ '','' @ int_str (md_partition md)"

definition add_metadata :: "record_metadata \<Rightarrow> (string, record_metadata) jsmap \<Rightarrow> (string, record_metadata) jsmap" where
  "add_metadata md m =
     (let key = metadata_key md
      in case (md_baseOffset md, jm_get m key) of
           (None, _) \<Rightarrow> jm_set key md m
         | (_, None) \<Rightarrow> jm_set key md m
         | (Some b, Some cur) \<Rightarrow>
             (case md_baseOffset cur of
                None \<Rightarrow> m
              | Some c \<Rightarrow> if c > b then jm_set key md m else m))"

record sent =
  st_topicName :: string
  st_partition :: int
  st_errorCode :: int
  st_baseOffset :: "string option"

definition sent_of :: "record_metadata \<Rightarrow> sent" where
  "sent_of md =
     \<lparr>st_topicName = md_topicName md, st_partition = md_partition md, st_errorCode = md_errorCode md,
      st_baseOffset = map_option int_str (md_baseOffset md)\<rparr>"

definition send_result :: "record_metadata list \<Rightarrow> sent list" where
  "send_result mds = map (\<lambda>(k, md). sent_of md) (fold add_metadata mds [])"

section \<open>Other operations\<close>

record 'o batch_options =
  bo_acks :: bool
  bo_timeout :: bool
  bo_compression :: bool
  bo_topicMessages :: "'o send_options option list option option"

text \<open>
  \<open>sendBatch\<close>: the arguments it calls \<open>send\<close> with, and what becomes of their results. Of \<open>topicMessages\<close> the outer
  \<open>None\<close> is \<open>null\<close>, the inner one what is no array.
\<close>

definition sendBatch :: "producer \<Rightarrow> 'o batch_options option \<Rightarrow> kafka_error + 'o send_options option list" where
  "sendBatch p arg =
     (if ps_state p \<noteq> CONNECTED then Inl (not_awaited ''sendBatch'')
      else case arg of
        None \<Rightarrow> Inl (invalid_arg sendBatchMandatoryMissing)
      | Some o1 \<Rightarrow>
          if bo_acks o1 then Inl (invalid_arg (sendOptionsAcks ''sendBatch''))
          else if bo_timeout o1 then Inl (invalid_arg (sendOptionsTimeout ''timeout''))
          else if bo_compression o1 then Inl (invalid_arg (sendOptionsCompression ''compression''))
          else case bo_topicMessages o1 of
            None \<Rightarrow> Inr []
          | Some None \<Rightarrow> Inl (invalid_arg sendBatchMandatoryMissing)
          | Some (Some ts) \<Rightarrow> Inr ts)"

definition sendBatch_result :: "nat \<Rightarrow> (nat \<times> sent list outcome) list \<Rightarrow> (connect_error + sent list) option" where
  "sendBatch_result n settled = map_option (map_sum id concat) (promise_all n settled)"

definition flattenTopicPartitionOffsets :: "(string \<times> (int \<times> string) list) list \<Rightarrow> (string \<times> int \<times> string) list" where
  "flattenTopicPartitionOffsets topics = concat (map (\<lambda>(topic, ps). map (\<lambda>(part, offset). (topic, part, offset)) ps) topics)"

text \<open>\<open>sendOffsets\<close>: an error of its arguments, or the guards of the state and the offsets it passes on.\<close>

definition sendOffsets ::
  "(string \<Rightarrow> int) \<Rightarrow> string option \<Rightarrow> bool \<Rightarrow> (string \<times> (int \<times> string) list) list option \<Rightarrow> producer
     \<Rightarrow> kafka_error + (producer \<times> effect list) \<times> rd_tpo list" where
  "sendOffsets toNum consumerGroupId hasConsumer topics p =
     (if (consumerGroupId \<noteq> None \<and> consumerGroupId \<noteq> Some []) \<or> \<not> hasConsumer then Inl (invalid_arg sendOffsetsMustProvideConsumer)
      else case topics of
        None \<Rightarrow> Inl (invalid_arg ''sendOffsets arguments are invalid'')
      | Some ts \<Rightarrow>
          if ts = [] then Inl (invalid_arg ''sendOffsets arguments are invalid'')
          else Inr (transaction_client Send_offsets p,
                    map (\<lambda>(topic, part, offset). topicPartitionOffsetToRdKafka toNum topic part offset None)
                      (flattenTopicPartitionOffsets ts)))"

definition flush :: "bool \<Rightarrow> producer \<Rightarrow> kafka_error + producer \<times> effect list" where
  "flush hasTimeout p =
     (if ps_state p = CONNECTED \<and> \<not> hasTimeout then Inl (invalid_arg ''timeout must be set for flushing'')
      else Inr (flush_client p))"

text \<open>
  \<open>setSaslCredentials\<close>: before connecting it changes the configuration of the user, and that of its \<open>kafkaJS\<close> block
  if it has one for SASL; later it tells the client.
\<close>

fun set_own :: "string \<Rightarrow> cval \<Rightarrow> cval \<Rightarrow> cval result" where
  "set_own key v (CObj m) = Inr (CObj (jm_set key v m))"
| "set_own key v CNull = Inl (TypeError (''Cannot set properties of null (setting '' @ key @ '')''))"
| "set_own key v CUndefined = Inl (TypeError (''Cannot set properties of undefined (setting '' @ key @ '')''))"
| "set_own key v c = Inr c"

definition saslConfig :: "string \<Rightarrow> string \<Rightarrow> config \<Rightarrow> config result" where
  "saslConfig username password userConfig =
     (let c = jm_set ''sasl.password'' (CStr password) (jm_set ''sasl.username'' (CStr username) userConfig)
      in case jm_get c ''kafkaJS'' of
           Some (CObj kj) \<Rightarrow>
             (case jm_get kj ''sasl'' of
                None \<Rightarrow> Inr c
              | Some sasl \<Rightarrow>
                  res_bind (set_own ''username'' (CStr username) sasl) (\<lambda>s1.
                  res_bind (set_own ''password'' (CStr password) s1) (\<lambda>s2.
                    Inr (jm_set ''kafkaJS'' (CObj (jm_set ''sasl'' s2 kj)) c))))
         | _ \<Rightarrow> Inr c)"

datatype sasl_effect = Sasl_refused kafka_error | Sasl_config "config result" | Sasl_client nat string string | Sasl_no_client js_error

definition setSaslCredentials :: "string option \<Rightarrow> string option \<Rightarrow> producer \<Rightarrow> config \<Rightarrow> sasl_effect" where
  "setSaslCredentials username password p userConfig =
     (case (username, password) of
        (None, _) \<Rightarrow> Sasl_refused (invalid_arg ''username must be set for setSaslCredentials'')
      | (_, None) \<Rightarrow> Sasl_refused (invalid_arg ''password must be set for setSaslCredentials'')
      | (Some u, Some w) \<Rightarrow>
          if state_number (ps_state p) < state_number CONNECTING then Sasl_config (saslConfig u w userConfig)
          else case ps_client p of
                 Some i \<Rightarrow> Sasl_client i u w
               | None \<Rightarrow> Sasl_no_client (TypeError ''Cannot read properties of null (reading setSaslCredentials)''))"

end
