(* ===== verification/Producer_Send_Facts.thy ===== *)
theory Producer_Send_Facts
  imports Producer_Send
begin

text \<open>
  What \<open>send\<close> of the producer guarantees: librdkafka only ever gets texts and buffers, all messages of a record or
  none; the metadata has one entry per topic and partition, with the smallest offset.
\<close>

section \<open>What is produced\<close>










text \<open>A value serializer that writes a header, on two messages of which one has no value; and one that throws on the second message.\<close>

definition sample_send_env :: "(nat, unit) send_env" where
  "sample_send_env =
     \<lparr>se_key = None,
      se_value = Some (\<lambda>topic c hs n. (n + 1, Inr (Some (Buf [7]), H_object (jm_set ''id'' (One (Some (H_buf [0]))) (header_entries hs))))),
      se_toNum = decimal_value, se_utf8 = \<lambda>t. []\<rparr>"

definition sample_message :: "unit content option \<Rightarrow> unit message" where
  "sample_message v = \<lparr>msg_key = None, msg_value = v, msg_partition = None, msg_timestamp = None, msg_headers = H_undefined\<rparr>"

definition sample_options :: "unit message list \<Rightarrow> unit send_options" where
  "sample_options ms = \<lparr>so_acks = False, so_timeout = False, so_compression = False, so_topic = Some ''t'', so_messages = Some ms\<rparr>"

definition sample_world :: "(nat, unit) send_world" where
  "sample_world = \<lparr>sw_serdes = 0, sw_calls = []\<rparr>"


lemmas send_eval = send_def checkSendOptions_def prepare_message_def serialize_with_def serializer_headers_def valid_key_def valid_value_def
  produced_def convertToRdKafkaHeaders_def Let_def


section \<open>Metadata\<close>

lemma digit_char_no_comma: "d < 10 \<Longrightarrow> digit_char d \<noteq> CHR '',''"
  using digit_of_char [of d] by auto

lemma nat_str_no_comma: "CHR '','' \<notin> set (nat_str n)"
proof (induction n rule: less_induct)
  case (less n)
  show ?case
  proof (cases "n < 10")
    case True
    then show ?thesis using digit_char_no_comma [of n] by (auto simp: nat_str.simps [of n])
  next
    case False
    then show ?thesis
      using less [of "n div 10"] digit_char_no_comma [of "n mod 10"] by (auto simp: nat_str.simps [of n])
  qed
qed

lemma int_str_no_comma: "CHR '','' \<notin> set (int_str n)"
  by (simp add: int_str_def nat_str_no_comma)

lemma last_comma_unique:
  assumes "a @ CHR '','' # b = c @ CHR '','' # d" and "CHR '','' \<notin> set b" and "CHR '','' \<notin> set d"
  shows "a = c \<and> b = d"
  using assms by (auto simp: append_eq_append_conv2 Cons_eq_append_conv append_eq_Cons_conv)

abbreviation md_tp :: "record_metadata \<Rightarrow> string \<times> int" where
  "md_tp md \<equiv> (md_topicName md, md_partition md)"

lemma metadata_key_inj: "metadata_key a = metadata_key b \<longleftrightarrow> md_tp a = md_tp b"
proof
  assume "metadata_key a = metadata_key b"
  then have "md_topicName a @ CHR '','' # int_str (md_partition a) = md_topicName b @ CHR '','' # int_str (md_partition b)"
    by (simp add: metadata_key_def)
  from last_comma_unique [OF this int_str_no_comma int_str_no_comma]
  show "md_tp a = md_tp b" using decimal_value_int_str by (metis prod.inject)
qed (simp add: metadata_key_def)

text \<open>The map after some reports.\<close>

definition best :: "record_metadata list \<Rightarrow> record_metadata \<Rightarrow> bool" where
  "best mds md \<longleftrightarrow> md \<in> set mds \<and>
     (case md_baseOffset md of
        None \<Rightarrow> True
      | Some b \<Rightarrow> \<forall>x \<in> set mds. md_tp x = md_tp md \<longrightarrow> (\<exists>c \<ge> b. md_baseOffset x = Some c))"

definition merged :: "record_metadata list \<Rightarrow> (string, record_metadata) jsmap \<Rightarrow> bool" where
  "merged mds m \<longleftrightarrow> distinct (map fst m) \<and> fst ` set m = metadata_key ` set mds \<and>
     (\<forall>(k, md) \<in> set m. k = metadata_key md \<and> best mds md)"

lemma merged_set:
  assumes m: "merged mds m" and better: "best (mds @ [md]) md"
    and others: "\<And>x. best mds x \<Longrightarrow> md_tp x \<noteq> md_tp md \<Longrightarrow> best (mds @ [md]) x"
  shows "merged (mds @ [md]) (jm_set (metadata_key md) md m)"
proof -
  let ?m = "jm_set (metadata_key md) md m"
  have d: "distinct (map fst ?m)" using m by (simp add: merged_def jm_set_distinct)
  have get: "map_of ?m = (map_of m)(metadata_key md \<mapsto> md)" by simp
  have keys: "fst ` set ?m = insert (metadata_key md) (fst ` set m)"
    unfolding dom_map_of_conv_image_fst [symmetric] get by simp
  have "k = metadata_key x \<and> best (mds @ [md]) x" if "(k, x) \<in> set ?m" for k x
  proof (cases "k = metadata_key md")
    case True
    then have "x = md" using that d get by (metis fun_upd_same map_of_eq_Some_iff option.inject)
    then show ?thesis using True better by simp
  next
    case False
    then have "(k, x) \<in> set m"
      using that d get by (metis fun_upd_other map_of_SomeD map_of_eq_Some_iff)
    then have "k = metadata_key x" "best mds x" using m by (auto simp: merged_def)
    then show ?thesis using False others metadata_key_inj by metis
  qed
  then show ?thesis
    using d keys m by (auto simp: merged_def)
qed

lemma best_other:
  assumes "best mds x" and "md_tp x \<noteq> md_tp md"
  shows "best (mds @ [md]) x"
  using assms by (auto simp: best_def split: option.splits)

lemma merged_keep:
  assumes m: "merged mds m" and got: "jm_get m (metadata_key md) = Some cur"
    and fine: "md_baseOffset cur = None \<or> (\<exists>c b. md_baseOffset cur = Some c \<and> md_baseOffset md = Some b \<and> c \<le> b)"
  shows "merged (mds @ [md]) m"
proof -
  have key: "metadata_key md \<in> fst ` set m" using got by (force dest: map_of_SomeD)
  have "best (mds @ [md]) x" if x: "(k, x) \<in> set m" for k x
  proof (cases "md_tp x = md_tp md")
    case True
    then have "k = metadata_key md" using x m metadata_key_inj by (auto simp: merged_def)
    then have "x = cur" using x got m by (simp add: merged_def)
    then show ?thesis using x m fine by (fastforce simp: merged_def best_def)
  next
    case False
    then show ?thesis using x m best_other by (auto simp: merged_def)
  qed
  then show ?thesis
    using m key by (auto simp: merged_def)
qed

lemma add_metadata_merged:
  assumes m: "merged mds m"
  shows "merged (mds @ [md]) (add_metadata md m)"
proof -
  have set: "merged (mds @ [md]) (jm_set (metadata_key md) md m)" if "best (mds @ [md]) md"
    using merged_set [OF m that] best_other by blast
  show ?thesis
  proof (cases "md_baseOffset md")
    case None
    then show ?thesis using set by (simp add: add_metadata_def best_def)
  next
    case (Some b)
    show ?thesis
    proof (cases "jm_get m (metadata_key md)")
      case None
      then have "metadata_key md \<notin> metadata_key ` set mds" using m by (simp add: merged_def map_of_eq_None_iff)
      then have "best (mds @ [md]) md"
        using Some metadata_key_inj by (auto simp: best_def image_iff)
      then show ?thesis using set None Some by (simp add: add_metadata_def)
    next
      case got: (Some cur)
      have cur: "best mds cur" "md_tp cur = md_tp md"
        using map_of_SomeD [OF got] m metadata_key_inj by (auto simp: merged_def)
      show ?thesis
      proof (cases "\<exists>c. md_baseOffset cur = Some c \<and> c > b")
        case True
        then have "best (mds @ [md]) md"
          using cur Some by (fastforce simp: best_def)
        then show ?thesis using set True got Some by (auto simp: add_metadata_def)
      next
        case False
        then show ?thesis
          using merged_keep [OF m got] got Some by (cases "md_baseOffset cur") (auto simp: add_metadata_def)
      qed
    qed
  qed
qed

lemma fold_add_metadata_merged: "merged mds (fold add_metadata mds [])"
proof (induction mds rule: rev_induct)
  case Nil
  then show ?case by (simp add: merged_def)
next
  case (snoc md mds)
  then show ?case using add_metadata_merged by simp
qed

lemma best_offset:
  fixes mds md
  defines "offsets \<equiv> md_baseOffset ` {x \<in> set mds. md_tp x = md_tp md}"
  assumes "best mds md"
  shows "md_baseOffset md = (if None \<in> offsets then None else Some (Min (the ` offsets)))"
proof (cases "md_baseOffset md")
  case None
  then show ?thesis using assms by (force simp: best_def)
next
  case (Some b)
  then have le: "\<exists>c \<ge> b. off = Some c" if "off \<in> offsets" for off
    using that assms by (auto simp: best_def)
  have "b \<in> the ` offsets" using Some assms by (force simp: best_def image_iff)
  moreover have "b \<le> y" if "y \<in> the ` offsets" for y using that le by fastforce
  ultimately have "Min (the ` offsets) = b"
    by (intro Min_eqI) (simp_all add: offsets_def)
  then show ?thesis using Some le by fastforce
qed

text \<open>
  C8. The result of send() has exactly one record for each topic and partition a message was delivered to. Its base
  offset is the smallest of the offsets reported for that partition, and absent if one of the
  reports had none. The keys of the map, texts of topic and partition, cannot be confused.
\<close>

theorem one_record_per_partition:
  "distinct (map (\<lambda>r. (st_topicName r, st_partition r)) (send_result mds)) \<and>
   (\<lambda>r. (st_topicName r, st_partition r)) ` set (send_result mds) = md_tp ` set mds \<and>
   (\<forall>r \<in> set (send_result mds).
      let offsets = md_baseOffset ` {x \<in> set mds. md_tp x = (st_topicName r, st_partition r)}
      in st_baseOffset r = (if None \<in> offsets then None else Some (int_str (Min (the ` offsets)))))"
proof (intro conjI ballI)
  let ?m = "fold add_metadata mds []"
  note m = fold_add_metadata_merged [of mds, unfolded merged_def]
  have entry: "fst e = metadata_key (snd e)" "best mds (snd e)" if "e \<in> set ?m" for e
    using m that by auto
  have tps: "map (\<lambda>r. (st_topicName r, st_partition r)) (send_result mds) = map (md_tp \<circ> snd) ?m"
    by (auto simp: send_result_def sent_of_def)
  have "inj_on (md_tp \<circ> snd) (set ?m)" "distinct ?m"
    using m entry metadata_key_inj
    by (auto simp: distinct_map inj_on_def intro!: prod_eqI)
  then show "distinct (map (\<lambda>r. (st_topicName r, st_partition r)) (send_result mds))"
    unfolding tps by (simp add: distinct_map)
  show "(\<lambda>r. (st_topicName r, st_partition r)) ` set (send_result mds) = md_tp ` set mds"
  proof -
    have keys: "fst ` set ?m = metadata_key ` set mds" using m by blast
    have "\<exists>e \<in> set ?m. md_tp (snd e) = md_tp x" if x: "x \<in> set mds" for x
    proof -
      obtain e where "e \<in> set ?m" "metadata_key x = fst e" using keys x by fast
      then show ?thesis using entry(1) metadata_key_inj by metis
    qed
    then have "md_tp ` set mds \<subseteq> (md_tp \<circ> snd) ` set ?m"
      unfolding image_subset_iff image_iff comp_def by metis
    moreover have "(md_tp \<circ> snd) ` set ?m \<subseteq> md_tp ` set mds"
      using entry(2) by (auto simp: best_def)
    ultimately show ?thesis
      using arg_cong [OF tps, of set] by simp
  qed
  fix r assume "r \<in> set (send_result mds)"
  then obtain md where "r = sent_of md" "best mds md" using entry(2) by (fastforce simp: send_result_def)
  then show "let offsets = md_baseOffset ` {x \<in> set mds. md_tp x = (st_topicName r, st_partition r)}
      in st_baseOffset r = (if None \<in> offsets then None else Some (int_str (Min (the ` offsets))))"
    using best_offset [of mds md] by (simp add: sent_of_def Let_def)
qed

theorem one_record_per_partition_witness:
  "let mds = [\<lparr>md_topicName = ''t'', md_partition = 0, md_errorCode = 0, md_baseOffset = Some 8, md_logAppendTime = ''-1'', md_logStartOffset = ''0''\<rparr>,
              \<lparr>md_topicName = ''t'', md_partition = 1, md_errorCode = 0, md_baseOffset = Some 5, md_logAppendTime = ''-1'', md_logStartOffset = ''0''\<rparr>,
              \<lparr>md_topicName = ''t'', md_partition = 0, md_errorCode = 0, md_baseOffset = Some 7, md_logAppendTime = ''-1'', md_logStartOffset = ''0''\<rparr>]
   in (\<lambda>r. (st_topicName r, st_partition r)) ` set (send_result mds) = {(''t'', 0), (''t'', 1)} \<and>
      (\<forall>r \<in> set (send_result mds). st_partition r = 0 \<longrightarrow> st_topicName r = ''t'' \<longrightarrow> st_baseOffset r = Some ''7'')"
proof -
  let ?md = "\<lambda>n b. \<lparr>md_topicName = ''t'', md_partition = n, md_errorCode = 0, md_baseOffset = Some b, md_logAppendTime = ''-1'', md_logStartOffset = ''0''\<rparr>"
  have seven: "int_str 7 = ''7''" by (simp add: int_str_def nat_str.simps digit_char_def)
  have zero: "{x. (x = ?md 0 8 \<or> x = ?md 1 5 \<or> x = ?md 0 7) \<and> md_topicName x = ''t'' \<and> md_partition x = 0} = {?md 0 8, ?md 0 7}"
    by auto
  show ?thesis
    using one_record_per_partition [of "[?md 0 8, ?md 1 5, ?md 0 7]"] by (auto simp: Let_def seven zero)
qed

section \<open>Sending a message again\<close>

text \<open>
  send() leaves the converted headers in the message of the user. When the same message is sent again, a header
  named k with value v arrives as a header named 0, the index in that list, whose value is an object: the
  headers of a message object are right only the first time.
\<close>

theorem resent_headers_are_renamed:
  fixes env :: "('s, 'o) send_env" and w :: "('s, 'o) send_world"
  assumes "ps_state p = CONNECTED" and "topic \<noteq> []" and "se_key env = None" and "se_value env = None"
    and "msg_headers m = H_given (H_object [(k, One v)])" and "msg_key m = None" and "msg_value m = Some (Str t)"
    and "options = (\<lambda>m. \<lparr>so_acks = False, so_timeout = False, so_compression = False, so_topic = Some topic, so_messages = Some [m]\<rparr>)"
  shows "\<exists>w1 w2 m1 m2 c1 c2.
     send env p (Some (options m)) w = (w1, Inr [m1]) \<and> sw_calls w1 = sw_calls w @ [c1] \<and>
     send env p (Some (options m1)) w1 = (w2, Inr [m2]) \<and> sw_calls w2 = sw_calls w1 @ [c2] \<and>
     pc_headers c1 = Some [(k, v)] \<and> pc_headers c2 = Some [(''0'', Some (H_entry k v))]"
  using assms by (simp add: send_eval nat_str.simps digit_char_def)

theorem resent_headers_are_renamed_witness:
  "\<exists>w1 w2 m1 m2 c1 c2.
     send (sample_send_env\<lparr>se_value := None\<rparr>) (newProducer\<lparr>ps_state := CONNECTED\<rparr>)
       (Some (sample_options [(sample_message (Some (Str ''v'')))\<lparr>msg_headers := H_given (H_object [(''k'', One (Some (H_str ''x'')))])\<rparr>]))
       sample_world = (w1, Inr [m1]) \<and> sw_calls w1 = sw_calls sample_world @ [c1] \<and>
     send (sample_send_env\<lparr>se_value := None\<rparr>) (newProducer\<lparr>ps_state := CONNECTED\<rparr>) (Some (sample_options [m1])) w1 = (w2, Inr [m2]) \<and>
     sw_calls w2 = sw_calls w1 @ [c2] \<and>
     pc_headers c1 = Some [(''k'', Some (H_str ''x''))] \<and> pc_headers c2 = Some [(''0'', Some (H_entry ''k'' (Some (H_str ''x''))))]"
  by (rule resent_headers_are_renamed [where options = "\<lambda>m. sample_options [m]" and topic = "''t''" and t = "''v''"])
     (simp_all add: sample_send_env_def newProducer_def sample_message_def sample_options_def)

end
