(* ===== verification/Consumer.thy ===== *)
theory Consumer
  imports Message_Cache Kafka_Common
begin

text \<open>
  The bookkeeping of offsets in class \<open>Consumer\<close> of \<open>lib/kafkajs/_consumer.js\<close>: what is stored, sought,
  paused and dropped from the message cache while messages and batches are processed. The calls of the
  internal client are recorded in their order. Operations that must not run beside the workers are queued
  and executed when the workers have ended, so each is one step; a rebalance is one step too, with the user's callback.
  The commit after a seek is recorded as one call in \<open>seekInternal\<close>; the loop that makes it is \<open>commitOffsetsUntilNoStateErr\<close>, which is
  modelled by itself because it may not end.
\<close>

section \<open>State\<close>

text \<open>A position in a partition. Messages count for theirs.\<close>

record tp_offset = topic_partition +
  to_offset :: int
  to_leaderEpoch :: "int option"

record batch_payload =
  bp_topic :: string
  bp_partition :: int
  bp_stale :: bool
  bp_seeked :: bool
  bp_lastOffset :: int
  bp_lastEpoch :: int

datatype pending_op =
    Op_seek "tp_offset list"
  | Op_pause "topic_partition list"
  | Op_resume "topic_partition list"
  | Op_unassign "topic_partition list"
  | Op_clear

text \<open>A partition as it is assigned, with the offset and epoch to start from if these are given.\<close>

type_synonym assigned = "topic_partition \<times> (int \<times> int option) option"

datatype client_call =
    Store_offset tp_offset
  | Seek_to tp_offset
  | Pause "topic_partition list"
  | Resume "topic_partition list"
  | Commit "tp_offset list"
  | Assign "assigned list"
  | Incremental_assign "assigned list"
  | Unassign
  | Incremental_unassign "topic_partition list"

record consumer =
  cs_connected :: bool
  cs_eager :: bool
  cs_autoCommit :: bool
  cs_assignment :: "topic_partition list"
  cs_partitionCount :: int
  cs_concurrency :: int
  cs_workers :: nat
  cs_lastConsumedOffsets :: "(string, tp_offset) jsmap"
  cs_pendingSeeks :: "(string, tp_offset) jsmap"
  cs_pausedPartitions :: "(string, topic_partition) jsmap"
  cs_messageCache :: "tp_offset message_cache"
  cs_pendingOperations :: "pending_op list"
  cs_terminationScheduled :: bool
  cs_batches :: "(string, batch_payload) jsmap"
  cs_disconnectStarted :: bool
  cs_calls :: "client_call list"

definition state_error :: "string \<Rightarrow> kafka_error" where
  "state_error message = kjs_error message ERR__STATE"

definition call :: "client_call \<Rightarrow> consumer \<Rightarrow> consumer" where
  "call k c = c\<lparr>cs_calls := cs_calls c @ [k]\<rparr>"

definition tp_of :: "'a topic_partition_scheme \<Rightarrow> topic_partition" where
  "tp_of tp = \<lparr>tp_topic = tp_topic tp, tp_partition = tp_partition tp\<rparr>"

section \<open>Queued operations\<close>

definition addPendingOperation :: "pending_op \<Rightarrow> consumer \<Rightarrow> consumer" where
  "addPendingOperation op c =
     (let c1 = (if cs_pendingOperations c = [] then c\<lparr>cs_terminationScheduled := True\<rparr> else c)
      in c1\<lparr>cs_pendingOperations := cs_pendingOperations c1 @ [op]\<rparr>)"

definition markBatchPayloadsStale :: "'a topic_partition_scheme list \<Rightarrow> bool \<Rightarrow> consumer \<Rightarrow> consumer" where
  "markBatchPayloadsStale tps isSeek c =
     fold (\<lambda>tp c.
       case jm_get (cs_batches c) (partitionKey tp) of
         None \<Rightarrow> c
       | Some p \<Rightarrow> c\<lparr>cs_batches := jm_set (partitionKey tp) (p\<lparr>bp_stale := True, bp_seeked := bp_seeked p \<or> isSeek\<rparr>) (cs_batches c)\<rparr>)
       tps c"

text \<open>The offset of a seek is a number, or \<open>None\<close> for NaN.\<close>

definition seek :: "string \<Rightarrow> int \<Rightarrow> int option \<Rightarrow> int option \<Rightarrow> consumer \<Rightarrow> consumer \<times> (kafka_error + unit)" where
  "seek topic part offset leaderEpoch c =
     (if \<not> cs_connected c then (c, Inl (state_error ''Seek can only be called while connected.''))
      else case offset of
        None \<Rightarrow> (c, Inl (kjs_error ''Offset must be >= 0, or a special value.'' ERR__INVALID_ARG))
      | Some n \<Rightarrow>
          if n < 0 \<and> n \<noteq> - 2 \<and> n \<noteq> - 3
          then (c, Inl (kjs_error ''Offset must be >= 0, or a special value.'' ERR__INVALID_ARG))
          else
            let tpo = \<lparr>tp_topic = topic, tp_partition = part, to_offset = n, to_leaderEpoch = leaderEpoch\<rparr>
            in (addPendingOperation (Op_seek [tpo]) (markBatchPayloadsStale [tpo] True c), Inr ()))"

text \<open>Topics with their partitions, or all that are assigned.\<close>

definition getAllAssignedPartition :: "string \<Rightarrow> consumer \<Rightarrow> int list" where
  "getAllAssignedPartition topic c = map tp_partition (filter (\<lambda>tp. tp_topic tp = topic) (cs_assignment c))"

definition toppars :: "(string \<times> int list option) list \<Rightarrow> consumer \<Rightarrow> (string \<times> int list) list" where
  "toppars topics c =
     map (\<lambda>(topic, ps). (topic, case ps of None \<Rightarrow> getAllAssignedPartition topic c | Some ps \<Rightarrow> ps)) topics"

definition flattenTopicPartitions :: "(string \<times> int list) list \<Rightarrow> topic_partition list" where
  "flattenTopicPartitions topics = concat (map (\<lambda>(topic, ps). map (\<lambda>p. \<lparr>tp_topic = topic, tp_partition = p\<rparr>) ps) topics)"

definition pause :: "(string \<times> int list option) list \<Rightarrow> consumer \<Rightarrow> consumer \<times> (kafka_error + (string \<times> int list) list option)" where
  "pause topics c =
     (if \<not> cs_connected c then (c, Inl (state_error ''Pause can only be called while connected.''))
      else let flat = flattenTopicPartitions (toppars topics c)
           in if flat = [] then (c, Inr None)
              else let c1 = markBatchPayloadsStale flat False c;
                       c2 = c1\<lparr>cs_pausedPartitions := fold (\<lambda>tp m. jm_set (partitionKey tp) tp m) flat (cs_pausedPartitions c1)\<rparr>
                   in (addPendingOperation (Op_pause flat) c2, Inr (Some (toppars topics c))))"

definition resume :: "(string \<times> int list option) list \<Rightarrow> consumer \<Rightarrow> consumer \<times> (kafka_error + unit)" where
  "resume topics c =
     (if \<not> cs_connected c then (c, Inl (state_error ''Resume can only be called while connected.''))
      else let flat = flattenTopicPartitions (toppars topics c)
           in if flat = [] then (c, Inr ())
              else let c1 = c\<lparr>cs_pausedPartitions := fold (\<lambda>tp m. jm_delete (partitionKey tp) m) flat (cs_pausedPartitions c)\<rparr>
                   in (addPendingOperation (Op_resume flat) c1, Inr ()))"

definition paused :: "consumer \<Rightarrow> (string, int list) jsmap" where
  "paused c =
     foldl (\<lambda>acc tp. jm_set (tp_topic tp) ((case jm_get acc (tp_topic tp) of None \<Rightarrow> [] | Some ps \<Rightarrow> ps) @ [tp_partition tp]) acc)
       [] (map snd (cs_pausedPartitions c))"

section \<open>Executing them\<close>

text \<open>
  The loop over the partitions that are sought and assigned. The loop of commits at the end of \<open>seekInternal\<close>, which is
  \<open>commitOffsetsUntilNoStateErr\<close> below, counts as one call; what is said here of an operation is for when that loop ends.
\<close>

fun seek_each :: "(string \<times> tp_offset) list \<Rightarrow> (consumer, unit) meth" where
  "seek_each [] c = (c, Inr ())"
| "seek_each ((key, tpo) # r) c =
     (case markStale [tpo] (cs_messageCache c) of
        (mc, Inl e) \<Rightarrow> (c\<lparr>cs_lastConsumedOffsets := jm_delete key (cs_lastConsumedOffsets c), cs_messageCache := mc\<rparr>, Inl e)
      | (mc, Inr _) \<Rightarrow>
          seek_each r (call (Seek_to tpo) (c\<lparr>cs_lastConsumedOffsets := jm_delete key (cs_lastConsumedOffsets c), cs_messageCache := mc\<rparr>)))"

definition seeked_partitions :: "tp_offset list \<Rightarrow> consumer \<Rightarrow> (string \<times> tp_offset) list" where
  "seeked_partitions tpos c =
     (let wanted = fold (\<lambda>t m. jm_set (partitionKey t) t m) tpos []
      in List.map_filter (\<lambda>tp. map_option (Pair (partitionKey tp)) (jm_get wanted (partitionKey tp))) (cs_assignment c))"

definition seekInternal :: "tp_offset list \<Rightarrow> (consumer, unit) meth" where
  "seekInternal tpos c =
     (if tpos = [] then (c, Inr ())
      else if \<not> cs_connected c then (c, Inl (Error ''Assignment can only be called while connected.''))
      else
        let seeked = seeked_partitions tpos c;
            assigned = partitionKey ` set (cs_assignment c);
            c1 = c\<lparr>cs_pendingSeeks :=
                   fold (\<lambda>t m. if partitionKey t \<in> assigned then m else jm_set (partitionKey t) t m) tpos (cs_pendingSeeks c)\<rparr>
        in m_bind (seek_each seeked) (\<lambda>_ c2.
             let c3 = c2\<lparr>cs_pendingSeeks := fold (\<lambda>(key, _) m. jm_delete key m) seeked (cs_pendingSeeks c2)\<rparr>
             in (if seeked \<noteq> [] \<and> cs_autoCommit c3 then call (Commit (map snd seeked)) c3 else c3, Inr ())) c1)"

definition after_last :: "tp_offset \<Rightarrow> 'a topic_partition_scheme \<Rightarrow> tp_offset" where
  "after_last consumed tp =
     \<lparr>tp_topic = tp_topic tp, tp_partition = tp_partition tp, to_offset = to_offset consumed + 1, to_leaderEpoch = to_leaderEpoch consumed\<rparr>"

definition resume_offsets :: "topic_partition list \<Rightarrow> consumer \<Rightarrow> tp_offset list" where
  "resume_offsets tps c =
     List.map_filter (\<lambda>tp. map_option (\<lambda>l. after_last l tp) (jm_get (cs_lastConsumedOffsets c) (partitionKey tp))) tps"

definition pauseInternal :: "topic_partition list \<Rightarrow> (consumer, unit) meth" where
  "pauseInternal tps c =
     (case markStale tps (cs_messageCache c) of
        (mc, Inl e) \<Rightarrow> (c\<lparr>cs_messageCache := mc\<rparr>, Inl e)
      | (mc, Inr _) \<Rightarrow>
          let c1 = call (Pause tps) (c\<lparr>cs_messageCache := mc\<rparr>)
          in seekInternal (resume_offsets tps c1) c1)"

definition resumeInternal :: "topic_partition list \<Rightarrow> (consumer, unit) meth" where
  "resumeInternal tps c = (call (Resume tps) c, Inr ())"

text \<open>
  Each partition is sought on its own, here one after the other; a failure is logged. Librdkafka tells the
  assignment, which it changes when partitions are assigned and unassigned. The error of \<open>assignment\<close> is carried as an
  \<open>Error\<close>.
\<close>

definition clearCacheAndResetPositions :: "(consumer, unit) meth" where
  "clearCacheAndResetPositions c =
     (let c1 = c\<lparr>cs_messageCache := clear_cache (cs_messageCache c)\<rparr>
      in if \<not> cs_connected c1 then (c1, Inl (Error ''Assignment can only be called while connected.''))
         else (fold (\<lambda>t c. fst (seekInternal [t] c)) (resume_offsets (cs_assignment c1) c1) c1, Inr ()))"

definition unassign :: "topic_partition list \<Rightarrow> (consumer, unit) meth" where
  "unassign tps c =
     (if cs_eager c
      then (call Unassign c\<lparr>cs_assignment := [], cs_messageCache := clear_cache (cs_messageCache c), cs_partitionCount := 0\<rparr>, Inr ())
      else
        let c1 = call (Incremental_unassign tps) c\<lparr>cs_assignment := filter (\<lambda>tp. tp \<notin> set tps) (cs_assignment c)\<rparr>
        in case markStale tps (cs_messageCache c1) of
             (mc, Inl e) \<Rightarrow> (c1\<lparr>cs_messageCache := mc\<rparr>, Inl e)
           | (mc, Inr _) \<Rightarrow>
               (c1\<lparr>cs_messageCache := mc, cs_partitionCount := cs_partitionCount c1 - int (length tps)\<rparr>, Inr ()))"

fun execute :: "pending_op \<Rightarrow> (consumer, unit) meth" where
  "execute (Op_seek tpos) = seekInternal tpos"
| "execute (Op_pause tps) = pauseInternal tps"
| "execute (Op_resume tps) = resumeInternal tps"
| "execute (Op_unassign tps) = unassign tps"
| "execute Op_clear = clearCacheAndResetPositions"

text \<open>The operations do not queue others, so the loop goes once through the queue.\<close>

fun execute_all :: "pending_op list \<Rightarrow> (consumer, unit) meth" where
  "execute_all [] c = (c, Inr ())"
| "execute_all (op # ops) c = m_bind (execute op) (\<lambda>_. execute_all ops) (c\<lparr>cs_pendingOperations := ops\<rparr>)"

definition executePendingOperations :: "(consumer, unit) meth" where
  "executePendingOperations c = execute_all (cs_pendingOperations c) c"

section \<open>Assignment\<close>

text \<open>The partitions with the offsets that were sought before.\<close>

fun assignAsPerSeekedOffsets :: "assigned list \<Rightarrow> consumer \<Rightarrow> consumer \<times> assigned list" where
  "assignAsPerSeekedOffsets [] c = (c, [])"
| "assignAsPerSeekedOffsets ((tp, start) # r) c =
     (case jm_get (cs_pendingSeeks c) (partitionKey tp) of
        None \<Rightarrow> (case assignAsPerSeekedOffsets r c of (c', r') \<Rightarrow> (c', (tp, start) # r'))
      | Some t \<Rightarrow>
          (case assignAsPerSeekedOffsets r (c\<lparr>cs_pendingSeeks := jm_delete (partitionKey tp) (cs_pendingSeeks c)\<rparr>) of
             (c', r') \<Rightarrow> (c', (tp, Some (to_offset t, to_leaderEpoch t)) # r')))"

text \<open>
  \<open>assignmentFn\<close> and \<open>unassignmentFn\<close> of \<open>rebalanceCallback\<close>, with the variable \<open>assignmentFnCalled\<close>: the first call of
  one of them counts. The client may refuse an assignment by throwing; otherwise librdkafka has it from then on.
\<close>

definition assignmentFn :: "assigned list \<Rightarrow> bool \<Rightarrow> bool \<times> consumer \<Rightarrow> bool \<times> consumer" where
  "assignmentFn userAssignment works = (\<lambda>(called, c).
     if called then (called, c)
     else (True,
       if cs_eager c
       then let c1 = call (Assign userAssignment) c
            in if works then c1\<lparr>cs_assignment := map fst userAssignment, cs_partitionCount := int (length userAssignment)\<rparr> else c1
       else let c1 = call (Incremental_assign userAssignment) c
            in if works
               then c1\<lparr>cs_assignment := cs_assignment c1 @ map fst userAssignment,
                       cs_partitionCount := cs_partitionCount c1 + int (length userAssignment)\<rparr>
               else c1))"

definition unassignmentFn :: "assigned list \<Rightarrow> bool \<times> consumer \<Rightarrow> bool \<times> consumer" where
  "unassignmentFn userAssignment = (\<lambda>(called, c).
     if called then (called, c)
     else (True,
       if cs_disconnectStarted c then fst (unassign (map fst userAssignment) c)
       else addPendingOperation (Op_unassign (map fst userAssignment)) c))"

text \<open>
  The user's \<open>rebalance_cb\<close>: the functions it calls, in order, and how it ends: it throws, or returns an assignment or
  something that counts as false.
\<close>

datatype user_fn = Fn_assign "assigned list" bool | Fn_unassign "assigned list"

datatype user_outcome = Cb_threw | Cb_returned "assigned list option"

record user_cb =
  uc_fns :: "user_fn list"
  uc_outcome :: user_outcome

fun user_call :: "user_fn \<Rightarrow> bool \<times> consumer \<Rightarrow> bool \<times> consumer" where
  "user_call (Fn_assign userAssignment works) = assignmentFn userAssignment works"
| "user_call (Fn_unassign userAssignment) = unassignmentFn userAssignment"

definition workersToSpawn :: "consumer \<Rightarrow> int" where
  "workersToSpawn c = max 1 (min (cs_concurrency c) (cs_partitionCount c))"

text \<open>
  The \<open>try\<close> block of \<open>rebalanceCallback\<close> for an event with a code and an assignment: the assignment, \<open>assignmentModified\<close>,
  \<open>assignmentFnCalled\<close> with the consumer, and what is thrown.
\<close>

definition rebalance_try ::
  "(int \<Rightarrow> assigned list \<Rightarrow> user_cb) option \<Rightarrow> int \<Rightarrow> assigned list \<Rightarrow> consumer
     \<Rightarrow> (assigned list \<times> bool \<times> bool \<times> consumer) \<times> unit result" where
  "rebalance_try rebalance_cb code assignment c =
     (case rebalance_cb of
        Some cb \<Rightarrow>
          let user = cb code assignment; (called, c') = fold user_call (uc_fns user) (False, c)
          in (case uc_outcome user of
                Cb_returned (Some alternate) \<Rightarrow> ((alternate, True, called, c'), Inr ())
              | _ \<Rightarrow> ((assignment, False, called, c'), Inr ()))
      | None \<Rightarrow>
          ((assignment, False, False, c),
           if code \<noteq> ERR__ASSIGN_PARTITIONS \<and> code \<noteq> ERR__REVOKE_PARTITIONS
           then Inl (Error (''Unexpected rebalance_cb error code '' @ int_str code)) else Inr ()))"

text \<open>
  The \<open>finally\<close> block, which runs in any case. Errors of the client are only reported by an event; events and logging are
  left out.
\<close>

definition rebalance_finally :: "bool \<Rightarrow> int \<Rightarrow> assigned list \<times> bool \<times> bool \<times> consumer \<Rightarrow> consumer" where
  "rebalance_finally works code = (\<lambda>(assignment, modified, called, c).
     if code = ERR__ASSIGN_PARTITIONS
     then let (c', assignment') =
                (if cs_pendingSeeks c \<noteq> [] \<and> \<not> modified \<and> \<not> called then assignAsPerSeekedOffsets assignment c else (c, assignment))
          in snd (assignmentFn assignment' works (called, c'))
     else snd (unassignmentFn assignment (called, c)))"

definition rebalanceCallback ::
  "(int \<Rightarrow> assigned list \<Rightarrow> user_cb) option \<Rightarrow> bool \<Rightarrow> int \<Rightarrow> assigned list \<Rightarrow> (consumer, unit) meth" where
  "rebalanceCallback rebalance_cb works code assignment c =
     (let (tried, thrown) = rebalance_try rebalance_cb code assignment c;
          c' = rebalance_finally works code tried
      in (if workersToSpawn c' \<noteq> int (cs_workers c') then c'\<lparr>cs_terminationScheduled := True\<rparr> else c', thrown))"

section \<open>Messages and batches\<close>

text \<open>Storing an offset may throw, which is only logged.\<close>

definition store_offset :: "bool \<Rightarrow> tp_offset \<Rightarrow> int option \<Rightarrow> consumer \<Rightarrow> consumer" where
  "store_offset works m epoch c =
     (if works
      then call (Store_offset \<lparr>tp_topic = tp_topic m, tp_partition = tp_partition m, to_offset = to_offset m + 1, to_leaderEpoch = epoch\<rparr>)
             c\<lparr>cs_lastConsumedOffsets := jm_set (partitionKey m) m (cs_lastConsumedOffsets c)\<rparr>
      else c)"

text \<open>\<open>messageProcessor\<close> from where \<open>eachMessage\<close> has returned or thrown.\<close>

definition message_processed :: "bool \<Rightarrow> bool \<Rightarrow> tp_offset \<Rightarrow> consumer \<Rightarrow> consumer \<times> (kafka_error + unit)" where
  "message_processed eachMessageProcessed works m c =
     (if eachMessageProcessed then (store_offset works m (to_leaderEpoch m) c, Inr ())
      else seek (tp_topic m) (tp_partition m) (Some (to_offset m)) (to_leaderEpoch m) c)"

text \<open>\<open>resolveOffset\<close> of the payload of a batch; the offset is a number, or \<open>None\<close> for NaN.\<close>

definition resolveOffset :: "string \<Rightarrow> int option \<Rightarrow> int \<Rightarrow> bool \<Rightarrow> consumer \<Rightarrow> consumer" where
  "resolveOffset key offset leaderEpoch works c =
     (case (offset, jm_get (cs_batches c) key) of
        (Some n, Some p) \<Rightarrow>
          if n \<le> bp_lastOffset p then c
          else store_offset works
                 \<lparr>tp_topic = bp_topic p, tp_partition = bp_partition p, to_offset = n, to_leaderEpoch = Some leaderEpoch\<rparr> (Some leaderEpoch)
                 (c\<lparr>cs_batches := jm_set key (p\<lparr>bp_lastOffset := n, bp_lastEpoch := leaderEpoch\<rparr>) (cs_batches c)\<rparr>)
      | _ \<Rightarrow> c)"

text \<open>What may happen while \<open>eachBatch\<close> runs, by its own code or by others; an error of a call is for the caller.\<close>

datatype batch_action =
    Resolve "int option" int bool
  | Seek string int "int option" "int option"
  | Pause_topics "(string \<times> int list option) list"
  | Resume_topics "(string \<times> int list option) list"
  | Max_poll_exceeded

fun batch_act :: "string \<Rightarrow> batch_action \<Rightarrow> consumer \<Rightarrow> consumer" where
  "batch_act key (Resolve offset epoch works) c = resolveOffset key offset epoch works c"
| "batch_act key (Seek topic part offset epoch) c = fst (seek topic part offset epoch c)"
| "batch_act key (Pause_topics ts) c = fst (pause ts c)"
| "batch_act key (Resume_topics ts) c = fst (resume ts c)"
| "batch_act key Max_poll_exceeded c = markBatchPayloadsStale (cs_assignment c) False c"

definition newBatchPayload :: "tp_offset \<Rightarrow> batch_payload" where
  "newBatchPayload m =
     \<lparr>bp_topic = tp_topic m, bp_partition = tp_partition m, bp_stale = False, bp_seeked = False, bp_lastOffset = - 1, bp_lastEpoch = - 1\<rparr>"

definition epoch_or_default :: "int option \<Rightarrow> int" where
  "epoch_or_default e = (case e of None \<Rightarrow> - 1 | Some n \<Rightarrow> n)"

text \<open>\<open>batchProcessor\<close> on messages that are not none, with what happens during \<open>eachBatch\<close> and whether that throws.\<close>

definition batchProcessor :: "bool \<Rightarrow> tp_offset list \<Rightarrow> batch_action list \<Rightarrow> bool \<Rightarrow> bool \<Rightarrow> consumer \<Rightarrow> consumer \<times> (kafka_error + unit)" where
  "batchProcessor autoResolve ms actions threw works c =
     (let first = hd ms; lst = last ms; key = partitionKey first;
          c1 = c\<lparr>cs_batches := jm_set key (newBatchPayload first) (cs_batches c)\<rparr>;
          c2 = fold (batch_act key) actions c1;
          c3 = (case jm_get (cs_batches c2) key of
                  Some p \<Rightarrow>
                    if \<not> threw \<and> autoResolve \<and> \<not> bp_stale p
                    then resolveOffset key (Some (to_offset lst)) (epoch_or_default (to_leaderEpoch lst)) works c2 else c2
                | None \<Rightarrow> c2)
      in case jm_get (cs_batches c3) key of
           None \<Rightarrow> (c3, Inr ())
         | Some p \<Rightarrow>
             let c4 = c3\<lparr>cs_batches := jm_delete key (cs_batches c3)\<rparr>
             in if \<not> bp_seeked p \<and> bp_lastOffset p \<noteq> to_offset lst
                then seek (tp_topic first) (tp_partition first)
                       (Some (if bp_lastOffset p = - 1 then to_offset first else bp_lastOffset p + 1))
                       (if bp_lastOffset p = - 1 then to_leaderEpoch first else Some (bp_lastEpoch p)) c4
                else (c4, Inr ()))"

text \<open>\<open>returnMessages\<close>: messages that were fetched from the cache and must not be processed yet.\<close>

definition give_back :: "string \<Rightarrow> tp_offset list \<Rightarrow> consumer \<Rightarrow> consumer" where
  "give_back key ms c =
     (let c1 = (case ms of
                  m # _ \<Rightarrow> if jm_get (cs_lastConsumedOffsets c) key = None
                           then c\<lparr>cs_lastConsumedOffsets :=
                                    jm_set key (m\<lparr>to_offset := to_offset m - 1, to_leaderEpoch := Some (- 1)\<rparr>) (cs_lastConsumedOffsets c)\<rparr>
                           else c
                | [] \<Rightarrow> c)
      in c1\<lparr>cs_messageCache := returnMessages ms (cs_messageCache c1)\<rparr>)"

section \<open>Committing\<close>

text \<open>
  \<open>commitOffsetsUntilNoStateErr\<close>: \<open>answer n\<close> is what the \<open>n\<close>-th commit throws, if it does, and \<open>err\<close> the variable of
  the loop. Not ending is \<open>None\<close>. An error without a code counts as one with code 0, which ends the loop too.
\<close>

partial_function (option) commit_loop :: "(nat \<Rightarrow> int option) \<Rightarrow> nat \<Rightarrow> int \<Rightarrow> nat option" where
  "commit_loop answer n err =
     (let err' = (case answer n of Some code \<Rightarrow> code | None \<Rightarrow> err)
      in if err' \<noteq> 0 \<and> err' = ERR__STATE then commit_loop answer (n + 1) err' else Some (n + 1))"

definition commitOffsetsUntilNoStateErr :: "(nat \<Rightarrow> int option) \<Rightarrow> nat option" where
  "commitOffsetsUntilNoStateErr answer = commit_loop answer 0 0"

section \<open>Sizes\<close>

definition roundUpToNearestMultipleOfMaxBatchesSize :: "int \<Rightarrow> rat \<Rightarrow> int" where
  "roundUpToNearestMultipleOfMaxBatchesSize maxBatchesSize v = \<lceil>v / of_int maxBatchesSize\<rceil> * maxBatchesSize"

text \<open>
  \<open>updateMaxMessageCacheSize\<close>: the new size from the last fetch (its messages, the partitions they were of, the
  nanoseconds since).
\<close>

definition updateMaxMessageCacheSize :: "int \<Rightarrow> int \<Rightarrow> int \<Rightarrow> rat \<Rightarrow> nat \<Rightarrow> nat \<Rightarrow> int \<Rightarrow> int \<Rightarrow> int \<Rightarrow> int" where
  "updateMaxMessageCacheSize maxBatchSize maxBatchesSize concurrency maxCacheSizePerWorkerMs cnt lastConcurrency lastClock now old =
     (if maxBatchSize = - 1 then old
      else if cnt > 0 \<and> lastClock > 0 \<and> now > lastClock
      then let duration = of_int (now - lastClock) / 1000000;
               rate = of_nat cnt / of_nat lastConcurrency / duration
           in roundUpToNearestMultipleOfMaxBatchesSize maxBatchesSize (of_int (\<lceil>maxCacheSizePerWorkerMs * rate\<rceil> * concurrency))
      else old)"

text \<open>\<open>saveFetchStats\<close>: the number of partitions among the messages, up to the concurrency.\<close>

fun count_partitions :: "nat \<Rightarrow> tp_offset list \<Rightarrow> (string, int) jsmap \<Rightarrow> nat" where
  "count_partitions concurrency [] m = length m"
| "count_partitions concurrency (msg # ms) m =
     (let m' = jm_set (partitionKey msg) 1 m in if length m' \<ge> concurrency then length m' else count_partitions concurrency ms m')"

end
