(* ===== verification/Consumer_Facts.thy ===== *)
theory Consumer_Facts
  imports Consumer
begin

text \<open>
  What the bookkeeping of the consumer guarantees: messages of a batch that were not resolved are fetched
  again and no offset past the resolved ones is stored. And where it falls short: pausing a partition, and
  committing after a seek.
\<close>

section \<open>A batch\<close>

lemma addPendingOperation_simps [simp]:
  "cs_batches (addPendingOperation op c) = cs_batches c" "cs_calls (addPendingOperation op c) = cs_calls c"
  "cs_connected (addPendingOperation op c) = cs_connected c"
  "cs_pendingOperations (addPendingOperation op c) = cs_pendingOperations c @ [op]"
  by (simp_all add: addPendingOperation_def Let_def)

lemma markBatchPayloadsStale_simps [simp]:
  "cs_calls (markBatchPayloadsStale tps b c) = cs_calls c" "cs_connected (markBatchPayloadsStale tps b c) = cs_connected c"
  "cs_pendingOperations (markBatchPayloadsStale tps b c) = cs_pendingOperations c"
proof -
  have "cs_calls (markBatchPayloadsStale tps b c) = cs_calls c \<and> cs_connected (markBatchPayloadsStale tps b c) = cs_connected c \<and>
      cs_pendingOperations (markBatchPayloadsStale tps b c) = cs_pendingOperations c"
    unfolding markBatchPayloadsStale_def by (induction tps arbitrary: c) (simp_all split: option.split)
  then show "cs_calls (markBatchPayloadsStale tps b c) = cs_calls c" "cs_connected (markBatchPayloadsStale tps b c) = cs_connected c"
      "cs_pendingOperations (markBatchPayloadsStale tps b c) = cs_pendingOperations c"
    by simp_all
qed

text \<open>What marking leaves of the payload of a partition.\<close>

lemma stale_payload:
  assumes "jm_get (cs_batches c) key = Some p"
  shows "\<exists>p'. jm_get (cs_batches (markBatchPayloadsStale tps b c)) key = Some p' \<and> bp_lastOffset p' = bp_lastOffset p \<and>
     bp_lastEpoch p' = bp_lastEpoch p \<and> bp_topic p' = bp_topic p \<and> bp_partition p' = bp_partition p \<and>
     (\<not> b \<or> key \<notin> partitionKey ` set tps \<longrightarrow> bp_seeked p' = bp_seeked p)"
  using assms unfolding markBatchPayloadsStale_def
proof (induction tps arbitrary: c p)
  case (Cons tp tps)
  show ?case
  proof (cases "jm_get (cs_batches c) (partitionKey tp)")
    case None
    then have "partitionKey tp \<noteq> key" using Cons.prems by auto
    then show ?thesis using Cons.IH [OF Cons.prems] None by auto
  next
    case (Some q)
    let ?c = "c\<lparr>cs_batches := jm_set (partitionKey tp) (q\<lparr>bp_stale := True, bp_seeked := bp_seeked q \<or> b\<rparr>) (cs_batches c)\<rparr>"
    show ?thesis
    proof (cases "partitionKey tp = key")
      case True
      then have "q = p" using Some Cons.prems by simp
      then have "jm_get (cs_batches ?c) key = Some (p\<lparr>bp_stale := True, bp_seeked := bp_seeked p \<or> b\<rparr>)" using True by simp
      from Cons.IH [OF this] show ?thesis using Some True by auto
    next
      case False
      then have "jm_get (cs_batches ?c) key = Some p" using Cons.prems by simp
      from Cons.IH [OF this] show ?thesis using Some False by auto
    qed
  qed
qed simp

text \<open>The offsets that are resolved, and the largest of them.\<close>

fun resolves :: "batch_action \<Rightarrow> int list" where
  "resolves (Resolve (Some n) _ _) = [n]"
| "resolves _ = []"

fun seeks_key :: "string \<Rightarrow> batch_action \<Rightarrow> bool" where
  "seeks_key key (Seek topic part _ _) \<longleftrightarrow> partitionKey \<lparr>tp_topic = topic, tp_partition = part\<rparr> = key"
| "seeks_key key _ \<longleftrightarrow> False"

definition last_resolved :: "batch_action list \<Rightarrow> int" where
  "last_resolved actions = fold max (concat (map resolves actions)) (- 1)"

text \<open>The payload of the batch, when offsets up to \<open>r\<close> are resolved, and the offsets stored since \<open>calls\<close>.\<close>

definition batch_state :: "string \<Rightarrow> client_call list \<Rightarrow> int \<Rightarrow> consumer \<Rightarrow> bool" where
  "batch_state key calls r c \<longleftrightarrow>
     cs_connected c \<and>
     (\<exists>p. jm_get (cs_batches c) key = Some p \<and> bp_lastOffset p = r \<and> \<not> bp_seeked p) \<and>
     (\<forall>t. Store_offset t \<in> set (cs_calls c) \<longrightarrow> Store_offset t \<in> set calls \<or> to_offset t \<le> r + 1)"

lemma resolve_batch_state:
  assumes "batch_state key calls r c"
  shows "batch_state key calls (max r n) (resolveOffset key (Some n) e works c)"
    and "cs_pendingOperations (resolveOffset key (Some n) e works c) = cs_pendingOperations c"
proof -
  obtain p where p: "jm_get (cs_batches c) key = Some p" "bp_lastOffset p = r" "\<not> bp_seeked p"
    using assms by (auto simp: batch_state_def)
  show "batch_state key calls (max r n) (resolveOffset key (Some n) e works c)"
    using assms p by (force simp: batch_state_def resolveOffset_def store_offset_def call_def)
  show "cs_pendingOperations (resolveOffset key (Some n) e works c) = cs_pendingOperations c"
    using p by (simp add: resolveOffset_def store_offset_def call_def)
qed

lemma stale_batch_state:
  assumes "batch_state key calls r c" and "\<not> b \<or> key \<notin> partitionKey ` set tps"
  shows "batch_state key calls r (markBatchPayloadsStale tps b c)"
proof -
  obtain p where "jm_get (cs_batches c) key = Some p" "bp_lastOffset p = r" "\<not> bp_seeked p"
    using assms by (auto simp: batch_state_def)
  then show ?thesis
    using stale_payload [of c key p tps b] assms by (auto simp: batch_state_def)
qed

lemma other_batch_state [simp]:
  "batch_state key calls r (addPendingOperation op c) = batch_state key calls r c"
  "batch_state key calls r (c\<lparr>cs_pausedPartitions := x\<rparr>) = batch_state key calls r c"
  by (simp_all add: batch_state_def)

lemma act_batch_state:
  assumes st: "batch_state key calls r c" and "\<not> seeks_key key a"
  shows "batch_state key calls (fold max (resolves a) r) (batch_act key a c)"
proof (cases a)
  case (Resolve n e works)
  then show ?thesis
    using st resolve_batch_state [OF st] by (cases n) (simp_all add: resolveOffset_def max.commute)
next
  case (Seek topic part offset e)
  have "partitionKey \<lparr>tp_topic = topic, tp_partition = part, to_offset = n, to_leaderEpoch = e\<rparr> \<noteq> key" for n
    using assms(2) Seek by (auto simp: partitionKey_def)
  then have "batch_state key calls r (markBatchPayloadsStale [\<lparr>tp_topic = topic, tp_partition = part, to_offset = n, to_leaderEpoch = e\<rparr>] True c)" for n
    by (intro stale_batch_state [OF st]) (metis empty_iff imageE insertE list.set)
  then show ?thesis
    using Seek st by (simp add: seek_def Let_def split: option.split)
next
  case (Pause_topics ts)
  then show ?thesis
    using st stale_batch_state [OF st, of False "flattenTopicPartitions (toppars ts c)"] by (simp add: pause_def Let_def)
next
  case (Resume_topics ts)
  then show ?thesis using st by (simp add: resume_def Let_def)
next
  case Max_poll_exceeded
  then show ?thesis using st stale_batch_state [OF st, of False] by simp
qed

lemma actions_batch_state:
  assumes "batch_state key calls r c" and "\<forall>a \<in> set actions. \<not> seeks_key key a"
  shows "batch_state key calls (fold max (concat (map resolves actions)) r) (fold (batch_act key) actions c)"
  using assms
proof (induction actions arbitrary: r c)
  case (Cons a actions)
  then show ?case using act_batch_state [OF Cons.prems(1), of a] by simp
qed simp

lemma fold_max_ge: "fold max ns (r :: int) \<ge> r"
  by (induction ns arbitrary: r) (auto intro: order_trans [OF max.cobounded2])

lemma last_resolved_ge: "last_resolved actions \<ge> - 1"
  by (simp add: last_resolved_def fold_max_ge)

text \<open>
  C4. Messages of a batch that were not resolved are not lost. Whatever the user resolves, pauses or resumes while
  eachBatch runs, and whether it returns or throws, unless the user seeks in the partition: if the last offset that was
  resolved (by the user, or on return by the consumer) is not that of the last message, a seek is queued to the offset after
  it, or to the first message if none was; and no offset past the one after it has been stored.
\<close>

theorem unresolved_messages_are_sought:
  fixes ms actions threw works c autoResolve
  defines "key \<equiv> partitionKey (hd ms)"
  defines "c2 \<equiv> fold (batch_act key) actions (c\<lparr>cs_batches := jm_set key (newBatchPayload (hd ms)) (cs_batches c)\<rparr>)"
  defines "auto_resolved \<equiv> \<not> threw \<and> autoResolve \<and> \<not> bp_stale (the (jm_get (cs_batches c2) key))"
  defines "r \<equiv> if auto_resolved then max (last_resolved actions) (to_offset (last ms)) else last_resolved actions"
  assumes "cs_connected c" and "to_offset (hd ms) \<ge> 0" and "\<forall>a \<in> set actions. \<not> seeks_key key a"
  shows "\<exists>c' sought. batchProcessor autoResolve ms actions threw works c = (c', Inr ()) \<and>
           cs_pendingOperations c' = cs_pendingOperations c2 @ sought \<and>
           (if r = to_offset (last ms) then sought = []
            else \<exists>t. sought = [Op_seek [t]] \<and> tp_of t = tp_of (hd ms) \<and> to_offset t = (if r = - 1 then to_offset (hd ms) else r + 1)) \<and>
           (\<forall>t. Store_offset t \<in> set (cs_calls c') \<longrightarrow> Store_offset t \<in> set (cs_calls c) \<or> to_offset t \<le> r + 1)"
proof -
  let ?c1 = "c\<lparr>cs_batches := jm_set key (newBatchPayload (hd ms)) (cs_batches c)\<rparr>"
  have "batch_state key (cs_calls c) (- 1) ?c1"
    using assms(5) by (simp add: batch_state_def newBatchPayload_def)
  from actions_batch_state [OF this assms(7)]
  have st2: "batch_state key (cs_calls c) (last_resolved actions) c2" by (simp add: c2_def last_resolved_def)
  define c3 where "c3 = (if auto_resolved then resolveOffset key (Some (to_offset (last ms))) (epoch_or_default (to_leaderEpoch (last ms))) works c2 else c2)"
  have st3: "batch_state key (cs_calls c) r c3" and ops3: "cs_pendingOperations c3 = cs_pendingOperations c2"
    using st2 resolve_batch_state [OF st2] by (simp_all add: c3_def r_def)
  obtain p2 where p2: "jm_get (cs_batches c2) key = Some p2" using st2 by (auto simp: batch_state_def)
  obtain p where p: "jm_get (cs_batches c3) key = Some p" "bp_lastOffset p = r" "\<not> bp_seeked p" and conn: "cs_connected c3"
    using st3 by (auto simp: batch_state_def)
  let ?c4 = "c3\<lparr>cs_batches := jm_delete key (cs_batches c3)\<rparr>"
  let ?target = "if r = - 1 then to_offset (hd ms) else r + 1"
  have eq3: "c3 = (case jm_get (cs_batches c2) key of
                Some p \<Rightarrow> if \<not> threw \<and> autoResolve \<and> \<not> bp_stale p
                          then resolveOffset key (Some (to_offset (last ms))) (epoch_or_default (to_leaderEpoch (last ms))) works c2 else c2
              | None \<Rightarrow> c2)"
    by (simp add: c3_def auto_resolved_def p2)
  have run: "batchProcessor autoResolve ms actions threw works c =
      (if r \<noteq> to_offset (last ms)
       then seek (tp_topic (hd ms)) (tp_partition (hd ms)) (Some ?target)
              (if r = - 1 then to_leaderEpoch (hd ms) else Some (bp_lastEpoch p)) ?c4
       else (?c4, Inr ()))"
    unfolding batchProcessor_def Let_def unfolding key_def [symmetric] unfolding c2_def [symmetric] unfolding eq3 [symmetric]
    using p by simp
  have "?target \<ge> 0"
    using assms(6) last_resolved_ge [of actions] by (auto simp: r_def)
  then show ?thesis
    using run conn ops3 st3 by (cases "r = to_offset (last ms)") (auto simp: seek_def Let_def batch_state_def tp_of_def)
qed

text \<open>A consumer with two partitions, and two messages of one of them of which the user resolves the first.\<close>

definition sample_tp :: "int \<Rightarrow> topic_partition" where
  "sample_tp n = \<lparr>tp_topic = ''t'', tp_partition = n\<rparr>"

definition sample_position :: "int \<Rightarrow> int \<Rightarrow> tp_offset" where
  "sample_position n offset = \<lparr>tp_topic = ''t'', tp_partition = n, to_offset = offset, to_leaderEpoch = Some 0\<rparr>"

definition sample_consumer :: consumer where
  "sample_consumer =
     \<lparr>cs_connected = True, cs_eager = True, cs_autoCommit = False, cs_assignment = [sample_tp 0, sample_tp 1], cs_partitionCount = 2,
      cs_concurrency = 1, cs_workers = 1,
      cs_lastConsumedOffsets = [], cs_pendingSeeks = [], cs_pausedPartitions = [], cs_messageCache = newMessageCache,
      cs_pendingOperations = [], cs_terminationScheduled = False, cs_batches = [], cs_disconnectStarted = False, cs_calls = []\<rparr>"

theorem unresolved_messages_are_sought_witness:
  "\<exists>c' t. batchProcessor True [sample_position 0 5, sample_position 0 6] [Resolve (Some 5) 0 True] True True sample_consumer = (c', Inr ()) \<and>
     cs_pendingOperations c' = [Op_seek [t]] \<and> to_offset t = 6 \<and> tp_of t = sample_tp 0"
proof -
  let ?ms = "[sample_position 0 5, sample_position 0 6]" let ?as = "[Resolve (Some 5) 0 True]"
  have "cs_connected sample_consumer" "to_offset (hd ?ms) \<ge> 0" "\<forall>a \<in> set ?as. \<not> seeks_key (partitionKey (hd ?ms)) a"
    by (simp_all add: sample_consumer_def sample_position_def)
  from unresolved_messages_are_sought [OF this, of True True True] show ?thesis
    by (auto simp: last_resolved_def sample_position_def resolveOffset_def store_offset_def call_def newBatchPayload_def tp_of_def sample_tp_def
        sample_consumer_def)
qed

section \<open>Pausing\<close>

lemma markStale_forgets:
  assumes "markStale [tp] mc = (mc', Inr u)"
  shows "jm_get (mc_tpToPpc mc') (partitionKey tp) = None"
proof (cases "jm_get (mc_tpToPpc mc) (partitionKey tp)")
  case None
  then show ?thesis using assms by (simp add: markStaleOne_def m_bind_def Let_def)
next
  case (Some p)
  then show ?thesis
    using assms by (auto simp: markStaleOne_def m_bind_def Let_def split: prod.splits sum.splits)
qed

text \<open>
  C39. Pausing a partition drops its messages from the cache, and if none of them has been consumed since the partition was
  assigned or sought, nothing seeks back: the only call is that of pause. The messages librdkafka has already handed
  over are skipped when the partition is resumed.
\<close>

theorem pause_drops_unconsumed:
  assumes "jm_get (cs_lastConsumedOffsets c) (partitionKey tp) = None" and "markStale [tp] (cs_messageCache c) = (mc, Inr ())"
  shows "\<exists>c'. pauseInternal [tp] c = (c', Inr ()) \<and> cs_calls c' = cs_calls c @ [Pause [tp]] \<and>
     jm_get (mc_tpToPpc (cs_messageCache c')) (partitionKey tp) = None"
  using assms markStale_forgets [OF assms(2)]
  by (simp add: pauseInternal_def resume_offsets_def seekInternal_def call_def List.map_filter_def Let_def)

text \<open>A message of partition 1 is in the cache and none has been consumed.\<close>

definition waiting_consumer :: consumer where
  "waiting_consumer = sample_consumer\<lparr>cs_messageCache := addMessages [sample_position 1 7] newMessageCache\<rparr>"

lemmas cache_eval = waiting_consumer_def sample_consumer_def sample_position_def sample_tp_def addMessages_def add_message_def newMessageCache_def
  reinit_def addAvailable_def addLast_def newLinkedList_def newPerPartitionCache_def ppc_addLast_def notifyAvailablePartitions_def
  markStaleOne_def removeAvailable_def remove_node_def m_bind_def partitionKey_def Let_def newNode_def insertInBetween_def

lemma waiting_marked: "\<exists>mc. markStale [sample_tp 1] (cs_messageCache waiting_consumer) = (mc, Inr ())"
  by (simp add: cache_eval)

theorem pause_drops_unconsumed_witness:
  "\<exists>c'. pauseInternal [sample_tp 1] waiting_consumer = (c', Inr ()) \<and> cs_calls c' = [Pause [sample_tp 1]] \<and>
     jm_get (mc_tpToPpc (cs_messageCache waiting_consumer)) (partitionKey (sample_tp 1)) = Some 0 \<and>
     jm_get (mc_tpToPpc (cs_messageCache c')) (partitionKey (sample_tp 1)) = None"
proof -
  have "jm_get (mc_tpToPpc (cs_messageCache waiting_consumer)) (partitionKey (sample_tp 1)) = Some 0"
    by (simp add: cache_eval)
  moreover have "jm_get (cs_lastConsumedOffsets waiting_consumer) (partitionKey (sample_tp 1)) = None" "cs_calls waiting_consumer = []"
    by (simp_all add: waiting_consumer_def sample_consumer_def)
  ultimately show ?thesis
    using waiting_marked pause_drops_unconsumed [of waiting_consumer "sample_tp 1"] by auto
qed

section \<open>Committing after a seek\<close>

lemma commit_loop_unfold:
  "commit_loop answer n err =
     (let err' = (case answer n of Some code \<Rightarrow> code | None \<Rightarrow> err)
      in if err' = ERR__STATE then commit_loop answer (n + 1) err' else Some (n + 1))"
  by (subst commit_loop.simps) (simp add: Let_def ERR__STATE_def)

lemma commit_loop_ends:
  assumes "answer (n + k) = Some code" and "code \<noteq> ERR__STATE"
  shows "\<exists>m. commit_loop answer n err = Some m"
  using assms
proof (induction k arbitrary: n err)
  case 0
  then show ?case by (subst commit_loop_unfold) (simp add: Let_def)
next
  case (Suc k)
  then show ?case by (subst commit_loop_unfold) (auto simp: Let_def)
qed

lemma commit_loop_needs_other_error:
  assumes "commit_loop answer n ERR__STATE = Some m"
  shows "\<exists>k code. answer k = Some code \<and> code \<noteq> ERR__STATE"
proof -
  have "err = ERR__STATE \<longrightarrow> (\<exists>k code. answer k = Some code \<and> code \<noteq> ERR__STATE)"
    if "commit_loop answer n err = Some m" for err
  proof (rule commit_loop.raw_induct
      [where P = "\<lambda>answer n err m. err = ERR__STATE \<longrightarrow> (\<exists>k code. answer k = Some code \<and> code \<noteq> ERR__STATE)", OF _ that])
    fix loop answer n err m
    assume ih: "\<And>answer n err m. loop answer n err = Some m \<Longrightarrow>
        err = ERR__STATE \<longrightarrow> (\<exists>k code. answer k = Some code \<and> code \<noteq> ERR__STATE)"
      and body: "(let err' = (case answer n of Some code \<Rightarrow> code | None \<Rightarrow> err)
          in if err' \<noteq> 0 \<and> err' = ERR__STATE then loop answer (n + 1) err' else Some (n + 1)) = Some m"
    show "err = ERR__STATE \<longrightarrow> (\<exists>k code. answer k = Some code \<and> code \<noteq> ERR__STATE)"
    proof (cases "answer n")
      case None
      then show ?thesis using body ih [of answer "n + 1" ERR__STATE m] by (auto simp: Let_def ERR__STATE_def)
    next
      case (Some code)
      then show ?thesis
        using body ih [of answer "n + 1" ERR__STATE m] by (cases "code = ERR__STATE") (auto simp: Let_def ERR__STATE_def)
    qed
  qed
  then show ?thesis using assms by blast
qed

text \<open>
  C40. The loop that commits the offsets of a seek ends at once unless the first commit fails with ERR__STATE; after that
  it ends only if a later commit fails with another error. A commit that succeeds does not end it, since the error of
  the earlier one is kept.
\<close>

theorem commit_after_state_error_ends_by_error_only:
  "commitOffsetsUntilNoStateErr answer = (if answer 0 = Some ERR__STATE then commit_loop answer 1 ERR__STATE else Some 1) \<and>
   ((\<exists>m. commitOffsetsUntilNoStateErr answer = Some m) \<longleftrightarrow>
     answer 0 \<noteq> Some ERR__STATE \<or> (\<exists>n code. answer n = Some code \<and> code \<noteq> ERR__STATE))"
proof -
  have first: "commitOffsetsUntilNoStateErr answer = Some 1" if "answer 0 \<noteq> Some ERR__STATE"
    using that unfolding commitOffsetsUntilNoStateErr_def
    by (subst commit_loop_unfold) (auto simp: Let_def ERR__STATE_def split: option.split)
  have later: "commitOffsetsUntilNoStateErr answer = commit_loop answer 1 ERR__STATE" if "answer 0 = Some ERR__STATE"
    using that unfolding commitOffsetsUntilNoStateErr_def by (subst commit_loop_unfold) (simp add: Let_def)
  have ends: "\<exists>m. commitOffsetsUntilNoStateErr answer = Some m" if "answer n = Some code" "code \<noteq> ERR__STATE" for n code
    using commit_loop_ends [of answer 0 n code 0] that by (simp add: commitOffsetsUntilNoStateErr_def)
  show ?thesis
    using first later ends commit_loop_needs_other_error [of answer 1] by (cases "answer 0 = Some ERR__STATE") auto
qed

theorem commit_after_state_error_ends_by_error_only_witness:
  "commitOffsetsUntilNoStateErr (\<lambda>n. if n = 0 then Some ERR__STATE else None) = None \<and>
   (\<exists>m. commitOffsetsUntilNoStateErr (\<lambda>n. if n < 3 then Some ERR__STATE else Some ERR__TIMED_OUT) = Some m)"
proof -
  have other: "ERR__TIMED_OUT \<noteq> ERR__STATE" by (simp add: code_defs)
  have "\<not> (\<exists>m. commitOffsetsUntilNoStateErr (\<lambda>n. if n = 0 then Some ERR__STATE else None) = Some m)"
    using commit_after_state_error_ends_by_error_only [of "\<lambda>n. if n = 0 then Some ERR__STATE else None"] by (auto split: if_splits)
  moreover have "\<exists>n code. (if n < (3 :: nat) then Some ERR__STATE else Some ERR__TIMED_OUT) = Some code \<and> code \<noteq> ERR__STATE"
    using other by (intro exI [of _ 3] exI [of _ ERR__TIMED_OUT]) simp
  then have "\<exists>m. commitOffsetsUntilNoStateErr (\<lambda>n. if n < 3 then Some ERR__STATE else Some ERR__TIMED_OUT) = Some m"
    using commit_after_state_error_ends_by_error_only [of "\<lambda>n. if n < 3 then Some ERR__STATE else Some ERR__TIMED_OUT"] by blast
  ultimately show ?thesis by simp
qed

section \<open>The size of the cache\<close>

text \<open>The size is a multiple of the messages that all workers take at a time, and holds what was asked for.\<close>

lemma cache_size_multiple:
  assumes "maxBatchesSize > 0"
  shows "maxBatchesSize dvd roundUpToNearestMultipleOfMaxBatchesSize maxBatchesSize v"
    and "v \<le> of_int (roundUpToNearestMultipleOfMaxBatchesSize maxBatchesSize v)"
proof -
  have "v / of_int maxBatchesSize \<le> of_int \<lceil>v / of_int maxBatchesSize\<rceil>" by (rule le_of_int_ceiling)
  then have "v \<le> of_int \<lceil>v / of_int maxBatchesSize\<rceil> * of_int maxBatchesSize"
    using assms by (simp add: pos_divide_le_eq del: le_of_int_ceiling)
  then show "v \<le> of_int (roundUpToNearestMultipleOfMaxBatchesSize maxBatchesSize v)"
    by (simp add: roundUpToNearestMultipleOfMaxBatchesSize_def)
qed (simp add: roundUpToNearestMultipleOfMaxBatchesSize_def)

end
