(* ===== verification/Consumer_Seeks.thy ===== *)
theory Consumer_Seeks
  imports Consumer_Facts
begin

text \<open>
  What becomes of a seek in a partition that is not assigned: it is kept, whatever else the consumer does, until the
  partition is assigned, and which rebalance applies it.
\<close>

section \<open>What a consumer does\<close>

text \<open>The operations of the bookkeeping, in any order.\<close>

datatype consumer_event =
    Ev_seek string int "int option" "int option"
  | Ev_pause "(string \<times> int list option) list"
  | Ev_resume "(string \<times> int list option) list"
  | Ev_message bool bool tp_offset
  | Ev_batch bool "tp_offset list" "batch_action list" bool bool
  | Ev_give_back string "tp_offset list"
  | Ev_cache_expired
  | Ev_execute
  | Ev_rebalance "(int \<Rightarrow> assigned list \<Rightarrow> user_cb) option" bool int "assigned list"

fun consumer_act :: "consumer_event \<Rightarrow> consumer \<Rightarrow> consumer" where
  "consumer_act (Ev_seek topic part offset epoch) c = fst (seek topic part offset epoch c)"
| "consumer_act (Ev_pause ts) c = fst (pause ts c)"
| "consumer_act (Ev_resume ts) c = fst (resume ts c)"
| "consumer_act (Ev_message processed works m) c = fst (message_processed processed works m c)"
| "consumer_act (Ev_batch autoResolve ms actions threw works) c = fst (batchProcessor autoResolve ms actions threw works c)"
| "consumer_act (Ev_give_back key ms) c = give_back key ms c"
| "consumer_act Ev_cache_expired c = addPendingOperation Op_clear c"
| "consumer_act Ev_execute c = fst (executePendingOperations c)"
| "consumer_act (Ev_rebalance cb works code assignment) c = fst (rebalanceCallback cb works code assignment c)"

text \<open>
  An event that neither seeks nor pauses the partition, by an operation it executes, nor assigns it. Calls that queue such
  an operation do not count, the execution does.
\<close>

fun touches :: "string \<Rightarrow> pending_op \<Rightarrow> bool" where
  "touches key (Op_seek tpos) \<longleftrightarrow> key \<in> partitionKey ` set tpos"
| "touches key (Op_pause tps) \<longleftrightarrow> key \<in> partitionKey ` set tps"
| "touches key _ \<longleftrightarrow> False"

fun assigned_by :: "user_fn \<Rightarrow> assigned list" where
  "assigned_by (Fn_assign a works) = a"
| "assigned_by (Fn_unassign a) = []"

definition handed :: "(int \<Rightarrow> assigned list \<Rightarrow> user_cb) option \<Rightarrow> int \<Rightarrow> assigned list \<Rightarrow> assigned list" where
  "handed cb code assignment =
     (if code = ERR__ASSIGN_PARTITIONS then assignment else []) @
     (case cb of
        None \<Rightarrow> []
      | Some f \<Rightarrow>
          concat (map assigned_by (uc_fns (f code assignment))) @
          (case uc_outcome (f code assignment) of Cb_returned (Some a) \<Rightarrow> a | _ \<Rightarrow> []))"

fun spares :: "string \<Rightarrow> consumer_event \<Rightarrow> consumer \<Rightarrow> bool" where
  "spares key Ev_execute c \<longleftrightarrow> (\<forall>op \<in> set (cs_pendingOperations c). \<not> touches key op)"
| "spares key (Ev_rebalance cb works code assignment) c \<longleftrightarrow> key \<notin> (partitionKey \<circ> fst) ` set (handed cb code assignment)"
| "spares key _ c \<longleftrightarrow> True"

fun spared_run :: "string \<Rightarrow> consumer_event list \<Rightarrow> consumer \<Rightarrow> bool" where
  "spared_run key [] c \<longleftrightarrow> True"
| "spared_run key (e # es) c \<longleftrightarrow> spares key e c \<and> spared_run key es (consumer_act e c)"

text \<open>A callback of the user that leaves the assignment to the consumer; there may be none.\<close>

definition leaves_default :: "(int \<Rightarrow> assigned list \<Rightarrow> user_cb) option \<Rightarrow> int \<Rightarrow> assigned list \<Rightarrow> bool" where
  "leaves_default cb code assignment \<longleftrightarrow>
     (case cb of
        None \<Rightarrow> True
      | Some f \<Rightarrow> uc_fns (f code assignment) = [] \<and> uc_outcome (f code assignment) \<in> {Cb_threw, Cb_returned None})"

section \<open>What leaves a kept seek alone\<close>

text \<open>The seeks that are kept and the assignment are the same in both states.\<close>

definition same_seeks :: "consumer \<Rightarrow> consumer \<Rightarrow> bool" where
  "same_seeks c d \<longleftrightarrow> cs_pendingSeeks d = cs_pendingSeeks c \<and> cs_assignment d = cs_assignment c"

lemma same_seeks_refl [simp]: "same_seeks c c"
  by (simp add: same_seeks_def)

lemma same_seeks_trans: "same_seeks c d \<Longrightarrow> same_seeks d e \<Longrightarrow> same_seeks c e"
  by (simp add: same_seeks_def)

lemma same_seeks_fold:
  assumes "\<And>x d. same_seeks d (f x d)"
  shows "same_seeks c (fold f xs c)"
  by (induction xs arbitrary: c) (auto intro: same_seeks_trans assms)

lemma same_seeks_updates [simp]:
  "same_seeks c (d\<lparr>cs_batches := x1\<rparr>) = same_seeks c d" "same_seeks c (d\<lparr>cs_pausedPartitions := x2\<rparr>) = same_seeks c d"
  "same_seeks c (d\<lparr>cs_lastConsumedOffsets := x3\<rparr>) = same_seeks c d" "same_seeks c (d\<lparr>cs_messageCache := x4\<rparr>) = same_seeks c d"
  "same_seeks c (d\<lparr>cs_terminationScheduled := x5\<rparr>) = same_seeks c d" "same_seeks c (d\<lparr>cs_pendingOperations := x6\<rparr>) = same_seeks c d"
  "same_seeks c (call k d) = same_seeks c d" "same_seeks c (addPendingOperation op d) = same_seeks c d"
  by (simp_all add: same_seeks_def call_def addPendingOperation_def Let_def)

lemma stale_same [simp]: "same_seeks c (markBatchPayloadsStale tps b c)"
  unfolding markBatchPayloadsStale_def by (rule same_seeks_fold) (simp split: option.split)

lemma calls_same [simp]:
  "same_seeks c (fst (seek topic part offset epoch c))" "same_seeks c (fst (pause ts c))" "same_seeks c (fst (resume ts c))"
  "same_seeks c (store_offset works m e c)" "same_seeks c (give_back key ms c)"
  by (simp_all add: seek_def pause_def resume_def store_offset_def give_back_def Let_def split: option.split list.split)

lemma resolve_same [simp]: "same_seeks c (resolveOffset key offset e works c)"
proof -
  have "same_seeks c (store_offset works m (Some e) (c\<lparr>cs_batches := b\<rparr>))" for m b
    using calls_same(4) [of "c\<lparr>cs_batches := b\<rparr>" works m "Some e"] by (simp add: same_seeks_def)
  then show ?thesis by (simp add: resolveOffset_def split: option.split)
qed

lemma batch_act_same: "same_seeks c (batch_act key a c)"
  by (cases a) simp_all

lemma batchProcessor_same: "same_seeks c (fst (batchProcessor autoResolve ms actions threw works c))"
proof -
  let ?key = "partitionKey (hd ms)"
  let ?c1 = "c\<lparr>cs_batches := jm_set ?key (newBatchPayload (hd ms)) (cs_batches c)\<rparr>"
  define c2 where "c2 = fold (batch_act ?key) actions ?c1"
  have "same_seeks ?c1 c2" unfolding c2_def by (rule same_seeks_fold) (rule batch_act_same)
  then have c2: "same_seeks c c2" by (simp add: same_seeks_def)
  define c3 where "c3 = (case jm_get (cs_batches c2) ?key of
                  Some p \<Rightarrow>
                    if \<not> threw \<and> autoResolve \<and> \<not> bp_stale p
                    then resolveOffset ?key (Some (to_offset (last ms))) (epoch_or_default (to_leaderEpoch (last ms))) works c2 else c2
                | None \<Rightarrow> c2)"
  have c3: "same_seeks c c3"
    using c2 same_seeks_trans [OF c2 resolve_same] by (simp add: c3_def split: option.split)
  have sought: "same_seeks c (fst (seek topic part offset epoch (c3\<lparr>cs_batches := b\<rparr>)))" for topic part offset epoch b
    using same_seeks_trans [OF _ calls_same(1)] c3 by simp
  show ?thesis
    unfolding batchProcessor_def Let_def c2_def [symmetric] unfolding c3_def [symmetric]
    using c3 sought by (simp split: option.split)
qed

text \<open>A seek that is kept for a partition that is not assigned.\<close>

definition kept :: "string \<Rightarrow> tp_offset \<Rightarrow> consumer \<Rightarrow> bool" where
  "kept key t c \<longleftrightarrow> jm_get (cs_pendingSeeks c) key = Some t \<and> key \<notin> partitionKey ` set (cs_assignment c)"

lemma kept_same: "same_seeks c d \<Longrightarrow> kept key t c \<Longrightarrow> kept key t d"
  by (simp add: kept_def same_seeks_def)

lemma jm_get_fold_set:
  "key \<notin> partitionKey ` set ts \<Longrightarrow>
     jm_get (fold (\<lambda>t m. if P t then m else jm_set (partitionKey t) t m) ts m) key = jm_get m key"
  by (induction ts arbitrary: m) auto

lemma jm_get_fold_delete: "key \<notin> fst ` set ks \<Longrightarrow> jm_get (fold (\<lambda>(k, _) m. jm_delete k m) ks m) key = jm_get m key"
proof (induction ks arbitrary: m)
  case (Cons x ks)
  then show ?case by (cases x) auto
qed simp

lemma seek_each_same: "same_seeks c (fst (seek_each ks c))"
proof (induction ks arbitrary: c)
  case (Cons x ks)
  obtain k t where x: "x = (k, t)" by (cases x)
  obtain mc r where mc: "markStale [t] (cs_messageCache c) = (mc, r)" by fastforce
  let ?c = "call (Seek_to t) (c\<lparr>cs_lastConsumedOffsets := jm_delete k (cs_lastConsumedOffsets c), cs_messageCache := mc\<rparr>)"
  have "same_seeks c (fst (seek_each ks ?c))"
    by (rule same_seeks_trans [OF _ Cons.IH]) simp
  then show ?case by (cases r) (simp_all add: x mc del: markStale.simps)
qed simp

lemma seeked_keys: "fst ` set (seeked_partitions tpos c) \<subseteq> partitionKey ` set tpos"
proof -
  have "jm_get (fold (\<lambda>t m. jm_set (partitionKey t) t m) tpos m) k = Some t \<Longrightarrow> k \<in> partitionKey ` set tpos \<or> jm_get m k = Some t" for m k t
    by (induction tpos arbitrary: m) (fastforce split: if_splits)+
  from this [of "[]"] show ?thesis
    by (auto simp: seeked_partitions_def map_filter_def Let_def)
qed

lemma kept_seekInternal:
  assumes kept: "kept key t c" and out: "key \<notin> partitionKey ` set tpos"
  shows "kept key t (fst (seekInternal tpos c))"
proof -
  let ?assigned = "partitionKey ` set (cs_assignment c)"
  let ?c1 = "c\<lparr>cs_pendingSeeks := fold (\<lambda>t m. if partitionKey t \<in> ?assigned then m else jm_set (partitionKey t) t m) tpos (cs_pendingSeeks c)\<rparr>"
  let ?ks = "seeked_partitions tpos c"
  have c1: "kept key t ?c1" using kept jm_get_fold_set [OF out] by (simp add: kept_def)
  obtain c2 r where c2: "seek_each ?ks ?c1 = (c2, r)" by fastforce
  have k2: "kept key t c2" using kept_same [OF seek_each_same c1, of ?ks] c2 by simp
  have "key \<notin> fst ` set ?ks" using seeked_keys out by blast
  from jm_get_fold_delete [OF this, of "cs_pendingSeeks c2"]
  have k3: "kept key t (c2\<lparr>cs_pendingSeeks := fold (\<lambda>(key, _) m. jm_delete key m) ?ks (cs_pendingSeeks c2)\<rparr>)" (is "kept _ _ ?c3")
    using k2 by (simp add: kept_def)
  have "kept key t (call k ?c3)" for k by (rule kept_same [OF _ k3]) simp
  then show ?thesis
    using kept k2 k3 c2 by (cases r) (simp_all add: seekInternal_def Let_def m_bind_def)
qed

lemma resume_keys: "partitionKey ` set (resume_offsets tps c) \<subseteq> partitionKey ` set tps"
proof -
  have "partitionKey (after_last l tp) = partitionKey tp" for l and tp :: topic_partition
    by (simp add: after_last_def partitionKey_def)
  then show ?thesis
    by (auto simp: resume_offsets_def map_filter_def split: option.splits)
qed

lemma kept_fold_seeks:
  "kept key t c \<Longrightarrow> key \<notin> partitionKey ` set ts \<Longrightarrow> kept key t (fold (\<lambda>t c. fst (seekInternal [t] c)) ts c)"
proof (induction ts arbitrary: c)
  case (Cons x ts)
  then show ?case using kept_seekInternal [OF Cons.prems(1), of "[x]"] by simp
qed simp

lemma kept_unassign:
  assumes "kept key t c"
  shows "kept key t (fst (unassign tps c))"
  using assms by (auto simp: unassign_def kept_def call_def Let_def simp del: markStale.simps split: prod.split sum.split)

lemma kept_execute:
  assumes kept: "kept key t c" and "\<not> touches key op"
  shows "kept key t (fst (execute op c))"
proof (cases op)
  case (Op_seek tpos)
  then show ?thesis using kept_seekInternal [OF kept] assms(2) by simp
next
  case (Op_pause tps)
  obtain mc r where mc: "markStale tps (cs_messageCache c) = (mc, r)" by fastforce
  let ?c = "call (Pause tps) (c\<lparr>cs_messageCache := mc\<rparr>)"
  have same: "kept key t ?c" "kept key t (c\<lparr>cs_messageCache := mc\<rparr>)" by (rule kept_same [OF _ kept], simp)+
  have "key \<notin> partitionKey ` set (resume_offsets tps ?c)"
    using subsetD [OF resume_keys [of tps ?c], of key] assms(2) Op_pause by auto
  from kept_seekInternal [OF same(1) this] same(2) show ?thesis
    using mc Op_pause by (cases r) (simp_all add: pauseInternal_def Let_def del: markStale.simps)
next
  case (Op_resume tps)
  then show ?thesis using kept_same [OF _ kept] by (simp add: resumeInternal_def)
next
  case (Op_unassign tps)
  then show ?thesis using kept_unassign [OF kept] by simp
next
  case Op_clear
  let ?c = "c\<lparr>cs_messageCache := clear_cache (cs_messageCache c)\<rparr>"
  have c: "kept key t ?c" by (rule kept_same [OF _ kept]) simp
  moreover from this have "key \<notin> partitionKey ` set (resume_offsets (cs_assignment ?c) ?c)"
    using subsetD [OF resume_keys [of "cs_assignment ?c" ?c], of key] by (auto simp: kept_def)
  ultimately show ?thesis
    using kept_fold_seeks Op_clear by (simp add: clearCacheAndResetPositions_def Let_def)
qed

lemma kept_execute_all:
  "kept key t c \<Longrightarrow> \<forall>op \<in> set ops. \<not> touches key op \<Longrightarrow> kept key t (fst (execute_all ops c))"
proof (induction ops arbitrary: c)
  case (Cons op ops)
  let ?c = "c\<lparr>cs_pendingOperations := ops\<rparr>"
  have "kept key t ?c" by (rule kept_same [OF _ Cons.prems(1)]) simp
  from kept_execute [OF this, of op] have "kept key t (fst (execute op ?c))" using Cons.prems(2) by simp
  with Cons.IH Cons.prems(2) show ?case by (cases "execute op ?c"; cases "snd (execute op ?c)") (auto simp: m_bind_def)
qed simp

section \<open>Rebalances\<close>

lemma assignAsPerSeekedOffsets_facts:
  assumes "assignAsPerSeekedOffsets a c = (c', r)"
  shows "jm_get (cs_pendingSeeks c') key = (if key \<in> (partitionKey \<circ> fst) ` set a then None else jm_get (cs_pendingSeeks c) key) \<and>
     cs_calls c' = cs_calls c \<and> cs_eager c' = cs_eager c \<and> cs_assignment c' = cs_assignment c \<and> map fst r = map fst a"
  using assms
proof (induction a arbitrary: c r)
  case (Cons x a)
  obtain tp start where x: "x = (tp, start)" by (cases x)
  show ?case
  proof (cases "jm_get (cs_pendingSeeks c) (partitionKey tp)")
    case None
    then obtain r1 where "assignAsPerSeekedOffsets a c = (c', r1)" "r = (tp, start) # r1" using Cons.prems x by (auto split: prod.splits)
    from Cons.IH [OF this(1)] None this(2) x show ?thesis by auto
  next
    case (Some t)
    let ?c = "c\<lparr>cs_pendingSeeks := jm_delete (partitionKey tp) (cs_pendingSeeks c)\<rparr>"
    obtain r1 where "assignAsPerSeekedOffsets a ?c = (c', r1)" "map fst r = tp # map fst r1"
      using Some Cons.prems x by (auto split: prod.splits)
    from Cons.IH [OF this(1)] this(2) x show ?thesis by auto
  qed
qed simp

lemma assignAsPerSeekedOffsets_offset:
  assumes "assignAsPerSeekedOffsets a c = (c', r)" and "(tp, start) \<in> set a" and "distinct (map (partitionKey \<circ> fst) a)"
    and "jm_get (cs_pendingSeeks c) (partitionKey tp) = Some t"
  shows "(tp, Some (to_offset t, to_leaderEpoch t)) \<in> set r"
  using assms
proof (induction a arbitrary: c r)
  case (Cons x a)
  obtain tp' start' where x: "x = (tp', start')" by (cases x)
  show ?case
  proof (cases "(tp, start) = x")
    case True
    then show ?thesis using Cons.prems x by (auto split: prod.splits)
  next
    case False
    then have tp: "(tp, start) \<in> set a" and other: "partitionKey tp \<noteq> partitionKey tp'"
      using Cons.prems(2,3) x by (force intro: rev_image_eqI)+
    show ?thesis
    proof (cases "jm_get (cs_pendingSeeks c) (partitionKey tp')")
      case None
      then obtain r1 where r1: "assignAsPerSeekedOffsets a c = (c', r1)" "r = (tp', start') # r1"
        using Cons.prems(1) x by (auto split: prod.splits)
      show ?thesis using Cons.IH [OF r1(1) tp] Cons.prems(3,4) r1(2) by simp
    next
      case (Some y)
      let ?c = "c\<lparr>cs_pendingSeeks := jm_delete (partitionKey tp') (cs_pendingSeeks c)\<rparr>"
      obtain r1 where r1: "assignAsPerSeekedOffsets a ?c = (c', r1)" "r = (tp', Some (to_offset y, to_leaderEpoch y)) # r1"
        using Some Cons.prems(1) x by (auto split: prod.splits)
      show ?thesis using Cons.IH [OF r1(1) tp] Cons.prems(3,4) r1(2) other by auto
    qed
  qed
qed simp

text \<open>The functions the user may call leave the kept seeks alone, and keep the assignment free of what they do not assign.\<close>

lemma assignmentFn_seeks: "cs_pendingSeeks (snd (assignmentFn a works (called, c))) = cs_pendingSeeks c"
  by (simp add: assignmentFn_def call_def Let_def)

lemma kept_assignmentFn:
  assumes "kept key t c" and "key \<notin> (partitionKey \<circ> fst) ` set a"
  shows "kept key t (snd (assignmentFn a works (called, c)))"
  using assms by (auto simp: kept_def assignmentFn_def call_def Let_def)

lemma unassign_seeks: "cs_pendingSeeks (fst (unassign tps c)) = cs_pendingSeeks c"
  by (simp add: unassign_def call_def Let_def del: markStale.simps split: prod.split sum.split)

lemma unassignmentFn_seeks: "cs_pendingSeeks (snd (unassignmentFn a (called, c))) = cs_pendingSeeks c"
  by (simp add: unassignmentFn_def unassign_seeks addPendingOperation_def Let_def)

lemma kept_unassignmentFn: "kept key t c \<Longrightarrow> kept key t (snd (unassignmentFn a (called, c)))"
  by (auto simp: unassignmentFn_def kept_unassign intro: kept_same [rotated])

lemma fns_called: "fst (fold user_call fns (called, c)) \<longleftrightarrow> called \<or> fns \<noteq> []"
proof (induction fns arbitrary: called c)
  case (Cons f fns)
  have "fst (user_call f (called, c))" by (cases f) (simp_all add: assignmentFn_def unassignmentFn_def)
  then show ?case using Cons.IH by (cases "user_call f (called, c)") simp
qed simp

lemma fns_seeks: "cs_pendingSeeks (snd (fold user_call fns (called, c))) = cs_pendingSeeks c"
proof (induction fns arbitrary: called c)
  case (Cons f fns)
  have "cs_pendingSeeks (snd (user_call f (called, c))) = cs_pendingSeeks c"
    by (cases f) (simp_all add: assignmentFn_seeks unassignmentFn_seeks)
  then show ?case using Cons.IH by (cases "user_call f (called, c)") simp
qed simp

lemma kept_fns:
  "kept key t c \<Longrightarrow> key \<notin> (partitionKey \<circ> fst) ` set (concat (map assigned_by fns)) \<Longrightarrow>
     kept key t (snd (fold user_call fns (called, c)))"
proof (induction fns arbitrary: called c)
  case (Cons f fns)
  have "key \<notin> (partitionKey \<circ> fst) ` set (assigned_by f)" using Cons.prems(2) by auto
  then have "kept key t (snd (user_call f (called, c)))"
    using Cons.prems(1) by (cases f) (simp_all add: kept_assignmentFn kept_unassignmentFn del: o_apply)
  then show ?case
    using Cons.IH Cons.prems(2) by (cases "user_call f (called, c)") auto
qed simp

lemma rebalance_parts:
  "\<exists>b. fst (rebalanceCallback cb works code a c) =
     (rebalance_finally works code (fst (rebalance_try cb code a c)))\<lparr>cs_terminationScheduled := b\<rparr>"
proof -
  let ?d = "rebalance_finally works code (fst (rebalance_try cb code a c))"
  have "fst (rebalanceCallback cb works code a c) = (if workersToSpawn ?d \<noteq> int (cs_workers ?d) then ?d\<lparr>cs_terminationScheduled := True\<rparr> else ?d)"
    by (simp add: rebalanceCallback_def Let_def split: prod.split)
  then show ?thesis by (auto intro: exI [of _ True] exI [of _ "cs_terminationScheduled ?d"])
qed

lemma kept_rebalance:
  assumes kept: "kept key t c" and out: "key \<notin> (partitionKey \<circ> fst) ` set (handed cb code a)"
  shows "kept key t (fst (rebalanceCallback cb works code a c))"
proof -
  obtain a1 modified called c1 where user: "fst (rebalance_try cb code a c) = (a1, modified, called, c1)" by (cases "fst (rebalance_try cb code a c)")
  have "kept key t c1 \<and> (code = ERR__ASSIGN_PARTITIONS \<longrightarrow> key \<notin> (partitionKey \<circ> fst) ` set a1)"
  proof (cases cb)
    case None
    then show ?thesis using user kept out by (auto simp: rebalance_try_def handed_def)
  next
    case (Some f)
    have "kept key t (snd (fold user_call (uc_fns (f code a)) (False, c)))"
      using out Some by (intro kept_fns [OF kept]) (auto simp: handed_def)
    with user out Some show ?thesis
      by (auto simp: rebalance_try_def handed_def Let_def split: prod.splits user_outcome.splits option.splits)
  qed
  then have k1: "kept key t c1" and a1: "code = ERR__ASSIGN_PARTITIONS \<Longrightarrow> key \<notin> (partitionKey \<circ> fst) ` set a1" by auto
  have "kept key t (rebalance_finally works code (a1, modified, called, c1))"
  proof (cases "code = ERR__ASSIGN_PARTITIONS")
    case True
    obtain c2 r where c2: "assignAsPerSeekedOffsets a1 c1 = (c2, r)" by fastforce
    note facts = assignAsPerSeekedOffsets_facts [OF c2, of key]
    have "kept key t c2" using facts a1 [OF True] k1 by (simp add: kept_def)
    moreover have "key \<notin> (partitionKey \<circ> fst) ` set r"
      using facts a1 [OF True] by (metis (no_types, lifting) image_comp list.set_map)
    ultimately show ?thesis
      using True c2 k1 a1 by (simp add: rebalance_finally_def kept_assignmentFn)
  next
    case False
    then show ?thesis using kept_unassignmentFn [OF k1] by (simp add: rebalance_finally_def)
  qed
  then show ?thesis
    using rebalance_parts [of cb works code a c] user by (auto simp: Let_def intro: kept_same [rotated])
qed

lemma kept_event:
  assumes "kept key t c" and "spares key e c"
  shows "kept key t (consumer_act e c)"
proof (cases e)
  case Ev_execute
  then show ?thesis using assms kept_execute_all by (simp add: executePendingOperations_def)
next
  case (Ev_rebalance cb works code a)
  then show ?thesis using kept_rebalance assms by simp
next
  case (Ev_batch autoResolve ms actions threw works)
  then show ?thesis using kept_same [OF batchProcessor_same assms(1)] by simp
next
  case (Ev_message processed works m)
  then show ?thesis using kept_same [OF _ assms(1)] by (simp add: message_processed_def)
qed (use kept_same [OF _ assms(1)] in simp_all)

lemma kept_run: "kept key t c \<Longrightarrow> spared_run key es c \<Longrightarrow> kept key t (fold consumer_act es c)"
  by (induction es arbitrary: c) (auto intro: kept_event)

text \<open>
  C38. A seek in a partition that is not assigned is not lost. It calls nothing of librdkafka and is kept through any sequence of
  operations and rebalances that do not execute another seek or a pause of this partition and do not assign it. When a
  rebalance then assigns the partition and the consumer makes the assignment itself (there is no rebalance_cb, or it neither
  returns an assignment nor calls one of the functions it is given), librdkafka is told the offset that was sought,
  and the seek is forgotten, so that it is applied once. If instead the user's callback returns an assignment or calls one of
  the functions, no kept seek is applied or forgotten, as the comment of rebalanceCallback says.
\<close>

theorem pending_seek_is_applied:
  assumes "cs_connected c" and "partitionKey t \<notin> partitionKey ` set (cs_assignment c)"
    and "spared_run (partitionKey t) es (fst (seekInternal [t] c))"
    and "(tp_of t, start) \<in> set assignment" and "distinct (map (partitionKey \<circ> fst) assignment)"
    and "c2 = fold consumer_act es (fst (seekInternal [t] c))"
    and "c3 = fst (rebalanceCallback cb works ERR__ASSIGN_PARTITIONS assignment c2)"
  shows "snd (seekInternal [t] c) = Inr () \<and> cs_calls (fst (seekInternal [t] c)) = cs_calls c \<and>
     (if leaves_default cb ERR__ASSIGN_PARTITIONS assignment
      then (\<exists>with_offsets.
             cs_calls c3 = cs_calls c2 @ [if cs_eager c2 then Assign with_offsets else Incremental_assign with_offsets] \<and>
             map fst with_offsets = map fst assignment \<and>
             (tp_of t, Some (to_offset t, to_leaderEpoch t)) \<in> set with_offsets) \<and>
           jm_get (cs_pendingSeeks c3) (partitionKey t) = None
      else cs_pendingSeeks c3 = cs_pendingSeeks c2 \<and> jm_get (cs_pendingSeeks c3) (partitionKey t) = Some t)"
proof -
  have key: "partitionKey (tp_of t) = partitionKey t" by (simp add: partitionKey_def tp_of_def)
  have none: "seeked_partitions [t] c = []"
    using assms(2) by (auto simp: seeked_partitions_def List.map_filter_def filter_empty_conv intro: rev_image_eqI)
  have run: "seekInternal [t] c = (c\<lparr>cs_pendingSeeks := jm_set (partitionKey t) t (cs_pendingSeeks c)\<rparr>, Inr ())"
    using assms(1,2) none by (simp add: seekInternal_def Let_def m_bind_def)
  have "kept (partitionKey t) t (fst (seekInternal [t] c))" using assms(2) by (simp add: run kept_def)
  from kept_run [OF this assms(3)] have kept: "jm_get (cs_pendingSeeks c2) (partitionKey t) = Some t" by (simp add: assms(6) kept_def)
  obtain b where c3: "c3 = (rebalance_finally works ERR__ASSIGN_PARTITIONS (fst (rebalance_try cb ERR__ASSIGN_PARTITIONS assignment c2)))\<lparr>cs_terminationScheduled := b\<rparr>"
    using rebalance_parts [of cb works ERR__ASSIGN_PARTITIONS assignment c2] assms(7) by (auto simp: Let_def)
  show ?thesis
  proof (cases "leaves_default cb ERR__ASSIGN_PARTITIONS assignment")
    case True
    have user: "fst (rebalance_try cb ERR__ASSIGN_PARTITIONS assignment c2) = (assignment, False, False, c2)"
      using True by (auto simp: leaves_default_def rebalance_try_def Let_def split: option.splits)
    obtain c' r where c': "assignAsPerSeekedOffsets assignment c2 = (c', r)" by fastforce
    note facts = assignAsPerSeekedOffsets_facts [OF c', of "partitionKey t"]
    have "partitionKey t \<in> (partitionKey \<circ> fst) ` set assignment" using assms(4) key by (force intro: rev_image_eqI)
    moreover have "cs_pendingSeeks c2 \<noteq> []" using kept by auto
    moreover have "(tp_of t, Some (to_offset t, to_leaderEpoch t)) \<in> set r"
      using assignAsPerSeekedOffsets_offset [OF c' assms(4,5)] kept key by simp
    ultimately show ?thesis
      using True run facts c' by (simp add: c3 user rebalance_finally_def assignmentFn_def call_def Let_def)
  next
    case False
    then obtain f where f: "cb = Some f" by (auto simp: leaves_default_def split: option.splits)
    obtain a1 modified called c1 where user: "fst (rebalance_try cb ERR__ASSIGN_PARTITIONS assignment c2) = (a1, modified, called, c1)"
      by (cases "fst (rebalance_try cb ERR__ASSIGN_PARTITIONS assignment c2)")
    have "cs_pendingSeeks c1 = cs_pendingSeeks c2"
      using user f fns_seeks [of "uc_fns (f ERR__ASSIGN_PARTITIONS assignment)" False c2] by (auto simp: rebalance_try_def Let_def split: prod.splits user_outcome.splits option.splits)
    moreover have "modified \<or> called"
      using user f False fns_called [of "uc_fns (f ERR__ASSIGN_PARTITIONS assignment)" False c2]
      by (auto simp: rebalance_try_def leaves_default_def Let_def split: prod.splits user_outcome.splits option.splits)
    ultimately have "cs_pendingSeeks c3 = cs_pendingSeeks c2"
      by (auto simp: c3 user rebalance_finally_def assignmentFn_seeks)
    then show ?thesis using False run kept by simp
  qed
qed

text \<open>Between the seek and the assignment another partition is sought and revoked.\<close>

definition other_events :: "consumer_event list" where
  "other_events = [Ev_seek ''t'' 0 (Some 4) None, Ev_execute, Ev_rebalance None True ERR__REVOKE_PARTITIONS [(sample_tp 0, None)], Ev_execute]"

theorem pending_seek_is_applied_witness:
  "\<exists>c2 c3 with_offsets. c2 = fold consumer_act other_events (fst (seekInternal [sample_position 2 9] sample_consumer)) \<and>
     c3 = fst (rebalanceCallback None True ERR__ASSIGN_PARTITIONS [(sample_tp 1, None), (sample_tp 2, None)] c2) \<and>
     cs_calls c3 = cs_calls c2 @ [if cs_eager c2 then Assign with_offsets else Incremental_assign with_offsets] \<and>
     (sample_tp 2, Some (9, Some 0)) \<in> set with_offsets"
proof -
  have spared: "spared_run (partitionKey (sample_position 2 9)) other_events (fst (seekInternal [sample_position 2 9] sample_consumer))"
    by code_simp
  show ?thesis
    using pending_seek_is_applied [OF _ _ spared, of None "[(sample_tp 1, None), (sample_tp 2, None)]" _ _ None True, OF _ _ _ _ refl refl]
    by (auto simp: leaves_default_def sample_consumer_def sample_position_def sample_tp_def tp_of_def partitionKey_def int_str_def nat_str.simps digit_char_def)
qed

end
