(* ===== verification/Spec2Isabelle.thy ===== *)
theory Spec2Isabelle
  imports JS_Prelude Buffer_Wrapper Schema_Id Schema_Model Rule_Registry Wildcard_Matcher Rule_Context
    Rule_Engine Client_Interface Lru_Cache Migrations Subject_Name Mock_Client Mock_Invariant Serdes
    Utf8 Variant_Bytes Variant_Format Variant_Reader Variant_Builder Variant_Layout Variant_Search
    Variant_Encoding Variant_Roundtrip Variant_Limits Rest_Service Registry_Client Registry_Lookups
    Linked_List Message_Cache Message_Cache_Spec Message_Cache_Refine Message_Cache_Runs Base64 Tink
    Tink_Facts Kms Kms_Facts Dek_Registry Dek_Store Encryption Encryption_Roundtrip Encryption_Runs
    Encryption_Facts Decimals Rw_Lock Rw_Lock_Facts Kafka_Errors Kafka_Common Producer Producer_Facts
    Producer_Send Producer_Send_Facts Consumer Consumer_Facts Consumer_Seeks
begin

text \<open>
  A model of the core of \<open>confluent-kafka-javascript\<close>: the schema registry client and its serializers
  (TypeScript, \<open>schemaregistry/\<close>), and the producer and the consumer with its message cache in the style of KafkaJS
  (JavaScript, \<open>lib/kafkajs/\<close>).

  \<^bold>\<open>The program.\<close> A serializer turns a value into bytes for Kafka: it finds the subject for the topic,
  registers or looks up the schema in a schema registry, runs the rules of the schema on the value,
  encodes it and puts the id of the schema in front of the bytes or into a header. A deserializer
  reads the id, fetches the writer's schema, finds the migrations between the writer's and the
  reader's version, runs rules and migrations and decodes. The registry is reached over REST by a
  client that caches answers, or is an in-memory client for tests. Semi-structured values have
  their own binary codec (variants). A rule can encrypt fields: the executor takes a data encryption key
  (dek) from a registry or creates one, which a key management service (KMS) wraps under a key encryption
  key (kek), and replaces keys that have expired. A consumer keeps the messages that librdkafka has delivered in
  a cache with a queue for each partition, from which workers take them, and keeps account of the offsets that
  are processed, stored, sought and paused. A producer connects with retries, serializes and sends messages and
  collects their delivery reports; a readers-writer lock orders consuming and disconnecting.

  \<^bold>\<open>How the code is modelled.\<close> Functions are HOL functions and the classes records; a method takes and
  returns the state of its object (\<open>meth\<close> in \<open>JS_Prelude\<close>), and an exception is a value of \<open>js_error\<close> in a
  sum. JavaScript numbers that are bit-manipulated are integers with the truncation to 32 bits
  written out; bytes are \<open>8 word\<close>s; a \<open>Map\<close> or object used as a map is an association list in insertion order;
  strings are lists of characters, and lists of UTF-16 code units in the variant codec, where their
  encoding matters. Promises are run to completion, except in the lock and in the life cycle of the
  producer, which are state machines whose steps are the code between two \<open>await\<close>s; the mutexes of the code make the
  operations that share a cache exclusive in the same way. Packages (axios, lru-cache, json-stringify-deterministic,
  simple-oauth2, the regular expression engine's matching beyond what is used) are parameters or, for the
  language itself, definitions.

  \<^bold>\<open>Theories.\<close>

  \<^item> \<open>JS_Prelude\<close>: results, state passing, 32-bit operators, insertion-ordered maps, decimal text.
  \<^item> \<open>Buffer_Wrapper\<close> (\<open>serde/buffer-wrapper.ts\<close>): zig-zag varints, both directions, on a buffer with a position.
  \<^item> \<open>Schema_Id\<close> (\<open>serde/serde.ts\<close>): ids and GUIDs on the wire, message indexes, the serializers and
    deserializers of ids. Frames are read back, are unambiguous, and unknown magic bytes are refused.
  \<^item> \<open>Schema_Model\<close>, \<open>Client_Interface\<close> (\<open>schemaregistry-client.ts\<close>): schemas, rules, metadata, the interface
    \<open>Client\<close> as a record of operations, and the locale \<open>schema_registry\<close> of what serializers rely on.
  \<^item> \<open>Rule_Registry\<close>, \<open>Rule_Context\<close>, \<open>Rule_Engine\<close> (\<open>serde/rule-registry.ts\<close>, \<open>serde/serde.ts\<close>): registration of executors
    and actions, the stack of field contexts with their tags, selection, order and execution of rules with
    their actions on success and failure. Reading undoes writing; errors are of known kinds.
  \<^item> \<open>Wildcard_Matcher\<close> (\<open>serde/wildcard-matcher.ts\<close>): translation to a regular expression, its parsing and greedy
    matching; all of it decides the same as \<open>wild\<close>, which reads the pattern sign by sign.
  \<^item> \<open>Migrations\<close>, \<open>Subject_Name\<close>, \<open>Serdes\<close> (\<open>serde/serde.ts\<close>): migration rules between versions, resolution of
    references, subject name strategies, schema ids and writer schemas, validation rules. Migrations pass through every
    version between the writer's and the reader's, in both directions; the associated strategy, started with an empty cache, gives what
    lookups without a cache give while the associations do not change.
  \<^item> \<open>Mock_Client\<close>, \<open>Mock_Invariant\<close> (\<open>mock-schemaregistry-client.ts\<close>): the in-memory client, its reachable states and
    their invariant; it interprets \<open>schema_registry\<close>.
  \<^item> \<open>Lru_Cache\<close>: what is relied on of a cache that may drop entries. Which ones it drops is a function of its content, a
    parameter; time and recency are not represented.
  \<^item> \<open>Rest_Service\<close> (\<open>rest-service.ts\<close>, \<open>retry-helper.ts\<close>, \<open>rest-error.ts\<close>, \<open>oauth/\<close>): base URLs in turn, errors, authentication,
    fetching tokens with retries.
  \<^item> \<open>Registry_Client\<close>, \<open>Registry_Lookups\<close> (\<open>schemaregistry-client.ts\<close>): the REST client with its seven caches; the locale
    \<open>client_cache\<close> of one cache inside a client, interpreted on five of them; lookups give what the registry
    answers, and where the keys of the caches fail.
  \<^item> \<open>Utf8\<close>, \<open>Variant_Bytes\<close>, \<open>Variant_Format\<close>, \<open>Variant_Reader\<close>, \<open>Variant_Builder\<close> (\<open>confluent/type/variant-utils.ts\<close>): the codec;
    \<open>Variant_Layout\<close>, \<open>Variant_Search\<close>, \<open>Variant_Encoding\<close>, \<open>Variant_Roundtrip\<close>, \<open>Variant_Limits\<close>: the layout of built values, the
    search for a key, the round trip of a parsed tree, size limits and open containers.
  \<^item> \<open>Linked_List\<close> (\<open>lib/kafkajs/_linked-list.js\<close>): nodes on an explicit heap; the list refines an abstract one.
  \<^item> \<open>Message_Cache\<close> (\<open>lib/kafkajs/_consumer_cache.js\<close>), \<open>Message_Cache_Spec\<close>, \<open>Message_Cache_Refine\<close>, \<open>Message_Cache_Runs\<close>: the cache on
    those lists, an abstract cache, the refinement (the locales \<open>message_queue\<close> and \<open>serving\<close> are interpreted on the
    queue of a partition and on \<open>next\<close> and \<open>nextN\<close>), and the order of messages.

  \<^item> \<open>Base64\<close>, \<open>Tink\<close>, \<open>Tink_Facts\<close> (\<open>rules/encryption/tink/\<close>): byte helpers, AES-GCM and AES-SIV, HMAC and HKDF over the
    platform's cryptography, which is a parameter; HKDF is that of RFC 5869.
  \<^item> \<open>Kms\<close>, \<open>Kms_Facts\<close> (\<open>rules/encryption/kms-registry.ts\<close>, \<open>localkms/\<close>, \<open>awskms/\<close>, \<open>gcpkms/\<close>, \<open>azurekms/\<close>): the cryptor of
    a dek, the registry of services and four drivers; the version in an Azure ciphertext.
  \<^item> \<open>Dek_Registry\<close>, \<open>Dek_Store\<close> (\<open>rules/encryption/dekregistry/\<close>): the in-memory and the REST client, deks being objects on
    a heap; the locale \<open>dek_store\<close> of what the executor relies on, and \<open>dek_codec\<close> of cache keys, of which the
    in-memory client makes a store (\<open>sublocale\<close>, interpreted as \<open>plain_dek\<close>).
  \<^item> \<open>Encryption\<close> (\<open>rules/encryption/encrypt-executor.ts\<close>), \<open>Encryption_Roundtrip\<close>, \<open>Encryption_Runs\<close>, \<open>Encryption_Facts\<close>: the executor; a
    calculus of what its operations keep; what was encrypted is decrypted again after any further messages;
    reading registers nothing; what a conflict with another process leads to.

  \<^item> \<open>Decimals\<close> (\<open>confluent/type/decimal-utils.ts\<close>): two's complement of integers of any size, plain text, width guards and the
    conversion to \<open>confluent.type.Decimal\<close>, over the documented behaviour of decimal.js; exact and minimal.
  \<^item> \<open>Rw_Lock\<close>, \<open>Rw_Lock_Facts\<close> (class \<open>Lock\<close> of \<open>lib/kafkajs/_common.js\<close>): a lock with reentrant calls; a writer is
    alone, a free lock is taken, and the two kinds of reentrant calls that fail: a read inside a write, and an upgrade beside a reader.
  \<^item> \<open>Kafka_Errors\<close> (\<open>lib/error.js\<close>, \<open>lib/kafkajs/_error.js\<close>), \<open>Kafka_Common\<close> (\<open>lib/kafkajs/_common.js\<close>): codes, errors and their conversion;
    headers, offsets, retries, builders of serializers.
  \<^item> \<open>Producer\<close>, \<open>Producer_Facts\<close>, \<open>Producer_Send\<close>, \<open>Producer_Send_Facts\<close> (\<open>lib/kafkajs/_producer.js\<close>): connecting, disconnecting and
    calling as a state machine with its invariant, in which a \<open>send\<close> is three steps (its test of the state, the produce calls after
    the serializers were awaited, the delivery reports); connecting ends; calls reach the connected client. \<open>Producer_Send\<close> has what
    \<open>send\<close> does with its messages: it prepares and produces on a record that holds the produce calls made so far, so that a
    throw in between would show; they are all produced or none.
  \<^item> \<open>Consumer\<close>, \<open>Consumer_Facts\<close>, \<open>Consumer_Seeks\<close> (\<open>lib/kafkajs/_consumer.js\<close>): the bookkeeping of offsets on the message cache, and
    the rebalance callback with the functions and the answer of the user's own; what was not resolved is sought again; a seek in
    a partition that is not assigned is kept until the consumer assigns it; where pausing and committing after a seek fall short.

  \<^bold>\<open>Loops and fuel.\<close> Loops over data are structural recursion. The binary search of the variant reader has fuel;
  enough fuel gives a result. The iterator of a list and \<open>next\<close>, \<open>nextN\<close> of the message cache are partial
  functions whose value is \<open>None\<close> when they do not end, as are the expansion loop of HKDF and the loop that commits after
  a seek; when they end is part of the theorems on them. The
  resolution of references has fuel too, and ends when references have no cycle.

  \<^bold>\<open>Not modelled.\<close> The Avro, JSON and Protobuf encodings themselves and CEL, JSONata and decimal arithmetic,
  which packages do; the client for HashiCorp Vault, whose constructor starts a login that operations wait
  for; ciphers, hash functions and the services of cloud providers, which are parameters; of the producer and the
  consumer the conversion of configurations, logging, the events emitted, and the workers of the consumer with their timers; the consumer
  connects as the producer does. The admin client, the streams and the bindings in \<open>lib/\<close> pass arguments to librdkafka, and
  the native addon is its binding; generated code; the checker for logical types, a development tool.
\<close>

end
